(* ===== verification/Prelude.thy ===== *)
theory Prelude
  imports Main "HOL-Library.Word"
begin

text \<open>
  Shared vocabulary of the development: the machine-integer types, \<open>Result\<close> values as sums
  with their bind, the fixed-width little-endian byte codecs of \<open>to_le_bytes\<close> and
  \<open>from_le_bytes\<close>, checked and saturating arithmetic, and list lemmas the components share.

  Rust's \<open>Result<T, E>\<close> is \<open>'e + 'a\<close> with \<open>Err = Inl\<close> and \<open>Ok = Inr\<close>; the \<open>?\<close> operator
  is \<open>rbind\<close>. A \<open>usize\<close> is a \<open>nat\<close>: every \<open>usize\<close> of the modelled code is an index into, or a
  length of, an in-memory slice, which Rust bounds by \<open>isize::MAX\<close>. Where the code guards a
  \<open>usize\<close> addition with \<open>checked_add\<close> the guard's error is always the error of the slice access
  that follows, so both have one branch here; where a \<open>usize\<close> saturates or overflows visibly the
  bound is written out with \<open>usize_max\<close>.
\<close>

section \<open>Machine integers and results\<close>

type_synonym u8 = "8 word"
type_synonym u16 = "16 word"
type_synonym u32 = "32 word"
type_synonym u64 = "64 word"
type_synonym bytes = "8 word list"

abbreviation Ok :: "'a \<Rightarrow> 'e + 'a" where "Ok \<equiv> Inr"
abbreviation Err :: "'e \<Rightarrow> 'e + 'a" where "Err \<equiv> Inl"

named_theorems wire_simps \<open>evaluation rules of the byte readers and writers\<close>
named_theorems wire_defs \<open>definitions unfolded when a codec is evaluated\<close>
named_theorems inv_intros \<open>preservation rules of the component invariants\<close>

definition rbind :: "'e + 'a \<Rightarrow> ('a \<Rightarrow> 'e + 'b) \<Rightarrow> 'e + 'b" where
  "rbind m f = (case m of Inl e \<Rightarrow> Inl e | Inr a \<Rightarrow> f a)"

definition map_err :: "('e \<Rightarrow> 'f) \<Rightarrow> 'e + 'a \<Rightarrow> 'f + 'a" where
  "map_err f m = (case m of Inl e \<Rightarrow> Inl (f e) | Inr a \<Rightarrow> Inr a)"

definition ok_or :: "'a option \<Rightarrow> 'e \<Rightarrow> 'e + 'a" where
  "ok_or x e = (case x of None \<Rightarrow> Inl e | Some a \<Rightarrow> Inr a)"

definition ensure :: "bool \<Rightarrow> 'e \<Rightarrow> 'e + unit" where
  "ensure b e = (if b then Inr () else Inl e)"

fun try_fold :: "('s \<Rightarrow> 'a \<Rightarrow> 'e + 's) \<Rightarrow> 's \<Rightarrow> 'a list \<Rightarrow> 'e + 's" where
  "try_fold f s [] = Inr s"
| "try_fold f s (x # xs) = rbind (f s x) (\<lambda>s'. try_fold f s' xs)"

definition u64_max :: nat where "u64_max = 2 ^ 64 - 1"
definition u32_max :: nat where "u32_max = 2 ^ 32 - 1"
definition usize_max :: nat where "usize_max = 2 ^ 64 - 1"

definition checked_add :: "'a::len word \<Rightarrow> 'a word \<Rightarrow> 'a word option" where
  "checked_add a b = (if unat a + unat b < 2 ^ LENGTH('a) then Some (a + b) else None)"

definition checked_sub :: "'a::len word \<Rightarrow> 'a word \<Rightarrow> 'a word option" where
  "checked_sub a b = (if b \<le> a then Some (a - b) else None)"

definition saturating_add :: "'a::len word \<Rightarrow> 'a word \<Rightarrow> 'a word" where
  "saturating_add a b = (if unat a + unat b < 2 ^ LENGTH('a) then a + b else - 1)"

definition saturating_sub :: "'a::len word \<Rightarrow> 'a word \<Rightarrow> 'a word" where
  "saturating_sub a b = (if b \<le> a then a - b else 0)"

fun le_bytes :: "nat \<Rightarrow> nat \<Rightarrow> bytes" where
  "le_bytes 0 n = []"
| "le_bytes (Suc k) n = word_of_nat (n mod 256) # le_bytes k (n div 256)"

fun le_nat :: "bytes \<Rightarrow> nat" where
  "le_nat [] = 0"
| "le_nat (b # bs) = unat b + 256 * le_nat bs"

definition u16_to_le :: "u16 \<Rightarrow> bytes" where "u16_to_le w = le_bytes 2 (unat w)"
definition u32_to_le :: "u32 \<Rightarrow> bytes" where "u32_to_le w = le_bytes 4 (unat w)"
definition u64_to_le :: "u64 \<Rightarrow> bytes" where "u64_to_le w = le_bytes 8 (unat w)"

definition u16_from_le :: "bytes \<Rightarrow> u16" where "u16_from_le bs = word_of_nat (le_nat bs)"
definition u32_from_le :: "bytes \<Rightarrow> u32" where "u32_from_le bs = word_of_nat (le_nat bs)"
definition u64_from_le :: "bytes \<Rightarrow> u64" where "u64_from_le bs = word_of_nat (le_nat bs)"

section \<open>Results\<close>

lemma rbind_simps [simp]:
  "rbind (Inl e) f = Inl e"
  "rbind (Inr a) f = f a"
  by (simp_all add: rbind_def)

lemma rbind_Inr_iff: "rbind m f = Inr b \<longleftrightarrow> (\<exists>a. m = Inr a \<and> f a = Inr b)"
  by (cases m) auto

lemma rbind_Inl_iff: "rbind m f = Inl e \<longleftrightarrow> m = Inl e \<or> (\<exists>a. m = Inr a \<and> f a = Inl e)"
  by (cases m) auto

lemma rbind_assoc: "rbind (rbind m f) g = rbind m (\<lambda>a. rbind (f a) g)"
  by (cases m) auto

lemma rbind_OkE:
  assumes "rbind m f = Inr b"
  obtains a where "m = Inr a" "f a = Inr b"
  using assms by (auto simp: rbind_Inr_iff)

lemma map_err_simps [simp]:
  "map_err f (Inl e) = Inl (f e)"
  "map_err f (Inr a) = Inr a"
  by (simp_all add: map_err_def)

lemma map_err_Inr_iff [simp]: "map_err f m = Inr a \<longleftrightarrow> m = Inr a"
  by (cases m) auto

lemma ok_or_simps [simp]:
  "ok_or None e = Inl e"
  "ok_or (Some a) e = Inr a"
  by (simp_all add: ok_or_def)

lemma ok_or_Inr_iff [simp]: "ok_or x e = Inr a \<longleftrightarrow> x = Some a"
  by (cases x) auto

lemma ensure_simps [simp]:
  "ensure True e = Inr ()"
  "ensure False e = Inl e"
  by (simp_all add: ensure_def)

lemma ensure_Inr_iff [simp]: "ensure b e = Inr u \<longleftrightarrow> b"
  by (simp add: ensure_def)

lemma try_fold_append:
  "try_fold f s (xs @ ys) = rbind (try_fold f s xs) (\<lambda>s'. try_fold f s' ys)"
  by (induction xs arbitrary: s) (auto simp: rbind_def split: sum.splits)

section \<open>Checked and saturating arithmetic\<close>

lemma unat_bound: "unat (w :: 'a::len word) < 2 ^ LENGTH('a)"
  by (rule unsigned_less)

lemma unat_u8_less: "unat (b :: u8) < 256"
  using unat_bound [of b] by simp

lemma checked_add_Some:
  "checked_add a b = Some c \<longleftrightarrow> unat a + unat b < 2 ^ LENGTH('a) \<and> c = (a + b :: 'a::len word)"
  by (auto simp: checked_add_def)

lemma unat_checked_add:
  "checked_add a b = Some (c :: 'a::len word) \<Longrightarrow> unat c = unat a + unat b"
  by (auto simp: checked_add_Some unat_word_ariths)

lemma unat_checked_sub:
  "checked_sub a b = Some (c :: 'a::len word) \<Longrightarrow> unat b \<le> unat a \<and> unat c = unat a - unat b"
  by (auto simp: checked_sub_def unat_sub word_le_nat_alt split: if_splits)

lemma checked_sub_None: "checked_sub a b = None \<longleftrightarrow> unat a < unat (b :: 'a::len word)"
  by (auto simp: checked_sub_def word_le_nat_alt)

lemma unat_saturating_add:
  "unat (saturating_add a b :: 'a::len word) = min (unat a + unat b) (2 ^ LENGTH('a) - 1)"
  by (auto simp: saturating_add_def unat_word_ariths unsigned_minus_1_eq_mask mask_eq_exp_minus_1)

lemma unat_saturating_sub: "unat (saturating_sub a b :: 'a::len word) = unat a - unat b"
  by (auto simp: saturating_sub_def unat_sub word_le_nat_alt)

section \<open>Little-endian codecs\<close>

lemma length_le_bytes [simp]: "length (le_bytes k n) = k"
  by (induction k arbitrary: n) auto

lemma le_nat_bound: "le_nat bs < 256 ^ length bs"
proof (induction bs)
  case Nil
  then show ?case by simp
next
  case (Cons b bs)
  have "unat b < 256" using unat_bound [of b] by simp
  with Cons.IH show ?case by simp
qed

lemma le_nat_le_bytes: "le_nat (le_bytes k n) = n mod 256 ^ k"
proof (induction k arbitrary: n)
  case 0
  then show ?case by simp
next
  case (Suc k)
  have "unat (word_of_nat (n mod 256) :: u8) = n mod 256"
    by (simp add: unat_of_nat take_bit_eq_mod)
  then show ?case
    using Suc by (simp add: mod_mult2_eq add.commute)
qed

lemma le_bytes_le_nat: "le_bytes (length bs) (le_nat bs) = bs"
proof (induction bs)
  case Nil
  then show ?case by simp
next
  case (Cons b bs)
  have lt: "unat b < 256" using unat_bound [of b] by simp
  then have "(unat b + 256 * le_nat bs) mod 256 = unat b"
    and "(unat b + 256 * le_nat bs) div 256 = le_nat bs" by simp_all
  with Cons show ?case by simp
qed

text \<open>
  A fixed-width codec: what a reader and a writer of one wire field promise each other. The
  width, the encoder's length, and that each side undoes the other on strings of that width.
\<close>

locale fixed_codec =
  fixes width :: nat
    and enc :: "'a \<Rightarrow> bytes"
    and dec :: "bytes \<Rightarrow> 'a"
  assumes enc_length: "length (enc a) = width"
    and dec_enc: "dec (enc a) = a"
    and enc_dec: "length bs = width \<Longrightarrow> enc (dec bs) = bs"
begin

lemma enc_inject: "enc a = enc b \<longleftrightarrow> a = b"
  using dec_enc by metis

lemma take_enc: "take width (enc a @ rest) = enc a"
  using enc_length [of a] by simp

lemma drop_enc: "drop width (enc a @ rest) = rest"
  using enc_length [of a] by simp

lemma split_field:
  assumes "width \<le> length bs"
  shows "bs = enc (dec (take width bs)) @ drop width bs"
  using assms by (simp add: enc_dec)

end

interpretation u16_codec: fixed_codec 2 u16_to_le u16_from_le
proof unfold_locales
  fix a :: u16 and bs :: bytes
  show "length (u16_to_le a) = 2" by (simp add: u16_to_le_def)
  have "unat a < 2 ^ 16" using unat_bound [of a] by simp
  then show "u16_from_le (u16_to_le a) = a"
    by (simp add: u16_from_le_def u16_to_le_def le_nat_le_bytes)
  assume "length bs = 2"
  then show "u16_to_le (u16_from_le bs) = bs"
    using le_nat_bound [of bs] le_bytes_le_nat [of bs]
    by (simp add: u16_from_le_def u16_to_le_def unat_of_nat take_bit_eq_mod)
qed

interpretation u32_codec: fixed_codec 4 u32_to_le u32_from_le
proof unfold_locales
  fix a :: u32 and bs :: bytes
  show "length (u32_to_le a) = 4" by (simp add: u32_to_le_def)
  have "unat a < 2 ^ 32" using unat_bound [of a] by simp
  then show "u32_from_le (u32_to_le a) = a"
    by (simp add: u32_from_le_def u32_to_le_def le_nat_le_bytes)
  assume "length bs = 4"
  then show "u32_to_le (u32_from_le bs) = bs"
    using le_nat_bound [of bs] le_bytes_le_nat [of bs]
    by (simp add: u32_from_le_def u32_to_le_def unat_of_nat take_bit_eq_mod)
qed

interpretation u64_codec: fixed_codec 8 u64_to_le u64_from_le
proof unfold_locales
  fix a :: u64 and bs :: bytes
  show "length (u64_to_le a) = 8" by (simp add: u64_to_le_def)
  have "unat a < 2 ^ 64" using unat_bound [of a] by simp
  then show "u64_from_le (u64_to_le a) = a"
    by (simp add: u64_from_le_def u64_to_le_def le_nat_le_bytes)
  assume "length bs = 8"
  then show "u64_to_le (u64_from_le bs) = bs"
    using le_nat_bound [of bs] le_bytes_le_nat [of bs]
    by (simp add: u64_from_le_def u64_to_le_def unat_of_nat take_bit_eq_mod)
qed

lemmas le_codec_simps [simp] =
  u16_codec.enc_length u16_codec.dec_enc
  u32_codec.enc_length u32_codec.dec_enc
  u64_codec.enc_length u64_codec.dec_enc

lemma unat_word_of_nat_small [simp]:
  "n < 2 ^ LENGTH('a) \<Longrightarrow> unat (word_of_nat n :: 'a::len word) = n"
  by (simp add: unat_of_nat take_bit_eq_mod)

end
