(* ===== verification/Wire_IO.thy ===== *)
theory Wire_IO
  imports Prelude
begin

text \<open>
  The byte cursors of the compact KSPT wire grammar
  (\<open>transaction/interchange/kspt/wire/io.rs\<close>, \<open>error.rs\<close>): the bounds-checked \<open>Reader\<close> and
  \<open>Writer\<close>, and their scripts with a one- or three-byte length prefix.

  The lemmas give the two views the codec proofs use. A reader that has consumed \<open>p\<close> and still
  has \<open>s\<close> ahead is \<open>reading p s\<close>, and every read on it has an evaluation rule. A writer action
  \<open>f\<close> satisfies \<open>emits f (bs, e)\<close> when, on every buffer, it appends \<open>bs\<close> and then fails with \<open>e\<close>
  if there is one; a buffer that is too short for \<open>bs\<close> gives \<open>OutputBufferTooSmall\<close>.
\<close>

section \<open>Definitions\<close>

datatype wire_error =
    BufferTooShort | OutputBufferTooSmall | InvalidMagic | UnsupportedVersion | InvalidFlags
  | CountOverflow | ScriptTooLong | RedeemTooLong | TooManySignatures
  | DuplicateSignaturePosition | InvalidSigHashType | InvalidNetwork | MissingNetwork
  | InvalidTrailer | TrailingData | TooManyInputs | TooManyOutputs | PayloadTooLong
  | UnsupportedTransactionVersion | NonCanonicalEncoding

definition MAX_SCRIPT_SIZE :: nat where "MAX_SCRIPT_SIZE = 512"
definition MAX_REDEEM_SIZE :: nat where "MAX_REDEEM_SIZE = 1024"
definition EXTENDED_SCRIPT_LENGTH :: u8 where "EXTENDED_SCRIPT_LENGTH = 0xff"

record reader =
  rd_data :: bytes
  rd_pos :: nat

definition reader_new :: "bytes \<Rightarrow> reader" where
  "reader_new data = \<lparr>rd_data = data, rd_pos = 0\<rparr>"

definition rd_remaining :: "reader \<Rightarrow> nat" where
  "rd_remaining r = length (rd_data r) - rd_pos r"

definition rd_peek :: "reader \<Rightarrow> u8 option" where
  "rd_peek r = (if rd_pos r < length (rd_data r) then Some (rd_data r ! rd_pos r) else None)"

definition rd_bytes :: "nat \<Rightarrow> reader \<Rightarrow> wire_error + bytes \<times> reader" where
  "rd_bytes count r =
     (let end = rd_pos r + count in
      if end \<le> length (rd_data r)
      then Ok (take count (drop (rd_pos r) (rd_data r)), r\<lparr>rd_pos := end\<rparr>)
      else Err BufferTooShort)"

definition rd_u8 :: "reader \<Rightarrow> wire_error + u8 \<times> reader" where
  "rd_u8 r = rbind (rd_bytes 1 r) (\<lambda>(bs, r). Ok (bs ! 0, r))"

definition rd_u16 :: "reader \<Rightarrow> wire_error + u16 \<times> reader" where
  "rd_u16 r = rbind (rd_bytes 2 r) (\<lambda>(bs, r). Ok (u16_from_le bs, r))"

definition rd_u32 :: "reader \<Rightarrow> wire_error + u32 \<times> reader" where
  "rd_u32 r = rbind (rd_bytes 4 r) (\<lambda>(bs, r). Ok (u32_from_le bs, r))"

definition rd_u64 :: "reader \<Rightarrow> wire_error + u64 \<times> reader" where
  "rd_u64 r = rbind (rd_bytes 8 r) (\<lambda>(bs, r). Ok (u64_from_le bs, r))"

definition rd_script :: "reader \<Rightarrow> wire_error + bytes \<times> reader" where
  "rd_script r =
     rbind (rd_u8 r) (\<lambda>(prefix, r).
     rbind (if prefix = EXTENDED_SCRIPT_LENGTH
            then rbind (rd_u16 r) (\<lambda>(n, r).
                   if unat n < unat EXTENDED_SCRIPT_LENGTH then Err NonCanonicalEncoding
                   else Ok (unat n, r))
            else Ok (unat prefix, r)) (\<lambda>(len, r).
     if len > MAX_SCRIPT_SIZE then Err ScriptTooLong else rd_bytes len r))"

record writer =
  wr_output :: bytes
  wr_pos :: nat

definition writer_new :: "bytes \<Rightarrow> writer" where
  "writer_new output = \<lparr>wr_output = output, wr_pos = 0\<rparr>"

definition wr_bytes :: "bytes \<Rightarrow> writer \<Rightarrow> wire_error + writer" where
  "wr_bytes value w =
     (let end = wr_pos w + length value in
      if end \<le> length (wr_output w)
      then Ok (w\<lparr>wr_output := take (wr_pos w) (wr_output w) @ value @ drop end (wr_output w),
                 wr_pos := end\<rparr>)
      else Err OutputBufferTooSmall)"

definition wr_u8 :: "u8 \<Rightarrow> writer \<Rightarrow> wire_error + writer" where
  "wr_u8 value = wr_bytes [value]"

definition wr_u16 :: "u16 \<Rightarrow> writer \<Rightarrow> wire_error + writer" where
  "wr_u16 value = wr_bytes (u16_to_le value)"

definition wr_u32 :: "u32 \<Rightarrow> writer \<Rightarrow> wire_error + writer" where
  "wr_u32 value = wr_bytes (u32_to_le value)"

definition wr_u64 :: "u64 \<Rightarrow> writer \<Rightarrow> wire_error + writer" where
  "wr_u64 value = wr_bytes (u64_to_le value)"

definition u16_try_from :: "nat \<Rightarrow> u16 option" where
  "u16_try_from n = (if n < 2 ^ 16 then Some (word_of_nat n) else None)"

definition wr_script :: "bytes \<Rightarrow> writer \<Rightarrow> wire_error + writer" where
  "wr_script value w =
     (if length value > MAX_SCRIPT_SIZE then Err ScriptTooLong
      else rbind
        (if length value < unat EXTENDED_SCRIPT_LENGTH
         then wr_u8 (word_of_nat (length value)) w
         else rbind (wr_u8 EXTENDED_SCRIPT_LENGTH w) (\<lambda>w.
              rbind (ok_or (u16_try_from (length value)) ScriptTooLong) (\<lambda>n. wr_u16 n w)))
        (wr_bytes value))"

section \<open>Reading\<close>

text \<open>A reader that has consumed \<open>p\<close> and has \<open>s\<close> ahead.\<close>

definition reading :: "bytes \<Rightarrow> bytes \<Rightarrow> reader" where
  "reading p s = \<lparr>rd_data = p @ s, rd_pos = length p\<rparr>"

lemma reader_new_reading: "reader_new data = reading [] data"
  by (simp add: reader_new_def reading_def)

lemma rd_remaining_reading [simp]: "rd_remaining (reading p s) = length s"
  by (simp add: rd_remaining_def reading_def)

lemma rd_peek_reading [simp]: "rd_peek (reading p s) = (case s of [] \<Rightarrow> None | b # _ \<Rightarrow> Some b)"
  by (auto simp: rd_peek_def reading_def nth_append split: list.splits)

lemma rd_bytes_reading:
  "rd_bytes n (reading p s) =
     (if n \<le> length s then Ok (take n s, reading (p @ take n s) (drop n s)) else Err BufferTooShort)"
  by (auto simp: rd_bytes_def reading_def)

lemma rd_bytes_append [wire_simps]:
  "length bs = n \<Longrightarrow> rd_bytes n (reading p (bs @ s)) = Ok (bs, reading (p @ bs) s)"
  by (simp add: rd_bytes_reading)

lemma rd_u8_Cons [wire_simps]: "rd_u8 (reading p (b # s)) = Ok (b, reading (p @ [b]) s)"
  by (simp add: rd_u8_def rd_bytes_reading)

lemma rd_u16_append [wire_simps]:
  "rd_u16 (reading p (u16_to_le w @ s)) = Ok (w, reading (p @ u16_to_le w) s)"
  by (simp add: rd_u16_def wire_simps)

lemma rd_u32_append [wire_simps]:
  "rd_u32 (reading p (u32_to_le w @ s)) = Ok (w, reading (p @ u32_to_le w) s)"
  by (simp add: rd_u32_def wire_simps)

lemma rd_u64_append [wire_simps]:
  "rd_u64 (reading p (u64_to_le w @ s)) = Ok (w, reading (p @ u64_to_le w) s)"
  by (simp add: rd_u64_def wire_simps)

text \<open>Every successful read splits what is ahead; these are the inversion rules.\<close>

lemma rd_bytes_Ok:
  assumes "rd_bytes n (reading p s) = Ok (bs, r)"
  obtains s' where "s = bs @ s'" "length bs = n" "r = reading (p @ bs) s'"
proof -
  have n: "n \<le> length s" and bs: "bs = take n s" and r: "r = reading (p @ take n s) (drop n s)"
    using assms by (auto simp: rd_bytes_reading split: if_splits)
  show thesis
    by (rule that [of "drop n s"]) (use n bs r in simp_all)
qed

lemma rd_u8_Ok:
  assumes "rd_u8 (reading p s) = Ok (b, r)"
  obtains s' where "s = b # s'" "r = reading (p @ [b]) s'"
  using assms
  by (auto simp: rd_u8_def rd_bytes_reading rbind_Inr_iff length_Suc_conv Suc_le_length_iff
      split: if_splits)

lemma rd_u16_Ok:
  assumes "rd_u16 (reading p s) = Ok (w, r)"
  obtains s' where "s = u16_to_le w @ s'" "r = reading (p @ u16_to_le w) s'"
  using assms by (auto simp: rd_u16_def rbind_Inr_iff u16_codec.enc_dec elim!: rd_bytes_Ok)

lemma rd_u32_Ok:
  assumes "rd_u32 (reading p s) = Ok (w, r)"
  obtains s' where "s = u32_to_le w @ s'" "r = reading (p @ u32_to_le w) s'"
  using assms by (auto simp: rd_u32_def rbind_Inr_iff u32_codec.enc_dec elim!: rd_bytes_Ok)

lemma rd_u64_Ok:
  assumes "rd_u64 (reading p s) = Ok (w, r)"
  obtains s' where "s = u64_to_le w @ s'" "r = reading (p @ u64_to_le w) s'"
  using assms by (auto simp: rd_u64_def rbind_Inr_iff u64_codec.enc_dec elim!: rd_bytes_Ok)

section \<open>Emission: what a writer action does on every buffer\<close>

type_synonym emission = "bytes \<times> wire_error option"

definition em_seq :: "emission \<Rightarrow> emission \<Rightarrow> emission" where
  "em_seq a b = (case snd a of None \<Rightarrow> (fst a @ fst b, snd b) | Some e \<Rightarrow> a)"

fun em_list :: "emission list \<Rightarrow> emission" where
  "em_list [] = ([], None)"
| "em_list (a # as) = em_seq a (em_list as)"

definition push :: "bytes \<Rightarrow> writer \<Rightarrow> writer" where
  "push bs w = w\<lparr>wr_output := take (wr_pos w) (wr_output w) @ bs
                                @ drop (wr_pos w + length bs) (wr_output w),
                 wr_pos := wr_pos w + length bs\<rparr>"

definition run_emission :: "emission \<Rightarrow> writer \<Rightarrow> wire_error + writer" where
  "run_emission a w =
     (if length (wr_output w) < wr_pos w + length (fst a) then Err OutputBufferTooSmall
      else case snd a of None \<Rightarrow> Ok (push (fst a) w) | Some e \<Rightarrow> Err e)"

definition emits :: "(writer \<Rightarrow> wire_error + writer) \<Rightarrow> emission \<Rightarrow> bool" where
  "emits f a \<longleftrightarrow> (\<forall>w. wr_pos w \<le> length (wr_output w) \<longrightarrow> f w = run_emission a w)"

lemma em_seq_None [simp]: "em_seq (bs, None) b = (bs @ fst b, snd b)"
  by (simp add: em_seq_def)

lemma em_seq_Some [simp]: "em_seq (bs, Some e) b = (bs, Some e)"
  by (simp add: em_seq_def)

lemma snd_em_seq: "snd (em_seq a b) = None \<longleftrightarrow> snd a = None \<and> snd b = None"
  by (auto simp: em_seq_def split: option.splits)

lemma fst_em_seq: "snd a = None \<Longrightarrow> fst (em_seq a b) = fst a @ fst b"
  by (simp add: em_seq_def)

lemma snd_em_list: "snd (em_list as) = None \<longleftrightarrow> (\<forall>a\<in>set as. snd a = None)"
  by (induction as) (auto simp: snd_em_seq)

lemma fst_em_list: "snd (em_list as) = None \<Longrightarrow> fst (em_list as) = concat (map fst as)"
  by (induction as) (auto simp: snd_em_seq fst_em_seq)

lemma push_pos: "wr_pos w + length bs \<le> length (wr_output w) \<Longrightarrow>
    wr_pos (push bs w) \<le> length (wr_output (push bs w))
      \<and> length (wr_output (push bs w)) = length (wr_output w)
      \<and> wr_pos (push bs w) = wr_pos w + length bs"
  by (simp add: push_def)

lemma push_push:
  "wr_pos w + length a \<le> length (wr_output w) \<Longrightarrow> push b (push a w) = push (a @ b) w"
  by (simp add: push_def ac_simps)

lemma emits_bytes: "emits (wr_bytes v) (v, None)"
  by (auto simp: emits_def run_emission_def wr_bytes_def push_def Let_def)

lemma emits_ret: "emits Inr ([], None)"
  by (auto simp: emits_def run_emission_def push_def)

lemma emits_fail: "emits (\<lambda>w. Err e) ([], Some e)"
  by (auto simp: emits_def run_emission_def)

lemma emits_seq:
  assumes f: "emits f a" and g: "emits g b"
  shows "emits (\<lambda>w. rbind (f w) g) (em_seq a b)"
proof (unfold emits_def, intro allI impI)
  fix w :: writer assume w: "wr_pos w \<le> length (wr_output w)"
  obtain abs ae where a: "a = (abs, ae)" by (cases a)
  have fw: "f w = run_emission a w" using f w by (simp add: emits_def)
  show "rbind (f w) g = run_emission (em_seq a b) w"
  proof (cases "ae = None \<and> wr_pos w + length abs \<le> length (wr_output w)")
    case True
    let ?w = "push abs w"
    from True push_pos [of w abs] have p: "wr_pos ?w \<le> length (wr_output ?w)"
        "length (wr_output ?w) = length (wr_output w)" "wr_pos ?w = wr_pos w + length abs" by auto
    have "g ?w = run_emission b ?w" using g p(1) by (simp add: emits_def)
    with True a fw p push_push [of w abs "fst b"] show ?thesis
      by (auto simp: run_emission_def split: option.splits)
  next
    case False
    with a fw show ?thesis by (auto simp: run_emission_def em_seq_def split: option.splits)
  qed
qed

lemma emits_cong: "emits f a \<Longrightarrow> a = b \<Longrightarrow> emits f b"
  by simp

lemma emits_if:
  "(c \<Longrightarrow> emits f a) \<Longrightarrow> (\<not> c \<Longrightarrow> emits g b)
     \<Longrightarrow> emits (\<lambda>w. if c then f w else g w) (if c then a else b)"
  by (cases c) simp_all

lemma emits_ok_or:
  "(\<And>x. m = Some x \<Longrightarrow> emits (g x) (h x)) \<Longrightarrow>
   emits (\<lambda>w. rbind (ok_or m e) (\<lambda>x. g x w)) (case m of None \<Rightarrow> ([], Some e) | Some x \<Rightarrow> h x)"
  by (cases m) (simp_all add: emits_fail)

lemma emits_fold:
  assumes "\<And>x. x \<in> set xs \<Longrightarrow> emits (f x) (g x)"
  shows "emits (\<lambda>w. try_fold (\<lambda>w x. f x w) w xs) (em_list (map g xs))"
  using assms
proof (induction xs)
  case Nil
  show ?case using emits_ret by (simp add: emits_def)
next
  case (Cons x xs)
  have "emits (\<lambda>w. rbind (f x w) (\<lambda>w. try_fold (\<lambda>w x. f x w) w xs))
          (em_seq (g x) (em_list (map g xs)))"
    by (rule emits_seq) (use Cons in auto)
  then show ?case by simp
qed

lemma emits_u8: "emits (wr_u8 b) ([b], None)"
  by (simp add: wr_u8_def emits_bytes)

lemma emits_u16: "emits (wr_u16 x) (u16_to_le x, None)"
  by (simp add: wr_u16_def emits_bytes)

lemma emits_u32: "emits (wr_u32 x) (u32_to_le x, None)"
  by (simp add: wr_u32_def emits_bytes)

lemma emits_u64: "emits (wr_u64 x) (u64_to_le x, None)"
  by (simp add: wr_u64_def emits_bytes)

lemmas emits_fields = emits_bytes emits_u8 emits_u16 emits_u32 emits_u64

section \<open>Scripts\<close>

definition script_bytes_enc :: "bytes \<Rightarrow> bytes" where
  "script_bytes_enc v =
     (if length v < 255 then [word_of_nat (length v)] else 255 # u16_to_le (word_of_nat (length v))) @ v"

definition em_script :: "bytes \<Rightarrow> emission" where
  "em_script v = (if length v > MAX_SCRIPT_SIZE then ([], Some ScriptTooLong)
                  else (script_bytes_enc v, None))"

lemma emits_script: "emits (wr_script v) (em_script v)"
proof -
  have short: "emits (\<lambda>w. rbind (wr_u8 (word_of_nat (length v)) w) (wr_bytes v))
      (em_seq ([word_of_nat (length v)], None) (v, None))"
    by (intro emits_seq emits_fields)
  have long: "emits (\<lambda>w. rbind (rbind (wr_u8 255 w) (wr_u16 (word_of_nat (length v)))) (wr_bytes v))
      (em_seq (em_seq ([255], None) (u16_to_le (word_of_nat (length v)), None)) (v, None))"
    by (intro emits_seq emits_fields)
  show ?thesis
    using short long emits_fail [of ScriptTooLong]
    by (auto simp: emits_def wr_script_def em_script_def script_bytes_enc_def MAX_SCRIPT_SIZE_def
        EXTENDED_SCRIPT_LENGTH_def u16_try_from_def)
qed

lemma rd_script_enc [wire_simps]:
  assumes "length v \<le> MAX_SCRIPT_SIZE"
  shows "rd_script (reading p (script_bytes_enc v @ s)) = Ok (v, reading (p @ script_bytes_enc v) s)"
proof (cases "length v < 255")
  case True
  have ne: "(word_of_nat (length v) :: u8) \<noteq> 255"
  proof
    assume "(word_of_nat (length v) :: u8) = 255"
    then have "unat (word_of_nat (length v) :: u8) = 255" by simp
    with True show False by simp
  qed
  with True assms show ?thesis
    by (simp add: rd_script_def script_bytes_enc_def EXTENDED_SCRIPT_LENGTH_def wire_simps)
next
  case False
  with assms show ?thesis
    by (simp add: rd_script_def script_bytes_enc_def EXTENDED_SCRIPT_LENGTH_def MAX_SCRIPT_SIZE_def
        wire_simps)
qed

end
