(* ===== verification/Wire_Model.thy ===== *)
theory Wire_Model
  imports Wire_IO
begin

text \<open>
  Value types and limits of the KSPT v1 grammar (\<open>kspt/wire/model.rs\<close>, \<open>kspt/format.rs\<close>), with
  the two traits through which consumers meet the grammar. \<open>EncodeSource\<close> is a record of its
  methods. \<open>DecodeSink\<close> is a function on \<open>decode_call\<close>, which has one constructor per trait
  method: applying it to a call and the sink state runs that method, and a method that fails
  returns its error together with the state it leaves behind.
\<close>

unbundle bit_operations_syntax

section \<open>Constants\<close>

definition MAGIC :: bytes where "MAGIC = [0x4b, 0x53, 0x50, 0x54]"
definition KSPT_VERSION :: u8 where "KSPT_VERSION = 0x01"
definition FLAG_SIGNED_OR_COMPLETE :: u8 where "FLAG_SIGNED_OR_COMPLETE = 0x01"
definition ALLOWED_FLAGS :: u8 where "ALLOWED_FLAGS = FLAG_SIGNED_OR_COMPLETE"
definition STEALTH_MARKER :: u8 where "STEALTH_MARKER = 83"
definition COVENANT_MARKER :: u8 where "COVENANT_MARKER = 67"
definition NETWORK_MARKER :: u8 where "NETWORK_MARKER = 78"
definition OUTPUT_DERIVATION_MARKER :: u8 where "OUTPUT_DERIVATION_MARKER = 68"
definition INPUT_DERIVATION_MARKER :: u8 where "INPUT_DERIVATION_MARKER = 65"
definition COVENANT_EXECUTION_MARKER :: u8 where "COVENANT_EXECUTION_MARKER = 69"
definition MS45_INPUT_MARKER :: u8 where "MS45_INPUT_MARKER = 73"
definition MS45_OUTPUT_MARKER :: u8 where "MS45_OUTPUT_MARKER = 79"

definition MAX_SIGNATURE_RECORDS :: nat where "MAX_SIGNATURE_RECORDS = 5"
definition MAX_OUTPUTS :: nat where "MAX_OUTPUTS = 8"
definition MAX_PAYLOAD_SIZE :: nat where "MAX_PAYLOAD_SIZE = 250000"
definition MAX_SUPPORTED_TX_VERSION :: u16 where "MAX_SUPPORTED_TX_VERSION = 1"

lemmas marker_defs =
  STEALTH_MARKER_def COVENANT_MARKER_def NETWORK_MARKER_def OUTPUT_DERIVATION_MARKER_def
  INPUT_DERIVATION_MARKER_def COVENANT_EXECUTION_MARKER_def MS45_INPUT_MARKER_def
  MS45_OUTPUT_MARKER_def

definition supported_tx_version :: "u16 \<Rightarrow> bool" where
  "supported_tx_version version = (version \<le> MAX_SUPPORTED_TX_VERSION)"

section \<open>Limits\<close>

record limits =
  lim_max_inputs :: u32
  lim_max_outputs :: u8
  lim_max_payload :: nat

definition limits_grammar :: limits where
  "limits_grammar = \<lparr>lim_max_inputs = - 1, lim_max_outputs = word_of_nat MAX_OUTPUTS,
                     lim_max_payload = MAX_PAYLOAD_SIZE\<rparr>"

definition limits_validate_inputs :: "limits \<Rightarrow> u32 \<Rightarrow> wire_error + unit" where
  "limits_validate_inputs l input_count =
     (if input_count > lim_max_inputs l then Err TooManyInputs else Ok ())"

definition limits_validate_outputs :: "limits \<Rightarrow> u8 \<Rightarrow> wire_error + unit" where
  "limits_validate_outputs l output_count =
     (if output_count > lim_max_outputs l then Err TooManyOutputs else Ok ())"

definition limits_validate_payload :: "limits \<Rightarrow> nat \<Rightarrow> wire_error + unit" where
  "limits_validate_payload l payload_len =
     (if payload_len > lim_max_payload l then Err PayloadTooLong else Ok ())"

section \<open>Values\<close>

text \<open>A fixed-size array \<open>[u8; N]\<close> is a list; \<open>source_arrays\<close> states the lengths Rust's types give.\<close>

record global =
  g_flags :: u8
  g_version :: u16
  g_input_count :: u32
  g_output_count :: u8
  g_locktime :: u64
  g_subnetwork_id :: bytes
  g_gas :: u64
  g_payload :: bytes

record wire_input =
  wi_previous_tx_id :: bytes
  wi_previous_index :: u32
  wi_amount :: u64
  wi_sequence :: u64
  wi_sig_op_count :: u8
  wi_script_version :: u16
  wi_script :: bytes

record signature =
  sg_position :: u8
  sg_sighash :: u8
  sg_bytes :: bytes

record wire_output =
  wo_amount :: u64
  wo_script_version :: u16
  wo_script :: bytes

record derivation =
  dv_branch :: u8
  dv_index :: u32

record ms45_derivation =
  ms_cosigner :: u32
  ms_chain :: u32
  ms_index :: u32

record covenant_execution =
  ce_supplied_mask :: u16
  ce_supplied_true_mask :: u16

record covenant =
  cv_authorizing_input :: u16
  cv_id :: bytes

definition valid_covenant_execution :: "covenant_execution \<Rightarrow> bool" where
  "valid_covenant_execution v = (ce_supplied_true_mask v AND NOT (ce_supplied_mask v) = 0)"

definition valid_sighash :: "u8 \<Rightarrow> bool" where
  "valid_sighash v = (v \<in> {0x01, 0x02, 0x04, 0x81, 0x82, 0x84})"

definition valid_network :: "u8 \<Rightarrow> bool" where
  "valid_network v = (v \<ge> 1 \<and> v \<le> 4)"

definition valid_derivation :: "derivation \<Rightarrow> bool" where
  "valid_derivation v = (dv_branch v \<le> 1 \<and> dv_index v < 0x80000000)"

definition valid_ms45 :: "ms45_derivation \<Rightarrow> bool" where
  "valid_ms45 v = (ms_chain v \<le> 1 \<and> ms_cosigner v < 0x80000000 \<and> ms_index v < 0x80000000)"

section \<open>The two traits\<close>

record encode_source =
  src_global :: global
  src_input :: "nat \<Rightarrow> wire_input"
  src_signature_count :: "nat \<Rightarrow> nat"
  src_signature :: "nat \<Rightarrow> nat \<Rightarrow> signature"
  src_redeem :: "nat \<Rightarrow> bytes"
  src_output :: "nat \<Rightarrow> wire_output"
  src_network :: u8
  src_stealth :: "bytes option"
  src_input_derivation :: "nat \<Rightarrow> derivation option"
  src_output_derivation :: "nat \<Rightarrow> derivation option"
  src_input_ms45 :: "nat \<Rightarrow> ms45_derivation option"
  src_output_ms45 :: "nat \<Rightarrow> ms45_derivation option"
  src_covenant :: "nat \<Rightarrow> covenant option"
  src_covenant_execution :: "nat \<Rightarrow> covenant_execution option"

datatype decode_call =
    CallGlobal global
  | CallInput nat wire_input u8
  | CallSignature nat nat signature
  | CallRedeem nat bytes
  | CallOutput nat wire_output
  | CallNetwork u8
  | CallStealth bytes
  | CallInputDerivation u8 derivation
  | CallOutputDerivation u8 derivation
  | CallInputMs45 u8 ms45_derivation
  | CallOutputMs45 u8 ms45_derivation
  | CallCovenant u8 u16 bytes
  | CallCovenantExecution u8 covenant_execution

type_synonym ('s, 'e) decode_sink = "decode_call \<Rightarrow> 's \<Rightarrow> ('e \<times> 's) + 's"

datatype 'e decode_error = Wire wire_error | Sink 'e

text \<open>Running a list of calls on a sink stops at the first method that fails.\<close>

fun run_calls :: "('s, 'e) decode_sink \<Rightarrow> decode_call list \<Rightarrow> 's \<Rightarrow> ('e decode_error \<times> 's) + 's" where
  "run_calls sink [] s = Ok s"
| "run_calls sink (c # cs) s =
     (case sink c s of Inl (e, s') \<Rightarrow> Err (Sink e, s') | Inr s' \<Rightarrow> run_calls sink cs s')"

lemma run_calls_append:
  "run_calls sink (cs @ ds) s = rbind (run_calls sink cs s) (run_calls sink ds)"
  by (induction cs arbitrary: s) (auto split: sum.splits)

text \<open>The sink that records every call, and never fails.\<close>

definition recording_sink :: "(decode_call list, 'e) decode_sink" where
  "recording_sink c s = Ok (s @ [c])"

lemma run_calls_recording: "run_calls recording_sink cs s = Ok (s @ cs)"
  by (induction cs arbitrary: s) (auto simp: recording_sink_def)

text \<open>
  Lengths of the fixed-size arrays a source hands out, which Rust's types enforce. The position
  of a per-input record is one byte on the wire.
\<close>

definition source_arrays :: "encode_source \<Rightarrow> bool" where
  "source_arrays src \<longleftrightarrow>
     length (g_subnetwork_id (src_global src)) = 20 \<and>
     (\<forall>i < unat (g_input_count (src_global src)). length (wi_previous_tx_id (src_input src i)) = 32 \<and>
        (\<forall>k < src_signature_count src i. length (sg_bytes (src_signature src i k)) = 64)) \<and>
     (\<forall>t. src_stealth src = Some t \<longrightarrow> length t = 32) \<and>
     (\<forall>i < unat (g_output_count (src_global src)). \<forall>c. src_covenant src i = Some c \<longrightarrow> length (cv_id c) = 32)"

end
