(* ===== verification/Wire_Encode.thy ===== *)
theory Wire_Encode
  imports Wire_Model
begin

text \<open>
  The KSPT v1 encoder (\<open>kspt/wire/encode.rs\<close>, and \<open>encode_vec\<close> of \<open>kspt/wire/mod.rs\<close>): every
  write function in the order of the source, on the bounds-checked writer.

  The lemmas determine the encoder completely: \<open>em_encode\<close> is the list of bytes it emits and the
  error, if any, that stops it, and \<open>encode_exact\<close> states what \<open>encode\<close> does on every buffer in
  terms of it. A source passes every check exactly when \<open>source_ok\<close> holds, and its bytes are then
  \<open>wire_bytes\<close>, the concatenation of the sections.
\<close>

section \<open>Definitions\<close>

definition validate_global :: "global \<Rightarrow> limits \<Rightarrow> wire_error + unit" where
  "validate_global g l =
     (if \<not> supported_tx_version (g_version g) then Err UnsupportedTransactionVersion
      else if g_flags g AND NOT ALLOWED_FLAGS \<noteq> 0 then Err InvalidFlags
      else rbind (limits_validate_inputs l (g_input_count g)) (\<lambda>_.
           rbind (limits_validate_outputs l (g_output_count g)) (\<lambda>_.
           limits_validate_payload l (length (g_payload g)))))"

definition write_header :: "u8 \<Rightarrow> writer \<Rightarrow> wire_error + writer" where
  "write_header flags w =
     rbind (wr_bytes MAGIC w) (\<lambda>w.
     rbind (wr_u8 KSPT_VERSION w) (\<lambda>w.
     wr_u8 flags w))"

definition u32_try_from :: "nat \<Rightarrow> u32 option" where
  "u32_try_from n = (if n < 2 ^ 32 then Some (word_of_nat n) else None)"

definition write_global :: "global \<Rightarrow> writer \<Rightarrow> wire_error + writer" where
  "write_global g w =
     rbind (wr_u16 (g_version g) w) (\<lambda>w.
     rbind (wr_u32 (g_input_count g) w) (\<lambda>w.
     rbind (wr_u8 (g_output_count g) w) (\<lambda>w.
     rbind (wr_u64 (g_locktime g) w) (\<lambda>w.
     rbind (wr_bytes (g_subnetwork_id g) w) (\<lambda>w.
     rbind (wr_u64 (g_gas g) w) (\<lambda>w.
     rbind (rbind (ok_or (u32_try_from (length (g_payload g))) CountOverflow) (\<lambda>n. wr_u32 n w)) (\<lambda>w.
     wr_bytes (g_payload g) w)))))))"

definition write_input_value :: "wire_input \<Rightarrow> writer \<Rightarrow> wire_error + writer" where
  "write_input_value v w =
     (if unat (wi_sig_op_count v) > MAX_SIGNATURE_RECORDS then Err TooManySignatures
      else
     rbind (wr_bytes (wi_previous_tx_id v) w) (\<lambda>w.
     rbind (wr_u32 (wi_previous_index v) w) (\<lambda>w.
     rbind (wr_u64 (wi_amount v) w) (\<lambda>w.
     rbind (wr_u64 (wi_sequence v) w) (\<lambda>w.
     rbind (wr_u8 (wi_sig_op_count v) w) (\<lambda>w.
     rbind (wr_u16 (wi_script_version v) w) (\<lambda>w.
     wr_script (wi_script v) w)))))))"

definition validate_signature_count :: "nat \<Rightarrow> wire_error + unit" where
  "validate_signature_count count =
     (if count > MAX_SIGNATURE_RECORDS then Err TooManySignatures else Ok ())"

definition write_signature ::
  "signature \<Rightarrow> (u8 \<Rightarrow> bool) \<Rightarrow> writer \<Rightarrow> wire_error + (u8 \<Rightarrow> bool) \<times> writer" where
  "write_signature sg seen w =
     (if seen (sg_position sg) then Err DuplicateSignaturePosition
      else let seen = seen(sg_position sg := True) in
      if \<not> valid_sighash (sg_sighash sg) then Err InvalidSigHashType
      else
     rbind (wr_u8 (sg_position sg) w) (\<lambda>w.
     rbind (wr_u8 (sg_sighash sg) w) (\<lambda>w.
     rbind (wr_bytes (sg_bytes sg) w) (\<lambda>w. Ok (seen, w)))))"

definition write_signatures :: "encode_source \<Rightarrow> nat \<Rightarrow> writer \<Rightarrow> wire_error + writer" where
  "write_signatures src index w =
     (let count = src_signature_count src index in
     rbind (validate_signature_count count) (\<lambda>_.
     rbind (wr_u8 (word_of_nat count) w) (\<lambda>w.
     rbind (try_fold (\<lambda>(seen, w) slot. write_signature (src_signature src index slot) seen w)
             (\<lambda>_. False, w) [0..<count]) (\<lambda>(seen, w).
     Ok w))))"

definition write_redeem :: "bytes \<Rightarrow> writer \<Rightarrow> wire_error + writer" where
  "write_redeem redeem w =
     (if length redeem > MAX_REDEEM_SIZE then Err RedeemTooLong
      else
     rbind (rbind (ok_or (u16_try_from (length redeem)) RedeemTooLong) (\<lambda>n. wr_u16 n w)) (\<lambda>w.
     wr_bytes redeem w))"

definition write_input :: "encode_source \<Rightarrow> nat \<Rightarrow> writer \<Rightarrow> wire_error + writer" where
  "write_input src index w =
     rbind (write_input_value (src_input src index) w) (\<lambda>w.
     rbind (write_signatures src index w) (\<lambda>w.
     write_redeem (src_redeem src index) w))"

definition write_output :: "wire_output \<Rightarrow> writer \<Rightarrow> wire_error + writer" where
  "write_output v w =
     rbind (wr_u64 (wo_amount v) w) (\<lambda>w.
     rbind (wr_u16 (wo_script_version v) w) (\<lambda>w.
     wr_script (wo_script v) w))"

definition position :: "nat \<Rightarrow> wire_error + u8" where
  "position index = (if index < 2 ^ 8 then Ok (word_of_nat index) else Err CountOverflow)"

definition write_network :: "u8 \<Rightarrow> writer \<Rightarrow> wire_error + writer" where
  "write_network code w =
     (if \<not> valid_network code then Err InvalidNetwork
      else rbind (wr_u8 NETWORK_MARKER w) (\<lambda>w. wr_u8 code w))"

definition write_derivation :: "u8 \<Rightarrow> nat \<Rightarrow> derivation \<Rightarrow> writer \<Rightarrow> wire_error + writer" where
  "write_derivation marker index v w =
     (if \<not> valid_derivation v then Err InvalidTrailer
      else
     rbind (wr_u8 marker w) (\<lambda>w.
     rbind (rbind (position index) (\<lambda>p. wr_u8 p w)) (\<lambda>w.
     rbind (wr_u8 (dv_branch v) w) (\<lambda>w.
     wr_u32 (dv_index v) w))))"

definition write_ms45 :: "u8 \<Rightarrow> nat \<Rightarrow> ms45_derivation \<Rightarrow> writer \<Rightarrow> wire_error + writer" where
  "write_ms45 marker index v w =
     (if \<not> valid_ms45 v then Err InvalidTrailer
      else
     rbind (wr_u8 marker w) (\<lambda>w.
     rbind (rbind (position index) (\<lambda>p. wr_u8 p w)) (\<lambda>w.
     rbind (wr_u32 (ms_cosigner v) w) (\<lambda>w.
     rbind (wr_u32 (ms_chain v) w) (\<lambda>w.
     wr_u32 (ms_index v) w)))))"

definition write_covenant :: "nat \<Rightarrow> covenant \<Rightarrow> writer \<Rightarrow> wire_error + writer" where
  "write_covenant index v w =
     rbind (wr_u8 COVENANT_MARKER w) (\<lambda>w.
     rbind (rbind (position index) (\<lambda>p. wr_u8 p w)) (\<lambda>w.
     rbind (wr_u16 (cv_authorizing_input v) w) (\<lambda>w.
     wr_bytes (cv_id v) w)))"

definition write_covenant_execution :: "nat \<Rightarrow> covenant_execution \<Rightarrow> writer \<Rightarrow> wire_error + writer" where
  "write_covenant_execution index v w =
     (if \<not> valid_covenant_execution v then Err InvalidTrailer
      else
     rbind (wr_u8 COVENANT_EXECUTION_MARKER w) (\<lambda>w.
     rbind (rbind (position index) (\<lambda>p. wr_u8 p w)) (\<lambda>w.
     rbind (wr_u16 (ce_supplied_mask v) w) (\<lambda>w.
     wr_u16 (ce_supplied_true_mask v) w))))"

text \<open>\<open>for index in 0..n { if let Some(value) = get(index) { write(index, value)? } }\<close>\<close>

definition for_present ::
  "(nat \<Rightarrow> 'v option) \<Rightarrow> (nat \<Rightarrow> 'v \<Rightarrow> writer \<Rightarrow> wire_error + writer) \<Rightarrow> nat \<Rightarrow> writer \<Rightarrow> wire_error + writer" where
  "for_present get write n w =
     try_fold (\<lambda>w index. case get index of None \<Rightarrow> Ok w | Some v \<Rightarrow> write index v w) w [0..<n]"

definition write_ms45_trailers :: "encode_source \<Rightarrow> nat \<Rightarrow> nat \<Rightarrow> writer \<Rightarrow> wire_error + writer" where
  "write_ms45_trailers src inputs outputs w =
     rbind (for_present (src_input_ms45 src) (write_ms45 MS45_INPUT_MARKER) inputs w) (\<lambda>w.
     for_present (src_output_ms45 src) (write_ms45 MS45_OUTPUT_MARKER) outputs w)"

definition write_stealth :: "bytes option \<Rightarrow> writer \<Rightarrow> wire_error + writer" where
  "write_stealth value w =
     (case value of None \<Rightarrow> Ok w
      | Some v \<Rightarrow> rbind (wr_u8 STEALTH_MARKER w) (\<lambda>w. wr_bytes v w))"

definition write_covenant_trailers :: "encode_source \<Rightarrow> nat \<Rightarrow> writer \<Rightarrow> wire_error + writer" where
  "write_covenant_trailers src outputs = for_present (src_covenant src) write_covenant outputs"

definition write_covenant_execution_trailers :: "encode_source \<Rightarrow> nat \<Rightarrow> writer \<Rightarrow> wire_error + writer" where
  "write_covenant_execution_trailers src inputs =
     for_present (src_covenant_execution src) write_covenant_execution inputs"

definition write_derivation_trailers :: "encode_source \<Rightarrow> nat \<Rightarrow> nat \<Rightarrow> writer \<Rightarrow> wire_error + writer" where
  "write_derivation_trailers src inputs outputs w =
     rbind (for_present (src_input_derivation src) (write_derivation INPUT_DERIVATION_MARKER) inputs w) (\<lambda>w.
     for_present (src_output_derivation src) (write_derivation OUTPUT_DERIVATION_MARKER) outputs w)"

definition write_trailers :: "encode_source \<Rightarrow> global \<Rightarrow> writer \<Rightarrow> wire_error + writer" where
  "write_trailers src g w =
     (let inputs = unat (g_input_count g); outputs = unat (g_output_count g) in
     rbind (write_network (src_network src) w) (\<lambda>w.
     rbind (write_ms45_trailers src inputs outputs w) (\<lambda>w.
     rbind (write_stealth (src_stealth src) w) (\<lambda>w.
     rbind (write_covenant_trailers src outputs w) (\<lambda>w.
     rbind (write_covenant_execution_trailers src inputs w) (\<lambda>w.
     write_derivation_trailers src inputs outputs w))))))"

definition encode :: "encode_source \<Rightarrow> bytes \<Rightarrow> limits \<Rightarrow> wire_error + nat \<times> bytes" where
  "encode src output l =
     (let g = src_global src in
     rbind (validate_global g l) (\<lambda>_.
     rbind (write_header (g_flags g) (writer_new output)) (\<lambda>w.
     rbind (write_global g w) (\<lambda>w.
     rbind (try_fold (\<lambda>w index. write_input src index w) w [0..<unat (g_input_count g)]) (\<lambda>w.
     rbind (try_fold (\<lambda>w index. write_output (src_output src index) w) w [0..<unat (g_output_count g)]) (\<lambda>w.
     rbind (write_trailers src g w) (\<lambda>w.
     Ok (wr_pos w, wr_output w))))))))"

text \<open>
  \<open>encode_vec\<close> grows the buffer until the envelope fits. The loop has no bound of its own; \<open>fuel\<close>
  counts its iterations and \<open>None\<close> is "still running". \<open>encode_vec_returns\<close> shows that 64 are
  enough, because the capacity starts at 1024 or more and doubling it 64 times overflows.
\<close>

definition encode_vec_capacity :: "encode_source \<Rightarrow> nat" where
  "encode_vec_capacity src =
     (let g = src_global src;
          sat_add = (\<lambda>a b. min (a + b) usize_max); sat_mul = (\<lambda>a b. min (a * b) usize_max)
      in sat_add (sat_add (sat_add 1024 (sat_mul (unat (g_input_count g)) 192))
                          (sat_mul (unat (g_output_count g)) 640))
                 (length (g_payload g)))"

fun encode_vec_loop :: "nat \<Rightarrow> encode_source \<Rightarrow> limits \<Rightarrow> nat \<Rightarrow> (wire_error + bytes) option" where
  "encode_vec_loop 0 src l capacity = None"
| "encode_vec_loop (Suc fuel) src l capacity =
     (case encode src (replicate capacity 0) l of
        Inr (len, output) \<Rightarrow> Some (Ok (take len output))
      | Inl e \<Rightarrow>
          if e = OutputBufferTooSmall
          then if capacity * 2 \<le> usize_max then encode_vec_loop fuel src l (capacity * 2)
               else Some (Err OutputBufferTooSmall)
          else Some (Err e))"

definition encode_vec :: "encode_source \<Rightarrow> limits \<Rightarrow> (wire_error + bytes) option" where
  "encode_vec src l = encode_vec_loop 64 src l (encode_vec_capacity src)"

section \<open>The bytes of each section\<close>

definition header_bytes :: "global \<Rightarrow> bytes" where
  "header_bytes g = MAGIC @ [KSPT_VERSION, g_flags g]"

definition global_bytes :: "global \<Rightarrow> bytes" where
  "global_bytes g =
     u16_to_le (g_version g) @ u32_to_le (g_input_count g) @ [g_output_count g] @ u64_to_le (g_locktime g)
     @ g_subnetwork_id g @ u64_to_le (g_gas g) @ u32_to_le (word_of_nat (length (g_payload g))) @ g_payload g"

definition input_value_bytes :: "wire_input \<Rightarrow> bytes" where
  "input_value_bytes v =
     wi_previous_tx_id v @ u32_to_le (wi_previous_index v) @ u64_to_le (wi_amount v)
     @ u64_to_le (wi_sequence v) @ [wi_sig_op_count v] @ u16_to_le (wi_script_version v)
     @ script_bytes_enc (wi_script v)"

definition signature_bytes :: "signature \<Rightarrow> bytes" where
  "signature_bytes v = [sg_position v, sg_sighash v] @ sg_bytes v"

definition signature_list :: "encode_source \<Rightarrow> nat \<Rightarrow> signature list" where
  "signature_list src i = map (src_signature src i) [0..<src_signature_count src i]"

definition redeem_bytes :: "bytes \<Rightarrow> bytes" where
  "redeem_bytes v = u16_to_le (word_of_nat (length v)) @ v"

definition input_bytes :: "encode_source \<Rightarrow> nat \<Rightarrow> bytes" where
  "input_bytes src i =
     input_value_bytes (src_input src i)
     @ [word_of_nat (src_signature_count src i)] @ concat (map signature_bytes (signature_list src i))
     @ redeem_bytes (src_redeem src i)"

definition output_bytes :: "wire_output \<Rightarrow> bytes" where
  "output_bytes v = u64_to_le (wo_amount v) @ u16_to_le (wo_script_version v) @ script_bytes_enc (wo_script v)"

definition derivation_body :: "derivation \<Rightarrow> bytes" where
  "derivation_body v = [dv_branch v] @ u32_to_le (dv_index v)"

definition ms45_body :: "ms45_derivation \<Rightarrow> bytes" where
  "ms45_body v = u32_to_le (ms_cosigner v) @ u32_to_le (ms_chain v) @ u32_to_le (ms_index v)"

definition covenant_body :: "covenant \<Rightarrow> bytes" where
  "covenant_body v = u16_to_le (cv_authorizing_input v) @ cv_id v"

definition covenant_execution_body :: "covenant_execution \<Rightarrow> bytes" where
  "covenant_execution_body v = u16_to_le (ce_supplied_mask v) @ u16_to_le (ce_supplied_true_mask v)"

definition group_bytes :: "u8 \<Rightarrow> ('v \<Rightarrow> bytes) \<Rightarrow> (nat \<Rightarrow> 'v option) \<Rightarrow> nat list \<Rightarrow> bytes" where
  "group_bytes marker body get ixs =
     concat (map (\<lambda>i. case get i of None \<Rightarrow> [] | Some v \<Rightarrow> [marker, word_of_nat i] @ body v) ixs)"

definition stealth_bytes :: "bytes option \<Rightarrow> bytes" where
  "stealth_bytes v = (case v of None \<Rightarrow> [] | Some tweak \<Rightarrow> STEALTH_MARKER # tweak)"

definition trailer_bytes :: "encode_source \<Rightarrow> bytes" where
  "trailer_bytes src =
     (let ins = [0..<unat (g_input_count (src_global src))];
          outs = [0..<unat (g_output_count (src_global src))] in
      [NETWORK_MARKER, src_network src]
      @ group_bytes MS45_INPUT_MARKER ms45_body (src_input_ms45 src) ins
      @ group_bytes MS45_OUTPUT_MARKER ms45_body (src_output_ms45 src) outs
      @ stealth_bytes (src_stealth src)
      @ group_bytes COVENANT_MARKER covenant_body (src_covenant src) outs
      @ group_bytes COVENANT_EXECUTION_MARKER covenant_execution_body (src_covenant_execution src) ins
      @ group_bytes INPUT_DERIVATION_MARKER derivation_body (src_input_derivation src) ins
      @ group_bytes OUTPUT_DERIVATION_MARKER derivation_body (src_output_derivation src) outs)"

definition wire_bytes :: "encode_source \<Rightarrow> bytes" where
  "wire_bytes src =
     (let g = src_global src in
      header_bytes g @ global_bytes g
      @ concat (map (input_bytes src) [0..<unat (g_input_count g)])
      @ concat (map (\<lambda>i. output_bytes (src_output src i)) [0..<unat (g_output_count g)])
      @ trailer_bytes src)"

section \<open>The checks the encoder makes\<close>

definition global_ok :: "global \<Rightarrow> limits \<Rightarrow> bool" where
  "global_ok g l \<longleftrightarrow>
     supported_tx_version (g_version g) \<and> g_flags g AND NOT ALLOWED_FLAGS = 0
     \<and> g_input_count g \<le> lim_max_inputs l \<and> g_output_count g \<le> lim_max_outputs l
     \<and> length (g_payload g) \<le> lim_max_payload l"

definition signatures_ok :: "signature list \<Rightarrow> bool" where
  "signatures_ok sgs \<longleftrightarrow>
     length sgs \<le> MAX_SIGNATURE_RECORDS \<and> distinct (map sg_position sgs)
     \<and> list_all (\<lambda>s. valid_sighash (sg_sighash s)) sgs"

definition input_ok :: "encode_source \<Rightarrow> nat \<Rightarrow> bool" where
  "input_ok src i \<longleftrightarrow>
     unat (wi_sig_op_count (src_input src i)) \<le> MAX_SIGNATURE_RECORDS
     \<and> length (wi_script (src_input src i)) \<le> MAX_SCRIPT_SIZE
     \<and> signatures_ok (signature_list src i)
     \<and> length (src_redeem src i) \<le> MAX_REDEEM_SIZE"

definition group_ok :: "('v \<Rightarrow> bool) \<Rightarrow> (nat \<Rightarrow> 'v option) \<Rightarrow> nat list \<Rightarrow> bool" where
  "group_ok valid get ixs \<longleftrightarrow>
     list_all (\<lambda>i. case get i of None \<Rightarrow> True | Some v \<Rightarrow> valid v \<and> i < 256) ixs"

definition trailers_ok :: "encode_source \<Rightarrow> bool" where
  "trailers_ok src \<longleftrightarrow>
     (let ins = [0..<unat (g_input_count (src_global src))];
          outs = [0..<unat (g_output_count (src_global src))] in
      valid_network (src_network src)
      \<and> group_ok valid_ms45 (src_input_ms45 src) ins
      \<and> group_ok valid_ms45 (src_output_ms45 src) outs
      \<and> group_ok (\<lambda>_. True) (src_covenant src) outs
      \<and> group_ok valid_covenant_execution (src_covenant_execution src) ins
      \<and> group_ok valid_derivation (src_input_derivation src) ins
      \<and> group_ok valid_derivation (src_output_derivation src) outs)"

definition source_ok :: "encode_source \<Rightarrow> limits \<Rightarrow> bool" where
  "source_ok src l \<longleftrightarrow>
     global_ok (src_global src) l
     \<and> length (g_payload (src_global src)) < 2 ^ 32
     \<and> list_all (input_ok src) [0..<unat (g_input_count (src_global src))]
     \<and> list_all (\<lambda>i. length (wo_script (src_output src i)) \<le> MAX_SCRIPT_SIZE)
                [0..<unat (g_output_count (src_global src))]
     \<and> trailers_ok src"

section \<open>Emissions\<close>

definition em_check :: "bool \<Rightarrow> wire_error \<Rightarrow> emission" where
  "em_check c e = ([], if c then None else Some e)"

definition em_put :: "bytes \<Rightarrow> emission" where "em_put bs = (bs, None)"

lemma snd_em_check [simp]: "snd (em_check c e) = None \<longleftrightarrow> c"
  by (simp add: em_check_def)

lemma fst_em_check [simp]: "fst (em_check c e) = []"
  by (simp add: em_check_def)

lemma em_put_simps [simp]: "snd (em_put bs) = None" "fst (em_put bs) = bs"
  by (simp_all add: em_put_def)

lemma em_list_Nil_iff [simp]: "em_list [a] = em_seq a ([], None)"
  by simp

text \<open>A guard followed by an action, and the two field actions that can fail.\<close>

lemma emits_guard:
  assumes "\<not> c \<Longrightarrow> emits f a"
  shows "emits (\<lambda>w. if c then Err e else f w) (em_seq (em_check (\<not> c) e) a)"
  using assms by (cases c) (auto simp: em_check_def emits_fail intro: emits_cong)

lemma emits_position:
  "emits (\<lambda>w. rbind (position i) (\<lambda>p. wr_u8 p w))
     (em_seq (em_check (i < 256) CountOverflow) (em_put [word_of_nat i]))"
  by (auto simp: position_def em_check_def em_put_def emits_u8 emits_fail)

lemma emits_length16:
  "emits (\<lambda>w. rbind (ok_or (u16_try_from n) e) (\<lambda>x. wr_u16 x w))
     (em_seq (em_check (n < 2 ^ 16) e) (em_put (u16_to_le (word_of_nat n))))"
  by (auto simp: u16_try_from_def em_check_def em_put_def emits_u16 emits_fail)

lemma emits_length32:
  "emits (\<lambda>w. rbind (ok_or (u32_try_from n) e) (\<lambda>x. wr_u32 x w))
     (em_seq (em_check (n < 2 ^ 32) e) (em_put (u32_to_le (word_of_nat n))))"
  by (auto simp: u32_try_from_def em_check_def em_put_def emits_u32 emits_fail)

lemmas emits_rules = emits_position emits_length16 emits_length32 emits_script emits_guard emits_fields emits_seq

lemma em_seq_put [simp]: "em_seq (em_put a) b = (a @ fst b, snd b)"
  by (simp add: em_seq_def)

lemma em_script_ok: "em_script v = em_seq (em_check (length v \<le> MAX_SCRIPT_SIZE) ScriptTooLong) (em_put (script_bytes_enc v))"
  by (simp add: em_script_def em_check_def em_put_def)

lemma emits_header: "emits (write_header flags) (MAGIC @ [KSPT_VERSION, flags], None)"
  unfolding write_header_def by (rule emits_cong, (rule emits_rules)+, simp)

definition em_global :: "global \<Rightarrow> emission" where
  "em_global g =
     em_seq (u16_to_le (g_version g) @ u32_to_le (g_input_count g) @ [g_output_count g] @ u64_to_le (g_locktime g)
             @ g_subnetwork_id g @ u64_to_le (g_gas g), None)
     (em_seq (em_check (length (g_payload g) < 2 ^ 32) CountOverflow)
             (em_put (u32_to_le (word_of_nat (length (g_payload g))) @ g_payload g)))"

lemma emits_global: "emits (write_global g) (em_global g)"
  unfolding write_global_def em_global_def
  by (rule emits_cong, (rule emits_rules)+, simp add: em_seq_def em_check_def)

definition em_input_value :: "wire_input \<Rightarrow> emission" where
  "em_input_value v =
     em_seq (em_check (unat (wi_sig_op_count v) \<le> MAX_SIGNATURE_RECORDS) TooManySignatures)
     (em_seq (wi_previous_tx_id v @ u32_to_le (wi_previous_index v) @ u64_to_le (wi_amount v)
              @ u64_to_le (wi_sequence v) @ [wi_sig_op_count v] @ u16_to_le (wi_script_version v), None)
             (em_script (wi_script v)))"

lemma emits_input_value: "emits (write_input_value v) (em_input_value v)"
  unfolding write_input_value_def em_input_value_def
  by (rule emits_cong, (rule emits_rules)+, simp add: not_less)

text \<open>The signatures of one input: \<open>seen\<close> is the array of positions already written.\<close>

fun em_signatures :: "(u8 \<Rightarrow> bool) \<Rightarrow> signature list \<Rightarrow> emission" where
  "em_signatures seen [] = ([], None)"
| "em_signatures seen (v # vs) =
     em_seq (em_check (\<not> seen (sg_position v)) DuplicateSignaturePosition)
     (em_seq (em_check (valid_sighash (sg_sighash v)) InvalidSigHashType)
     (em_seq (em_put (signature_bytes v)) (em_signatures (seen(sg_position v := True)) vs)))"

lemma emits_signature_bytes:
  "emits (\<lambda>w. rbind (wr_u8 (sg_position v) w) (\<lambda>w. rbind (wr_u8 (sg_sighash v) w) (wr_bytes (sg_bytes v))))
     (signature_bytes v, None)"
  unfolding signature_bytes_def by (rule emits_cong, (rule emits_rules)+, simp)

lemma emits_signatures:
  "emits (\<lambda>w. rbind (try_fold (\<lambda>(seen, w) slot. write_signature (f slot) seen w) (seen, w) slots)
                    (\<lambda>(seen, w). Ok w))
     (em_signatures seen (map f slots))"
proof (induction slots arbitrary: seen)
  case Nil
  show ?case using emits_ret by simp
next
  case (Cons k ks)
  let ?v = "f k" and ?seen = "seen(sg_position (f k) := True)"
  let ?rest = "\<lambda>w. rbind (try_fold (\<lambda>(seen, w) slot. write_signature (f slot) seen w) (?seen, w) ks)
                         (\<lambda>(seen, w). Ok w)"
  have "emits (\<lambda>w. if seen (sg_position ?v) then Err DuplicateSignaturePosition
                   else if \<not> valid_sighash (sg_sighash ?v) then Err InvalidSigHashType
                   else rbind (rbind (wr_u8 (sg_position ?v) w) (\<lambda>w. rbind (wr_u8 (sg_sighash ?v) w)
                          (wr_bytes (sg_bytes ?v)))) ?rest)
          (em_signatures seen (map f (k # ks)))"
    by (rule emits_cong, (rule emits_guard emits_seq [OF emits_signature_bytes] Cons.IH)+)
      (simp add: em_put_def fun_upd_def)
  then show ?case
    by (simp add: write_signature_def rbind_assoc Let_def if_distrib [of "\<lambda>m. rbind m _"] cong: if_cong)
qed

definition em_signature_section :: "encode_source \<Rightarrow> nat \<Rightarrow> emission" where
  "em_signature_section src i =
     em_seq (em_check (src_signature_count src i \<le> MAX_SIGNATURE_RECORDS) TooManySignatures)
     (em_seq (em_put [word_of_nat (src_signature_count src i)])
             (em_signatures (\<lambda>_. False) (signature_list src i)))"

lemma emits_signature_section: "emits (write_signatures src i) (em_signature_section src i)"
proof -
  let ?count = "src_signature_count src i"
  have "emits (\<lambda>w. if MAX_SIGNATURE_RECORDS < ?count then Err TooManySignatures
      else rbind (wr_u8 (word_of_nat ?count) w) (\<lambda>w.
           rbind (try_fold (\<lambda>(seen, w) slot. write_signature (src_signature src i slot) seen w)
              (\<lambda>_. False, w) [0..<?count]) (\<lambda>(seen, w). Ok w)))
      (em_signature_section src i)"
    unfolding em_signature_section_def signature_list_def
    by (rule emits_cong, (rule emits_guard emits_seq emits_u8 emits_signatures)+) (simp add: not_less)
  moreover have "(\<lambda>w. if MAX_SIGNATURE_RECORDS < ?count then Err TooManySignatures
      else rbind (wr_u8 (word_of_nat ?count) w) (\<lambda>w.
           rbind (try_fold (\<lambda>(seen, w) slot. write_signature (src_signature src i slot) seen w)
              (\<lambda>_. False, w) [0..<?count]) (\<lambda>(seen, w). Ok w))) = write_signatures src i"
    by (rule ext) (simp add: write_signatures_def validate_signature_count_def Let_def)
  ultimately show ?thesis by simp
qed

definition em_redeem :: "bytes \<Rightarrow> emission" where
  "em_redeem v = em_seq (em_check (length v \<le> MAX_REDEEM_SIZE) RedeemTooLong) (em_put (redeem_bytes v))"

lemma emits_redeem: "emits (write_redeem v) (em_redeem v)"
  unfolding write_redeem_def em_redeem_def redeem_bytes_def
  by (rule emits_cong, (rule emits_rules)+)
    (auto simp: em_seq_def em_check_def MAX_REDEEM_SIZE_def)

definition em_input :: "encode_source \<Rightarrow> nat \<Rightarrow> emission" where
  "em_input src i =
     em_seq (em_input_value (src_input src i))
     (em_seq (em_signature_section src i) (em_redeem (src_redeem src i)))"

lemma emits_input: "emits (write_input src i) (em_input src i)"
  unfolding write_input_def em_input_def
  by (intro emits_seq emits_input_value emits_signature_section emits_redeem)

definition em_output :: "wire_output \<Rightarrow> emission" where
  "em_output v = em_seq (em_put (u64_to_le (wo_amount v) @ u16_to_le (wo_script_version v))) (em_script (wo_script v))"

lemma emits_output: "emits (write_output v) (em_output v)"
  unfolding write_output_def em_output_def
  by (rule emits_cong, (rule emits_rules)+, simp)

section \<open>Trailers and the whole envelope\<close>

definition em_group :: "u8 \<Rightarrow> ('v \<Rightarrow> bool) \<Rightarrow> ('v \<Rightarrow> bytes) \<Rightarrow> nat \<Rightarrow> 'v \<Rightarrow> emission" where
  "em_group marker valid body i v =
     em_seq (em_check (valid v) InvalidTrailer)
     (em_seq (em_put [marker])
     (em_seq (em_check (i < 256) CountOverflow)
             (em_put (word_of_nat i # body v))))"

lemma emits_derivation: "emits (write_derivation m i v) (em_group m valid_derivation derivation_body i v)"
  unfolding write_derivation_def em_group_def derivation_body_def
  by (rule emits_cong, (rule emits_rules)+) (simp add: em_seq_def em_check_def)

lemma emits_ms45: "emits (write_ms45 m i v) (em_group m valid_ms45 ms45_body i v)"
  unfolding write_ms45_def em_group_def ms45_body_def
  by (rule emits_cong, (rule emits_rules)+) (simp add: em_seq_def em_check_def)

lemma emits_covenant: "emits (write_covenant i v) (em_group COVENANT_MARKER (\<lambda>_. True) covenant_body i v)"
  unfolding write_covenant_def em_group_def covenant_body_def
  by (rule emits_cong, (rule emits_rules)+) (simp add: em_seq_def em_check_def)

lemma emits_covenant_execution:
  "emits (write_covenant_execution i v)
     (em_group COVENANT_EXECUTION_MARKER valid_covenant_execution covenant_execution_body i v)"
  unfolding write_covenant_execution_def em_group_def covenant_execution_body_def
  by (rule emits_cong, (rule emits_rules)+) (simp add: em_seq_def em_check_def)

definition em_groups ::
  "u8 \<Rightarrow> ('v \<Rightarrow> bool) \<Rightarrow> ('v \<Rightarrow> bytes) \<Rightarrow> (nat \<Rightarrow> 'v option) \<Rightarrow> nat list \<Rightarrow> emission" where
  "em_groups marker valid body get ixs =
     em_list (map (\<lambda>i. case get i of None \<Rightarrow> ([], None) | Some v \<Rightarrow> em_group marker valid body i v) ixs)"

lemma emits_for_present:
  assumes "\<And>i v. emits (write i v) (em_group marker valid body i v)"
  shows "emits (for_present get write n) (em_groups marker valid body get [0..<n])"
proof -
  have "emits (\<lambda>w. case get i of None \<Rightarrow> Ok w | Some v \<Rightarrow> write i v w)
          (case get i of None \<Rightarrow> ([], None) | Some v \<Rightarrow> em_group marker valid body i v)" for i
    using assms emits_ret by (cases "get i") auto
  then show ?thesis
    unfolding for_present_def em_groups_def by (rule emits_fold)
qed

lemma snd_em_groups: "snd (em_groups marker valid body get ixs) = None \<longleftrightarrow> group_ok valid get ixs"
  by (auto simp: em_groups_def snd_em_list group_ok_def list_all_iff em_group_def snd_em_seq split: option.splits)

lemma fst_em_groups:
  assumes "group_ok valid get ixs"
  shows "fst (em_groups marker valid body get ixs) = group_bytes marker body get ixs"
proof -
  have "snd (em_groups marker valid body get ixs) = None" using assms by (simp add: snd_em_groups)
  then have "fst (em_groups marker valid body get ixs) =
      concat (map fst (map (\<lambda>i. case get i of None \<Rightarrow> ([], None) | Some v \<Rightarrow> em_group marker valid body i v) ixs))"
    unfolding em_groups_def by (rule fst_em_list)
  also have "\<dots> = group_bytes marker body get ixs"
    unfolding group_bytes_def map_map comp_def
    by (rule arg_cong [where f = concat], rule map_cong)
      (use assms in \<open>auto simp: group_ok_def list_all_iff em_group_def em_check_def split: option.splits\<close>)
  finally show ?thesis .
qed

definition em_network :: "u8 \<Rightarrow> emission" where
  "em_network c = em_seq (em_check (valid_network c) InvalidNetwork) (em_put [NETWORK_MARKER, c])"

lemma emits_network: "emits (write_network c) (em_network c)"
  unfolding write_network_def em_network_def
  by (rule emits_cong, (rule emits_rules)+) (simp add: em_put_def)

lemma emits_stealth: "emits (write_stealth v) (em_put (stealth_bytes v))"
proof (cases v)
  case None
  then show ?thesis using emits_ret by (simp add: emits_def write_stealth_def stealth_bytes_def em_put_def)
next
  case (Some t)
  have "emits (\<lambda>w. rbind (wr_u8 STEALTH_MARKER w) (\<lambda>w. wr_bytes t w)) (em_put (stealth_bytes v))"
    unfolding Some stealth_bytes_def by (rule emits_cong, (rule emits_rules)+) (simp add: em_put_def)
  with Some show ?thesis by (simp add: emits_def write_stealth_def)
qed

definition em_trailers :: "encode_source \<Rightarrow> emission" where
  "em_trailers src =
     (let ins = [0..<unat (g_input_count (src_global src))];
          outs = [0..<unat (g_output_count (src_global src))] in
      em_list
       [em_network (src_network src),
        em_groups MS45_INPUT_MARKER valid_ms45 ms45_body (src_input_ms45 src) ins,
        em_groups MS45_OUTPUT_MARKER valid_ms45 ms45_body (src_output_ms45 src) outs,
        em_put (stealth_bytes (src_stealth src)),
        em_groups COVENANT_MARKER (\<lambda>_. True) covenant_body (src_covenant src) outs,
        em_groups COVENANT_EXECUTION_MARKER valid_covenant_execution covenant_execution_body
          (src_covenant_execution src) ins,
        em_groups INPUT_DERIVATION_MARKER valid_derivation derivation_body (src_input_derivation src) ins,
        em_groups OUTPUT_DERIVATION_MARKER valid_derivation derivation_body (src_output_derivation src) outs])"

lemma em_seq_assoc: "em_seq (em_seq a b) c = em_seq a (em_seq b c)"
  by (auto simp: em_seq_def split: option.splits)

lemma em_seq_unit: "em_seq a ([], None) = a"
  by (cases a) (auto simp: em_seq_def split: option.splits)

lemma emits_trailers: "emits (write_trailers src (src_global src)) (em_trailers src)"
  unfolding write_trailers_def em_trailers_def Let_def write_ms45_trailers_def write_derivation_trailers_def
    write_covenant_trailers_def write_covenant_execution_trailers_def
  by (rule emits_cong, (rule emits_network emits_stealth emits_for_present emits_ms45 emits_covenant
      emits_covenant_execution emits_derivation emits_seq)+)
    (simp only: em_list.simps em_seq_assoc em_seq_unit)

definition em_envelope :: "encode_source \<Rightarrow> emission" where
  "em_envelope src =
     (let g = src_global src in
      em_list
       [em_put (header_bytes g), em_global g,
        em_list (map (em_input src) [0..<unat (g_input_count g)]),
        em_list (map (\<lambda>i. em_output (src_output src i)) [0..<unat (g_output_count g)]),
        em_trailers src])"

lemma emits_envelope:
  "emits (\<lambda>w. rbind (write_header (g_flags (src_global src)) w) (\<lambda>w.
     rbind (write_global (src_global src) w) (\<lambda>w.
     rbind (try_fold (\<lambda>w index. write_input src index w) w [0..<unat (g_input_count (src_global src))]) (\<lambda>w.
     rbind (try_fold (\<lambda>w index. write_output (src_output src index) w) w [0..<unat (g_output_count (src_global src))]) (\<lambda>w.
     write_trailers src (src_global src) w)))))
   (em_envelope src)"
  unfolding em_envelope_def Let_def header_bytes_def
  by (rule emits_cong, (rule emits_header emits_global emits_fold emits_input emits_output emits_trailers emits_seq)+)
    (simp only: em_list.simps em_seq_assoc em_seq_unit em_put_def)

definition em_encode :: "encode_source \<Rightarrow> limits \<Rightarrow> emission" where
  "em_encode src l =
     (case validate_global (src_global src) l of Inl e \<Rightarrow> ([], Some e) | Inr _ \<Rightarrow> em_envelope src)"

text \<open>What the encoder does on every buffer, its errors included.\<close>

lemma encode_exact:
  "encode src out l =
     (let (bs, err) = em_encode src l in
      if length out < length bs then Err OutputBufferTooSmall
      else case err of Some e \<Rightarrow> Err e | None \<Rightarrow> Ok (length bs, bs @ drop (length bs) out))"
proof (cases "validate_global (src_global src) l")
  case (Inl e)
  then show ?thesis by (simp add: encode_def em_encode_def)
next
  case (Inr u)
  have run: "rbind (write_header (g_flags (src_global src)) (writer_new out)) (\<lambda>w.
     rbind (write_global (src_global src) w) (\<lambda>w.
     rbind (try_fold (\<lambda>w index. write_input src index w) w [0..<unat (g_input_count (src_global src))]) (\<lambda>w.
     rbind (try_fold (\<lambda>w index. write_output (src_output src index) w) w [0..<unat (g_output_count (src_global src))]) (\<lambda>w.
     write_trailers src (src_global src) w)))) = run_emission (em_envelope src) (writer_new out)"
    using emits_envelope [of src] by (simp add: emits_def writer_new_def)
  have "encode src out l = rbind (run_emission (em_envelope src) (writer_new out)) (\<lambda>w. Ok (wr_pos w, wr_output w))"
    unfolding run [symmetric] encode_def Let_def Inr rbind_simps rbind_assoc ..
  then show ?thesis
    by (auto simp: Inr em_encode_def run_emission_def writer_new_def push_def split: prod.splits option.splits)
qed

lemma validate_global_ok: "validate_global g l = Ok u \<longleftrightarrow> global_ok g l"
  by (auto simp: validate_global_def global_ok_def limits_validate_inputs_def limits_validate_outputs_def
      limits_validate_payload_def rbind_Inr_iff not_less)

section \<open>Which sources encode, and to what\<close>

lemma snd_em_signatures:
  "snd (em_signatures seen vs) = None \<longleftrightarrow>
     distinct (map sg_position vs) \<and> (\<forall>v\<in>set vs. \<not> seen (sg_position v) \<and> valid_sighash (sg_sighash v))"
  by (induction vs arbitrary: seen) (auto simp: snd_em_seq image_iff)

lemma fst_em_signatures:
  "snd (em_signatures seen vs) = None \<Longrightarrow> fst (em_signatures seen vs) = concat (map signature_bytes vs)"
  by (induction vs arbitrary: seen) (auto simp: snd_em_seq fst_em_seq)

lemma length_signature_list [simp]: "length (signature_list src i) = src_signature_count src i"
  by (simp add: signature_list_def)

lemma snd_em_input: "snd (em_input src i) = None \<longleftrightarrow> input_ok src i"
  by (auto simp: em_input_def em_input_value_def em_signature_section_def em_redeem_def em_script_ok snd_em_seq
      snd_em_signatures input_ok_def signatures_ok_def list_all_iff)

lemma fst_em_input:
  assumes "input_ok src i"
  shows "fst (em_input src i) = input_bytes src i"
proof -
  have "snd (em_input src i) = None" using assms by (simp add: snd_em_input)
  then show ?thesis
    by (simp add: em_input_def em_input_value_def em_signature_section_def em_redeem_def em_script_ok snd_em_seq
        fst_em_seq fst_em_signatures input_bytes_def input_value_bytes_def)
qed

lemma snd_em_output: "snd (em_output v) = None \<longleftrightarrow> length (wo_script v) \<le> MAX_SCRIPT_SIZE"
  by (simp add: em_output_def em_script_ok snd_em_seq)

lemma fst_em_output: "length (wo_script v) \<le> MAX_SCRIPT_SIZE \<Longrightarrow> fst (em_output v) = output_bytes v"
  by (simp add: em_output_def em_script_ok fst_em_seq output_bytes_def)

lemma snd_em_trailers: "snd (em_trailers src) = None \<longleftrightarrow> trailers_ok src"
  by (simp add: em_trailers_def trailers_ok_def Let_def snd_em_list snd_em_groups em_network_def snd_em_seq)

lemma fst_em_trailers:
  assumes "trailers_ok src"
  shows "fst (em_trailers src) = trailer_bytes src"
proof -
  have "snd (em_trailers src) = None" using assms by (simp add: snd_em_trailers)
  then have "fst (em_trailers src) = concat (map fst
       [em_network (src_network src),
        em_groups MS45_INPUT_MARKER valid_ms45 ms45_body (src_input_ms45 src) [0..<unat (g_input_count (src_global src))],
        em_groups MS45_OUTPUT_MARKER valid_ms45 ms45_body (src_output_ms45 src) [0..<unat (g_output_count (src_global src))],
        em_put (stealth_bytes (src_stealth src)),
        em_groups COVENANT_MARKER (\<lambda>_. True) covenant_body (src_covenant src) [0..<unat (g_output_count (src_global src))],
        em_groups COVENANT_EXECUTION_MARKER valid_covenant_execution covenant_execution_body
          (src_covenant_execution src) [0..<unat (g_input_count (src_global src))],
        em_groups INPUT_DERIVATION_MARKER valid_derivation derivation_body (src_input_derivation src)
          [0..<unat (g_input_count (src_global src))],
        em_groups OUTPUT_DERIVATION_MARKER valid_derivation derivation_body (src_output_derivation src)
          [0..<unat (g_output_count (src_global src))]])"
    unfolding em_trailers_def Let_def by (rule fst_em_list)
  with assms show ?thesis
    by (simp add: trailers_ok_def Let_def trailer_bytes_def fst_em_groups em_network_def fst_em_seq)
qed

lemma em_encode_ok: "snd (em_encode src l) = None \<longleftrightarrow> source_ok src l"
proof (cases "global_ok (src_global src) l")
  case True
  then have "validate_global (src_global src) l = Ok ()" by (simp add: validate_global_ok)
  with True show ?thesis
    by (simp add: em_encode_def em_envelope_def Let_def snd_em_list source_ok_def snd_em_seq em_global_def
        snd_em_input snd_em_output snd_em_trailers list_all_iff)
next
  case False
  then have "\<exists>e. validate_global (src_global src) l = Err e"
    by (metis old.sum.exhaust validate_global_ok)
  with False show ?thesis by (auto simp: em_encode_def source_ok_def)
qed

lemma concat_map_eq: "(\<And>x. x \<in> set xs \<Longrightarrow> f x = g x) \<Longrightarrow> concat (map f xs) = concat (map g xs)"
  by (simp cong: map_cong)

lemma em_encode_bytes:
  assumes "source_ok src l"
  shows "fst (em_encode src l) = wire_bytes src"
proof -
  let ?g = "src_global src"
  have v: "validate_global ?g l = Ok ()" using assms by (simp add: validate_global_ok source_ok_def)
  have "snd (em_envelope src) = None" using assms v by (simp add: em_encode_ok [symmetric] em_encode_def)
  then have parts: "snd (em_global ?g) = None"
    "snd (em_list (map (em_input src) [0..<unat (g_input_count ?g)])) = None"
    "snd (em_list (map (\<lambda>i. em_output (src_output src i)) [0..<unat (g_output_count ?g)])) = None"
    "snd (em_trailers src) = None"
    by (simp_all add: em_envelope_def Let_def snd_em_seq)
  have ins: "concat (map (fst \<circ> em_input src) [0..<unat (g_input_count ?g)])
      = concat (map (input_bytes src) [0..<unat (g_input_count ?g)])"
    by (rule concat_map_eq) (use assms in \<open>auto simp: source_ok_def list_all_iff fst_em_input\<close>)
  have outs: "concat (map (fst \<circ> (\<lambda>i. em_output (src_output src i))) [0..<unat (g_output_count ?g)])
      = concat (map (\<lambda>i. output_bytes (src_output src i)) [0..<unat (g_output_count ?g)])"
    by (rule concat_map_eq) (use assms in \<open>auto simp: source_ok_def list_all_iff fst_em_output\<close>)
  have glob: "fst (em_global ?g) = global_bytes ?g"
    using parts(1) by (simp add: em_global_def global_bytes_def fst_em_seq snd_em_seq)
  show ?thesis
    using parts ins outs glob assms
    by (simp add: em_encode_def v em_envelope_def Let_def fst_em_seq fst_em_list wire_bytes_def fst_em_trailers
        source_ok_def)
qed

lemma encode_ok_iff:
  "encode src out l = Ok (n, out') \<longleftrightarrow>
     source_ok src l \<and> length (wire_bytes src) \<le> length out \<and> n = length (wire_bytes src)
     \<and> out' = wire_bytes src @ drop n out"
  using em_encode_ok [of src l] em_encode_bytes [of src l]
  by (cases "em_encode src l") (auto simp: encode_exact Let_def split: option.splits)

lemma encode_source_not_ok:
  "\<not> source_ok src l \<Longrightarrow> \<exists>e. encode src out l = Err e"
  using encode_ok_iff [of src out l] by (metis surj_pair sum.exhaust)

section \<open>The growing buffer\<close>

lemma capacity_start: "1024 \<le> encode_vec_capacity src"
  by (simp add: encode_vec_capacity_def Let_def usize_max_def)

text \<open>Every doubling stays below \<open>2 ^ 64\<close>, so there are at most 54 of them before the last answer.\<close>

lemma encode_vec_loop_returns:
  "usize_max < capacity * 2 ^ fuel \<Longrightarrow> 0 < fuel \<Longrightarrow> \<exists>r. encode_vec_loop fuel src l capacity = Some r"
proof (induction fuel arbitrary: capacity)
  case 0
  then show ?case by simp
next
  case (Suc fuel)
  show ?case
  proof (cases fuel)
    case 0
    with Suc.prems show ?thesis by (auto split: sum.splits)
  next
    case (Suc k)
    with Suc.prems Suc.IH [of "capacity * 2"] show ?thesis
      by (auto simp: mult.assoc split: sum.splits)
  qed
qed

lemma encode_vec_loop_ok:
  assumes "source_ok src l"
    and "encode_vec_loop fuel src l capacity = Some r"
    and "length (wire_bytes src) \<le> usize_max div 2"
  shows "r = Ok (wire_bytes src)"
  using assms
proof (induction fuel arbitrary: capacity)
  case 0
  then show ?case by simp
next
  case (Suc fuel)
  show ?case
  proof (cases "length (wire_bytes src) \<le> capacity")
    case True
    then have "encode src (replicate capacity 0) l
        = Ok (length (wire_bytes src), wire_bytes src @ drop (length (wire_bytes src)) (replicate capacity 0))"
      using Suc.prems(1) by (simp add: encode_ok_iff)
    with Suc.prems show ?thesis by simp
  next
    case False
    have "em_encode src l = (wire_bytes src, None)"
      using Suc.prems(1) em_encode_ok [of src l] em_encode_bytes [of src l] by (simp add: prod_eq_iff)
    with False have short: "encode src (replicate capacity 0) l = Err OutputBufferTooSmall"
      by (simp add: encode_exact)
    have "capacity * 2 \<le> usize_max" using False Suc.prems(3) by linarith
    with short Suc.prems Suc.IH [of "capacity * 2"] show ?thesis by simp
  qed
qed

lemma encode_vec_returns: "\<exists>r. encode_vec src l = Some r"
proof -
  have "usize_max < 1024 * 2 ^ 64" by (simp add: usize_max_def)
  also have "\<dots> \<le> encode_vec_capacity src * 2 ^ 64"
    using capacity_start [of src] by (rule mult_right_mono) simp
  finally show ?thesis unfolding encode_vec_def by (rule encode_vec_loop_returns) simp
qed

lemma encode_vec_ok:
  assumes "source_ok src l" and "length (wire_bytes src) \<le> usize_max div 2"
  shows "encode_vec src l = Some (Ok (wire_bytes src))"
  using assms encode_vec_returns [of src l] encode_vec_loop_ok unfolding encode_vec_def by metis

end
