(* ===== verification/Wire_Decode.thy ===== *)
theory Wire_Decode
  imports Wire_Encode
begin

text \<open>
  The KSPT v1 decoder (\<open>kspt/wire/decode.rs\<close>, \<open>decode/inputs.rs\<close>, \<open>decode/trailers.rs\<close>): every read
  function in the order of the source. A function that only reads returns a \<open>wire_error\<close>; one
  that also calls the sink returns, on failure, the error with the sink state at that point, since
  the sink is a mutable borrow whose earlier effects remain. The trailer loop is a recursive
  function whose measure is the number of bytes ahead: consuming the marker makes it decrease.
\<close>

section \<open>Header and global section\<close>

definition wire_at :: "'s \<Rightarrow> wire_error + 'a \<Rightarrow> ('e decode_error \<times> 's) + 'a" where
  "wire_at s m = map_err (\<lambda>e. (Wire e, s)) m"

definition sink_call :: "('s, 'e) decode_sink \<Rightarrow> decode_call \<Rightarrow> 's \<Rightarrow> ('e decode_error \<times> 's) + 's" where
  "sink_call sink c s = map_err (\<lambda>(e, s'). (Sink e, s')) (sink c s)"

definition read_header :: "reader \<Rightarrow> wire_error + u8 \<times> reader" where
  "read_header r =
     rbind (rd_bytes 4 r) (\<lambda>(magic, r).
     if magic \<noteq> MAGIC then Err InvalidMagic else
     rbind (rd_u8 r) (\<lambda>(version, r).
     if version \<noteq> KSPT_VERSION then Err UnsupportedVersion else
     rbind (rd_u8 r) (\<lambda>(flags, r).
     if flags AND NOT ALLOWED_FLAGS \<noteq> 0 then Err InvalidFlags else Ok (flags, r))))"

record global_prefix =
  gp_version :: u16
  gp_input_count :: u32
  gp_output_count :: u8
  gp_locktime :: u64
  gp_subnetwork_id :: bytes
  gp_gas :: u64
  gp_payload_len :: nat

definition read_global_counts :: "reader \<Rightarrow> limits \<Rightarrow> wire_error + (u16 \<times> u32 \<times> u8) \<times> reader" where
  "read_global_counts r l =
     rbind (rd_u16 r) (\<lambda>(version, r).
     if \<not> supported_tx_version version then Err UnsupportedTransactionVersion else
     rbind (rd_u32 r) (\<lambda>(input_count, r).
     rbind (limits_validate_inputs l input_count) (\<lambda>_.
     rbind (rd_u8 r) (\<lambda>(output_count, r).
     rbind (limits_validate_outputs l output_count) (\<lambda>_.
     Ok ((version, input_count, output_count), r))))))"

definition read_global_tail :: "reader \<Rightarrow> limits \<Rightarrow> wire_error + (u64 \<times> bytes \<times> u64 \<times> nat) \<times> reader" where
  "read_global_tail r l =
     rbind (rd_u64 r) (\<lambda>(locktime, r).
     rbind (rd_bytes 20 r) (\<lambda>(subnetwork_id, r).
     rbind (rd_u64 r) (\<lambda>(gas, r).
     rbind (rd_u32 r) (\<lambda>(payload_len, r).
     rbind (limits_validate_payload l (unat payload_len)) (\<lambda>_.
     Ok ((locktime, subnetwork_id, gas, unat payload_len), r))))))"

definition read_global_prefix :: "reader \<Rightarrow> limits \<Rightarrow> wire_error + global_prefix \<times> reader" where
  "read_global_prefix r l =
     rbind (read_global_counts r l) (\<lambda>((version, input_count, output_count), r).
     rbind (read_global_tail r l) (\<lambda>((locktime, subnetwork_id, gas, payload_len), r).
     Ok (\<lparr>gp_version = version, gp_input_count = input_count, gp_output_count = output_count,
          gp_locktime = locktime, gp_subnetwork_id = subnetwork_id, gp_gas = gas,
          gp_payload_len = payload_len\<rparr>, r)))"

definition read_global :: "u8 \<Rightarrow> global_prefix \<Rightarrow> reader \<Rightarrow> wire_error + global \<times> reader" where
  "read_global flags prefix r =
     rbind (rd_bytes (gp_payload_len prefix) r) (\<lambda>(payload, r).
     Ok (\<lparr>g_flags = flags, g_version = gp_version prefix, g_input_count = gp_input_count prefix,
          g_output_count = gp_output_count prefix, g_locktime = gp_locktime prefix,
          g_subnetwork_id = gp_subnetwork_id prefix, g_gas = gp_gas prefix, g_payload = payload\<rparr>, r))"

section \<open>Inputs and outputs\<close>

definition MIN_INPUT_WIRE_BYTES :: nat where "MIN_INPUT_WIRE_BYTES = 59"

definition validate_input_capacity :: "u32 \<Rightarrow> nat \<Rightarrow> wire_error + unit" where
  "validate_input_capacity count remaining =
     (let minimum = unat count * MIN_INPUT_WIRE_BYTES in
      if minimum > usize_max then Err CountOverflow
      else if minimum > remaining then Err CountOverflow else Ok ())"

definition read_input_value :: "reader \<Rightarrow> wire_error + wire_input \<times> reader" where
  "read_input_value r =
     rbind (rd_bytes 32 r) (\<lambda>(previous_tx_id, r).
     rbind (rd_u32 r) (\<lambda>(previous_index, r).
     rbind (rd_u64 r) (\<lambda>(amount, r).
     rbind (rd_u64 r) (\<lambda>(seqn, r).
     rbind (rd_u8 r) (\<lambda>(sig_op_count, r).
     if unat sig_op_count > MAX_SIGNATURE_RECORDS then Err TooManySignatures else
     rbind (rd_u16 r) (\<lambda>(script_version, r).
     rbind (rd_script r) (\<lambda>(script, r).
     Ok (\<lparr>wi_previous_tx_id = previous_tx_id, wi_previous_index = previous_index, wi_amount = amount,
          wi_sequence = seqn, wi_sig_op_count = sig_op_count, wi_script_version = script_version,
          wi_script = script\<rparr>, r))))))))"

definition read_signature_count :: "reader \<Rightarrow> wire_error + u8 \<times> reader" where
  "read_signature_count r =
     rbind (rd_u8 r) (\<lambda>(count, r).
     if unat count > MAX_SIGNATURE_RECORDS then Err TooManySignatures else Ok (count, r))"

definition read_signature ::
  "reader \<Rightarrow> (u8 \<Rightarrow> bool) \<Rightarrow> wire_error + (signature \<times> (u8 \<Rightarrow> bool)) \<times> reader" where
  "read_signature r seen =
     rbind (rd_u8 r) (\<lambda>(pos, r).
     if seen pos then Err DuplicateSignaturePosition else
     let seen = seen(pos := True) in
     rbind (rd_u8 r) (\<lambda>(sighash, r).
     if \<not> valid_sighash sighash then Err InvalidSigHashType else
     rbind (rd_bytes 64 r) (\<lambda>(bs, r).
     Ok ((\<lparr>sg_position = pos, sg_sighash = sighash, sg_bytes = bs\<rparr>, seen), r))))"

definition read_signatures ::
  "('s, 'e) decode_sink \<Rightarrow> nat \<Rightarrow> u8 \<Rightarrow> reader \<Rightarrow> 's \<Rightarrow> ('e decode_error \<times> 's) + reader \<times> 's" where
  "read_signatures sink index count r s =
     rbind (try_fold (\<lambda>(seen, r, s) slot.
              rbind (wire_at s (read_signature r seen)) (\<lambda>((sg, seen), r).
              rbind (sink_call sink (CallSignature index slot sg) s) (\<lambda>s. Ok (seen, r, s))))
            (\<lambda>_. False, r, s) [0..<unat count]) (\<lambda>(seen, r, s).
     Ok (r, s))"

definition read_redeem ::
  "('s, 'e) decode_sink \<Rightarrow> nat \<Rightarrow> reader \<Rightarrow> 's \<Rightarrow> ('e decode_error \<times> 's) + reader \<times> 's" where
  "read_redeem sink index r s =
     rbind (wire_at s (rd_u16 r)) (\<lambda>(redeem_len, r).
     if unat redeem_len > MAX_REDEEM_SIZE then Err (Wire RedeemTooLong, s) else
     rbind (wire_at s (rd_bytes (unat redeem_len) r)) (\<lambda>(redeem, r).
     rbind (sink_call sink (CallRedeem index redeem) s) (\<lambda>s. Ok (r, s))))"

definition read_input ::
  "('s, 'e) decode_sink \<Rightarrow> nat \<Rightarrow> reader \<Rightarrow> 's \<Rightarrow> ('e decode_error \<times> 's) + reader \<times> 's" where
  "read_input sink index r s =
     rbind (wire_at s (read_input_value r)) (\<lambda>(input, r).
     rbind (wire_at s (read_signature_count r)) (\<lambda>(signature_count, r).
     rbind (sink_call sink (CallInput index input signature_count) s) (\<lambda>s.
     rbind (read_signatures sink index signature_count r s) (\<lambda>(r, s).
     read_redeem sink index r s))))"

definition read_inputs ::
  "('s, 'e) decode_sink \<Rightarrow> u32 \<Rightarrow> reader \<Rightarrow> 's \<Rightarrow> ('e decode_error \<times> 's) + reader \<times> 's" where
  "read_inputs sink count r s =
     try_fold (\<lambda>(r, s) index. read_input sink index r s) (r, s) [0..<unat count]"

definition read_output :: "reader \<Rightarrow> wire_error + wire_output \<times> reader" where
  "read_output r =
     rbind (rd_u64 r) (\<lambda>(amount, r).
     rbind (rd_u16 r) (\<lambda>(script_version, r).
     rbind (rd_script r) (\<lambda>(script, r).
     Ok (\<lparr>wo_amount = amount, wo_script_version = script_version, wo_script = script\<rparr>, r))))"

definition read_outputs ::
  "('s, 'e) decode_sink \<Rightarrow> u8 \<Rightarrow> reader \<Rightarrow> 's \<Rightarrow> ('e decode_error \<times> 's) + reader \<times> 's" where
  "read_outputs sink count r s =
     try_fold (\<lambda>(r, s) index.
         rbind (wire_at s (read_output r)) (\<lambda>(out, r).
         rbind (sink_call sink (CallOutput index out) s) (\<lambda>s. Ok (r, s))))
       (r, s) [0..<unat count]"

section \<open>Trailers\<close>

record trailer_state =
  ts_network :: bool
  ts_stealth :: bool
  ts_last_rank :: u8
  ts_last_input_derivation :: "u8 option"
  ts_last_output_derivation :: "u8 option"
  ts_last_input_ms45 :: "u8 option"
  ts_last_output_ms45 :: "u8 option"
  ts_last_covenant :: "u8 option"
  ts_last_covenant_execution :: "u8 option"
  ts_input_derivation :: "u8 \<Rightarrow> bool"
  ts_output_derivation :: "u8 \<Rightarrow> bool"
  ts_input_ms45 :: "u8 \<Rightarrow> bool"
  ts_output_ms45 :: "u8 \<Rightarrow> bool"
  ts_covenant :: "u8 \<Rightarrow> bool"
  ts_covenant_execution :: "u8 \<Rightarrow> bool"

definition trailer_state_new :: trailer_state where
  "trailer_state_new =
     \<lparr>ts_network = False, ts_stealth = False, ts_last_rank = 0,
      ts_last_input_derivation = None, ts_last_output_derivation = None,
      ts_last_input_ms45 = None, ts_last_output_ms45 = None,
      ts_last_covenant = None, ts_last_covenant_execution = None,
      ts_input_derivation = (\<lambda>_. False), ts_output_derivation = (\<lambda>_. False),
      ts_input_ms45 = (\<lambda>_. False), ts_output_ms45 = (\<lambda>_. False),
      ts_covenant = (\<lambda>_. False), ts_covenant_execution = (\<lambda>_. False)\<rparr>"

type_synonym ('s, 'e) trailer_result = "('e decode_error \<times> 's) + reader \<times> 's \<times> trailer_state"

definition marker_rank :: "u8 \<Rightarrow> u8 option" where
  "marker_rank marker =
     (if marker = NETWORK_MARKER then Some 0
      else if marker = MS45_INPUT_MARKER then Some 1
      else if marker = MS45_OUTPUT_MARKER then Some 2
      else if marker = STEALTH_MARKER then Some 3
      else if marker = COVENANT_MARKER then Some 4
      else if marker = COVENANT_EXECUTION_MARKER then Some 5
      else if marker = INPUT_DERIVATION_MARKER then Some 6
      else if marker = OUTPUT_DERIVATION_MARKER then Some 7
      else None)"

definition require_canonical_marker_order :: "u8 \<Rightarrow> trailer_state \<Rightarrow> wire_error + trailer_state" where
  "require_canonical_marker_order marker st =
     rbind (ok_or (marker_rank marker) TrailingData) (\<lambda>rank.
     if \<not> ts_network st \<and> marker \<noteq> NETWORK_MARKER then Err InvalidTrailer
     else if rank < ts_last_rank st then Err InvalidTrailer
     else Ok (st\<lparr>ts_last_rank := rank\<rparr>))"

definition require_increasing :: "u8 \<Rightarrow> u8 option \<Rightarrow> wire_error + u8 option" where
  "require_increasing pos prior =
     (if (case prior of None \<Rightarrow> False | Some q \<Rightarrow> pos \<le> q) then Err InvalidTrailer
      else Ok (Some pos))"

definition read_network ::
  "('s, 'e) decode_sink \<Rightarrow> reader \<Rightarrow> 's \<Rightarrow> trailer_state \<Rightarrow> ('s, 'e) trailer_result" where
  "read_network sink r s st =
     rbind (wire_at s (rd_u8 r)) (\<lambda>(code, r).
     if ts_network st \<or> \<not> valid_network code then Err (Wire InvalidNetwork, s) else
     let st = st\<lparr>ts_network := True\<rparr> in
     rbind (sink_call sink (CallNetwork code) s) (\<lambda>s. Ok (r, s, st)))"

definition read_stealth ::
  "('s, 'e) decode_sink \<Rightarrow> reader \<Rightarrow> 's \<Rightarrow> trailer_state \<Rightarrow> ('s, 'e) trailer_result" where
  "read_stealth sink r s st =
     (if ts_stealth st then Err (Wire InvalidTrailer, s) else
      let st = st\<lparr>ts_stealth := True\<rparr> in
      rbind (wire_at s (rd_bytes 32 r)) (\<lambda>(tweak, r).
      rbind (sink_call sink (CallStealth tweak) s) (\<lambda>s. Ok (r, s, st))))"

definition read_derivation_body :: "reader \<Rightarrow> wire_error + derivation \<times> reader" where
  "read_derivation_body r =
     rbind (rd_u8 r) (\<lambda>(branch, r).
     rbind (rd_u32 r) (\<lambda>(index, r).
     let v = \<lparr>dv_branch = branch, dv_index = index\<rparr> in
     if \<not> valid_derivation v then Err InvalidTrailer else Ok (v, r)))"

definition read_input_derivation ::
  "('s, 'e) decode_sink \<Rightarrow> u32 \<Rightarrow> reader \<Rightarrow> 's \<Rightarrow> trailer_state \<Rightarrow> ('s, 'e) trailer_result" where
  "read_input_derivation sink inputs r s st =
     rbind (wire_at s (rd_u8 r)) (\<lambda>(pos, r).
     rbind (wire_at s (require_increasing pos (ts_last_input_derivation st))) (\<lambda>prior.
     let st = st\<lparr>ts_last_input_derivation := prior\<rparr> in
     if (ucast pos :: u32) \<ge> inputs \<or> ts_input_derivation st pos then Err (Wire InvalidTrailer, s) else
     rbind (wire_at s (read_derivation_body r)) (\<lambda>(v, r).
     let st = st\<lparr>ts_input_derivation := (ts_input_derivation st)(pos := True)\<rparr> in
     rbind (sink_call sink (CallInputDerivation pos v) s) (\<lambda>s. Ok (r, s, st)))))"

definition read_output_derivation ::
  "('s, 'e) decode_sink \<Rightarrow> u8 \<Rightarrow> reader \<Rightarrow> 's \<Rightarrow> trailer_state \<Rightarrow> ('s, 'e) trailer_result" where
  "read_output_derivation sink outputs r s st =
     rbind (wire_at s (rd_u8 r)) (\<lambda>(pos, r).
     rbind (wire_at s (require_increasing pos (ts_last_output_derivation st))) (\<lambda>prior.
     let st = st\<lparr>ts_last_output_derivation := prior\<rparr> in
     if pos \<ge> outputs \<or> ts_output_derivation st pos then Err (Wire InvalidTrailer, s) else
     rbind (wire_at s (read_derivation_body r)) (\<lambda>(v, r).
     let st = st\<lparr>ts_output_derivation := (ts_output_derivation st)(pos := True)\<rparr> in
     rbind (sink_call sink (CallOutputDerivation pos v) s) (\<lambda>s. Ok (r, s, st)))))"

definition read_ms45_body :: "reader \<Rightarrow> wire_error + ms45_derivation \<times> reader" where
  "read_ms45_body r =
     rbind (rd_u32 r) (\<lambda>(cosigner, r).
     rbind (rd_u32 r) (\<lambda>(chain, r).
     rbind (rd_u32 r) (\<lambda>(index, r).
     let v = \<lparr>ms_cosigner = cosigner, ms_chain = chain, ms_index = index\<rparr> in
     if \<not> valid_ms45 v then Err InvalidTrailer else Ok (v, r))))"

definition read_ms45_input ::
  "('s, 'e) decode_sink \<Rightarrow> u32 \<Rightarrow> reader \<Rightarrow> 's \<Rightarrow> trailer_state \<Rightarrow> ('s, 'e) trailer_result" where
  "read_ms45_input sink inputs r s st =
     rbind (wire_at s (rd_u8 r)) (\<lambda>(pos, r).
     rbind (wire_at s (require_increasing pos (ts_last_input_ms45 st))) (\<lambda>prior.
     let st = st\<lparr>ts_last_input_ms45 := prior\<rparr> in
     if (ucast pos :: u32) \<ge> inputs \<or> ts_input_ms45 st pos then Err (Wire InvalidTrailer, s) else
     rbind (wire_at s (read_ms45_body r)) (\<lambda>(v, r).
     let st = st\<lparr>ts_input_ms45 := (ts_input_ms45 st)(pos := True)\<rparr> in
     rbind (sink_call sink (CallInputMs45 pos v) s) (\<lambda>s. Ok (r, s, st)))))"

definition read_ms45_output ::
  "('s, 'e) decode_sink \<Rightarrow> u8 \<Rightarrow> reader \<Rightarrow> 's \<Rightarrow> trailer_state \<Rightarrow> ('s, 'e) trailer_result" where
  "read_ms45_output sink outputs r s st =
     rbind (wire_at s (rd_u8 r)) (\<lambda>(pos, r).
     rbind (wire_at s (require_increasing pos (ts_last_output_ms45 st))) (\<lambda>prior.
     let st = st\<lparr>ts_last_output_ms45 := prior\<rparr> in
     if pos \<ge> outputs \<or> ts_output_ms45 st pos then Err (Wire InvalidTrailer, s) else
     rbind (wire_at s (read_ms45_body r)) (\<lambda>(v, r).
     let st = st\<lparr>ts_output_ms45 := (ts_output_ms45 st)(pos := True)\<rparr> in
     rbind (sink_call sink (CallOutputMs45 pos v) s) (\<lambda>s. Ok (r, s, st)))))"

definition read_covenant ::
  "('s, 'e) decode_sink \<Rightarrow> u32 \<Rightarrow> u8 \<Rightarrow> reader \<Rightarrow> 's \<Rightarrow> trailer_state \<Rightarrow> ('s, 'e) trailer_result" where
  "read_covenant sink inputs outputs r s st =
     rbind (wire_at s (rd_u8 r)) (\<lambda>(pos, r).
     rbind (wire_at s (require_increasing pos (ts_last_covenant st))) (\<lambda>prior.
     let st = st\<lparr>ts_last_covenant := prior\<rparr> in
     rbind (wire_at s (rd_u16 r)) (\<lambda>(authorizing, r).
     if pos \<ge> outputs \<or> (ucast authorizing :: u32) \<ge> inputs \<or> ts_covenant st pos
     then Err (Wire InvalidTrailer, s) else
     rbind (wire_at s (rd_bytes 32 r)) (\<lambda>(id, r).
     let st = st\<lparr>ts_covenant := (ts_covenant st)(pos := True)\<rparr> in
     rbind (sink_call sink (CallCovenant pos authorizing id) s) (\<lambda>s. Ok (r, s, st))))))"

definition read_covenant_execution ::
  "('s, 'e) decode_sink \<Rightarrow> u32 \<Rightarrow> reader \<Rightarrow> 's \<Rightarrow> trailer_state \<Rightarrow> ('s, 'e) trailer_result" where
  "read_covenant_execution sink inputs r s st =
     rbind (wire_at s (rd_u8 r)) (\<lambda>(pos, r).
     rbind (wire_at s (require_increasing pos (ts_last_covenant_execution st))) (\<lambda>prior.
     let st = st\<lparr>ts_last_covenant_execution := prior\<rparr> in
     if (ucast pos :: u32) \<ge> inputs \<or> ts_covenant_execution st pos then Err (Wire InvalidTrailer, s) else
     rbind (wire_at s (rd_u16 r)) (\<lambda>(supplied_mask, r).
     rbind (wire_at s (rd_u16 r)) (\<lambda>(supplied_true_mask, r).
     let v = \<lparr>ce_supplied_mask = supplied_mask, ce_supplied_true_mask = supplied_true_mask\<rparr> in
     if \<not> valid_covenant_execution v then Err (Wire InvalidTrailer, s) else
     let st = st\<lparr>ts_covenant_execution := (ts_covenant_execution st)(pos := True)\<rparr> in
     rbind (sink_call sink (CallCovenantExecution pos v) s) (\<lambda>s. Ok (r, s, st))))))"

definition read_base_trailer ::
  "('s, 'e) decode_sink \<Rightarrow> u8 \<Rightarrow> u32 \<Rightarrow> u8 \<Rightarrow> reader \<Rightarrow> 's \<Rightarrow> trailer_state \<Rightarrow> ('s, 'e) trailer_result" where
  "read_base_trailer sink marker inputs outputs r s st =
     (if marker = NETWORK_MARKER then read_network sink r s st
      else if marker = MS45_INPUT_MARKER then read_ms45_input sink inputs r s st
      else if marker = MS45_OUTPUT_MARKER then read_ms45_output sink outputs r s st
      else if marker = STEALTH_MARKER then read_stealth sink r s st
      else Err (Wire TrailingData, s))"

definition read_extended_trailer ::
  "('s, 'e) decode_sink \<Rightarrow> u8 \<Rightarrow> u32 \<Rightarrow> u8 \<Rightarrow> reader \<Rightarrow> 's \<Rightarrow> trailer_state \<Rightarrow> ('s, 'e) trailer_result" where
  "read_extended_trailer sink marker inputs outputs r s st =
     (if marker = COVENANT_MARKER then read_covenant sink inputs outputs r s st
      else if marker = COVENANT_EXECUTION_MARKER then read_covenant_execution sink inputs r s st
      else if marker = INPUT_DERIVATION_MARKER then read_input_derivation sink inputs r s st
      else if marker = OUTPUT_DERIVATION_MARKER then read_output_derivation sink outputs r s st
      else Err (Wire TrailingData, s))"

definition read_trailer ::
  "('s, 'e) decode_sink \<Rightarrow> u8 \<Rightarrow> u32 \<Rightarrow> u8 \<Rightarrow> reader \<Rightarrow> 's \<Rightarrow> trailer_state \<Rightarrow> ('s, 'e) trailer_result" where
  "read_trailer sink marker inputs outputs r s st =
     rbind (wire_at s (require_canonical_marker_order marker st)) (\<lambda>st.
     if marker \<in> {NETWORK_MARKER, MS45_INPUT_MARKER, MS45_OUTPUT_MARKER, STEALTH_MARKER}
     then read_base_trailer sink marker inputs outputs r s st
     else read_extended_trailer sink marker inputs outputs r s st)"

text \<open>Reads never move the cursor backwards and never change the data.\<close>

definition ahead :: "reader \<Rightarrow> reader \<Rightarrow> bool" where
  "ahead r r' \<longleftrightarrow> rd_remaining r' \<le> rd_remaining r"

lemma ahead_trans: "ahead r r1 \<Longrightarrow> ahead r1 r2 \<Longrightarrow> ahead r r2"
  by (simp add: ahead_def)

lemma wire_at_Ok [simp]: "wire_at s m = Ok a \<longleftrightarrow> m = Ok a"
  by (simp add: wire_at_def)

lemma wire_at_simps [simp]: "wire_at s (Ok a) = Ok a" "wire_at s (Err e) = Err (Wire e, s)"
  by (simp_all add: wire_at_def)

lemma rd_bytes_ahead: "rd_bytes n r = Ok (bs, r') \<Longrightarrow> ahead r r'"
  by (auto simp: rd_bytes_def ahead_def rd_remaining_def Let_def split: if_splits)

lemma rd_word_ahead:
  "rd_u8 r = Ok (b, r') \<Longrightarrow> ahead r r'"
  "rd_u16 r = Ok (x, r') \<Longrightarrow> ahead r r'"
  "rd_u32 r = Ok (y, r') \<Longrightarrow> ahead r r'"
  "rd_u64 r = Ok (z, r') \<Longrightarrow> ahead r r'"
  by (auto simp: rd_u8_def rd_u16_def rd_u32_def rd_u64_def rbind_Inr_iff dest: rd_bytes_ahead)

lemma rd_u8_peek_less:
  "rd_peek r = Some b \<Longrightarrow> rd_u8 r = Ok (b', r') \<Longrightarrow> rd_remaining r' < rd_remaining r"
  by (auto simp: rd_peek_def rd_u8_def rd_bytes_def rd_remaining_def Let_def rbind_Inr_iff split: if_splits)

lemmas ahead_rules = rd_bytes_ahead rd_word_ahead ahead_trans

lemma body_ahead:
  "read_derivation_body r = Ok (v, r') \<Longrightarrow> ahead r r'"
  "read_ms45_body r = Ok (m, r') \<Longrightarrow> ahead r r'"
  by (auto simp: read_derivation_body_def read_ms45_body_def rbind_Inr_iff Let_def split: if_splits
      dest!: rd_word_ahead intro: ahead_trans)

lemma read_trailer_ahead:
  assumes "read_trailer sink marker inputs outputs r s st = Ok (r', s', st')"
  shows "ahead r r'"
proof -
  have base: "read_network sink r s x = Ok (r', s', st') \<Longrightarrow> ahead r r'"
    "read_stealth sink r s x = Ok (r', s', st') \<Longrightarrow> ahead r r'" for x
    by (auto simp: read_network_def read_stealth_def rbind_Inr_iff Let_def split: if_splits dest!: ahead_rules(1-5))
  have ms: "read_ms45_input sink inputs r s x = Ok (r', s', st') \<Longrightarrow> ahead r r'"
    "read_ms45_output sink outputs r s x = Ok (r', s', st') \<Longrightarrow> ahead r r'" for x
    by (auto simp: read_ms45_input_def read_ms45_output_def rbind_Inr_iff Let_def split: if_splits
        dest!: rd_word_ahead body_ahead intro: ahead_trans)
  have dv: "read_input_derivation sink inputs r s x = Ok (r', s', st') \<Longrightarrow> ahead r r'"
    "read_output_derivation sink outputs r s x = Ok (r', s', st') \<Longrightarrow> ahead r r'" for x
    by (auto simp: read_input_derivation_def read_output_derivation_def rbind_Inr_iff Let_def split: if_splits
        dest!: rd_word_ahead body_ahead intro: ahead_trans)
  have cv: "read_covenant sink inputs outputs r s x = Ok (r', s', st') \<Longrightarrow> ahead r r'"
    "read_covenant_execution sink inputs r s x = Ok (r', s', st') \<Longrightarrow> ahead r r'" for x
    by (auto simp: read_covenant_def read_covenant_execution_def rbind_Inr_iff Let_def split: if_splits
        dest!: rd_word_ahead rd_bytes_ahead intro: ahead_trans)
  show ?thesis
    using assms by (auto simp: read_trailer_def read_base_trailer_def read_extended_trailer_def rbind_Inr_iff
        split: if_splits dest: base ms dv cv)
qed

function read_trailers_loop ::
  "('s, 'e) decode_sink \<Rightarrow> u32 \<Rightarrow> u8 \<Rightarrow> reader \<Rightarrow> 's \<Rightarrow> trailer_state \<Rightarrow> ('s, 'e) trailer_result" where
  "read_trailers_loop sink inputs outputs r s st =
     (case rd_peek r of
        None \<Rightarrow> Ok (r, s, st)
      | Some _ \<Rightarrow>
          (case rd_u8 r of
             Inl e \<Rightarrow> Err (Wire e, s)
           | Inr (marker, r) \<Rightarrow>
               (case read_trailer sink marker inputs outputs r s st of
                  Inl e \<Rightarrow> Err e
                | Inr (r, s, st) \<Rightarrow> read_trailers_loop sink inputs outputs r s st)))"
  by pat_completeness auto
termination
proof (relation "measure (\<lambda>(sink, inputs, outputs, r, s, st). rd_remaining r)")
  fix sink :: "('s, 'e) decode_sink" and inputs outputs r s st b x marker r1 y r2 z s2 st2
  assume "rd_peek r = Some b" "rd_u8 r = Inr x" "(marker, r1) = x"
    "read_trailer sink marker inputs outputs r1 s st = Inr y" "(r2, z) = y" "(s2, st2) = z"
  then show "((sink, inputs, outputs, r2, s2, st2), (sink, inputs, outputs, r, s, st))
      \<in> measure (\<lambda>(sink, inputs, outputs, r, s, st). rd_remaining r)"
    using rd_u8_peek_less [of r b marker r1] read_trailer_ahead [of sink marker inputs outputs r1 s st r2 s2 st2]
    by (auto simp: ahead_def)
qed simp

declare read_trailers_loop.simps [simp del]

definition read_trailers ::
  "('s, 'e) decode_sink \<Rightarrow> u32 \<Rightarrow> u8 \<Rightarrow> reader \<Rightarrow> 's \<Rightarrow> ('e decode_error \<times> 's) + reader \<times> 's" where
  "read_trailers sink inputs outputs r s =
     rbind (read_trailers_loop sink inputs outputs r s trailer_state_new) (\<lambda>(r, s, st).
     if \<not> ts_network st then Err (Wire MissingNetwork, s) else Ok (r, s))"

section \<open>The whole envelope\<close>

definition decode_envelope ::
  "('s, 'e) decode_sink \<Rightarrow> limits \<Rightarrow> reader \<Rightarrow> 's \<Rightarrow> ('e decode_error \<times> 's) + u8 \<times> reader \<times> 's" where
  "decode_envelope sink l r s =
     rbind (wire_at s (read_header r)) (\<lambda>(flags, r).
     rbind (wire_at s (read_global_prefix r l)) (\<lambda>(prefix, r).
     rbind (wire_at s (read_global flags prefix r)) (\<lambda>(g, r).
     rbind (wire_at s (validate_input_capacity (g_input_count g) (rd_remaining r))) (\<lambda>_.
     rbind (sink_call sink (CallGlobal g) s) (\<lambda>s.
     rbind (read_inputs sink (g_input_count g) r s) (\<lambda>(r, s).
     rbind (read_outputs sink (g_output_count g) r s) (\<lambda>(r, s).
     rbind (read_trailers sink (g_input_count g) (g_output_count g) r s) (\<lambda>(r, s).
     Ok (flags, r, s)))))))))"

definition decode :: "('s, 'e) decode_sink \<Rightarrow> bytes \<Rightarrow> limits \<Rightarrow> 's \<Rightarrow> ('e decode_error \<times> 's) + u8 \<times> 's" where
  "decode sink data l s =
     rbind (decode_envelope sink l (reader_new data) s) (\<lambda>(flags, r, s). Ok (flags, s))"

text \<open>
  \<open>NullSink\<close> accepts every call. Its error type is \<open>Infallible\<close>, which has no value; HOL's types are
  not empty, so the branch of \<open>validate\<close> that Rust eliminates is written on \<open>wire_error\<close>; the sink
  below never returns an error.
\<close>

definition null_sink :: "(unit, wire_error) decode_sink" where
  "null_sink c s = Ok s"

definition validate :: "bytes \<Rightarrow> limits \<Rightarrow> wire_error + u8" where
  "validate data l =
     (case decode null_sink data l () of
        Inr (flags, _) \<Rightarrow> Ok flags
      | Inl (Wire e, _) \<Rightarrow> Err e
      | Inl (Sink e, _) \<Rightarrow> Err e)"

lemma sink_call_Ok: "sink_call sink c s = Ok s' \<longleftrightarrow> sink c s = Ok s'"
  by (simp add: sink_call_def)

lemma run_calls_single: "run_calls sink (c # cs) s = rbind (sink_call sink c s) (run_calls sink cs)"
  by (auto simp: sink_call_def split: sum.splits)

end
