(* ===== verification/Wire_Fields.thy ===== *)
theory Wire_Fields
  imports Wire_Decode
begin

text \<open>
  The contract between one read function of the decoder and the bytes the encoder writes for the
  same value, as a locale: reading undoes writing, and every successful read was of written bytes.
  It is interpreted on each read function of the decoder that calls no sink; prefix-freeness of
  every section of the grammar follows from the locale.
\<close>

locale field_parser =
  fixes rd :: "reader \<Rightarrow> wire_error + 'a \<times> reader"
    and enc :: "'a \<Rightarrow> bytes"
    and ok :: "'a \<Rightarrow> bool"
  assumes rd_enc: "ok a \<Longrightarrow> rd (reading p (enc a @ s)) = Ok (a, reading (p @ enc a) s)"
    and rd_dec: "rd (reading p s) = Ok (a, r) \<Longrightarrow> ok a \<and> (\<exists>s'. s = enc a @ s' \<and> r = reading (p @ enc a) s')"
begin

lemma rd_Ok_iff:
  "rd (reading p s) = Ok (a, r) \<longleftrightarrow> ok a \<and> (\<exists>s'. s = enc a @ s' \<and> r = reading (p @ enc a) s')"
  using rd_enc rd_dec by metis

lemma prefix_free: "ok a \<Longrightarrow> ok b \<Longrightarrow> enc a @ s = enc b @ t \<Longrightarrow> a = b \<and> s = t"
  using rd_enc [of a "[]" s] rd_enc [of b "[]" t] by (auto simp: reading_def)

end

lemma rd_script_Ok:
  assumes "rd_script (reading p s) = Ok (v, r)"
  shows "length v \<le> MAX_SCRIPT_SIZE \<and> (\<exists>s'. s = script_bytes_enc v @ s' \<and> r = reading (p @ script_bytes_enc v) s')"
proof -
  obtain prefix s1 where s: "s = prefix # s1" and rest:
    "rbind (if prefix = EXTENDED_SCRIPT_LENGTH
            then rbind (rd_u16 (reading (p @ [prefix]) s1)) (\<lambda>(n, r).
                   if unat n < unat EXTENDED_SCRIPT_LENGTH then Err NonCanonicalEncoding else Ok (unat n, r))
            else Ok (unat prefix, reading (p @ [prefix]) s1)) (\<lambda>(len, r).
      if len > MAX_SCRIPT_SIZE then Err ScriptTooLong else rd_bytes len r) = Ok (v, r)"
    using assms by (auto simp: rd_script_def rbind_Inr_iff elim!: rd_u8_Ok)
  show ?thesis
  proof (cases "prefix = EXTENDED_SCRIPT_LENGTH")
    case True
    with rest obtain n s2 where s1: "s1 = u16_to_le n @ s2" and n: "\<not> unat n < 255"
      and len: "unat n \<le> MAX_SCRIPT_SIZE"
      and bs: "rd_bytes (unat n) (reading (p @ prefix # u16_to_le n) s2) = Ok (v, r)"
      by (auto simp: rbind_Inr_iff EXTENDED_SCRIPT_LENGTH_def split: if_splits elim!: rd_u16_Ok)
    from bs obtain s3 where "s2 = v @ s3" "length v = unat n" "r = reading ((p @ prefix # u16_to_le n) @ v) s3"
      by (rule rd_bytes_Ok)
    with True s s1 n len show ?thesis by (simp add: script_bytes_enc_def EXTENDED_SCRIPT_LENGTH_def)
  next
    case False
    with rest have len: "unat prefix \<le> MAX_SCRIPT_SIZE"
      and bs: "rd_bytes (unat prefix) (reading (p @ [prefix]) s1) = Ok (v, r)"
      by (auto split: if_splits)
    from bs obtain s2 where v: "s1 = v @ s2" "length v = unat prefix" "r = reading ((p @ [prefix]) @ v) s2"
      by (rule rd_bytes_Ok)
    have "unat prefix \<noteq> 255"
    proof
      assume "unat prefix = 255"
      then have "prefix = 255" by (simp add: word_unat_eq_iff)
      with False show False by (simp add: EXTENDED_SCRIPT_LENGTH_def)
    qed
    with unat_u8_less [of prefix] have "unat prefix < 255" by simp
    with s v len show ?thesis by (simp add: script_bytes_enc_def)
  qed
qed

interpretation fp_bytes: field_parser "rd_bytes n" "\<lambda>bs. bs" "\<lambda>bs. length bs = n" for n
  by unfold_locales (auto simp: wire_simps elim!: rd_bytes_Ok)

interpretation fp_u8: field_parser rd_u8 "\<lambda>b. [b]" "\<lambda>_. True"
  by unfold_locales (auto simp: wire_simps elim!: rd_u8_Ok)

interpretation fp_u16: field_parser rd_u16 u16_to_le "\<lambda>_. True"
  by unfold_locales (auto simp: wire_simps elim!: rd_u16_Ok)

interpretation fp_u32: field_parser rd_u32 u32_to_le "\<lambda>_. True"
  by unfold_locales (auto simp: wire_simps elim!: rd_u32_Ok)

interpretation fp_u64: field_parser rd_u64 u64_to_le "\<lambda>_. True"
  by unfold_locales (auto simp: wire_simps elim!: rd_u64_Ok)

interpretation fp_script: field_parser rd_script script_bytes_enc "\<lambda>v. length v \<le> MAX_SCRIPT_SIZE"
  by unfold_locales (auto simp: wire_simps dest: rd_script_Ok)

lemmas fp_iffs = fp_bytes.rd_Ok_iff fp_u8.rd_Ok_iff fp_u16.rd_Ok_iff fp_u32.rd_Ok_iff fp_u64.rd_Ok_iff
  fp_script.rd_Ok_iff

section \<open>Composite sections\<close>

definition input_value_ok :: "wire_input \<Rightarrow> bool" where
  "input_value_ok v \<longleftrightarrow> length (wi_previous_tx_id v) = 32
     \<and> unat (wi_sig_op_count v) \<le> MAX_SIGNATURE_RECORDS \<and> length (wi_script v) \<le> MAX_SCRIPT_SIZE"

interpretation fp_input_value: field_parser read_input_value input_value_bytes input_value_ok
proof unfold_locales
  fix a p s assume "input_value_ok a"
  then show "read_input_value (reading p (input_value_bytes a @ s)) = Ok (a, reading (p @ input_value_bytes a) s)"
    by (simp add: read_input_value_def input_value_bytes_def input_value_ok_def wire_simps)
next
  fix p s a r assume "read_input_value (reading p s) = Ok (a, r)"
  then show "input_value_ok a \<and> (\<exists>s'. s = input_value_bytes a @ s' \<and> r = reading (p @ input_value_bytes a) s')"
    by (auto simp: read_input_value_def input_value_bytes_def input_value_ok_def rbind_Inr_iff fp_iffs
        split: if_splits)
qed

interpretation fp_signature_count:
  field_parser read_signature_count "\<lambda>b. [b]" "\<lambda>b. unat b \<le> MAX_SIGNATURE_RECORDS"
  by unfold_locales (auto simp: read_signature_count_def rbind_Inr_iff fp_iffs wire_simps split: if_splits)

interpretation fp_output: field_parser read_output output_bytes "\<lambda>v. length (wo_script v) \<le> MAX_SCRIPT_SIZE"
proof unfold_locales
  fix a :: wire_output and p s assume "length (wo_script a) \<le> MAX_SCRIPT_SIZE"
  then show "read_output (reading p (output_bytes a @ s)) = Ok (a, reading (p @ output_bytes a) s)"
    by (simp add: read_output_def output_bytes_def wire_simps)
next
  fix p s a r assume "read_output (reading p s) = Ok (a, r)"
  then show "length (wo_script a) \<le> MAX_SCRIPT_SIZE
      \<and> (\<exists>s'. s = output_bytes a @ s' \<and> r = reading (p @ output_bytes a) s')"
    by (auto simp: read_output_def output_bytes_def rbind_Inr_iff fp_iffs)
qed

interpretation fp_derivation: field_parser read_derivation_body derivation_body valid_derivation
  by unfold_locales
    (auto simp: read_derivation_body_def derivation_body_def rbind_Inr_iff fp_iffs wire_simps Let_def
      valid_derivation_def split: if_splits)

interpretation fp_ms45: field_parser read_ms45_body ms45_body valid_ms45
  by unfold_locales
    (auto simp: read_ms45_body_def ms45_body_def rbind_Inr_iff fp_iffs wire_simps Let_def valid_ms45_def
      split: if_splits)

text \<open>A signature is read against the array of positions already seen.\<close>

definition signature_ok :: "(u8 \<Rightarrow> bool) \<Rightarrow> signature \<Rightarrow> bool" where
  "signature_ok seen v \<longleftrightarrow> \<not> seen (sg_position v) \<and> valid_sighash (sg_sighash v) \<and> length (sg_bytes v) = 64"

lemma read_signature_iff:
  "read_signature (reading p s) seen = Ok ((v, seen'), r) \<longleftrightarrow>
     signature_ok seen v \<and> seen' = seen(sg_position v := True)
     \<and> (\<exists>s'. s = signature_bytes v @ s' \<and> r = reading (p @ signature_bytes v) s')"
proof
  assume "read_signature (reading p s) seen = Ok ((v, seen'), r)"
  then show "signature_ok seen v \<and> seen' = seen(sg_position v := True)
     \<and> (\<exists>s'. s = signature_bytes v @ s' \<and> r = reading (p @ signature_bytes v) s')"
    by (auto simp: read_signature_def signature_ok_def signature_bytes_def rbind_Inr_iff fp_iffs Let_def
        split: if_splits)
next
  assume "signature_ok seen v \<and> seen' = seen(sg_position v := True)
     \<and> (\<exists>s'. s = signature_bytes v @ s' \<and> r = reading (p @ signature_bytes v) s')"
  then show "read_signature (reading p s) seen = Ok ((v, seen'), r)"
    by (auto simp: read_signature_def signature_ok_def signature_bytes_def wire_simps Let_def)
qed

definition read_envelope_global :: "limits \<Rightarrow> reader \<Rightarrow> wire_error + global \<times> reader" where
  "read_envelope_global l r =
     rbind (read_header r) (\<lambda>(flags, r).
     rbind (read_global_prefix r l) (\<lambda>(prefix, r). read_global flags prefix r))"

definition global_wire_ok :: "limits \<Rightarrow> global \<Rightarrow> bool" where
  "global_wire_ok l g \<longleftrightarrow> global_ok g l \<and> length (g_subnetwork_id g) = 20 \<and> length (g_payload g) < 2 ^ 32"

interpretation fp_global: field_parser "read_envelope_global l" "\<lambda>g. header_bytes g @ global_bytes g" "global_wire_ok l" for l
proof unfold_locales
  fix a p s assume "global_wire_ok l a"
  then show "read_envelope_global l (reading p ((header_bytes a @ global_bytes a) @ s))
      = Ok (a, reading (p @ header_bytes a @ global_bytes a) s)"
    by (simp add: read_envelope_global_def read_header_def read_global_prefix_def read_global_counts_def
        read_global_tail_def read_global_def header_bytes_def global_bytes_def global_wire_ok_def global_ok_def
        limits_validate_inputs_def limits_validate_outputs_def limits_validate_payload_def MAGIC_def not_less wire_simps
        rd_bytes_append [of "[0x4b, 0x53, 0x50, 0x54]" 4, simplified])
next
  fix p s a r assume "read_envelope_global l (reading p s) = Ok (a, r)"
  moreover have "unat w < 4294967296" for w :: u32 using unat_bound [of w] by simp
  ultimately show "global_wire_ok l a \<and> (\<exists>s'. s = (header_bytes a @ global_bytes a) @ s'
      \<and> r = reading (p @ header_bytes a @ global_bytes a) s')"
    by (auto simp: read_envelope_global_def read_header_def read_global_prefix_def read_global_counts_def
        read_global_tail_def read_global_def header_bytes_def global_bytes_def global_wire_ok_def global_ok_def
        limits_validate_inputs_def limits_validate_outputs_def limits_validate_payload_def rbind_Inr_iff fp_iffs
        not_less split: if_splits)
qed

end
