(* ===== verification/Wire_Trailers.thy ===== *)
theory Wire_Trailers
  imports Wire_Fields
begin

text \<open>
  The trailer section as a state machine over \<open>trailer_state\<close>. The six positional trailer kinds
  share one contract, the locale \<open>trailer_group\<close>: which bytes a record has, when it is accepted,
  which sink call it makes and how it moves the state. Reading a whole group back is proved once
  in the locale and instantiated for the six kinds, and so is the converse, that an accepted
  record was the encoding of the call it made.
\<close>

fun call_bytes :: "decode_call \<Rightarrow> bytes" where
  "call_bytes (CallGlobal g) = header_bytes g @ global_bytes g"
| "call_bytes (CallInput i v n) = input_value_bytes v @ [n]"
| "call_bytes (CallSignature i k v) = signature_bytes v"
| "call_bytes (CallRedeem i v) = redeem_bytes v"
| "call_bytes (CallOutput i v) = output_bytes v"
| "call_bytes (CallNetwork v) = [NETWORK_MARKER, v]"
| "call_bytes (CallStealth v) = STEALTH_MARKER # v"
| "call_bytes (CallInputDerivation p v) = INPUT_DERIVATION_MARKER # p # derivation_body v"
| "call_bytes (CallOutputDerivation p v) = OUTPUT_DERIVATION_MARKER # p # derivation_body v"
| "call_bytes (CallInputMs45 p v) = MS45_INPUT_MARKER # p # ms45_body v"
| "call_bytes (CallOutputMs45 p v) = MS45_OUTPUT_MARKER # p # ms45_body v"
| "call_bytes (CallCovenant p a i) = COVENANT_MARKER # p # covenant_body \<lparr>cv_authorizing_input = a, cv_id = i\<rparr>"
| "call_bytes (CallCovenantExecution p v) = COVENANT_EXECUTION_MARKER # p # covenant_execution_body v"

abbreviation calls_bytes :: "decode_call list \<Rightarrow> bytes" where
  "calls_bytes cs \<equiv> concat (map call_bytes cs)"

text \<open>No group of rank \<open>k\<close> or later has been entered.\<close>

definition fresh :: "nat \<Rightarrow> trailer_state \<Rightarrow> bool" where
  "fresh k st \<longleftrightarrow> ts_network st \<and> unat (ts_last_rank st) \<le> k
     \<and> (k \<le> 1 \<longrightarrow> ts_last_input_ms45 st = None \<and> ts_input_ms45 st = (\<lambda>_. False))
     \<and> (k \<le> 2 \<longrightarrow> ts_last_output_ms45 st = None \<and> ts_output_ms45 st = (\<lambda>_. False))
     \<and> (k \<le> 3 \<longrightarrow> \<not> ts_stealth st)
     \<and> (k \<le> 4 \<longrightarrow> ts_last_covenant st = None \<and> ts_covenant st = (\<lambda>_. False))
     \<and> (k \<le> 5 \<longrightarrow> ts_last_covenant_execution st = None \<and> ts_covenant_execution st = (\<lambda>_. False))
     \<and> (k \<le> 6 \<longrightarrow> ts_last_input_derivation st = None \<and> ts_input_derivation st = (\<lambda>_. False))
     \<and> (k \<le> 7 \<longrightarrow> ts_last_output_derivation st = None \<and> ts_output_derivation st = (\<lambda>_. False))"

lemma fresh_Suc: "fresh k st \<Longrightarrow> fresh (Suc k) st"
  by (simp add: fresh_def)

definition group_calls :: "(u8 \<Rightarrow> 'v \<Rightarrow> decode_call) \<Rightarrow> (nat \<Rightarrow> 'v option) \<Rightarrow> nat list \<Rightarrow> decode_call list" where
  "group_calls call get ixs =
     concat (map (\<lambda>i. case get i of None \<Rightarrow> [] | Some v \<Rightarrow> [call (word_of_nat i) v]) ixs)"

lemma loop_marker:
  "read_trailers_loop sink inputs outputs (reading p (m # t)) s st =
     rbind (read_trailer sink m inputs outputs (reading (p @ [m]) t) s st)
           (\<lambda>(r, s, st). read_trailers_loop sink inputs outputs r s st)"
  by (subst read_trailers_loop.simps) (auto simp: wire_simps rbind_def split: sum.splits)

lemma loop_end: "read_trailers_loop sink inputs outputs (reading p []) s st = Ok (reading p [], s, st)"
  by (subst read_trailers_loop.simps) simp

text \<open>The loop, entered with no group of rank \<open>k\<close> or later begun, makes the calls \<open>cs\<close> on their bytes.\<close>

definition loop_follows ::
  "('s, 'e) decode_sink \<Rightarrow> u32 \<Rightarrow> u8 \<Rightarrow> nat \<Rightarrow> nat \<Rightarrow> decode_call list \<Rightarrow> bool" where
  "loop_follows sink inputs outputs k k' cs \<longleftrightarrow>
     (\<forall>st p t s. fresh k st \<longrightarrow> (\<exists>st'. fresh k' st' \<and>
        read_trailers_loop sink inputs outputs (reading p (calls_bytes cs @ t)) s st =
        rbind (run_calls sink cs s) (\<lambda>s. read_trailers_loop sink inputs outputs (reading (p @ calls_bytes cs) t) s st')))"

locale trailer_group =
  fixes sink :: "('s, 'e) decode_sink" and inputs :: u32 and outputs :: u8
    and marker :: u8 and rank :: u8
    and read :: "reader \<Rightarrow> 's \<Rightarrow> trailer_state \<Rightarrow> ('s, 'e) trailer_result"
    and prior :: "trailer_state \<Rightarrow> u8 option" and seen :: "trailer_state \<Rightarrow> u8 \<Rightarrow> bool"
    and mark :: "u8 \<Rightarrow> trailer_state \<Rightarrow> trailer_state"
    and fits :: "u8 \<Rightarrow> 'v \<Rightarrow> bool" and body :: "'v \<Rightarrow> bytes" and call :: "u8 \<Rightarrow> 'v \<Rightarrow> decode_call"
  assumes dispatch: "read_trailer sink marker inputs outputs r s st =
       (if ts_network st \<and> ts_last_rank st \<le> rank then read r s (st\<lparr>ts_last_rank := rank\<rparr>)
        else Err (Wire InvalidTrailer, s))"
    and call_marker: "call_bytes (call q v) = marker # q # body v"
    and read_ok: "fits q v \<Longrightarrow> (\<And>l. prior st = Some l \<Longrightarrow> l < q) \<Longrightarrow> \<not> seen st q \<Longrightarrow>
       read (reading p (q # body v @ t)) s st =
         rbind (sink_call sink (call q v) s) (\<lambda>s. Ok (reading (p @ q # body v) t, s, mark q st))"
    and read_inv: "read (reading p t) s st = Ok (r', s', st') \<Longrightarrow>
       \<exists>q v t'. t = q # body v @ t' \<and> r' = reading (p @ q # body v) t' \<and> sink (call q v) s = Ok s' \<and> fits q v"
    and prior_rank: "prior (st\<lparr>ts_last_rank := rank\<rparr>) = prior st" "seen (st\<lparr>ts_last_rank := rank\<rparr>) = seen st"
    and prior_mark: "prior (mark q st) = Some q" "seen (mark q st) = (seen st)(q := True)"
    and rank_mark: "ts_last_rank (mark q st) = ts_last_rank st" "ts_network (mark q st) = ts_network st"
    and fresh_mark: "fresh (Suc (unat rank)) st \<Longrightarrow> fresh (Suc (unat rank)) (mark q (st\<lparr>ts_last_rank := rank\<rparr>))"
    and enter: "fresh (unat rank) st \<Longrightarrow> prior st = None \<and> seen st = (\<lambda>_. False)"
begin

text \<open>Inside the group: every position read so far is below \<open>i\<close>.\<close>

definition within :: "nat \<Rightarrow> trailer_state \<Rightarrow> bool" where
  "within i st \<longleftrightarrow> ts_network st \<and> ts_last_rank st \<le> rank \<and> fresh (Suc (unat rank)) st
     \<and> (\<forall>l. prior st = Some l \<longrightarrow> unat l < i) \<and> (\<forall>l. seen st l \<longrightarrow> unat l < i)"

lemma within_enter: "fresh (unat rank) st \<Longrightarrow> within 0 st"
  using enter [of st] fresh_Suc [of "unat rank" st] by (simp add: within_def fresh_def word_le_nat_alt)

lemma within_Suc: "within i st \<Longrightarrow> within (Suc i) st"
  by (force simp: within_def)

lemma step_record:
  assumes st: "within i st" and i: "i < 256" and v: "fits (word_of_nat i) v"
  shows "read_trailers_loop sink inputs outputs (reading p (call_bytes (call (word_of_nat i) v) @ t)) s st =
      rbind (sink_call sink (call (word_of_nat i) v) s) (\<lambda>s.
        read_trailers_loop sink inputs outputs (reading (p @ call_bytes (call (word_of_nat i) v)) t) s
          (mark (word_of_nat i) (st\<lparr>ts_last_rank := rank\<rparr>)))"
    and "within (Suc i) (mark (word_of_nat i) (st\<lparr>ts_last_rank := rank\<rparr>))"
proof -
  let ?st = "st\<lparr>ts_last_rank := rank\<rparr>" and ?q = "word_of_nat i :: u8"
  have q: "unat ?q = i" using i by simp
  have last: "l < ?q" if "prior ?st = Some l" for l
    using st that q by (auto simp: within_def prior_rank word_less_nat_alt)
  have new: "\<not> seen ?st ?q" using st q by (auto simp: within_def prior_rank)
  have "read_trailer sink marker inputs outputs (reading (p @ [marker]) (?q # body v @ t)) s st =
      rbind (sink_call sink (call ?q v) s) (\<lambda>s. Ok (reading ((p @ [marker]) @ ?q # body v) t, s, mark ?q ?st))"
    unfolding dispatch using read_ok [OF v last new] st by (simp add: within_def)
  then show "read_trailers_loop sink inputs outputs (reading p (call_bytes (call ?q v) @ t)) s st =
      rbind (sink_call sink (call ?q v) s) (\<lambda>s.
        read_trailers_loop sink inputs outputs (reading (p @ call_bytes (call ?q v)) t) s (mark ?q ?st))"
    by (simp add: call_marker loop_marker rbind_assoc)
  show "within (Suc i) (mark ?q ?st)"
    using st fresh_mark [of st ?q] q
    by (auto simp: within_def prior_rank prior_mark rank_mark less_Suc_eq)
qed

lemma read_records:
  assumes "within a st" and "a \<le> n"
    and "\<And>i v. a \<le> i \<Longrightarrow> i < n \<Longrightarrow> get i = Some v \<Longrightarrow> i < 256 \<and> fits (word_of_nat i) v"
  shows "\<exists>st'. within n st' \<and>
     read_trailers_loop sink inputs outputs (reading p (calls_bytes (group_calls call get [a..<n]) @ t)) s st =
     rbind (run_calls sink (group_calls call get [a..<n]) s) (\<lambda>s.
       read_trailers_loop sink inputs outputs (reading (p @ calls_bytes (group_calls call get [a..<n])) t) s st')"
  using assms
proof (induction "n - a" arbitrary: a st p s)
  case 0
  then show ?case by (auto simp: group_calls_def intro!: exI [of _ st])
next
  case (Suc k)
  then have split: "[a..<n] = a # [Suc a..<n]" by (simp add: upt_rec)
  have k: "k = n - Suc a" "Suc a \<le> n" using Suc.hyps(2) by simp_all
  have rest: "i < 256 \<and> fits (word_of_nat i) v" if "Suc a \<le> i" "i < n" "get i = Some v" for i v
    using Suc.prems(3) [of i v] that by simp
  show ?case
  proof (cases "get a")
    case None
    have "\<exists>st'. within n st' \<and>
       read_trailers_loop sink inputs outputs (reading p (calls_bytes (group_calls call get [Suc a..<n]) @ t)) s st =
       rbind (run_calls sink (group_calls call get [Suc a..<n]) s) (\<lambda>s.
         read_trailers_loop sink inputs outputs (reading (p @ calls_bytes (group_calls call get [Suc a..<n])) t) s st')"
      by (rule Suc.hyps(1) [OF k(1) within_Suc [OF Suc.prems(1)] k(2) rest])
    with None show ?thesis by (simp add: split group_calls_def)
  next
    case (Some v)
    let ?c = "call (word_of_nat a) v" and ?st = "mark (word_of_nat a) (st\<lparr>ts_last_rank := rank\<rparr>)"
      and ?cs = "group_calls call get [Suc a..<n]"
    have a: "a < 256" "fits (word_of_nat a) v" using Suc.prems(3) [of a v] Some k by simp_all
    note step = step_record [OF Suc.prems(1) a]
    have IH: "\<exists>st'. within n st' \<and>
       read_trailers_loop sink inputs outputs (reading (p @ call_bytes ?c) (calls_bytes ?cs @ t)) s1 ?st =
       rbind (run_calls sink ?cs s1) (\<lambda>s.
         read_trailers_loop sink inputs outputs (reading ((p @ call_bytes ?c) @ calls_bytes ?cs) t) s st')" for s1
      by (rule Suc.hyps(1) [OF k(1) step(2) k(2) rest])
    have cs: "group_calls call get [a..<n] = ?c # ?cs" by (simp add: split group_calls_def Some)
    show ?thesis
    proof (cases "sink_call sink ?c s")
      case (Inl e)
      with step IH [of s] show ?thesis
        unfolding cs by (auto simp: run_calls_single simp del: run_calls.simps)
    next
      case (Inr s1)
      with step IH [of s1] show ?thesis
        unfolding cs by (auto simp: run_calls_single simp del: run_calls.simps)
    qed
  qed
qed

lemma group_follows:
  assumes "unat rank = k" and "Suc k = k'"
    and "\<And>i v. i < n \<Longrightarrow> get i = Some v \<Longrightarrow> i < 256 \<and> fits (word_of_nat i) v"
  shows "loop_follows sink inputs outputs k k' (group_calls call get [0..<n])"
  unfolding loop_follows_def
proof (intro allI impI)
  fix st p t s assume "fresh k st"
  then have "within 0 st" using assms(1) within_enter by simp
  then show "\<exists>st'. fresh k' st' \<and>
     read_trailers_loop sink inputs outputs (reading p (calls_bytes (group_calls call get [0..<n]) @ t)) s st =
     rbind (run_calls sink (group_calls call get [0..<n]) s) (\<lambda>s.
       read_trailers_loop sink inputs outputs (reading (p @ calls_bytes (group_calls call get [0..<n])) t) s st')"
    using read_records [of 0 st n get p t s] assms by (auto simp: within_def)
qed

lemma record_inv:
  assumes "read_trailer sink marker inputs outputs (reading (p @ [marker]) t) s st = Ok (r', s', st')"
  shows "\<exists>q v t'. marker # t = call_bytes (call q v) @ t' \<and> r' = reading (p @ call_bytes (call q v)) t'
    \<and> sink (call q v) s = Ok s' \<and> fits q v"
proof -
  from assms have "read (reading (p @ [marker]) t) s (st\<lparr>ts_last_rank := rank\<rparr>) = Ok (r', s', st')"
    by (auto simp: dispatch split: if_splits)
  then obtain q v t' where "t = q # body v @ t'" "r' = reading ((p @ [marker]) @ q # body v) t'"
    "sink (call q v) s = Ok s'" "fits q v" using read_inv by blast
  then show ?thesis
    by (intro exI [of _ q] exI [of _ v] exI [of _ t']) (simp add: call_marker)
qed

end

section \<open>The six positional kinds\<close>

lemma require_increasing_Ok:
  "require_increasing q prior = Ok x \<longleftrightarrow> x = Some q \<and> (\<forall>l. prior = Some l \<longrightarrow> l < q)"
  by (auto simp: require_increasing_def not_le split: option.splits)

lemma dispatch_order:
  "require_canonical_marker_order m st =
     (case marker_rank m of None \<Rightarrow> Err TrailingData
      | Some rank \<Rightarrow> if (ts_network st \<or> m = NETWORK_MARKER) \<and> ts_last_rank st \<le> rank
                     then Ok (st\<lparr>ts_last_rank := rank\<rparr>) else Err InvalidTrailer)"
  by (auto simp: require_canonical_marker_order_def not_less split: option.splits)

lemmas dispatch_defs = read_trailer_def read_base_trailer_def read_extended_trailer_def dispatch_order marker_rank_def

lemma covenant_execution_eta [simp]:
  "\<lparr>ce_supplied_mask = ce_supplied_mask v, ce_supplied_true_mask = ce_supplied_true_mask v\<rparr> = v"
  by simp

lemma positional_ok:
  "(\<And>l. prior = Some l \<Longrightarrow> l < q) \<Longrightarrow> require_increasing q prior = Ok (Some q)"
  by (simp add: require_increasing_Ok)

interpretation ms45_inputs: trailer_group sink inputs outputs MS45_INPUT_MARKER 1 "read_ms45_input sink inputs"
  ts_last_input_ms45 ts_input_ms45
  "\<lambda>q st. st\<lparr>ts_last_input_ms45 := Some q, ts_input_ms45 := (ts_input_ms45 st)(q := True)\<rparr>"
  "\<lambda>q v. (ucast q :: u32) < inputs \<and> valid_ms45 v" ms45_body CallInputMs45
  for sink :: "('s, 'e) decode_sink" and inputs outputs
proof (unfold_locales, goal_cases)
  case (4 p t s st r' s' st')
  then show ?case
    by (auto simp: read_ms45_input_def fp_ms45.rd_Ok_iff fp_iffs rbind_Inr_iff sink_call_Ok not_le Let_def split: if_splits)
qed (auto simp: dispatch_defs marker_defs read_ms45_input_def fp_ms45.rd_enc
      wire_simps positional_ok require_increasing_Ok rbind_Inr_iff sink_call_Ok not_le Let_def fresh_def
      split: if_splits)

interpretation ms45_outputs: trailer_group sink inputs outputs MS45_OUTPUT_MARKER 2 "read_ms45_output sink outputs"
  ts_last_output_ms45 ts_output_ms45
  "\<lambda>q st. st\<lparr>ts_last_output_ms45 := Some q, ts_output_ms45 := (ts_output_ms45 st)(q := True)\<rparr>"
  "\<lambda>q v. q < outputs \<and> valid_ms45 v" ms45_body CallOutputMs45
  for sink :: "('s, 'e) decode_sink" and inputs outputs
proof (unfold_locales, goal_cases)
  case (4 p t s st r' s' st')
  then show ?case
    by (auto simp: read_ms45_output_def fp_ms45.rd_Ok_iff fp_iffs rbind_Inr_iff sink_call_Ok not_le Let_def split: if_splits)
qed (auto simp: dispatch_defs marker_defs read_ms45_output_def fp_ms45.rd_enc
      wire_simps positional_ok require_increasing_Ok rbind_Inr_iff sink_call_Ok not_le Let_def fresh_def
      split: if_splits)

interpretation covenants: trailer_group sink inputs outputs COVENANT_MARKER 4 "read_covenant sink inputs outputs"
  ts_last_covenant ts_covenant
  "\<lambda>q st. st\<lparr>ts_last_covenant := Some q, ts_covenant := (ts_covenant st)(q := True)\<rparr>"
  "\<lambda>q v. q < outputs \<and> (ucast (cv_authorizing_input v) :: u32) < inputs \<and> length (cv_id v) = 32"
  covenant_body "\<lambda>q v. CallCovenant q (cv_authorizing_input v) (cv_id v)"
  for sink :: "('s, 'e) decode_sink" and inputs outputs
proof (unfold_locales, goal_cases)
  case (4 p t s st r' s' st')
  then obtain q a i t' where "t = q # u16_to_le a @ i @ t'" "r' = reading (p @ q # u16_to_le a @ i) t'"
    "sink (CallCovenant q a i) s = Ok s'" "q < outputs" "(ucast a :: u32) < inputs" "length i = 32"
    by (auto simp: not_le read_covenant_def wire_simps fp_iffs require_increasing_Ok rbind_Inr_iff sink_call_Ok Let_def
        split: if_splits)
  then show ?case
    by (intro exI [of _ q] exI [of _ "\<lparr>cv_authorizing_input = a, cv_id = i\<rparr>"] exI [of _ t'])
      (simp add: covenant_body_def)
qed (auto simp: dispatch_defs marker_defs covenant_body_def read_covenant_def
      wire_simps fp_iffs positional_ok require_increasing_Ok rbind_Inr_iff sink_call_Ok not_le Let_def fresh_def
      split: if_splits)

interpretation covenant_executions: trailer_group sink inputs outputs COVENANT_EXECUTION_MARKER 5
  "read_covenant_execution sink inputs" ts_last_covenant_execution ts_covenant_execution
  "\<lambda>q st. st\<lparr>ts_last_covenant_execution := Some q, ts_covenant_execution := (ts_covenant_execution st)(q := True)\<rparr>"
  "\<lambda>q v. (ucast q :: u32) < inputs \<and> valid_covenant_execution v" covenant_execution_body CallCovenantExecution
  for sink :: "('s, 'e) decode_sink" and inputs outputs
proof (unfold_locales, goal_cases)
  case (4 p t s st r' s' st')
  then obtain q a b t' where "t = q # u16_to_le a @ u16_to_le b @ t'"
    "r' = reading (p @ q # u16_to_le a @ u16_to_le b) t'"
    "sink (CallCovenantExecution q \<lparr>ce_supplied_mask = a, ce_supplied_true_mask = b\<rparr>) s = Ok s'"
    "(ucast q :: u32) < inputs" "valid_covenant_execution \<lparr>ce_supplied_mask = a, ce_supplied_true_mask = b\<rparr>"
    by (auto simp: not_le read_covenant_execution_def wire_simps fp_iffs require_increasing_Ok rbind_Inr_iff sink_call_Ok
        Let_def split: if_splits)
  then show ?case
    by (intro exI [of _ q] exI [of _ "\<lparr>ce_supplied_mask = a, ce_supplied_true_mask = b\<rparr>"] exI [of _ t'])
      (simp add: covenant_execution_body_def)
qed (auto simp: dispatch_defs marker_defs covenant_execution_body_def read_covenant_execution_def
      wire_simps fp_iffs positional_ok require_increasing_Ok rbind_Inr_iff sink_call_Ok not_le Let_def fresh_def
      split: if_splits)

interpretation input_derivations: trailer_group sink inputs outputs INPUT_DERIVATION_MARKER 6
  "read_input_derivation sink inputs" ts_last_input_derivation ts_input_derivation
  "\<lambda>q st. st\<lparr>ts_last_input_derivation := Some q, ts_input_derivation := (ts_input_derivation st)(q := True)\<rparr>"
  "\<lambda>q v. (ucast q :: u32) < inputs \<and> valid_derivation v" derivation_body CallInputDerivation
  for sink :: "('s, 'e) decode_sink" and inputs outputs
proof (unfold_locales, goal_cases)
  case (4 p t s st r' s' st')
  then show ?case
    by (auto simp: read_input_derivation_def fp_derivation.rd_Ok_iff fp_iffs rbind_Inr_iff sink_call_Ok not_le Let_def split: if_splits)
qed (auto simp: dispatch_defs marker_defs read_input_derivation_def fp_derivation.rd_enc
      wire_simps positional_ok require_increasing_Ok rbind_Inr_iff sink_call_Ok not_le Let_def fresh_def
      split: if_splits)

interpretation output_derivations: trailer_group sink inputs outputs OUTPUT_DERIVATION_MARKER 7
  "read_output_derivation sink outputs" ts_last_output_derivation ts_output_derivation
  "\<lambda>q st. st\<lparr>ts_last_output_derivation := Some q, ts_output_derivation := (ts_output_derivation st)(q := True)\<rparr>"
  "\<lambda>q v. q < outputs \<and> valid_derivation v" derivation_body CallOutputDerivation
  for sink :: "('s, 'e) decode_sink" and inputs outputs
proof (unfold_locales, goal_cases)
  case (4 p t s st r' s' st')
  then show ?case
    by (auto simp: read_output_derivation_def fp_derivation.rd_Ok_iff fp_iffs rbind_Inr_iff sink_call_Ok not_le Let_def split: if_splits)
qed (auto simp: dispatch_defs marker_defs read_output_derivation_def fp_derivation.rd_enc
      wire_simps positional_ok require_increasing_Ok rbind_Inr_iff sink_call_Ok not_le Let_def fresh_def
      split: if_splits)

end
