(* ===== verification/Wire_Roundtrip.thy ===== *)
theory Wire_Roundtrip
  imports Wire_Trailers
begin

text \<open>
  Encoder and decoder against each other. \<open>calls_of src\<close> is the sequence of sink calls a source
  describes; \<open>decode_wire_bytes\<close> shows that decoding the encoder's bytes makes exactly these calls, for
  every sink, failing ones included. \<open>decode_canonical\<close> is the converse: whatever the decoder
  accepts is the concatenation of the encodings of the calls it made, so no two different byte strings
  decode to the same calls.
\<close>

section \<open>The calls of a source\<close>

definition input_calls :: "encode_source \<Rightarrow> nat \<Rightarrow> decode_call list" where
  "input_calls src i =
     CallInput i (src_input src i) (word_of_nat (src_signature_count src i))
     # map (\<lambda>k. CallSignature i k (src_signature src i k)) [0..<src_signature_count src i]
     @ [CallRedeem i (src_redeem src i)]"

definition covenant_call :: "u8 \<Rightarrow> covenant \<Rightarrow> decode_call" where
  "covenant_call q v = CallCovenant q (cv_authorizing_input v) (cv_id v)"

definition trailer_calls :: "encode_source \<Rightarrow> decode_call list" where
  "trailer_calls src =
     (let ins = [0..<unat (g_input_count (src_global src))];
          outs = [0..<unat (g_output_count (src_global src))] in
      CallNetwork (src_network src)
      # group_calls CallInputMs45 (src_input_ms45 src) ins
      @ group_calls CallOutputMs45 (src_output_ms45 src) outs
      @ (case src_stealth src of None \<Rightarrow> [] | Some t \<Rightarrow> [CallStealth t])
      @ group_calls covenant_call (src_covenant src) outs
      @ group_calls CallCovenantExecution (src_covenant_execution src) ins
      @ group_calls CallInputDerivation (src_input_derivation src) ins
      @ group_calls CallOutputDerivation (src_output_derivation src) outs)"

definition calls_of :: "encode_source \<Rightarrow> decode_call list" where
  "calls_of src =
     CallGlobal (src_global src)
     # concat (map (input_calls src) [0..<unat (g_input_count (src_global src))])
     @ map (\<lambda>i. CallOutput i (src_output src i)) [0..<unat (g_output_count (src_global src))]
     @ trailer_calls src"

lemma group_calls_bytes:
  assumes "\<And>q v. call_bytes (call q v) = marker # q # body v"
  shows "calls_bytes (group_calls call get ixs) = group_bytes marker body get ixs"
  by (induction ixs) (auto simp: group_calls_def group_bytes_def assms split: option.splits)

lemma covenant_eta [simp]: "\<lparr>cv_authorizing_input = cv_authorizing_input v, cv_id = cv_id v\<rparr> = v"
  by simp

lemma trailer_calls_bytes: "calls_bytes (trailer_calls src) = trailer_bytes src"
proof -
  have "calls_bytes (case src_stealth src of None \<Rightarrow> [] | Some t \<Rightarrow> [CallStealth t]) = stealth_bytes (src_stealth src)"
    by (simp add: stealth_bytes_def split: option.splits)
  then show ?thesis
    by (simp add: trailer_calls_def trailer_bytes_def Let_def
        group_calls_bytes [where marker = MS45_INPUT_MARKER and body = ms45_body]
        group_calls_bytes [where marker = MS45_OUTPUT_MARKER and body = ms45_body]
        group_calls_bytes [where marker = COVENANT_MARKER and body = covenant_body]
        group_calls_bytes [where marker = COVENANT_EXECUTION_MARKER and body = covenant_execution_body]
        group_calls_bytes [where marker = INPUT_DERIVATION_MARKER and body = derivation_body]
        group_calls_bytes [where marker = OUTPUT_DERIVATION_MARKER and body = derivation_body]
        covenant_call_def)
qed

lemma input_calls_bytes: "calls_bytes (input_calls src i) = input_bytes src i"
  by (simp add: input_calls_def input_bytes_def signature_list_def comp_def)

lemma wire_bytes_calls: "wire_bytes src = calls_bytes (calls_of src)"
proof -
  have "calls_bytes (concat (map (input_calls src) xs)) = concat (map (input_bytes src) xs)" for xs
    by (induction xs) (simp_all add: input_calls_bytes)
  moreover have "calls_bytes (map (\<lambda>i. CallOutput i (src_output src i)) xs)
      = concat (map (\<lambda>i. output_bytes (src_output src i)) xs)" for xs
    by (induction xs) simp_all
  ultimately show ?thesis
    by (simp add: wire_bytes_def calls_of_def Let_def trailer_calls_bytes)
qed

section \<open>Reading inputs and outputs back\<close>

text \<open>
  A reading action follows a list of calls when, on their bytes, it makes exactly these calls. A
  loop whose body follows the calls of each index follows their concatenation.
\<close>

definition follows ::
  "('s, 'e) decode_sink \<Rightarrow> (reader \<Rightarrow> 's \<Rightarrow> ('e decode_error \<times> 's) + reader \<times> 's) \<Rightarrow> decode_call list \<Rightarrow> bool" where
  "follows sink f cs \<longleftrightarrow>
     (\<forall>p t s. f (reading p (calls_bytes cs @ t)) s =
        rbind (run_calls sink cs s) (\<lambda>s. Ok (reading (p @ calls_bytes cs) t, s)))"

lemma followsD:
  "follows sink f cs \<Longrightarrow> f (reading p (calls_bytes cs @ t)) s =
        rbind (run_calls sink cs s) (\<lambda>s. Ok (reading (p @ calls_bytes cs) t, s))"
  by (simp add: follows_def)

lemma follows_seq:
  assumes "follows sink f cs" "follows sink g ds"
  shows "follows sink (\<lambda>r s. rbind (f r s) (\<lambda>(r, s). g r s)) (cs @ ds)"
  unfolding follows_def
proof (intro allI)
  fix p t s
  show "rbind (f (reading p (calls_bytes (cs @ ds) @ t)) s) (\<lambda>(r, s). g r s) =
        rbind (run_calls sink (cs @ ds) s) (\<lambda>s. Ok (reading (p @ calls_bytes (cs @ ds)) t, s))"
    using followsD [OF assms(1), of p "calls_bytes ds @ t" s] followsD [OF assms(2), of "p @ calls_bytes cs" t]
    by (simp add: run_calls_append rbind_assoc)
qed

lemma follows_fold:
  assumes "\<And>i. i \<in> set ixs \<Longrightarrow> follows sink (f i) (cs i)"
  shows "follows sink (\<lambda>r s. try_fold (\<lambda>(r, s) i. f i r s) (r, s) ixs) (concat (map cs ixs))"
  using assms
proof (induction ixs)
  case Nil
  then show ?case by (simp add: follows_def)
next
  case (Cons i ixs)
  have "follows sink (\<lambda>r s. rbind (f i r s) (\<lambda>(r, s). try_fold (\<lambda>(r, s) i. f i r s) (r, s) ixs))
      (cs i @ concat (map cs ixs))"
    by (rule follows_seq) (use Cons in auto)
  then show ?case by (simp add: case_prod_unfold)
qed

lemma read_signatures_follows:
  assumes "signatures_ok sgs" and "\<forall>v\<in>set sgs. length (sg_bytes v) = 64" and "unat count = length sgs"
  shows "follows sink (read_signatures sink i count) (map (\<lambda>k. CallSignature i k (sgs ! k)) [0..<length sgs])"
proof -
  let ?f = "\<lambda>(seen, r, s) slot. rbind (wire_at s (read_signature r seen)) (\<lambda>((sg, seen), r).
      rbind (sink_call sink (CallSignature i slot sg) s) (\<lambda>s. Ok (seen, r, s)))"
  have loop: "rbind (try_fold ?f (seen, reading p (concat (map signature_bytes vs) @ t), s) [a..<a + length vs])
        (\<lambda>(seen, r, s). Ok (r, s)) =
      rbind (run_calls sink (map (\<lambda>k. CallSignature i (a + k) (vs ! k)) [0..<length vs]) s)
        (\<lambda>s. Ok (reading (p @ concat (map signature_bytes vs)) t, s))"
    if "distinct (map sg_position vs)" "\<forall>v\<in>set vs. signature_ok seen v" for vs a seen p t s
    using that
  proof (induction vs arbitrary: a seen p s)
    case Nil
    then show ?case by simp
  next
    case (Cons v vs)
    let ?seen = "seen(sg_position v := True)"
    have rd: "read_signature (reading p (signature_bytes v @ concat (map signature_bytes vs) @ t)) seen
        = Ok ((v, ?seen), reading (p @ signature_bytes v) (concat (map signature_bytes vs) @ t))"
      using Cons.prems(2) by (auto simp: read_signature_iff)
    have up: "[a..<a + length (v # vs)] = a # [Suc a..<Suc a + length vs]" by (simp add: upt_rec)
    have calls: "map (\<lambda>k. CallSignature i (a + k) ((v # vs) ! k)) [0..<length (v # vs)]
        = CallSignature i a v # map (\<lambda>k. CallSignature i (Suc a + k) (vs ! k)) [0..<length vs]"
      by (simp add: upt_conv_Cons map_Suc_upt [symmetric] del: upt_Suc map_Suc_upt)
    have IH: "rbind (try_fold ?f (?seen, reading (p @ signature_bytes v) (concat (map signature_bytes vs) @ t), s1)
          [Suc a..<Suc a + length vs]) (\<lambda>(seen, r, s). Ok (r, s)) =
        rbind (run_calls sink (map (\<lambda>k. CallSignature i (Suc a + k) (vs ! k)) [0..<length vs]) s1)
          (\<lambda>s. Ok (reading ((p @ signature_bytes v) @ concat (map signature_bytes vs)) t, s))" for s1
      by (rule Cons.IH) (use Cons.prems in \<open>auto simp: signature_ok_def image_iff\<close>)
    show ?case
      unfolding up calls run_calls_single try_fold.simps
      using rd IH by (simp add: rbind_assoc)
  qed
  have "calls_bytes (map (\<lambda>k. CallSignature i k (sgs ! k)) [0..<length sgs]) = concat (map signature_bytes sgs)"
    by (subst (2) map_nth [symmetric]) (simp add: comp_def del: map_nth)
  then show ?thesis
    using loop [where vs = sgs and seen = "\<lambda>_. False" and a = 0] assms
    by (simp add: follows_def read_signatures_def signatures_ok_def signature_ok_def list_all_iff)
qed

lemma source_arraysD:
  assumes "source_arrays src" "i < unat (g_input_count (src_global src))"
  shows "length (wi_previous_tx_id (src_input src i)) = 32"
    "\<forall>v\<in>set (signature_list src i). length (sg_bytes v) = 64"
  using assms by (auto simp: source_arrays_def signature_list_def)

lemma read_redeem_follows:
  "length v \<le> MAX_REDEEM_SIZE \<Longrightarrow> follows sink (read_redeem sink i) [CallRedeem i v]"
  by (auto simp: follows_def read_redeem_def redeem_bytes_def wire_simps MAX_REDEEM_SIZE_def
      run_calls_single rbind_assoc simp del: run_calls.simps(2))

lemma signature_calls_list:
  "map (\<lambda>k. CallSignature i k (signature_list src i ! k)) [0..<length (signature_list src i)]
     = map (\<lambda>k. CallSignature i k (src_signature src i k)) [0..<src_signature_count src i]"
  by (simp add: signature_list_def)

lemma read_input_follows:
  assumes ok: "input_ok src i" and arr: "length (wi_previous_tx_id (src_input src i)) = 32"
    "\<forall>v\<in>set (signature_list src i). length (sg_bytes v) = 64"
  shows "follows sink (read_input sink i) (input_calls src i)"
proof -
  let ?n = "word_of_nat (src_signature_count src i) :: u8"
  let ?sg = "map (\<lambda>k. CallSignature i k (src_signature src i k)) [0..<src_signature_count src i]"
  have few: "src_signature_count src i \<le> 5"
    using ok by (simp add: input_ok_def signatures_ok_def MAX_SIGNATURE_RECORDS_def)
  then have n: "unat ?n = length (signature_list src i)" by simp
  have sgs: "signatures_ok (signature_list src i)" using ok by (simp add: input_ok_def)
  have red: "length (src_redeem src i) \<le> MAX_REDEEM_SIZE" using ok by (simp add: input_ok_def)
  have rest: "follows sink (\<lambda>r s. rbind (read_signatures sink i ?n r s) (\<lambda>(r, s). read_redeem sink i r s))
      (?sg @ [CallRedeem i (src_redeem src i)])"
    using read_signatures_follows [OF sgs arr(2) n, of sink i] read_redeem_follows [OF red, of sink i]
    unfolding signature_calls_list by (rule follows_seq)
  have v: "input_value_ok (src_input src i)" using ok arr(1) by (simp add: input_ok_def input_value_ok_def)
  have c: "read_signature_count (reading p (?n # t)) = Ok (?n, reading (p @ [?n]) t)" for p t
    using fp_signature_count.rd_enc [of ?n p t] n few by (simp add: MAX_SIGNATURE_RECORDS_def)
  have call: "call_bytes (CallInput i (src_input src i) ?n) = input_value_bytes (src_input src i) @ [?n]"
    by simp
  show ?thesis
    unfolding follows_def
  proof (intro allI)
    fix p t s
    show "read_input sink i (reading p (calls_bytes (input_calls src i) @ t)) s =
        rbind (run_calls sink (input_calls src i) s) (\<lambda>s. Ok (reading (p @ calls_bytes (input_calls src i)) t, s))"
      using followsD [OF rest, of "p @ input_value_bytes (src_input src i) @ [?n]" t]
      unfolding input_calls_def run_calls_single
      by (simp add: call read_input_def fp_input_value.rd_enc [OF v] c rbind_assoc)
  qed
qed

lemma read_outputs_follows:
  assumes "\<And>i. i < unat n \<Longrightarrow> length (wo_script (f i)) \<le> MAX_SCRIPT_SIZE"
  shows "follows sink (read_outputs sink n) (map (\<lambda>i. CallOutput i (f i)) [0..<unat n])"
proof -
  have "follows sink (\<lambda>r s. rbind (wire_at s (read_output r)) (\<lambda>(out, r).
          rbind (sink_call sink (CallOutput i out) s) (\<lambda>s. Ok (r, s)))) [CallOutput i (f i)]"
    if "i < unat n" for i
    using fp_output.rd_enc [OF assms [OF that]]
    by (simp add: follows_def run_calls_single rbind_assoc del: run_calls.simps(2))
  then have "follows sink (\<lambda>r s. try_fold (\<lambda>(r, s) i. rbind (wire_at s (read_output r)) (\<lambda>(out, r).
          rbind (sink_call sink (CallOutput i out) s) (\<lambda>s. Ok (r, s)))) (r, s) [0..<unat n])
      (concat (map (\<lambda>i. [CallOutput i (f i)]) [0..<unat n]))"
    by (intro follows_fold) simp
  then show ?thesis by (simp add: follows_def read_outputs_def concat_map_singleton)
qed

section \<open>Reading the trailers back\<close>

lemma loop_follows_seq:
  assumes "loop_follows sink inputs outputs k k' cs" "loop_follows sink inputs outputs k' k'' ds"
  shows "loop_follows sink inputs outputs k k'' (cs @ ds)"
  unfolding loop_follows_def
proof (intro allI impI)
  fix st p t s assume st: "fresh k st"
  obtain st1 where st1: "fresh k' st1" and one:
    "read_trailers_loop sink inputs outputs (reading p (calls_bytes cs @ calls_bytes ds @ t)) s st =
       rbind (run_calls sink cs s) (\<lambda>s. read_trailers_loop sink inputs outputs (reading (p @ calls_bytes cs) (calls_bytes ds @ t)) s st1)"
    using assms(1) st unfolding loop_follows_def by blast
  have two: "\<exists>st2. fresh k'' st2 \<and>
      read_trailers_loop sink inputs outputs (reading (p @ calls_bytes cs) (calls_bytes ds @ t)) s1 st1 =
      rbind (run_calls sink ds s1) (\<lambda>s. read_trailers_loop sink inputs outputs (reading ((p @ calls_bytes cs) @ calls_bytes ds) t) s st2)" for s1
    using assms(2) st1 unfolding loop_follows_def by blast
  show "\<exists>st'. fresh k'' st' \<and>
        read_trailers_loop sink inputs outputs (reading p (calls_bytes (cs @ ds) @ t)) s st =
        rbind (run_calls sink (cs @ ds) s) (\<lambda>s. read_trailers_loop sink inputs outputs (reading (p @ calls_bytes (cs @ ds)) t) s st')"
  proof (cases "run_calls sink cs s")
    case (Inl e)
    with one two [of s] show ?thesis by (auto simp: run_calls_append)
  next
    case (Inr s1)
    with one two [of s1] show ?thesis by (auto simp: run_calls_append)
  qed
qed

lemma unat_ucast_u8 [simp]: "unat (ucast (q :: u8) :: u32) = unat q"
  using unat_u8_less [of q] by (simp add: unsigned_ucast_eq take_bit_nat_eq_self)

lemma unat_ucast_u16 [simp]: "unat (ucast (q :: u16) :: u32) = unat q"
  using unat_bound [of q] by (simp add: unsigned_ucast_eq take_bit_nat_eq_self)

lemma group_okD: "group_ok valid get [0..<n] \<Longrightarrow> i < n \<Longrightarrow> get i = Some v \<Longrightarrow> valid v \<and> i < 256"
  by (force simp: group_ok_def list_all_iff)

text \<open>A covenant's authorising input must exist; the encoder leaves this to its callers.\<close>

definition covenants_authorized :: "encode_source \<Rightarrow> bool" where
  "covenants_authorized src \<longleftrightarrow>
     (\<forall>i < unat (g_output_count (src_global src)). case src_covenant src i of None \<Rightarrow> True
        | Some c \<Rightarrow> unat (cv_authorizing_input c) < unat (g_input_count (src_global src)))"

lemma loop_stealth:
  assumes "\<And>tw. v = Some tw \<Longrightarrow> length tw = 32"
  shows "loop_follows sink inputs outputs 3 4 (case v of None \<Rightarrow> [] | Some tw \<Rightarrow> [CallStealth tw])"
proof (cases v)
  case None
  then show ?thesis using fresh_Suc [of 3] by (auto simp: loop_follows_def)
next
  case (Some tw)
  have "\<exists>st'. fresh 4 st' \<and> read_trailers_loop sink inputs outputs (reading p (calls_bytes [CallStealth tw] @ t)) s st =
      rbind (run_calls sink [CallStealth tw] s)
        (\<lambda>s. read_trailers_loop sink inputs outputs (reading (p @ calls_bytes [CallStealth tw]) t) s st')"
    if st: "fresh 3 st" for st p t s
  proof -
    have "read_trailer sink STEALTH_MARKER inputs outputs (reading (p @ [STEALTH_MARKER]) (tw @ t)) s st =
        rbind (sink_call sink (CallStealth tw) s)
          (\<lambda>s. Ok (reading ((p @ [STEALTH_MARKER]) @ tw) t, s, st\<lparr>ts_last_rank := 3, ts_stealth := True\<rparr>))"
      using st assms Some
      by (simp add: dispatch_defs marker_defs read_stealth_def fresh_def wire_simps word_le_nat_alt)
    moreover have "fresh 4 (st\<lparr>ts_last_rank := 3, ts_stealth := True\<rparr>)" using st by (simp add: fresh_def)
    ultimately show ?thesis
      by (intro exI [of _ "st\<lparr>ts_last_rank := 3, ts_stealth := True\<rparr>"])
        (simp add: loop_marker rbind_assoc run_calls_single del: run_calls.simps(2))
  qed
  with Some show ?thesis by (simp add: loop_follows_def)
qed

lemma loop_network:
  assumes "valid_network c"
  shows "\<exists>st. fresh 1 st \<and> read_trailers_loop sink inputs outputs (reading p (calls_bytes [CallNetwork c] @ t)) s trailer_state_new =
     rbind (run_calls sink [CallNetwork c] s)
       (\<lambda>s. read_trailers_loop sink inputs outputs (reading (p @ calls_bytes [CallNetwork c]) t) s st)"
  by (rule exI [of _ "trailer_state_new\<lparr>ts_network := True\<rparr>"])
    (use assms in \<open>simp add: fresh_def trailer_state_new_def loop_marker dispatch_defs read_network_def
        wire_simps rbind_assoc run_calls_single marker_defs del: run_calls.simps(2)\<close>)

lemma in_range:
  "i < 256 \<Longrightarrow> i < unat inputs \<Longrightarrow> (ucast (word_of_nat i :: u8) :: u32) < inputs"
  "i < 256 \<Longrightarrow> i < unat outputs \<Longrightarrow> (word_of_nat i :: u8) < outputs"
  by (simp_all add: word_less_nat_alt)

lemma positional_groups_follow:
  assumes ok: "trailers_ok src" and arr: "source_arrays src" and cov: "covenants_authorized src"
  defines "n \<equiv> g_input_count (src_global src)" and "m \<equiv> g_output_count (src_global src)"
  shows "loop_follows sink n m 1 2 (group_calls CallInputMs45 (src_input_ms45 src) [0..<unat n])"
    and "loop_follows sink n m 2 3 (group_calls CallOutputMs45 (src_output_ms45 src) [0..<unat m])"
    and "loop_follows sink n m 4 5 (group_calls covenant_call (src_covenant src) [0..<unat m])"
    and "loop_follows sink n m 5 6 (group_calls CallCovenantExecution (src_covenant_execution src) [0..<unat n])"
    and "loop_follows sink n m 6 7 (group_calls CallInputDerivation (src_input_derivation src) [0..<unat n])"
    and "loop_follows sink n m 7 8 (group_calls CallOutputDerivation (src_output_derivation src) [0..<unat m])"
proof -
  note ok' = ok [unfolded trailers_ok_def Let_def, folded n_def m_def]
  show "loop_follows sink n m 1 2 (group_calls CallInputMs45 (src_input_ms45 src) [0..<unat n])"
    by (rule ms45_inputs.group_follows)
      (use ok' in \<open>auto simp: in_range dest: group_okD\<close>)
  show "loop_follows sink n m 2 3 (group_calls CallOutputMs45 (src_output_ms45 src) [0..<unat m])"
    by (rule ms45_outputs.group_follows)
      (use ok' in \<open>auto simp: in_range dest: group_okD\<close>)
  have auth: "(ucast (cv_authorizing_input c) :: u32) < n" "length (cv_id c) = 32"
    if "i < unat m" "src_covenant src i = Some c" for i c
    using arr cov that unfolding m_def n_def
    by (auto simp: source_arrays_def covenants_authorized_def word_less_nat_alt split: option.splits)
  show "loop_follows sink n m 4 5 (group_calls covenant_call (src_covenant src) [0..<unat m])"
    unfolding covenant_call_def [abs_def]
    by (rule covenants.group_follows)
      (use ok' auth in \<open>auto simp: in_range dest: group_okD\<close>)
  show "loop_follows sink n m 5 6 (group_calls CallCovenantExecution (src_covenant_execution src) [0..<unat n])"
    by (rule covenant_executions.group_follows)
      (use ok' in \<open>auto simp: in_range dest: group_okD\<close>)
  show "loop_follows sink n m 6 7 (group_calls CallInputDerivation (src_input_derivation src) [0..<unat n])"
    by (rule input_derivations.group_follows)
      (use ok' in \<open>auto simp: in_range dest: group_okD\<close>)
  show "loop_follows sink n m 7 8 (group_calls CallOutputDerivation (src_output_derivation src) [0..<unat m])"
    by (rule output_derivations.group_follows)
      (use ok' in \<open>auto simp: in_range dest: group_okD\<close>)
qed

lemma read_trailers_source:
  assumes ok: "trailers_ok src" and arr: "source_arrays src" and cov: "covenants_authorized src"
  shows "read_trailers sink (g_input_count (src_global src)) (g_output_count (src_global src))
      (reading p (trailer_bytes src)) s =
    rbind (run_calls sink (trailer_calls src) s) (\<lambda>s. Ok (reading (p @ trailer_bytes src) [], s))"
proof -
  let ?n = "g_input_count (src_global src)" and ?m = "g_output_count (src_global src)"
  note pg = positional_groups_follow [OF ok arr cov, of sink]
  obtain rest where rest: "trailer_calls src = [CallNetwork (src_network src)] @ rest"
    and follows: "loop_follows sink ?n ?m 1 8 rest"
  proof
    show "loop_follows sink ?n ?m 1 8
      (group_calls CallInputMs45 (src_input_ms45 src) [0..<unat ?n]
      @ group_calls CallOutputMs45 (src_output_ms45 src) [0..<unat ?m]
      @ (case src_stealth src of None \<Rightarrow> [] | Some t \<Rightarrow> [CallStealth t])
      @ group_calls covenant_call (src_covenant src) [0..<unat ?m]
      @ group_calls CallCovenantExecution (src_covenant_execution src) [0..<unat ?n]
      @ group_calls CallInputDerivation (src_input_derivation src) [0..<unat ?n]
      @ group_calls CallOutputDerivation (src_output_derivation src) [0..<unat ?m])"
      by (intro loop_follows_seq [OF pg(1)] loop_follows_seq [OF pg(2)] loop_follows_seq [OF loop_stealth]
          loop_follows_seq [OF pg(3)] loop_follows_seq [OF pg(4)] loop_follows_seq [OF pg(5)] pg(6))
        (use arr in \<open>auto simp: source_arrays_def\<close>)
  qed (simp add: trailer_calls_def Let_def)
  have net: "valid_network (src_network src)" using ok by (simp add: trailers_ok_def Let_def)
  obtain st where st: "fresh 1 st" and first:
    "read_trailers_loop sink ?n ?m (reading p (calls_bytes [CallNetwork (src_network src)] @ calls_bytes rest)) s trailer_state_new =
     rbind (run_calls sink [CallNetwork (src_network src)] s)
       (\<lambda>s. read_trailers_loop sink ?n ?m (reading (p @ calls_bytes [CallNetwork (src_network src)]) (calls_bytes rest)) s st)"
    using loop_network [OF net, of sink ?n ?m p "calls_bytes rest" s] by blast
  have last: "\<exists>st'. fresh 8 st' \<and>
     read_trailers_loop sink ?n ?m (reading q (calls_bytes rest)) s1 st =
       rbind (run_calls sink rest s1) (\<lambda>s. Ok (reading (q @ calls_bytes rest) [], s, st'))" for q s1
  proof -
    obtain st' where "fresh 8 st'" and "read_trailers_loop sink ?n ?m (reading q (calls_bytes rest @ [])) s1 st =
        rbind (run_calls sink rest s1) (\<lambda>s. read_trailers_loop sink ?n ?m (reading (q @ calls_bytes rest) []) s st')"
      using follows st unfolding loop_follows_def by blast
    then show ?thesis by (auto simp: loop_end)
  qed
  have bytes: "trailer_bytes src = calls_bytes [CallNetwork (src_network src)] @ calls_bytes rest"
    by (simp only: trailer_calls_bytes [symmetric] rest map_append concat_append)
  show ?thesis
    unfolding read_trailers_def bytes first rest run_calls_append rbind_assoc
  proof (rule arg_cong [where f = "rbind _"], rule ext)
    fix s1
    obtain st' where "fresh 8 st'"
      "read_trailers_loop sink ?n ?m (reading (p @ calls_bytes [CallNetwork (src_network src)]) (calls_bytes rest)) s1 st =
        rbind (run_calls sink rest s1)
          (\<lambda>s. Ok (reading ((p @ calls_bytes [CallNetwork (src_network src)]) @ calls_bytes rest) [], s, st'))"
      using last by blast
    then show "rbind (read_trailers_loop sink ?n ?m
          (reading (p @ calls_bytes [CallNetwork (src_network src)]) (calls_bytes rest)) s1 st)
        (\<lambda>(r, s, st). if \<not> ts_network st then Err (Wire MissingNetwork, s) else Ok (r, s)) =
      rbind (run_calls sink rest s1)
        (\<lambda>s. Ok (reading (p @ calls_bytes [CallNetwork (src_network src)] @ calls_bytes rest) [], s))"
      by (simp add: rbind_assoc fresh_def)
  qed
qed

section \<open>The whole envelope\<close>

lemma length_input_bytes:
  "length (wi_previous_tx_id (src_input src i)) = 32 \<Longrightarrow> 59 \<le> length (input_bytes src i)"
  by (simp add: input_bytes_def input_value_bytes_def redeem_bytes_def script_bytes_enc_def)

lemma inputs_capacity:
  assumes "source_arrays src"
  shows "validate_input_capacity (g_input_count (src_global src))
     (length (concat (map (input_bytes src) [0..<unat (g_input_count (src_global src))]) @ t)) = Ok ()"
proof -
  let ?n = "unat (g_input_count (src_global src))"
  have "length (concat (map (input_bytes src) [0..<k])) \<ge> k * 59" if "k \<le> ?n" for k
    using that
  proof (induction k)
    case (Suc k)
    then show ?case using length_input_bytes [of src k] source_arraysD(1) [OF assms, of k] by simp
  qed simp
  from this [of ?n] unat_bound [of "g_input_count (src_global src)"] show ?thesis
    by (simp add: validate_input_capacity_def MIN_INPUT_WIRE_BYTES_def usize_max_def Let_def not_less)
qed

lemma decode_envelope_global:
  "decode_envelope sink l r s =
     rbind (wire_at s (read_envelope_global l r)) (\<lambda>(g, r).
     rbind (wire_at s (validate_input_capacity (g_input_count g) (rd_remaining r))) (\<lambda>_.
     rbind (sink_call sink (CallGlobal g) s) (\<lambda>s.
     rbind (read_inputs sink (g_input_count g) r s) (\<lambda>(r, s).
     rbind (read_outputs sink (g_output_count g) r s) (\<lambda>(r, s).
     rbind (read_trailers sink (g_input_count g) (g_output_count g) r s) (\<lambda>(r, s).
     Ok (g_flags g, r, s)))))))"
proof -
  have "read_global f pre r = Ok (g, r') \<Longrightarrow> g_flags g = f" for f pre r g r'
    by (auto simp: read_global_def rbind_Inr_iff)
  then show ?thesis
    by (auto simp: decode_envelope_def read_envelope_global_def wire_at_def rbind_def map_err_def
        split: sum.splits prod.splits)
qed

lemma decode_wire_bytes:
  assumes ok: "source_ok src l" and arr: "source_arrays src" and cov: "covenants_authorized src"
  shows "decode sink (wire_bytes src) l s =
    rbind (run_calls sink (calls_of src) s) (\<lambda>s. Ok (g_flags (src_global src), s))"
proof -
  let ?g = "src_global src"
  let ?ins = "concat (map (input_calls src) [0..<unat (g_input_count ?g)])"
    and ?outs = "map (\<lambda>i. CallOutput i (src_output src i)) [0..<unat (g_output_count ?g)]"
  have glob: "global_wire_ok l ?g"
    using ok arr by (simp add: global_wire_ok_def source_ok_def source_arrays_def)
  have rd: "read_envelope_global l (reading [] (call_bytes (CallGlobal ?g) @ t)) = Ok (?g, reading (call_bytes (CallGlobal ?g)) t)" for t
    using fp_global.rd_enc [OF glob, of "[]" t] by simp
  have "calls_bytes (concat (map (input_calls src) xs)) = concat (map (input_bytes src) xs)" for xs
    by (induction xs) (simp_all add: input_calls_bytes)
  then have cap: "validate_input_capacity (g_input_count ?g) (length (calls_bytes ?ins @ t)) = Ok ()" for t
    using inputs_capacity [OF arr] by simp
  have ins: "follows sink (read_inputs sink (g_input_count ?g)) ?ins"
    unfolding read_inputs_def
    by (rule follows_fold, rule read_input_follows)
      (use ok source_arraysD [OF arr] in \<open>auto simp: source_ok_def list_all_iff\<close>)
  have outs: "follows sink (read_outputs sink (g_output_count ?g)) ?outs"
    by (rule read_outputs_follows) (use ok in \<open>auto simp: source_ok_def list_all_iff\<close>)
  have tr: "trailers_ok src" using ok by (simp add: source_ok_def)
  have wb: "wire_bytes src = call_bytes (CallGlobal ?g) @ calls_bytes ?ins @ calls_bytes ?outs @ trailer_bytes src"
    by (simp add: wire_bytes_calls calls_of_def trailer_calls_bytes)
  show ?thesis
    unfolding decode_def reader_new_reading decode_envelope_global wb calls_of_def run_calls_single run_calls_append
    using rd [of "calls_bytes ?ins @ calls_bytes ?outs @ trailer_bytes src"] cap [of "calls_bytes ?outs @ trailer_bytes src"]
      followsD [OF ins, of "call_bytes (CallGlobal ?g)" "calls_bytes ?outs @ trailer_bytes src"]
      followsD [OF outs, of "call_bytes (CallGlobal ?g) @ calls_bytes ?ins" "trailer_bytes src"]
      read_trailers_source [OF tr arr cov, of sink "call_bytes (CallGlobal ?g) @ calls_bytes ?ins @ calls_bytes ?outs"]
    by (simp add: rbind_assoc del: append_assoc add: append_assoc [symmetric])
qed

section \<open>Canonicity: what is accepted is what its calls encode to\<close>

fun call_ok :: "nat \<Rightarrow> nat \<Rightarrow> decode_call \<Rightarrow> bool" where
  "call_ok n m (CallGlobal g) = (unat (g_input_count g) = n \<and> unat (g_output_count g) = m \<and> length (g_subnetwork_id g) = 20)"
| "call_ok n m (CallInput i v k) = (i < n \<and> input_value_ok v \<and> unat k \<le> MAX_SIGNATURE_RECORDS)"
| "call_ok n m (CallSignature i k v) =
     (i < n \<and> k < MAX_SIGNATURE_RECORDS \<and> valid_sighash (sg_sighash v) \<and> length (sg_bytes v) = 64)"
| "call_ok n m (CallRedeem i v) = (i < n \<and> length v \<le> MAX_REDEEM_SIZE)"
| "call_ok n m (CallOutput i v) = (i < m \<and> length (wo_script v) \<le> MAX_SCRIPT_SIZE)"
| "call_ok n m (CallNetwork c) = valid_network c"
| "call_ok n m (CallStealth v) = (length v = 32)"
| "call_ok n m (CallInputDerivation q v) = (unat q < n \<and> valid_derivation v)"
| "call_ok n m (CallOutputDerivation q v) = (unat q < m \<and> valid_derivation v)"
| "call_ok n m (CallInputMs45 q v) = (unat q < n \<and> valid_ms45 v)"
| "call_ok n m (CallOutputMs45 q v) = (unat q < m \<and> valid_ms45 v)"
| "call_ok n m (CallCovenant q a i) = (unat q < m \<and> unat a < n \<and> length i = 32)"
| "call_ok n m (CallCovenantExecution q v) = (unat q < n \<and> valid_covenant_execution v)"

text \<open>
  \<open>consumes P sink f\<close>: whatever \<open>f\<close> accepts, it consumes the bytes of the calls it makes, and each
  of them satisfies \<open>P\<close>.
\<close>

definition consumes ::
  "(decode_call \<Rightarrow> bool) \<Rightarrow> ('s, 'e) decode_sink \<Rightarrow> (reader \<Rightarrow> 's \<Rightarrow> ('e decode_error \<times> 's) + reader \<times> 's) \<Rightarrow> bool" where
  "consumes P sink f \<longleftrightarrow>
     (\<forall>p t s r' s'. f (reading p t) s = Ok (r', s') \<longrightarrow>
        (\<exists>cs t'. t = calls_bytes cs @ t' \<and> r' = reading (p @ calls_bytes cs) t' \<and> run_calls sink cs s = Ok s'
          \<and> (\<forall>c\<in>set cs. P c)))"

lemma consumesD:
  assumes "consumes P sink f" "f (reading p t) s = Ok (r', s')"
  obtains cs t' where "t = calls_bytes cs @ t'" "r' = reading (p @ calls_bytes cs) t'" "run_calls sink cs s = Ok s'"
    "\<forall>c\<in>set cs. P c"
  using assms unfolding consumes_def by blast

lemma consumes_seq:
  assumes f: "consumes P sink f" and g: "consumes P sink g"
  shows "consumes P sink (\<lambda>r s. rbind (f r s) (\<lambda>(r, s). g r s))"
  unfolding consumes_def
proof (intro allI impI)
  fix p t s r' s'
  assume "rbind (f (reading p t) s) (\<lambda>(r, s). g r s) = Ok (r', s')"
  then obtain r1 s1 where fr: "f (reading p t) s = Ok (r1, s1)" and gr: "g r1 s1 = Ok (r', s')"
    by (auto simp: rbind_Inr_iff)
  from f fr obtain cs t1 where 1: "t = calls_bytes cs @ t1" "r1 = reading (p @ calls_bytes cs) t1"
    "run_calls sink cs s = Ok s1" "\<forall>c\<in>set cs. P c" by (rule consumesD)
  from g gr [unfolded 1(2)] obtain ds t2 where 2: "t1 = calls_bytes ds @ t2"
    "r' = reading ((p @ calls_bytes cs) @ calls_bytes ds) t2" "run_calls sink ds s1 = Ok s'" "\<forall>c\<in>set ds. P c"
    by (rule consumesD)
  show "\<exists>cs t'. t = calls_bytes cs @ t' \<and> r' = reading (p @ calls_bytes cs) t' \<and> run_calls sink cs s = Ok s'
      \<and> (\<forall>c\<in>set cs. P c)"
    by (intro exI [of _ "cs @ ds"] exI [of _ t2]) (use 1 2 in \<open>auto simp: run_calls_append\<close>)
qed

lemma consumes_fold:
  "(\<And>i. i \<in> set ixs \<Longrightarrow> consumes P sink (f i)) \<Longrightarrow> consumes P sink (\<lambda>r s. try_fold (\<lambda>(r, s) i. f i r s) (r, s) ixs)"
proof (induction ixs)
  case Nil
  show ?case
    unfolding consumes_def
    by (intro allI impI, rule exI [of _ "[]"]) simp
next
  case (Cons i ixs)
  then have "consumes P sink (\<lambda>r s. rbind (f i r s) (\<lambda>(r, s). try_fold (\<lambda>(r, s) i. f i r s) (r, s) ixs))"
    by (intro consumes_seq) auto
  then show ?case by (simp add: case_prod_unfold)
qed

lemma consumes_one:
  assumes "\<And>p t s r' s'. f (reading p t) s = Ok (r', s') \<Longrightarrow>
     \<exists>c t'. t = call_bytes c @ t' \<and> r' = reading (p @ call_bytes c) t' \<and> sink c s = Ok s' \<and> P c"
  shows "consumes P sink f"
  unfolding consumes_def
proof (intro allI impI)
  fix p t s r' s' assume "f (reading p t) s = Ok (r', s')"
  then obtain c t' where "t = call_bytes c @ t'" "r' = reading (p @ call_bytes c) t'" "sink c s = Ok s'" "P c"
    using assms by blast
  then show "\<exists>cs t'. t = calls_bytes cs @ t' \<and> r' = reading (p @ calls_bytes cs) t' \<and> run_calls sink cs s = Ok s'
      \<and> (\<forall>c\<in>set cs. P c)"
    by (intro exI [of _ "[c]"] exI [of _ t']) simp
qed

lemma read_redeem_consumes: "i < n \<Longrightarrow> consumes (call_ok n m) sink (read_redeem sink i)"
proof (rule consumes_one)
  fix p t s r' s' assume i: "i < n" and "read_redeem sink i (reading p t) s = Ok (r', s')"
  then obtain k v t' where "t = u16_to_le k @ v @ t'" "length v = unat k"
    "r' = reading (p @ u16_to_le k @ v) t'" "sink (CallRedeem i v) s = Ok s'" "length v \<le> MAX_REDEEM_SIZE"
    by (auto simp: not_less read_redeem_def rbind_Inr_iff fp_iffs sink_call_Ok split: if_splits)
  with i show "\<exists>c t'. t = call_bytes c @ t' \<and> r' = reading (p @ call_bytes c) t' \<and> sink c s = Ok s' \<and> call_ok n m c"
    by (intro exI [of _ "CallRedeem i v"] exI [of _ t']) (simp add: redeem_bytes_def)
qed

lemma read_outputs_consumes: "unat count = m \<Longrightarrow> consumes (call_ok n m) sink (read_outputs sink count)"
  unfolding read_outputs_def
proof (rule consumes_fold, rule consumes_one)
  fix i p t s r' s'
  assume i: "unat count = m" "i \<in> set [0..<unat count]" and "rbind (wire_at s (read_output (reading p t))) (\<lambda>(out, r).
      rbind (sink_call sink (CallOutput i out) s) (\<lambda>s. Ok (r, s))) = Ok (r', s')"
  then obtain v t' where "t = output_bytes v @ t'" "r' = reading (p @ output_bytes v) t'"
    "sink (CallOutput i v) s = Ok s'" "length (wo_script v) \<le> MAX_SCRIPT_SIZE"
    by (auto simp: rbind_Inr_iff fp_output.rd_Ok_iff sink_call_Ok)
  with i show "\<exists>c t'. t = call_bytes c @ t' \<and> r' = reading (p @ call_bytes c) t' \<and> sink c s = Ok s' \<and> call_ok n m c"
    by (intro exI [of _ "CallOutput i v"] exI [of _ t']) simp
qed

lemma read_signatures_consumes:
  assumes i: "i < n" and count: "unat count \<le> MAX_SIGNATURE_RECORDS"
  shows "consumes (call_ok n m) sink (read_signatures sink i count)"
proof -
  let ?f = "\<lambda>(seen, r, s) slot. rbind (wire_at s (read_signature r seen)) (\<lambda>((sg, seen), r).
      rbind (sink_call sink (CallSignature i slot sg) s) (\<lambda>s. Ok (seen, r, s)))"
  have "\<exists>cs t'. t = calls_bytes cs @ t' \<and> r' = reading (p @ calls_bytes cs) t' \<and> run_calls sink cs s = Ok s'
      \<and> (\<forall>c\<in>set cs. call_ok n m c)"
    if "try_fold ?f (seen, reading p t, s) ks = Ok (seen', r', s')" "set ks \<subseteq> {..<unat count}" for ks seen p t s seen' r' s'
    using that
  proof (induction ks arbitrary: seen p t s)
    case Nil
    then show ?case by (intro exI [of _ "[]"] exI [of _ t]) simp
  next
    case (Cons k ks)
    then obtain v t1 s1 where v: "t = signature_bytes v @ t1" "sink (CallSignature i k v) s = Ok s1" "signature_ok seen v"
      and rest: "try_fold ?f (seen(sg_position v := True), reading (p @ signature_bytes v) t1, s1) ks = Ok (seen', r', s')"
      by (auto simp: rbind_Inr_iff read_signature_iff sink_call_Ok)
    from Cons.IH [OF rest] Cons.prems(2) obtain cs t' where "t1 = calls_bytes cs @ t'"
      "r' = reading ((p @ signature_bytes v) @ calls_bytes cs) t'" "run_calls sink cs s1 = Ok s'"
      "\<forall>c\<in>set cs. call_ok n m c" by auto
    with v i count Cons.prems(2) show ?case
      by (intro exI [of _ "CallSignature i k v # cs"] exI [of _ t']) (simp add: signature_ok_def)
  qed
  from this [of _ _ _ _ "[0..<unat count]"] show ?thesis
    by (fastforce simp: consumes_def read_signatures_def rbind_Inr_iff)
qed

lemma read_input_consumes:
  assumes i: "i < n"
  shows "consumes (call_ok n m) sink (read_input sink i)"
proof -
  let ?head = "\<lambda>count r s. rbind (read_signatures sink i count r s) (\<lambda>(r, s). read_redeem sink i r s)"
  have tail: "consumes (call_ok n m) sink (?head count)" if "unat count \<le> MAX_SIGNATURE_RECORDS" for count
    using that i by (intro consumes_seq read_signatures_consumes read_redeem_consumes)
  show ?thesis
    unfolding consumes_def
  proof (intro allI impI)
    fix p t s r' s' assume "read_input sink i (reading p t) s = Ok (r', s')"
    then obtain v k t1 s1 where 1: "t = input_value_bytes v @ k # t1" "sink (CallInput i v k) s = Ok s1"
      "input_value_ok v" "unat k \<le> MAX_SIGNATURE_RECORDS"
      and rest: "?head k (reading (p @ input_value_bytes v @ [k]) t1) s1 = Ok (r', s')"
      by (auto simp: read_input_def rbind_Inr_iff fp_input_value.rd_Ok_iff fp_signature_count.rd_Ok_iff sink_call_Ok)
    obtain cs t' where "t1 = calls_bytes cs @ t'"
      "r' = reading ((p @ input_value_bytes v @ [k]) @ calls_bytes cs) t'"
      "run_calls sink cs s1 = Ok s'" "\<forall>c\<in>set cs. call_ok n m c"
      using tail [OF 1(4)] rest by (rule consumesD)
    with 1 i show "\<exists>cs t'. t = calls_bytes cs @ t' \<and> r' = reading (p @ calls_bytes cs) t' \<and> run_calls sink cs s = Ok s'
        \<and> (\<forall>c\<in>set cs. call_ok n m c)"
      by (intro exI [of _ "CallInput i v k # cs"] exI [of _ t']) simp
  qed
qed

lemma read_trailer_inv:
  assumes rd: "read_trailer sink m inputs outputs (reading (p @ [m]) t) s st = Ok (r', s', st')"
  shows "\<exists>c t'. m # t = call_bytes c @ t' \<and> r' = reading (p @ call_bytes c) t' \<and> sink c s = Ok s'
    \<and> call_ok (unat inputs) (unat outputs) c"
proof -
  have "marker_rank m \<noteq> None"
    using rd by (auto simp: read_trailer_def dispatch_order split: option.splits)
  then consider "m = NETWORK_MARKER" | "m = STEALTH_MARKER" | "m = MS45_INPUT_MARKER" | "m = MS45_OUTPUT_MARKER"
    | "m = COVENANT_MARKER" | "m = COVENANT_EXECUTION_MARKER" | "m = INPUT_DERIVATION_MARKER"
    | "m = OUTPUT_DERIVATION_MARKER"
    by (auto simp: marker_rank_def split: if_splits)
  then show ?thesis
  proof cases
    case 1
    with rd obtain c t' where "t = c # t'" "r' = reading (p @ [m, c]) t'" "sink (CallNetwork c) s = Ok s'" "valid_network c"
      by (auto simp: read_trailer_def read_base_trailer_def read_network_def rbind_Inr_iff fp_iffs sink_call_Ok Let_def
          split: if_splits)
    with 1 show ?thesis by (intro exI [of _ "CallNetwork c"] exI [of _ t']) simp
  next
    case 2
    with rd obtain v t' where "t = v @ t'" "r' = reading (p @ m # v) t'" "sink (CallStealth v) s = Ok s'" "length v = 32"
      by (auto simp: read_trailer_def read_base_trailer_def read_stealth_def rbind_Inr_iff fp_iffs sink_call_Ok Let_def
          marker_defs split: if_splits)
    with 2 show ?thesis by (intro exI [of _ "CallStealth v"] exI [of _ t']) simp
  next
    case 3
    from ms45_inputs.record_inv [OF rd [unfolded 3]] show ?thesis
      unfolding 3 word_less_nat_alt unat_ucast_u8 unat_ucast_u16 by (metis call_ok.simps(10))
  next
    case 4
    from ms45_outputs.record_inv [OF rd [unfolded 4]] show ?thesis
      unfolding 4 word_less_nat_alt unat_ucast_u8 unat_ucast_u16 by (metis call_ok.simps(11))
  next
    case 5
    from covenants.record_inv [OF rd [unfolded 5]] show ?thesis
      unfolding 5 word_less_nat_alt unat_ucast_u8 unat_ucast_u16 by (metis call_ok.simps(12))
  next
    case 6
    from covenant_executions.record_inv [OF rd [unfolded 6]] show ?thesis
      unfolding 6 word_less_nat_alt unat_ucast_u8 unat_ucast_u16 by (metis call_ok.simps(13))
  next
    case 7
    from input_derivations.record_inv [OF rd [unfolded 7]] show ?thesis
      unfolding 7 word_less_nat_alt unat_ucast_u8 unat_ucast_u16 by (metis call_ok.simps(8))
  next
    case 8
    from output_derivations.record_inv [OF rd [unfolded 8]] show ?thesis
      unfolding 8 word_less_nat_alt unat_ucast_u8 unat_ucast_u16 by (metis call_ok.simps(9))
  qed
qed

lemma call_bytes_pos: "0 < length (call_bytes c)"
  by (cases c) (simp_all del: length_greater_0_conv add: header_bytes_def signature_bytes_def redeem_bytes_def
      output_bytes_def)

lemma trailers_loop_inv:
  "read_trailers_loop sink inputs outputs (reading p t) s st = Ok (r', s', st') \<Longrightarrow>
     \<exists>cs. t = calls_bytes cs \<and> r' = reading (p @ t) [] \<and> run_calls sink cs s = Ok s'
       \<and> (\<forall>c\<in>set cs. call_ok (unat inputs) (unat outputs) c)"
proof (induction "length t" arbitrary: p t s st rule: less_induct)
  case less
  show ?case
  proof (cases t)
    case Nil
    with less.prems show ?thesis by (intro exI [of _ "[]"]) (simp add: loop_end)
  next
    case (Cons m u)
    then obtain r1 s1 st1 where
      one: "read_trailer sink m inputs outputs (reading (p @ [m]) u) s st = Ok (r1, s1, st1)"
      and rest: "read_trailers_loop sink inputs outputs r1 s1 st1 = Ok (r', s', st')"
      using less.prems by (auto simp: loop_marker rbind_Inr_iff)
    from read_trailer_inv [OF one] obtain c t1 where
      c: "t = call_bytes c @ t1" "r1 = reading (p @ call_bytes c) t1" "sink c s = Ok s1"
      "call_ok (unat inputs) (unat outputs) c" using Cons by blast
    have "length t1 < length t" using c(1) call_bytes_pos [of c] by simp
    from less.hyps [OF this rest [unfolded c(2)]] obtain cs where
      "t1 = calls_bytes cs" "r' = reading ((p @ call_bytes c) @ t1) []" "run_calls sink cs s1 = Ok s'"
      "\<forall>c\<in>set cs. call_ok (unat inputs) (unat outputs) c" by blast
    with c show ?thesis by (intro exI [of _ "c # cs"]) simp
  qed
qed

lemma read_body_consumes:
  assumes "unat n = a" "unat m = b"
  shows "consumes (call_ok a b) sink (\<lambda>r s. rbind (read_inputs sink n r s) (\<lambda>(r, s). read_outputs sink m r s))"
proof (rule consumes_seq)
  show "consumes (call_ok a b) sink (read_inputs sink n)"
    unfolding read_inputs_def by (rule consumes_fold) (use assms in \<open>auto intro: read_input_consumes\<close>)
qed (rule read_outputs_consumes [OF assms(2)])

lemma decode_canonical:
  assumes "decode sink data l s = Ok (flags, s')"
  shows "\<exists>g cs. data = calls_bytes (CallGlobal g # cs) \<and> run_calls sink (CallGlobal g # cs) s = Ok s'
    \<and> flags = g_flags g \<and> global_wire_ok l g
    \<and> (\<forall>c\<in>set cs. call_ok (unat (g_input_count g)) (unat (g_output_count g)) c)"
proof -
  obtain g t s1 r2 s2 r3 where g: "data = call_bytes (CallGlobal g) @ t" "sink (CallGlobal g) s = Ok s1"
    "flags = g_flags g" "global_wire_ok l g"
    and body: "rbind (read_inputs sink (g_input_count g) (reading (call_bytes (CallGlobal g)) t) s1)
        (\<lambda>(r, s). read_outputs sink (g_output_count g) r s) = Ok (r2, s2)"
    and tr: "read_trailers sink (g_input_count g) (g_output_count g) r2 s2 = Ok (r3, s')"
    using assms
    by (auto simp: decode_def reader_new_reading decode_envelope_global rbind_Inr_iff sink_call_Ok
        fp_global.rd_Ok_iff)
  from body obtain cs t2 where 2: "t = calls_bytes cs @ t2"
    "r2 = reading (call_bytes (CallGlobal g) @ calls_bytes cs) t2" "run_calls sink cs s1 = Ok s2"
    "\<forall>c\<in>set cs. call_ok (unat (g_input_count g)) (unat (g_output_count g)) c"
    by (rule consumesD [OF read_body_consumes [OF refl refl]])
  from tr obtain st where "read_trailers_loop sink (g_input_count g) (g_output_count g) r2 s2 trailer_state_new = Ok (r3, s', st)"
    by (auto simp: read_trailers_def rbind_Inr_iff split: if_splits)
  from trailers_loop_inv [OF this [unfolded 2(2)]] obtain ds where
    3: "t2 = calls_bytes ds" "run_calls sink ds s2 = Ok s'"
    "\<forall>c\<in>set ds. call_ok (unat (g_input_count g)) (unat (g_output_count g)) c" by blast
  show ?thesis
    by (intro exI [of _ g] exI [of _ "cs @ ds"]) (use g 2 3 in \<open>auto simp: run_calls_append\<close>)
qed

section \<open>A concrete envelope\<close>

text \<open>One signed input, two outputs, and every kind of trailer.\<close>

definition sample_source :: encode_source where
  "sample_source =
     \<lparr>src_global = \<lparr>g_flags = 1, g_version = 1, g_input_count = 1, g_output_count = 2, g_locktime = 7,
        g_subnetwork_id = replicate 20 0, g_gas = 0, g_payload = [1, 2, 3]\<rparr>,
      src_input = (\<lambda>_. \<lparr>wi_previous_tx_id = replicate 32 9, wi_previous_index = 4, wi_amount = 500000000,
        wi_sequence = 0, wi_sig_op_count = 1, wi_script_version = 0, wi_script = replicate 34 32\<rparr>),
      src_signature_count = (\<lambda>_. 1),
      src_signature = (\<lambda>_ _. \<lparr>sg_position = 0, sg_sighash = 1, sg_bytes = replicate 64 5\<rparr>),
      src_redeem = (\<lambda>_. [0x51, 0x52]),
      src_output = (\<lambda>i. \<lparr>wo_amount = word_of_nat (1000 + i), wo_script_version = 0, wo_script = replicate 34 6\<rparr>),
      src_network = 1,
      src_stealth = Some (replicate 32 8),
      src_input_derivation = (\<lambda>_. Some \<lparr>dv_branch = 0, dv_index = 12\<rparr>),
      src_output_derivation = (\<lambda>i. if i = 1 then Some \<lparr>dv_branch = 1, dv_index = 3\<rparr> else None),
      src_input_ms45 = (\<lambda>_. Some \<lparr>ms_cosigner = 1, ms_chain = 0, ms_index = 2\<rparr>),
      src_output_ms45 = (\<lambda>_. None),
      src_covenant = (\<lambda>i. if i = 0 then Some \<lparr>cv_authorizing_input = 0, cv_id = replicate 32 3\<rparr> else None),
      src_covenant_execution = (\<lambda>_. Some \<lparr>ce_supplied_mask = 3, ce_supplied_true_mask = 1\<rparr>)\<rparr>"

lemma upt_2: "[0..<2] = [0, Suc 0]"
  by (simp add: upt_rec)

lemma sample_arrays: "source_arrays sample_source"
  by (simp add: source_arrays_def sample_source_def)

lemma sample_authorized: "covenants_authorized sample_source"
  by (simp add: covenants_authorized_def sample_source_def)

lemma sample_ok: "source_ok sample_source limits_grammar"
  by (simp add: source_ok_def sample_source_def global_ok_def limits_grammar_def supported_tx_version_def
      MAX_SUPPORTED_TX_VERSION_def ALLOWED_FLAGS_def FLAG_SIGNED_OR_COMPLETE_def MAX_OUTPUTS_def MAX_PAYLOAD_SIZE_def
      input_ok_def signatures_ok_def signature_list_def MAX_SIGNATURE_RECORDS_def MAX_SCRIPT_SIZE_def MAX_REDEEM_SIZE_def
      valid_sighash_def trailers_ok_def valid_network_def group_ok_def valid_ms45_def valid_derivation_def
      valid_covenant_execution_def upt_2 word_le_nat_alt unsigned_minus_1_eq_mask mask_eq_exp_minus_1)

lemma sample_length: "length (wire_bytes sample_source) \<le> 2000"
  by (simp add: wire_bytes_def sample_source_def header_bytes_def global_bytes_def MAGIC_def input_bytes_def
      input_value_bytes_def signature_list_def signature_bytes_def redeem_bytes_def output_bytes_def script_bytes_enc_def
      trailer_bytes_def group_bytes_def ms45_body_def covenant_body_def covenant_execution_body_def derivation_body_def
      stealth_bytes_def upt_2)

abbreviation sample_recorder :: "(decode_call list, unit) decode_sink" where
  "sample_recorder \<equiv> recording_sink"

lemma sample_decodes:
  "decode sample_recorder (wire_bytes sample_source) limits_grammar [] = Ok (1, calls_of sample_source)"
  using decode_wire_bytes [OF sample_ok sample_arrays sample_authorized, of sample_recorder "[]"]
  by (simp add: run_calls_recording) (simp add: sample_source_def)

section \<open>Properties\<close>

text \<open>
  (C1) Round trip. Whatever the encoder writes for a source, the decoder reads back: on the bytes written,
  with any sink, decoding makes exactly the calls the source describes, in order, and ends with the
  source's flags or with the first error the sink itself raises. The source's fixed arrays have the
  lengths of their Rust types and its covenants name inputs that exist.
\<close>

theorem wire_roundtrip:
  assumes "encode src out l = Ok (n, out')" and "source_arrays src" and "covenants_authorized src"
  shows "decode sink (take n out') l s =
    rbind (run_calls sink (calls_of src) s) (\<lambda>s'. Ok (g_flags (src_global src), s'))"
  using assms decode_wire_bytes [of src l sink s] by (auto simp: encode_ok_iff)

theorem wire_roundtrip_witness:
  "\<exists>n out'. encode sample_source (replicate 2000 0) limits_grammar = Ok (n, out')
     \<and> decode sample_recorder (take n out') limits_grammar [] = Ok (1, calls_of sample_source)"
proof -
  obtain n out' where e: "encode sample_source (replicate 2000 0) limits_grammar = Ok (n, out')"
    using sample_ok sample_length by (simp add: encode_ok_iff)
  have "decode sample_recorder (take n out') limits_grammar [] = Ok (1, calls_of sample_source)"
    using wire_roundtrip [OF e sample_arrays sample_authorized, of sample_recorder "[]"]
    by (simp add: run_calls_recording) (simp add: sample_source_def)
  with e show ?thesis by blast
qed



text \<open>
  (C14) Every call an accepted envelope makes is within bounds: the counts pass the caller's limits, a
  position is below the count of inputs or outputs it indexes, a covenant's authorising input
  exists, scripts, redeem scripts, signatures and identifiers have admissible lengths, signature hash
  types, networks, derivations and masks are valid.
\<close>

theorem decode_within_bounds:
  assumes "decode recording_sink data l [] = Ok (flags, calls)"
  shows "\<exists>g cs. calls = CallGlobal g # cs \<and> g_flags g = flags \<and> global_ok g l
     \<and> list_all (call_ok (unat (g_input_count g)) (unat (g_output_count g))) calls"
  using decode_canonical [OF assms]
  by (auto simp: run_calls_recording global_wire_ok_def list_all_iff simp del: run_calls.simps)

theorem decode_within_bounds_witness:
  "\<exists>g cs. calls_of sample_source = CallGlobal g # cs \<and> g_flags g = 1 \<and> global_ok g limits_grammar
     \<and> list_all (call_ok (unat (g_input_count g)) (unat (g_output_count g))) (calls_of sample_source)"
  using decode_within_bounds [OF sample_decodes] .

text \<open>
  What the encoder does on every output buffer: it succeeds exactly when the source passes every
  check of the grammar and the buffer is long enough, and then it writes the concatenation of the
  sections at the start of the buffer, leaves the rest of the buffer alone and returns the length.
\<close>

theorem encode_succeeds_iff:
  "encode src out l = Ok (n, out') \<longleftrightarrow>
     source_ok src l \<and> n = length (wire_bytes src) \<and> n \<le> length out \<and> out' = wire_bytes src @ drop n out"
  using encode_ok_iff [of src out l n out'] by auto

text \<open>
  \<open>encode_vec\<close> always returns: its doubling loop ends, and for a source that passes the checks the
  result is the encoding, whatever the first guess of the capacity was. (An encoding longer than half
  the address space cannot exist in memory.)
\<close>

theorem encode_vec_total:
  "(\<exists>r. encode_vec src l = Some r)
   \<and> (source_ok src l \<and> length (wire_bytes src) \<le> usize_max div 2 \<longrightarrow>
        encode_vec src l = Some (Ok (wire_bytes src)))"
  using encode_vec_returns [of src l] encode_vec_ok [of src l] by simp

theorem encode_vec_total_witness:
  "encode_vec sample_source limits_grammar = Some (Ok (wire_bytes sample_source))"
proof -
  have "length (wire_bytes sample_source) \<le> usize_max div 2" using sample_length by (simp add: usize_max_def)
  then show ?thesis using encode_vec_total [of sample_source limits_grammar] sample_ok by simp
qed

end
