(* ===== verification/Strings.thy ===== *)
theory Strings
  imports Prelude "HOL-Library.Char_ord"
begin

text \<open>
  Rust strings as the code uses them: a \<open>String\<close> is its UTF-8 bytes, a HOL \<open>string\<close>; \<open>trim().is_empty()\<close>
  is \<open>blank\<close>, which recognises the encodings of Unicode's White_Space; \<open>u64::to_string\<close> is
  \<open>dec_string\<close>. The lossless decimal adapters of \<open>primitives/serialization\<close> are modelled on them: printing
  and parsing are inverse to each other on exactly the canonical decimals of the \<open>u64\<close> range.
\<close>

section \<open>Whitespace\<close>

definition ws1 :: "char \<Rightarrow> bool" where
  "ws1 c \<longleftrightarrow> c \<in> {CHR 0x09, CHR 0x0A, CHR 0x0B, CHR 0x0C, CHR 0x0D, CHR 0x20}"

definition ws2 :: "char \<Rightarrow> char \<Rightarrow> bool" where
  "ws2 c d \<longleftrightarrow> c = CHR 0xC2 \<and> d \<in> {CHR 0x85, CHR 0xA0}"

definition ws3 :: "char \<Rightarrow> char \<Rightarrow> char \<Rightarrow> bool" where
  "ws3 c d e \<longleftrightarrow>
     (c = CHR 0xE1 \<and> d = CHR 0x9A \<and> e = CHR 0x80)
   \<or> (c = CHR 0xE2 \<and> d = CHR 0x80 \<and>
        e \<in> {CHR 0x80, CHR 0x81, CHR 0x82, CHR 0x83, CHR 0x84, CHR 0x85, CHR 0x86, CHR 0x87, CHR 0x88, CHR 0x89,
             CHR 0x8A, CHR 0xA8, CHR 0xA9, CHR 0xAF})
   \<or> (c = CHR 0xE2 \<and> d = CHR 0x81 \<and> e = CHR 0x9F)
   \<or> (c = CHR 0xE3 \<and> d = CHR 0x80 \<and> e = CHR 0x80)"

fun blank :: "string \<Rightarrow> bool" where
  "blank [] = True"
| "blank [c] = ws1 c"
| "blank [c, d] = ((ws1 c \<and> blank [d]) \<or> ws2 c d)"
| "blank (c # d # e # cs) =
     (if ws1 c then blank (d # e # cs)
      else if ws2 c d then blank (e # cs)
      else if ws3 c d e then blank cs
      else False)"

section \<open>Decimal strings\<close>

definition digit_char :: "nat \<Rightarrow> char" where
  "digit_char d = char_of (48 + d)"

definition digit_value :: "char \<Rightarrow> nat" where
  "digit_value c = of_char c - 48"

definition is_ascii_digit :: "char \<Rightarrow> bool" where
  "is_ascii_digit c \<longleftrightarrow> 48 \<le> (of_char c :: nat) \<and> (of_char c :: nat) \<le> 57"

fun dec_string :: "nat \<Rightarrow> string" where
  "dec_string n = (if n < 10 then [digit_char n] else dec_string (n div 10) @ [digit_char (n mod 10)])"

declare dec_string.simps [simp del]

text \<open>\<open>str::parse::<u64>\<close> on a string of digits: every step is checked for overflow.\<close>

fun parse_digits :: "nat \<Rightarrow> string \<Rightarrow> nat option" where
  "parse_digits acc [] = Some acc"
| "parse_digits acc (c # cs) =
     (if acc * 10 + digit_value c \<le> u64_max then parse_digits (acc * 10 + digit_value c) cs else None)"

definition serialize_u64 :: "u64 \<Rightarrow> string" where
  "serialize_u64 value = dec_string (unat value)"

definition parse_canonical_decimal :: "string \<Rightarrow> string + u64" where
  "parse_canonical_decimal text =
     (if text = [] \<or> \<not> list_all is_ascii_digit text then Err ''expected an unsigned decimal string''
      else if length text > 1 \<and> text ! 0 = CHR ''0''
      then Err ''decimal string must be canonical (no leading zeroes)''
      else case parse_digits 0 text of
             None \<Rightarrow> Err ''decimal string exceeds u64''
           | Some n \<Rightarrow> Ok (word_of_nat n))"

definition serialize_opt_u64 :: "u64 option \<Rightarrow> string option" where
  "serialize_opt_u64 value = (case value of Some v \<Rightarrow> Some (serialize_u64 v) | None \<Rightarrow> None)"

definition deserialize_opt_u64 :: "string option \<Rightarrow> string + u64 option" where
  "deserialize_opt_u64 value =
     (case value of None \<Rightarrow> Ok None
      | Some text \<Rightarrow> rbind (parse_canonical_decimal text) (\<lambda>n. Ok (Some n)))"

section \<open>Digits\<close>

lemma of_char_digit: "d < 10 \<Longrightarrow> (of_char (digit_char d) :: nat) = 48 + d"
  by (simp add: digit_char_def)

lemma digit_value_char [simp]: "d < 10 \<Longrightarrow> digit_value (digit_char d) = d"
  by (simp add: digit_value_def of_char_digit)

lemma is_ascii_digit_char [simp]: "d < 10 \<Longrightarrow> is_ascii_digit (digit_char d)"
  by (simp add: is_ascii_digit_def of_char_digit)

lemma digit_char_value: "is_ascii_digit c \<Longrightarrow> digit_char (digit_value c) = c \<and> digit_value c < 10"
  by (auto simp: is_ascii_digit_def digit_char_def digit_value_def)

lemma digit_char_0: "digit_char 0 = CHR ''0''"
proof -
  have "(of_char CHR ''0'' :: nat) = 48 + 0" by simp
  then show ?thesis unfolding digit_char_def by (metis char_of_char)
qed

lemma digit_char_eq_0: "d < 10 \<Longrightarrow> digit_char d = CHR ''0'' \<longleftrightarrow> d = 0"
  using digit_value_char [of d] digit_char_0 by (metis digit_value_char zero_less_numeral)

text \<open>The value of a digit string, and that the checked parser computes it.\<close>

definition digits_value :: "nat \<Rightarrow> string \<Rightarrow> nat" where
  "digits_value acc cs = foldl (\<lambda>a c. a * 10 + digit_value c) acc cs"

lemma digits_value_ge: "acc \<le> digits_value acc cs"
proof (induction cs arbitrary: acc)
  case (Cons c cs)
  have "acc \<le> acc * 10 + digit_value c" by simp
  also have "\<dots> \<le> digits_value (acc * 10 + digit_value c) cs" by (rule Cons.IH)
  finally show ?case by (simp add: digits_value_def)
qed (simp add: digits_value_def)

lemma parse_digits_value:
  "acc \<le> u64_max \<Longrightarrow>
   parse_digits acc cs = (if digits_value acc cs \<le> u64_max then Some (digits_value acc cs) else None)"
proof (induction cs arbitrary: acc)
  case (Cons c cs)
  show ?case
    using Cons.IH [of "acc * 10 + digit_value c"] digits_value_ge [of "acc * 10 + digit_value c" cs]
    by (auto simp: digits_value_def)
qed (simp add: digits_value_def)

lemma digits_value_snoc: "digits_value acc (cs @ [c]) = digits_value acc cs * 10 + digit_value c"
  by (simp add: digits_value_def)

lemma dec_string_ne: "dec_string n \<noteq> []"
  by (subst dec_string.simps) simp

lemma digits_value_dec_string: "digits_value 0 (dec_string n) = n"
proof (induction n rule: dec_string.induct)
  case (1 n)
  then show ?case
    by (subst dec_string.simps) (auto simp: digits_value_snoc, simp add: digits_value_def)
qed

lemma dec_string_digits: "list_all is_ascii_digit (dec_string n)"
proof (induction n rule: dec_string.induct)
  case (1 n)
  then show ?case by (subst dec_string.simps) auto
qed

lemma dec_string_hd: "0 < n \<Longrightarrow> hd (dec_string n) \<noteq> CHR ''0''"
proof (induction n rule: dec_string.induct)
  case (1 n)
  then show ?case by (subst dec_string.simps) (auto simp: dec_string_ne digit_char_eq_0)
qed

lemma dec_string_canonical: "length (dec_string n) > 1 \<Longrightarrow> dec_string n ! 0 \<noteq> CHR ''0''"
  using dec_string_hd [of n] dec_string_ne [of n]
  by (cases "n = 0") (auto simp: hd_conv_nth dec_string.simps [of 0])

lemma dec_string_snoc: "0 < n \<Longrightarrow> d < 10 \<Longrightarrow> dec_string (n * 10 + d) = dec_string n @ [digit_char d]"
  by (subst dec_string.simps) auto

lemma dec_string_digits_value:
  assumes "cs \<noteq> []" "list_all is_ascii_digit cs" "length cs > 1 \<Longrightarrow> cs ! 0 \<noteq> CHR ''0''"
  shows "dec_string (digits_value 0 cs) = cs"
  using assms
proof (induction cs rule: rev_induct)
  case (snoc c cs)
  have c: "digit_char (digit_value c) = c" "digit_value c < 10" using snoc.prems(2) digit_char_value by auto
  show ?case
  proof (cases "cs = []")
    case True
    with c show ?thesis by (simp add: digits_value_def) (subst dec_string.simps, simp)
  next
    case False
    then have lead: "cs ! 0 \<noteq> CHR ''0''" using snoc.prems(3) by (auto simp: nth_append split: if_splits)
    have cs: "dec_string (digits_value 0 cs) = cs" using snoc False lead by auto
    have "0 < digits_value 0 cs"
    proof (rule ccontr)
      assume "\<not> 0 < digits_value 0 cs"
      then have "cs = dec_string 0" using cs by simp
      then have "cs = [CHR ''0'']" by (simp add: dec_string.simps [of 0] digit_char_0)
      with lead show False by simp
    qed
    with c cs show ?thesis by (simp add: digits_value_snoc dec_string_snoc)
  qed
qed simp

section \<open>Properties\<close>

text \<open>
  The lossless decimal adapters. A string parses to a \<open>u64\<close> exactly when it is the string that the
  value prints to: printing then parsing is the identity for every \<open>u64\<close>, and no other string (with a
  sign, a leading zero or too large a value) is accepted.
\<close>

theorem parse_canonical_decimal_iff:
  "parse_canonical_decimal str = Ok v \<longleftrightarrow> str = serialize_u64 v"
proof
  assume ok: "parse_canonical_decimal str = Ok v"
  then have t: "str \<noteq> []" "list_all is_ascii_digit str" "length str > 1 \<Longrightarrow> str ! 0 \<noteq> CHR ''0''"
    and p: "parse_digits 0 str = Some (digits_value 0 str)" "digits_value 0 str \<le> u64_max"
    "v = word_of_nat (digits_value 0 str)"
    using parse_digits_value [of 0 str]
    by (auto simp: parse_canonical_decimal_def split: if_splits option.splits)
  have "unat v = digits_value 0 str" using p by (simp add: u64_max_def)
  then show "str = serialize_u64 v"
    using dec_string_digits_value [OF t(1-3)] by (simp add: serialize_u64_def)
next
  assume "str = serialize_u64 v"
  moreover have "unat v \<le> u64_max" using unat_bound [of v] by (simp add: u64_max_def)
  ultimately show "parse_canonical_decimal str = Ok v"
    using parse_digits_value [of 0 str]
    by (simp add: parse_canonical_decimal_def serialize_u64_def dec_string_ne dec_string_digits
        digits_value_dec_string) (use dec_string_canonical in auto)
qed

end
