(* ===== verification/Indexer_Model.thy ===== *)
theory Indexer_Model
  imports Strings "HOL-Library.AList" "HOL-Library.Multiset" "HOL-Library.Sublist" "HOL-Library.Product_Lexorder"
begin

text \<open>
  The value types and pure functions of the lightweight indexer: configuration and retention modes
  (\<open>indexer/config.rs\<close>), records and events (\<open>event.rs\<close>), matchers (\<open>matcher/mod.rs\<close>), the scanner
  (\<open>scanner/mod.rs\<close>), queries and pages (\<open>query/mod.rs\<close>), metrics (\<open>metrics.rs\<close>) and checkpoints
  (\<open>sync/mod.rs\<close>).

  The code carries the \<open>serde_json::Value\<close> of a record without reading it: it is the type parameter
  \<open>'j\<close>. A \<open>HashMap\<close> is an association list with distinct keys; the order in which the code iterates one is
  unspecified in Rust and is the parameter \<open>iter\<close> of the operations that do.
\<close>

section \<open>Configuration\<close>

datatype indexing_mode = All | Transactions | Matches | Blocks | Custom bool bool bool

fun retains_transactions :: "indexing_mode \<Rightarrow> bool" where
  "retains_transactions All = True"
| "retains_transactions Transactions = True"
| "retains_transactions Matches = False"
| "retains_transactions Blocks = False"
| "retains_transactions (Custom transactions matches blocks) = transactions"

fun retains_matches :: "indexing_mode \<Rightarrow> bool" where
  "retains_matches All = True"
| "retains_matches Matches = True"
| "retains_matches Transactions = False"
| "retains_matches Blocks = False"
| "retains_matches (Custom transactions matches blocks) = matches"

fun retains_blocks :: "indexing_mode \<Rightarrow> bool" where
  "retains_blocks All = True"
| "retains_blocks Blocks = True"
| "retains_blocks Transactions = False"
| "retains_blocks Matches = False"
| "retains_blocks (Custom transactions matches blocks) = blocks"

definition retains_transaction :: "indexing_mode \<Rightarrow> bool \<Rightarrow> bool" where
  "retains_transaction m is_match \<longleftrightarrow> retains_transactions m \<or> (retains_matches m \<and> is_match)"

record indexer_config =
  ic_mode :: indexing_mode
  ic_max_transactions :: nat
  ic_max_blocks :: nat
  ic_max_matches :: nat
  ic_dedupe_window :: nat
  ic_scanner_stale_after_ms :: u64
  ic_transaction_ttl_ms :: u64
  ic_max_payload_bytes :: nat
  ic_max_addresses_per_transaction :: nat
  ic_max_query_page :: nat

definition MAX_SERIALIZED_TRANSACTION_BYTES :: nat where "MAX_SERIALIZED_TRANSACTION_BYTES = 250000"

definition config_default :: indexer_config where
  "config_default =
     \<lparr>ic_mode = All, ic_max_transactions = 50000, ic_max_blocks = 5000, ic_max_matches = 20000,
      ic_dedupe_window = 4096, ic_scanner_stale_after_ms = 60000,
      ic_transaction_ttl_ms = 24 * 60 * 60 * 1000, ic_max_payload_bytes = MAX_SERIALIZED_TRANSACTION_BYTES,
      ic_max_addresses_per_transaction = 256, ic_max_query_page = 500\<rparr>"

definition validate_limits :: "indexer_config \<Rightarrow> string + unit" where
  "validate_limits c =
     (if ic_max_transactions c = 0 \<or> ic_max_blocks c = 0 \<or> ic_max_matches c = 0
      then Err ''index limits must be > 0''
      else if ic_max_transactions c > 1000000 then Err ''max_transactions exceeds hard safety bound''
      else if ic_max_blocks c > 100000 then Err ''max_blocks exceeds hard safety bound''
      else if ic_max_matches c > 1000000 then Err ''max_matches exceeds hard safety bound''
      else Ok ())"

definition config_validate :: "indexer_config \<Rightarrow> string + unit" where
  "config_validate c =
     rbind (validate_limits c) (\<lambda>_.
     if ic_dedupe_window c = 0 \<or> ic_dedupe_window c > 1000000 then Err ''dedupe_window must be 1..=1000000''
     else if ic_scanner_stale_after_ms c = 0 \<or> ic_scanner_stale_after_ms c > 86400000
     then Err ''scanner_stale_after_ms must be 1..=86400000''
     else if \<not> (1 \<le> ic_max_query_page c \<and> ic_max_query_page c \<le> 4096)
     then Err ''max_query_page must be 1..=4096''
     else if ic_max_payload_bytes c > 1048576 then Err ''max_payload_bytes exceeds 1 MiB''
     else if ic_max_addresses_per_transaction c > 4096
     then Err ''max_addresses_per_transaction exceeds hard safety bound''
     else Ok ())"

section \<open>Records and events\<close>

record 'j indexed_transaction =
  it_txid :: string
  it_block_hash :: "string option"
  it_daa_score :: "u64 option"
  it_observed_at_ms :: u64
  it_addresses :: "string list"
  it_payload :: bytes
  it_raw :: 'j

record 'j indexed_block =
  ib_hash :: string
  ib_daa_score :: "u64 option"
  ib_observed_at_ms :: u64
  ib_txids :: "string list"
  ib_raw :: 'j

record indexed_match =
  im_matcher_id :: u64
  im_txid :: string
  im_observed_at_ms :: u64

datatype indexer_event =
    EvTransaction string
  | EvBlock string
  | EvMatch u64 string
  | EvEvicted string string
  | EvReconciled nat nat
  | EvCheckpoint "u64 option" "string option"

section \<open>Matchers and the scanner\<close>

datatype match_rule =
    Address string
  | PayloadPrefix bytes
  | PayloadContains bytes
  | PayloadExact bytes
  | PayloadSuffix bytes

record matcher =
  mt_id :: u64
  mt_rule :: match_rule

definition validate_payload_matcher :: "bytes \<Rightarrow> string + unit" where
  "validate_payload_matcher v =
     (if v = [] then Err ''payload matcher cannot be empty''
      else if length v > 4096 then Err ''payload matcher exceeds 4096 bytes''
      else Ok ())"

fun rule_validate :: "match_rule \<Rightarrow> string + unit" where
  "rule_validate (Address address) = (if blank address then Err ''address matcher cannot be empty'' else Ok ())"
| "rule_validate (PayloadPrefix v) = validate_payload_matcher v"
| "rule_validate (PayloadContains v) = validate_payload_matcher v"
| "rule_validate (PayloadExact v) = validate_payload_matcher v"
| "rule_validate (PayloadSuffix v) = validate_payload_matcher v"

text \<open>\<open>slice::windows(n)\<close>: the contiguous windows of length \<open>n\<close>, in order.\<close>

definition windows :: "nat \<Rightarrow> 'a list \<Rightarrow> 'a list list" where
  "windows n xs = map (\<lambda>i. take n (drop i xs)) [0..<length xs + 1 - n]"

definition contains :: "bytes \<Rightarrow> bytes \<Rightarrow> bool" where
  "contains haystack needle \<longleftrightarrow>
     length needle \<le> length haystack \<and> list_ex (\<lambda>w. w = needle) (windows (length needle) haystack)"

fun rule_matches :: "match_rule \<Rightarrow> 'j indexed_transaction \<Rightarrow> bool" where
  "rule_matches (Address address) tx = list_ex (\<lambda>item. item = address) (it_addresses tx)"
| "rule_matches (PayloadPrefix v) tx = prefix v (it_payload tx)"
| "rule_matches (PayloadContains v) tx = contains (it_payload tx) v"
| "rule_matches (PayloadExact v) tx = (it_payload tx = v)"
| "rule_matches (PayloadSuffix v) tx = suffix v (it_payload tx)"

record 'j block_batch =
  bb_block :: "'j indexed_block"
  bb_transactions :: "'j indexed_transaction list"

record block_scan_report =
  bs_block_hash :: string
  bs_transactions_scanned :: nat
  bs_matches :: "indexed_match list"

definition scan :: "'j indexed_transaction \<Rightarrow> matcher list \<Rightarrow> indexed_match list" where
  "scan tx ms =
     map (\<lambda>m. \<lparr>im_matcher_id = mt_id m, im_txid = it_txid tx, im_observed_at_ms = it_observed_at_ms tx\<rparr>)
         (filter (\<lambda>m. rule_matches (mt_rule m) tx) ms)"

section \<open>Queries\<close>

record page_request =
  pr_offset :: nat
  pr_limit :: nat

record 'a page_result =
  pg_items :: "'a list"
  pg_offset :: nat
  pg_limit :: nat
  pg_total :: nat
  pg_has_more :: bool

definition page :: "'a list \<Rightarrow> page_request \<Rightarrow> nat \<Rightarrow> string + 'a page_result" where
  "page items request max_page =
     (if pr_limit request = 0 then Err ''page limit must be > 0''
      else if pr_limit request > max_page
      then Err (''page limit exceeds configured maximum '' @ dec_string max_page)
      else let start = min (pr_offset request) (length items);
               stop = min (min (start + pr_limit request) usize_max) (length items) in
           Ok \<lparr>pg_items = take (stop - start) (drop start items), pg_offset = start,
               pg_limit = pr_limit request, pg_total = length items, pg_has_more = (stop < length items)\<rparr>)"

record transaction_query =
  tq_address :: "string option"
  tq_after_daa_score :: "u64 option"
  tq_page :: page_request

definition address_matches :: "'j indexed_transaction \<Rightarrow> string option \<Rightarrow> bool" where
  "address_matches tx address =
     (case address of None \<Rightarrow> True | Some expected \<Rightarrow> list_ex (\<lambda>item. item = expected) (it_addresses tx))"

definition daa_score_matches :: "'j indexed_transaction \<Rightarrow> u64 option \<Rightarrow> bool" where
  "daa_score_matches tx after =
     (case after of None \<Rightarrow> True
      | Some minimum \<Rightarrow> (case it_daa_score tx of None \<Rightarrow> False | Some score \<Rightarrow> score > minimum))"

definition tx_sort_key :: "'j indexed_transaction \<Rightarrow> u64 \<times> u64" where
  "tx_sort_key tx = ((case it_daa_score tx of None \<Rightarrow> 0 | Some score \<Rightarrow> score), it_observed_at_ms tx)"

definition filter_transactions :: "'j indexed_transaction list \<Rightarrow> transaction_query \<Rightarrow> 'j indexed_transaction list" where
  "filter_transactions vs q =
     sort_key tx_sort_key
       (filter (\<lambda>v. address_matches v (tq_address q) \<and> daa_score_matches v (tq_after_daa_score q)) vs)"

section \<open>Metrics, checkpoints and reports\<close>

record indexer_metrics =
  mx_transactions :: u64
  mx_blocks :: u64
  mx_matches :: u64
  mx_transactions_observed :: u64
  mx_blocks_observed :: u64
  mx_matches_observed :: u64
  mx_duplicate_transactions :: u64
  mx_cache_hits :: u64
  mx_cache_misses :: u64
  mx_evictions :: u64
  mx_ttl_evictions :: u64
  mx_size_evictions :: u64
  mx_rejected_records :: u64

definition metrics_default :: indexer_metrics where
  "metrics_default =
     \<lparr>mx_transactions = 0, mx_blocks = 0, mx_matches = 0, mx_transactions_observed = 0, mx_blocks_observed = 0,
      mx_matches_observed = 0, mx_duplicate_transactions = 0, mx_cache_hits = 0, mx_cache_misses = 0,
      mx_evictions = 0, mx_ttl_evictions = 0, mx_size_evictions = 0, mx_rejected_records = 0\<rparr>"

record indexer_health =
  ih_running :: bool
  ih_scanner_healthy :: bool
  ih_last_block_at_ms :: "u64 option"
  ih_transaction_count :: nat
  ih_block_count :: nat
  ih_match_count :: nat
  ih_matcher_count :: nat

record sync_checkpoint =
  sc_virtual_daa_score :: "u64 option"
  sc_block_hash :: "string option"

definition checkpoint_default :: sync_checkpoint where
  "checkpoint_default = \<lparr>sc_virtual_daa_score = None, sc_block_hash = None\<rparr>"

definition checkpoint_validate :: "sync_checkpoint \<Rightarrow> string + unit" where
  "checkpoint_validate c =
     (if (case sc_block_hash c of None \<Rightarrow> False | Some hash \<Rightarrow> blank hash)
      then Err ''checkpoint block hash cannot be empty'' else Ok ())"

record sync_report =
  sr_transactions_added :: u64
  sr_blocks_added :: u64
  sr_matches_added :: u64
  sr_checkpoint :: sync_checkpoint

record 'j virtual_chain_delta =
  vd_removed_block_hashes :: "string list"
  vd_accepted :: "'j block_batch list"
  vd_checkpoint :: sync_checkpoint

definition delta_validate :: "'j virtual_chain_delta \<Rightarrow> string + unit" where
  "delta_validate d =
     rbind (checkpoint_validate (vd_checkpoint d)) (\<lambda>_.
     if list_ex blank (vd_removed_block_hashes d)
     then Err ''virtual-chain delta contains an empty removed block hash''
     else if length (vd_removed_block_hashes d) > 100000 \<or> length (vd_accepted d) > 100000
     then Err ''virtual-chain delta exceeds hard safety bound''
     else Ok ())"

record reconciliation_report =
  rr_removed_blocks :: nat
  rr_removed_transactions :: nat
  rr_removed_matches :: nat
  rr_added_blocks :: nat
  rr_added_transactions :: nat
  rr_added_matches :: nat
  rr_checkpoint :: sync_checkpoint

end
