(* ===== verification/Indexer_Store.thy ===== *)
theory Indexer_Store
  imports Indexer_Model
begin

text \<open>
  The indexer's storage: the bounded window of recent keys (\<open>storage/dedupe.rs\<close>), the in-memory store
  with its insertion order, size limits and evictions (\<open>storage/memory.rs\<close>), and the persisted state
  (\<open>storage/mod.rs\<close>). The invariant \<open>store_inv\<close> ties the hash maps to their order queues and to the
  configured limits, and every operation keeps it.
\<close>

section \<open>Recent keys\<close>

record recent_keys =
  rk_capacity :: nat
  rk_set :: "string set"
  rk_order :: "string list"

definition rk_new :: "nat \<Rightarrow> recent_keys" where
  "rk_new capacity = \<lparr>rk_capacity = capacity, rk_set = {}, rk_order = []\<rparr>"

text \<open>\<open>while order.len() > capacity\<close>: the loop pops one key per iteration.\<close>

function rk_trim :: "recent_keys \<Rightarrow> recent_keys" where
  "rk_trim rk =
     (if length (rk_order rk) > rk_capacity rk
      then (case rk_order rk of
              [] \<Rightarrow> rk
            | key # rest \<Rightarrow> rk_trim (rk\<lparr>rk_set := rk_set rk - {key}, rk_order := rest\<rparr>))
      else rk)"
  by pat_completeness auto
termination by (relation "measure (\<lambda>rk. length (rk_order rk))") auto

declare rk_trim.simps [simp del]

definition rk_observe :: "recent_keys \<Rightarrow> string \<Rightarrow> bool \<times> recent_keys" where
  "rk_observe rk key =
     (if key \<in> rk_set rk then (False, rk)
      else (True, rk_trim (rk\<lparr>rk_set := insert key (rk_set rk), rk_order := rk_order rk @ [key]\<rparr>)))"

definition rk_clear :: "recent_keys \<Rightarrow> recent_keys" where
  "rk_clear rk = rk\<lparr>rk_set := {}, rk_order := []\<rparr>"

section \<open>The memory store\<close>

record 'j indexer_snapshot =
  sn_transactions :: "'j indexed_transaction list"
  sn_blocks :: "'j indexed_block list"
  sn_matches :: "indexed_match list"

record store_eviction =
  se_kind :: string
  se_id :: string

record 'j memory_store =
  ms_config :: indexer_config
  ms_tx :: "(string \<times> 'j indexed_transaction) list"
  ms_tx_order :: "string list"
  ms_blocks :: "(string \<times> 'j indexed_block) list"
  ms_block_order :: "string list"
  ms_matches :: "indexed_match list"
  ms_pending_evictions :: "store_eviction list"

definition ms_new :: "indexer_config \<Rightarrow> 'j memory_store" where
  "ms_new config =
     \<lparr>ms_config = config, ms_tx = [], ms_tx_order = [], ms_blocks = [], ms_block_order = [],
      ms_matches = [], ms_pending_evictions = []\<rparr>"

function trim_transactions :: "'j memory_store \<Rightarrow> 'j memory_store" where
  "trim_transactions st =
     (if length (ms_tx st) > ic_max_transactions (ms_config st)
      then (case ms_tx_order st of
              [] \<Rightarrow> st
            | key # rest \<Rightarrow> trim_transactions
                (st\<lparr>ms_tx_order := rest, ms_tx := AList.delete key (ms_tx st),
                    ms_matches := filter (\<lambda>v. im_txid v \<noteq> key) (ms_matches st),
                    ms_pending_evictions := ms_pending_evictions st
                      @ [\<lparr>se_kind = ''transaction_size'', se_id = key\<rparr>]\<rparr>))
      else st)"
  by pat_completeness auto
termination by (relation "measure (\<lambda>st. length (ms_tx_order st))") auto

function trim_blocks :: "'j memory_store \<Rightarrow> 'j memory_store" where
  "trim_blocks st =
     (if length (ms_blocks st) > ic_max_blocks (ms_config st)
      then (case ms_block_order st of
              [] \<Rightarrow> st
            | key # rest \<Rightarrow> trim_blocks
                (st\<lparr>ms_block_order := rest, ms_blocks := AList.delete key (ms_blocks st),
                    ms_pending_evictions := ms_pending_evictions st
                      @ [\<lparr>se_kind = ''block_size'', se_id = key\<rparr>]\<rparr>))
      else st)"
  by pat_completeness auto
termination by (relation "measure (\<lambda>st. length (ms_block_order st))") auto

function trim_matches :: "'j memory_store \<Rightarrow> 'j memory_store" where
  "trim_matches st =
     (if length (ms_matches st) > ic_max_matches (ms_config st)
      then (case ms_matches st of
              [] \<Rightarrow> st
            | v # rest \<Rightarrow> trim_matches
                (st\<lparr>ms_matches := rest,
                    ms_pending_evictions := ms_pending_evictions st
                      @ [\<lparr>se_kind = ''match_size'',
                          se_id = dec_string (unat (im_matcher_id v)) @ '':'' @ im_txid v\<rparr>]\<rparr>))
      else st)"
  by pat_completeness auto
termination by (relation "measure (\<lambda>st. length (ms_matches st))") auto

declare trim_transactions.simps [simp del] trim_blocks.simps [simp del] trim_matches.simps [simp del]

definition insert_transaction :: "'j memory_store \<Rightarrow> 'j indexed_transaction \<Rightarrow> bool \<times> 'j memory_store" where
  "insert_transaction st v =
     (if map_of (ms_tx st) (it_txid v) \<noteq> None then (False, st)
      else let key = it_txid v in
           (True, trim_transactions (st\<lparr>ms_tx := AList.update key v (ms_tx st), ms_tx_order := ms_tx_order st @ [key]\<rparr>)))"

definition insert_block :: "'j memory_store \<Rightarrow> 'j indexed_block \<Rightarrow> bool \<times> 'j memory_store" where
  "insert_block st v =
     (let key = ib_hash v in
      if map_of (ms_blocks st) key \<noteq> None then (False, st)
      else (True, trim_blocks (st\<lparr>ms_block_order := ms_block_order st @ [key], ms_blocks := AList.update key v (ms_blocks st)\<rparr>)))"

definition insert_match :: "'j memory_store \<Rightarrow> indexed_match \<Rightarrow> 'j memory_store" where
  "insert_match st v = trim_matches (st\<lparr>ms_matches := ms_matches st @ [v]\<rparr>)"

definition store_transaction :: "'j memory_store \<Rightarrow> string \<Rightarrow> 'j indexed_transaction option" where
  "store_transaction st txid = map_of (ms_tx st) txid"

definition store_transactions :: "'j memory_store \<Rightarrow> 'j indexed_transaction list" where
  "store_transactions st = List.map_filter (map_of (ms_tx st)) (ms_tx_order st)"

definition store_blocks :: "'j memory_store \<Rightarrow> 'j indexed_block list" where
  "store_blocks st = List.map_filter (map_of (ms_blocks st)) (ms_block_order st)"

definition store_matches :: "'j memory_store \<Rightarrow> indexed_match list" where
  "store_matches st = ms_matches st"

definition counts :: "'j memory_store \<Rightarrow> nat \<times> nat \<times> nat" where
  "counts st = (length (ms_tx st), length (ms_blocks st), length (ms_matches st))"

definition store_clear :: "'j memory_store \<Rightarrow> 'j memory_store" where
  "store_clear st =
     st\<lparr>ms_tx := [], ms_tx_order := [], ms_blocks := [], ms_block_order := [], ms_matches := [],
        ms_pending_evictions := []\<rparr>"

definition store_snapshot :: "'j memory_store \<Rightarrow> 'j indexer_snapshot" where
  "store_snapshot st =
     \<lparr>sn_transactions = store_transactions st, sn_blocks = store_blocks st, sn_matches = store_matches st\<rparr>"

definition store_restore :: "indexer_config \<Rightarrow> 'j indexer_snapshot \<Rightarrow> 'j memory_store" where
  "store_restore config snapshot =
     (let st = ms_new config;
          st = foldl (\<lambda>st v. snd (insert_transaction st v)) st (sn_transactions snapshot);
          st = foldl (\<lambda>st v. snd (insert_block st v)) st (sn_blocks snapshot);
          st = foldl insert_match st (sn_matches snapshot)
      in st\<lparr>ms_pending_evictions := []\<rparr>)"

definition remove_matches_for_transactions :: "indexed_match list \<Rightarrow> string list \<Rightarrow> indexed_match list" where
  "remove_matches_for_transactions ms ids =
     (if ids = [] then ms else filter (\<lambda>v. im_txid v \<notin> set ids) ms)"

text \<open>
  The expiry loop looks at the oldest id until it meets one that is not expired; an id without a
  transaction is dropped. It recurses on the order queue and returns the rest of it, the remaining map
  and the expired ids.
\<close>

fun purge_loop ::
  "u64 \<Rightarrow> u64 \<Rightarrow> (string \<times> 'j indexed_transaction) list \<Rightarrow> string list
     \<Rightarrow> (string \<times> 'j indexed_transaction) list \<times> string list \<times> string list" where
  "purge_loop ttl now_ms tx [] = (tx, [], [])"
| "purge_loop ttl now_ms tx (key # order) =
     (case map_of tx key of
        None \<Rightarrow> purge_loop ttl now_ms tx order
      | Some t \<Rightarrow>
          if saturating_sub now_ms (it_observed_at_ms t) \<le> ttl then (tx, key # order, [])
          else let (tx', order', expired) = purge_loop ttl now_ms (AList.delete key tx) order
               in (tx', order', key # expired))"

definition store_purge_expired :: "'j memory_store \<Rightarrow> u64 \<Rightarrow> string list \<times> 'j memory_store" where
  "store_purge_expired st now_ms =
     (let ttl = ic_transaction_ttl_ms (ms_config st) in
      if ttl = 0 then ([], st)
      else let (tx, order, expired) = purge_loop ttl now_ms (ms_tx st) (ms_tx_order st)
           in (expired, st\<lparr>ms_tx := tx, ms_tx_order := order,
                           ms_matches := remove_matches_for_transactions (ms_matches st) expired\<rparr>))"

definition remove_chain_blocks :: "'j memory_store \<Rightarrow> string set \<Rightarrow> (nat \<times> nat \<times> nat) \<times> 'j memory_store" where
  "remove_chain_blocks st removed_hashes =
     (if removed_hashes = {} then ((0, 0, 0), st)
      else
      let before_blocks = length (ms_blocks st); before_transactions = length (ms_tx st);
          before_matches = length (ms_matches st);
          blocks = filter (\<lambda>(hash, _). hash \<notin> removed_hashes) (ms_blocks st);
          block_order = filter (\<lambda>hash. hash \<notin> removed_hashes) (ms_block_order st);
          removed_txids = set (map fst (filter
            (\<lambda>(txid, t). case it_block_hash t of None \<Rightarrow> False | Some hash \<Rightarrow> hash \<in> removed_hashes) (ms_tx st)));
          tx = filter (\<lambda>(txid, _). txid \<notin> removed_txids) (ms_tx st);
          tx_order = filter (\<lambda>txid. txid \<notin> removed_txids) (ms_tx_order st);
          matches = filter (\<lambda>m. im_txid m \<notin> removed_txids) (ms_matches st)
      in ((before_blocks - length blocks, before_transactions - length tx, before_matches - length matches),
          st\<lparr>ms_blocks := blocks, ms_block_order := block_order, ms_tx := tx, ms_tx_order := tx_order,
             ms_matches := matches\<rparr>))"

definition store_max_query_page :: "'j memory_store \<Rightarrow> nat" where
  "store_max_query_page st = ic_max_query_page (ms_config st)"

definition take_evictions :: "'j memory_store \<Rightarrow> store_eviction list \<times> 'j memory_store" where
  "take_evictions st = (ms_pending_evictions st, st\<lparr>ms_pending_evictions := []\<rparr>)"

section \<open>Persisted state\<close>

definition INDEXER_STATE_SCHEMA :: u32 where "INDEXER_STATE_SCHEMA = 1"

record 'j persisted_state =
  ps_schema :: u32
  ps_snapshot :: "'j indexer_snapshot"
  ps_checkpoint :: sync_checkpoint
  ps_matchers :: "matcher list"

definition persisted_new :: "'j indexer_snapshot \<Rightarrow> sync_checkpoint \<Rightarrow> matcher list \<Rightarrow> 'j persisted_state" where
  "persisted_new snapshot checkpoint ms =
     \<lparr>ps_schema = INDEXER_STATE_SCHEMA, ps_snapshot = snapshot, ps_checkpoint = checkpoint, ps_matchers = ms\<rparr>"

text \<open>The text of \<open>Error::Storage\<close>, as its \<open>Display\<close> prints it.\<close>

definition validate_schema :: "'j persisted_state \<Rightarrow> string + unit" where
  "validate_schema ps =
     (if ps_schema ps = INDEXER_STATE_SCHEMA then Ok ()
      else Err (''storage error: unsupported indexer state schema '' @ dec_string (unat (ps_schema ps))
                @ '' (expected '' @ dec_string (unat INDEXER_STATE_SCHEMA) @ '')''))"

section \<open>The window of recent keys\<close>

definition rk_inv :: "recent_keys \<Rightarrow> bool" where
  "rk_inv rk \<longleftrightarrow> distinct (rk_order rk) \<and> rk_set rk = set (rk_order rk) \<and> length (rk_order rk) \<le> rk_capacity rk"

lemma rk_trim_eq:
  "distinct (rk_order rk) \<Longrightarrow> rk_set rk = set (rk_order rk) \<Longrightarrow>
   rk_trim rk = rk\<lparr>rk_order := drop (length (rk_order rk) - rk_capacity rk) (rk_order rk),
                   rk_set := set (drop (length (rk_order rk) - rk_capacity rk) (rk_order rk))\<rparr>"
proof (induction rk rule: rk_trim.induct)
  case (1 rk)
  show ?case
  proof (cases "length (rk_order rk) > rk_capacity rk")
    case False
    with "1.prems" show ?thesis by (subst rk_trim.simps) simp
  next
    case True
    then obtain k ks where o: "rk_order rk = k # ks" by (cases "rk_order rk") auto
    have "rk_trim (rk\<lparr>rk_set := rk_set rk - {k}, rk_order := ks\<rparr>) =
        rk\<lparr>rk_order := drop (length ks - rk_capacity rk) ks, rk_set := set (drop (length ks - rk_capacity rk) ks)\<rparr>"
      using "1.IH" [OF True o] "1.prems" o by auto
    with True o show ?thesis by (subst rk_trim.simps) (auto simp: Suc_diff_le)
  qed
qed

lemma rk_observe_eq:
  assumes "rk_inv rk"
  shows "rk_observe rk key =
    (if key \<in> set (rk_order rk) then (False, rk)
     else (True, rk\<lparr>rk_order := drop (Suc (length (rk_order rk)) - rk_capacity rk) (rk_order rk @ [key]),
                   rk_set := set (drop (Suc (length (rk_order rk)) - rk_capacity rk) (rk_order rk @ [key]))\<rparr>))"
  using assms by (auto simp: rk_observe_def rk_inv_def rk_trim_eq)

lemma rk_inv_new [inv_intros]: "rk_inv (rk_new c)"
  by (simp add: rk_inv_def rk_new_def)

lemma rk_inv_clear [inv_intros]: "rk_inv (rk_clear rk)"
  by (simp add: rk_inv_def rk_clear_def)

lemma rk_inv_observe [inv_intros]:
  assumes "rk_inv rk"
  shows "rk_inv (snd (rk_observe rk key))"
proof (cases "key \<in> set (rk_order rk)")
  case False
  then have "distinct (rk_order rk @ [key])" using assms by (simp add: rk_inv_def)
  from distinct_drop [OF this] show ?thesis
    using assms False by (simp add: rk_observe_eq rk_inv_def del: drop_append)
qed (use assms in \<open>simp add: rk_observe_eq\<close>)

lemma rk_capacity_observe [simp]: "rk_inv rk \<Longrightarrow> rk_capacity (snd (rk_observe rk key)) = rk_capacity rk"
  by (simp add: rk_observe_eq)

text \<open>
  What the engine relies on: observing answers whether the key is outside the remembered set, and the key is
  remembered afterwards.
\<close>

locale dedupe_window =
  fixes observe :: "'s \<Rightarrow> string \<Rightarrow> bool \<times> 's" and remembered :: "'s \<Rightarrow> string set" and inv :: "'s \<Rightarrow> bool"
  assumes observe_answer: "inv s \<Longrightarrow> fst (observe s k) \<longleftrightarrow> k \<notin> remembered s"
    and observe_keeps: "inv s \<Longrightarrow> k \<in> remembered (snd (observe s k))"
    and observe_only: "inv s \<Longrightarrow> remembered (snd (observe s k)) \<subseteq> insert k (remembered s)"
    and observe_inv: "inv s \<Longrightarrow> inv (snd (observe s k))"
    and observe_known: "inv s \<Longrightarrow> k \<in> remembered s \<Longrightarrow> snd (observe s k) = s"
begin

lemma second_suppressed: "inv s \<Longrightarrow> observe (snd (observe s k)) k = (False, snd (observe s k))"
  using observe_answer [OF observe_inv, of s k k] observe_keeps [of s k]
    observe_known [OF observe_inv, of s k k] by (metis prod.collapse)

lemma remembered_subset: "inv s \<Longrightarrow> remembered (foldl (\<lambda>s k. snd (observe s k)) s ks) \<subseteq> remembered s \<union> set ks"
proof (induction ks arbitrary: s)
  case (Cons k ks)
  from Cons.IH [OF observe_inv [OF Cons.prems, of k]] observe_only [OF Cons.prems, of k] show ?case by auto
qed simp

lemma fold_inv: "inv s \<Longrightarrow> inv (foldl (\<lambda>s k. snd (observe s k)) s ks)"
  by (induction ks arbitrary: s) (auto simp: observe_inv)

end

interpretation rk: dedupe_window rk_observe rk_set "\<lambda>rk. rk_inv rk \<and> 0 < rk_capacity rk"
proof (unfold_locales, goal_cases)
  case (1 rk k)
  then show ?case by (auto simp: rk_observe_eq rk_inv_def)
next
  case (2 rk k)
  then have "Suc (length (rk_order rk)) - rk_capacity rk \<le> length (rk_order rk)" by (auto simp: rk_inv_def)
  then have "k \<in> set (drop (Suc (length (rk_order rk)) - rk_capacity rk) (rk_order rk @ [k]))" by simp
  with 2 show ?case by (simp add: rk_observe_eq del: drop_append) (simp add: rk_inv_def)
next
  case (3 rk k)
  have "set (drop n (rk_order rk @ [k])) \<subseteq> insert k (set (rk_order rk))" for n
    using set_drop_subset [of n "rk_order rk @ [k]"] by simp
  with 3 show ?case by (simp add: rk_observe_eq rk_inv_def del: drop_append) blast
next
  case (4 rk k)
  then show ?case by (simp add: inv_intros)
next
  case (5 rk k)
  then show ?case by (simp add: rk_observe_eq rk_inv_def)
qed

text \<open>A key that was new stays remembered while fewer than \<open>capacity\<close> further keys are observed.\<close>

definition near_end :: "nat \<Rightarrow> string \<Rightarrow> recent_keys \<Rightarrow> bool" where
  "near_end j k rk \<longleftrightarrow> (\<exists>pre suf. rk_order rk = pre @ k # suf \<and> length suf \<le> j)"

lemma near_end_observe:
  assumes "rk_inv rk" "near_end j k rk" "Suc j < rk_capacity rk"
  shows "near_end (Suc j) k (snd (rk_observe rk k'))"
proof -
  obtain pre suf where o: "rk_order rk = pre @ k # suf" "length suf \<le> j" using assms(2) by (auto simp: near_end_def)
  show ?thesis
  proof (cases "k' \<in> set (rk_order rk)")
    case True
    with assms(1) have "snd (rk_observe rk k') = rk" by (simp add: rk_observe_eq)
    with o show ?thesis unfolding near_end_def by (metis le_SucI)
  next
    case False
    let ?n = "Suc (length (rk_order rk)) - rk_capacity rk"
    have "?n \<le> length pre" using assms(3) o by simp
    then have "drop ?n (rk_order rk @ [k']) = drop ?n pre @ k # (suf @ [k'])" by (simp add: o)
    with False assms(1) o(2) show ?thesis
      by (simp add: rk_observe_eq near_end_def del: drop_append) force
  qed
qed

lemma near_end_fold:
  "rk_inv rk \<Longrightarrow> near_end j k rk \<Longrightarrow> j + length ks < rk_capacity rk \<Longrightarrow>
   near_end (j + length ks) k (foldl (\<lambda>rk k. snd (rk_observe rk k)) rk ks)"
proof (induction ks arbitrary: rk j)
  case (Cons x xs)
  from Cons.prems have "near_end (Suc j) k (snd (rk_observe rk x))" by (intro near_end_observe) auto
  from Cons.IH [OF rk_inv_observe [OF Cons.prems(1)] this] Cons.prems show ?case by simp
qed simp

lemma near_end_new:
  assumes "rk_inv rk" "0 < rk_capacity rk" "fst (rk_observe rk k)"
  shows "near_end 0 k (snd (rk_observe rk k))"
proof -
  let ?n = "Suc (length (rk_order rk)) - rk_capacity rk"
  have new: "k \<notin> set (rk_order rk)" using assms by (auto simp: rk_observe_eq split: if_splits)
  have "?n \<le> length (rk_order rk)" using assms(1,2) by (auto simp: rk_inv_def)
  then have "drop ?n (rk_order rk @ [k]) = drop ?n (rk_order rk) @ [k]" by simp
  with new assms(1) show ?thesis by (simp add: rk_observe_eq near_end_def del: drop_append)
qed

section \<open>The store invariant\<close>

text \<open>
  The association lists hold their entries in insertion order, as the order queues do, and an entry is
  stored under its own id; the limits of the configuration hold. \<open>covered\<close>: no match names a transaction
  that is not stored.
\<close>

definition store_inv :: "'j memory_store \<Rightarrow> bool" where
  "store_inv st \<longleftrightarrow>
     map fst (ms_tx st) = ms_tx_order st \<and> distinct (ms_tx_order st)
     \<and> (\<forall>(k, t)\<in>set (ms_tx st). it_txid t = k)
     \<and> map fst (ms_blocks st) = ms_block_order st \<and> distinct (ms_block_order st)
     \<and> (\<forall>(k, b)\<in>set (ms_blocks st). ib_hash b = k)
     \<and> length (ms_tx st) \<le> ic_max_transactions (ms_config st)
     \<and> length (ms_blocks st) \<le> ic_max_blocks (ms_config st)
     \<and> length (ms_matches st) \<le> ic_max_matches (ms_config st)"

definition covered :: "'j memory_store \<Rightarrow> bool" where
  "covered st \<longleftrightarrow> (\<forall>m\<in>set (ms_matches st). im_txid m \<in> set (ms_tx_order st))"

lemma alist_delete_notin: "k \<notin> fst ` set al \<Longrightarrow> AList.delete k al = al"
  by (induction al) auto

lemma delete_hd:
  "distinct (map fst ((k, v) # al)) \<Longrightarrow> AList.delete k ((k, v) # al) = al"
  by (simp add: alist_delete_notin)

lemma update_new: "k \<notin> fst ` set al \<Longrightarrow> AList.update k v al = al @ [(k, v)]"
  by (induction al) auto

lemma trim_transactions_eq:
  assumes "map fst (ms_tx st) = ms_tx_order st" "distinct (ms_tx_order st)"
    and "n = length (ms_tx st) - ic_max_transactions (ms_config st)"
  shows "trim_transactions st =
    st\<lparr>ms_tx := drop n (ms_tx st), ms_tx_order := drop n (ms_tx_order st),
       ms_matches := filter (\<lambda>v. im_txid v \<notin> set (take n (ms_tx_order st))) (ms_matches st),
       ms_pending_evictions := ms_pending_evictions st
         @ map (\<lambda>key. \<lparr>se_kind = ''transaction_size'', se_id = key\<rparr>) (take n (ms_tx_order st))\<rparr>"
  using assms
proof (induction n arbitrary: st)
  case 0
  then show ?case by (subst trim_transactions.simps) simp
next
  case (Suc n)
  then have len: "length (ms_tx st) > ic_max_transactions (ms_config st)" by simp
  then obtain k t al where tx: "ms_tx st = (k, t) # al" by (cases "ms_tx st") auto
  then have o: "ms_tx_order st = k # map fst al" using Suc.prems(1) by simp
  have del: "AList.delete k (ms_tx st) = al" using Suc.prems(2) o tx by (simp add: alist_delete_notin)
  let ?st = "st\<lparr>ms_tx_order := map fst al, ms_tx := al, ms_matches := filter (\<lambda>v. im_txid v \<noteq> k) (ms_matches st),
      ms_pending_evictions := ms_pending_evictions st @ [\<lparr>se_kind = ''transaction_size'', se_id = k\<rparr>]\<rparr>"
  have "trim_transactions st = trim_transactions ?st"
    using len o del by (subst trim_transactions.simps) simp
  also have "\<dots> = ?st\<lparr>ms_tx := drop n (ms_tx ?st), ms_tx_order := drop n (ms_tx_order ?st),
       ms_matches := filter (\<lambda>v. im_txid v \<notin> set (take n (ms_tx_order ?st))) (ms_matches ?st),
       ms_pending_evictions := ms_pending_evictions ?st
         @ map (\<lambda>key. \<lparr>se_kind = ''transaction_size'', se_id = key\<rparr>) (take n (ms_tx_order ?st))\<rparr>"
    by (rule Suc.IH) (use Suc.prems o tx in auto)
  finally show ?case by (simp add: o tx)
qed

lemma trim_blocks_eq:
  assumes "map fst (ms_blocks st) = ms_block_order st" "distinct (ms_block_order st)"
    and "n = length (ms_blocks st) - ic_max_blocks (ms_config st)"
  shows "trim_blocks st =
    st\<lparr>ms_blocks := drop n (ms_blocks st), ms_block_order := drop n (ms_block_order st),
       ms_pending_evictions := ms_pending_evictions st
         @ map (\<lambda>key. \<lparr>se_kind = ''block_size'', se_id = key\<rparr>) (take n (ms_block_order st))\<rparr>"
  using assms
proof (induction n arbitrary: st)
  case 0
  then show ?case by (subst trim_blocks.simps) simp
next
  case (Suc n)
  then have len: "length (ms_blocks st) > ic_max_blocks (ms_config st)" by simp
  then obtain k t al where bl: "ms_blocks st = (k, t) # al" by (cases "ms_blocks st") auto
  then have o: "ms_block_order st = k # map fst al" using Suc.prems(1) by simp
  have del: "AList.delete k (ms_blocks st) = al" using Suc.prems(2) o bl by (simp add: alist_delete_notin)
  let ?st = "st\<lparr>ms_block_order := map fst al, ms_blocks := al,
      ms_pending_evictions := ms_pending_evictions st @ [\<lparr>se_kind = ''block_size'', se_id = k\<rparr>]\<rparr>"
  have "trim_blocks st = trim_blocks ?st" using len o del by (subst trim_blocks.simps) simp
  also have "\<dots> = ?st\<lparr>ms_blocks := drop n (ms_blocks ?st), ms_block_order := drop n (ms_block_order ?st),
       ms_pending_evictions := ms_pending_evictions ?st
         @ map (\<lambda>key. \<lparr>se_kind = ''block_size'', se_id = key\<rparr>) (take n (ms_block_order ?st))\<rparr>"
    by (rule Suc.IH) (use Suc.prems o bl in auto)
  finally show ?case by (simp add: o bl)
qed

definition match_eviction :: "indexed_match \<Rightarrow> store_eviction" where
  "match_eviction v = \<lparr>se_kind = ''match_size'', se_id = dec_string (unat (im_matcher_id v)) @ '':'' @ im_txid v\<rparr>"

lemma trim_matches_eq:
  assumes "n = length (ms_matches st) - ic_max_matches (ms_config st)"
  shows "trim_matches st =
    st\<lparr>ms_matches := drop n (ms_matches st),
       ms_pending_evictions := ms_pending_evictions st @ map match_eviction (take n (ms_matches st))\<rparr>"
  using assms
proof (induction n arbitrary: st)
  case 0
  then show ?case by (subst trim_matches.simps) simp
next
  case (Suc n)
  then have len: "length (ms_matches st) > ic_max_matches (ms_config st)" by simp
  then obtain m ms where m: "ms_matches st = m # ms" by (cases "ms_matches st") auto
  let ?st = "st\<lparr>ms_matches := ms, ms_pending_evictions := ms_pending_evictions st @ [match_eviction m]\<rparr>"
  have "trim_matches st = trim_matches ?st"
    using len m by (subst trim_matches.simps) (simp add: match_eviction_def)
  also have "\<dots> = ?st\<lparr>ms_matches := drop n (ms_matches ?st),
       ms_pending_evictions := ms_pending_evictions ?st @ map match_eviction (take n (ms_matches ?st))\<rparr>"
    by (rule Suc.IH) (use Suc.prems m in auto)
  finally show ?case by (simp add: m)
qed

lemma map_of_None_keys: "map_of al k = None \<longleftrightarrow> k \<notin> fst ` set al"
  by (rule map_of_eq_None_iff)

text \<open>Inserting a new transaction appends it and drops the oldest when the store is full.\<close>

definition tx_overflow :: "'j memory_store \<Rightarrow> nat" where
  "tx_overflow st = Suc (length (ms_tx st)) - ic_max_transactions (ms_config st)"

lemma store_inv_order: "store_inv st \<Longrightarrow> set (ms_tx_order st) = fst ` set (ms_tx st)"
  by (simp add: store_inv_def flip: set_map)

lemma insert_transaction_eq:
  assumes "store_inv st"
  shows "insert_transaction st v =
    (if it_txid v \<in> set (ms_tx_order st) then (False, st)
     else (True, st\<lparr>ms_tx := drop (tx_overflow st) (ms_tx st @ [(it_txid v, v)]),
        ms_tx_order := drop (tx_overflow st) (ms_tx_order st @ [it_txid v]),
        ms_matches := filter (\<lambda>m. im_txid m \<notin> set (take (tx_overflow st) (ms_tx_order st @ [it_txid v]))) (ms_matches st),
        ms_pending_evictions := ms_pending_evictions st
          @ map (\<lambda>key. \<lparr>se_kind = ''transaction_size'', se_id = key\<rparr>) (take (tx_overflow st) (ms_tx_order st @ [it_txid v]))\<rparr>))"
proof (cases "it_txid v \<in> set (ms_tx_order st)")
  case True
  then show ?thesis
    using store_inv_order [OF assms] by (simp add: insert_transaction_def map_of_None_keys)
next
  case False
  then have new: "it_txid v \<notin> fst ` set (ms_tx st)" using store_inv_order [OF assms] by simp
  then have n: "map_of (ms_tx st) (it_txid v) = None" by (simp add: map_of_None_keys)
  let ?st = "st\<lparr>ms_tx := ms_tx st @ [(it_txid v, v)], ms_tx_order := ms_tx_order st @ [it_txid v]\<rparr>"
  have "trim_transactions ?st =
    ?st\<lparr>ms_tx := drop (tx_overflow st) (ms_tx ?st), ms_tx_order := drop (tx_overflow st) (ms_tx_order ?st),
       ms_matches := filter (\<lambda>v. im_txid v \<notin> set (take (tx_overflow st) (ms_tx_order ?st))) (ms_matches ?st),
       ms_pending_evictions := ms_pending_evictions ?st
         @ map (\<lambda>key. \<lparr>se_kind = ''transaction_size'', se_id = key\<rparr>) (take (tx_overflow st) (ms_tx_order ?st))\<rparr>"
    by (rule trim_transactions_eq) (use assms False in \<open>auto simp: store_inv_def tx_overflow_def\<close>)
  with False n new show ?thesis by (simp add: insert_transaction_def update_new Let_def)
qed

lemma insert_match_eq:
  "insert_match st v =
    (let n = Suc (length (ms_matches st)) - ic_max_matches (ms_config st) in
     st\<lparr>ms_matches := drop n (ms_matches st @ [v]),
        ms_pending_evictions := ms_pending_evictions st @ map match_eviction (take n (ms_matches st @ [v]))\<rparr>)"
  by (simp add: insert_match_def trim_matches_eq [OF refl] Let_def)

lemma insert_block_eq:
  assumes "store_inv st"
  shows "insert_block st v =
    (if ib_hash v \<in> set (ms_block_order st) then (False, st)
     else let n = Suc (length (ms_blocks st)) - ic_max_blocks (ms_config st) in
       (True, st\<lparr>ms_blocks := drop n (ms_blocks st @ [(ib_hash v, v)]),
        ms_block_order := drop n (ms_block_order st @ [ib_hash v]),
        ms_pending_evictions := ms_pending_evictions st
          @ map (\<lambda>key. \<lparr>se_kind = ''block_size'', se_id = key\<rparr>) (take n (ms_block_order st @ [ib_hash v]))\<rparr>))"
proof -
  have keys: "set (ms_block_order st) = fst ` set (ms_blocks st)"
    using assms by (simp add: store_inv_def flip: set_map)
  show ?thesis
  proof (cases "ib_hash v \<in> set (ms_block_order st)")
    case True
    then show ?thesis using keys by (simp add: insert_block_def map_of_None_keys Let_def)
  next
    case False
    then have new: "ib_hash v \<notin> fst ` set (ms_blocks st)" using keys by simp
    then have n: "map_of (ms_blocks st) (ib_hash v) = None" by (simp add: map_of_None_keys)
    let ?st = "st\<lparr>ms_block_order := ms_block_order st @ [ib_hash v], ms_blocks := ms_blocks st @ [(ib_hash v, v)]\<rparr>"
    have "trim_blocks ?st =
      ?st\<lparr>ms_blocks := drop (Suc (length (ms_blocks st)) - ic_max_blocks (ms_config st)) (ms_blocks ?st),
         ms_block_order := drop (Suc (length (ms_blocks st)) - ic_max_blocks (ms_config st)) (ms_block_order ?st),
         ms_pending_evictions := ms_pending_evictions ?st
          @ map (\<lambda>key. \<lparr>se_kind = ''block_size'', se_id = key\<rparr>)
              (take (Suc (length (ms_blocks st)) - ic_max_blocks (ms_config st)) (ms_block_order ?st))\<rparr>"
      by (rule trim_blocks_eq) (use assms False in \<open>auto simp: store_inv_def\<close>)
    with False n new show ?thesis by (simp add: insert_block_def update_new Let_def)
  qed
qed

lemma ball_drop: "\<forall>x\<in>set xs. P x \<Longrightarrow> \<forall>x\<in>set (drop n xs). P x"
  by (meson in_set_dropD)

lemma config_insert [simp]:
  "store_inv st \<Longrightarrow> ms_config (snd (insert_transaction st v)) = ms_config st"
  "store_inv st \<Longrightarrow> ms_config (snd (insert_block st b)) = ms_config st"
  "ms_config (insert_match st m) = ms_config st"
  by (simp_all add: insert_transaction_eq insert_block_eq insert_match_eq Let_def)

lemma store_inv_new [inv_intros]: "store_inv (ms_new config)"
  by (simp add: store_inv_def ms_new_def)

lemma store_inv_clear [inv_intros]: "store_inv (store_clear st)"
  by (simp add: store_inv_def store_clear_def)

lemma aligned_drop:
  assumes "map fst al = order" "distinct (order @ [k])"
  shows "map fst (drop n (al @ [(k, v)])) = drop n (order @ [k])" "distinct (drop n (order @ [k]))"
  using assms(1) distinct_drop [OF assms(2)] by (simp_all flip: drop_map del: drop_append)

lemma length_filter_bound: "length xs \<le> n \<Longrightarrow> length (filter P xs) \<le> n"
  by (rule order_trans [OF length_filter_le])

lemma store_inv_insert_transaction [inv_intros]:
  assumes inv: "store_inv st"
  shows "store_inv (snd (insert_transaction st v))"
proof (cases "it_txid v \<in> set (ms_tx_order st)")
  case False
  let ?n = "tx_overflow st"
  have "\<forall>(k, t)\<in>set (ms_tx st @ [(it_txid v, v)]). it_txid t = k" using inv by (auto simp: store_inv_def)
  then have own: "\<forall>(k, t)\<in>set (drop ?n (ms_tx st @ [(it_txid v, v)])). it_txid t = k" by (rule ball_drop)
  have al: "map fst (drop ?n (ms_tx st @ [(it_txid v, v)])) = drop ?n (ms_tx_order st @ [it_txid v])"
    "distinct (drop ?n (ms_tx_order st @ [it_txid v]))"
    using inv False by (auto intro!: aligned_drop simp: store_inv_def simp del: drop_append)
  have "length (drop ?n (ms_tx st @ [(it_txid v, v)])) \<le> ic_max_transactions (ms_config st)"
    by (simp add: tx_overflow_def)
  moreover have "length (filter P (ms_matches st)) \<le> ic_max_matches (ms_config st)" for P
    using inv by (simp add: store_inv_def length_filter_bound)
  ultimately show ?thesis
    using inv False own al by (simp add: insert_transaction_eq del: drop_append length_drop) (simp add: store_inv_def del: drop_append length_drop)
qed (use inv in \<open>simp add: insert_transaction_eq\<close>)

lemma store_inv_insert_block [inv_intros]:
  assumes inv: "store_inv st"
  shows "store_inv (snd (insert_block st v))"
proof (cases "ib_hash v \<in> set (ms_block_order st)")
  case False
  let ?n = "Suc (length (ms_blocks st)) - ic_max_blocks (ms_config st)"
  have "\<forall>(k, t)\<in>set (ms_blocks st @ [(ib_hash v, v)]). ib_hash t = k" using inv by (auto simp: store_inv_def)
  then have own: "\<forall>(k, t)\<in>set (drop ?n (ms_blocks st @ [(ib_hash v, v)])). ib_hash t = k" by (rule ball_drop)
  have al: "map fst (drop ?n (ms_blocks st @ [(ib_hash v, v)])) = drop ?n (ms_block_order st @ [ib_hash v])"
    "distinct (drop ?n (ms_block_order st @ [ib_hash v]))"
    using inv False by (auto intro!: aligned_drop simp: store_inv_def simp del: drop_append)
  have "length (drop ?n (ms_blocks st @ [(ib_hash v, v)])) \<le> ic_max_blocks (ms_config st)" by simp
  with inv False own al show ?thesis
    by (simp add: insert_block_eq Let_def del: drop_append length_drop) (simp add: store_inv_def del: drop_append length_drop)
qed (use inv in \<open>simp add: insert_block_eq\<close>)

lemma store_inv_insert_match [inv_intros]: "store_inv st \<Longrightarrow> store_inv (insert_match st v)"
  by (auto simp: insert_match_eq store_inv_def Let_def)

lemma store_inv_evictions [inv_intros]: "store_inv st \<Longrightarrow> store_inv (st\<lparr>ms_pending_evictions := es\<rparr>)"
  by (simp add: store_inv_def)

lemma store_inv_restore [inv_intros]: "store_inv (store_restore config snapshot)"
proof -
  have 1: "store_inv (foldl (\<lambda>st v. snd (insert_transaction st v)) st xs)" if "store_inv st" for st :: "'a memory_store" and xs
    using that by (induction xs arbitrary: st) (auto intro: store_inv_insert_transaction)
  have 2: "store_inv (foldl (\<lambda>st v. snd (insert_block st v)) st xs)" if "store_inv st" for st :: "'a memory_store" and xs
    using that by (induction xs arbitrary: st) (auto intro: store_inv_insert_block)
  have 3: "store_inv (foldl insert_match st xs)" if "store_inv st" for st :: "'a memory_store" and xs
    using that by (induction xs arbitrary: st) (auto intro: store_inv_insert_match)
  show ?thesis
    unfolding store_restore_def Let_def by (intro store_inv_evictions 1 2 3 store_inv_new)
qed

section \<open>Expiry\<close>

text \<open>On an aligned map the loop drops the longest prefix of expired transactions.\<close>

definition expired_at :: "u64 \<Rightarrow> u64 \<Rightarrow> string \<times> 'j indexed_transaction \<Rightarrow> bool" where
  "expired_at ttl now_ms e \<longleftrightarrow> ttl < saturating_sub now_ms (it_observed_at_ms (snd e))"

lemma purge_loop_eq:
  "distinct (map fst tx) \<Longrightarrow>
   purge_loop ttl now_ms tx (map fst tx) =
     (dropWhile (expired_at ttl now_ms) tx, map fst (dropWhile (expired_at ttl now_ms) tx),
      map fst (takeWhile (expired_at ttl now_ms) tx))"
proof (induction tx)
  case (Cons e tx)
  obtain k t where e: "e = (k, t)" by (cases e)
  with Cons show ?case by (auto simp: expired_at_def alist_delete_notin not_le)
qed simp

lemma purge_eq:
  fixes now_ms :: u64
  assumes "store_inv st" and "ic_transaction_ttl_ms (ms_config st) \<noteq> 0"
  defines "p \<equiv> expired_at (ic_transaction_ttl_ms (ms_config st)) now_ms"
  shows "store_purge_expired st now_ms =
    (map fst (takeWhile p (ms_tx st)),
     st\<lparr>ms_tx := dropWhile p (ms_tx st), ms_tx_order := map fst (dropWhile p (ms_tx st)),
        ms_matches := filter (\<lambda>m. im_txid m \<notin> set (map fst (takeWhile p (ms_tx st)))) (ms_matches st)\<rparr>)"
proof -
  have "purge_loop (ic_transaction_ttl_ms (ms_config st)) now_ms (ms_tx st) (ms_tx_order st)
      = (dropWhile p (ms_tx st), map fst (dropWhile p (ms_tx st)), map fst (takeWhile p (ms_tx st)))"
    using assms purge_loop_eq [of "ms_tx st"] by (simp add: store_inv_def)
  then show ?thesis
    using assms(2) by (simp add: store_purge_expired_def Let_def remove_matches_for_transactions_def)
qed

lemma purge_ttl_0: "ic_transaction_ttl_ms (ms_config st) = 0 \<Longrightarrow> store_purge_expired st now_ms = ([], st)"
  by (simp add: store_purge_expired_def)

lemma config_purge [simp]: "ms_config (snd (store_purge_expired st now_ms)) = ms_config st"
  by (simp add: store_purge_expired_def Let_def split: prod.splits)

lemma store_inv_purge [inv_intros]:
  assumes "store_inv st"
  shows "store_inv (snd (store_purge_expired st now_ms))"
proof (cases "ic_transaction_ttl_ms (ms_config st) = 0")
  case False
  let ?p = "expired_at (ic_transaction_ttl_ms (ms_config st)) now_ms"
  have split: "ms_tx st = takeWhile ?p (ms_tx st) @ dropWhile ?p (ms_tx st)" by simp
  have "distinct (map fst (dropWhile ?p (ms_tx st)))"
    using assms unfolding store_inv_def by (metis distinct_append map_append split)
  moreover have "length (dropWhile ?p (ms_tx st)) \<le> length (ms_tx st)" by (rule length_dropWhile_le)
  moreover have "set (dropWhile ?p (ms_tx st)) \<subseteq> set (ms_tx st)" using set_dropWhileD by fast
  ultimately show ?thesis
    using assms False unfolding purge_eq [OF assms False] snd_conv
    by (auto simp: store_inv_def intro: order_trans length_filter_bound)
qed (use assms in \<open>simp add: purge_ttl_0\<close>)

lemma covered_purge [inv_intros]:
  assumes inv: "store_inv st" and cov: "covered st"
  shows "covered (snd (store_purge_expired st now_ms))"
proof (cases "ic_transaction_ttl_ms (ms_config st) = 0")
  case False
  let ?p = "expired_at (ic_transaction_ttl_ms (ms_config st)) now_ms"
  have "set (ms_tx_order st) = set (map fst (takeWhile ?p (ms_tx st))) \<union> set (map fst (dropWhile ?p (ms_tx st)))"
    using inv unfolding store_inv_def by (metis map_append set_append takeWhile_dropWhile_id)
  with cov show ?thesis unfolding purge_eq [OF inv False] by (auto simp: covered_def)
qed (use cov in \<open>simp add: purge_ttl_0\<close>)

lemma covered_insert_transaction [inv_intros]:
  assumes "store_inv st" "covered st"
  shows "covered (snd (insert_transaction st v))"
proof (cases "it_txid v \<in> set (ms_tx_order st)")
  case False
  have "set (ms_tx_order st @ [it_txid v]) = set (take (tx_overflow st) (ms_tx_order st @ [it_txid v]))
      \<union> set (drop (tx_overflow st) (ms_tx_order st @ [it_txid v]))"
    by (metis append_take_drop_id set_append)
  with assms False show ?thesis
    by (auto simp: insert_transaction_eq covered_def simp del: drop_append take_append)
qed (use assms in \<open>simp add: insert_transaction_eq\<close>)

lemma covered_insert_block [inv_intros]: "store_inv st \<Longrightarrow> covered st \<Longrightarrow> covered (snd (insert_block st v))"
  by (simp add: insert_block_eq covered_def Let_def)

lemma covered_insert_match [inv_intros]:
  "covered st \<Longrightarrow> im_txid m \<in> set (ms_tx_order st) \<Longrightarrow> covered (insert_match st m)"
  using set_drop_subset [of _ "ms_matches st @ [m]"]
  by (auto simp: insert_match_eq covered_def Let_def simp del: drop_append dest!: in_set_dropD)

lemma inserted_present:
  assumes "store_inv st" "0 < ic_max_transactions (ms_config st)"
  shows "it_txid v \<in> set (ms_tx_order (snd (insert_transaction st v)))"
proof -
  have "length (ms_tx_order st) = length (ms_tx st)" using assms(1) unfolding store_inv_def by (metis length_map)
  then have "tx_overflow st \<le> length (ms_tx_order st)"
    using assms by (auto simp: store_inv_def tx_overflow_def)
  with assms(1) show ?thesis by (simp add: insert_transaction_eq)
qed

section \<open>Chain reorganisations\<close>

definition tx_removed :: "string set \<Rightarrow> string \<times> 'j indexed_transaction \<Rightarrow> bool" where
  "tx_removed removed e \<longleftrightarrow> (case it_block_hash (snd e) of None \<Rightarrow> False | Some hash \<Rightarrow> hash \<in> removed)"

lemma filter_by_key:
  assumes "distinct (map fst al)"
  shows "filter (\<lambda>(k, _). k \<notin> set (map fst (filter P al))) al = filter (\<lambda>e. \<not> P e) al"
proof (rule filter_cong [OF refl])
  fix e assume e: "e \<in> set al"
  have uniq: "e' = e" if "e' \<in> set al" "fst e' = fst e" for e'
    using assms e that by (auto simp: distinct_map inj_on_def)
  have "fst e \<in> fst ` {x \<in> set al. P x} \<longleftrightarrow> P e"
  proof
    assume "fst e \<in> fst ` {x \<in> set al. P x}"
    then obtain e' where "e' \<in> set al" "P e'" "fst e' = fst e" by fastforce
    with uniq show "P e" by blast
  next
    assume "P e"
    with e have "e \<in> {x \<in> set al. P x}" by simp
    then show "fst e \<in> fst ` {x \<in> set al. P x}" by (rule imageI)
  qed
  then show "(case e of (k, _) \<Rightarrow> k \<notin> set (map fst (filter P al))) \<longleftrightarrow> \<not> P e"
    by (simp add: case_prod_unfold)
qed

lemma filter_keys: "filter Q (map fst al) = map fst (filter (\<lambda>(k, _). Q k) al)"
  by (induction al) auto

lemma remove_chain_blocks_eq:
  assumes inv: "store_inv st"
  shows "snd (remove_chain_blocks st removed) =
    st\<lparr>ms_blocks := filter (\<lambda>(hash, _). hash \<notin> removed) (ms_blocks st),
       ms_block_order := filter (\<lambda>hash. hash \<notin> removed) (ms_block_order st),
       ms_tx := filter (\<lambda>e. \<not> tx_removed removed e) (ms_tx st),
       ms_tx_order := map fst (filter (\<lambda>e. \<not> tx_removed removed e) (ms_tx st)),
       ms_matches := filter (\<lambda>m. im_txid m \<notin> fst ` set (filter (tx_removed removed) (ms_tx st))) (ms_matches st)\<rparr>"
proof (cases "removed = {}")
  case True
  have [simp]: "tx_removed {} = (\<lambda>e. False)"
    by (auto simp: tx_removed_def fun_eq_iff split: option.splits)
  have "filter (\<lambda>(hash, _). True) xs = xs" for xs :: "(string \<times> 'a indexed_block) list" by (induction xs) auto
  with True inv show ?thesis by (simp add: remove_chain_blocks_def store_inv_def)
next
  case False
  have d: "distinct (map fst (ms_tx st))" "ms_tx_order st = map fst (ms_tx st)" using inv by (auto simp: store_inv_def)
  have p: "(\<lambda>(txid, t). case it_block_hash t of None \<Rightarrow> False | Some hash \<Rightarrow> hash \<in> removed) = tx_removed removed"
    by (auto simp: tx_removed_def fun_eq_iff)
  note byk = filter_by_key [OF d(1), of "tx_removed removed"]
  show ?thesis
    using False byk
    by (simp add: remove_chain_blocks_def Let_def p d(2) filter_keys)
qed

lemma config_remove_chain [simp]: "ms_config (snd (remove_chain_blocks st removed)) = ms_config st"
  by (simp add: remove_chain_blocks_def Let_def)

lemma store_inv_remove_chain [inv_intros]:
  assumes inv: "store_inv st"
  shows "store_inv (snd (remove_chain_blocks st removed))"
proof -
  have "filter (\<lambda>hash. hash \<notin> removed) (ms_block_order st) = map fst (filter (\<lambda>(hash, _). hash \<notin> removed) (ms_blocks st))"
    using inv filter_keys [of _ "ms_blocks st"] by (simp add: store_inv_def)
  with inv show ?thesis
    unfolding remove_chain_blocks_eq [OF inv]
    by (simp add: store_inv_def length_filter_bound distinct_map_filter)
qed

lemma covered_remove_chain [inv_intros]:
  assumes inv: "store_inv st" and cov: "covered st"
  shows "covered (snd (remove_chain_blocks st removed))"
proof -
  have "set (ms_tx_order st) = fst ` set (ms_tx st)" by (rule store_inv_order [OF inv])
  with cov show ?thesis
    unfolding remove_chain_blocks_eq [OF inv] by (force simp: covered_def)
qed

section \<open>Snapshots\<close>

lemma map_filter_aligned:
  "distinct (map fst al) \<Longrightarrow> List.map_filter (map_of al) (map fst al) = map snd al"
proof (induction al)
  case (Cons e al)
  have "List.map_filter (map_of (e # al)) ks = List.map_filter (map_of al) ks" if "fst e \<notin> set ks" for ks
    using that by (induction ks) (auto simp: List.map_filter_simps split: option.splits)
  with Cons show ?case by (simp add: List.map_filter_simps fun_upd_def)
qed (simp add: List.map_filter_simps)

lemma store_transactions_eq: "store_inv st \<Longrightarrow> store_transactions st = map snd (ms_tx st)"
  using map_filter_aligned [of "ms_tx st"] by (simp add: store_transactions_def store_inv_def)

lemma store_blocks_eq: "store_inv st \<Longrightarrow> store_blocks st = map snd (ms_blocks st)"
  using map_filter_aligned [of "ms_blocks st"] by (simp add: store_blocks_def store_inv_def)

lemma restore_transactions:
  assumes "store_inv st" "distinct (ms_tx_order st @ map fst al)" "\<forall>(k, t)\<in>set al. it_txid t = k"
    and "length (ms_tx st) + length al \<le> ic_max_transactions (ms_config st)"
  shows "foldl (\<lambda>st v. snd (insert_transaction st v)) st (map snd al)
    = st\<lparr>ms_tx := ms_tx st @ al, ms_tx_order := ms_tx_order st @ map fst al\<rparr>"
  using assms
proof (induction al arbitrary: st)
  case (Cons e al)
  obtain k t where e: "e = (k, t)" "it_txid t = k" using Cons.prems(3) by auto
  have "tx_overflow st = 0" using Cons.prems(4) by (simp add: tx_overflow_def)
  then have step: "snd (insert_transaction st t) = st\<lparr>ms_tx := ms_tx st @ [e], ms_tx_order := ms_tx_order st @ [k]\<rparr>"
    using Cons.prems(1,2) e by (simp add: insert_transaction_eq)
  have "foldl (\<lambda>st v. snd (insert_transaction st v)) (snd (insert_transaction st t)) (map snd al) =
      (snd (insert_transaction st t))\<lparr>ms_tx := ms_tx (snd (insert_transaction st t)) @ al,
        ms_tx_order := ms_tx_order (snd (insert_transaction st t)) @ map fst al\<rparr>"
    by (rule Cons.IH [OF store_inv_insert_transaction [OF Cons.prems(1)]])
      (use Cons.prems e step in auto)
  with e step show ?case by simp
qed simp

lemma restore_blocks:
  assumes "store_inv st" "distinct (ms_block_order st @ map fst al)" "\<forall>(k, t)\<in>set al. ib_hash t = k"
    and "length (ms_blocks st) + length al \<le> ic_max_blocks (ms_config st)"
  shows "foldl (\<lambda>st v. snd (insert_block st v)) st (map snd al)
    = st\<lparr>ms_blocks := ms_blocks st @ al, ms_block_order := ms_block_order st @ map fst al\<rparr>"
  using assms
proof (induction al arbitrary: st)
  case (Cons e al)
  obtain k t where e: "e = (k, t)" "ib_hash t = k" using Cons.prems(3) by auto
  have step: "snd (insert_block st t) = st\<lparr>ms_blocks := ms_blocks st @ [e], ms_block_order := ms_block_order st @ [k]\<rparr>"
    using Cons.prems(1,2,4) e by (simp add: insert_block_eq Let_def)
  have "foldl (\<lambda>st v. snd (insert_block st v)) (snd (insert_block st t)) (map snd al) =
      (snd (insert_block st t))\<lparr>ms_blocks := ms_blocks (snd (insert_block st t)) @ al,
        ms_block_order := ms_block_order (snd (insert_block st t)) @ map fst al\<rparr>"
    by (rule Cons.IH [OF store_inv_insert_block [OF Cons.prems(1)]])
      (use Cons.prems e step in auto)
  with e step show ?case by simp
qed simp

lemma restore_matches:
  "length (ms_matches st) + length ms \<le> ic_max_matches (ms_config st) \<Longrightarrow>
   foldl insert_match st ms = st\<lparr>ms_matches := ms_matches st @ ms\<rparr>"
  by (induction ms arbitrary: st) (auto simp: insert_match_eq Let_def)

lemma restore_snapshot_id:
  assumes inv: "store_inv st"
  shows "store_restore (ms_config st) (store_snapshot st) = st\<lparr>ms_pending_evictions := []\<rparr>"
proof -
  let ?c = "ms_config st"
  let ?s1 = "(ms_new ?c)\<lparr>ms_tx := ms_tx st, ms_tx_order := ms_tx_order st\<rparr>"
  let ?s2 = "?s1\<lparr>ms_blocks := ms_blocks st, ms_block_order := ms_block_order st\<rparr>"
  have 1: "foldl (\<lambda>st v. snd (insert_transaction st v)) (ms_new ?c) (map snd (ms_tx st)) = ?s1"
    using restore_transactions [of "ms_new ?c" "ms_tx st"] inv store_inv_new [of ?c]
    by (simp add: store_inv_def ms_new_def)
  have "store_inv ?s1" using inv by (simp add: store_inv_def ms_new_def)
  then have 2: "foldl (\<lambda>st v. snd (insert_block st v)) ?s1 (map snd (ms_blocks st)) = ?s2"
    using restore_blocks [of ?s1 "ms_blocks st"] inv by (simp add: store_inv_def ms_new_def)
  have 3: "foldl insert_match ?s2 (ms_matches st) = ?s2\<lparr>ms_matches := ms_matches st\<rparr>"
    using restore_matches [of ?s2 "ms_matches st"] inv by (simp add: store_inv_def ms_new_def)
  show ?thesis
    using 1 2 3 inv
    by (simp add: store_restore_def store_snapshot_def store_transactions_eq store_blocks_eq store_matches_def Let_def)
      (simp add: ms_new_def)
qed

end
