(* ===== verification/Indexer_Engine.thy ===== *)
theory Indexer_Engine
  imports Indexer_Store
begin

text \<open>
  The indexer engine (\<open>indexer/engine.rs\<close>). Every method takes the engine and returns its result with
  the engine it leaves behind, also when it fails: \<open>(string + 'a) \<times> engine\<close>. \<open>sbind\<close> is the \<open>?\<close> operator
  on such results. \<open>engine_op\<close> has one constructor per method that changes the engine, and
  \<open>apply_op\<close> runs it; reachable engines are those that \<open>engine_new\<close> and sequences of operations produce.
\<close>

section \<open>State\<close>

record 'j engine =
  en_config :: indexer_config
  en_store :: "'j memory_store"
  en_recent_txids :: recent_keys
  en_matchers :: "(u64 \<times> matcher) list"
  en_next_matcher_id :: u64
  en_running :: bool
  en_last_block_at_ms :: "u64 option"
  en_metrics :: indexer_metrics
  en_checkpoint :: sync_checkpoint
  en_events :: "indexer_event list"

definition sbind :: "('e + 'a) \<times> 's \<Rightarrow> ('a \<Rightarrow> 's \<Rightarrow> ('e + 'b) \<times> 's) \<Rightarrow> ('e + 'b) \<times> 's" where
  "sbind m f = (case m of (Inl e, s) \<Rightarrow> (Inl e, s) | (Inr a, s) \<Rightarrow> f a s)"

fun fold_state :: "('b \<Rightarrow> 'a \<Rightarrow> 's \<Rightarrow> ('e + 'b) \<times> 's) \<Rightarrow> 'b \<Rightarrow> 'a list \<Rightarrow> 's \<Rightarrow> ('e + 'b) \<times> 's" where
  "fold_state f acc [] s = (Ok acc, s)"
| "fold_state f acc (x # xs) s = sbind (f acc x s) (\<lambda>acc s. fold_state f acc xs s)"

abbreviation incr :: "u64 \<Rightarrow> u64" where "incr x \<equiv> saturating_add x 1"

section \<open>Validation helpers\<close>

definition validate_transaction :: "indexer_config \<Rightarrow> 'j indexed_transaction \<Rightarrow> string + unit" where
  "validate_transaction config tx =
     (if blank (it_txid tx) then Err ''transaction id cannot be empty''
      else if length (it_payload tx) > ic_max_payload_bytes config
      then Err ''transaction payload exceeds configured bound''
      else if length (it_addresses tx) > ic_max_addresses_per_transaction config
      then Err ''transaction address count exceeds configured bound''
      else if list_ex (\<lambda>address. length address > 256) (it_addresses tx)
      then Err ''indexed address exceeds 256 bytes''
      else Ok ())"

definition validate_snapshot :: "indexer_config \<Rightarrow> 'j indexer_snapshot \<Rightarrow> string + unit" where
  "validate_snapshot config snapshot =
     rbind (try_fold (\<lambda>_ tx. validate_transaction config tx) () (sn_transactions snapshot)) (\<lambda>_.
     if list_ex (\<lambda>block. blank (ib_hash block)) (sn_blocks snapshot)
     then Err ''snapshot contains an empty block hash'' else Ok ())"

definition validate_matchers :: "matcher list \<Rightarrow> string + unit" where
  "validate_matchers ms =
     (if length ms > 4096 then Err ''persisted matcher count exceeds 4096''
      else rbind (try_fold (\<lambda>ids m.
              rbind (rule_validate (mt_rule m)) (\<lambda>_.
              if mt_id m = 0 \<or> mt_id m \<in> ids
              then Err ''persisted matcher ids must be non-zero and unique''
              else Ok (insert (mt_id m) ids))) {} ms) (\<lambda>_. Ok ()))"

definition next_matcher_id :: "(u64 \<times> matcher) list \<Rightarrow> string + u64" where
  "next_matcher_id ms = ok_or (checked_add (foldl max 0 (map fst ms)) 1) ''matcher id exhausted''"

definition scanner_is_healthy :: "bool \<Rightarrow> u64 option \<Rightarrow> u64 \<Rightarrow> u64 \<Rightarrow> bool" where
  "scanner_is_healthy running last_block_at_ms now_ms stale_after_ms =
     (if \<not> running then True
      else case last_block_at_ms of None \<Rightarrow> False | Some l \<Rightarrow> saturating_sub now_ms l \<le> stale_after_ms)"

section \<open>Operations\<close>

definition engine_new :: "indexer_config \<Rightarrow> string + 'j engine" where
  "engine_new config =
     rbind (config_validate config) (\<lambda>_.
     Ok \<lparr>en_config = config, en_store = ms_new config, en_recent_txids = rk_new (ic_dedupe_window config),
         en_matchers = [], en_next_matcher_id = 1, en_running = False, en_last_block_at_ms = None,
         en_metrics = metrics_default, en_checkpoint = checkpoint_default, en_events = []\<rparr>)"

definition start :: "u64 \<Rightarrow> 'j engine \<Rightarrow> 'j engine" where
  "start now_ms e =
     e\<lparr>en_running := True,
       en_last_block_at_ms := (case en_last_block_at_ms e of None \<Rightarrow> Some now_ms | Some l \<Rightarrow> Some l)\<rparr>"

definition stop :: "'j engine \<Rightarrow> 'j engine" where
  "stop e = e\<lparr>en_running := False\<rparr>"

definition add_matcher :: "match_rule \<Rightarrow> 'j engine \<Rightarrow> (string + u64) \<times> 'j engine" where
  "add_matcher rule e =
     (case rule_validate rule of Inl err \<Rightarrow> (Err err, e)
      | Inr _ \<Rightarrow>
          if length (en_matchers e) \<ge> 4096 then (Err ''matcher limit reached'', e)
          else let key = en_next_matcher_id e in
            (case checked_add key 1 of
               None \<Rightarrow> (Err ''matcher id exhausted'', e)
             | Some next \<Rightarrow>
                 (Ok key, e\<lparr>en_next_matcher_id := next,
                            en_matchers := AList.update key \<lparr>mt_id = key, mt_rule = rule\<rparr> (en_matchers e)\<rparr>)))"

definition remove_matcher :: "u64 \<Rightarrow> 'j engine \<Rightarrow> bool \<times> 'j engine" where
  "remove_matcher key e =
     (map_of (en_matchers e) key \<noteq> None, e\<lparr>en_matchers := AList.delete key (en_matchers e)\<rparr>)"

definition purge_expired :: "u64 \<Rightarrow> 'j engine \<Rightarrow> 'j engine" where
  "purge_expired now_ms e =
     (let (ids, store) = store_purge_expired (en_store e) now_ms in
      foldl (\<lambda>e key.
          e\<lparr>en_metrics := (en_metrics e)\<lparr>mx_evictions := incr (mx_evictions (en_metrics e)),
                                        mx_ttl_evictions := incr (mx_ttl_evictions (en_metrics e))\<rparr>,
            en_events := en_events e @ [EvEvicted ''transaction_ttl'' key]\<rparr>)
        (e\<lparr>en_store := store\<rparr>) ids)"

definition retain_transaction :: "'j indexed_transaction \<Rightarrow> bool \<Rightarrow> 'j engine \<Rightarrow> 'j engine" where
  "retain_transaction tx is_match e =
     (if \<not> retains_transaction (ic_mode (en_config e)) is_match then e
      else let (inserted, store) = insert_transaction (en_store e) tx;
               e = e\<lparr>en_store := store\<rparr> in
        if inserted
        then e\<lparr>en_metrics := (en_metrics e)\<lparr>mx_transactions := incr (mx_transactions (en_metrics e))\<rparr>,
               en_events := en_events e @ [EvTransaction (it_txid tx)]\<rparr>
        else e\<lparr>en_metrics := (en_metrics e)
                 \<lparr>mx_duplicate_transactions := incr (mx_duplicate_transactions (en_metrics e))\<rparr>\<rparr>)"

definition publish_matches :: "indexed_match list \<Rightarrow> 'j engine \<Rightarrow> 'j engine" where
  "publish_matches ms e =
     foldl (\<lambda>e item.
         let e = (if retains_matches (ic_mode (en_config e))
                  then e\<lparr>en_store := insert_match (en_store e) item,
                         en_metrics := (en_metrics e)\<lparr>mx_matches := incr (mx_matches (en_metrics e))\<rparr>\<rparr>
                  else e)
         in e\<lparr>en_events := en_events e @ [EvMatch (im_matcher_id item) (im_txid item)]\<rparr>)
       e ms"

definition record_size_evictions :: "'j engine \<Rightarrow> 'j engine" where
  "record_size_evictions e =
     (let (evictions, store) = take_evictions (en_store e) in
      foldl (\<lambda>e ev.
          e\<lparr>en_metrics := (en_metrics e)\<lparr>mx_evictions := incr (mx_evictions (en_metrics e)),
                                        mx_size_evictions := incr (mx_size_evictions (en_metrics e))\<rparr>,
            en_events := en_events e @ [EvEvicted (se_kind ev) (se_id ev)]\<rparr>)
        (e\<lparr>en_store := store\<rparr>) evictions)"

definition ingest_transaction ::
  "(matcher list \<Rightarrow> matcher list) \<Rightarrow> 'j indexed_transaction \<Rightarrow> 'j engine \<Rightarrow> (string + indexed_match list) \<times> 'j engine" where
  "ingest_transaction iter tx e =
     (case validate_transaction (en_config e) tx of
        Inl err \<Rightarrow> (Err err, e\<lparr>en_metrics := (en_metrics e)
                      \<lparr>mx_rejected_records := incr (mx_rejected_records (en_metrics e))\<rparr>\<rparr>)
      | Inr _ \<Rightarrow>
          let e = e\<lparr>en_metrics := (en_metrics e)
                      \<lparr>mx_transactions_observed := incr (mx_transactions_observed (en_metrics e))\<rparr>\<rparr>;
              e = purge_expired (it_observed_at_ms tx) e;
              (fresh_key, recent) = rk_observe (en_recent_txids e) (it_txid tx);
              e = e\<lparr>en_recent_txids := recent\<rparr> in
          if \<not> fresh_key
          then (Ok [], e\<lparr>en_metrics := (en_metrics e)
                  \<lparr>mx_duplicate_transactions := incr (mx_duplicate_transactions (en_metrics e)),
                   mx_cache_hits := incr (mx_cache_hits (en_metrics e))\<rparr>\<rparr>)
          else
          let e = e\<lparr>en_metrics := (en_metrics e)\<lparr>mx_cache_misses := incr (mx_cache_misses (en_metrics e))\<rparr>\<rparr>;
              ms = scan tx (iter (map snd (en_matchers e)));
              is_match = (ms \<noteq> []);
              e = e\<lparr>en_metrics := (en_metrics e)
                      \<lparr>mx_matches_observed :=
                         saturating_add (mx_matches_observed (en_metrics e)) (word_of_nat (length ms))\<rparr>\<rparr>;
              e = retain_transaction tx is_match e;
              e = publish_matches ms e;
              e = record_size_evictions e
          in (Ok ms, e))"

definition ingest_block :: "'j indexed_block \<Rightarrow> 'j engine \<Rightarrow> (string + unit) \<times> 'j engine" where
  "ingest_block block e =
     (if blank (ib_hash block)
      then (Err ''block hash cannot be empty'',
            e\<lparr>en_metrics := (en_metrics e)\<lparr>mx_rejected_records := incr (mx_rejected_records (en_metrics e))\<rparr>\<rparr>)
      else
      let e = e\<lparr>en_metrics := (en_metrics e)\<lparr>mx_blocks_observed := incr (mx_blocks_observed (en_metrics e))\<rparr>\<rparr>;
          e = purge_expired (ib_observed_at_ms block) e;
          e = e\<lparr>en_last_block_at_ms := Some (ib_observed_at_ms block)\<rparr>;
          e = (if retains_blocks (ic_mode (en_config e))
               then let (inserted, store) = insert_block (en_store e) block;
                        e = e\<lparr>en_store := store\<rparr> in
                    if inserted
                    then e\<lparr>en_metrics := (en_metrics e)\<lparr>mx_blocks := incr (mx_blocks (en_metrics e))\<rparr>\<rparr>
                    else e
               else e);
          e = e\<lparr>en_events := en_events e @ [EvBlock (ib_hash block)]\<rparr>;
          e = record_size_evictions e
      in (Ok (), e))"

definition health :: "u64 \<Rightarrow> 'j engine \<Rightarrow> indexer_health" where
  "health now_ms e =
     (let (transaction_count, block_count, match_count) = counts (en_store e) in
      \<lparr>ih_running = en_running e,
       ih_scanner_healthy = scanner_is_healthy (en_running e) (en_last_block_at_ms e) now_ms
         (ic_scanner_stale_after_ms (en_config e)),
       ih_last_block_at_ms = en_last_block_at_ms e,
       ih_transaction_count = transaction_count, ih_block_count = block_count, ih_match_count = match_count,
       ih_matcher_count = length (en_matchers e)\<rparr>)"

definition engine_snapshot :: "'j engine \<Rightarrow> 'j indexer_snapshot" where
  "engine_snapshot e = store_snapshot (en_store e)"

definition set_checkpoint :: "sync_checkpoint \<Rightarrow> 'j engine \<Rightarrow> (string + unit) \<times> 'j engine" where
  "set_checkpoint c e =
     (case checkpoint_validate c of Inl err \<Rightarrow> (Err err, e)
      | Inr _ \<Rightarrow> (Ok (), e\<lparr>en_checkpoint := c,
                           en_events := en_events e @ [EvCheckpoint (sc_virtual_daa_score c) (sc_block_hash c)]\<rparr>))"

definition engine_persisted_state :: "(matcher list \<Rightarrow> matcher list) \<Rightarrow> 'j engine \<Rightarrow> 'j persisted_state" where
  "engine_persisted_state iter e =
     persisted_new (engine_snapshot e) (en_checkpoint e) (sort_key mt_id (iter (map snd (en_matchers e))))"

definition rebuild_recent_txids :: "'j engine \<Rightarrow> 'j engine" where
  "rebuild_recent_txids e =
     e\<lparr>en_recent_txids := foldl (\<lambda>rk tx. snd (rk_observe rk (it_txid tx))) (rk_clear (en_recent_txids e))
                           (store_transactions (en_store e))\<rparr>"

definition rebuild_runtime_state :: "'j engine \<Rightarrow> 'j engine" where
  "rebuild_runtime_state e =
     (let e = rebuild_recent_txids e;
          (transactions, blocks, matches) = counts (en_store e);
          bs = store_blocks (en_store e)
      in e\<lparr>en_metrics := metrics_default\<lparr>mx_transactions := word_of_nat transactions, mx_blocks := word_of_nat blocks,
                                        mx_matches := word_of_nat matches\<rparr>,
           en_last_block_at_ms := (if bs = [] then None else Some (ib_observed_at_ms (last bs)))\<rparr>)"

definition restore_state :: "'j persisted_state \<Rightarrow> 'j engine \<Rightarrow> (string + unit) \<times> 'j engine" where
  "restore_state ps e =
     (case rbind (validate_schema ps) (\<lambda>_.
           rbind (checkpoint_validate (ps_checkpoint ps)) (\<lambda>_.
           rbind (validate_matchers (ps_matchers ps)) (\<lambda>_.
           validate_snapshot (en_config e) (ps_snapshot ps)))) of
        Inl err \<Rightarrow> (Err err, e)
      | Inr _ \<Rightarrow>
          let e = e\<lparr>en_store := store_restore (en_config e) (ps_snapshot ps)\<rparr>;
              e = e\<lparr>en_matchers := foldl (\<lambda>al m. AList.update (mt_id m) m al) [] (ps_matchers ps)\<rparr> in
          (case next_matcher_id (en_matchers e) of
             Inl err \<Rightarrow> (Err err, e)
           | Inr next \<Rightarrow>
               let e = e\<lparr>en_next_matcher_id := next\<rparr>;
                   e = e\<lparr>en_checkpoint := ps_checkpoint ps\<rparr>;
                   e = rebuild_runtime_state e
               in (Ok (), e\<lparr>en_events := []\<rparr>)))"

definition restore_snapshot :: "'j indexer_snapshot \<Rightarrow> 'j engine \<Rightarrow> (string + unit) \<times> 'j engine" where
  "restore_snapshot snapshot e =
     (case validate_snapshot (en_config e) snapshot of Inl err \<Rightarrow> (Err err, e)
      | Inr _ \<Rightarrow> (Ok (), (rebuild_runtime_state (e\<lparr>en_store := store_restore (en_config e) snapshot\<rparr>))\<lparr>en_events := []\<rparr>))"

definition sync_batch ::
  "(matcher list \<Rightarrow> matcher list) \<Rightarrow> u64 \<Rightarrow> 'j block_batch \<Rightarrow> 'j engine \<Rightarrow> (string + u64) \<times> 'j engine" where
  "sync_batch iter matches_added batch e =
     sbind (ingest_block (bb_block batch) e) (\<lambda>_ e.
     fold_state (\<lambda>matches_added tx e.
         sbind (ingest_transaction iter tx e) (\<lambda>ms e. (Ok (saturating_add matches_added (word_of_nat (length ms))), e)))
       matches_added (bb_transactions batch) e)"

definition apply_sync_batches ::
  "(matcher list \<Rightarrow> matcher list) \<Rightarrow> 'j block_batch list \<Rightarrow> sync_checkpoint \<Rightarrow> 'j engine
     \<Rightarrow> (string + sync_report) \<times> 'j engine" where
  "apply_sync_batches iter batches checkpoint e =
     (case checkpoint_validate checkpoint of Inl err \<Rightarrow> (Err err, e)
      | Inr _ \<Rightarrow>
      if length batches > 100000 then (Err ''sync batch count exceeds hard safety bound'', e)
      else
      let (tx0, blocks0, _) = counts (en_store e) in
      sbind (fold_state (sync_batch iter) 0 batches e) (\<lambda>matches_added e.
      let (tx1, blocks1, _) = counts (en_store e) in
      sbind (set_checkpoint checkpoint e) (\<lambda>_ e.
      (Ok \<lparr>sr_transactions_added = word_of_nat (tx1 - tx0), sr_blocks_added = word_of_nat (blocks1 - blocks0),
           sr_matches_added = matches_added, sr_checkpoint = checkpoint\<rparr>, e))))"

definition sat_usize :: "nat \<Rightarrow> nat \<Rightarrow> nat" where
  "sat_usize a b = min (a + b) usize_max"

definition reconcile_batch ::
  "(matcher list \<Rightarrow> matcher list) \<Rightarrow> nat \<times> nat \<times> nat \<Rightarrow> 'j block_batch \<Rightarrow> 'j engine
     \<Rightarrow> (string + nat \<times> nat \<times> nat) \<times> 'j engine" where
  "reconcile_batch iter added batch e =
     (let (added_blocks, added_transactions, added_matches) = added;
          (tx0, blocks0, _) = counts (en_store e) in
      sbind (ingest_block (bb_block batch) e) (\<lambda>_ e.
      sbind (fold_state (\<lambda>added_matches tx e.
          sbind (ingest_transaction iter tx e) (\<lambda>ms e. (Ok (sat_usize added_matches (length ms)), e)))
        added_matches (bb_transactions batch) e) (\<lambda>added_matches e.
      let (tx1, blocks1, _) = counts (en_store e) in
      (Ok (sat_usize added_blocks (blocks1 - blocks0), sat_usize added_transactions (tx1 - tx0), added_matches), e))))"

definition reconcile_virtual_chain ::
  "(matcher list \<Rightarrow> matcher list) \<Rightarrow> 'j virtual_chain_delta \<Rightarrow> 'j engine
     \<Rightarrow> (string + reconciliation_report) \<times> 'j engine" where
  "reconcile_virtual_chain iter delta e =
     (case delta_validate delta of Inl err \<Rightarrow> (Err err, e)
      | Inr _ \<Rightarrow>
      let ((removed_blocks, removed_transactions, removed_matches), store) =
            remove_chain_blocks (en_store e) (set (vd_removed_block_hashes delta));
          e = e\<lparr>en_store := store\<rparr>;
          e = e\<lparr>en_metrics := (en_metrics e)
                 \<lparr>mx_blocks := saturating_sub (mx_blocks (en_metrics e)) (word_of_nat removed_blocks),
                  mx_transactions := saturating_sub (mx_transactions (en_metrics e)) (word_of_nat removed_transactions),
                  mx_matches := saturating_sub (mx_matches (en_metrics e)) (word_of_nat removed_matches)\<rparr>\<rparr>;
          e = rebuild_recent_txids e in
      sbind (fold_state (reconcile_batch iter) (0, 0, 0) (vd_accepted delta) e)
        (\<lambda>(added_blocks, added_transactions, added_matches) e.
      sbind (set_checkpoint (vd_checkpoint delta) e) (\<lambda>_ e.
      let e = e\<lparr>en_events := en_events e @ [EvReconciled removed_blocks added_blocks]\<rparr> in
      (Ok \<lparr>rr_removed_blocks = removed_blocks, rr_removed_transactions = removed_transactions,
           rr_removed_matches = removed_matches, rr_added_blocks = added_blocks,
           rr_added_transactions = added_transactions, rr_added_matches = added_matches,
           rr_checkpoint = vd_checkpoint delta\<rparr>, e))))"

definition drain_events :: "'j engine \<Rightarrow> indexer_event list \<times> 'j engine" where
  "drain_events e = (en_events e, e\<lparr>en_events := []\<rparr>)"

definition engine_clear :: "'j engine \<Rightarrow> 'j engine" where
  "engine_clear e =
     e\<lparr>en_store := store_clear (en_store e), en_recent_txids := rk_clear (en_recent_txids e), en_events := [],
       en_metrics := metrics_default, en_checkpoint := checkpoint_default, en_last_block_at_ms := None\<rparr>"

section \<open>Frames: what the helpers leave alone\<close>

lemma foldl_frame: "(\<And>e x. f (g e x) = f e) \<Longrightarrow> f (foldl g e xs) = f e"
  by (induction xs arbitrary: e) auto

lemma purge_expired_frame [simp]:
  "en_store (purge_expired n e) = snd (store_purge_expired (en_store e) n)"
  "en_config (purge_expired n e) = en_config e"
  "en_recent_txids (purge_expired n e) = en_recent_txids e"
  "en_matchers (purge_expired n e) = en_matchers e"
  "en_next_matcher_id (purge_expired n e) = en_next_matcher_id e"
  "en_checkpoint (purge_expired n e) = en_checkpoint e"
  by (simp_all add: purge_expired_def case_prod_unfold Let_def foldl_frame [where f = en_store]
      foldl_frame [where f = en_config] foldl_frame [where f = en_recent_txids] foldl_frame [where f = en_matchers]
      foldl_frame [where f = en_next_matcher_id] foldl_frame [where f = en_checkpoint])

lemma record_size_evictions_frame [simp]:
  "en_store (record_size_evictions e) = (en_store e)\<lparr>ms_pending_evictions := []\<rparr>"
  "en_config (record_size_evictions e) = en_config e"
  "en_recent_txids (record_size_evictions e) = en_recent_txids e"
  "en_matchers (record_size_evictions e) = en_matchers e"
  "en_next_matcher_id (record_size_evictions e) = en_next_matcher_id e"
  "en_checkpoint (record_size_evictions e) = en_checkpoint e"
  by (simp_all add: record_size_evictions_def take_evictions_def Let_def foldl_frame [where f = en_store]
      foldl_frame [where f = en_config] foldl_frame [where f = en_recent_txids] foldl_frame [where f = en_matchers]
      foldl_frame [where f = en_next_matcher_id] foldl_frame [where f = en_checkpoint])

lemma retain_transaction_frame [simp]:
  "en_store (retain_transaction tx b e) =
     (if retains_transaction (ic_mode (en_config e)) b then snd (insert_transaction (en_store e) tx) else en_store e)"
  "en_config (retain_transaction tx b e) = en_config e"
  "en_recent_txids (retain_transaction tx b e) = en_recent_txids e"
  "en_matchers (retain_transaction tx b e) = en_matchers e"
  "en_next_matcher_id (retain_transaction tx b e) = en_next_matcher_id e"
  "en_checkpoint (retain_transaction tx b e) = en_checkpoint e"
  by (simp_all add: retain_transaction_def case_prod_unfold Let_def)

lemma publish_matches_frame [simp]:
  "en_config (publish_matches ms e) = en_config e"
  "en_recent_txids (publish_matches ms e) = en_recent_txids e"
  "en_matchers (publish_matches ms e) = en_matchers e"
  "en_next_matcher_id (publish_matches ms e) = en_next_matcher_id e"
  "en_checkpoint (publish_matches ms e) = en_checkpoint e"
  by (simp_all add: publish_matches_def Let_def foldl_frame [where f = en_config]
      foldl_frame [where f = en_recent_txids] foldl_frame [where f = en_matchers]
      foldl_frame [where f = en_next_matcher_id] foldl_frame [where f = en_checkpoint])

lemma publish_matches_store [simp]:
  "en_store (publish_matches ms e) =
     (if retains_matches (ic_mode (en_config e)) then foldl insert_match (en_store e) ms else en_store e)"
proof (induction ms arbitrary: e)
  case (Cons m ms)
  then show ?case by (simp add: publish_matches_def)
qed (simp add: publish_matches_def)

section \<open>The engine invariant\<close>

definition matchers_inv :: "(u64 \<times> matcher) list \<Rightarrow> u64 \<Rightarrow> bool" where
  "matchers_inv ms next \<longleftrightarrow>
     distinct (map fst ms) \<and> length ms \<le> 4096 \<and> 0 < next
     \<and> (\<forall>(k, m)\<in>set ms. mt_id m = k \<and> 0 < k \<and> k < next \<and> rule_validate (mt_rule m) = Ok ())"

definition engine_inv :: "'j engine \<Rightarrow> bool" where
  "engine_inv e \<longleftrightarrow>
     store_inv (en_store e) \<and> ms_config (en_store e) = en_config e \<and> ms_pending_evictions (en_store e) = []
     \<and> config_validate (en_config e) = Ok ()
     \<and> rk_inv (en_recent_txids e) \<and> rk_capacity (en_recent_txids e) = ic_dedupe_window (en_config e)
     \<and> matchers_inv (en_matchers e) (en_next_matcher_id e)"

abbreviation engine_covered :: "'j engine \<Rightarrow> bool" where
  "engine_covered e \<equiv> covered (en_store e)"

lemma config_valid_bounds:
  "config_validate c = Ok () \<Longrightarrow>
     0 < ic_max_transactions c \<and> 0 < ic_max_blocks c \<and> 0 < ic_max_matches c \<and> 0 < ic_dedupe_window c
     \<and> ic_max_transactions c \<le> 1000000 \<and> ic_max_blocks c \<le> 100000 \<and> ic_max_matches c \<le> 1000000"
  by (auto simp: config_validate_def validate_limits_def rbind_Inr_iff split: if_splits)

lemma pending_purge [simp]:
  "ms_pending_evictions (snd (store_purge_expired st n)) = ms_pending_evictions st"
  by (simp add: store_purge_expired_def Let_def split: prod.splits)

lemma engine_inv_new: "engine_new config = Ok e \<Longrightarrow> engine_inv e \<and> engine_covered e"
  by (auto simp: engine_new_def rbind_Inr_iff engine_inv_def matchers_inv_def covered_def intro!: inv_intros)
    (auto simp: ms_new_def rk_new_def)

lemma engine_inv_purge [inv_intros]: "engine_inv e \<Longrightarrow> engine_inv (purge_expired n e)"
  by (auto simp: engine_inv_def intro!: inv_intros)

lemma covered_purge_engine: "engine_inv e \<Longrightarrow> engine_covered e \<Longrightarrow> engine_covered (purge_expired n e)"
  by (auto simp: engine_inv_def intro!: inv_intros)

lemma engine_inv_metrics [simp]: "engine_inv (e\<lparr>en_metrics := m\<rparr>) = engine_inv e"
  by (simp add: engine_inv_def)

lemma engine_inv_events [simp]: "engine_inv (e\<lparr>en_events := m\<rparr>) = engine_inv e"
  by (simp add: engine_inv_def)

lemma engine_inv_checkpoint [simp]: "engine_inv (e\<lparr>en_checkpoint := m\<rparr>) = engine_inv e"
  by (simp add: engine_inv_def)

lemma engine_inv_last_block [simp]: "engine_inv (e\<lparr>en_last_block_at_ms := m\<rparr>) = engine_inv e"
  by (simp add: engine_inv_def)

lemma store_inv_insert_matches: "store_inv st \<Longrightarrow> store_inv (foldl insert_match st ms)"
  by (induction ms arbitrary: st) (auto intro: inv_intros)

lemma config_insert_matches [simp]: "ms_config (foldl insert_match st ms) = ms_config st"
  by (rule foldl_frame) simp

lemma order_insert_match [simp]: "ms_tx_order (insert_match st m) = ms_tx_order st"
  by (simp add: insert_match_eq Let_def)

lemma covered_insert_matches:
  "covered st \<Longrightarrow> \<forall>m\<in>set ms. im_txid m \<in> set (ms_tx_order st) \<Longrightarrow> covered (foldl insert_match st ms)"
  by (induction ms arbitrary: st) (simp_all add: covered_insert_match)

lemma covered_pending [simp]: "covered (st\<lparr>ms_pending_evictions := es\<rparr>) = covered st"
  by (simp add: covered_def)

lemma scan_txid: "m \<in> set (scan tx ms) \<Longrightarrow> im_txid m = it_txid tx"
  by (auto simp: scan_def)

text \<open>The store after an accepted, new transaction.\<close>

lemma ingest_transaction_inv [inv_intros]:
  assumes inv: "engine_inv e"
  shows "engine_inv (snd (ingest_transaction iter tx e))"
proof (cases "validate_transaction (en_config e) tx")
  case (Inl err)
  with inv show ?thesis by (simp add: ingest_transaction_def)
next
  case (Inr u)
  define st where "st = snd (store_purge_expired (en_store e) (it_observed_at_ms tx))"
  have st: "store_inv st" "ms_config st = en_config e" "ms_pending_evictions st = []"
    using inv by (auto simp: engine_inv_def st_def intro: inv_intros)
  have ins: "store_inv (snd (insert_transaction st tx))" "ms_config (snd (insert_transaction st tx)) = en_config e"
    using st by (auto intro: inv_intros)
  note ms = store_inv_insert_matches [OF st(1)] store_inv_insert_matches [OF ins(1)]
  from inv st ins show ?thesis
    by (auto simp: ingest_transaction_def Inr Let_def case_prod_unfold engine_inv_def rk_inv_observe
        simp flip: st_def intro!: store_inv_evictions ms)
qed

lemma ingest_transaction_covered [inv_intros]:
  assumes inv: "engine_inv e" and cov: "engine_covered e"
  shows "engine_covered (snd (ingest_transaction iter tx e))"
proof (cases "validate_transaction (en_config e) tx")
  case (Inl err)
  with cov show ?thesis by (simp add: ingest_transaction_def)
next
  case (Inr u)
  define st where "st = snd (store_purge_expired (en_store e) (it_observed_at_ms tx))"
  let ?ms = "scan tx (iter (map snd (en_matchers e)))"
  have st: "store_inv st" "ms_config st = en_config e" "covered st"
    using inv cov by (auto simp: engine_inv_def st_def intro: inv_intros)
  have ins: "covered (snd (insert_transaction st tx))" using st by (auto intro: inv_intros)
  have "it_txid tx \<in> set (ms_tx_order (snd (insert_transaction st tx)))"
    using st inv by (intro inserted_present) (auto simp: engine_inv_def dest: config_valid_bounds)
  then have new: "covered (foldl insert_match (snd (insert_transaction st tx)) ?ms)"
    using ins by (intro covered_insert_matches) (auto dest: scan_txid)
  show ?thesis
  proof (cases "?ms = []")
    case True
    with st ins show ?thesis
      by (simp add: ingest_transaction_def Inr Let_def case_prod_unfold flip: st_def)
  next
    case False
    with st ins new show ?thesis
      by (simp add: ingest_transaction_def Inr Let_def case_prod_unfold retains_transaction_def flip: st_def)
  qed
qed

lemma ingest_block_store:
  "\<not> blank (ib_hash b) \<Longrightarrow> en_store (snd (ingest_block b e)) =
     (let st = snd (store_purge_expired (en_store e) (ib_observed_at_ms b)) in
      (if retains_blocks (ic_mode (en_config e)) then snd (insert_block st b) else st)\<lparr>ms_pending_evictions := []\<rparr>)"
  by (simp add: ingest_block_def Let_def case_prod_unfold)

lemma ingest_block_frame [simp]:
  "en_config (snd (ingest_block b e)) = en_config e"
  "en_recent_txids (snd (ingest_block b e)) = en_recent_txids e"
  "en_matchers (snd (ingest_block b e)) = en_matchers e"
  "en_next_matcher_id (snd (ingest_block b e)) = en_next_matcher_id e"
  by (simp_all add: ingest_block_def Let_def case_prod_unfold)

lemma ingest_block_inv [inv_intros]:
  assumes inv: "engine_inv e"
  shows "engine_inv (snd (ingest_block b e))"
proof (cases "blank (ib_hash b)")
  case True
  with inv show ?thesis by (simp add: ingest_block_def)
next
  case False
  define st where "st = snd (store_purge_expired (en_store e) (ib_observed_at_ms b))"
  have st: "store_inv st" "ms_config st = en_config e" "ms_pending_evictions st = []"
    using inv by (auto simp: engine_inv_def st_def intro: inv_intros)
  with inv show ?thesis
    by (auto simp: engine_inv_def ingest_block_store [OF False] Let_def simp flip: st_def
        intro!: store_inv_evictions store_inv_insert_block)
qed

lemma ingest_block_covered [inv_intros]:
  assumes "engine_inv e" "engine_covered e"
  shows "engine_covered (snd (ingest_block b e))"
proof (cases "blank (ib_hash b)")
  case True
  with assms show ?thesis by (simp add: ingest_block_def)
next
  case False
  have "store_inv (en_store e)" using assms by (simp add: engine_inv_def)
  then show ?thesis
    using assms by (auto simp: ingest_block_store [OF False] Let_def intro!: inv_intros)
qed

section \<open>Composite operations\<close>

text \<open>\<open>leaves P m\<close>: the engine that the result \<open>m\<close> leaves behind satisfies \<open>P\<close>.\<close>

definition leaves :: "('s \<Rightarrow> bool) \<Rightarrow> ('e + 'a) \<times> 's \<Rightarrow> bool" where
  "leaves P m \<longleftrightarrow> P (snd m)"

lemma leaves_pair: "P s \<Longrightarrow> leaves P (r, s)"
  by (simp add: leaves_def)

lemma leaves_sbind: "leaves P m \<Longrightarrow> (\<And>a s. P s \<Longrightarrow> leaves P (f a s)) \<Longrightarrow> leaves P (sbind m f)"
  by (auto simp: leaves_def sbind_def split: prod.splits sum.splits)

lemma leaves_fold:
  "P s \<Longrightarrow> (\<And>acc x s. P s \<Longrightarrow> leaves P (f acc x s)) \<Longrightarrow> leaves P (fold_state f acc xs s)"
proof (induction xs arbitrary: acc s)
  case Nil
  then show ?case by (simp add: leaves_pair)
next
  case (Cons x xs)
  have "leaves P (f acc x s)" using Cons.prems by blast
  then show ?case
    unfolding fold_state.simps by (rule leaves_sbind) (use Cons in blast)
qed

text \<open>An invariant that the two ingest operations and the checkpoint keep.\<close>

definition ingest_keeps :: "('j engine \<Rightarrow> bool) \<Rightarrow> (matcher list \<Rightarrow> matcher list) \<Rightarrow> bool" where
  "ingest_keeps P iter \<longleftrightarrow>
     (\<forall>e tx. P e \<longrightarrow> leaves P (ingest_transaction iter tx e)) \<and> (\<forall>e b. P e \<longrightarrow> leaves P (ingest_block b e))
     \<and> (\<forall>e c. P e \<longrightarrow> leaves P (set_checkpoint c e)) \<and> (\<forall>e evs. P e \<longrightarrow> P (e\<lparr>en_events := evs\<rparr>))"

definition engine_safe :: "'j engine \<Rightarrow> bool" where
  "engine_safe e \<longleftrightarrow> engine_inv e \<and> engine_covered e"

lemma set_checkpoint_pres [inv_intros]:
  "engine_inv e \<Longrightarrow> engine_inv (snd (set_checkpoint c e))"
  "engine_safe e \<Longrightarrow> engine_safe (snd (set_checkpoint c e))"
  by (auto simp: set_checkpoint_def engine_safe_def split: sum.splits)

lemma ingest_keeps_inv: "ingest_keeps engine_inv iter"
  by (auto simp: ingest_keeps_def leaves_def intro: inv_intros)

lemma ingest_keeps_safe: "ingest_keeps engine_safe iter"
  unfolding ingest_keeps_def leaves_def engine_safe_def
  by (auto intro: inv_intros) (auto simp: set_checkpoint_def split: sum.splits)

lemma ingest_keepsD:
  assumes "ingest_keeps P iter" "P e"
  shows "leaves P (ingest_transaction iter tx e)" "leaves P (ingest_block b e)" "leaves P (set_checkpoint c e)"
    "P (e\<lparr>en_events := evs\<rparr>)"
  using assms unfolding ingest_keeps_def by blast+

lemma leaves_sync_batch:
  assumes k: "ingest_keeps P iter" and "P e"
  shows "leaves P (sync_batch iter n batch e)"
  unfolding sync_batch_def
  by (intro leaves_sbind leaves_fold leaves_pair ingest_keepsD [OF k] assms)

lemma leaves_reconcile_batch:
  assumes k: "ingest_keeps P iter" and "P e"
  shows "leaves P (reconcile_batch iter t batch e)"
  unfolding reconcile_batch_def Let_def case_prod_unfold
  by (intro leaves_sbind leaves_fold leaves_pair ingest_keepsD [OF k] assms)

lemma leaves_apply_sync:
  assumes k: "ingest_keeps P iter" and "P e"
  shows "leaves P (apply_sync_batches iter batches c e)"
proof (cases "checkpoint_validate c")
  case (Inl err)
  with assms show ?thesis by (simp add: apply_sync_batches_def leaves_pair)
next
  case (Inr u)
  have "leaves P (sbind (fold_state (sync_batch iter) 0 batches e) (\<lambda>matches_added e'.
      sbind (set_checkpoint c e') (\<lambda>_ e''. (Ok (g matches_added e'), e''))))" for g :: "u64 \<Rightarrow> 'a engine \<Rightarrow> sync_report"
    by (intro leaves_sbind leaves_fold leaves_pair leaves_sync_batch [OF k] ingest_keepsD [OF k] assms)
  with assms(2) show ?thesis by (simp add: apply_sync_batches_def Inr Let_def case_prod_unfold leaves_pair)
qed

lemma rebuild_recent_frame [simp]:
  "en_store (rebuild_recent_txids e) = en_store e"
  "en_config (rebuild_recent_txids e) = en_config e"
  "en_matchers (rebuild_recent_txids e) = en_matchers e"
  "en_next_matcher_id (rebuild_recent_txids e) = en_next_matcher_id e"
  "en_metrics (rebuild_recent_txids e) = en_metrics e"
  "en_checkpoint (rebuild_recent_txids e) = en_checkpoint e"
  by (simp_all add: rebuild_recent_txids_def)

lemma rk_fold_inv:
  "rk_inv rk \<Longrightarrow> rk_inv (foldl (\<lambda>rk tx. snd (rk_observe rk (it_txid tx))) rk txs)
     \<and> rk_capacity (foldl (\<lambda>rk tx. snd (rk_observe rk (it_txid tx))) rk txs) = rk_capacity rk"
  by (induction txs arbitrary: rk) (simp_all add: rk_inv_observe)

lemma rebuild_recent_rk:
  "rk_inv (en_recent_txids (rebuild_recent_txids e))"
  "rk_capacity (en_recent_txids (rebuild_recent_txids e)) = rk_capacity (en_recent_txids e)"
  using rk_fold_inv [OF rk_inv_clear [of "en_recent_txids e"], of "store_transactions (en_store e)"]
  by (simp_all add: rebuild_recent_txids_def rk_clear_def)

lemma rebuild_recent_inv [inv_intros]: "engine_inv e \<Longrightarrow> engine_inv (rebuild_recent_txids e)"
  by (simp add: engine_inv_def rebuild_recent_rk)

lemma remove_chain_inv:
  assumes "engine_inv e"
  shows "engine_inv (e\<lparr>en_store := snd (remove_chain_blocks (en_store e) r)\<rparr>)"
proof -
  have "ms_pending_evictions (snd (remove_chain_blocks (en_store e) r)) = ms_pending_evictions (en_store e)"
    by (simp add: remove_chain_blocks_def Let_def)
  with assms show ?thesis by (auto simp: engine_inv_def intro!: inv_intros)
qed

lemma leaves_reconcile:
  assumes k: "ingest_keeps P iter" and "P e"
    and first: "\<And>m. P (rebuild_recent_txids (e\<lparr>en_store := snd (remove_chain_blocks (en_store e) (set (vd_removed_block_hashes d))),
       en_metrics := m\<rparr>))"
  shows "leaves P (reconcile_virtual_chain iter d e)"
proof (cases "delta_validate d")
  case (Inl err)
  with assms show ?thesis by (simp add: reconcile_virtual_chain_def leaves_pair)
next
  case (Inr u)
  let ?st = "remove_chain_blocks (en_store e) (set (vd_removed_block_hashes d))"
  have "leaves P (sbind (fold_state (reconcile_batch iter) (0, 0, 0) (vd_accepted d)
        (rebuild_recent_txids (e\<lparr>en_store := snd ?st, en_metrics := m\<rparr>))) (\<lambda>t e'.
      sbind (set_checkpoint (vd_checkpoint d) e') (\<lambda>_ e''. (Ok (g t), e''\<lparr>en_events := h t e''\<rparr>))))"
    for m and g :: "nat \<times> nat \<times> nat \<Rightarrow> reconciliation_report" and h
    by (intro leaves_sbind leaves_fold leaves_pair leaves_reconcile_batch [OF k] ingest_keepsD [OF k] first)
  then show ?thesis by (simp add: reconcile_virtual_chain_def Inr Let_def case_prod_unfold)
qed

lemma reconcile_inv [inv_intros]:
  assumes inv: "engine_inv e"
  shows "engine_inv (snd (reconcile_virtual_chain iter d e))"
proof -
  let ?r = "set (vd_removed_block_hashes d)"
  have "engine_inv (rebuild_recent_txids (e\<lparr>en_store := snd (remove_chain_blocks (en_store e) ?r), en_metrics := m\<rparr>))" for m
    using remove_chain_inv [OF inv, of ?r] by (intro rebuild_recent_inv) simp
  then show ?thesis using leaves_reconcile [OF ingest_keeps_inv inv, of d] by (simp add: leaves_def)
qed

lemma reconcile_safe: "engine_safe e \<Longrightarrow> engine_safe (snd (reconcile_virtual_chain iter d e))"
proof -
  assume safe: "engine_safe e"
  let ?r = "set (vd_removed_block_hashes d)"
  have "engine_inv (rebuild_recent_txids (e\<lparr>en_store := snd (remove_chain_blocks (en_store e) ?r), en_metrics := m\<rparr>))" for m
    using safe remove_chain_inv [of e ?r] by (intro rebuild_recent_inv) (simp add: engine_safe_def)
  moreover have "covered (snd (remove_chain_blocks (en_store e) ?r))"
    using safe by (auto simp: engine_safe_def engine_inv_def intro: inv_intros)
  ultimately show ?thesis
    using leaves_reconcile [OF ingest_keeps_safe safe, of d] by (simp add: leaves_def engine_safe_def)
qed

lemma apply_sync_inv [inv_intros]: "engine_inv e \<Longrightarrow> engine_inv (snd (apply_sync_batches iter batches c e))"
  using leaves_apply_sync [OF ingest_keeps_inv] by (simp add: leaves_def)

lemma apply_sync_safe: "engine_safe e \<Longrightarrow> engine_safe (snd (apply_sync_batches iter batches c e))"
  using leaves_apply_sync [OF ingest_keeps_safe] by (simp add: leaves_def)

section \<open>Matchers\<close>

lemma not_max_u64: "(k :: u64) \<noteq> - 1 \<longleftrightarrow> unat k + 1 < 2 ^ 64"
proof -
  have "unat (- 1 :: u64) = 2 ^ 64 - 1" by (simp add: unsigned_minus_1_eq_mask mask_eq_exp_minus_1)
  then have "k = - 1 \<longleftrightarrow> unat k = 2 ^ 64 - 1" by (metis word_unat_eq_iff)
  then show ?thesis using unat_bound [of k] by auto
qed

lemma add_matcher_eq:
  assumes inv: "matchers_inv (en_matchers e) (en_next_matcher_id e)"
  shows "add_matcher rule e =
    (case rule_validate rule of Inl err \<Rightarrow> (Err err, e)
     | Inr _ \<Rightarrow> if length (en_matchers e) \<ge> 4096 then (Err ''matcher limit reached'', e)
       else if en_next_matcher_id e = - 1 then (Err ''matcher id exhausted'', e)
       else (Ok (en_next_matcher_id e), e\<lparr>en_next_matcher_id := en_next_matcher_id e + 1,
          en_matchers := en_matchers e @ [(en_next_matcher_id e, \<lparr>mt_id = en_next_matcher_id e, mt_rule = rule\<rparr>)]\<rparr>))"
proof -
  let ?k = "en_next_matcher_id e"
  have "?k \<notin> fst ` set (en_matchers e)" using inv by (auto simp: matchers_inv_def)
  then have up: "AList.update ?k m (en_matchers e) = en_matchers e @ [(?k, m)]" for m by (rule update_new)
  show ?thesis
    using not_max_u64 [of ?k] by (auto simp: add_matcher_def Let_def checked_add_def up split: sum.splits)
qed

lemma word_less_Suc: "k \<noteq> - 1 \<Longrightarrow> (x :: u64) < k + 1 \<longleftrightarrow> x \<le> k"
  unfolding not_max_u64 word_less_nat_alt word_le_nat_alt by (simp add: unat_word_ariths less_Suc_eq_le)

lemma add_matcher_inv [inv_intros]:
  assumes inv: "engine_inv e"
  shows "engine_inv (snd (add_matcher rule e))"
proof -
  have m: "matchers_inv (en_matchers e) (en_next_matcher_id e)" using inv by (simp add: engine_inv_def)
  have new: "matchers_inv (en_matchers e @ [(en_next_matcher_id e, \<lparr>mt_id = en_next_matcher_id e, mt_rule = rule\<rparr>)])
      (en_next_matcher_id e + 1)"
    if "en_next_matcher_id e \<noteq> - 1" "rule_validate rule = Ok ()" "length (en_matchers e) < 4096"
    using m that by (fastforce simp: matchers_inv_def word_less_Suc)
  with inv show ?thesis
    by (auto simp: add_matcher_eq [OF m] engine_inv_def split: sum.splits)
qed

lemma alist_delete_set: "set (AList.delete k al) \<subseteq> set al" "length (AList.delete k al) \<le> length al"
  "distinct (map fst al) \<Longrightarrow> distinct (map fst (AList.delete k al))"
  by (auto simp: AList.delete_eq distinct_map_filter)

lemma remove_matcher_inv [inv_intros]:
  assumes "engine_inv e"
  shows "engine_inv (snd (remove_matcher key e))"
  using assms alist_delete_set [where k = key and al = "en_matchers e"]
  unfolding engine_inv_def matchers_inv_def remove_matcher_def by (auto intro: order_trans)

section \<open>Restoring\<close>

lemma validate_matchers_Ok:
  "validate_matchers ms = Ok () \<longleftrightarrow>
     length ms \<le> 4096 \<and> distinct (map mt_id ms) \<and> (\<forall>m\<in>set ms. mt_id m \<noteq> 0 \<and> rule_validate (mt_rule m) = Ok ())"
proof -
  let ?f = "\<lambda>ids m. rbind (rule_validate (mt_rule m)) (\<lambda>_. if mt_id m = 0 \<or> mt_id m \<in> ids
              then Err ''persisted matcher ids must be non-zero and unique'' else Ok (insert (mt_id m) ids))"
  have "(\<exists>ids'. try_fold ?f ids ms = Ok ids') \<longleftrightarrow>
      distinct (map mt_id ms) \<and> (\<forall>m\<in>set ms. mt_id m \<notin> ids \<and> mt_id m \<noteq> 0 \<and> rule_validate (mt_rule m) = Ok ())" for ids
  proof (induction ms arbitrary: ids)
    case (Cons m ms)
    show ?case using Cons.IH [of "insert (mt_id m) ids"]
      by (cases "rule_validate (mt_rule m)") (auto simp: image_iff)
  qed simp
  from this [of "{}"] show ?thesis by (auto simp: validate_matchers_def rbind_Inr_iff)
qed

lemma foldl_update_distinct:
  "distinct (map fst al @ map mt_id ms) \<Longrightarrow>
   foldl (\<lambda>al m. AList.update (mt_id m) m al) al ms = al @ map (\<lambda>m. (mt_id m, m)) ms"
proof (induction ms arbitrary: al)
  case (Cons m ms)
  then have "AList.update (mt_id m) m al = al @ [(mt_id m, m)]" by (intro update_new) auto
  with Cons show ?case by simp
qed simp

lemma foldl_max_ge: "(a :: 'a::linorder) \<le> foldl max a xs \<and> (\<forall>x\<in>set xs. x \<le> foldl max a xs)"
proof (induction xs arbitrary: a)
  case (Cons x xs)
  from Cons.IH [of "max a x"] show ?case by auto
qed simp

lemma foldl_max_in: "foldl max a xs \<in> insert (a :: 'a::linorder) (set xs)"
proof (induction xs arbitrary: a)
  case (Cons x xs)
  from Cons.IH [of "max a x"] show ?case by (auto simp: max_def split: if_splits)
qed simp

lemma checked_add_1: "checked_add (k :: u64) 1 = (if k = - 1 then None else Some (k + 1))"
  using not_max_u64 [of k]
  by (cases "k = - 1") (simp_all add: checked_add_def unsigned_minus_1_eq_mask mask_eq_exp_minus_1)

lemma next_matcher_id_Ok:
  "next_matcher_id ms = Ok next \<Longrightarrow> 0 < next \<and> (\<forall>k\<in>fst ` set ms. k < next)"
  using foldl_max_ge [of 0 "map fst ms"]
  by (auto simp: next_matcher_id_def checked_add_1 word_less_Suc ok_or_def split: if_splits option.splits)

lemma next_matcher_id_Err: "next_matcher_id ms = Err err \<Longrightarrow> - 1 \<in> fst ` set ms"
  using foldl_max_in [of 0 "map fst ms"]
  by (auto simp: next_matcher_id_def checked_add_1 ok_or_def split: if_splits option.splits)

lemma rebuild_runtime_frame [simp]:
  "en_store (rebuild_runtime_state e) = en_store e"
  "en_config (rebuild_runtime_state e) = en_config e"
  "en_matchers (rebuild_runtime_state e) = en_matchers e"
  "en_next_matcher_id (rebuild_runtime_state e) = en_next_matcher_id e"
  "en_recent_txids (rebuild_runtime_state e) = en_recent_txids (rebuild_recent_txids e)"
  "en_checkpoint (rebuild_runtime_state e) = en_checkpoint e"
  by (simp_all add: rebuild_runtime_state_def Let_def case_prod_unfold)

lemma restore_config [simp]: "ms_config (store_restore c sn) = c" "ms_pending_evictions (store_restore c sn) = []"
proof -
  have 1: "ms_config (foldl (\<lambda>st v. snd (insert_transaction st v)) st xs) = ms_config st
      \<and> store_inv (foldl (\<lambda>st v. snd (insert_transaction st v)) st xs)" if "store_inv st" for st :: "'a memory_store" and xs
    using that by (induction xs arbitrary: st) (simp_all add: store_inv_insert_transaction)
  have 2: "ms_config (foldl (\<lambda>st v. snd (insert_block st v)) st xs) = ms_config st
      \<and> store_inv (foldl (\<lambda>st v. snd (insert_block st v)) st xs)" if "store_inv st" for st :: "'a memory_store" and xs
    using that by (induction xs arbitrary: st) (simp_all add: store_inv_insert_block)
  show "ms_config (store_restore c sn) = c"
    using 1 [OF store_inv_new [of c], of "sn_transactions sn"] 2
    by (simp add: store_restore_def Let_def) (simp add: ms_new_def)
qed (simp add: store_restore_def Let_def)

lemma restore_state_inv:
  assumes inv: "engine_inv e" and ok: "fst (restore_state ps e) = Ok ()"
  shows "engine_inv (snd (restore_state ps e))"
proof -
  obtain nx where v: "validate_matchers (ps_matchers ps) = Ok ()"
    and nx: "next_matcher_id (foldl (\<lambda>al m. AList.update (mt_id m) m al) [] (ps_matchers ps)) = Ok nx"
    and e': "snd (restore_state ps e) = (rebuild_runtime_state (e\<lparr>en_store := store_restore (en_config e) (ps_snapshot ps),
      en_matchers := foldl (\<lambda>al m. AList.update (mt_id m) m al) [] (ps_matchers ps),
      en_next_matcher_id := nx, en_checkpoint := ps_checkpoint ps\<rparr>))\<lparr>en_events := []\<rparr>"
    using ok by (auto simp: restore_state_def Let_def rbind_Inr_iff rbind_Inl_iff split: sum.splits)
  have al: "foldl (\<lambda>al m. AList.update (mt_id m) m al) [] (ps_matchers ps) = map (\<lambda>m. (mt_id m, m)) (ps_matchers ps)"
    using v foldl_update_distinct [of "[]" "ps_matchers ps"] by (simp add: validate_matchers_Ok)
  have "matchers_inv (map (\<lambda>m. (mt_id m, m)) (ps_matchers ps)) nx"
    using v next_matcher_id_Ok [OF nx [unfolded al]]
    by (auto simp: matchers_inv_def validate_matchers_Ok comp_def word_gt_0)
  then show ?thesis
    using inv unfolding e'
    by (auto simp: engine_inv_def al rebuild_recent_rk intro: store_inv_restore)
qed

lemma restore_snapshot_inv:
  "engine_inv e \<Longrightarrow> engine_inv (snd (restore_snapshot sn e))"
  by (auto simp: restore_snapshot_def engine_inv_def rebuild_recent_rk store_inv_restore split: sum.splits)

end
