(* ===== verification/Indexer_Api.thy ===== *)
theory Indexer_Api
  imports Indexer_Engine
begin

text \<open>
  The public facade of the indexer (\<open>indexer/facade.rs\<close>): the engine behind its mutex, the three ways in
  which a method runs on it (\<open>with\<close>, \<open>with_atomic\<close>, \<open>with_fresh\<close>), and every method. The clock's answer is the
  argument \<open>now\<close>; the durable storage of \<open>IndexerPersistence\<close> is the arguments \<open>load\<close>, \<open>save\<close> and
  \<open>clear_all\<close>. The properties of the whole indexer are here.
\<close>

section \<open>The facade\<close>

datatype error =
    ErrConfig string | ErrNetwork string | ErrChain string | ErrWallet string | ErrTransaction string
  | ErrContract string | ErrPrivacy string | ErrIndexer string | ErrBeacon string | ErrVrf string
  | ErrCrypto string | ErrStorage string | ErrPlatform string

record 'j indexer_api =
  api_inner :: "'j engine"
  api_poisoned :: bool

definition with_clock :: "indexer_config \<Rightarrow> error + 'j indexer_api" where
  "with_clock config =
     rbind (map_err ErrIndexer (engine_new config)) (\<lambda>e. Ok \<lparr>api_inner = e, api_poisoned = False\<rparr>)"

definition with_engine ::
  "('j engine \<Rightarrow> (string + 'a) \<times> 'j engine) \<Rightarrow> 'j indexer_api \<Rightarrow> (error + 'a) \<times> 'j indexer_api" where
  "with_engine action api =
     (if api_poisoned api then (Err (ErrIndexer ''indexer lock poisoned''), api)
      else let (result, e) = action (api_inner api) in (map_err ErrIndexer result, api\<lparr>api_inner := e\<rparr>))"

definition with_atomic ::
  "('j engine \<Rightarrow> (string + 'a) \<times> 'j engine) \<Rightarrow> 'j indexer_api \<Rightarrow> (error + 'a) \<times> 'j indexer_api" where
  "with_atomic action =
     with_engine (\<lambda>e. case action e of (Inl err, staged) \<Rightarrow> (Err err, e) | (Inr a, staged) \<Rightarrow> (Ok a, staged))"

definition with_fresh ::
  "string + u64 \<Rightarrow> ('j engine \<Rightarrow> (string + 'a) \<times> 'j engine) \<Rightarrow> 'j indexer_api \<Rightarrow> (error + 'a) \<times> 'j indexer_api" where
  "with_fresh now action api =
     (case map_err ErrIndexer now of
        Inl err \<Rightarrow> (Err err, api)
      | Inr t \<Rightarrow> with_engine (\<lambda>e. action (purge_expired t e)) api)"

definition api_start :: "string + u64 \<Rightarrow> 'j indexer_api \<Rightarrow> (error + unit) \<times> 'j indexer_api" where
  "api_start now api =
     (case map_err ErrIndexer now of
        Inl err \<Rightarrow> (Err err, api)
      | Inr t \<Rightarrow> with_engine (\<lambda>e. (Ok (), start t e)) api)"

definition api_stop :: "'j indexer_api \<Rightarrow> (error + unit) \<times> 'j indexer_api" where
  "api_stop = with_engine (\<lambda>e. (Ok (), stop e))"

definition api_add_matcher :: "match_rule \<Rightarrow> 'j indexer_api \<Rightarrow> (error + u64) \<times> 'j indexer_api" where
  "api_add_matcher rule = with_engine (add_matcher rule)"

definition watch_address :: "string \<Rightarrow> 'j indexer_api \<Rightarrow> (error + u64) \<times> 'j indexer_api" where
  "watch_address address = api_add_matcher (Address address)"

definition watch_payload_prefix :: "bytes \<Rightarrow> 'j indexer_api \<Rightarrow> (error + u64) \<times> 'j indexer_api" where
  "watch_payload_prefix v = api_add_matcher (PayloadPrefix v)"

definition watch_payload_contains :: "bytes \<Rightarrow> 'j indexer_api \<Rightarrow> (error + u64) \<times> 'j indexer_api" where
  "watch_payload_contains v = api_add_matcher (PayloadContains v)"

definition watch_payload_exact :: "bytes \<Rightarrow> 'j indexer_api \<Rightarrow> (error + u64) \<times> 'j indexer_api" where
  "watch_payload_exact v = api_add_matcher (PayloadExact v)"

definition watch_payload_suffix :: "bytes \<Rightarrow> 'j indexer_api \<Rightarrow> (error + u64) \<times> 'j indexer_api" where
  "watch_payload_suffix v = api_add_matcher (PayloadSuffix v)"

definition api_remove_matcher :: "u64 \<Rightarrow> 'j indexer_api \<Rightarrow> (error + bool) \<times> 'j indexer_api" where
  "api_remove_matcher key = with_engine (\<lambda>e. let (b, e) = remove_matcher key e in (Ok b, e))"

definition api_ingest_transaction ::
  "(matcher list \<Rightarrow> matcher list) \<Rightarrow> 'j indexed_transaction \<Rightarrow> 'j indexer_api
     \<Rightarrow> (error + indexed_match list) \<times> 'j indexer_api" where
  "api_ingest_transaction iter tx = with_engine (ingest_transaction iter tx)"

definition api_ingest_block :: "'j indexed_block \<Rightarrow> 'j indexer_api \<Rightarrow> (error + unit) \<times> 'j indexer_api" where
  "api_ingest_block block = with_engine (ingest_block block)"

definition scan_batch ::
  "(matcher list \<Rightarrow> matcher list) \<Rightarrow> 'j block_batch \<Rightarrow> 'j engine \<Rightarrow> (string + block_scan_report) \<times> 'j engine" where
  "scan_batch iter batch e =
     sbind (ingest_block (bb_block batch) e) (\<lambda>_ e.
     sbind (fold_state (\<lambda>ms tx e. sbind (ingest_transaction iter tx e) (\<lambda>new e. (Ok (ms @ new), e)))
             [] (bb_transactions batch) e) (\<lambda>ms e.
     (Ok \<lparr>bs_block_hash = ib_hash (bb_block batch), bs_transactions_scanned = length (bb_transactions batch),
          bs_matches = ms\<rparr>, e)))"

definition api_ingest_block_batch ::
  "(matcher list \<Rightarrow> matcher list) \<Rightarrow> 'j block_batch \<Rightarrow> 'j indexer_api \<Rightarrow> (error + block_scan_report) \<times> 'j indexer_api" where
  "api_ingest_block_batch iter batch = with_atomic (scan_batch iter batch)"

definition api_transaction ::
  "string + u64 \<Rightarrow> string \<Rightarrow> 'j indexer_api \<Rightarrow> (error + 'j indexed_transaction option) \<times> 'j indexer_api" where
  "api_transaction now txid = with_fresh now (\<lambda>e. (Ok (store_transaction (en_store e) txid), e))"

definition api_transactions ::
  "string + u64 \<Rightarrow> transaction_query \<Rightarrow> 'j indexer_api \<Rightarrow> (error + 'j indexed_transaction page_result) \<times> 'j indexer_api" where
  "api_transactions now q =
     with_fresh now (\<lambda>e. (page (filter_transactions (store_transactions (en_store e)) q) (tq_page q)
                            (store_max_query_page (en_store e)), e))"

definition api_blocks ::
  "string + u64 \<Rightarrow> page_request \<Rightarrow> 'j indexer_api \<Rightarrow> (error + 'j indexed_block page_result) \<times> 'j indexer_api" where
  "api_blocks now request =
     with_fresh now (\<lambda>e. (page (store_blocks (en_store e)) request (store_max_query_page (en_store e)), e))"

definition api_matches ::
  "string + u64 \<Rightarrow> page_request \<Rightarrow> 'j indexer_api \<Rightarrow> (error + indexed_match page_result) \<times> 'j indexer_api" where
  "api_matches now request =
     with_fresh now (\<lambda>e. (page (store_matches (en_store e)) request (store_max_query_page (en_store e)), e))"

definition api_metrics :: "string + u64 \<Rightarrow> 'j indexer_api \<Rightarrow> (error + indexer_metrics) \<times> 'j indexer_api" where
  "api_metrics now = with_fresh now (\<lambda>e. (Ok (en_metrics e), e))"

definition api_health :: "string + u64 \<Rightarrow> 'j indexer_api \<Rightarrow> (error + indexer_health) \<times> 'j indexer_api" where
  "api_health now api =
     (case map_err ErrIndexer now of
        Inl err \<Rightarrow> (Err err, api)
      | Inr t \<Rightarrow> with_engine (\<lambda>e. let e = purge_expired t e in (Ok (health t e), e)) api)"

definition api_snapshot :: "string + u64 \<Rightarrow> 'j indexer_api \<Rightarrow> (error + 'j indexer_snapshot) \<times> 'j indexer_api" where
  "api_snapshot now = with_fresh now (\<lambda>e. (Ok (engine_snapshot e), e))"

definition api_restore_snapshot :: "'j indexer_snapshot \<Rightarrow> 'j indexer_api \<Rightarrow> (error + unit) \<times> 'j indexer_api" where
  "api_restore_snapshot snapshot = with_engine (restore_snapshot snapshot)"

definition api_checkpoint :: "string + u64 \<Rightarrow> 'j indexer_api \<Rightarrow> (error + sync_checkpoint) \<times> 'j indexer_api" where
  "api_checkpoint now = with_fresh now (\<lambda>e. (Ok (en_checkpoint e), e))"

definition api_set_checkpoint :: "sync_checkpoint \<Rightarrow> 'j indexer_api \<Rightarrow> (error + unit) \<times> 'j indexer_api" where
  "api_set_checkpoint c = with_engine (set_checkpoint c)"

definition api_persisted_state ::
  "(matcher list \<Rightarrow> matcher list) \<Rightarrow> string + u64 \<Rightarrow> 'j indexer_api \<Rightarrow> (error + 'j persisted_state) \<times> 'j indexer_api" where
  "api_persisted_state iter now = with_fresh now (\<lambda>e. (Ok (engine_persisted_state iter e), e))"

definition api_restore_state :: "'j persisted_state \<Rightarrow> 'j indexer_api \<Rightarrow> (error + unit) \<times> 'j indexer_api" where
  "api_restore_state ps = with_engine (restore_state ps)"

definition save_to ::
  "('j persisted_state \<Rightarrow> error + unit) \<Rightarrow> (matcher list \<Rightarrow> matcher list) \<Rightarrow> string + u64 \<Rightarrow> 'j indexer_api
     \<Rightarrow> (error + unit) \<times> 'j indexer_api" where
  "save_to save iter now api = sbind (api_persisted_state iter now api) (\<lambda>ps api. (save ps, api))"

definition restore_from ::
  "error + 'j persisted_state option \<Rightarrow> 'j indexer_api \<Rightarrow> (error + bool) \<times> 'j indexer_api" where
  "restore_from load api =
     (case load of
        Inl err \<Rightarrow> (Err err, api)
      | Inr None \<Rightarrow> (Ok False, api)
      | Inr (Some ps) \<Rightarrow> sbind (api_restore_state ps api) (\<lambda>_ api. (Ok True, api)))"

definition clear_persisted :: "(error + unit) \<Rightarrow> 'j indexer_api \<Rightarrow> (error + unit) \<times> 'j indexer_api" where
  "clear_persisted clear_all api = (clear_all, api)"

definition api_apply_sync_batches ::
  "(matcher list \<Rightarrow> matcher list) \<Rightarrow> 'j block_batch list \<Rightarrow> sync_checkpoint \<Rightarrow> 'j indexer_api
     \<Rightarrow> (error + sync_report) \<times> 'j indexer_api" where
  "api_apply_sync_batches iter batches c = with_atomic (apply_sync_batches iter batches c)"

definition api_reconcile_virtual_chain ::
  "(matcher list \<Rightarrow> matcher list) \<Rightarrow> 'j virtual_chain_delta \<Rightarrow> 'j indexer_api
     \<Rightarrow> (error + reconciliation_report) \<times> 'j indexer_api" where
  "api_reconcile_virtual_chain iter d = with_atomic (reconcile_virtual_chain iter d)"

definition api_drain_events :: "string + u64 \<Rightarrow> 'j indexer_api \<Rightarrow> (error + indexer_event list) \<times> 'j indexer_api" where
  "api_drain_events now = with_fresh now (\<lambda>e. let (evs, e) = drain_events e in (Ok evs, e))"

definition api_clear :: "'j indexer_api \<Rightarrow> (error + unit) \<times> 'j indexer_api" where
  "api_clear = with_engine (\<lambda>e. (Ok (), engine_clear e))"

section \<open>Sequences of operations\<close>

datatype 'j engine_op =
    OpStart u64 | OpStop | OpAddMatcher match_rule | OpRemoveMatcher u64
  | OpIngestTransaction "'j indexed_transaction" | OpIngestBlock "'j indexed_block" | OpPurge u64
  | OpSetCheckpoint sync_checkpoint | OpApplySync "'j block_batch list" sync_checkpoint
  | OpReconcile "'j virtual_chain_delta" | OpRestoreState "'j persisted_state"
  | OpRestoreSnapshot "'j indexer_snapshot" | OpDrainEvents | OpClear

fun apply_op :: "(matcher list \<Rightarrow> matcher list) \<Rightarrow> 'j engine_op \<Rightarrow> 'j engine \<Rightarrow> 'j engine" where
  "apply_op iter (OpStart t) e = start t e"
| "apply_op iter OpStop e = stop e"
| "apply_op iter (OpAddMatcher rule) e = snd (add_matcher rule e)"
| "apply_op iter (OpRemoveMatcher k) e = snd (remove_matcher k e)"
| "apply_op iter (OpIngestTransaction tx) e = snd (ingest_transaction iter tx e)"
| "apply_op iter (OpIngestBlock b) e = snd (ingest_block b e)"
| "apply_op iter (OpPurge t) e = purge_expired t e"
| "apply_op iter (OpSetCheckpoint c) e = snd (set_checkpoint c e)"
| "apply_op iter (OpApplySync bs c) e = snd (apply_sync_batches iter bs c e)"
| "apply_op iter (OpReconcile d) e = snd (reconcile_virtual_chain iter d e)"
| "apply_op iter (OpRestoreState ps) e = snd (restore_state ps e)"
| "apply_op iter (OpRestoreSnapshot sn) e = snd (restore_snapshot sn e)"
| "apply_op iter OpDrainEvents e = snd (drain_events e)"
| "apply_op iter OpClear e = engine_clear e"

text \<open>Engines reachable by operations that satisfy \<open>allowed\<close>.\<close>

inductive reachable ::
  "('j engine_op \<Rightarrow> bool) \<Rightarrow> (matcher list \<Rightarrow> matcher list) \<Rightarrow> indexer_config \<Rightarrow> 'j engine \<Rightarrow> bool"
  for allowed iter config where
  reach_new: "engine_new config = Ok e \<Longrightarrow> reachable allowed iter config e"
| reach_op: "reachable allowed iter config e \<Longrightarrow> allowed op \<Longrightarrow> reachable allowed iter config (apply_op iter op e)"

text \<open>Persisted state in which every matcher id has a successor.\<close>

fun ids_not_exhausted :: "'j engine_op \<Rightarrow> bool" where
  "ids_not_exhausted (OpRestoreState ps) = list_all (\<lambda>m. mt_id m \<noteq> - 1) (ps_matchers ps)"
| "ids_not_exhausted _ = True"

fun no_restore :: "'j engine_op \<Rightarrow> bool" where
  "no_restore (OpRestoreState ps) = False"
| "no_restore (OpRestoreSnapshot sn) = False"
| "no_restore _ = True"

section \<open>Invariants of reachable engines\<close>

lemma restore_state_cases:
  "fst (restore_state ps e) = Ok () \<or> snd (restore_state ps e) = e \<or> (\<exists>m\<in>set (ps_matchers ps). mt_id m = - 1)"
proof (cases "validate_matchers (ps_matchers ps)")
  case (Inl err)
  then show ?thesis by (auto simp: restore_state_def rbind_Inr_iff split: sum.splits)
next
  case (Inr u)
  then have "foldl (\<lambda>al m. AList.update (mt_id m) m al) [] (ps_matchers ps) = map (\<lambda>m. (mt_id m, m)) (ps_matchers ps)"
    using foldl_update_distinct [of "[]" "ps_matchers ps"] by (simp add: validate_matchers_Ok)
  then show ?thesis
    by (force simp: restore_state_def Let_def dest: next_matcher_id_Err split: sum.splits)
qed

lemma apply_op_inv:
  assumes "engine_inv e" "ids_not_exhausted op"
  shows "engine_inv (apply_op iter op e)"
proof (cases op)
  case (OpRestoreState ps)
  with assms restore_state_cases [of ps e] restore_state_inv [of e ps] show ?thesis
    by (auto simp: list_all_iff)
next
  case (OpRestoreSnapshot sn)
  with assms show ?thesis by (simp add: restore_snapshot_inv)
next
  case OpClear
  with assms show ?thesis
    by (auto simp: engine_clear_def engine_inv_def store_clear_def rk_clear_def store_inv_def rk_inv_def)
qed (use assms in \<open>simp_all add: inv_intros start_def stop_def drain_events_def\<close>, simp_all add: engine_inv_def)

lemma reachable_inv: "reachable ids_not_exhausted iter config e \<Longrightarrow> engine_inv e"
  by (induction rule: reachable.induct) (auto simp: apply_op_inv dest: engine_inv_new)

lemma apply_op_safe:
  assumes "engine_safe e" "no_restore op"
  shows "engine_safe (apply_op iter op e)"
proof -
  have inv: "engine_inv e" and cov: "engine_covered e" using assms by (auto simp: engine_safe_def)
  note keeps = ingest_keepsD [OF ingest_keeps_safe assms(1), unfolded leaves_def]
  show ?thesis
  proof (cases op)
    case (OpAddMatcher rule)
    have "en_store (snd (add_matcher rule e)) = en_store e"
      by (auto simp: add_matcher_def Let_def split: sum.splits option.splits)
    with OpAddMatcher inv cov show ?thesis by (simp add: engine_safe_def inv_intros)
  next
    case (OpRemoveMatcher k)
    have "en_store (snd (remove_matcher k e)) = en_store e" by (simp add: remove_matcher_def)
    with OpRemoveMatcher inv cov show ?thesis by (simp add: engine_safe_def inv_intros)
  next
    case (OpPurge t)
    with engine_inv_purge [OF inv, of t] covered_purge_engine [OF inv cov, of t] show ?thesis
      by (simp add: engine_safe_def)
  next
    case OpClear
    have "engine_inv (apply_op iter OpClear e)" by (rule apply_op_inv [OF inv]) simp
    with OpClear show ?thesis by (simp add: engine_safe_def engine_clear_def store_clear_def covered_def)
  qed (use assms keeps in \<open>simp_all add: apply_sync_safe reconcile_safe\<close>,
      simp_all add: engine_safe_def start_def stop_def drain_events_def engine_inv_def)
qed

lemma reachable_safe: "reachable no_restore iter config e \<Longrightarrow> engine_safe e"
proof (induction rule: reachable.induct)
  case (reach_new e)
  then show ?case using engine_inv_new by (simp add: engine_safe_def)
next
  case (reach_op e op)
  then show ?case using apply_op_safe by blast
qed

text \<open>Everything stored passed validation under the configuration, and so did the checkpoint.\<close>

definition engine_valid :: "'j engine \<Rightarrow> bool" where
  "engine_valid e \<longleftrightarrow>
     (\<forall>t\<in>snd ` set (ms_tx (en_store e)). validate_transaction (en_config e) t = Ok ())
     \<and> (\<forall>b\<in>snd ` set (ms_blocks (en_store e)). \<not> blank (ib_hash b))
     \<and> checkpoint_validate (en_checkpoint e) = Ok ()"

definition engine_good :: "indexer_config \<Rightarrow> 'j engine \<Rightarrow> bool" where
  "engine_good config e \<longleftrightarrow> engine_inv e \<and> engine_valid e \<and> en_config e = config"

lemma tx_subset:
  "store_inv st \<Longrightarrow> set (ms_tx (snd (store_purge_expired st n))) \<subseteq> set (ms_tx st)"
  "store_inv st \<Longrightarrow> set (ms_tx (snd (insert_transaction st v))) \<subseteq> insert (it_txid v, v) (set (ms_tx st))"
  "store_inv st \<Longrightarrow> ms_tx (snd (insert_block st b)) = ms_tx st"
  "ms_tx (insert_match st m) = ms_tx st"
  "store_inv st \<Longrightarrow> set (ms_tx (snd (remove_chain_blocks st r))) \<subseteq> set (ms_tx st)"
proof -
  show "store_inv st \<Longrightarrow> set (ms_tx (snd (store_purge_expired st n))) \<subseteq> set (ms_tx st)"
    by (cases "ic_transaction_ttl_ms (ms_config st) = 0") (auto simp: purge_ttl_0 purge_eq dest: set_dropWhileD)
  show "store_inv st \<Longrightarrow> set (ms_tx (snd (insert_transaction st v))) \<subseteq> insert (it_txid v, v) (set (ms_tx st))"
    using set_drop_subset [of "tx_overflow st" "ms_tx st @ [(it_txid v, v)]"]
    by (simp add: insert_transaction_eq subset_insertI del: drop_append)
  show "store_inv st \<Longrightarrow> ms_tx (snd (insert_block st b)) = ms_tx st"
    by (simp add: insert_block_eq Let_def)
  show "ms_tx (insert_match st m) = ms_tx st" by (simp add: insert_match_eq Let_def)
  show "store_inv st \<Longrightarrow> set (ms_tx (snd (remove_chain_blocks st r))) \<subseteq> set (ms_tx st)"
    by (auto simp: remove_chain_blocks_eq)
qed

lemma block_subset:
  "ms_blocks (snd (store_purge_expired st n)) = ms_blocks st"
  "store_inv st \<Longrightarrow> ms_blocks (snd (insert_transaction st v)) = ms_blocks st"
  "store_inv st \<Longrightarrow> set (ms_blocks (snd (insert_block st b))) \<subseteq> insert (ib_hash b, b) (set (ms_blocks st))"
  "ms_blocks (insert_match st m) = ms_blocks st"
  "store_inv st \<Longrightarrow> set (ms_blocks (snd (remove_chain_blocks st r))) \<subseteq> set (ms_blocks st)"
proof -
  show "ms_blocks (snd (store_purge_expired st n)) = ms_blocks st"
    by (simp add: store_purge_expired_def Let_def split: prod.splits)
  show "store_inv st \<Longrightarrow> ms_blocks (snd (insert_transaction st v)) = ms_blocks st"
    by (simp add: insert_transaction_eq)
  show "store_inv st \<Longrightarrow> set (ms_blocks (snd (insert_block st b))) \<subseteq> insert (ib_hash b, b) (set (ms_blocks st))"
    using set_drop_subset [of _ "ms_blocks st @ [(ib_hash b, b)]"]
    by (auto simp: insert_block_eq Let_def simp del: drop_append dest!: in_set_dropD)
  show "ms_blocks (insert_match st m) = ms_blocks st" by (simp add: insert_match_eq Let_def)
  show "store_inv st \<Longrightarrow> set (ms_blocks (snd (remove_chain_blocks st r))) \<subseteq> set (ms_blocks st)"
    by (auto simp: remove_chain_blocks_eq)
qed

lemma matches_tx_frame [simp]:
  "ms_tx (foldl insert_match st ms) = ms_tx st" "ms_blocks (foldl insert_match st ms) = ms_blocks st"
  by (rule foldl_frame, simp add: tx_subset block_subset)+

lemma ingest_transaction_frame [simp]:
  "en_config (snd (ingest_transaction iter tx e)) = en_config e"
  "en_checkpoint (snd (ingest_transaction iter tx e)) = en_checkpoint e"
  by (simp_all add: ingest_transaction_def Let_def case_prod_unfold split: sum.splits)

lemma ingest_transaction_stored:
  assumes "store_inv (en_store e)"
  shows "set (ms_tx (en_store (snd (ingest_transaction iter tx e)))) \<subseteq>
     {p \<in> insert (it_txid tx, tx) (set (ms_tx (en_store e))). p \<in> set (ms_tx (en_store e)) \<or> validate_transaction (en_config e) tx = Ok ()}"
    and "ms_blocks (en_store (snd (ingest_transaction iter tx e))) = ms_blocks (en_store e)"
proof -
  let ?st = "snd (store_purge_expired (en_store e) (it_observed_at_ms tx))"
  have st: "store_inv ?st" using assms by (rule store_inv_purge)
  have "set (ms_tx (snd (insert_transaction ?st tx))) \<subseteq> insert (it_txid tx, tx) (set (ms_tx (en_store e)))"
    using tx_subset(2) [OF st, of tx] tx_subset(1) [OF assms, of "it_observed_at_ms tx"] by blast
  with tx_subset(1) [OF assms, of "it_observed_at_ms tx"]
  show "set (ms_tx (en_store (snd (ingest_transaction iter tx e)))) \<subseteq>
     {p \<in> insert (it_txid tx, tx) (set (ms_tx (en_store e))). p \<in> set (ms_tx (en_store e)) \<or> validate_transaction (en_config e) tx = Ok ()}"
    by (auto simp: ingest_transaction_def Let_def case_prod_unfold split: sum.splits)
  show "ms_blocks (en_store (snd (ingest_transaction iter tx e))) = ms_blocks (en_store e)"
    using st by (auto simp: ingest_transaction_def Let_def case_prod_unfold block_subset split: sum.splits)
qed

lemma ingest_keeps_good: "ingest_keeps (engine_good config) iter"
proof -
  have "engine_good config (snd (ingest_transaction iter tx e))" if g: "engine_good config e" for tx and e :: "'a engine"
  proof -
    have "store_inv (en_store e)" using g by (simp add: engine_good_def engine_inv_def)
    note st = ingest_transaction_stored [OF this, of iter tx]
    have "engine_valid (snd (ingest_transaction iter tx e))"
      using g st by (force simp: engine_good_def engine_valid_def)
    with g show ?thesis by (simp add: engine_good_def ingest_transaction_inv)
  qed
  moreover have "engine_good config (snd (ingest_block b e))" if g: "engine_good config e" for b and e :: "'a engine"
  proof (cases "blank (ib_hash b)")
    case True
    with g show ?thesis by (auto simp: ingest_block_def engine_good_def engine_valid_def)
  next
    case False
    let ?st = "snd (store_purge_expired (en_store e) (ib_observed_at_ms b))"
    have inv: "store_inv (en_store e)" using g by (simp add: engine_good_def engine_inv_def)
    then have st: "store_inv ?st" by (rule store_inv_purge)
    have "en_checkpoint (snd (ingest_block b e)) = en_checkpoint e"
      by (simp add: ingest_block_def Let_def case_prod_unfold)
    then have "engine_valid (snd (ingest_block b e))"
      using g False tx_subset(1) [OF inv, of "ib_observed_at_ms b"] tx_subset(3) [OF st, of b]
        block_subset(1) [of "en_store e" "ib_observed_at_ms b"] block_subset(3) [OF st, of b]
      by (force simp: engine_good_def engine_valid_def ingest_block_store Let_def)
    with g show ?thesis by (simp add: engine_good_def ingest_block_inv)
  qed
  moreover have "engine_good config (snd (set_checkpoint c e))" if g: "engine_good config e" for c and e :: "'a engine"
    using g by (auto simp: set_checkpoint_def engine_good_def engine_valid_def split: sum.splits)
  moreover have "engine_good config (e\<lparr>en_events := evs\<rparr>)" if "engine_good config e" for evs and e :: "'a engine"
    using that by (auto simp: engine_good_def engine_valid_def)
  ultimately show ?thesis by (simp add: ingest_keeps_def leaves_def)
qed

lemma validate_transactions_Ok:
  "try_fold (\<lambda>_ tx. validate_transaction config tx) () txs = Ok () \<longleftrightarrow> (\<forall>tx\<in>set txs. validate_transaction config tx = Ok ())"
proof (induction txs)
  case (Cons tx txs)
  then show ?case by (cases "validate_transaction config tx") auto
qed simp

lemma validate_snapshot_Ok:
  "validate_snapshot config sn = Ok () \<longleftrightarrow>
     (\<forall>tx\<in>set (sn_transactions sn). validate_transaction config tx = Ok ())
     \<and> (\<forall>b\<in>set (sn_blocks sn). \<not> blank (ib_hash b))"
  using validate_transactions_Ok [of config "sn_transactions sn"]
  by (auto simp: validate_snapshot_def rbind_Inr_iff list_ex_iff split: if_splits)

lemma restored_subset:
  "set (ms_tx (store_restore c sn)) \<subseteq> (\<lambda>t. (it_txid t, t)) ` set (sn_transactions sn)"
  "set (ms_blocks (store_restore c sn)) \<subseteq> (\<lambda>b. (ib_hash b, b)) ` set (sn_blocks sn)"
proof -
  have 1: "store_inv (foldl (\<lambda>st v. snd (insert_transaction st v)) st xs)
      \<and> set (ms_tx (foldl (\<lambda>st v. snd (insert_transaction st v)) st xs)) \<subseteq> set (ms_tx st) \<union> (\<lambda>t. (it_txid t, t)) ` set xs
      \<and> ms_blocks (foldl (\<lambda>st v. snd (insert_transaction st v)) st xs) = ms_blocks st"
    if "store_inv st" for st :: "'a memory_store" and xs
    using that
  proof (induction xs arbitrary: st)
    case (Cons x xs)
    from Cons.IH [OF store_inv_insert_transaction [OF Cons.prems, of x]] tx_subset(2) [OF Cons.prems, of x]
      block_subset(2) [OF Cons.prems, of x] show ?case by auto
  qed simp
  have 2: "ms_tx (foldl (\<lambda>st v. snd (insert_block st v)) st xs) = ms_tx st
      \<and> set (ms_blocks (foldl (\<lambda>st v. snd (insert_block st v)) st xs)) \<subseteq> set (ms_blocks st) \<union> (\<lambda>b. (ib_hash b, b)) ` set xs"
    if "store_inv st" for st :: "'a memory_store" and xs
    using that
  proof (induction xs arbitrary: st)
    case (Cons x xs)
    from Cons.IH [OF store_inv_insert_block [OF Cons.prems, of x]] tx_subset(3) [OF Cons.prems, of x]
      block_subset(3) [OF Cons.prems, of x] show ?case by auto
  qed simp
  let ?st = "foldl (\<lambda>st v. snd (insert_transaction st v)) (ms_new c) (sn_transactions sn)"
  note a = 1 [OF store_inv_new [of c], of "sn_transactions sn"] and b = 2 [of ?st "sn_blocks sn"]
  show "set (ms_tx (store_restore c sn)) \<subseteq> (\<lambda>t. (it_txid t, t)) ` set (sn_transactions sn)"
    using a b by (simp add: store_restore_def Let_def ms_new_def)
  show "set (ms_blocks (store_restore c sn)) \<subseteq> (\<lambda>b. (ib_hash b, b)) ` set (sn_blocks sn)"
    using a b by (simp add: store_restore_def Let_def ms_new_def)
qed

lemma restored_valid:
  "validate_snapshot c sn = Ok () \<Longrightarrow>
     (\<forall>t\<in>snd ` set (ms_tx (store_restore c sn)). validate_transaction c t = Ok ())
     \<and> (\<forall>b\<in>snd ` set (ms_blocks (store_restore c sn)). \<not> blank (ib_hash b))"
  using restored_subset [of c sn] by (fastforce simp: validate_snapshot_Ok)

lemma restore_state_Ok:
  assumes "fst (restore_state ps e) = Ok ()"
  obtains nx where "next_matcher_id (map (\<lambda>m. (mt_id m, m)) (ps_matchers ps)) = Ok nx"
    and "validate_snapshot (en_config e) (ps_snapshot ps) = Ok ()" and "checkpoint_validate (ps_checkpoint ps) = Ok ()"
    and "snd (restore_state ps e) = (rebuild_runtime_state (e\<lparr>en_store := store_restore (en_config e) (ps_snapshot ps),
      en_matchers := map (\<lambda>m. (mt_id m, m)) (ps_matchers ps), en_next_matcher_id := nx, en_checkpoint := ps_checkpoint ps\<rparr>))
      \<lparr>en_events := []\<rparr>"
proof -
  have v: "validate_matchers (ps_matchers ps) = Ok ()"
    using assms by (auto simp: restore_state_def Let_def rbind_Inr_iff rbind_Inl_iff split: sum.splits)
  then have al: "foldl (\<lambda>al m. AList.update (mt_id m) m al) [] (ps_matchers ps) = map (\<lambda>m. (mt_id m, m)) (ps_matchers ps)"
    using foldl_update_distinct [of "[]" "ps_matchers ps"] by (simp add: validate_matchers_Ok)
  show thesis
    using assms by (auto simp: restore_state_def Let_def al rbind_Inr_iff rbind_Inl_iff split: sum.splits intro: that)
qed

lemma apply_op_good:
  assumes g: "engine_good config e" and ok: "ids_not_exhausted op"
  shows "engine_good config (apply_op iter op e)"
proof -
  have inv: "engine_inv e" and val: "engine_valid e" and cfg: "en_config e = config"
    using g by (auto simp: engine_good_def)
  have st: "store_inv (en_store e)" using inv by (simp add: engine_inv_def)
  note keeps = ingest_keepsD [OF ingest_keeps_good g, unfolded leaves_def]
  note inv' = apply_op_inv [OF inv ok, of iter]
  show ?thesis
  proof (cases op)
    case (OpAddMatcher rule)
    have "en_store (snd (add_matcher rule e)) = en_store e \<and> en_config (snd (add_matcher rule e)) = en_config e
        \<and> en_checkpoint (snd (add_matcher rule e)) = en_checkpoint e"
      by (auto simp: add_matcher_def Let_def split: sum.splits option.splits)
    with OpAddMatcher inv' g show ?thesis by (auto simp: engine_good_def engine_valid_def)
  next
    case (OpPurge t)
    with inv' g tx_subset(1) [OF st, of t] show ?thesis
      by (auto simp: engine_good_def engine_valid_def block_subset)
  next
    case (OpApplySync bs c)
    with leaves_apply_sync [OF ingest_keeps_good g] show ?thesis by (simp add: leaves_def)
  next
    case (OpReconcile d)
    let ?st = "snd (remove_chain_blocks (en_store e) (set (vd_removed_block_hashes d)))"
    have "engine_good config (rebuild_recent_txids (e\<lparr>en_store := ?st, en_metrics := m\<rparr>))" for m
      using g remove_chain_inv [OF inv, of "set (vd_removed_block_hashes d)"]
        rebuild_recent_inv [of "e\<lparr>en_store := ?st, en_metrics := m\<rparr>"] 
        tx_subset(5) [OF st, of "set (vd_removed_block_hashes d)"] block_subset(5) [OF st, of "set (vd_removed_block_hashes d)"]
      by (force simp: engine_good_def engine_valid_def)
    with OpReconcile leaves_reconcile [OF ingest_keeps_good g] show ?thesis by (simp add: leaves_def)
  next
    case (OpRestoreState ps)
    show ?thesis
    proof (cases "fst (restore_state ps e) = Ok ()")
      case True
      then obtain nx where "validate_snapshot (en_config e) (ps_snapshot ps) = Ok ()"
        "checkpoint_validate (ps_checkpoint ps) = Ok ()"
        "snd (restore_state ps e) = (rebuild_runtime_state (e\<lparr>en_store := store_restore (en_config e) (ps_snapshot ps),
          en_matchers := map (\<lambda>m. (mt_id m, m)) (ps_matchers ps), en_next_matcher_id := nx,
          en_checkpoint := ps_checkpoint ps\<rparr>))\<lparr>en_events := []\<rparr>" by (rule restore_state_Ok)
      with inv' OpRestoreState cfg show ?thesis
        using restored_valid [of "en_config e" "ps_snapshot ps"] by (simp add: engine_good_def engine_valid_def)
    next
      case False
      with OpRestoreState ok restore_state_cases [of ps e] g show ?thesis by (auto simp: list_all_iff)
    qed
  next
    case (OpRestoreSnapshot sn)
    with g inv' restored_valid [of "en_config e" sn] show ?thesis
      by (auto simp: restore_snapshot_def engine_good_def engine_valid_def split: sum.splits)
  next
    case OpClear
    with inv' cfg show ?thesis
      by (simp add: engine_good_def engine_valid_def engine_clear_def store_clear_def checkpoint_default_def checkpoint_validate_def)
  qed (use inv' g keeps in \<open>simp_all\<close>,
      auto simp: engine_good_def engine_valid_def start_def stop_def drain_events_def remove_matcher_def)
qed

lemma reachable_good: "reachable ids_not_exhausted iter config e \<Longrightarrow> engine_good config e"
proof (induction rule: reachable.induct)
  case (reach_new e)
  then have "engine_inv e" using engine_inv_new by blast
  with reach_new show ?case
    by (auto simp: engine_good_def engine_valid_def engine_new_def rbind_Inr_iff ms_new_def checkpoint_default_def
        checkpoint_validate_def)
next
  case (reach_op e op)
  then show ?case using apply_op_good by blast
qed

lemma own_keys: "\<forall>(k, t)\<in>set al. f t = k \<Longrightarrow> map f (map snd al) = map fst al"
  by (induction al) auto

section \<open>A sample engine\<close>

definition sample_tx :: "unit indexed_transaction" where
  "sample_tx = \<lparr>it_txid = ''t1'', it_block_hash = Some ''b1'', it_daa_score = Some 7, it_observed_at_ms = 1000,
     it_addresses = [''kaspa:x''], it_payload = [1, 2, 3], it_raw = ()\<rparr>"

definition sample_block :: "unit indexed_block" where
  "sample_block = \<lparr>ib_hash = ''b1'', ib_daa_score = Some 7, ib_observed_at_ms = 1000, ib_txids = [''t1''], ib_raw = ()\<rparr>"

definition empty_engine :: "indexer_config \<Rightarrow> 'j engine" where
  "empty_engine config =
     \<lparr>en_config = config, en_store = ms_new config, en_recent_txids = rk_new (ic_dedupe_window config),
      en_matchers = [], en_next_matcher_id = 1, en_running = False, en_last_block_at_ms = None,
      en_metrics = metrics_default, en_checkpoint = checkpoint_default, en_events = []\<rparr>"

definition sample_ops :: "unit engine_op list" where
  "sample_ops = [OpAddMatcher (Address ''kaspa:x''), OpIngestBlock sample_block, OpIngestTransaction sample_tx]"

definition run_ops :: "(matcher list \<Rightarrow> matcher list) \<Rightarrow> 'j engine_op list \<Rightarrow> 'j engine \<Rightarrow> 'j engine" where
  "run_ops iter ops e = foldl (\<lambda>e op. apply_op iter op e) e ops"

lemma reachable_run:
  "reachable allowed iter config e \<Longrightarrow> list_all allowed ops \<Longrightarrow> reachable allowed iter config (run_ops iter ops e)"
  unfolding run_ops_def by (induction ops arbitrary: e) (auto intro: reach_op)

lemma sample_new: "engine_new config_default = Ok (empty_engine config_default)"
  by (simp add: engine_new_def config_validate_def validate_limits_def config_default_def empty_engine_def
      MAX_SERIALIZED_TRANSACTION_BYTES_def word_less_nat_alt)

lemma sample_reachable:
  "reachable ids_not_exhausted id config_default (run_ops id sample_ops (empty_engine config_default))"
  "reachable no_restore id config_default (run_ops id sample_ops (empty_engine config_default))"
  by (intro reachable_run reach_new sample_new; simp add: sample_ops_def)+

section \<open>Properties\<close>

text \<open>
  (C20) Every engine that any sequence of operations reaches, failed ones included, stays within its limits:
  at most the configured number of transactions, blocks and matches, at most one entry per id, each
  found under its own id, a recent-key window no larger than configured, and at most 4096 matchers with
  distinct ids below the next id to be given out, each with a valid rule. (Restored states whose
  matchers use the last id are excluded; see the finding on \<open>restore_state\<close> below.)
\<close>

theorem indexer_bounded:
  assumes "reachable ids_not_exhausted iter config e"
  shows "length (store_transactions (en_store e)) \<le> ic_max_transactions config
    \<and> length (store_blocks (en_store e)) \<le> ic_max_blocks config
    \<and> length (store_matches (en_store e)) \<le> ic_max_matches config
    \<and> distinct (map it_txid (store_transactions (en_store e))) \<and> distinct (map ib_hash (store_blocks (en_store e)))
    \<and> list_all (\<lambda>t. store_transaction (en_store e) (it_txid t) = Some t) (store_transactions (en_store e))
    \<and> length (rk_order (en_recent_txids e)) \<le> ic_dedupe_window config
    \<and> length (en_matchers e) \<le> 4096 \<and> distinct (map fst (en_matchers e))
    \<and> list_all (\<lambda>(k, m). mt_id m = k \<and> k < en_next_matcher_id e \<and> rule_validate (mt_rule m) = Ok ()) (en_matchers e)"
proof -
  have g: "engine_inv e" "en_config e = config" using reachable_good [OF assms] by (auto simp: engine_good_def)
  then have st: "store_inv (en_store e)" "ms_config (en_store e) = config" by (auto simp: engine_inv_def)
  have own: "map it_txid (map snd (ms_tx (en_store e))) = map fst (ms_tx (en_store e))"
    "map ib_hash (map snd (ms_blocks (en_store e))) = map fst (ms_blocks (en_store e))"
    using st by (intro own_keys; simp add: store_inv_def)+
  have d: "distinct (map fst (ms_tx (en_store e)))" "distinct (map fst (ms_blocks (en_store e)))"
    using st by (auto simp: store_inv_def)
  have "map_of (ms_tx (en_store e)) (it_txid t) = Some t" if "(k, t) \<in> set (ms_tx (en_store e))" for k t
    using that d st by (auto simp: store_inv_def)
  then show ?thesis
    using g st own d
    by (auto simp: store_transactions_eq store_blocks_eq store_matches_def store_transaction_def list_all_iff
        engine_inv_def matchers_inv_def rk_inv_def store_inv_def)
qed

theorem indexer_bounded_witness:
  "length (store_transactions (en_store (run_ops id sample_ops (empty_engine config_default)))) \<le> 50000"
  using indexer_bounded [OF sample_reachable(1)] by (simp add: config_default_def)

text \<open>
  (C19) Match queries never point at missing transaction data: in every engine reached without restoring foreign
  state, the transaction of each retained match is retained, whatever the retention mode, evictions, expiry
  and chain reorganisations.
\<close>

theorem matches_never_dangle:
  assumes "reachable no_restore iter config e" and "m \<in> set (store_matches (en_store e))"
  shows "\<exists>t. store_transaction (en_store e) (im_txid m) = Some t \<and> it_txid t = im_txid m"
proof -
  have s: "store_inv (en_store e)" "covered (en_store e)"
    using reachable_safe [OF assms(1)] by (auto simp: engine_safe_def engine_inv_def)
  then have "im_txid m \<in> fst ` set (ms_tx (en_store e))"
    using assms(2) store_inv_order [OF s(1)] by (auto simp: covered_def store_matches_def)
  then obtain t where t: "map_of (ms_tx (en_store e)) (im_txid m) = Some t"
    by (metis map_of_eq_None_iff not_None_eq)
  from map_of_SomeD [OF t] s(1) have "it_txid t = im_txid m" by (auto simp: store_inv_def)
  with t show ?thesis by (simp add: store_transaction_def)
qed

lemmas engine_eval =
  run_ops_def sample_ops_def empty_engine_def sample_tx_def sample_block_def config_default_def metrics_default_def
  checkpoint_default_def MAX_SERIALIZED_TRANSACTION_BYTES_def add_matcher_def checked_add_def ingest_block_def
  ingest_transaction_def validate_transaction_def ws1_def ws2_def ws3_def purge_expired_def store_purge_expired_def
  remove_matches_for_transactions_def rk_observe_def rk_new_def rk_trim.simps retain_transaction_def
  retains_transaction_def insert_transaction_def insert_block_def insert_match_def trim_transactions.simps
  trim_blocks.simps trim_matches.simps publish_matches_def record_size_evictions_def take_evictions_def scan_def
  ms_new_def store_matches_def saturating_add_def saturating_sub_def

lemma sample_store:
  "store_matches (en_store (run_ops id sample_ops (empty_engine config_default)))
     = [\<lparr>im_matcher_id = 1, im_txid = ''t1'', im_observed_at_ms = 1000\<rparr>]"
  by (simp add: engine_eval Let_def)

theorem matches_never_dangle_witness:
  "\<exists>t. store_transaction (en_store (run_ops id sample_ops (empty_engine config_default))) ''t1'' = Some t \<and> it_txid t = ''t1''"
  using matches_never_dangle [OF sample_reachable(2), of "\<lparr>im_matcher_id = 1, im_txid = ''t1'', im_observed_at_ms = 1000\<rparr>"]
  by (simp add: sample_store)

text \<open>
  A stream item delivered twice is indexed once: ingesting a transaction again right after it was
  accepted reports no match, counts it as a duplicate, and changes the store at most by the expiry that
  every ingestion performs.
\<close>

theorem duplicate_ingest_suppressed:
  assumes "engine_inv e" and "ingest_transaction iter tx e = (Ok ms, e1)"
  shows "fst (ingest_transaction iter tx e1) = Ok []
    \<and> en_store (snd (ingest_transaction iter tx e1)) = snd (store_purge_expired (en_store e1) (it_observed_at_ms tx))
    \<and> en_recent_txids (snd (ingest_transaction iter tx e1)) = en_recent_txids e1"
proof -
  let ?rk = "en_recent_txids e"
  have v: "validate_transaction (en_config e) tx = Ok ()"
    using assms(2) by (auto simp: ingest_transaction_def split: sum.splits)
  have inv: "rk_inv ?rk \<and> 0 < rk_capacity ?rk"
    using assms(1) config_valid_bounds by (auto simp: engine_inv_def)
  have e1: "en_recent_txids e1 = snd (rk_observe ?rk (it_txid tx))" "en_config e1 = en_config e"
    using assms(2) v by (auto simp: ingest_transaction_def Let_def case_prod_unfold split: if_splits)
  have "rk_observe (en_recent_txids e1) (it_txid tx) = (False, en_recent_txids e1)"
    unfolding e1 by (rule rk.second_suppressed [OF inv])
  with v e1 show ?thesis by (simp add: ingest_transaction_def Let_def)
qed

theorem duplicate_ingest_suppressed_witness:
  "fst (ingest_transaction id sample_tx (snd (ingest_transaction id sample_tx (empty_engine config_default)))) = Ok []"
proof -
  have inv: "engine_inv (empty_engine config_default)" using engine_inv_new [OF sample_new] by blast
  have ok: "fst (ingest_transaction id sample_tx (empty_engine config_default)) = Ok []"
    by (simp add: engine_eval Let_def)
  from duplicate_ingest_suppressed [OF inv prod_eqI [of _ "(_, _)", simplified], OF ok refl] show ?thesis by blast
qed

text \<open>
  The duplicate window is exact: a key that was reported as new is suppressed for as long as fewer
  than \<open>capacity\<close> further keys are observed.
\<close>

theorem dedupe_window_remembers:
  assumes "rk_inv rk" and "fst (rk_observe rk k)" and "length ks < rk_capacity rk"
  shows "fst (rk_observe (foldl (\<lambda>rk k. snd (rk_observe rk k)) (snd (rk_observe rk k)) ks) k) = False"
proof -
  have pos: "0 < rk_capacity rk" using assms(3) by simp
  let ?rk = "foldl (\<lambda>rk k. snd (rk_observe rk k)) (snd (rk_observe rk k)) ks"
  have near: "near_end (0 + length ks) k ?rk"
    using near_end_new [OF assms(1) pos assms(2)] assms
    by (intro near_end_fold) (auto simp: rk_inv_observe)
  have inv: "rk_inv ?rk" using rk.fold_inv [of "snd (rk_observe rk k)" ks] rk_inv_observe [OF assms(1), of k] assms pos by simp
  from near have "k \<in> set (rk_order ?rk)" by (auto simp: near_end_def)
  with inv show ?thesis by (simp add: rk_observe_eq)
qed

theorem dedupe_window_remembers_witness:
  "fst (rk_observe (foldl (\<lambda>rk k. snd (rk_observe rk k)) (snd (rk_observe (rk_new 3) ''a'')) [''b'', ''c'']) ''a'') = False"
  by (rule dedupe_window_remembers [OF rk_inv_new]) (simp_all add: rk_observe_def rk_new_def)



text \<open>
  Expiry is exact on a stream observed in time order: it removes precisely the transactions older than
  the time to live, keeps the others in order, and reports the removed ids.
\<close>

lemma saturating_sub_mono: "(a :: u64) \<le> b \<Longrightarrow> saturating_sub n b \<le> saturating_sub n a"
  by (simp add: word_le_nat_alt unat_saturating_sub)

lemma dropWhile_filter:
  "sorted (map f xs) \<Longrightarrow> (\<And>x y. f x \<le> f y \<Longrightarrow> \<not> P x \<Longrightarrow> \<not> P y) \<Longrightarrow>
   dropWhile P xs = filter (\<lambda>x. \<not> P x) xs \<and> takeWhile P xs = filter P xs"
proof (induction xs)
  case (Cons x xs)
  show ?case
  proof (cases "P x")
    case False
    with Cons.prems have "\<forall>y\<in>set xs. \<not> P y" by fastforce
    with False show ?thesis by (simp add: filter_empty_conv filter_id_conv)
  qed (use Cons in auto)
qed simp

theorem purge_removes_exactly_expired:
  assumes "store_inv st" and "ic_transaction_ttl_ms (ms_config st) \<noteq> 0"
    and "sorted (map it_observed_at_ms (store_transactions st))"
  shows "store_transactions (snd (store_purge_expired st now_ms)) =
      filter (\<lambda>t. saturating_sub now_ms (it_observed_at_ms t) \<le> ic_transaction_ttl_ms (ms_config st)) (store_transactions st)
    \<and> fst (store_purge_expired st now_ms) =
      map it_txid (filter (\<lambda>t. \<not> saturating_sub now_ms (it_observed_at_ms t) \<le> ic_transaction_ttl_ms (ms_config st)) (store_transactions st))"
proof -
  let ?p = "expired_at (ic_transaction_ttl_ms (ms_config st)) now_ms"
  have "sorted (map (\<lambda>e. it_observed_at_ms (snd e)) (ms_tx st))"
    using assms by (simp add: store_transactions_eq comp_def)
  then have dw: "dropWhile ?p (ms_tx st) = filter (\<lambda>e. \<not> ?p e) (ms_tx st) \<and> takeWhile ?p (ms_tx st) = filter ?p (ms_tx st)"
    by (rule dropWhile_filter) (auto simp: expired_at_def not_less dest: saturating_sub_mono [of _ _ now_ms])
  have ids: "map fst (filter P (ms_tx st)) = map it_txid (map snd (filter P (ms_tx st)))" for P
    using assms(1) by (intro own_keys [symmetric]) (auto simp: store_inv_def)
  have sn: "map snd (filter (\<lambda>e. Q (snd e)) al) = filter Q (map snd al)" for Q and al :: "(string \<times> 'a indexed_transaction) list"
    by (induction al) auto
  have st': "store_inv (snd (store_purge_expired st now_ms))" using assms(1) by (rule store_inv_purge)
  have rest: "store_transactions (snd (store_purge_expired st now_ms)) = map snd (dropWhile ?p (ms_tx st))"
    unfolding store_transactions_eq [OF st'] by (simp add: purge_eq [OF assms(1,2)])
  have gone: "fst (store_purge_expired st now_ms) = map fst (takeWhile ?p (ms_tx st))"
    by (simp add: purge_eq [OF assms(1,2)])
  have p: "?p = (\<lambda>e. \<not> saturating_sub now_ms (it_observed_at_ms (snd e)) \<le> ic_transaction_ttl_ms (ms_config st))"
    by (auto simp: expired_at_def fun_eq_iff)
  have "map snd (dropWhile ?p (ms_tx st)) = filter (\<lambda>t. saturating_sub now_ms (it_observed_at_ms t)
      \<le> ic_transaction_ttl_ms (ms_config st)) (map snd (ms_tx st))"
    unfolding dw [THEN conjunct1] unfolding p not_not by (rule sn)
  moreover have "map fst (takeWhile ?p (ms_tx st)) = map it_txid (filter (\<lambda>t. \<not> saturating_sub now_ms (it_observed_at_ms t)
      \<le> ic_transaction_ttl_ms (ms_config st)) (map snd (ms_tx st)))"
    unfolding dw [THEN conjunct2] ids unfolding p by (rule arg_cong [where f = "map it_txid"]) (rule sn)
  ultimately show ?thesis unfolding rest gone store_transactions_eq [OF assms(1)] by blast
qed

theorem purge_removes_exactly_expired_witness:
  "fst (store_purge_expired (snd (insert_transaction (ms_new config_default) sample_tx)) 86401001) = [''t1'']"
proof -
  let ?st = "snd (insert_transaction (ms_new config_default) sample_tx)"
  have st: "store_inv ?st" by (intro inv_intros)
  have tx: "store_transactions ?st = [sample_tx]"
    by (simp add: store_transactions_eq [OF st]) (simp add: engine_eval Let_def)
  have ttl: "ic_transaction_ttl_ms (ms_config ?st) = 86400000" by (simp add: engine_eval Let_def)
  show ?thesis
    using purge_removes_exactly_expired [OF st, of 86401001] tx ttl
    by (simp add: sample_tx_def saturating_sub_def)
qed

text \<open>
  A chain reorganisation removes exactly what it should: no block with a removed hash and no transaction
  of a removed block stays, every other record stays in order, a match stays if and only if its
  transaction was not removed, and the three reported counts are the numbers of records removed.
\<close>

theorem remove_chain_blocks_exact:
  assumes "store_inv st"
  shows "(case remove_chain_blocks st removed of ((blocks, txs, ms), st') \<Rightarrow>
      store_blocks st' = filter (\<lambda>b. ib_hash b \<notin> removed) (store_blocks st)
    \<and> store_transactions st' = filter (\<lambda>t. case it_block_hash t of None \<Rightarrow> True | Some h \<Rightarrow> h \<notin> removed) (store_transactions st)
    \<and> store_matches st' = filter (\<lambda>m. case store_transaction st (im_txid m) of None \<Rightarrow> True
          | Some t \<Rightarrow> (case it_block_hash t of None \<Rightarrow> True | Some h \<Rightarrow> h \<notin> removed)) (store_matches st)
    \<and> length (store_blocks st) = length (store_blocks st') + blocks
    \<and> length (store_transactions st) = length (store_transactions st') + txs
    \<and> length (store_matches st) = length (store_matches st') + ms)"
proof -
  let ?st = "snd (remove_chain_blocks st removed)"
  have st': "store_inv ?st" using assms by (rule store_inv_remove_chain)
  have d: "distinct (map fst (ms_tx st))" "\<forall>(k, b)\<in>set (ms_blocks st). ib_hash b = k" using assms by (auto simp: store_inv_def)
  have eq: "?st = st\<lparr>ms_blocks := filter (\<lambda>(hash, _). hash \<notin> removed) (ms_blocks st),
       ms_block_order := filter (\<lambda>hash. hash \<notin> removed) (ms_block_order st),
       ms_tx := filter (\<lambda>e. \<not> tx_removed removed e) (ms_tx st),
       ms_tx_order := map fst (filter (\<lambda>e. \<not> tx_removed removed e) (ms_tx st)),
       ms_matches := filter (\<lambda>m. im_txid m \<notin> fst ` set (filter (tx_removed removed) (ms_tx st))) (ms_matches st)\<rparr>"
    by (rule remove_chain_blocks_eq [OF assms])
  have bl: "map snd (filter (\<lambda>(hash, _). hash \<notin> removed) al) = filter (\<lambda>b. ib_hash b \<notin> removed) (map snd al)"
    if "\<forall>(k, b)\<in>set al. ib_hash b = k" for al :: "(string \<times> 'a indexed_block) list"
    using that by (induction al) auto
  have tx: "map snd (filter (\<lambda>e. \<not> tx_removed removed e) al)
      = filter (\<lambda>t. case it_block_hash t of None \<Rightarrow> True | Some h \<Rightarrow> h \<notin> removed) (map snd al)"
    for al :: "(string \<times> 'a indexed_transaction) list"
    by (induction al) (auto simp: tx_removed_def split: option.splits)
  have gone: "k \<in> fst ` set (filter (tx_removed removed) (ms_tx st)) \<longleftrightarrow>
      (\<exists>t. map_of (ms_tx st) k = Some t \<and> tx_removed removed (k, t))" for k
    using d(1) by (force simp: map_of_eq_Some_iff image_iff)
  have ms: "filter (\<lambda>m. im_txid m \<notin> fst ` set (filter (tx_removed removed) (ms_tx st))) (ms_matches st)
     = filter (\<lambda>m. case map_of (ms_tx st) (im_txid m) of None \<Rightarrow> True
          | Some t \<Rightarrow> (case it_block_hash t of None \<Rightarrow> True | Some h \<Rightarrow> h \<notin> removed)) (ms_matches st)"
    unfolding gone by (rule filter_cong [OF refl]) (auto simp: tx_removed_def split: option.splits)
  have counts: "fst (remove_chain_blocks st removed) = (length (ms_blocks st) - length (ms_blocks ?st),
      length (ms_tx st) - length (ms_tx ?st), length (ms_matches st) - length (ms_matches ?st))"
    by (cases "removed = {}") (simp_all add: remove_chain_blocks_def Let_def)
  have le: "length (ms_blocks ?st) \<le> length (ms_blocks st)" "length (ms_tx ?st) \<le> length (ms_tx st)"
    "length (ms_matches ?st) \<le> length (ms_matches st)" unfolding eq by simp_all
  have "store_blocks ?st = filter (\<lambda>b. ib_hash b \<notin> removed) (store_blocks st)"
    using bl [OF d(2)] by (simp add: store_blocks_eq st' assms) (simp add: eq)
  moreover have "store_transactions ?st
      = filter (\<lambda>t. case it_block_hash t of None \<Rightarrow> True | Some h \<Rightarrow> h \<notin> removed) (store_transactions st)"
    using tx [of "ms_tx st"] by (simp add: store_transactions_eq st' assms) (simp add: eq)
  moreover have "store_matches ?st = filter (\<lambda>m. case store_transaction st (im_txid m) of None \<Rightarrow> True
          | Some t \<Rightarrow> (case it_block_hash t of None \<Rightarrow> True | Some h \<Rightarrow> h \<notin> removed)) (store_matches st)"
    unfolding store_matches_def store_transaction_def by (simp add: eq ms del: set_filter)
  moreover have "length (store_blocks st) = length (store_blocks ?st) + fst (fst (remove_chain_blocks st removed))"
    "length (store_transactions st) = length (store_transactions ?st) + fst (snd (fst (remove_chain_blocks st removed)))"
    "length (store_matches st) = length (store_matches ?st) + snd (snd (fst (remove_chain_blocks st removed)))"
    using counts le by (simp_all add: store_blocks_eq store_transactions_eq st' assms store_matches_def)
  ultimately show ?thesis by (simp add: case_prod_unfold)
qed

theorem remove_chain_blocks_exact_witness:
  "store_transactions (snd (remove_chain_blocks (snd (insert_transaction (ms_new config_default) sample_tx)) {''b1''})) = []"
proof -
  let ?st = "snd (insert_transaction (ms_new config_default) sample_tx)"
  have st: "store_inv ?st" by (intro inv_intros)
  have tx: "store_transactions ?st = [sample_tx]"
    by (simp add: store_transactions_eq [OF st]) (simp add: engine_eval Let_def)
  show ?thesis
    using remove_chain_blocks_exact [OF st, of "{''b1''}"] unfolding tx
    by (auto simp: sample_tx_def split: prod.splits)
qed

text \<open>
  (C39) \<open>restore_state\<close> is not atomic. It checks the persisted state before replacing anything, but the id
  \<open>u64::MAX\<close> passes the check of the matchers and fails when the next id is computed, after the store
  and the matchers were replaced. The stale next id then collides: on the engine that the failed restore leaves
  behind, adding a matcher returns the id of a restored matcher and overwrites its rule.
\<close>

definition exhausted_state :: "unit persisted_state" where
  "exhausted_state =
     \<lparr>ps_schema = 1, ps_snapshot = \<lparr>sn_transactions = [], sn_blocks = [], sn_matches = []\<rparr>,
      ps_checkpoint = checkpoint_default,
      ps_matchers = [\<lparr>mt_id = 1, mt_rule = Address ''a''\<rparr>, \<lparr>mt_id = - 1, mt_rule = Address ''b''\<rparr>]\<rparr>"



text \<open>
  Pages partition a result: reading pages of one limit from the start, each at the offset where the
  one before it ended, returns every item exactly once and in order, and the last page is the one that says
  there are no more.
\<close>

lemma page_items:
  assumes "0 < limit" "limit \<le> max_page" "offset \<le> length items" "length items \<le> usize_max"
  shows "page items \<lparr>pr_offset = offset, pr_limit = limit\<rparr> max_page =
    Ok \<lparr>pg_items = take limit (drop offset items), pg_offset = offset, pg_limit = limit, pg_total = length items,
        pg_has_more = (offset + limit < length items)\<rparr>"
proof -
  have "take (min (offset + limit) (length items) - offset) (drop offset items) = take limit (drop offset items)"
    by (cases "offset + limit \<le> length items") (simp_all add: min_def)
  moreover have "min (min (offset + limit) usize_max) (length items) = min (offset + limit) (length items)"
    using assms(4) by simp
  ultimately show ?thesis using assms by (auto simp: page_def Let_def min_absorb1)
qed

lemma concat_pages: "0 < limit \<Longrightarrow> concat (map (\<lambda>k. take limit (drop (k * limit) items)) [0..<n]) = take (n * limit) items"
proof (induction n)
  case (Suc n)
  have "take (Suc n * limit) items = take (n * limit) items @ take limit (drop (n * limit) items)"
    using take_add [of "n * limit" limit items] by (simp add: add.commute)
  with Suc show ?case by simp
qed simp

theorem pages_partition_items:
  assumes "0 < limit" and "limit \<le> max_page" and "length items \<le> usize_max"
    and "n = (length items + limit - 1) div limit"
  shows "\<exists>pages. length pages = n
    \<and> (\<forall>k < n. page items \<lparr>pr_offset = k * limit, pr_limit = limit\<rparr> max_page = Ok (pages ! k)
               \<and> (pg_has_more (pages ! k) \<longleftrightarrow> k + 1 < n))
    \<and> concat (map pg_items pages) = items"
proof -
  let ?page = "\<lambda>k. \<lparr>pg_items = take limit (drop (k * limit) items), pg_offset = k * limit, pg_limit = limit,
      pg_total = length items, pg_has_more = (k * limit + limit < length items)\<rparr>"
  have cover: "length items \<le> n * limit"
  proof -
    have "length items + limit - 1 < n * limit + limit"
      using div_mult_mod_eq [of "length items + limit - 1" limit] mod_less_divisor [OF assms(1), of "length items + limit - 1"]
      unfolding assms(4) [symmetric] by linarith
    then show ?thesis by linarith
  qed
  have last: "(n - 1) * limit < length items" if "0 < n"
  proof -
    have "n * limit \<le> length items + limit - 1" using assms(4) by simp
    moreover have "n * limit = (n - 1) * limit + limit" using that by (simp add: algebra_simps)
    ultimately show ?thesis using assms(1) by linarith
  qed
  have more: "(k * limit + limit < length items) = (k + 1 < n)" if "k < n" for k
  proof
    assume "k * limit + limit < length items"
    then have "(k + 1) * limit < n * limit" using cover by (simp add: algebra_simps)
    then show "k + 1 < n" by (rule mult_less_cancel2 [THEN iffD1, THEN conjunct2])
  next
    assume "k + 1 < n"
    then have "(k + 1) * limit \<le> (n - 1) * limit" by (intro mult_right_mono) auto
    with last \<open>k + 1 < n\<close> show "k * limit + limit < length items" by (simp add: algebra_simps)
  qed
  have off: "k * limit \<le> length items" if "k < n" for k
  proof -
    have "k * limit \<le> (n - 1) * limit" using that by (intro mult_right_mono) auto
    moreover have "(n - 1) * limit < length items" using last that by simp
    ultimately show ?thesis by linarith
  qed
  show ?thesis
    by (rule exI [of _ "map ?page [0..<n]"])
      (use assms(1-3) off more page_items [OF assms(1,2) _ assms(3)] concat_pages [OF assms(1), of items n] cover
       in \<open>auto simp: comp_def\<close>)
qed

theorem pages_partition_items_witness:
  "\<exists>pages :: nat page_result list. length pages = 3 \<and> concat (map pg_items pages) = [1, 2, 3, 4, 5 :: nat]"
proof -
  have "length [1, 2, 3, 4, 5 :: nat] \<le> usize_max" by (simp add: usize_max_def)
  from pages_partition_items [of 2 10 "[1, 2, 3, 4, 5 :: nat]" 3, OF _ _ this] show ?thesis by simp blast
qed

text \<open>
  A transaction query returns exactly the stored transactions that satisfy its filters, sorted by DAA
  score and then by time of observation, with ties in insertion order.
\<close>

theorem filter_transactions_spec:
  "mset (filter_transactions vs q)
      = filter_mset (\<lambda>v. address_matches v (tq_address q) \<and> daa_score_matches v (tq_after_daa_score q)) (mset vs)
   \<and> sorted (map tx_sort_key (filter_transactions vs q))
   \<and> filter (\<lambda>v. tx_sort_key v = k) (filter_transactions vs q)
      = filter (\<lambda>v. tx_sort_key v = k \<and> address_matches v (tq_address q) \<and> daa_score_matches v (tq_after_daa_score q)) vs"
  by (simp add: filter_transactions_def sort_key_stable conj_commute)

text \<open>
  (C37) The batch operations of the facade are atomic: when one fails, the indexer is exactly as it was, and
  when it succeeds, it is the engine that the staged operations produce.
\<close>

lemma with_atomic_cases:
  "fst (with_atomic action api) = Err err \<Longrightarrow> snd (with_atomic action api) = api"
  "fst (with_atomic action api) = Ok r \<Longrightarrow>
     fst (action (api_inner api)) = Ok r \<and> snd (with_atomic action api) = api\<lparr>api_inner := snd (action (api_inner api))\<rparr>"
  by (auto simp: with_atomic_def with_engine_def Let_def split: if_splits prod.splits sum.splits)

theorem batch_operations_atomic:
  "(fst (api_ingest_block_batch iter b api) = Err err1 \<longrightarrow> snd (api_ingest_block_batch iter b api) = api)
   \<and> (fst (api_apply_sync_batches iter bs c api) = Err err2 \<longrightarrow> snd (api_apply_sync_batches iter bs c api) = api)
   \<and> (fst (api_reconcile_virtual_chain iter d api) = Err err3 \<longrightarrow> snd (api_reconcile_virtual_chain iter d api) = api)
   \<and> (fst (api_ingest_block_batch iter b api) = Ok r1 \<longrightarrow>
        snd (api_ingest_block_batch iter b api) = api\<lparr>api_inner := snd (scan_batch iter b (api_inner api))\<rparr>)
   \<and> (fst (api_apply_sync_batches iter bs c api) = Ok r2 \<longrightarrow>
        snd (api_apply_sync_batches iter bs c api) = api\<lparr>api_inner := snd (apply_sync_batches iter bs c (api_inner api))\<rparr>)
   \<and> (fst (api_reconcile_virtual_chain iter d api) = Ok r3 \<longrightarrow>
        snd (api_reconcile_virtual_chain iter d api) = api\<lparr>api_inner := snd (reconcile_virtual_chain iter d (api_inner api))\<rparr>)"
  unfolding api_ingest_block_batch_def api_apply_sync_batches_def api_reconcile_virtual_chain_def
  by (intro conjI impI; (rule with_atomic_cases(1) | rule with_atomic_cases(2) [THEN conjunct2]); assumption)

theorem batch_operations_atomic_witness:
  "let api = \<lparr>api_inner = empty_engine config_default, api_poisoned = False\<rparr>;
       batch = \<lparr>bb_block = sample_block, bb_transactions = [sample_tx\<lparr>it_txid := '' ''\<rparr>]\<rparr> in
     fst (api_ingest_block_batch id batch api) = Err (ErrIndexer ''transaction id cannot be empty'')
     \<and> snd (api_ingest_block_batch id batch api) = api"
proof -
  let ?api = "\<lparr>api_inner = empty_engine config_default, api_poisoned = False\<rparr>"
  let ?batch = "\<lparr>bb_block = sample_block, bb_transactions = [sample_tx\<lparr>it_txid := '' ''\<rparr>]\<rparr>"
  have "fst (api_ingest_block_batch id ?batch ?api) = Err (ErrIndexer ''transaction id cannot be empty'')"
    by (simp add: api_ingest_block_batch_def with_atomic_def with_engine_def scan_batch_def sbind_def engine_eval Let_def)
  with batch_operations_atomic [of id ?batch ?api "ErrIndexer ''transaction id cannot be empty''"] show ?thesis
    by (simp add: Let_def)
qed

end
