(* ===== verification/Mass.thy ===== *)
theory Mass
  imports Prelude
begin

text \<open>
  Mass and fee arithmetic: \<open>transaction/builder/planning/amounts.rs\<close> (dust, sums, KIP-9 storage mass),
  \<open>transaction/mass.rs\<close> (size, compute and transient mass, fee estimates, covenant fees) and the parts of
  \<open>transaction/consensus/model.rs\<close> they read.

  A \<open>u64\<close> amount is a \<open>nat\<close> and every checked operation of the code writes its bound out (\<open>add64\<close>, \<open>mul64\<close>,
  \<open>sub64\<close>), so an overflow is the error branch the code has; a \<open>saturating_sub\<close> is subtraction on \<open>nat\<close>. The
  code's \<open>u64::try_from\<close> of a slice length cannot fail on the 64-bit targets and has no branch here; the plain
  additions of lengths in \<open>estimated_serialized_size\<close> and \<open>utxo_plurality\<close> are bounded by the size of memory.
\<close>

section \<open>Checked u64 arithmetic\<close>

definition add64 :: "nat \<Rightarrow> nat \<Rightarrow> nat option" where
  "add64 a b = (if a + b \<le> u64_max then Some (a + b) else None)"

definition mul64 :: "nat \<Rightarrow> nat \<Rightarrow> nat option" where
  "mul64 a b = (if a * b \<le> u64_max then Some (a * b) else None)"

definition sub64 :: "nat \<Rightarrow> nat \<Rightarrow> nat option" where
  "sub64 a b = (if b \<le> a then Some (a - b) else None)"

definition div_ceil :: "nat \<Rightarrow> nat \<Rightarrow> nat" where
  "div_ceil a b = (a + b - 1) div b"

lemma add64_Some [simp]: "add64 a b = Some c \<longleftrightarrow> a + b \<le> u64_max \<and> c = a + b"
  by (auto simp: add64_def)

lemma mul64_Some [simp]: "mul64 a b = Some c \<longleftrightarrow> a * b \<le> u64_max \<and> c = a * b"
  by (auto simp: mul64_def)

lemma sub64_Some [simp]: "sub64 a b = Some c \<longleftrightarrow> b \<le> a \<and> c = a - b"
  by (auto simp: sub64_def)

section \<open>Amounts\<close>

definition STORAGE_MASS_C :: nat where "STORAGE_MASS_C = 1000000000000"
definition MAX_STANDARD_MASS :: nat where "MAX_STANDARD_MASS = 100000"
definition DUST_THRESHOLD :: nat where "DUST_THRESHOLD = 20000000"

definition is_dust :: "nat \<Rightarrow> bool" where
  "is_dust amount =
     (if amount = 0 then True
      else if amount \<ge> DUST_THRESHOLD then False
      else STORAGE_MASS_C div amount > MAX_STANDARD_MASS)"

definition checked_required :: "nat \<Rightarrow> nat \<Rightarrow> string + nat" where
  "checked_required amount fee =
     ok_or (add64 amount fee) ''Amount plus fee exceeds supported monetary range''"

definition checked_sum :: "nat list \<Rightarrow> string + nat" where
  "checked_sum values =
     try_fold (\<lambda>total v. ok_or (add64 total v) ''Amount total exceeds supported monetary range'') 0 values"

definition utxo_plurality :: "nat \<Rightarrow> bool \<Rightarrow> nat" where
  "utxo_plurality script_len has_covenant_id =
     (let covenant_bytes = if has_covenant_id then 32 else 0;
          bytes = 63 + script_len + covenant_bytes
      in div_ceil bytes 100)"

definition plurality_total :: "(nat \<times> nat) list \<Rightarrow> string \<Rightarrow> string + nat" where
  "plurality_total entries kind =
     try_fold (\<lambda>total (_, plurality).
       ok_or (add64 total plurality) (kind @ '' plurality exceeds supported range'')) 0 entries"

definition storage_mass_term :: "nat \<Rightarrow> nat \<Rightarrow> string \<Rightarrow> string + nat" where
  "storage_mass_term amount plurality kind =
     ok_or (map_option (\<lambda>weighted. weighted div max amount 1)
              (Option.bind (mul64 STORAGE_MASS_C plurality) (\<lambda>v. mul64 v plurality)))
       (kind @ '' storage-mass term exceeds supported range'')"

definition harmonic_mass :: "(nat \<times> nat) list \<Rightarrow> string \<Rightarrow> string + nat" where
  "harmonic_mass entries kind =
     try_fold (\<lambda>total (amount, plurality).
       rbind (storage_mass_term amount plurality kind) (\<lambda>t.
       ok_or (add64 total t) (kind @ '' storage mass exceeds supported range''))) 0 entries"

definition uses_relaxed_storage_mass :: "nat \<Rightarrow> nat \<Rightarrow> bool" where
  "uses_relaxed_storage_mass inputs_plurality outputs_plurality \<longleftrightarrow>
     inputs_plurality = 1 \<or> outputs_plurality = 1 \<or> (inputs_plurality = 2 \<and> outputs_plurality = 2)"

definition arithmetic_input_mass :: "(nat \<times> nat) list \<Rightarrow> nat \<Rightarrow> string + nat" where
  "arithmetic_input_mass ins inputs_plurality =
     rbind (map_err (\<lambda>_. ''Input amount total exceeds supported monetary range'')
              (checked_sum (map fst ins))) (\<lambda>input_sum.
     let mean_input = max (input_sum div max inputs_plurality 1) 1 in
     ok_or (mul64 inputs_plurality (STORAGE_MASS_C div mean_input))
       ''Arithmetic input storage mass exceeds supported range'')"

definition storage_mass_estimate :: "(nat \<times> nat) list \<Rightarrow> (nat \<times> nat) list \<Rightarrow> string + nat" where
  "storage_mass_estimate ins outs =
     rbind (plurality_total outs ''Output'') (\<lambda>outputs_plurality.
     rbind (plurality_total ins ''Input'') (\<lambda>inputs_plurality.
     rbind (harmonic_mass outs ''Output'') (\<lambda>harmonic_outputs.
     rbind (if uses_relaxed_storage_mass inputs_plurality outputs_plurality
            then harmonic_mass ins ''Input''
            else arithmetic_input_mass ins inputs_plurality) (\<lambda>input_mass.
     Ok (harmonic_outputs - input_mass)))))"

section \<open>Consensus transactions\<close>

record consensus_input =
  ci_prev_tx_id :: bytes
  ci_prev_index :: u32
  ci_sig_script :: bytes
  ci_sequence :: nat
  ci_sig_op_count :: nat

record consensus_output =
  co_value :: nat
  co_spk_version :: u16
  co_spk_script :: bytes
  co_covenant :: "(u16 \<times> bytes) option"

datatype input_encoding = Compact | Budgeted

record consensus_transaction =
  ct_tx_version :: nat
  ct_input_encoding :: input_encoding
  ct_inputs :: "consensus_input list"
  ct_outputs :: "consensus_output list"
  ct_locktime :: nat
  ct_subnetwork_id :: bytes
  ct_gas :: nat
  ct_payload :: bytes
  ct_storage_mass :: nat

definition storage_mass_for :: "(nat \<times> nat \<times> bool) list \<Rightarrow> consensus_output list \<Rightarrow> string + nat" where
  "storage_mass_for inputs outputs =
     storage_mass_estimate
       (map (\<lambda>(amount, script_len, covenant). (amount, utxo_plurality script_len covenant)) inputs)
       (map (\<lambda>out. (co_value out, utxo_plurality (length (co_spk_script out)) (co_covenant out \<noteq> None))) outputs)"

section \<open>Mass and fees\<close>

definition MASS_PER_TX_BYTE :: nat where "MASS_PER_TX_BYTE = 1"
definition MASS_PER_SCRIPT_PUBLIC_KEY_BYTE :: nat where "MASS_PER_SCRIPT_PUBLIC_KEY_BYTE = 10"
definition MASS_PER_SIG_OP :: nat where "MASS_PER_SIG_OP = 1000"
definition TRANSIENT_BYTE_TO_MASS_FACTOR :: nat where "TRANSIENT_BYTE_TO_MASS_FACTOR = 4"
definition MAX_COMPUTE_MASS :: nat where "MAX_COMPUTE_MASS = 500000"
definition MAX_STORAGE_MASS :: nat where "MAX_STORAGE_MASS = 500000"
definition MAX_TRANSIENT_MASS :: nat where "MAX_TRANSIENT_MASS = 1000000"
definition MIN_STANDARD_FEE_RATE :: nat where "MIN_STANDARD_FEE_RATE = 100"

lemmas mass_consts =
  MASS_PER_TX_BYTE_def MASS_PER_SCRIPT_PUBLIC_KEY_BYTE_def MASS_PER_SIG_OP_def TRANSIENT_BYTE_TO_MASS_FACTOR_def
  MAX_COMPUTE_MASS_def MAX_STORAGE_MASS_def MAX_TRANSIENT_MASS_def MIN_STANDARD_FEE_RATE_def

record transaction_analysis =
  an_estimated_serialized_bytes :: nat
  an_compute_mass :: nat
  an_transient_mass :: nat
  an_normalized_transient_mass :: nat
  an_storage_mass :: nat
  an_normalized_mass :: nat
  an_maximum_mass :: nat
  an_fee_sompi :: nat
  an_fee_mass :: nat
  an_fee_rate_sompi_per_gram :: nat
  an_minimum_fee_sompi :: nat
  an_recommended_fee_rate :: nat
  an_recommended_fee_sompi :: nat
  an_compute_mass_valid :: bool
  an_transient_mass_valid :: bool
  an_storage_mass_valid :: bool
  an_mass_valid :: bool
  an_fee_sufficient :: bool

definition normalize_mass :: "nat \<Rightarrow> nat \<Rightarrow> nat \<Rightarrow> string + nat" where
  "normalize_mass mass reference_limit dimension_limit =
     ok_or (map_option (\<lambda>v. div_ceil v dimension_limit) (mul64 mass reference_limit))
       ''mass normalization overflow''"

definition mass_validity :: "nat \<Rightarrow> nat \<Rightarrow> nat \<Rightarrow> bool \<times> bool \<times> bool \<times> bool" where
  "mass_validity compute_mass transient_mass storage_mass =
     (let compute = compute_mass \<le> MAX_COMPUTE_MASS;
          transient = transient_mass \<le> MAX_TRANSIENT_MASS;
          storage = storage_mass \<le> MAX_STORAGE_MASS
      in (compute, transient, storage, compute \<and> transient \<and> storage))"

definition estimated_serialized_size :: "consensus_transaction \<Rightarrow> string + nat" where
  "estimated_serialized_size tx =
     rbind (try_fold (\<lambda>size i.
              ok_or (add64 size (32 + 4 + 8 + length (ci_sig_script i) + 8 + (if ct_tx_version tx \<ge> 1 then 2 else 0)))
                ''transaction size overflow'') (2 + 8 + 8 + 8 + 20 + 8 + 32 + 8) (ct_inputs tx)) (\<lambda>size.
     rbind (try_fold (\<lambda>size out.
              ok_or (add64 size (8 + 2 + 8 + length (co_spk_script out)
                                 + (if co_covenant out \<noteq> None then 2 + 32 else 0)))
                ''transaction size overflow'') size (ct_outputs tx)) (\<lambda>size.
     ok_or (add64 size (length (ct_payload tx))) ''transaction size overflow''))"

text \<open>\<open>u64::from(sig_op_count).saturating_mul(MASS_PER_SIG_OP)\<close>: the count is one byte, so nothing saturates.\<close>

definition sat_mul64 :: "nat \<Rightarrow> nat \<Rightarrow> nat" where
  "sat_mul64 a b = min (a * b) u64_max"

definition script_mass_step :: "nat \<Rightarrow> nat \<Rightarrow> string + nat" where
  "script_mass_step acc script_len =
     rbind (ok_or (add64 2 script_len) ''script mass overflow'') (\<lambda>script_bytes.
     rbind (ok_or (mul64 script_bytes MASS_PER_SCRIPT_PUBLIC_KEY_BYTE) ''script mass overflow'') (\<lambda>mass.
     ok_or (add64 acc mass) ''script mass overflow''))"

definition compute_mass :: "consensus_transaction \<Rightarrow> nat \<Rightarrow> string + nat" where
  "compute_mass tx estimated_size =
     rbind (try_fold (\<lambda>total out. script_mass_step total (length (co_spk_script out))) 0 (ct_outputs tx)) (\<lambda>script_mass.
     rbind (try_fold (\<lambda>total i. ok_or (add64 total (sat_mul64 (ci_sig_op_count i) MASS_PER_SIG_OP))
              ''signature-operation mass overflow'') 0 (ct_inputs tx)) (\<lambda>signature_mass.
     ok_or (Option.bind (mul64 estimated_size MASS_PER_TX_BYTE) (\<lambda>v.
            Option.bind (add64 v script_mass) (\<lambda>v. add64 v signature_mass)))
       ''compute mass overflow''))"

text \<open>
  The body of \<open>analyze_verified\<close> after the verified transaction has been converted to the consensus
  transaction \<open>tx\<close> and its fee computed.
\<close>

definition analyze_verified :: "consensus_transaction \<Rightarrow> nat \<Rightarrow> nat \<Rightarrow> string + transaction_analysis" where
  "analyze_verified tx fee_sompi rate =
     rbind (estimated_serialized_size tx) (\<lambda>size.
     rbind (compute_mass tx size) (\<lambda>compute.
     rbind (ok_or (mul64 size TRANSIENT_BYTE_TO_MASS_FACTOR) ''transient mass overflow'') (\<lambda>transient.
     rbind (normalize_mass transient MAX_COMPUTE_MASS MAX_TRANSIENT_MASS) (\<lambda>normalized_transient.
     rbind (normalize_mass (ct_storage_mass tx) MAX_COMPUTE_MASS MAX_STORAGE_MASS) (\<lambda>normalized_storage.
     let normalized = max (max compute normalized_transient) normalized_storage;
         fee_mass = max compute normalized_transient in
     rbind (ok_or (mul64 fee_mass MIN_STANDARD_FEE_RATE) ''minimum fee overflow'') (\<lambda>minimum_fee.
     let recommended_rate = max rate MIN_STANDARD_FEE_RATE in
     rbind (ok_or (mul64 fee_mass recommended_rate) ''recommended fee overflow'') (\<lambda>recommended_fee.
     let (c_ok, t_ok, s_ok, m_ok) = mass_validity compute transient (ct_storage_mass tx) in
     Ok \<lparr>an_estimated_serialized_bytes = size, an_compute_mass = compute, an_transient_mass = transient,
         an_normalized_transient_mass = normalized_transient, an_storage_mass = ct_storage_mass tx,
         an_normalized_mass = normalized, an_maximum_mass = MAX_COMPUTE_MASS, an_fee_sompi = fee_sompi,
         an_fee_mass = fee_mass, an_fee_rate_sompi_per_gram = (if fee_mass = 0 then 0 else fee_sompi div fee_mass),
         an_minimum_fee_sompi = minimum_fee, an_recommended_fee_rate = recommended_rate,
         an_recommended_fee_sompi = recommended_fee, an_compute_mass_valid = c_ok, an_transient_mass_valid = t_ok,
         an_storage_mass_valid = s_ok, an_mass_valid = m_ok, an_fee_sufficient = fee_sompi \<ge> recommended_fee\<rparr>)))))))"

record signed_input_shape =
  sh_signature_script_len :: nat
  sh_sig_op_count :: nat

definition P2PK_SHAPE :: signed_input_shape where
  "P2PK_SHAPE = \<lparr>sh_signature_script_len = 66, sh_sig_op_count = 1\<rparr>"

definition estimated_plan_size :: "nat \<Rightarrow> nat \<Rightarrow> nat list \<Rightarrow> nat \<Rightarrow> string + nat" where
  "estimated_plan_size signature_script_len input_count output_script_lengths payload_len =
     rbind (ok_or (Option.bind (add64 (32 + 4 + 8 + 8) signature_script_len) (\<lambda>v. mul64 v input_count))
              ''transaction size overflow'') (\<lambda>input_bytes.
     rbind (ok_or (Option.bind (add64 (2 + 8 + 8 + 8 + 20 + 8 + 32 + 8) payload_len) (\<lambda>v. add64 v input_bytes))
              ''transaction size overflow'') (\<lambda>size.
     try_fold (\<lambda>size script_len.
       rbind (ok_or (add64 (8 + 2 + 8) script_len) ''transaction size overflow'') (\<lambda>output_bytes.
       ok_or (add64 size output_bytes) ''transaction size overflow'')) size output_script_lengths))"

definition estimate_non_contextual_fee_for_shape ::
  "signed_input_shape \<Rightarrow> nat \<Rightarrow> nat list \<Rightarrow> nat \<Rightarrow> nat \<Rightarrow> string + nat \<times> nat \<times> nat" where
  "estimate_non_contextual_fee_for_shape shape input_count output_script_lengths payload_len fee_rate =
     rbind (estimated_plan_size (sh_signature_script_len shape) input_count output_script_lengths payload_len) (\<lambda>size.
     rbind (try_fold script_mass_step 0 output_script_lengths) (\<lambda>script_mass.
     rbind (ok_or (Option.bind (mul64 input_count (sh_sig_op_count shape)) (\<lambda>v. mul64 v MASS_PER_SIG_OP))
              ''signature-operation mass overflow'') (\<lambda>sig_op_mass.
     rbind (ok_or (Option.bind (mul64 size MASS_PER_TX_BYTE) (\<lambda>v.
                   Option.bind (add64 v script_mass) (\<lambda>v. add64 v sig_op_mass))) ''compute mass overflow'') (\<lambda>compute.
     rbind (ok_or (mul64 size TRANSIENT_BYTE_TO_MASS_FACTOR) ''transient mass overflow'') (\<lambda>transient.
     let (_, _, _, within_limits) = mass_validity compute transient 0 in
     if \<not> within_limits then Err ''planned transaction exceeds Kaspa non-contextual mass limits''
     else rbind (normalize_mass transient MAX_COMPUTE_MASS MAX_TRANSIENT_MASS) (\<lambda>normalized_transient.
     let fee_mass = max compute normalized_transient in
     rbind (ok_or (mul64 fee_mass (max fee_rate MIN_STANDARD_FEE_RATE)) ''fee estimate overflow'') (\<lambda>fee.
     Ok (fee, compute, transient))))))))"

definition estimate_non_contextual_fee :: "nat \<Rightarrow> nat list \<Rightarrow> nat \<Rightarrow> nat \<Rightarrow> string + nat \<times> nat \<times> nat" where
  "estimate_non_contextual_fee input_count output_script_lengths payload_len fee_rate =
     estimate_non_contextual_fee_for_shape P2PK_SHAPE input_count output_script_lengths payload_len fee_rate"

section \<open>Covenant fees\<close>

record covenant_fee_shape =
  cf_p2pk_inputs :: nat
  cf_redeem_bytes :: nat
  cf_payload_bytes :: nat
  cf_binding_bytes :: nat

definition covenant_fee :: "covenant_fee_shape \<Rightarrow> string + nat" where
  "covenant_fee s =
     (let has_p2sh_input = (if cf_redeem_bytes s > 0 then 1 else 0) in
      rbind (ok_or (add64 (cf_p2pk_inputs s) has_p2sh_input) ''Covenant fee input-count overflow'') (\<lambda>input_count.
      rbind (ok_or (mul64 (cf_p2pk_inputs s) (45 + 66 + 4)) ''Covenant fee input-byte estimate overflow'') (\<lambda>p2pk_bytes.
      rbind (ok_or (add64 118 (cf_redeem_bytes s)) ''Covenant P2SH input-byte estimate overflow'') (\<lambda>p2sh.
      let p2sh_bytes = p2sh * has_p2sh_input in
      rbind (ok_or (add64 35 (cf_binding_bytes s)) ''Covenant fee output-byte estimate overflow'') (\<lambda>out_bytes.
      rbind (ok_or (Option.bind (add64 46 p2pk_bytes) (\<lambda>v. Option.bind (add64 v p2sh_bytes) (\<lambda>v.
                    Option.bind (add64 v out_bytes) (\<lambda>v. Option.bind (add64 v 43) (\<lambda>v.
                    Option.bind (add64 v (cf_payload_bytes s)) (\<lambda>v. add64 v 10))))))
               ''Covenant transaction-byte estimate overflow'') (\<lambda>tx_bytes.
      rbind (ok_or (mul64 input_count MASS_PER_SIG_OP) ''Covenant signature-operation mass overflow'') (\<lambda>sig_mass.
      rbind (ok_or (Option.bind (mul64 tx_bytes MASS_PER_TX_BYTE) (\<lambda>v. Option.bind (add64 v sig_mass) (\<lambda>v.
                    add64 v ((35 + 34) * MASS_PER_SCRIPT_PUBLIC_KEY_BYTE))))
               ''Covenant compute-mass estimate overflow'') (\<lambda>compute.
      rbind (ok_or (map_option (\<lambda>v. v div 100) (Option.bind (mul64 compute MIN_STANDARD_FEE_RATE) (\<lambda>v. mul64 v 115)))
               ''Covenant fee estimate overflow'') (\<lambda>fee.
      Ok (max fee 100000))))))))))"

record thread_withdraw_fee =
  tw_thread_amount :: nat
  tw_withdraw :: nat
  tw_minimum_fee :: nat
  tw_fee_rate :: nat

definition thread_fee :: "thread_withdraw_fee \<Rightarrow> string + nat" where
  "thread_fee t =
     (case Option.bind (sub64 (tw_thread_amount t) (tw_withdraw t)) (\<lambda>v. sub64 v (tw_minimum_fee t)) of
        None \<Rightarrow> Ok (tw_minimum_fee t)
      | Some remainder \<Rightarrow>
          if \<not> (remainder > 0 \<and> tw_withdraw t > 0) then Ok (tw_minimum_fee t)
          else let covenant = utxo_plurality 35 True in
            rbind (storage_mass_estimate [(tw_thread_amount t, covenant)]
                     [(tw_withdraw t, utxo_plurality 34 False), (remainder, covenant)]) (\<lambda>storage.
            if storage > MAX_STORAGE_MASS then Err ''withdrawal leaves too small a remainder (storage mass)''
            else rbind (ok_or (mul64 (max storage 2500) (tw_fee_rate t)) ''thread withdrawal fee overflow'') (\<lambda>fee.
            Ok (max fee (tw_minimum_fee t)))))"

definition leaves_return :: "thread_withdraw_fee \<Rightarrow> nat \<Rightarrow> nat \<Rightarrow> bool" where
  "leaves_return t withdraw minimum_return =
     (case thread_fee (t\<lparr>tw_withdraw := withdraw\<rparr>) of
        Err _ \<Rightarrow> False
      | Ok fee \<Rightarrow>
          (case Option.bind (sub64 (tw_thread_amount t) withdraw) (\<lambda>left. sub64 left fee) of
             None \<Rightarrow> False
           | Some left \<Rightarrow> left \<ge> minimum_return))"

definition maximum_withdraw :: "thread_withdraw_fee \<Rightarrow> nat \<Rightarrow> nat \<Rightarrow> nat" where
  "maximum_withdraw t cap minimum_return =
     (let ceiling = min (tw_thread_amount t - minimum_return - tw_minimum_fee t) cap in
      foldl (\<lambda>best bit.
               let candidate = best + 2 ^ bit in
               if candidate \<le> ceiling \<and> leaves_return t candidate minimum_return then candidate else best)
        0 (rev [0..<64]))"

section \<open>Sums\<close>

lemma try_fold_add64:
  "s \<le> u64_max \<Longrightarrow>
   try_fold (\<lambda>t x. ok_or (add64 t (f x)) e) s xs =
     (if s + sum_list (map f xs) \<le> u64_max then Ok (s + sum_list (map f xs)) else Err e)"
proof (induction xs arbitrary: s)
  case (Cons x xs)
  show ?case
  proof (cases "s + f x \<le> u64_max")
    case True
    with Cons.IH [OF True] show ?thesis by (simp add: add64_def add.assoc)
  next
    case False
    then show ?thesis by (simp add: add64_def)
  qed
qed simp

lemma checked_sum_eq:
  "checked_sum xs = (if sum_list xs \<le> u64_max then Ok (sum_list xs)
     else Err ''Amount total exceeds supported monetary range'')"
  using try_fold_add64 [of 0 "\<lambda>x. x" "''Amount total exceeds supported monetary range''" xs]
  by (simp add: checked_sum_def)

lemma plurality_total_eq:
  "plurality_total xs kind = (if sum_list (map snd xs) \<le> u64_max then Ok (sum_list (map snd xs))
     else Err (kind @ '' plurality exceeds supported range''))"
  using try_fold_add64 [of 0 snd "kind @ '' plurality exceeds supported range''" xs]
  by (simp add: plurality_total_def case_prod_unfold)

section \<open>The storage mass of KIP-9\<close>

text \<open>
  The rule itself, on unbounded numbers: the harmonic mass of the outputs less the harmonic mass of the inputs,
  or less their arithmetic mass outside the relaxed cases, floored at zero.
\<close>

definition kip9_term :: "nat \<times> nat \<Rightarrow> nat" where
  "kip9_term e = STORAGE_MASS_C * snd e ^ 2 div max (fst e) 1"

definition kip9_harmonic :: "(nat \<times> nat) list \<Rightarrow> nat" where
  "kip9_harmonic es = (\<Sum>e\<leftarrow>es. kip9_term e)"

definition kip9_arithmetic :: "(nat \<times> nat) list \<Rightarrow> nat" where
  "kip9_arithmetic es =
     (let p = sum_list (map snd es) in p * (STORAGE_MASS_C div max (sum_list (map fst es) div max p 1) 1))"

definition kip9_inputs :: "(nat \<times> nat) list \<Rightarrow> (nat \<times> nat) list \<Rightarrow> nat" where
  "kip9_inputs ins outs =
     (if uses_relaxed_storage_mass (sum_list (map snd ins)) (sum_list (map snd outs))
      then kip9_harmonic ins else kip9_arithmetic ins)"

definition kip9_storage_mass :: "(nat \<times> nat) list \<Rightarrow> (nat \<times> nat) list \<Rightarrow> nat" where
  "kip9_storage_mass ins outs = kip9_harmonic outs - kip9_inputs ins outs"

text \<open>The sums and products that must stay within 64 bits.\<close>

definition harmonic_fits :: "(nat \<times> nat) list \<Rightarrow> bool" where
  "harmonic_fits es \<longleftrightarrow>
     list_all (\<lambda>(_, p). STORAGE_MASS_C * p ^ 2 \<le> u64_max) es \<and> kip9_harmonic es \<le> u64_max"

definition storage_fits :: "(nat \<times> nat) list \<Rightarrow> (nat \<times> nat) list \<Rightarrow> bool" where
  "storage_fits ins outs \<longleftrightarrow>
     sum_list (map snd ins) \<le> u64_max \<and> sum_list (map snd outs) \<le> u64_max \<and> harmonic_fits outs
     \<and> (if uses_relaxed_storage_mass (sum_list (map snd ins)) (sum_list (map snd outs)) then harmonic_fits ins
        else sum_list (map fst ins) \<le> u64_max \<and> kip9_arithmetic ins \<le> u64_max)"

lemma storage_mass_term_eq:
  "storage_mass_term a p kind =
     (if STORAGE_MASS_C * p ^ 2 \<le> u64_max then Ok (kip9_term (a, p))
      else Err (kind @ '' storage-mass term exceeds supported range''))"
proof -
  have le: "STORAGE_MASS_C * p \<le> STORAGE_MASS_C * (p * p)" by simp
  have "Option.bind (mul64 STORAGE_MASS_C p) (\<lambda>v. mul64 v p) =
      (if STORAGE_MASS_C * p ^ 2 \<le> u64_max then Some (STORAGE_MASS_C * p ^ 2) else None)"
    by (auto simp: mul64_def power2_eq_square mult.assoc dest: order_trans [OF le])
  then show ?thesis by (simp add: storage_mass_term_def kip9_term_def)
qed

lemma harmonic_mass_acc:
  assumes "s \<le> u64_max"
  shows "(try_fold (\<lambda>acc (a, p). rbind (storage_mass_term a p kind) (\<lambda>t. ok_or (add64 acc t) e)) s es = Ok m) \<longleftrightarrow>
    list_all (\<lambda>(_, p). STORAGE_MASS_C * p ^ 2 \<le> u64_max) es \<and> s + kip9_harmonic es \<le> u64_max
    \<and> m = s + kip9_harmonic es"
  using assms
proof (induction es arbitrary: s)
  case (Cons x es)
  obtain a p where x: "x = (a, p)" by (cases x)
  have h: "kip9_harmonic (x # es) = kip9_term (a, p) + kip9_harmonic es" by (simp add: kip9_harmonic_def x)
  show ?case
  proof (cases "STORAGE_MASS_C * p ^ 2 \<le> u64_max \<and> s + kip9_term (a, p) \<le> u64_max")
    case True
    then show ?thesis
      using Cons.IH [of "s + kip9_term (a, p)"] h by (simp add: x storage_mass_term_eq add.assoc add64_def)
  next
    case False
    then show ?thesis using h by (auto simp: x storage_mass_term_eq rbind_Inr_iff)
  qed
qed (auto simp: kip9_harmonic_def)

lemma harmonic_mass_Ok: "harmonic_mass es kind = Ok m \<longleftrightarrow> harmonic_fits es \<and> m = kip9_harmonic es"
  using harmonic_mass_acc [of 0 kind "kind @ '' storage mass exceeds supported range''" es m] by (simp add: harmonic_mass_def harmonic_fits_def)

lemma arithmetic_input_mass_Ok:
  "arithmetic_input_mass es (sum_list (map snd es)) = Ok m \<longleftrightarrow>
     sum_list (map fst es) \<le> u64_max \<and> kip9_arithmetic es \<le> u64_max \<and> m = kip9_arithmetic es"
  by (auto simp: arithmetic_input_mass_def checked_sum_eq kip9_arithmetic_def Let_def)

lemma storage_mass_estimate_Ok:
  "storage_mass_estimate ins outs = Ok m \<longleftrightarrow> storage_fits ins outs \<and> m = kip9_storage_mass ins outs"
  unfolding storage_mass_estimate_def plurality_total_eq storage_fits_def kip9_storage_mass_def kip9_inputs_def
  using arithmetic_input_mass_Ok [of ins]
  by (auto simp: rbind_Inr_iff harmonic_mass_Ok split: if_splits)

section \<open>Dust\<close>

lemma is_dust_iff: "is_dust a \<longleftrightarrow> a \<le> 9999900"
proof -
  have "(1000000000000 :: nat) div a > 100000 \<longleftrightarrow> a \<le> 9999900" if "a \<noteq> 0"
  proof -
    have "100000 < (1000000000000 :: nat) div a \<longleftrightarrow> 100001 \<le> (1000000000000 :: nat) div a" by auto
    also have "\<dots> \<longleftrightarrow> 100001 * a \<le> 1000000000000" using that by (simp add: less_eq_div_iff_mult_less_eq)
    also have "\<dots> \<longleftrightarrow> a \<le> 9999900" by linarith
    finally show ?thesis .
  qed
  then show ?thesis
    by (auto simp: is_dust_def STORAGE_MASS_C_def MAX_STANDARD_MASS_def DUST_THRESHOLD_def)
qed

section \<open>The planner's estimate and the analysis\<close>

lemma try_fold_map: "try_fold (\<lambda>s x. f s (g x)) s xs = try_fold f s (map g xs)"
  by (induction xs arbitrary: s) (auto simp: rbind_def split: sum.splits)

text \<open>A signed transaction of the shape a plan was priced for.\<close>

definition has_shape :: "consensus_transaction \<Rightarrow> nat \<Rightarrow> nat list \<Rightarrow> nat \<Rightarrow> bool" where
  "has_shape tx input_count output_script_lengths payload_len \<longleftrightarrow>
     ct_tx_version tx = 0 \<and> length (ct_inputs tx) = input_count
     \<and> list_all (\<lambda>i. length (ci_sig_script i) = 66 \<and> ci_sig_op_count i = 1) (ct_inputs tx)
     \<and> map (\<lambda>out. length (co_spk_script out)) (ct_outputs tx) = output_script_lengths
     \<and> list_all (\<lambda>out. co_covenant out = None) (ct_outputs tx)
     \<and> length (ct_payload tx) = payload_len"

definition plan_bytes :: "nat \<Rightarrow> nat list \<Rightarrow> nat \<Rightarrow> nat" where
  "plan_bytes n lens payload = 94 + payload + 118 * n + (\<Sum>len\<leftarrow>lens. 18 + len)"

lemma sum_list_const_map: "list_all (\<lambda>x. f x = c) xs \<Longrightarrow> sum_list (map f xs) = c * length xs"
  by (induction xs) auto

lemma output_bytes_fold:
  "try_fold (\<lambda>sz len. rbind (ok_or (add64 18 len) e) (\<lambda>b. ok_or (add64 sz b) e)) s lens = Ok t \<Longrightarrow>
   s \<le> u64_max \<Longrightarrow> t = s + (\<Sum>len\<leftarrow>lens. 18 + len) \<and> t \<le> u64_max"
proof (induction lens arbitrary: s)
  case (Cons len lens)
  then have h: "try_fold (\<lambda>sz len. rbind (ok_or (add64 18 len) e) (\<lambda>b. ok_or (add64 sz b) e)) (s + (18 + len)) lens = Ok t"
    "s + (18 + len) \<le> u64_max" by (auto simp: rbind_Inr_iff)
  show ?case using Cons.IH [OF h] by simp
qed simp

lemma estimated_plan_size_Ok:
  "estimated_plan_size 66 n lens payload = Ok t \<Longrightarrow> t = plan_bytes n lens payload \<and> t \<le> u64_max"
  by (auto simp: estimated_plan_size_def rbind_Inr_iff plan_bytes_def bind_eq_Some_conv dest!: output_bytes_fold)

lemma serialized_size_shape:
  assumes "has_shape tx n lens payload" "plan_bytes n lens payload \<le> u64_max"
  shows "estimated_serialized_size tx = Ok (plan_bytes n lens payload)"
proof -
  define fi :: "consensus_input \<Rightarrow> nat" where "fi = (\<lambda>i. 32 + 4 + 8 + length (ci_sig_script i) + 8 + (if ct_tx_version tx \<ge> 1 then 2 else 0))"
  define fo :: "consensus_output \<Rightarrow> nat" where "fo = (\<lambda>out. 8 + 2 + 8 + length (co_spk_script out) + (if co_covenant out \<noteq> None then 2 + 32 else 0))"
  have isum: "sum_list (map fi (ct_inputs tx)) = 118 * n"
    using assms(1) sum_list_const_map [of fi 118 "ct_inputs tx"] by (auto simp: has_shape_def fi_def list_all_iff)
  have "map fo (ct_outputs tx) = map (\<lambda>len. 18 + len) lens"
    using assms(1) by (auto simp: has_shape_def fo_def list_all_iff)
  then have osum: "sum_list (map fo (ct_outputs tx)) = (\<Sum>len\<leftarrow>lens. 18 + len)" by simp
  have base: "2 + 8 + 8 + 8 + 20 + 8 + 32 + 8 = (94 :: nat)" by simp
  let ?e = "''transaction size overflow''"
  have eq: "estimated_serialized_size tx =
      rbind (try_fold (\<lambda>t i. ok_or (add64 t (fi i)) ?e) 94 (ct_inputs tx)) (\<lambda>t.
      rbind (try_fold (\<lambda>t out. ok_or (add64 t (fo out)) ?e) t (ct_outputs tx)) (\<lambda>t.
      ok_or (add64 t (length (ct_payload tx))) ?e))"
    by (simp only: estimated_serialized_size_def fi_def fo_def base)
  have "try_fold (\<lambda>t i. ok_or (add64 t (fi i)) ?e) 94 (ct_inputs tx) = Ok (94 + 118 * n)"
    using assms(2) by (subst try_fold_add64) (simp_all add: isum plan_bytes_def)
  moreover have "try_fold (\<lambda>t out. ok_or (add64 t (fo out)) ?e) (94 + 118 * n) (ct_outputs tx) =
      Ok (94 + 118 * n + (\<Sum>len\<leftarrow>lens. 18 + len))"
    using assms(2) by (subst try_fold_add64) (simp_all add: osum plan_bytes_def)
  ultimately show ?thesis
    using assms unfolding eq by (simp add: plan_bytes_def has_shape_def add64_def)
qed

lemma compute_mass_shape:
  assumes "has_shape tx n lens payload"
    and "try_fold script_mass_step 0 lens = Ok script_mass"
    and "1000 * n \<le> u64_max" "sz + script_mass + 1000 * n \<le> u64_max"
  shows "compute_mass tx sz = Ok (sz + script_mass + 1000 * n)"
proof -
  have sig: "try_fold (\<lambda>total i. ok_or (add64 total (sat_mul64 (ci_sig_op_count i) MASS_PER_SIG_OP))
      ''signature-operation mass overflow'') 0 (ct_inputs tx) = Ok (1000 * n)"
  proof (subst try_fold_add64)
    have "sum_list (map (\<lambda>i. sat_mul64 (ci_sig_op_count i) MASS_PER_SIG_OP) (ct_inputs tx)) = 1000 * n"
      using assms(1) sum_list_const_map [of "\<lambda>i. sat_mul64 (ci_sig_op_count i) MASS_PER_SIG_OP" 1000 "ct_inputs tx"]
      by (auto simp: has_shape_def list_all_iff sat_mul64_def mass_consts u64_max_def)
    with assms(3) show "(if 0 + (\<Sum>i\<leftarrow>ct_inputs tx. sat_mul64 (ci_sig_op_count i) MASS_PER_SIG_OP) \<le> u64_max
        then Ok (0 + (\<Sum>i\<leftarrow>ct_inputs tx. sat_mul64 (ci_sig_op_count i) MASS_PER_SIG_OP))
        else Err ''signature-operation mass overflow'') = Ok (1000 * n)" by simp
  qed simp
  have "try_fold (\<lambda>total out. script_mass_step total (length (co_spk_script out))) 0 (ct_outputs tx) = Ok script_mass"
    using assms(1,2) by (simp add: try_fold_map [of script_mass_step "\<lambda>out. length (co_spk_script out)"] has_shape_def)
  with sig assms(4) show ?thesis
    by (simp add: compute_mass_def MASS_PER_TX_BYTE_def add64_def mul64_def)
qed

section \<open>Bitwise search\<close>

text \<open>The search of \<open>maximum_withdraw\<close>: fix the answer one bit at a time from the top.\<close>

definition bit_search :: "(nat \<Rightarrow> bool) \<Rightarrow> nat \<Rightarrow> nat list \<Rightarrow> nat" where
  "bit_search P best bits = foldl (\<lambda>best bit. if P (best + 2 ^ bit) then best + 2 ^ bit else best) best bits"

lemma bit_search_simps [simp]:
  "bit_search P best [] = best"
  "bit_search P best (b # bs) = bit_search P (if P (best + 2 ^ b) then best + 2 ^ b else best) bs"
  by (simp_all add: bit_search_def)

lemma bit_search_sound: "best = 0 \<or> P best \<Longrightarrow> bit_search P best bits = 0 \<or> P (bit_search P best bits)"
  by (induction bits arbitrary: best) auto

lemma bit_search_max:
  assumes "\<And>a b. P b \<Longrightarrow> 0 < a \<Longrightarrow> a \<le> b \<Longrightarrow> P a" and "P w"
  shows "w < best + 2 ^ n \<Longrightarrow> w \<le> bit_search P best (rev [0..<n])"
proof (induction n arbitrary: best)
  case (Suc n)
  show ?case
  proof (cases "P (best + 2 ^ n)")
    case True
    then show ?thesis using Suc.IH [of "best + 2 ^ n"] Suc.prems by simp
  next
    case False
    then have "w < best + 2 ^ n" using assms(1) [OF assms(2), of "best + 2 ^ n"] by (meson add_pos_pos not_le trans_less_add2 zero_less_numeral zero_less_power)
    then show ?thesis using Suc.IH [of best] False by simp
  qed
qed simp

definition withdraw_fits :: "thread_withdraw_fee \<Rightarrow> nat \<Rightarrow> nat \<Rightarrow> nat \<Rightarrow> bool" where
  "withdraw_fits t cap minimum_return w \<longleftrightarrow>
     w \<le> tw_thread_amount t - minimum_return - tw_minimum_fee t \<and> w \<le> cap \<and> leaves_return t w minimum_return"

lemma maximum_withdraw_search:
  "maximum_withdraw t cap mr = bit_search (withdraw_fits t cap mr) 0 (rev [0..<64])"
  unfolding maximum_withdraw_def bit_search_def withdraw_fits_def Let_def min.bounded_iff conj_assoc ..

lemma bit_search_none: "(\<And>b. b \<in> set bits \<Longrightarrow> \<not> P (best + 2 ^ b)) \<Longrightarrow> bit_search P best bits = best"
  by (induction bits) auto

section \<open>Properties\<close>



definition sample_tx :: consensus_transaction where
  "sample_tx = \<lparr>ct_tx_version = 0, ct_input_encoding = Compact,
     ct_inputs = [\<lparr>ci_prev_tx_id = replicate 32 1, ci_prev_index = 0, ci_sig_script = replicate 66 0,
                    ci_sequence = 0, ci_sig_op_count = 1\<rparr>],
     ct_outputs = [\<lparr>co_value = 500000000, co_spk_version = 0, co_spk_script = replicate 34 0, co_covenant = None\<rparr>],
     ct_locktime = 0, ct_subnetwork_id = replicate 20 0, ct_gas = 0, ct_payload = [], ct_storage_mass = 2000\<rparr>"


text \<open>
  What \<open>maximum_withdraw\<close> guarantees. Its result is zero or a withdrawal within the cap that leaves the
  required return after its own fee; and it is the largest such withdrawal provided that fitting is monotone,
  as the code's comment assumes: whenever an amount fits, so does every smaller positive one.
\<close>

theorem maximum_withdraw_sound:
  "(maximum_withdraw t cap mr = 0 \<or> withdraw_fits t cap mr (maximum_withdraw t cap mr))
   \<and> ((\<forall>a b. withdraw_fits t cap mr b \<longrightarrow> 0 < a \<longrightarrow> a \<le> b \<longrightarrow> withdraw_fits t cap mr a) \<longrightarrow>
      withdraw_fits t cap mr w \<longrightarrow> w < 2 ^ 64 \<longrightarrow> w \<le> maximum_withdraw t cap mr)"
  unfolding maximum_withdraw_search
  using bit_search_sound [of 0 "withdraw_fits t cap mr" "rev [0..<64]"]
    bit_search_max [of "withdraw_fits t cap mr" w 0 64]
  by (simp del: upt_conv_Cons)

definition sample_thread :: thread_withdraw_fee where
  "sample_thread = \<lparr>tw_thread_amount = 1000000000, tw_withdraw = 0, tw_minimum_fee = 0, tw_fee_rate = 1\<rparr>"

definition tiny_thread :: thread_withdraw_fee where
  "tiny_thread = \<lparr>tw_thread_amount = 1, tw_withdraw = 0, tw_minimum_fee = 0, tw_fee_rate = 1\<rparr>"

lemma tiny_fits: "withdraw_fits tiny_thread 1 0 w \<longleftrightarrow> w \<le> 1"
proof -
  have "w = 0 \<or> w = 1" if "w \<le> 1" using that by auto
  moreover have "leaves_return tiny_thread 0 0" "leaves_return tiny_thread 1 0"
    by (simp_all add: leaves_return_def thread_fee_def tiny_thread_def sub64_def)
  ultimately show ?thesis by (auto simp: withdraw_fits_def tiny_thread_def)
qed

theorem maximum_withdraw_sound_witness:
  "withdraw_fits tiny_thread 1 0 1 \<and> 1 \<le> maximum_withdraw tiny_thread 1 0"
proof -
  have "\<forall>a b. withdraw_fits tiny_thread 1 0 b \<longrightarrow> 0 < a \<longrightarrow> a \<le> b \<longrightarrow> withdraw_fits tiny_thread 1 0 a"
    unfolding tiny_fits by auto
  moreover have "withdraw_fits tiny_thread 1 0 1" by (simp only: tiny_fits)
  ultimately show ?thesis using maximum_withdraw_sound [of tiny_thread 1 0 1] by simp
qed

lemma sample_pluralities: "utxo_plurality 35 True = 2" "utxo_plurality 34 False = 1"
  by (simp_all add: utxo_plurality_def div_ceil_def)

lemma sample_storage_mass:
  "kip9_storage_mass [(1000000000, 2)] [(w, 1), (r, 2)] =
     1000000000000 div max w 1 + 4000000000000 div max r 1 - 4000"
  by (simp add: kip9_storage_mass_def kip9_inputs_def kip9_harmonic_def kip9_arithmetic_def kip9_term_def
      uses_relaxed_storage_mass_def STORAGE_MASS_C_def Let_def del: One_nat_def)

lemma small_withdraw_unfit:
  assumes "0 < w" "w \<le> 1048576"
  shows "\<not> leaves_return sample_thread w 0"
proof
  assume "leaves_return sample_thread w 0"
  then obtain m where m: "storage_mass_estimate [(1000000000, 2)] [(w, 1), (1000000000 - w, 2)] = Ok m" "m \<le> 500000"
    using assms
    by (auto simp: leaves_return_def thread_fee_def sample_thread_def sub64_def Let_def rbind_Inr_iff
        sample_pluralities MAX_STORAGE_MASS_def split: sum.splits if_splits)
  have "m = 1000000000000 div w + 4000000000000 div max (1000000000 - w) 1 - 4000"
    using m(1) assms(1) unfolding storage_mass_estimate_Ok sample_storage_mass by (simp add: max_absorb1)
  moreover have "(1000000000000 :: nat) div 1048576 \<le> 1000000000000 div w" by (rule div_le_mono2 [OF assms])
  ultimately have "949674 \<le> m" by simp
  with m(2) show False by simp
qed

text \<open>
  (C38) Fitting is not monotone, and the search misses the answer. A covenant thread of ten KAS can pay out 2050000
  sompi and is asked for at most that much; the search returns zero, since every power of two it tries first
  exceeds the cap or is so small that the storage mass of the payout exceeds the limit.
\<close>

theorem maximum_withdraw_not_maximal:
  "withdraw_fits sample_thread 2050000 0 2050000 \<and> maximum_withdraw sample_thread 2050000 0 = 0"
proof
  show "withdraw_fits sample_thread 2050000 0 2050000"
    by (simp add: withdraw_fits_def leaves_return_def thread_fee_def sample_thread_def sub64_def
        storage_mass_estimate_def plurality_total_def harmonic_mass_def storage_mass_term_def arithmetic_input_mass_def
        checked_sum_def uses_relaxed_storage_mass_def sample_pluralities add64_def mul64_def u64_max_def
        STORAGE_MASS_C_def MAX_STORAGE_MASS_def Let_def del: One_nat_def flip: numeral_2_eq_2)
  have "\<not> withdraw_fits sample_thread 2050000 0 (2 ^ b)" for b
  proof (cases "b \<le> 20")
    case True
    then have "(2 :: nat) ^ b \<le> 2 ^ 20" by (intro power_increasing) simp_all
    then show ?thesis using small_withdraw_unfit [of "2 ^ b"] by (simp add: withdraw_fits_def)
  next
    case False
    then have "(2 :: nat) ^ 21 \<le> 2 ^ b" by (intro power_increasing) simp_all
    then show ?thesis by (simp add: withdraw_fits_def)
  qed
  then show "maximum_withdraw sample_thread 2050000 0 = 0"
    unfolding maximum_withdraw_search by (intro bit_search_none) simp
qed

end
