(* ===== verification/Network_Id.thy ===== *)
theory Network_Id
  imports Strings
begin

text \<open>
  Network identifiers (\<open>primitives/mod.rs\<close>): the \<open>NetworkId\<close> enum, its parser with trimming, ASCII case
  folding and the numbered testnets, and the names it prints. \<open>str::trim\<close> removes Unicode white space; on the
  UTF-8 bytes of a string that is white space of one, two or three bytes at either end.
\<close>

section \<open>Definitions\<close>

datatype network_id = Mainnet | Testnet u8 | Simnet | Devnet

fun network_address_prefix :: "network_id \<Rightarrow> string" where
  "network_address_prefix Mainnet = ''kaspa''"
| "network_address_prefix Simnet = ''kaspasim''"
| "network_address_prefix Devnet = ''kaspadev''"
| "network_address_prefix (Testnet _) = ''kaspatest''"

fun testnet_suffix :: "network_id \<Rightarrow> u8 option" where
  "testnet_suffix (Testnet suffix) = Some suffix"
| "testnet_suffix _ = None"

fun trim_start :: "string \<Rightarrow> string" where
  "trim_start [] = []"
| "trim_start [c] = (if ws1 c then [] else [c])"
| "trim_start [c, d] = (if ws1 c then trim_start [d] else if ws2 c d then [] else [c, d])"
| "trim_start (c # d # e # cs) =
     (if ws1 c then trim_start (d # e # cs)
      else if ws2 c d then trim_start (e # cs)
      else if ws3 c d e then trim_start cs
      else c # d # e # cs)"

text \<open>\<open>trim_end\<close> on the reversed bytes.\<close>

fun trim_rev :: "string \<Rightarrow> string" where
  "trim_rev [] = []"
| "trim_rev [c] = (if ws1 c then [] else [c])"
| "trim_rev [d, c] = (if ws1 d then trim_rev [c] else if ws2 c d then [] else [d, c])"
| "trim_rev (e # d # c # cs) =
     (if ws1 e then trim_rev (d # c # cs)
      else if ws2 d e then trim_rev (c # cs)
      else if ws3 c d e then trim_rev cs
      else e # d # c # cs)"

definition trim :: "string \<Rightarrow> string" where
  "trim s = rev (trim_rev (rev (trim_start s)))"

definition ascii_lower :: "char \<Rightarrow> char" where
  "ascii_lower c =
     (if 65 \<le> (of_char c :: nat) \<and> (of_char c :: nat) \<le> 90 then char_of ((of_char c :: nat) + 32) else c)"

definition strip_prefix :: "string \<Rightarrow> string \<Rightarrow> string option" where
  "strip_prefix p s = (if take (length p) s = p then Some (drop (length p) s) else None)"

definition unwrap_or :: "'a option \<Rightarrow> 'a \<Rightarrow> 'a" where
  "unwrap_or x d = (case x of Some a \<Rightarrow> a | None \<Rightarrow> d)"

text \<open>\<open>str::parse::<u16>\<close> on a non-empty string of digits.\<close>

definition parse_u16 :: "string \<Rightarrow> nat option" where
  "parse_u16 cs = Option.bind (parse_digits 0 cs) (\<lambda>n. if n < 2 ^ 16 then Some n else None)"

definition network_parse :: "string \<Rightarrow> string + network_id" where
  "network_parse s =
     (let normalized = map ascii_lower (trim s) in
      if normalized = ''mainnet'' \<or> normalized = ''kaspa:mainnet'' then Ok Mainnet
      else if normalized = ''simnet'' \<or> normalized = ''kaspa:simnet'' then Ok Simnet
      else if normalized = ''devnet'' \<or> normalized = ''kaspa:devnet'' then Ok Devnet
      else rbind (ok_or (strip_prefix ''testnet'' (unwrap_or (strip_prefix ''kaspa:'' normalized) normalized))
                    ''unsupported Kaspa network'') (\<lambda>testnet.
           let suffix = unwrap_or (strip_prefix ''-'' testnet) testnet in
           if suffix = [] \<or> \<not> list_all is_ascii_digit suffix then Err ''unsupported Kaspa network''
           else rbind (ok_or (parse_u16 suffix) ''invalid Kaspa testnet suffix'') (\<lambda>n.
                if \<not> (1 \<le> n \<and> n \<le> 127) then Err ''Kaspa testnet suffix must be 1..=127''
                else Ok (Testnet (word_of_nat n)))))"

fun canonical_name :: "network_id \<Rightarrow> string" where
  "canonical_name Mainnet = ''mainnet''"
| "canonical_name (Testnet suffix) = ''testnet-'' @ dec_string (unat suffix)"
| "canonical_name Simnet = ''simnet''"
| "canonical_name Devnet = ''devnet''"

text \<open>The derived text of \<open>Debug\<close>, which \<open>Serialize\<close> writes and \<open>Deserialize\<close> parses.\<close>

fun network_debug :: "network_id \<Rightarrow> string" where
  "network_debug Mainnet = ''Mainnet''"
| "network_debug (Testnet suffix) = ''Testnet'' @ dec_string (unat suffix)"
| "network_debug Simnet = ''Simnet''"
| "network_debug Devnet = ''Devnet''"

definition network_deserialize :: "string \<Rightarrow> string + network_id" where
  "network_deserialize s = network_parse s"

definition network_valid :: "network_id \<Rightarrow> bool" where
  "network_valid n \<longleftrightarrow> (case n of Testnet suffix \<Rightarrow> 1 \<le> unat suffix \<and> unat suffix \<le> 127 | _ \<Rightarrow> True)"

section \<open>Trimming and folding\<close>

lemma ws_high:
  "ws2 c d \<Longrightarrow> 128 \<le> (of_char c :: nat) \<and> 128 \<le> (of_char d :: nat)"
  "ws3 c d e \<Longrightarrow> 128 \<le> (of_char c :: nat) \<and> 128 \<le> (of_char e :: nat)"
  by (auto simp: ws2_def ws3_def)

text \<open>A plain character is neither white space nor part of a multi-byte white space character.\<close>

definition plain :: "char \<Rightarrow> bool" where
  "plain c \<longleftrightarrow> (of_char c :: nat) < 128 \<and> \<not> ws1 c"

lemma plain_not_ws: "plain c \<Longrightarrow> \<not> ws1 c" "plain c \<Longrightarrow> \<not> ws2 c d" "plain c \<Longrightarrow> \<not> ws2 d c"
  "plain c \<Longrightarrow> \<not> ws3 c d e" "plain c \<Longrightarrow> \<not> ws3 d e c"
  using ws_high [of c d] ws_high [of d c] ws_high(2) [of c d e] ws_high(2) [of d e c]
  by (auto simp: plain_def)

lemma trim_start_id: "s \<noteq> [] \<Longrightarrow> plain (hd s) \<Longrightarrow> trim_start s = s"
  by (cases s rule: trim_start.cases) (simp_all add: plain_not_ws)

lemma trim_rev_id: "s \<noteq> [] \<Longrightarrow> plain (hd s) \<Longrightarrow> trim_rev s = s"
  by (cases s rule: trim_rev.cases) (simp_all add: plain_not_ws)

lemma char_codes:
  "char_of (100 :: nat) = CHR ''d''" "char_of (109 :: nat) = CHR ''m''"
  "char_of (115 :: nat) = CHR ''s''" "char_of (116 :: nat) = CHR ''t''"
  using char_of_char [of "CHR ''d''"] char_of_char [of "CHR ''m''"]
    char_of_char [of "CHR ''s''"] char_of_char [of "CHR ''t''"]
  by simp_all

lemma trim_id:
  assumes "s \<noteq> []" "plain (hd s)" "plain (List.last s)"
  shows "trim s = s"
  using assms trim_rev_id [of "rev s"] by (simp add: trim_def trim_start_id hd_rev)

lemma digit_plain: "is_ascii_digit c \<Longrightarrow> plain c \<and> ascii_lower c = c"
  by (auto simp: plain_def is_ascii_digit_def ws1_def ascii_lower_def)

lemma map_lower_digits: "list_all is_ascii_digit cs \<Longrightarrow> map ascii_lower cs = cs"
  by (induction cs) (auto simp: digit_plain)

lemma last_digits: "list_all is_ascii_digit cs \<Longrightarrow> cs \<noteq> [] \<Longrightarrow> is_ascii_digit (List.last cs)"
  by (simp add: list_all_iff)

lemma parse_u16_dec: "n < 2 ^ 16 \<Longrightarrow> parse_u16 (dec_string n) = Some n"
  using parse_digits_value [of 0 "dec_string n"] by (simp add: parse_u16_def digits_value_dec_string u64_max_def)

lemma dash_not_digit: "\<not> is_ascii_digit (CHR ''-'')"
  by (simp add: is_ascii_digit_def)

lemma strip_dash_digits: "list_all is_ascii_digit cs \<Longrightarrow> strip_prefix ''-'' cs = None"
  by (cases cs) (auto simp: strip_prefix_def dash_not_digit)

text \<open>The parser on a folded, trimmed testnet name, with or without the dash.\<close>

lemma testnet_name:
  assumes "1 \<le> n" "n \<le> 127" "trim s = s" "map ascii_lower s = ''testnet'' @ dash @ dec_string n"
    and "dash = [] \<or> dash = ''-''"
  shows "network_parse s = Ok (Testnet (word_of_nat n))"
proof -
  have d: "list_all is_ascii_digit (dec_string n)" "dec_string n \<noteq> []"
    by (simp_all add: dec_string_digits dec_string_ne)
  have "strip_prefix ''kaspa:'' (''testnet'' @ dash @ dec_string n) = None" by (simp add: strip_prefix_def)
  moreover have "strip_prefix ''testnet'' (''testnet'' @ dash @ dec_string n) = Some (dash @ dec_string n)"
    by (simp add: strip_prefix_def)
  moreover have "unwrap_or (strip_prefix ''-'' (dash @ dec_string n)) (dash @ dec_string n) = dec_string n"
    using assms(5) strip_dash_digits [OF d(1)] by (auto simp: unwrap_or_def strip_prefix_def)
  ultimately show ?thesis
    using assms d parse_u16_dec [of n] by (simp add: network_parse_def unwrap_or_def Let_def)
qed

lemma trim_testnet_names:
  assumes "p = ''testnet-'' \<or> p = ''Testnet''"
  shows "trim (p @ dec_string n) = p @ dec_string n"
proof (rule trim_id)
  have "is_ascii_digit (List.last (dec_string n))" by (simp add: last_digits dec_string_digits dec_string_ne)
  then show "plain (List.last (p @ dec_string n))" using digit_plain by (simp add: dec_string_ne)
qed (use assms in \<open>auto simp: plain_def ws1_def\<close>)

section \<open>Properties\<close>

text \<open>
  Network names round trip. Every identifier with a testnet suffix in \<open>1..=127\<close> parses back from its
  canonical name and from its serialized form (\<open>Debug\<close>); and whatever the parser accepts is such an identifier,
  so no other testnet can enter through a name.
\<close>

theorem network_name_roundtrip:
  "(network_valid n \<longrightarrow>
      network_parse (canonical_name n) = Ok n \<and> network_deserialize (network_debug n) = Ok n)
   \<and> (network_parse s = Ok n \<longrightarrow> network_valid n)"
proof (intro conjI impI)
  assume v: "network_valid n"
  show "network_parse (canonical_name n) = Ok n"
  proof (cases n)
    case (Testnet x)
    with v testnet_name [of "unat x" "canonical_name n" "''-''"] trim_testnet_names [of "''testnet-''" "unat x"]
    show ?thesis by (simp add: network_valid_def map_lower_digits dec_string_digits ascii_lower_def)
  qed (simp_all add: network_parse_def trim_def ws1_def ws2_def ws3_def ascii_lower_def)
  show "network_deserialize (network_debug n) = Ok n"
  proof (cases n)
    case (Testnet x)
    with v testnet_name [of "unat x" "network_debug n" "[]"] trim_testnet_names [of "''Testnet''" "unat x"]
    show ?thesis
      by (simp add: network_valid_def map_lower_digits dec_string_digits ascii_lower_def network_deserialize_def
          char_codes)
  qed (simp_all add: network_deserialize_def network_parse_def trim_def ws1_def ws2_def ws3_def
      ascii_lower_def char_codes)
next
  assume "network_parse s = Ok n"
  then show "network_valid n"
    by (auto simp: network_parse_def network_valid_def Let_def rbind_Inr_iff split: if_splits)
qed

theorem network_name_roundtrip_witness:
  "network_valid (Testnet 10) \<and> network_parse (canonical_name (Testnet 10)) = Ok (Testnet 10)
   \<and> network_deserialize (network_debug (Testnet 10)) = Ok (Testnet 10)"
  using network_name_roundtrip [of "Testnet 10" "canonical_name (Testnet 10)"]
  by (simp add: network_valid_def)

end
