(* ===== verification/Script.thy ===== *)
theory Script
  imports Prelude
begin

text \<open>
  Script elements and multisig redeem scripts (\<open>primitives/opcode.rs\<close>, \<open>primitives/script.rs\<close>,
  \<open>primitives/multisig_script.rs\<close>): the reader of one opcode with the bytes it pushes, the iterator over all
  elements of a script, and the codec of \<open>OP_m <key>... OP_n OP_CHECKMULTISIG\<close>.

  A borrowed slice is the list of its bytes; \<open>slice.get(a..b)\<close> is \<open>get_range\<close>. A function that fills a
  \<open>&mut [u8]\<close> takes the buffer and returns it updated.
\<close>

section \<open>Definitions\<close>

definition OP_0 :: u8 where "OP_0 = 0x00"
definition OP_DATA_32 :: u8 where "OP_DATA_32 = 0x20"
definition OP_PUSHDATA1 :: u8 where "OP_PUSHDATA1 = 0x4c"
definition OP_PUSHDATA2 :: u8 where "OP_PUSHDATA2 = 0x4d"
definition OP_PUSHDATA4 :: u8 where "OP_PUSHDATA4 = 0x4e"
definition OP_1 :: u8 where "OP_1 = 0x51"
definition OP_16 :: u8 where "OP_16 = 0x60"
definition OP_EQUAL :: u8 where "OP_EQUAL = 0x87"
definition OP_BLAKE2B :: u8 where "OP_BLAKE2B = 0xaa"
definition OP_CHECKSIG :: u8 where "OP_CHECKSIG = 0xac"
definition OP_CHECKMULTISIG :: u8 where "OP_CHECKMULTISIG = 0xae"

lemmas opcode_defs =
  OP_0_def OP_DATA_32_def OP_PUSHDATA1_def OP_PUSHDATA2_def OP_PUSHDATA4_def OP_1_def OP_16_def
  OP_EQUAL_def OP_BLAKE2B_def OP_CHECKSIG_def OP_CHECKMULTISIG_def

definition get_at :: "'a list \<Rightarrow> nat \<Rightarrow> 'a option" where
  "get_at xs i = (if i < length xs then Some (xs ! i) else None)"

definition get_range :: "'a list \<Rightarrow> nat \<Rightarrow> nat \<Rightarrow> 'a list option" where
  "get_range xs a b = (if a \<le> b \<and> b \<le> length xs then Some (take (b - a) (drop a xs)) else None)"

record element =
  el_opcode :: u8
  el_data :: bytes

definition is_push :: "element \<Rightarrow> bool" where
  "is_push e \<longleftrightarrow> el_opcode e \<le> OP_PUSHDATA4"

definition little :: "nat \<Rightarrow> bytes \<Rightarrow> nat \<Rightarrow> bytes option" where
  "little n script at = get_range script at (at + n)"

definition read_element :: "bytes \<Rightarrow> nat \<Rightarrow> (element \<times> nat) option" where
  "read_element script at =
     Option.bind (get_at script at) (\<lambda>opcode.
     Option.bind
       (if 0x01 \<le> opcode \<and> opcode \<le> 0x4b then Some (1, unat opcode)
        else if opcode = OP_PUSHDATA1
        then Option.bind (get_at script (at + 1)) (\<lambda>b. Some (2, unat b))
        else if opcode = OP_PUSHDATA2
        then Option.bind (little 2 script (at + 1)) (\<lambda>bs. Some (3, unat (u16_from_le bs)))
        else if opcode = OP_PUSHDATA4
        then Option.bind (little 4 script (at + 1)) (\<lambda>bs. Some (5, unat (u32_from_le bs)))
        else Some (1, 0)) (\<lambda>(header, len).
     let start = at + header; end = start + len in
     Option.bind (get_range script start end) (\<lambda>data.
       Some (\<lparr>el_opcode = opcode, el_data = data\<rparr>, end))))"

record elements_iter =
  it_script :: bytes
  it_at :: nat
  it_malformed :: bool

definition elements :: "bytes \<Rightarrow> elements_iter" where
  "elements script = \<lparr>it_script = script, it_at = 0, it_malformed = False\<rparr>"

definition is_complete :: "elements_iter \<Rightarrow> bool" where
  "is_complete it \<longleftrightarrow> \<not> it_malformed it \<and> it_at it = length (it_script it)"

definition elements_next :: "elements_iter \<Rightarrow> element option \<times> elements_iter" where
  "elements_next it =
     (if it_malformed it \<or> it_at it = length (it_script it) then (None, it)
      else case read_element (it_script it) (it_at it) of
             None \<Rightarrow> (None, it\<lparr>it_malformed := True\<rparr>)
           | Some (e, at) \<Rightarrow> (Some e, it\<lparr>it_at := at\<rparr>))"

definition MAX_SCRIPT_KEYS :: nat where "MAX_SCRIPT_KEYS = 16"
definition KEY_RECORD_LEN :: nat where "KEY_RECORD_LEN = 33"

record multisig_script =
  mu_threshold :: u8
  mu_records :: bytes

text \<open>\<open>as_chunks::<N>().0\<close>: the whole chunks of a slice; an incomplete last chunk is dropped.\<close>

function chunks :: "nat \<Rightarrow> 'a list \<Rightarrow> 'a list list" where
  "chunks n xs = (if n = 0 \<or> length xs < n then [] else take n xs # chunks n (drop n xs))"
  by auto
termination by (relation "measure (\<lambda>(n, xs). length xs)") auto

declare chunks.simps [simp del]

definition key_count :: "multisig_script \<Rightarrow> u8" where
  "key_count m = word_of_nat (length (mu_records m) div KEY_RECORD_LEN)"

definition multisig_key :: "multisig_script \<Rightarrow> u8 \<Rightarrow> bytes option" where
  "multisig_key m pos =
     (let start = unat pos * KEY_RECORD_LEN + 1 in get_range (mu_records m) start (start + 32))"

definition multisig_keys :: "multisig_script \<Rightarrow> bytes list" where
  "multisig_keys m = map (drop 1) (chunks KEY_RECORD_LEN (mu_records m))"

fun find_index :: "('a \<Rightarrow> bool) \<Rightarrow> 'a list \<Rightarrow> nat option" where
  "find_index P [] = None"
| "find_index P (x # xs) = (if P x then Some 0 else map_option Suc (find_index P xs))"

definition position_of :: "multisig_script \<Rightarrow> bytes \<Rightarrow> u8 option" where
  "position_of m key =
     Option.bind (find_index (\<lambda>candidate. candidate = key) (multisig_keys m))
       (\<lambda>pos. if pos < 256 then Some (word_of_nat pos) else None)"

definition small_int :: "u8 \<Rightarrow> u8 option" where
  "small_int opcode = (if OP_1 \<le> opcode \<and> opcode \<le> OP_16 then Some (opcode - OP_1 + 1) else None)"

fun split_first :: "'a list \<Rightarrow> ('a \<times> 'a list) option" where
  "split_first [] = None"
| "split_first (x # xs) = Some (x, xs)"

definition split_last :: "'a list \<Rightarrow> ('a \<times> 'a list) option" where
  "split_last xs = (if xs = [] then None else Some (List.last xs, butlast xs))"

definition multisig_parse :: "bytes \<Rightarrow> multisig_script option" where
  "multisig_parse script =
     Option.bind (split_first script) (\<lambda>(op_m, rest).
     Option.bind (split_last rest) (\<lambda>(op_check, rest).
     Option.bind (split_last rest) (\<lambda>(declared, records).
     Option.bind (small_int op_m) (\<lambda>threshold.
     Option.bind (small_int declared) (\<lambda>count.
       if op_check = OP_CHECKMULTISIG \<and> threshold \<le> count
          \<and> length records = unat count * KEY_RECORD_LEN
          \<and> list_all (\<lambda>rec. rec ! 0 = OP_DATA_32) (chunks KEY_RECORD_LEN records)
       then Some \<lparr>mu_threshold = threshold, mu_records = records\<rparr> else None)))))"

definition encoded_len :: "nat \<Rightarrow> nat" where
  "encoded_len count = count * KEY_RECORD_LEN + 3"

definition multisig_encode :: "u8 \<Rightarrow> bytes list \<Rightarrow> bytes \<Rightarrow> (nat \<times> bytes) option" where
  "multisig_encode threshold keys out =
     (if length keys \<ge> 256 then None
      else let count = word_of_nat (length keys) :: u8;
               len = encoded_len (length keys)
           in if len \<le> length out \<and> threshold \<ge> 1 \<and> threshold \<le> count \<and> length keys \<le> MAX_SCRIPT_KEYS
              then Some (len, [OP_1 + threshold - 1] @ concat (map (\<lambda>key. OP_DATA_32 # key) keys)
                              @ [OP_1 + count - 1, OP_CHECKMULTISIG] @ drop len out)
              else None)"

section \<open>Elements\<close>

lemma get_at_0 [simp]: "get_at [] i = None" "get_at (x # xs) 0 = Some x" "get_at (x # xs) (Suc i) = get_at xs i"
  by (auto simp: get_at_def)

lemma get_at_append: "get_at (p @ s) (length p + i) = get_at s i"
  by (auto simp: get_at_def)

lemma get_range_append: "get_range (p @ s) (length p + i) (length p + j) = get_range s i j"
  by (auto simp: get_range_def)

lemma get_range_Some:
  "get_range xs a b = Some ys \<longleftrightarrow> a \<le> b \<and> b \<le> length xs \<and> ys = take (b - a) (drop a xs)"
  by (auto simp: get_range_def)

text \<open>The bytes an element was read from: the opcode, the length field of its class and the data.\<close>

definition length_field :: "u8 \<Rightarrow> nat \<Rightarrow> bytes" where
  "length_field opcode n =
     (if opcode = OP_PUSHDATA1 then [word_of_nat n]
      else if opcode = OP_PUSHDATA2 then u16_to_le (word_of_nat n)
      else if opcode = OP_PUSHDATA4 then u32_to_le (word_of_nat n) else [])"

definition element_bytes :: "element \<Rightarrow> bytes" where
  "element_bytes e = el_opcode e # length_field (el_opcode e) (length (el_data e)) @ el_data e"

definition element_ok :: "element \<Rightarrow> bool" where
  "element_ok e \<longleftrightarrow>
     (if 0x01 \<le> el_opcode e \<and> el_opcode e \<le> 0x4b then length (el_data e) = unat (el_opcode e)
      else if el_opcode e = OP_PUSHDATA1 then length (el_data e) < 2 ^ 8
      else if el_opcode e = OP_PUSHDATA2 then length (el_data e) < 2 ^ 16
      else if el_opcode e = OP_PUSHDATA4 then length (el_data e) < 2 ^ 32
      else el_data e = [])"


text \<open>The header of an element: its size and the length of the data that follows.\<close>

definition element_header :: "u8 \<Rightarrow> bytes \<Rightarrow> (nat \<times> nat) option" where
  "element_header opcode rest =
     (if 0x01 \<le> opcode \<and> opcode \<le> 0x4b then Some (1, unat opcode)
      else if opcode = OP_PUSHDATA1
      then if rest = [] then None else Some (2, unat (hd rest))
      else if opcode = OP_PUSHDATA2
      then if length rest < 2 then None else Some (3, unat (u16_from_le (take 2 rest)))
      else if opcode = OP_PUSHDATA4
      then if length rest < 4 then None else Some (5, unat (u32_from_le (take 4 rest)))
      else Some (1, 0))"

lemma read_element_header:
  "read_element (p @ opcode # rest) (length p) =
     Option.bind (element_header opcode rest) (\<lambda>(header, len).
       if len \<le> length rest - (header - 1)
       then Some (\<lparr>el_opcode = opcode, el_data = take len (drop (header - 1) rest)\<rparr>, length p + header + len)
       else None)"
proof -
  let ?s = "p @ opcode # rest"
  have at: "get_at ?s (length p) = Some opcode" using get_at_append [of p "opcode # rest" 0] by simp
  have h1: "Option.bind (get_at ?s (length p + 1)) (\<lambda>b. Some (2, unat b)) =
      (if rest = [] then None else Some (2 :: nat, unat (hd rest)))"
    using get_at_append [of p "opcode # rest" 1] by (cases rest) simp_all
  have h: "little n ?s (length p + 1) = (if length rest < n then None else Some (take n rest))" for n
    using get_range_append [of p "opcode # rest" 1 "n + 1"] by (auto simp: little_def get_range_def)
  have d: "get_range ?s (Suc (length p + a)) (Suc (length p + a + n)) =
      (if n \<le> length rest - a \<and> a \<le> length rest then Some (take n (drop a rest)) else None)" for a n
    by (auto simp: get_range_def)
  have e: "element_header opcode rest = Some (header, len) \<Longrightarrow>
      \<exists>a. header = Suc a \<and> a \<le> length rest" for header len
    by (auto simp: element_header_def numeral_eq_Suc Suc_le_eq split: if_splits)
  have "read_element ?s (length p) =
     Option.bind (element_header opcode rest) (\<lambda>(header, len).
     Option.bind (get_range ?s (length p + header) (length p + header + len)) (\<lambda>data.
       Some (\<lparr>el_opcode = opcode, el_data = data\<rparr>, length p + header + len)))"
    unfolding read_element_def at Let_def h1 h element_header_def
    by (simp cong: if_cong)
  then show ?thesis using e by (auto simp: d split: Option.bind_splits)
qed

lemma read_element_end: "read_element p (length p) = None"
  by (simp add: read_element_def get_at_def)

lemma length_field_header:
  assumes "element_ok e"
  shows "element_header (el_opcode e) (length_field (el_opcode e) (length (el_data e)) @ el_data e @ s) =
    Some (Suc (length (length_field (el_opcode e) (length (el_data e)))), length (el_data e))"
  using assms
  by (auto simp: element_header_def length_field_def element_ok_def opcode_defs split: if_splits)

lemma take_take_drop_split: "take a xs @ take b (drop a xs) @ drop (a + b) xs = xs"
  by (metis add.commute append_take_drop_id drop_drop)

lemma element_header_field:
  assumes "element_header opcode rest = Some (header, len)" "len \<le> length rest - (header - 1)"
    and "e = \<lparr>el_opcode = opcode, el_data = take len (drop (header - 1) rest)\<rparr>"
  shows "element_ok e \<and> length (el_data e) = len \<and> header = Suc (length (length_field opcode len))
    \<and> rest = length_field opcode len @ el_data e @ drop (header - 1 + len) rest"
proof -
  have f2: "u16_to_le (u16_from_le (take 2 rest)) = take 2 rest" if "\<not> length rest < 2"
    using that by (intro u16_codec.enc_dec) simp
  have f4: "u32_to_le (u32_from_le (take 4 rest)) = take 4 rest" if "\<not> length rest < 4"
    using that by (intro u32_codec.enc_dec) simp
  have ok: "element_ok e \<and> length (el_data e) = len"
    using assms unat_bound [of "hd rest"] unat_bound [of "u16_from_le (take 2 rest)"]
      unat_bound [of "u32_from_le (take 4 rest)"]
    by (auto simp: element_header_def element_ok_def split: if_splits)
  have lf: "header = Suc (length (length_field opcode len)) \<and> length_field opcode len = take (header - 1) rest"
    using assms(1) f2 f4
    by (cases rest) (auto simp: element_header_def length_field_def opcode_defs split: if_splits)
  have "rest = take (header - 1) rest @ el_data e @ drop (header - 1 + len) rest"
    by (simp only: assms(3) element.select_convs take_take_drop_split)
  then have "rest = length_field opcode len @ el_data e @ drop (header - 1 + len) rest"
    using lf by metis
  with ok lf show ?thesis by blast
qed

lemma read_element_bytes:
  assumes "element_ok e"
  shows "read_element (p @ element_bytes e @ s) (length p) = Some (e, length p + length (element_bytes e))"
  using read_element_header [of p "el_opcode e" "length_field (el_opcode e) (length (el_data e)) @ el_data e @ s"]
    length_field_header [OF assms, of s]
  by (simp add: element_bytes_def)

lemma read_element_inv:
  assumes "read_element script at = Some (e, n)"
  shows "element_ok e \<and> n = at + length (element_bytes e) \<and> n \<le> length script
    \<and> script = take at script @ element_bytes e @ drop n script"
proof -
  have "at < length script" using assms by (auto simp: read_element_def get_at_def split: Option.bind_splits if_splits)
  then obtain p opcode rest where s: "script = p @ opcode # rest" "at = length p"
    by (metis id_take_nth_drop length_take min.absorb4)
  from assms obtain header len where
    h: "element_header opcode rest = Some (header, len)" "len \<le> length rest - (header - 1)"
    and e: "e = \<lparr>el_opcode = opcode, el_data = take len (drop (header - 1) rest)\<rparr>" "n = at + header + len"
    unfolding s read_element_header by (auto split: Option.bind_splits if_splits)
  have f: "element_ok e" "length (el_data e) = len" "header = Suc (length (length_field opcode len))"
    "rest = length_field opcode len @ el_data e @ drop (header - 1 + len) rest"
    using element_header_field [OF h e(1)] by auto
  have b: "element_bytes e = opcode # length_field opcode len @ el_data e"
    using f(2) e(1) by (simp add: element_bytes_def)
  have "drop n script = drop (header - 1 + len) rest" using e(2) f(3) by (simp add: s)
  then have "script = p @ element_bytes e @ drop n script" using f(4) by (simp add: s b)
  moreover have n: "n = at + length (element_bytes e)" using e(2) f(2,3) by (simp add: b)
  moreover have "length rest = length (length_field opcode len) + len + length (drop (header - 1 + len) rest)"
    using f(2) arg_cong [OF f(4), of length] by simp
  then have "n \<le> length script" using n s f(2) by (simp add: b)
  ultimately show ?thesis using f(1) s(2) by (simp add: s(1))
qed

text \<open>A consumer that exhausts the iterator: the elements it saw and the iterator it is left with.\<close>

function walk :: "elements_iter \<Rightarrow> element list \<times> elements_iter" where
  "walk it =
     (case elements_next it of
        (None, it) \<Rightarrow> ([], it)
      | (Some e, it) \<Rightarrow> (let (es, it) = walk it in (e # es, it)))"
  by auto
termination
proof (relation "measure (\<lambda>it. length (it_script it) - it_at it)", goal_cases)
  case (2 it r it' e)
  then have "it_at it < length (it_script it)"
    by (auto simp: elements_next_def read_element_def get_at_def split: if_splits option.splits Option.bind_splits)
  with 2 show ?case
    by (auto simp: elements_next_def element_bytes_def split: if_splits option.splits dest!: read_element_inv)
qed simp

declare walk.simps [simp del]

definition iter_at :: "bytes \<Rightarrow> nat \<Rightarrow> bool \<Rightarrow> elements_iter" where
  "iter_at script at bad = \<lparr>it_script = script, it_at = at, it_malformed = bad\<rparr>"

lemma walk_bytes:
  "list_all element_ok es \<Longrightarrow>
   walk (iter_at (p @ concat (map element_bytes es)) (length p) False) =
     (es, iter_at (p @ concat (map element_bytes es)) (length (p @ concat (map element_bytes es))) False)"
proof (induction es arbitrary: p)
  case Nil
  then show ?case by (subst walk.simps) (simp add: elements_next_def iter_at_def)
next
  case (Cons e es)
  have "elements_next (iter_at (p @ element_bytes e @ concat (map element_bytes es)) (length p) False) =
      (Some e, iter_at ((p @ element_bytes e) @ concat (map element_bytes es)) (length (p @ element_bytes e)) False)"
    using read_element_bytes [of e p "concat (map element_bytes es)"] Cons.prems
    by (simp add: elements_next_def iter_at_def) (simp add: element_bytes_def)
  then show ?case
    using Cons.IH [of "p @ element_bytes e"] Cons.prems by (subst walk.simps) simp
qed

lemma walk_inv:
  "walk it = (es, it') \<Longrightarrow> it_at it \<le> length (it_script it) \<Longrightarrow> is_complete it' \<Longrightarrow>
   list_all element_ok es \<and> drop (it_at it) (it_script it) = concat (map element_bytes es)"
proof (induction it arbitrary: es rule: walk.induct)
  case (1 it)
  obtain r nxt where n: "elements_next it = (r, nxt)" by (cases "elements_next it")
  show ?case
  proof (cases r)
    case None
    with 1(2) n have es: "es = []" "it' = nxt" by (simp_all add: walk.simps [of it])
    with 1(4) n None show ?thesis
      by (auto simp: elements_next_def is_complete_def split: if_splits option.splits)
  next
    case (Some e)
    from 1(2) n Some obtain es' where w: "walk nxt = (es', it')" "es = e # es'"
      by (auto simp: walk.simps [of it] split: prod.splits)
    from n Some have r: "read_element (it_script it) (it_at it) = Some (e, it_at nxt)" "it_script nxt = it_script it"
      by (auto simp: elements_next_def split: if_splits option.splits)
    note i = read_element_inv [OF r(1)]
    have "list_all element_ok es' \<and> drop (it_at nxt) (it_script nxt) = concat (map element_bytes es')"
      using 1(1) [OF n [symmetric] Some w(1)] i r(2) 1(4) by simp
    moreover have "drop (it_at it) (it_script it) = element_bytes e @ drop (it_at nxt) (it_script it)"
      using i 1(3) by (metis append_eq_conv_conj length_take min.absorb2)
    ultimately show ?thesis using i w(2) r(2) by simp
  qed
qed

section \<open>Multisig scripts\<close>

lemma chunks_concat:
  "0 < n \<Longrightarrow> list_all (\<lambda>x. length x = n) xs \<Longrightarrow> chunks n (concat xs) = xs"
  by (induction xs) (subst chunks.simps, simp)+

lemma concat_chunks: "n dvd length xs \<Longrightarrow> 0 < n \<Longrightarrow> concat (chunks n xs) = xs"
proof (induction n xs rule: chunks.induct)
  case (1 n xs)
  show ?case
  proof (cases "length xs < n")
    case True
    with 1 have "xs = []" by (metis dvd_imp_le length_0_conv leD neq0_conv)
    with 1 show ?thesis by (subst chunks.simps) simp
  next
    case False
    with 1 show ?thesis by (subst chunks.simps) (simp add: dvd_minus_self)
  qed
qed

lemma chunks_length: "list_all (\<lambda>x. length x = n) (chunks n xs)"
  by (induction n xs rule: chunks.induct) (subst chunks.simps, simp)

lemma length_chunks: "0 < n \<Longrightarrow> length (chunks n xs) = length xs div n"
proof (induction n xs rule: chunks.induct)
  case (1 n xs)
  then show ?case by (subst chunks.simps) (auto simp: le_div_geq [of n "length xs"] not_less)
qed

text \<open>The bytes of the \<open>threshold\<close>-of-\<open>keys\<close> script.\<close>

definition multisig_bytes :: "u8 \<Rightarrow> bytes list \<Rightarrow> bytes" where
  "multisig_bytes threshold keys =
     (OP_1 + threshold - 1) # concat (map (\<lambda>key. OP_DATA_32 # key) keys)
       @ [OP_1 + word_of_nat (length keys) - 1, OP_CHECKMULTISIG]"

definition multisig_valid :: "u8 \<Rightarrow> bytes list \<Rightarrow> bool" where
  "multisig_valid threshold keys \<longleftrightarrow>
     1 \<le> unat threshold \<and> unat threshold \<le> length keys \<and> length keys \<le> MAX_SCRIPT_KEYS
     \<and> list_all (\<lambda>key. length key = 32) keys"

lemma length_key_records:
  "list_all (\<lambda>key. length key = 32) keys \<Longrightarrow>
   length (concat (map (\<lambda>key. OP_DATA_32 # key) keys)) = length keys * KEY_RECORD_LEN"
  by (induction keys) (auto simp: KEY_RECORD_LEN_def)

lemma length_multisig_bytes:
  "list_all (\<lambda>key. length key = 32) keys \<Longrightarrow> length (multisig_bytes t keys) = encoded_len (length keys)"
  using length_key_records [of keys] by (simp add: multisig_bytes_def encoded_len_def)

lemma small_int_op: "1 \<le> unat t \<Longrightarrow> unat t \<le> 16 \<Longrightarrow> small_int (OP_1 + t - 1) = Some t"
proof -
  assume "1 \<le> unat t" "unat t \<le> 16"
  then have "unat (OP_1 + t - 1) = 80 + unat t" by (simp add: OP_1_def unat_word_ariths unat_sub word_le_nat_alt)
  then show ?thesis using \<open>1 \<le> unat t\<close> \<open>unat t \<le> 16\<close>
    by (auto simp: small_int_def opcode_defs word_le_nat_alt)
qed

lemma small_int_Some: "small_int c = Some t \<Longrightarrow> 1 \<le> unat t \<and> unat t \<le> 16 \<and> c = OP_1 + t - 1"
  by (auto simp: small_int_def opcode_defs word_le_nat_alt unat_word_ariths unat_sub split: if_splits)

lemma u8_count_le: "unat t \<le> n \<Longrightarrow> n < 256 \<Longrightarrow> t \<le> (word_of_nat n :: u8)"
  by (simp add: word_le_nat_alt)

lemma multisig_parse_bytes:
  assumes "multisig_valid t keys"
  shows "multisig_parse (multisig_bytes t keys) =
    Some \<lparr>mu_threshold = t, mu_records = concat (map (\<lambda>key. OP_DATA_32 # key) keys)\<rparr>"
proof -
  let ?r = "map (\<lambda>key. OP_DATA_32 # key) keys"
  have v: "1 \<le> unat t" "unat t \<le> length keys" "length keys \<le> 16" "list_all (\<lambda>key. length key = 32) keys"
    using assms by (auto simp: multisig_valid_def MAX_SCRIPT_KEYS_def)
  have s: "small_int (OP_1 + t - 1) = Some t"
    "small_int (OP_1 + word_of_nat (length keys) - 1) = Some (word_of_nat (length keys))"
    using v by (auto intro!: small_int_op)
  have c: "chunks KEY_RECORD_LEN (concat ?r) = ?r"
    using v(4) by (intro chunks_concat) (auto simp: KEY_RECORD_LEN_def list_all_iff)
  have l1: "split_last (concat ?r @ [a, b]) = Some (b, concat ?r @ [a])"
    and l2: "split_last (concat ?r @ [a]) = Some (a, concat ?r)" for a b
    by (simp_all add: split_last_def butlast_append)
  show ?thesis
    using v u8_count_le [of t "length keys"] length_key_records [OF v(4)]
    by (simp add: multisig_parse_def multisig_bytes_def l1 l2 s c list_all_iff)
qed

lemma multisig_keys_records:
  "list_all (\<lambda>key. length key = 32) keys \<Longrightarrow>
   multisig_keys \<lparr>mu_threshold = t, mu_records = concat (map (\<lambda>key. OP_DATA_32 # key) keys)\<rparr> = keys"
  using chunks_concat [of KEY_RECORD_LEN "map (\<lambda>key. OP_DATA_32 # key) keys"]
  by (auto simp: multisig_keys_def KEY_RECORD_LEN_def list_all_iff comp_def)

lemma split_last_Some: "split_last xs = Some (x, ys) \<longleftrightarrow> xs = ys @ [x]"
  by (auto simp: split_last_def)

lemma multisig_parse_Some:
  assumes "multisig_parse script = Some m"
  shows "multisig_valid (mu_threshold m) (multisig_keys m)
    \<and> script = multisig_bytes (mu_threshold m) (multisig_keys m)"
proof -
  obtain op_m declared records count where
    script: "script = op_m # records @ [declared, OP_CHECKMULTISIG]"
    and si: "small_int op_m = Some (mu_threshold m)" "small_int declared = Some count"
    and le: "mu_threshold m \<le> count"
    and len: "length records = unat count * KEY_RECORD_LEN"
    and data: "list_all (\<lambda>rec. rec ! 0 = OP_DATA_32) (chunks KEY_RECORD_LEN records)"
    and m: "mu_records m = records"
    using assms
    by (cases script) (auto simp: multisig_parse_def split_last_Some split: Option.bind_splits if_splits)
  have n: "length (chunks KEY_RECORD_LEN records) = unat count"
    using length_chunks [of KEY_RECORD_LEN records] len by (simp add: KEY_RECORD_LEN_def)
  have "x ! 0 = OP_DATA_32 \<and> length x = 33" if "x \<in> set (chunks KEY_RECORD_LEN records)" for x
    using that data chunks_length [of KEY_RECORD_LEN records] by (simp add: list_all_iff KEY_RECORD_LEN_def)
  then have "OP_DATA_32 # drop 1 x = x" if "x \<in> set (chunks KEY_RECORD_LEN records)" for x
    using that by (metis Cons_nth_drop_Suc One_nat_def drop0 zero_less_numeral)
  then have "map (\<lambda>key. OP_DATA_32 # key) (multisig_keys m) = chunks KEY_RECORD_LEN records"
    by (simp add: multisig_keys_def m comp_def map_idI)
  moreover have "concat (chunks KEY_RECORD_LEN records) = records"
    using len by (intro concat_chunks) (auto simp: KEY_RECORD_LEN_def)
  moreover have "list_all (\<lambda>key. length key = 32) (multisig_keys m)"
    using chunks_length [of KEY_RECORD_LEN records] by (auto simp: multisig_keys_def m list_all_iff KEY_RECORD_LEN_def)
  moreover have "length (multisig_keys m) = unat count" using n by (simp add: multisig_keys_def m)
  ultimately show ?thesis
    using small_int_Some [OF si(1)] small_int_Some [OF si(2)] le script
    by (simp add: multisig_valid_def multisig_bytes_def MAX_SCRIPT_KEYS_def word_le_nat_alt)
qed

lemma multisig_encode_Some:
  "multisig_encode t keys out = Some r \<longleftrightarrow>
     1 \<le> unat t \<and> unat t \<le> length keys \<and> length keys \<le> MAX_SCRIPT_KEYS
     \<and> encoded_len (length keys) \<le> length out
     \<and> r = (encoded_len (length keys), multisig_bytes t keys @ drop (encoded_len (length keys)) out)"
  by (auto simp: multisig_encode_def multisig_bytes_def Let_def word_le_nat_alt MAX_SCRIPT_KEYS_def)

section \<open>Properties\<close>

text \<open>
  The iterator over script elements. Exhausting it always ends, and it reports a complete script with the
  elements \<open>es\<close> exactly when the script is the concatenation of well-formed elements \<open>es\<close>: nothing is skipped,
  merged or read beyond the end, and every well-formed script is read to its last byte.
\<close>

theorem script_elements_exact:
  "(\<exists>it. walk (elements script) = (es, it) \<and> is_complete it) \<longleftrightarrow>
     list_all element_ok es \<and> script = concat (map element_bytes es)"
proof
  assume "\<exists>it. walk (elements script) = (es, it) \<and> is_complete it"
  then show "list_all element_ok es \<and> script = concat (map element_bytes es)"
    using walk_inv [of "elements script" es] by (auto simp: elements_def)
next
  assume "list_all element_ok es \<and> script = concat (map element_bytes es)"
  then show "\<exists>it. walk (elements script) = (es, it) \<and> is_complete it"
    using walk_bytes [of es "[]"] by (auto simp: elements_def iter_at_def is_complete_def)
qed

text \<open>
  The multisig codec is canonical. A script parses to threshold \<open>t\<close> and keys \<open>keys\<close> exactly when these are a
  valid choice (\<open>1 <= t <= n <= 16\<close>, keys of 32 bytes) and the encoder writes that very script into every buffer
  that is long enough, leaving the bytes behind it alone.
\<close>

theorem multisig_codec_canonical:
  assumes "length script \<le> length out" and "\<forall>key \<in> set keys. length key = 32"
  shows "(\<exists>m. multisig_parse script = Some m \<and> mu_threshold m = t \<and> multisig_keys m = keys) \<longleftrightarrow>
    multisig_encode t keys out = Some (length script, script @ drop (length script) out)"
proof
  assume "\<exists>m. multisig_parse script = Some m \<and> mu_threshold m = t \<and> multisig_keys m = keys"
  then have "multisig_valid t keys" "script = multisig_bytes t keys" using multisig_parse_Some by blast+
  then show "multisig_encode t keys out = Some (length script, script @ drop (length script) out)"
    using assms length_multisig_bytes [of keys t] by (simp add: multisig_encode_Some multisig_valid_def)
next
  assume "multisig_encode t keys out = Some (length script, script @ drop (length script) out)"
  then have "multisig_valid t keys" "script = multisig_bytes t keys"
    using assms(2) by (auto simp: multisig_encode_Some multisig_valid_def list_all_iff)
  then show "\<exists>m. multisig_parse script = Some m \<and> mu_threshold m = t \<and> multisig_keys m = keys"
    using multisig_parse_bytes multisig_keys_records by (fastforce simp: multisig_valid_def)
qed

definition sample_keys :: "bytes list" where
  "sample_keys = [replicate 32 7, replicate 32 9]"

theorem multisig_codec_canonical_witness:
  "(\<exists>m. multisig_parse (multisig_bytes 2 sample_keys) = Some m \<and> mu_threshold m = 2 \<and> multisig_keys m = sample_keys)
   \<and> multisig_encode 2 sample_keys (replicate 80 0) = Some (69, multisig_bytes 2 sample_keys @ replicate 11 0)"
  using multisig_codec_canonical [of "multisig_bytes 2 sample_keys" "replicate 80 0" sample_keys 2]
    length_multisig_bytes [of sample_keys 2] multisig_encode_Some [of 2 sample_keys "replicate 80 0"]
  by (simp add: sample_keys_def encoded_len_def KEY_RECORD_LEN_def MAX_SCRIPT_KEYS_def)

end
