(* ===== verification/Address.thy ===== *)
theory Address
  imports Network_Id Script
begin

text \<open>
  Kaspa addresses (\<open>primitives/address/mod.rs\<close>): the 8-to-5 bit regrouping, the 40-bit BCH checksum,
  encoding and decoding of address text, and the conversion between addresses and standard locking scripts.

  A Rust \<open>&str\<close> is its UTF-8 bytes as a HOL \<open>string\<close>; an error \<open>String\<close> is a value of \<open>address_error\<close>, one
  constructor per message. BLAKE2b is third-party code and is the parameter \<open>blake2b_256\<close> of the functions
  that hash a redeem script.

  The proofs rest on two views. \<open>convert_bits\<close> is regrouping of one bit string (\<open>bits_of\<close>), and one
  round of \<open>polymod\<close> is linear for exclusive or, so the eight checksum characters are determined by the
  rest of the address.
\<close>

unbundle bit_operations_syntax

section \<open>Definitions\<close>

definition CHARSET :: string where "CHARSET = ''qpzry9x8gf2tvdw0s3jn54khce6mua7l''"
definition CHECKSUM_LEN :: nat where "CHECKSUM_LEN = 8"
definition GEN :: "u64 list" where
  "GEN = [0x98f2bc8e61, 0x79b76d99e2, 0xf33e5fb3c4, 0xae2eabe2a8, 0x1e4f43e470]"
definition MAX_ADDR_LEN :: nat where "MAX_ADDR_LEN = 80"

datatype address_error =
    UnknownPrefix | AddressTooShort | InvalidCharacter u8 | ChecksumMismatch | InvalidDataValue
  | InvalidPadding | EmptyPayload | UnknownAddressVersion u8 | InvalidPayloadLength nat u8
  | UnsupportedAddressVersion u8 | UnsupportedPayloadLength nat | UnsupportedScriptVersion u8
  | WrongNetwork string string

datatype address_type = P2pk | P2pkEcdsa | P2sh

fun address_type_byte :: "address_type \<Rightarrow> u8" where
  "address_type_byte P2pk = 0x00"
| "address_type_byte P2pkEcdsa = 0x01"
| "address_type_byte P2sh = 0x08"

datatype kaspa_network = KUnknown | KMainnet | KTestnet | KDevnet | KSimnet

fun hrp :: "kaspa_network \<Rightarrow> string option" where
  "hrp KUnknown = None"
| "hrp KMainnet = Some ''kaspa''"
| "hrp KTestnet = Some ''kaspatest''"
| "hrp KDevnet = Some ''kaspadev''"
| "hrp KSimnet = Some ''kaspasim''"

fun network_label :: "kaspa_network \<Rightarrow> string" where
  "network_label KUnknown = ''NETWORK UNKNOWN''"
| "network_label KMainnet = ''MAINNET''"
| "network_label KTestnet = ''TESTNET''"
| "network_label KDevnet = ''DEVNET''"
| "network_label KSimnet = ''SIMNET''"

definition from_hrp :: "string \<Rightarrow> kaspa_network option" where
  "from_hrp h = find (\<lambda>network. hrp network = Some h) [KMainnet, KTestnet, KDevnet, KSimnet]"

definition from_name :: "string \<Rightarrow> kaspa_network option" where
  "from_name name =
     (if name = ''mainnet'' then Some KMainnet
      else if name = ''testnet'' \<or> name = ''kaspatest'' then Some KTestnet
      else if name = ''devnet'' \<or> name = ''kaspadev'' then Some KDevnet
      else if name = ''simnet'' \<or> name = ''kaspasim'' then Some KSimnet
      else case network_parse name of
             Err _ \<Rightarrow> None
           | Ok network \<Rightarrow>
               if testnet_suffix network \<noteq> None \<and> canonical_name network = name then Some KTestnet else None)"

definition from_wire :: "u8 \<Rightarrow> kaspa_network option" where
  "from_wire v =
     (if v = 1 then Some KMainnet else if v = 2 then Some KTestnet
      else if v = 3 then Some KDevnet else if v = 4 then Some KSimnet else None)"

text \<open>The \<open>while bits >= to\<close> loop of \<open>convert_bits\<close>; both callers pass a positive \<open>to\<close>.\<close>

function drain_bits :: "nat \<Rightarrow> u32 \<Rightarrow> nat \<Rightarrow> u8 list \<Rightarrow> nat \<times> u8 list" where
  "drain_bits to accumulator bits output =
     (if to = 0 \<or> bits < to then (bits, output)
      else drain_bits to accumulator (bits - to)
             (output @ [ucast (drop_bit (bits - to) accumulator AND mask to)]))"
  by auto
termination by (relation "measure (\<lambda>(to, accumulator, bits, output). bits)") auto

declare drain_bits.simps [simp del]

fun regroup :: "nat \<Rightarrow> nat \<Rightarrow> u8 list \<Rightarrow> u32 \<Rightarrow> nat \<Rightarrow> u8 list \<Rightarrow> address_error + u32 \<times> nat \<times> u8 list" where
  "regroup from to [] accumulator bits output = Ok (accumulator, bits, output)"
| "regroup from to (v # vs) accumulator bits output =
     (if drop_bit from (ucast v :: u32) \<noteq> 0 then Err InvalidDataValue
      else let accumulator = push_bit from accumulator + ucast v;
               (bits, output) = drain_bits to accumulator (bits + from) output
           in regroup from to vs accumulator bits output)"

definition convert_bits :: "u8 list \<Rightarrow> nat \<Rightarrow> nat \<Rightarrow> bool \<Rightarrow> address_error + u8 list" where
  "convert_bits data from to pad =
     rbind (regroup from to data 0 0 []) (\<lambda>(accumulator, bits, output).
       if pad then
         (if bits > 0 then Ok (output @ [ucast (push_bit (to - bits) accumulator AND mask to)]) else Ok output)
       else if bits \<ge> from \<or> push_bit (to - bits) accumulator AND mask to \<noteq> 0 then Err InvalidPadding
       else Ok output)"

definition polymod_step :: "u64 \<Rightarrow> u8 \<Rightarrow> u64" where
  "polymod_step checksum v =
     (let top = drop_bit 35 checksum;
          checksum = push_bit 5 (checksum AND 0x7ffffffff) + ucast v
      in foldl (\<lambda>checksum (index, generator).
                  if drop_bit index top AND 1 = 1 then checksum XOR generator else checksum)
           checksum (enumerate 0 GEN))"

definition polymod :: "u8 list \<Rightarrow> u64" where
  "polymod values = foldl polymod_step 1 values"

definition prefix_values :: "string \<Rightarrow> u8 list" where
  "prefix_values p = map (\<lambda>byte. of_char byte AND 0x1f) p"

definition create_checksum :: "string \<Rightarrow> u8 list \<Rightarrow> u64" where
  "create_checksum p payload =
     polymod (prefix_values p @ [0] @ payload @ replicate CHECKSUM_LEN 0) XOR 1"

definition verify_checksum :: "string \<Rightarrow> u8 list \<Rightarrow> address_error + unit" where
  "verify_checksum p values =
     (if polymod (prefix_values p @ [0] @ values) = 1 then Ok () else Err ChecksumMismatch)"

definition encode_address_bytes :: "bytes \<Rightarrow> u8 \<Rightarrow> string \<Rightarrow> string" where
  "encode_address_bytes payload version p =
     (case convert_bits (version # payload) 8 5 True of
        Err _ \<Rightarrow> []
      | Ok data \<Rightarrow>
          let checksum = create_checksum p data in
          p @ '':'' @ map (\<lambda>v. CHARSET ! unat v) data
            @ map (\<lambda>index. CHARSET ! unat (drop_bit (5 * (CHECKSUM_LEN - 1 - index)) checksum AND 0x1f))
                [0..<CHECKSUM_LEN])"

fun split_once :: "char \<Rightarrow> string \<Rightarrow> (string \<times> string) option" where
  "split_once sep [] = None"
| "split_once sep (c # cs) =
     (if c = sep then Some ([], cs) else map_option (apfst ((#) c)) (split_once sep cs))"

definition split_address :: "string \<Rightarrow> address_error + string \<times> string" where
  "split_address addr =
     (case split_once CHR '':'' addr of
        None \<Rightarrow> Err UnknownPrefix
      | Some (p, data) \<Rightarrow>
          if p \<notin> {''kaspa'', ''kaspatest'', ''kaspasim'', ''kaspadev''} then Err UnknownPrefix
          else if length data < 9 then Err AddressTooShort
          else Ok (p, data))"

definition decode_char :: "char \<Rightarrow> address_error + u8" where
  "decode_char byte =
     ok_or (map_option word_of_nat (find_index (\<lambda>candidate. candidate = byte) CHARSET))
       (InvalidCharacter (of_char byte))"

fun decode_chars :: "string \<Rightarrow> address_error + u8 list" where
  "decode_chars [] = Ok []"
| "decode_chars (c # cs) = rbind (decode_char c) (\<lambda>v. rbind (decode_chars cs) (\<lambda>vs. Ok (v # vs)))"

definition payload_length_for_version :: "u8 \<Rightarrow> nat option" where
  "payload_length_for_version version =
     (if version = 0x00 \<or> version = 0x08 then Some 32 else if version = 0x01 then Some 33 else None)"

record decoded_address =
  da_version :: u8
  da_payload :: bytes

definition decode_address_bytes :: "string \<Rightarrow> address_error + decoded_address" where
  "decode_address_bytes addr =
     rbind (split_address addr) (\<lambda>(p, data_part).
     rbind (decode_chars data_part) (\<lambda>values.
     if length values \<le> CHECKSUM_LEN then Err AddressTooShort
     else rbind (verify_checksum p values) (\<lambda>_.
     rbind (convert_bits (take (length values - CHECKSUM_LEN) values) 5 8 False) (\<lambda>decoded.
     case split_first decoded of
       None \<Rightarrow> Err EmptyPayload
     | Some (version, payload) \<Rightarrow>
         rbind (ok_or (payload_length_for_version version) (UnknownAddressVersion version)) (\<lambda>expected.
         if length payload \<noteq> expected then Err (InvalidPayloadLength (length payload) version)
         else Ok \<lparr>da_version = version, da_payload = payload\<rparr>)))))"

definition encode_address_text :: "bytes \<Rightarrow> u8 \<Rightarrow> string \<Rightarrow> string" where
  "encode_address_text payload version p = encode_address_bytes payload version p"

definition encode_p2pk_address :: "bytes \<Rightarrow> string \<Rightarrow> string" where
  "encode_p2pk_address pubkey p = encode_address_text pubkey (address_type_byte P2pk) p"

definition encode_p2sh_address :: "bytes \<Rightarrow> string \<Rightarrow> string" where
  "encode_p2sh_address script_hash p = encode_address_text script_hash (address_type_byte P2sh) p"

definition script_hash :: "(bytes \<Rightarrow> bytes) \<Rightarrow> bytes \<Rightarrow> bytes" where
  "script_hash blake2b_256 redeem_script = blake2b_256 redeem_script"

definition script_to_p2sh_address :: "(bytes \<Rightarrow> bytes) \<Rightarrow> bytes \<Rightarrow> string \<Rightarrow> string" where
  "script_to_p2sh_address blake2b_256 redeem_script p =
     encode_p2sh_address (script_hash blake2b_256 redeem_script) p"

definition encode_address_for_network :: "bytes \<Rightarrow> address_type \<Rightarrow> kaspa_network \<Rightarrow> string \<Rightarrow> nat \<times> string" where
  "encode_address_for_network pubkey addr_type network out =
     (case hrp network of
        None \<Rightarrow> (0, out)
      | Some p \<Rightarrow>
          if payload_length_for_version (address_type_byte addr_type) \<noteq> Some (length pubkey) then (0, out)
          else let txt = encode_address_bytes pubkey (address_type_byte addr_type) p
               in (length txt, txt @ drop (length txt) out))"

definition encode_address :: "bytes \<Rightarrow> address_type \<Rightarrow> string \<Rightarrow> nat \<times> string" where
  "encode_address pubkey addr_type out = encode_address_for_network pubkey addr_type KMainnet out"

definition encode_p2pk :: "bytes \<Rightarrow> string \<Rightarrow> nat \<times> string" where
  "encode_p2pk pubkey out = encode_address pubkey P2pk out"

definition decode_address :: "string \<Rightarrow> address_error + u8 \<times> bytes" where
  "decode_address addr =
     rbind (decode_address_bytes addr) (\<lambda>decoded.
     if da_version decoded \<noteq> 0x00 \<and> da_version decoded \<noteq> 0x08
     then Err (UnsupportedAddressVersion (da_version decoded))
     else if length (da_payload decoded) \<noteq> 32
     then Err (UnsupportedPayloadLength (length (da_payload decoded)))
     else Ok (da_version decoded, da_payload decoded))"

definition address_prefix :: "string \<Rightarrow> address_error + string" where
  "address_prefix addr = rbind (split_address addr) (\<lambda>(p, _). Ok p)"

definition p2pk_script :: "bytes \<Rightarrow> bytes" where
  "p2pk_script xonly = [OP_DATA_32] @ xonly @ [OP_CHECKSIG]"

definition p2sh_script :: "bytes \<Rightarrow> bytes" where
  "p2sh_script hash = [OP_BLAKE2B, OP_DATA_32] @ hash @ [OP_EQUAL]"

definition address_to_script_pubkey :: "string \<Rightarrow> address_error + bytes" where
  "address_to_script_pubkey addr =
     rbind (decode_address_bytes addr) (\<lambda>decoded.
     if length (da_payload decoded) \<noteq> 32 then Err (UnsupportedScriptVersion (da_version decoded))
     else if da_version decoded = 0x00 then Ok (p2pk_script (da_payload decoded))
     else if da_version decoded = 0x08 then Ok (p2sh_script (da_payload decoded))
     else Err (UnsupportedScriptVersion (da_version decoded)))"

definition address_to_script_pubkey_on :: "string \<Rightarrow> string \<Rightarrow> address_error + bytes" where
  "address_to_script_pubkey_on addr expected =
     rbind (address_prefix addr) (\<lambda>p.
     if p \<noteq> expected then Err (WrongNetwork p expected) else address_to_script_pubkey addr)"

definition p2pk_xonly :: "bytes \<Rightarrow> bytes option" where
  "p2pk_xonly script =
     (if 2 \<le> length script \<and> hd script = OP_DATA_32 \<and> List.last script = OP_CHECKSIG
         \<and> length (butlast (drop 1 script)) = 32
      then Some (butlast (drop 1 script)) else None)"

definition p2sh_hash :: "bytes \<Rightarrow> bytes option" where
  "p2sh_hash script =
     (if 3 \<le> length script \<and> script ! 0 = OP_BLAKE2B \<and> script ! 1 = OP_DATA_32
         \<and> List.last script = OP_EQUAL \<and> length (butlast (drop 2 script)) = 32
      then Some (butlast (drop 2 script)) else None)"

definition script_address :: "bytes \<Rightarrow> string \<Rightarrow> string option" where
  "script_address script p =
     (case p2pk_xonly script of
        Some key \<Rightarrow> Some (encode_p2pk_address key p)
      | None \<Rightarrow> map_option (\<lambda>hash. encode_p2sh_address hash p) (p2sh_hash script))"

section \<open>Bit regrouping\<close>

text \<open>The low \<open>n\<close> bits of a word, most significant first.\<close>

definition bits_of :: "nat \<Rightarrow> 'a::len word \<Rightarrow> bool list" where
  "bits_of n w = rev (map (bit w) [0..<n])"

definition bits_of_list :: "nat \<Rightarrow> u8 list \<Rightarrow> bool list" where
  "bits_of_list n ws = concat (map (bits_of n) ws)"

lemma length_bits_of [simp]: "length (bits_of n w) = n"
  by (simp add: bits_of_def)

lemma bits_of_list_simps [simp]:
  "bits_of_list n [] = []"
  "bits_of_list n (w # ws) = bits_of n w @ bits_of_list n ws"
  "bits_of_list n (xs @ ys) = bits_of_list n xs @ bits_of_list n ys"
  by (simp_all add: bits_of_list_def)

lemma length_bits_of_list [simp]: "length (bits_of_list n ws) = n * length ws"
  by (induction ws) auto

lemma bits_of_append:
  assumes "\<And>i. i < m \<Longrightarrow> bit w (n + i) = bit u i" "\<And>i. i < n \<Longrightarrow> bit w i = bit v i"
  shows "bits_of (m + n) w = bits_of m u @ bits_of n v"
proof -
  have "map (bit w) [n..<n + m] = map (bit u) [0..<m]"
    using assms(1) by (intro nth_equalityI) auto
  moreover have "map (bit w) [0..<n] = map (bit v) [0..<n]" using assms(2) by auto
  ultimately have "map (bit w) [0..<n + m] = map (bit v) [0..<n] @ map (bit u) [0..<m]"
    by (simp add: upt_add_eq_append [of 0 n m])
  then have "rev (map (bit w) [0..<n + m]) = bits_of m u @ bits_of n v" by (simp add: bits_of_def)
  then show ?thesis unfolding bits_of_def [of "m + n"] by (simp only: add.commute)
qed

lemma bits_of_eqI: "(\<And>i. i < n \<Longrightarrow> bit w i = bit v i) \<Longrightarrow> bits_of n w = bits_of n v"
  by (auto simp: bits_of_def)

lemma bits_of_inject:
  fixes v w :: u8
  assumes "bits_of n v = bits_of n w" "\<And>i. n \<le> i \<Longrightarrow> \<not> bit v i" "\<And>i. n \<le> i \<Longrightarrow> \<not> bit w i"
  shows "v = w"
proof (rule bit_word_eqI)
  fix i
  have "bit v i = bit w i" if "i < n"
    using assms(1) that by (auto simp: bits_of_def)
  then show "bit v i = bit w i" using assms(2,3) by (cases "i < n") auto
qed

definition fits :: "nat \<Rightarrow> u8 \<Rightarrow> bool" where
  "fits n v \<longleftrightarrow> drop_bit n v = 0"

lemma fits_bit: "fits n v \<longleftrightarrow> (\<forall>i\<ge>n. \<not> bit v i)"
proof
  assume "fits n v"
  then have "\<not> bit (drop_bit n v) j" for j by (simp add: fits_def)
  then have "\<not> bit v (n + j)" for j by (simp add: bit_drop_bit_eq)
  then show "\<forall>i\<ge>n. \<not> bit v i" by (metis le_Suc_ex)
next
  assume "\<forall>i\<ge>n. \<not> bit v i"
  then show "fits n v" unfolding fits_def by (intro bit_word_eqI) (simp add: bit_drop_bit_eq)
qed

lemma fits_ucast: "drop_bit n (ucast v :: u32) = 0 \<longleftrightarrow> fits n v"
proof
  assume "drop_bit n (ucast v :: u32) = 0"
  then have "\<not> bit (drop_bit n (ucast v :: u32)) j" for j by simp
  then have "\<not> bit v (n + j)" for j
    using bit_imp_le_length [of v "n + j"] by (auto simp: bit_drop_bit_eq bit_simps)
  then show "fits n v" unfolding fits_def by (intro bit_word_eqI) (simp add: bit_drop_bit_eq)
next
  assume "fits n v"
  then show "drop_bit n (ucast v :: u32) = 0"
    by (intro bit_word_eqI) (auto simp: bit_simps fits_bit)
qed

lemma fits_8 [simp]: "fits 8 v"
  by (auto simp: fits_bit dest: bit_imp_le_length)

lemma fits_mask: "fits n (ucast (w AND mask n :: u32))"
  by (auto simp: fits_bit bit_simps)

lemma bits_of_list_inject:
  assumes "0 < n" "list_all (fits n) xs" "list_all (fits n) ys" "bits_of_list n xs = bits_of_list n ys"
  shows "xs = ys"
  using assms(2-4)
proof (induction xs arbitrary: ys)
  case Nil
  then have "n * length ys = 0" using length_bits_of_list [of n ys] by simp
  with assms(1) show ?case by simp
next
  case (Cons x xs)
  have "n * length ys = n * length (x # xs)"
    using arg_cong [OF Cons.prems(3), of length] by (simp only: length_bits_of_list)
  then obtain y ys' where ys: "ys = y # ys'" using assms(1) by (cases ys) auto
  have "bits_of n x @ bits_of_list n xs = bits_of n y @ bits_of_list n ys'"
    using Cons.prems(3) ys by (simp only: bits_of_list_simps)
  then have b: "bits_of n x = bits_of n y" "bits_of_list n xs = bits_of_list n ys'"
    by (simp_all add: append_eq_append_conv)
  have f: "fits n x" "fits n y" "list_all (fits n) xs" "list_all (fits n) ys'" using Cons.prems ys by simp_all
  have "x = y" using b(1) f(1,2) unfolding fits_bit by (intro bits_of_inject [of n]) simp_all
  then show ?case using Cons.IH [OF f(3,4) b(2)] ys by simp
qed

text \<open>The accumulator after one more value: its live bits followed by the bits of the value.\<close>

lemma accumulate_bits:
  assumes "fits from v" "bits + from \<le> 32"
  shows "bits_of (bits + from) (push_bit from accumulator + ucast v :: u32) = bits_of bits accumulator @ bits_of from v"
proof -
  have "push_bit from accumulator + ucast v = push_bit from accumulator OR (ucast v :: u32)"
    using assms(1) by (intro disjunctive_add_eq_or) (auto simp: bit_eq_iff bit_simps fits_bit)
  then show ?thesis
    using assms by (intro bits_of_append) (auto simp: bit_simps fits_bit)
qed

lemma drain_bits_spec:
  assumes "0 < to" "to \<le> 8" "drain_bits to accumulator bits out0 = (b, out)" "list_all (fits to) out0" "bits \<le> 32"
  shows "b < to \<and> list_all (fits to) out
    \<and> bits_of_list to out @ bits_of b accumulator = bits_of_list to out0 @ bits_of bits accumulator"
  using assms
proof (induction to accumulator bits out0 rule: drain_bits.induct)
  case (1 to accumulator bits out0)
  show ?case
  proof (cases "bits < to")
    case True
    with 1 show ?thesis by (auto simp: drain_bits.simps [of to accumulator bits])
  next
    case False
    let ?v = "ucast (drop_bit (bits - to) accumulator AND mask to) :: u8"
    have "bits_of (to + (bits - to)) accumulator = bits_of to ?v @ bits_of (bits - to) accumulator"
      using 1(3,6) by (intro bits_of_append) (auto simp: bit_simps)
    moreover have "drain_bits to accumulator (bits - to) (out0 @ [?v]) = (b, out)"
      using 1(2,4) False by (simp add: drain_bits.simps [of to accumulator bits])
    ultimately show ?thesis
      using 1(1) [of ] 1 False fits_mask [of to "drop_bit (bits - to) accumulator"] by simp
  qed
qed

lemma regroup_spec:
  assumes "0 < to" "to \<le> 8" "0 < from" "from \<le> 8"
    and "regroup from to data accumulator bits out0 = Ok (a, b, out)"
    and "list_all (fits to) out0" "bits < to"
  shows "b < to \<and> list_all (fits to) out \<and> list_all (fits from) data
    \<and> bits_of_list to out @ bits_of b a = bits_of_list to out0 @ bits_of bits accumulator @ bits_of_list from data"
  using assms
proof (induction data arbitrary: accumulator bits out0)
  case Nil
  then show ?case by simp
next
  case (Cons v vs)
  let ?a = "push_bit from accumulator + ucast v :: u32"
  obtain b' out' where d: "drain_bits to ?a (bits + from) out0 = (b', out')" by fastforce
  have f: "fits from v" "regroup from to vs ?a b' out' = Ok (a, b, out)"
    using Cons.prems(5) d by (auto simp: fits_ucast split: if_splits)
  have "b' < to \<and> list_all (fits to) out'
      \<and> bits_of_list to out' @ bits_of b' ?a = bits_of_list to out0 @ bits_of (bits + from) ?a"
    using drain_bits_spec [OF _ _ d] Cons.prems by simp
  then show ?case
    using Cons.IH [of ?a b' out'] f Cons.prems accumulate_bits [of "from" v bits accumulator] by simp
qed

lemma regroup_total:
  "list_all (fits from) data \<Longrightarrow> \<exists>r. regroup from to data accumulator bits out0 = Ok r"
  by (induction data arbitrary: accumulator bits out0) (auto simp: fits_ucast Let_def split: prod.splits)

text \<open>The two conversions an address uses, as statements about one bit string.\<close>

lemma regroup_total_spec:
  assumes "to \<in> {5, 8}" "from \<in> {5, 8}" "list_all (fits from) data"
  obtains a b out where "regroup from to data 0 0 [] = Ok (a, b, out)" "b < to" "list_all (fits to) out"
    "bits_of_list to out @ bits_of b a = bits_of_list from data"
proof -
  obtain a b out where r: "regroup from to data 0 0 [] = Ok (a, b, out)"
    using regroup_total [OF assms(3)] by fastforce
  moreover have "bits_of 0 (0 :: u32) = []" by (simp add: bits_of_def)
  ultimately show ?thesis using that regroup_spec [of to "from" data 0 0 "[]" a b out] assms(1,2) by auto
qed

lemma bits_of_zero: "bits_of n 0 = replicate n False"
  by (induction n) (simp_all add: bits_of_def)

lemma padding_bits:
  assumes "b < to" "to \<le> 8"
  shows "bits_of to (ucast (push_bit (to - b) a AND mask to :: u32) :: u8) = bits_of b a @ replicate (to - b) False"
proof -
  have "bits_of (b + (to - b)) (ucast (push_bit (to - b) a AND mask to :: u32) :: u8) = bits_of b a @ bits_of (to - b) (0 :: u8)"
    using assms by (intro bits_of_append) (auto simp: bit_simps)
  then show ?thesis using assms by (simp add: bits_of_zero)
qed

lemma padding_zero:
  assumes "b < to" "to \<le> 8"
  shows "push_bit (to - b) a AND mask to = (0 :: u32) \<longleftrightarrow> bits_of b a = replicate b False"
proof
  assume "push_bit (to - b) a AND mask to = (0 :: u32)"
  then have "bits_of to (0 :: u8) = bits_of b a @ replicate (to - b) False" using padding_bits [OF assms, of a] by simp
  moreover have "bits_of to (0 :: u8) = replicate b False @ replicate (to - b) False"
    using assms by (simp add: bits_of_zero flip: replicate_add)
  ultimately show "bits_of b a = replicate b False" by simp
next
  assume z: "bits_of b a = replicate b False"
  have "\<not> bit a i" if "i < b" for i
  proof -
    have "rev (bits_of b a) = replicate b False" using z by (simp add: rev_replicate)
    then have "map (bit a) [0..<b] ! i = replicate b False ! i" by (simp add: bits_of_def)
    then show ?thesis using that by simp
  qed
  then show "push_bit (to - b) a AND mask to = (0 :: u32)"
    using assms by (intro bit_word_eqI) (auto simp: bit_simps)
qed

lemma convert_bits_8_5:
  obtains d p where "convert_bits bs 8 5 True = Ok d" "list_all (fits 5) d" "p < 5"
    "bits_of_list 5 d = bits_of_list 8 bs @ replicate p False"
proof -
  have "list_all (fits 8) bs" by (simp add: list_all_iff)
  then obtain a b out where r: "regroup 8 5 bs 0 0 [] = Ok (a, b, out)" "b < 5" "list_all (fits 5) out"
    and bits: "bits_of_list 5 out @ bits_of b a = bits_of_list 8 bs"
    using regroup_total_spec [of 5 8 bs] by auto
  show ?thesis
  proof (cases "b = 0")
    case True
    then have "bits_of b a = []" by (simp add: bits_of_def)
    with True r bits that [of out 0] show ?thesis by (simp add: convert_bits_def)
  next
    case False
    let ?d = "out @ [ucast (push_bit (5 - b) a AND mask 5)]"
    have "bits_of_list 5 ?d = bits_of_list 8 bs @ replicate (5 - b) False"
      using r(2) by (simp add: padding_bits flip: bits)
    moreover have "list_all (fits 5) ?d" using r(3) fits_mask [of 5] by simp
    ultimately show ?thesis using False r that [of ?d "5 - b"] by (simp add: convert_bits_def)
  qed
qed

lemma convert_bits_5_8:
  "convert_bits d 5 8 False = Ok bs \<longleftrightarrow>
     list_all (fits 5) d \<and> (\<exists>p<5. bits_of_list 5 d = bits_of_list 8 bs @ replicate p False)"
proof
  assume ok: "convert_bits d 5 8 False = Ok bs"
  then obtain a b where r: "regroup 5 8 d 0 0 [] = Ok (a, b, bs)" "b < 5" "push_bit (8 - b) a AND mask 8 = 0"
    by (auto simp: convert_bits_def rbind_Inr_iff split: if_splits)
  moreover have "list_all (fits 5) d" "bits_of_list 8 bs @ bits_of b a = bits_of_list 5 d"
    using regroup_spec [of 8 5 d 0 0 "[]" a b bs] r(1) by (simp_all add: bits_of_def)
  ultimately show "list_all (fits 5) d \<and> (\<exists>p<5. bits_of_list 5 d = bits_of_list 8 bs @ replicate p False)"
    using padding_zero [of b 8 a] by (intro conjI exI [of _ b]) simp_all
next
  assume "list_all (fits 5) d \<and> (\<exists>p<5. bits_of_list 5 d = bits_of_list 8 bs @ replicate p False)"
  then obtain p where p: "list_all (fits 5) d" "p < 5" "bits_of_list 5 d = bits_of_list 8 bs @ replicate p False" by auto
  obtain a b out where r: "regroup 5 8 d 0 0 [] = Ok (a, b, out)" "b < 8" "list_all (fits 8) out"
    and bits: "bits_of_list 8 out @ bits_of b a = bits_of_list 5 d"
    using regroup_total_spec [of 8 5 d] p(1) by auto
  have "8 * length out + b = 8 * length bs + p"
    using arg_cong [OF bits, of length] arg_cong [OF p(3), of length] by simp
  then have "b = p" "length out = length bs" using r(2) p(2) by presburger+
  then have "bits_of_list 8 out = bits_of_list 8 bs" "bits_of b a = replicate b False"
    using bits p(3) by (simp_all add: append_eq_append_conv)
  moreover from this have "out = bs" using bits_of_list_inject [of 8 out bs] by (simp add: list_all_iff)
  ultimately show "convert_bits d 5 8 False = Ok bs"
    using r \<open>b = p\<close> p(2) padding_zero [of b 8 a] by (simp add: convert_bits_def)
qed

text \<open>Regrouping loses nothing and has one spelling: the two directions are inverse relations.\<close>

lemma convert_bits_inverse: "convert_bits d 5 8 False = Ok bs \<longleftrightarrow> convert_bits bs 8 5 True = Ok d"
proof -
  obtain e p where e: "convert_bits bs 8 5 True = Ok e" "list_all (fits 5) e" "p < 5"
    "bits_of_list 5 e = bits_of_list 8 bs @ replicate p False" by (rule convert_bits_8_5)
  have "d = e" if "list_all (fits 5) d" "q < 5" "bits_of_list 5 d = bits_of_list 8 bs @ replicate q False" for q
  proof -
    have "5 * length d = 8 * length bs + q" "5 * length e = 8 * length bs + p"
      using arg_cong [OF that(3), of length] arg_cong [OF e(4), of length] by simp_all
    then have "(5 * length d + p) mod 5 = (5 * length e + q) mod 5" by (simp add: ac_simps)
    then have "q = p" using that(2) e(3) by (simp only: mod_mult_self4 mod_less)
    then show ?thesis using bits_of_list_inject [of 5 d e] that e by simp
  qed
  then have "(list_all (fits 5) d \<and> (\<exists>p<5. bits_of_list 5 d = bits_of_list 8 bs @ replicate p False)) \<longleftrightarrow> e = d"
    using e(2-4) by blast
  then show ?thesis unfolding convert_bits_5_8 e(1) by simp
qed

end
