(* ===== verification/Address_Checksum.thy ===== *)
theory Address_Checksum
  imports Address
begin

text \<open>
  The checksum of addresses. One round of \<open>polymod\<close> is linear for exclusive or, so running it over the eight
  checksum values adds exactly those values, packed into 40 bits. Hence the eight characters that make an
  address valid exist, are unique, and are the ones \<open>create_checksum\<close> computes; and a round never maps a
  non-zero difference to zero, so an address with one wrong character is never valid.
\<close>

unbundle bit_operations_syntax

section \<open>The checksum\<close>

text \<open>One round is linear: the generators are selected by the five bits that are shifted out.\<close>

definition pick :: "bool \<Rightarrow> u64 \<Rightarrow> u64" where
  "pick b g = (if b then g else 0)"

lemma pick_xor: "pick (a \<noteq> b) g = pick a g XOR pick b g"
  by (simp add: pick_def)

definition feedback :: "u64 \<Rightarrow> u64" where
  "feedback c = pick (bit c 35) 0x98f2bc8e61 XOR pick (bit c 36) 0x79b76d99e2 XOR pick (bit c 37) 0xf33e5fb3c4
     XOR pick (bit c 38) 0xae2eabe2a8 XOR pick (bit c 39) 0x1e4f43e470"

lemma bit_test: "drop_bit i (drop_bit 35 c) AND 1 = (1 :: u64) \<longleftrightarrow> bit c (35 + i)"
  by (simp add: and_one_eq bit_iff_odd_drop_bit odd_iff_mod_2_eq_one add.commute)

lemma pick_if: "(if b then x XOR g else x) = x XOR pick b g"
  by (simp add: pick_def)

lemma polymod_step_eq:
  "polymod_step c v = (push_bit 5 (c AND 0x7ffffffff) + ucast v) XOR feedback c"
  unfolding polymod_step_def Let_def GEN_def feedback_def enumerate_simps foldl.simps prod.case bit_test pick_if
  by (simp add: xor.assoc)

lemma mask_35: "(0x7ffffffff :: u64) = mask 35" and mask_5: "(0x1f :: u64) = mask 5"
  by (simp_all add: mask_eq_exp_minus_1)

lemma feedback_xor: "feedback (c XOR d) = feedback c XOR feedback d"
  unfolding feedback_def bit_xor_iff pick_xor by (simp only: xor.assoc xor.commute xor.left_commute)

lemma bit_pick: "bit (pick b g) i \<longleftrightarrow> b \<and> bit g i"
  by (simp add: pick_def)

lemma feedback_bound: "take_bit 40 (feedback c) = feedback c"
proof -
  have "take_bit 40 (pick b g) = pick b (take_bit 40 g)" for b g by (simp add: pick_def)
  then show ?thesis unfolding feedback_def by simp
qed

lemma feedback_small: "take_bit 35 d = d \<Longrightarrow> feedback d = 0"
proof -
  assume "take_bit 35 d = d"
  then have "\<not> bit d i" if "35 \<le> i" for i using that by (metis bit_take_bit_iff not_le)
  then show ?thesis by (simp add: feedback_def pick_def)
qed

lemma add_low:
  assumes "fits 5 v"
  shows "push_bit 5 x + ucast v = push_bit 5 x XOR (ucast v :: u64)"
proof -
  have "push_bit 5 x + ucast v = push_bit 5 x OR (ucast v :: u64)"
    using assms by (intro disjunctive_add_eq_or bit_word_eqI) (auto simp: bit_simps fits_bit)
  also have "\<dots> = push_bit 5 x XOR ucast v"
    using assms by (intro bit_word_eqI) (auto simp: bit_simps fits_bit)
  finally show ?thesis .
qed

lemma xor_flip: "z XOR y = w \<longleftrightarrow> y = z XOR (w :: u64)"
  by (auto simp flip: xor.assoc)

lemma xor_cancel_left: "x XOR (x XOR y) = (y :: u64)"
  by (simp flip: xor.assoc)

lemma xor_absorb: "y XOR z = z \<longleftrightarrow> y = (0 :: u64)"
  using xor_flip [of z y z] by (simp add: xor.commute)

lemma and_xor_mask: "(c XOR d) AND m = (c AND m) XOR (d AND m :: u64)"
  by (rule bit_word_eqI) (auto simp: bit_simps)

lemma polymod_step_xor:
  assumes "fits 5 v"
  shows "polymod_step (c XOR d) v = polymod_step c 0 XOR polymod_step d v"
  unfolding polymod_step_eq add_low [OF assms] feedback_xor
  by (simp add: and_xor_mask push_bit_xor xor.assoc xor.commute xor.left_commute)

lemma polymod_step_bound:
  assumes "fits 5 v"
  shows "take_bit 40 (polymod_step c v) = polymod_step c v"
proof -
  have "take_bit 40 (push_bit 5 (c AND mask 35) XOR (ucast v :: u64)) = push_bit 5 (c AND mask 35) XOR ucast v"
    using assms by (intro bit_word_eqI) (auto simp: bit_simps fits_bit)
  then show ?thesis unfolding polymod_step_eq add_low [OF assms] mask_35 by (simp add: feedback_bound)
qed

lemma polymod_step_small:
  assumes "fits 5 v" "take_bit 35 d = d"
  shows "polymod_step d v = push_bit 5 d XOR ucast v"
proof -
  have "d AND mask 35 = d" using assms(2) by (simp add: take_bit_eq_mask)
  then show ?thesis
    unfolding polymod_step_eq add_low [OF assms(1)] mask_35 feedback_small [OF assms(2)] by simp
qed

lemma fits_less: "fits n w \<Longrightarrow> bit w i \<Longrightarrow> i < n"
  by (meson fits_bit not_le)

lemma fits_0 [simp]: "fits n 0"
  by (simp add: fits_def)

lemma polymod_xor:
  "list_all (fits 5) ws \<Longrightarrow>
   foldl polymod_step (c XOR d) ws = foldl polymod_step c (replicate (length ws) 0) XOR foldl polymod_step d ws"
  by (induction ws arbitrary: c d) (auto simp: polymod_step_xor)

lemma polymod_zeros_bound:
  "0 < n \<Longrightarrow> take_bit 40 (foldl polymod_step c (replicate n 0)) = foldl polymod_step c (replicate n 0)"
proof (induction n arbitrary: c)
  case (Suc n)
  then show ?case by (cases n) (simp_all add: polymod_step_bound)
qed simp

section \<open>Packing the checksum values\<close>

text \<open>The last \<open>n\<close> five-bit digits of a checksum, most significant first.\<close>

fun digits5 :: "nat \<Rightarrow> u64 \<Rightarrow> u8 list" where
  "digits5 0 x = []"
| "digits5 (Suc n) x = digits5 n (drop_bit 5 x) @ [ucast (x AND 0x1f)]"

lemma length_digits5 [simp]: "length (digits5 n x) = n"
  by (induction n arbitrary: x) auto

lemma digits5_fits: "list_all (fits 5) (digits5 n x)"
  by (induction n arbitrary: x) (auto simp: fits_bit bit_simps mask_5)

lemma polymod_digits5: "n \<le> 8 \<Longrightarrow> foldl polymod_step 0 (digits5 n x) = take_bit (5 * n) x"
proof (induction n arbitrary: x)
  case (Suc n)
  have "fits 5 (ucast (x AND 0x1f :: u64))" by (auto simp: fits_bit bit_simps mask_5)
  moreover have "take_bit 35 (take_bit (5 * n) (drop_bit 5 x)) = take_bit (5 * n) (drop_bit 5 x)"
    using Suc.prems by (simp add: min_def)
  ultimately have "foldl polymod_step 0 (digits5 (Suc n) x) =
      push_bit 5 (take_bit (5 * n) (drop_bit 5 x)) XOR ucast (ucast (x AND 0x1f :: u64) :: u8)"
    using Suc by (simp add: polymod_step_small)
  also have "\<dots> = take_bit (5 * Suc n) x"
    by (intro bit_word_eqI) (auto simp: bit_simps mask_5)
  finally show ?case .
qed simp

lemma digits5_polymod:
  "list_all (fits 5) ws \<Longrightarrow> length ws \<le> 8 \<Longrightarrow>
   digits5 (length ws) (foldl polymod_step 0 ws) = ws
   \<and> take_bit (5 * length ws) (foldl polymod_step 0 ws) = foldl polymod_step 0 ws"
proof (induction ws rule: rev_induct)
  case (snoc w ws)
  let ?d = "foldl polymod_step 0 ws"
  have f: "fits 5 w" and ih: "digits5 (length ws) ?d = ws" "take_bit (5 * length ws) ?d = ?d" using snoc by simp_all
  have small: "\<not> bit ?d i" if "5 * length ws \<le> i" for i using ih(2) that by (metis bit_take_bit_iff not_le)
  have "take_bit 35 (take_bit (5 * length ws) ?d) = take_bit (5 * length ws) ?d"
    using snoc.prems by (simp add: min_def)
  then have "take_bit 35 ?d = ?d" by (simp only: ih(2))
  then have step: "polymod_step ?d w = push_bit 5 ?d XOR ucast w" using f by (rule polymod_step_small [rotated])
  have "drop_bit 5 (push_bit 5 ?d XOR ucast w) = ?d"
    using f small snoc.prems by (intro bit_word_eqI) (auto simp: bit_simps fits_bit not_less)
  moreover have "ucast ((push_bit 5 ?d XOR ucast w) AND 0x1f) = w"
    by (intro bit_word_eqI) (auto simp: bit_simps mask_5 dest: fits_less [OF f])
  moreover have "take_bit (5 * Suc (length ws)) (push_bit 5 ?d XOR ucast w) = push_bit 5 ?d XOR ucast w"
    using small [of "n - 5" for n]
    by (intro bit_word_eqI) (auto simp: bit_simps dest: fits_less [OF f], metis add.commute le_diff_conv2 not_le)
  ultimately show ?case using ih(1) by (simp add: step)
qed simp

section \<open>Existence, uniqueness and error detection\<close>

definition checksum_values :: "u64 \<Rightarrow> u8 list" where
  "checksum_values x = digits5 CHECKSUM_LEN x"

lemma length_checksum_values [simp]: "length (checksum_values x) = CHECKSUM_LEN"
  by (simp add: checksum_values_def)

lemma checksum_values_fits: "list_all (fits 5) (checksum_values x)"
  by (simp add: checksum_values_def digits5_fits)

text \<open>Exactly one list of eight checksum values validates a payload: the one the encoder appends.\<close>

lemma verify_checksum_iff:
  assumes "length ws = CHECKSUM_LEN" "list_all (fits 5) ws"
  shows "verify_checksum p (payload @ ws) = Ok () \<longleftrightarrow> ws = checksum_values (create_checksum p payload)"
proof -
  define c where "c = foldl polymod_step 1 (prefix_values p @ [0] @ payload)"
  define z where "z = foldl polymod_step c (replicate CHECKSUM_LEN 0)"
  have chk: "create_checksum p payload = z XOR 1" by (simp add: create_checksum_def polymod_def c_def z_def)
  have run: "polymod (prefix_values p @ [0] @ payload @ ws) = z XOR foldl polymod_step 0 ws"
    using polymod_xor [OF assms(2), of c 0] assms(1) by (simp add: polymod_def c_def z_def)
  have b: "take_bit 40 (z XOR 1) = z XOR 1"
    using polymod_zeros_bound [of CHECKSUM_LEN c] by (simp add: z_def CHECKSUM_LEN_def)
  have "verify_checksum p (payload @ ws) = Ok () \<longleftrightarrow> foldl polymod_step 0 ws = z XOR 1"
    using run by (simp add: verify_checksum_def xor_flip)
  also have "\<dots> \<longleftrightarrow> ws = digits5 8 (z XOR 1)"
    using digits5_polymod [OF assms(2)] polymod_digits5 [of 8 "z XOR 1"] b assms(1) by (auto simp: CHECKSUM_LEN_def)
  finally show ?thesis by (simp add: checksum_values_def chk CHECKSUM_LEN_def)
qed

text \<open>A round never hides a difference: the low bits of the feedback are the bits shifted out.\<close>

lemma feedback_low: "i < 5 \<Longrightarrow> bit (feedback d) i \<longleftrightarrow> bit d (35 + i)"
proof -
  assume "i < 5"
  then consider "i = 0" | "i = 1" | "i = 2" | "i = 3" | "i = 4" by linarith
  then show ?thesis unfolding feedback_def bit_xor_iff bit_pick by cases simp_all
qed

lemma polymod_step_kernel:
  assumes "polymod_step d 0 = 0" "take_bit 40 d = d"
  shows "d = 0"
proof -
  have z: "push_bit 5 (d AND mask 35) XOR feedback d = 0"
    using assms(1) unfolding polymod_step_eq mask_35 by simp
  have "bit d (35 + i) = bit (push_bit 5 (d AND mask 35) XOR feedback d) i" if "i < 5" for i
    using that by (simp add: feedback_low bit_simps)
  then have hi: "\<not> bit d (35 + i)" if "i < 5" for i using that z by simp
  have d35: "i < 35" if "bit d i" for i
  proof (rule ccontr)
    assume "\<not> i < 35"
    moreover have "i < 40" using that assms(2) by (metis bit_take_bit_iff)
    ultimately have "i - 35 < 5" "35 + (i - 35) = i" by linarith+
    then show False using hi [of "i - 35"] that by simp
  qed
  then have "take_bit 35 d = d" by (intro bit_word_eqI) (auto simp: bit_take_bit_iff)
  then have "push_bit 5 d = 0" using z feedback_small by (simp add: take_bit_eq_mask)
  then have "\<not> bit (push_bit 5 d) (5 + i)" for i by simp
  then have "\<not> bit d i" if "i < 35" for i using that by (auto simp: bit_push_bit_iff)
  then show "d = 0" using d35 by (intro bit_word_eqI) auto
qed

lemma polymod_zeros_kernel:
  "foldl polymod_step d (replicate n 0) = 0 \<Longrightarrow> take_bit 40 d = d \<Longrightarrow> d = 0"
proof (induction n arbitrary: d)
  case (Suc n)
  then have "polymod_step d 0 = 0" by (simp add: polymod_step_bound)
  then show ?case using Suc.prems(2) by (rule polymod_step_kernel)
qed simp

lemma polymod_single_error:
  assumes "fits 5 a" "fits 5 b" "list_all (fits 5) ys"
    and eq: "polymod (xs @ a # ys) = polymod (xs @ b # ys)"
  shows "a = b"
proof -
  define c where "c = foldl polymod_step 1 xs"
  define e :: u64 where "e = ucast a XOR ucast b"
  have "polymod_step c v = polymod_step c 0 XOR ucast v" if "fits 5 v" for v
    using polymod_step_xor [OF that, of c 0] polymod_step_small [OF that, of 0] by simp
  then have "polymod_step c a = polymod_step c 0 XOR ucast a" "polymod_step c b = polymod_step c 0 XOR ucast b"
    using assms(1,2) by blast+
  then have "polymod_step c a = polymod_step c b XOR e"
    by (simp only: e_def xor.assoc xor.commute xor.left_commute xor_cancel_left)
  then have "foldl polymod_step (polymod_step c a) ys =
      foldl polymod_step e (replicate (length ys) 0) XOR foldl polymod_step (polymod_step c b) ys"
    using polymod_xor [OF assms(3), of e "polymod_step c b"] by (simp add: xor.commute)
  then have "foldl polymod_step e (replicate (length ys) 0) = 0"
    using eq by (simp add: polymod_def c_def xor_absorb)
  moreover have "take_bit 40 e = e"
    unfolding e_def
    by (intro bit_word_eqI) (auto simp: bit_simps dest: fits_less [OF assms(1)] fits_less [OF assms(2)])
  ultimately have "e = 0" by (rule polymod_zeros_kernel)
  then have "(ucast a :: u64) = ucast b" using xor_flip [of "ucast a" "ucast b" 0] by (simp add: e_def)
  moreover have "bit v i = bit (ucast v :: u64) i" if "i < 8" for v :: u8 and i
    using that by (simp add: bit_simps)
  ultimately show "a = b" by (intro bit_word_eqI) simp
qed

end
