(* ===== verification/Address_Codec.thy ===== *)
theory Address_Codec
  imports Address_Checksum
begin

text \<open>
  Properties of address text: which strings decode, to what, and that no other spelling of an address exists;
  detection of a wrong character; the correspondence between addresses and standard locking scripts; and the
  bounds of the fixed output buffer.
\<close>

unbundle bit_operations_syntax

section \<open>Characters\<close>

lemma find_index_Some:
  "distinct xs \<Longrightarrow> find_index (\<lambda>y. y = x) xs = Some i \<longleftrightarrow> i < length xs \<and> xs ! i = x"
proof (induction xs arbitrary: i)
  case (Cons y ys)
  show ?case
  proof (cases "y = x")
    case True
    with Cons.prems show ?thesis by (cases i) auto
  next
    case False
    with Cons show ?thesis by (cases i) auto
  qed
qed simp

lemma CHARSET_facts: "length CHARSET = 32" "distinct CHARSET"
  by (simp_all add: CHARSET_def)

lemma fits_unat: "fits n v \<longleftrightarrow> unat v < 2 ^ n"
proof -
  have "unat (drop_bit n v) = unat v div 2 ^ n" using drop_bit_eq_div [of n "unat v"] by (simp add: unat_drop_bit_eq)
  then have "fits n v \<longleftrightarrow> unat v div 2 ^ n = 0" unfolding fits_def by (metis unat_eq_zero)
  then show ?thesis by (simp add: div_eq_0_iff)
qed

definition char5 :: "u8 \<Rightarrow> char" where
  "char5 v = CHARSET ! unat v"

lemma decode_char_iff: "decode_char c = Ok v \<longleftrightarrow> fits 5 v \<and> c = char5 v"
proof -
  have "decode_char c = Ok v \<longleftrightarrow> (\<exists>i. i < 32 \<and> CHARSET ! i = c \<and> v = word_of_nat i)"
    using find_index_Some [OF CHARSET_facts(2), of c] by (auto simp: decode_char_def CHARSET_facts(1))
  also have "\<dots> \<longleftrightarrow> unat v < 32 \<and> c = CHARSET ! unat v"
    by (auto intro!: exI [of _ "unat v"])
  finally show ?thesis by (simp add: fits_unat char5_def)
qed

lemma decode_chars_iff: "decode_chars cs = Ok vs \<longleftrightarrow> list_all (fits 5) vs \<and> cs = map char5 vs"
proof (induction cs arbitrary: vs)
  case (Cons c cs)
  then show ?case by (cases vs) (auto simp: rbind_Inr_iff decode_char_iff)
qed auto

section \<open>Splitting and assembling\<close>

definition prefixes :: "string set" where
  "prefixes = {''kaspa'', ''kaspatest'', ''kaspasim'', ''kaspadev''}"

lemma split_once_append: "sep \<notin> set p \<Longrightarrow> split_once sep (p @ sep # d) = Some (p, d)"
  by (induction p) auto

lemma split_once_Some: "split_once sep s = Some (p, d) \<Longrightarrow> s = p @ sep # d"
  by (induction s arbitrary: p) (auto split: if_splits)

lemma split_address_iff:
  "split_address addr = Ok (p, d) \<longleftrightarrow> p \<in> prefixes \<and> 9 \<le> length d \<and> addr = p @ CHR '':'' # d"
proof -
  have "CHR '':'' \<notin> set p" if "p \<in> prefixes" using that by (auto simp: prefixes_def)
  then show ?thesis
    using split_once_append [of "CHR '':''" p d]
    by (auto simp: split_address_def prefixes_def dest: split_once_Some split: option.splits if_splits)
qed

lemma checksum_characters:
  "map (\<lambda>index. CHARSET ! unat (drop_bit (5 * (CHECKSUM_LEN - 1 - index)) x AND 0x1f)) [0..<CHECKSUM_LEN]
     = map char5 (checksum_values x)"
proof -
  have u: "unat (ucast (y AND 0x1f :: u64) :: u8) = unat (y AND 0x1f)" for y
  proof -
    have "y AND 0x1f \<le> 0x1f" by (rule word_and_le1)
    then have "unat (y AND 0x1f) \<le> unat (0x1f :: u64)" by (simp only: word_le_nat_alt)
    then show ?thesis by (simp add: unsigned_ucast_eq take_bit_nat_eq_self)
  qed
  have "[0..<CHECKSUM_LEN] = [0, 1, 2, 3, 4, 5, 6, 7]" by (simp add: CHECKSUM_LEN_def upt_rec)
  then show ?thesis
    by (simp add: checksum_values_def CHECKSUM_LEN_def numeral_eq_Suc char5_def u)
qed

lemma encode_address_bytes_eq:
  assumes "convert_bits (version # payload) 8 5 True = Ok data"
  shows "encode_address_bytes payload version p =
    p @ CHR '':'' # map char5 (data @ checksum_values (create_checksum p data))"
  using assms checksum_characters [of "create_checksum p data"]
  by (simp add: encode_address_bytes_def Let_def char5_def comp_def)

lemma convert_bits_data:
  obtains data where "convert_bits (b # bs) 8 5 True = Ok data" "list_all (fits 5) data" "data \<noteq> []"
    "5 * length data < 8 * length (b # bs) + 5"
proof -
  obtain d q where d: "convert_bits (b # bs) 8 5 True = Ok d" "list_all (fits 5) d" "q < 5"
    "bits_of_list 5 d = bits_of_list 8 (b # bs) @ replicate q False" by (rule convert_bits_8_5)
  have l: "5 * length d = 8 * length (b # bs) + q"
    using arg_cong [OF d(4), of length] by (simp only: length_bits_of_list length_append length_replicate)
  then have "d \<noteq> []" by auto
  moreover have "5 * length d < 8 * length (b # bs) + 5" using l d(3) by simp
  ultimately show ?thesis using that d(1,2) by blast
qed

lemma decode_encode_address:
  assumes "p \<in> prefixes" "payload_length_for_version v = Some (length pl)"
  shows "decode_address_bytes (encode_address_bytes pl v p) = Ok \<lparr>da_version = v, da_payload = pl\<rparr>"
proof -
  obtain data where d: "convert_bits (v # pl) 8 5 True = Ok data" "list_all (fits 5) data" "data \<noteq> []"
    by (rule convert_bits_data)
  let ?w = "checksum_values (create_checksum p data)"
  have "0 < length data" using d(3) by simp
  then have "split_address (encode_address_bytes pl v p) = Ok (p, map char5 (data @ ?w))"
    unfolding split_address_iff encode_address_bytes_eq [OF d(1)] using assms(1) by (simp add: CHECKSUM_LEN_def Suc_le_eq)
  moreover have "decode_chars (map char5 (data @ ?w)) = Ok (data @ ?w)"
    unfolding decode_chars_iff using d(2) checksum_values_fits by simp
  moreover have "verify_checksum p (data @ ?w) = Ok ()"
    by (simp add: verify_checksum_iff checksum_values_fits)
  moreover have "convert_bits data 5 8 False = Ok (v # pl)" using d(1) by (simp add: convert_bits_inverse)
  ultimately show ?thesis using assms(2) d(3) by (simp add: decode_address_bytes_def)
qed

lemma decode_address_canonical:
  assumes "decode_address_bytes addr = Ok \<lparr>da_version = v, da_payload = pl\<rparr>"
  shows "payload_length_for_version v = Some (length pl) \<and> (\<exists>p \<in> prefixes. addr = encode_address_bytes pl v p)"
proof -
  obtain p dp vals where s: "split_address addr = Ok (p, dp)" and c: "decode_chars dp = Ok vals"
    and l: "CHECKSUM_LEN < length vals" and k: "verify_checksum p vals = Ok ()"
    and b: "convert_bits (take (length vals - CHECKSUM_LEN) vals) 5 8 False = Ok (v # pl)"
    and n: "payload_length_for_version v = Some (length pl)"
    using assms
    by (auto simp: decode_address_bytes_def rbind_Inr_iff not_le split: if_splits option.splits prod.splits
        elim!: split_first.elims)
  let ?d = "take (length vals - CHECKSUM_LEN) vals" and ?w = "drop (length vals - CHECKSUM_LEN) vals"
  have f: "list_all (fits 5) vals" "dp = map char5 vals" using c by (simp_all add: decode_chars_iff)
  have "list_all (fits 5) ?w" using f(1) by (auto simp: list_all_iff dest: in_set_dropD)
  moreover have "length ?w = CHECKSUM_LEN" using l by simp
  ultimately have "?w = checksum_values (create_checksum p ?d)"
    using verify_checksum_iff [of ?w p ?d] k by simp
  then have "vals = ?d @ checksum_values (create_checksum p ?d)" by (metis append_take_drop_id)
  then have "addr = encode_address_bytes pl v p"
    using s f(2) encode_address_bytes_eq [of v pl ?d p] b by (simp add: split_address_iff convert_bits_inverse)
  moreover have "p \<in> prefixes" using s by (simp add: split_address_iff)
  ultimately show ?thesis using n by blast
qed

section \<open>Standard scripts\<close>

lemma p2pk_xonly_iff: "p2pk_xonly s = Some k \<longleftrightarrow> length k = 32 \<and> s = p2pk_script k"
proof
  assume "p2pk_xonly s = Some k"
  then show "length k = 32 \<and> s = p2pk_script k"
    by (cases s) (auto simp: p2pk_xonly_def p2pk_script_def split: if_splits, metis append_butlast_last_id)
qed (auto simp: p2pk_xonly_def p2pk_script_def)

lemma p2sh_hash_iff: "p2sh_hash s = Some h \<longleftrightarrow> length h = 32 \<and> s = p2sh_script h"
proof
  assume a: "p2sh_hash s = Some h"
  then obtain x y r where s: "s = x # y # r" by (cases s; cases "tl s") (auto simp: p2sh_hash_def split: if_splits)
  with a show "length h = 32 \<and> s = p2sh_script h"
    by (auto simp: p2sh_hash_def p2sh_script_def split: if_splits, metis append_butlast_last_id)
qed (auto simp: p2sh_hash_def p2sh_script_def)

lemma p2pk_not_p2sh: "p2pk_script k \<noteq> p2sh_script h"
  by (simp add: p2pk_script_def p2sh_script_def opcode_defs)

lemma p2pk_xonly_p2sh: "p2pk_xonly (p2sh_script h) = None"
  using p2pk_xonly_iff [of "p2sh_script h"] p2pk_not_p2sh by (metis option.exhaust)

lemma address_prefix_encoded:
  "p \<in> prefixes \<Longrightarrow> address_prefix (encode_address_bytes pl v p) = Ok p"
proof -
  assume p: "p \<in> prefixes"
  obtain data where d: "convert_bits (v # pl) 8 5 True = Ok data" "list_all (fits 5) data" "data \<noteq> []"
    by (rule convert_bits_data)
  then have "0 < length data" by simp
  then have "split_address (encode_address_bytes pl v p) =
      Ok (p, map char5 (data @ checksum_values (create_checksum p data)))"
    unfolding split_address_iff encode_address_bytes_eq [OF d(1)] using p by (simp add: CHECKSUM_LEN_def Suc_le_eq)
  then show ?thesis by (simp add: address_prefix_def)
qed

section \<open>Properties\<close>

text \<open>
  (C22) Addresses have exactly one spelling. A string decodes to a version and payload exactly when the payload
  has the length of that version and the string is what the encoder prints for it under one of the four
  prefixes: every encoded address decodes to what was encoded, and no altered padding, checksum or character
  case gives a second string for the same address.
\<close>

theorem address_canonical:
  "decode_address_bytes addr = Ok \<lparr>da_version = v, da_payload = pl\<rparr> \<longleftrightarrow>
     payload_length_for_version v = Some (length pl) \<and> (\<exists>p. p \<in> prefixes \<and> addr = encode_address_bytes pl v p)"
  using decode_address_canonical decode_encode_address by metis

text \<open>
  (C23) The checksum detects every wrong character. Two valid addresses with the same prefix never differ in
  exactly one character of the data part, so a single mistyped character is always rejected.
\<close>

theorem address_typo_detected:
  assumes "CHR '':'' \<notin> set p"
    and "decode_address_bytes (p @ CHR '':'' # xs @ c # ys) = Ok d"
    and "c' \<noteq> c"
  shows "\<exists>e. decode_address_bytes (p @ CHR '':'' # xs @ c' # ys) = Err e"
proof (rule ccontr)
  assume "\<nexists>e. decode_address_bytes (p @ CHR '':'' # xs @ c' # ys) = Err e"
  then obtain d' where ok': "decode_address_bytes (p @ CHR '':'' # xs @ c' # ys) = Ok d'"
    by (cases "decode_address_bytes (p @ CHR '':'' # xs @ c' # ys)") auto
  have dec: "\<exists>us w vs. xs = map char5 us \<and> c = char5 w \<and> ys = map char5 vs \<and> list_all (fits 5) (us @ w # vs)
      \<and> polymod (prefix_values p @ [0] @ us @ w # vs) = 1"
    if ok: "decode_address_bytes (p @ CHR '':'' # xs @ c # ys) = Ok d" for c d
  proof -
    obtain q r vals where sp: "split_address (p @ CHR '':'' # xs @ c # ys) = Ok (q, r)"
      and v: "decode_chars r = Ok vals" "verify_checksum q vals = Ok ()"
      using ok by (auto simp: decode_address_bytes_def rbind_Inr_iff split: if_splits)
    have "(q, r) = (p, xs @ c # ys)"
      using sp split_once_append [OF assms(1), of "xs @ c # ys"] by (simp add: split_address_def split: if_splits)
    then have "decode_chars (xs @ c # ys) = Ok vals" "verify_checksum p vals = Ok ()" using v by simp_all
    then have "list_all (fits 5) vals" "xs @ c # ys = map char5 vals" "polymod (prefix_values p @ [0] @ vals) = 1"
      by (auto simp: decode_chars_iff verify_checksum_def split: if_splits)
    moreover from this(2) obtain us w vs where "vals = us @ w # vs" "xs = map char5 us" "c = char5 w" "ys = map char5 vs"
      by (auto simp: append_eq_map_conv Cons_eq_map_conv)
    ultimately show ?thesis by (intro exI [of _ us] exI [of _ w] exI [of _ vs]) simp
  qed
  have inj: "us = us'" if "map char5 us = map char5 us'" "list_all (fits 5) us" "list_all (fits 5) us'" for us us'
    using decode_chars_iff [of "map char5 us" us] decode_chars_iff [of "map char5 us'" us'] that by simp
  obtain us w vs where a: "xs = map char5 us" "c = char5 w" "ys = map char5 vs" "list_all (fits 5) (us @ w # vs)"
    "polymod (prefix_values p @ [0] @ us @ w # vs) = 1" using dec [OF assms(2)] by blast
  obtain us' w' vs' where b: "xs = map char5 us'" "c' = char5 w'" "ys = map char5 vs'" "list_all (fits 5) (us' @ w' # vs')"
    "polymod (prefix_values p @ [0] @ us' @ w' # vs') = 1" using dec [OF ok'] by blast
  have "us' = us" "vs' = vs" using a b by (auto intro!: inj)
  with a b have "w = w'" using polymod_single_error [of w w' vs "prefix_values p @ [0] @ us"] by simp
  then show False using a(2) b(2) assms(3) by simp
qed

lemma bits_of_list_zeros: "bits_of_list n (replicate m 0) = replicate (n * m) False"
  by (induction m) (simp_all add: bits_of_zero replicate_add)

lemma convert_bits_zeros: "convert_bits (0 # replicate 32 0) 8 5 True = Ok (replicate 53 0)"
proof -
  have "bits_of_list 5 (replicate 53 0) = bits_of_list 8 (replicate 33 0) @ replicate 1 False"
    unfolding bits_of_list_zeros replicate_add [symmetric] by simp
  then have "convert_bits (replicate 53 0) 5 8 False = Ok (replicate 33 0)"
    unfolding convert_bits_5_8 by (intro conjI exI [of _ 1]) (simp_all add: list_all_iff)
  moreover have "replicate 33 0 = 0 # replicate 32 (0 :: u8)" by (simp add: replicate_Suc [symmetric] del: replicate_Suc)
  ultimately show ?thesis by (simp only: convert_bits_inverse)
qed

definition sample_address :: string where
  "sample_address = encode_address_bytes (replicate 32 0) 0 ''kaspa''"

lemma sample_address_ok:
  "decode_address_bytes sample_address = Ok \<lparr>da_version = 0, da_payload = replicate 32 0\<rparr>"
  unfolding sample_address_def
  by (rule decode_encode_address) (simp_all add: prefixes_def payload_length_for_version_def)

lemma sample_address_split: "sample_address = ''kaspa'' @ CHR '':'' # [] @ CHR ''q'' # drop 7 sample_address"
  unfolding sample_address_def encode_address_bytes_eq [OF convert_bits_zeros]
  by (simp add: numeral_eq_Suc char5_def CHARSET_def)

theorem address_typo_detected_witness:
  "\<exists>e. decode_address_bytes (''kaspa'' @ CHR '':'' # [] @ CHR ''p'' # drop 7 sample_address) = Err e"
proof (rule address_typo_detected)
  show "decode_address_bytes (''kaspa'' @ CHR '':'' # [] @ CHR ''q'' # drop 7 sample_address) =
      Ok \<lparr>da_version = 0, da_payload = replicate 32 0\<rparr>"
    using sample_address_ok by (simp only: sample_address_split [symmetric])
qed simp_all

text \<open>
  (C24) Addresses and standard locking scripts correspond one to one on each network: \<open>script_address\<close> gives an
  address for a script exactly when converting that address on that network gives the script back. In
  particular an address of another network is never converted.
\<close>

theorem script_address_correspondence:
  assumes "p \<in> prefixes"
  shows "script_address s p = Some addr \<longleftrightarrow> address_to_script_pubkey_on addr p = Ok s"
proof -
  have len: "payload_length_for_version 0 = Some 32" "payload_length_for_version 8 = Some 32"
    by (simp_all add: payload_length_for_version_def)
  have to: "address_to_script_pubkey_on (encode_address_bytes pl v p) p =
      (if v = 0 then Ok (p2pk_script pl) else Ok (p2sh_script pl))" if "length pl = 32" "v = 0 \<or> v = 8" for pl v
    using that len address_prefix_encoded [OF assms, of pl v] decode_encode_address [OF assms, of v pl]
    by (auto simp: address_to_script_pubkey_on_def address_to_script_pubkey_def)
  show ?thesis
  proof
    assume "script_address s p = Some addr"
    then consider k where "length k = 32" "s = p2pk_script k" "addr = encode_address_bytes k 0 p"
      | h where "length h = 32" "s = p2sh_script h" "addr = encode_address_bytes h 8 p"
      by (auto simp: script_address_def encode_p2pk_address_def encode_p2sh_address_def encode_address_text_def
          p2pk_xonly_iff p2sh_hash_iff split: option.splits)
    then show "address_to_script_pubkey_on addr p = Ok s" by cases (simp_all add: to)
  next
    assume ok: "address_to_script_pubkey_on addr p = Ok s"
    then obtain r where r: "decode_address_bytes addr = Ok r" "length (da_payload r) = 32" "address_prefix addr = Ok p"
      "da_version r = 0 \<and> s = p2pk_script (da_payload r) \<or> da_version r = 8 \<and> s = p2sh_script (da_payload r)"
      by (auto simp: address_to_script_pubkey_on_def address_to_script_pubkey_def rbind_Inr_iff split: if_splits)
    define v pl where "v = da_version r" and "pl = da_payload r"
    have d: "decode_address_bytes addr = Ok \<lparr>da_version = v, da_payload = pl\<rparr>"
      "length pl = 32" "v = 0 \<and> s = p2pk_script pl \<or> v = 8 \<and> s = p2sh_script pl" "address_prefix addr = Ok p"
      using r by (simp_all add: v_def pl_def)
    obtain q where "q \<in> prefixes" "addr = encode_address_bytes pl v q"
      using decode_address_canonical [OF d(1)] by blast
    with d(4) have "addr = encode_address_bytes pl v p" using address_prefix_encoded by simp
    with d(2,3) show "script_address s p = Some addr"
      using p2pk_xonly_iff [of "p2pk_script pl" pl] p2sh_hash_iff [of "p2sh_script pl" pl]
      by (auto simp: script_address_def encode_p2pk_address_def encode_p2sh_address_def encode_address_text_def
          p2pk_xonly_p2sh)
  qed
qed

theorem script_address_correspondence_witness:
  "script_address (p2pk_script (replicate 32 0)) ''kaspa'' = Some sample_address
   \<and> address_to_script_pubkey_on sample_address ''kaspa'' = Ok (p2pk_script (replicate 32 0))"
proof -
  have "p2pk_xonly (p2pk_script (replicate 32 0)) = Some (replicate 32 0)" by (simp add: p2pk_xonly_iff)
  then have "script_address (p2pk_script (replicate 32 0)) ''kaspa'' = Some sample_address"
    by (simp add: script_address_def encode_p2pk_address_def encode_address_text_def sample_address_def)
  then show ?thesis
    using script_address_correspondence [of "''kaspa''" "p2pk_script (replicate 32 0)" sample_address]
    by (simp add: prefixes_def)
qed

text \<open>
  The fixed buffer is always large enough. On a buffer of \<open>MAX_ADDR_LEN\<close> bytes the encoder writes at most 73
  characters and leaves the length of the buffer alone, so the slice copy cannot panic; it writes nothing exactly
  for the unknown network or a payload whose length does not fit the address type.
\<close>

theorem encode_address_fits_buffer:
  assumes "length out = MAX_ADDR_LEN" "encode_address_for_network pubkey addr_type network out = (n, out')"
  shows "n \<le> 73 \<and> length out' = MAX_ADDR_LEN
    \<and> (n = 0 \<longleftrightarrow> network = KUnknown \<or> payload_length_for_version (address_type_byte addr_type) \<noteq> Some (length pubkey))"
proof (cases "hrp network = None \<or> payload_length_for_version (address_type_byte addr_type) \<noteq> Some (length pubkey)")
  case True
  with assms show ?thesis by (cases network) (auto simp: encode_address_for_network_def)
next
  case False
  then obtain p where p: "hrp network = Some p" "length p \<le> 9" "network \<noteq> KUnknown" by (cases network) auto
  have l: "length pubkey \<le> 33" using False by (cases addr_type) (auto simp: payload_length_for_version_def)
  obtain data where d: "convert_bits (address_type_byte addr_type # pubkey) 8 5 True = Ok data"
    "5 * length data < 8 * length (address_type_byte addr_type # pubkey) + 5" by (rule convert_bits_data)
  have "length data \<le> 55" using d(2) l by simp
  then have "length (encode_address_bytes pubkey (address_type_byte addr_type) p) \<le> 73"
    using p(2) by (simp add: encode_address_bytes_eq [OF d(1)] CHECKSUM_LEN_def)
  moreover have "encode_address_bytes pubkey (address_type_byte addr_type) p \<noteq> []"
    by (simp add: encode_address_bytes_eq [OF d(1)])
  ultimately show ?thesis
    using assms False p by (auto simp: encode_address_for_network_def Let_def MAX_ADDR_LEN_def)
qed

theorem encode_address_fits_buffer_witness:
  "fst (encode_address_for_network (replicate 33 7) P2pkEcdsa KTestnet (replicate 80 CHR 0x00)) \<le> 73
   \<and> fst (encode_address_for_network (replicate 33 7) P2pkEcdsa KTestnet (replicate 80 CHR 0x00)) \<noteq> 0"
  using encode_address_fits_buffer [of "replicate 80 CHR 0x00" "replicate 33 7" P2pkEcdsa KTestnet
      "fst (encode_address_for_network (replicate 33 7) P2pkEcdsa KTestnet (replicate 80 CHR 0x00))"
      "snd (encode_address_for_network (replicate 33 7) P2pkEcdsa KTestnet (replicate 80 CHR 0x00))"]
  by (simp add: MAX_ADDR_LEN_def payload_length_for_version_def)

end
