(* ===== verification/Planner.thy ===== *)
theory Planner
  imports Mass Address_Codec "HOL-Library.Multiset" "HOL-Library.Product_Lexorder" "HOL-Library.List_Lexorder"
begin

text \<open>
  Coin selection and payment planning: \<open>transaction/builder/selection\<close>, \<open>transaction/builder/planning\<close>,
  \<open>transaction/builder/model\<close>, and the synchronous planners of \<open>transaction/builder/standard.rs\<close> and
  \<open>standard/payload.rs\<close>.

  Errors are messages or the address error they pass on. The JSON values a plan may carry for hardware signers are
  of an arbitrary type \<open>'j\<close>; no planner here looks at them. The encoder of a finished plan (\<open>pskb::encode_plan\<close>)
  is the parameter \<open>encode_plan\<close>, about which nothing is assumed. The asynchronous wrappers only fetch the UTXOs
  and call the functions below.
\<close>

section \<open>Data\<close>

datatype plan_error = Message string | AddressError address_error

abbreviation msg :: "string + 'a \<Rightarrow> plan_error + 'a" where "msg \<equiv> map_err Message"

record utxo_entry =
  ue_tx_id :: string
  ue_index :: nat
  ue_amount :: nat
  ue_script_public_key :: bytes
  ue_block_daa_score :: nat
  ue_covenant_id :: "string option"

record 'j planned_output =
  po_amount :: nat
  po_script_public_key :: bytes
  po_derivation_hint :: "(nat \<times> nat) option"
  po_bip32_derivations :: "'j option"

record 'j planned_input =
  pi_utxo :: utxo_entry
  pi_sequence :: nat
  pi_sig_op_count :: nat
  pi_redeem_script :: "bytes option"
  pi_bip32_derivations :: "'j option"

record 'j unsigned_plan =
  up_tx_version :: nat
  up_inputs :: "'j planned_input list"
  up_outputs :: "'j planned_output list"
  up_payload :: bytes

record wallet_data =
  wd_kpub :: string
  wd_receive_addresses :: "string list"
  wd_change_addresses :: "string list"
  wd_next_receive_index :: nat
  wd_next_change_index :: nat

definition planned_output_new :: "nat \<Rightarrow> bytes \<Rightarrow> 'j planned_output" where
  "planned_output_new amount script =
     \<lparr>po_amount = amount, po_script_public_key = script, po_derivation_hint = None, po_bip32_derivations = None\<rparr>"

definition with_derivation :: "nat \<Rightarrow> nat \<Rightarrow> 'j planned_output \<Rightarrow> 'j planned_output" where
  "with_derivation branch index out = out\<lparr>po_derivation_hint := Some (branch, index)\<rparr>"

definition p2pk_input :: "utxo_entry \<Rightarrow> 'j planned_input" where
  "p2pk_input utxo =
     \<lparr>pi_utxo = utxo, pi_sequence = 0, pi_sig_op_count = 1, pi_redeem_script = None, pi_bip32_derivations = None\<rparr>"

definition p2sh_multisig_input :: "bytes \<Rightarrow> nat \<Rightarrow> utxo_entry \<Rightarrow> 'j planned_input" where
  "p2sh_multisig_input redeem_script sig_op_count utxo =
     \<lparr>pi_utxo = utxo, pi_sequence = 0, pi_sig_op_count = sig_op_count, pi_redeem_script = Some redeem_script,
      pi_bip32_derivations = None\<rparr>"

definition plan_standard :: "utxo_entry list \<Rightarrow> 'j planned_output list \<Rightarrow> 'j unsigned_plan" where
  "plan_standard inputs outputs =
     \<lparr>up_tx_version = 0, up_inputs = map p2pk_input inputs, up_outputs = outputs, up_payload = []\<rparr>"

definition plan_multisig_tx ::
  "utxo_entry list \<Rightarrow> 'j planned_output list \<Rightarrow> bytes \<Rightarrow> nat \<Rightarrow> 'j unsigned_plan" where
  "plan_multisig_tx inputs outputs redeem_script sig_op_count =
     \<lparr>up_tx_version = 0, up_inputs = map (p2sh_multisig_input redeem_script sig_op_count) inputs,
      up_outputs = outputs, up_payload = []\<rparr>"

definition wallet_address_prefix :: "wallet_data \<Rightarrow> plan_error + string" where
  "wallet_address_prefix w =
     (case wd_receive_addresses w of
        [] \<Rightarrow> Err (Message ''Wallet has no receive address'')
      | a # _ \<Rightarrow> map_err AddressError (address_prefix a))"

section \<open>Selection\<close>

definition sort_largest_first :: "utxo_entry list \<Rightarrow> utxo_entry list" where
  "sort_largest_first utxos = sort_key (\<lambda>u. - int (ue_amount u)) utxos"

definition sort_smallest_first :: "utxo_entry list \<Rightarrow> utxo_entry list" where
  "sort_smallest_first utxos = sort_key ue_amount utxos"

definition sort_for_display :: "utxo_entry list \<Rightarrow> utxo_entry list" where
  "sort_for_display utxos = sort_key (\<lambda>u. (- int (ue_amount u), ue_tx_id u, ue_index u)) utxos"

definition checked_total :: "utxo_entry list \<Rightarrow> string + nat" where
  "checked_total utxos =
     try_fold (\<lambda>t u. ok_or (add64 t (ue_amount u)) ''UTXO total exceeds supported monetary range'') 0 utxos"

text \<open>The loop of \<open>select_automatic_with_limit\<close>: whether it returned from inside, and what was selected.\<close>

fun select_loop :: "nat \<Rightarrow> nat \<Rightarrow> utxo_entry list \<Rightarrow> utxo_entry list \<Rightarrow> string + bool \<times> utxo_entry list" where
  "select_loop required t selected [] = Ok (False, selected)"
| "select_loop required t selected (u # us) =
     rbind (ok_or (add64 t (ue_amount u)) ''UTXO total exceeds supported monetary range'') (\<lambda>t.
     if t \<ge> required then Ok (True, selected @ [u]) else select_loop required t (selected @ [u]) us)"

definition select_automatic_with_limit :: "utxo_entry list \<Rightarrow> nat \<Rightarrow> nat \<Rightarrow> string + utxo_entry list" where
  "select_automatic_with_limit utxos required max_inputs =
     (if max_inputs = 0 then Err ''UTXO selection limit must be at least 1''
      else rbind (select_loop required 0 [] (take max_inputs (sort_largest_first utxos))) (\<lambda>(done, selected).
           if done then Ok selected
           else rbind (checked_total selected) (\<lambda>available.
             Err (''Insufficient funds within the current '' @ dec_string max_inputs
                  @ ''-UTXO selection limit: have '' @ dec_string available @ '' sompi, need ''
                  @ dec_string required
                  @ '' sompi. Raise the Advanced UTXO limit or choose UTXOs manually.''))))"

definition select_automatic :: "utxo_entry list \<Rightarrow> nat \<Rightarrow> string + utxo_entry list" where
  "select_automatic utxos required = select_automatic_with_limit utxos required usize_max"

definition select_for_consolidation :: "utxo_entry list \<Rightarrow> nat \<Rightarrow> string + utxo_entry list" where
  "select_for_consolidation utxos maximum_inputs =
     (if length utxos = 0 then Err ''No UTXOs to consolidate''
      else if length utxos = 1
      then Err (''Only 1 UTXO '' @ [CHR 0xE2, CHR 0x80, CHR 0x94] @ '' nothing to consolidate'')
      else Ok (take maximum_inputs (sort_largest_first utxos)))"

fun explicit_loop ::
  "utxo_entry list \<Rightarrow> nat list \<Rightarrow> utxo_entry list \<Rightarrow> nat list \<Rightarrow> string + utxo_entry list" where
  "explicit_loop utxos seen selected [] = Ok selected"
| "explicit_loop utxos seen selected (i # is) =
     (if i \<in> set seen then Err (''Duplicate UTXO index '' @ dec_string i)
      else if i < length utxos then explicit_loop utxos (i # seen) (selected @ [utxos ! i]) is
      else Err (''UTXO index '' @ dec_string i @ '' out of range (have '' @ dec_string (length utxos) @ '')''))"

definition select_explicit :: "utxo_entry list \<Rightarrow> nat list \<Rightarrow> string + utxo_entry list" where
  "select_explicit utxos indices = explicit_loop (sort_for_display utxos) [] [] indices"

section \<open>Planning\<close>

definition calculate_change :: "nat \<Rightarrow> nat \<Rightarrow> nat \<Rightarrow> string + nat" where
  "calculate_change selected_total spend_total fee =
     rbind (ok_or (add64 spend_total fee) ''Spend plus fee exceeds supported monetary range'') (\<lambda>required.
     rbind (ok_or (sub64 selected_total required)
              (''Selected UTXOs: '' @ dec_string selected_total @ '' sompi, need '' @ dec_string required @ '' sompi''))
       (\<lambda>change. Ok (if is_dust change then 0 else change)))"

definition plan_multisig ::
  "utxo_entry list \<Rightarrow> 'j planned_output \<Rightarrow> nat \<Rightarrow> bytes \<Rightarrow> bytes \<Rightarrow> nat \<Rightarrow> string + 'j unsigned_plan \<times> nat" where
  "plan_multisig selected destination fee approved_change_script redeem_script sig_op_count =
     (if length selected > 3
      then Err (''Multisig P2SH limited to 3 inputs (selected '' @ dec_string (length selected)
                @ ''). Node rejects 4+ inputs. Consolidate UTXOs in batches of 3.'')
      else rbind (checked_total selected) (\<lambda>selected_total.
           rbind (calculate_change selected_total (po_amount destination) fee) (\<lambda>change.
           let outputs = [destination] @ (if change > 0 then [planned_output_new change approved_change_script] else [])
           in Ok (plan_multisig_tx selected outputs redeem_script sig_op_count, change))))"

definition plan_payment ::
  "wallet_data \<Rightarrow> utxo_entry list \<Rightarrow> 'j planned_output list \<Rightarrow> nat \<Rightarrow> plan_error + 'j unsigned_plan" where
  "plan_payment w selected recipients fee =
     rbind (msg (checked_total selected)) (\<lambda>selected_total.
     rbind (msg (checked_sum (map po_amount recipients))) (\<lambda>spend_total.
     rbind (msg (calculate_change selected_total spend_total fee)) (\<lambda>change.
     if change > 0 then
       rbind (ok_or (get_at (wd_change_addresses w) (wd_next_change_index w))
                (Message ''No more change addresses. Re-import kpub.'')) (\<lambda>address.
       rbind (map_err AddressError (address_to_script_pubkey address)) (\<lambda>script.
       rbind (ensure (wd_next_change_index w \<le> u32_max) (Message ''Change derivation index exceeds u32'')) (\<lambda>_.
       Ok (plan_standard selected
             (recipients @ [with_derivation 1 (wd_next_change_index w) (planned_output_new change script)])))))
     else Ok (plan_standard selected recipients))))"

definition plan_consolidation :: "wallet_data \<Rightarrow> utxo_entry list \<Rightarrow> nat \<Rightarrow> plan_error + 'j unsigned_plan" where
  "plan_consolidation w selected fee =
     rbind (msg (checked_total selected)) (\<lambda>t.
     rbind (ok_or (sub64 t fee) (Message ''Balance too low to cover fee'')) (\<lambda>amount.
     if amount = 0 then Err (Message ''Balance too low to cover fee'')
     else case wd_receive_addresses w of
            [] \<Rightarrow> Err (Message ''Wallet has no receive address'')
          | address # _ \<Rightarrow>
              rbind (map_err AddressError (address_to_script_pubkey address)) (\<lambda>script.
              Ok (plan_standard selected [with_derivation 0 0 (planned_output_new amount script)]))))"

section \<open>Fees of a payment\<close>

definition DEFAULT_PLANNER_FEE_RATE :: nat where "DEFAULT_PLANNER_FEE_RATE = 110"
definition MINIMUM_PLANNER_FEE :: nat where "MINIMUM_PLANNER_FEE = 300000"

definition required_mass_fee_for_scripts ::
  "(nat \<times> nat) list \<Rightarrow> nat \<Rightarrow> (nat \<times> nat) list \<Rightarrow> nat list \<Rightarrow> nat \<Rightarrow> nat \<Rightarrow> nat \<Rightarrow> string + nat" where
  "required_mass_fee_for_scripts inputs input_count outputs output_script_lengths payload_len fee_rate minimum_fee =
     (if length output_script_lengths \<noteq> length outputs then Err ''missing output script length for fee estimate''
      else let effective_fee_rate = max fee_rate MIN_STANDARD_FEE_RATE in
           rbind (estimate_non_contextual_fee input_count output_script_lengths payload_len effective_fee_rate)
             (\<lambda>(non_contextual_fee, _, _).
           rbind (storage_mass_estimate inputs outputs) (\<lambda>storage_mass.
           rbind (ok_or (mul64 storage_mass effective_fee_rate) ''Estimated storage fee exceeds supported range'')
             (\<lambda>storage_fee. Ok (max (max non_contextual_fee storage_fee) minimum_fee)))))"

definition required_mass_fee ::
  "(nat \<times> nat) list \<Rightarrow> nat \<Rightarrow> (nat \<times> nat) list \<Rightarrow> nat \<Rightarrow> nat \<Rightarrow> nat \<Rightarrow> nat \<Rightarrow> string + nat" where
  "required_mass_fee inputs input_count outputs output_script_length payload_len fee_rate minimum_fee =
     required_mass_fee_for_scripts inputs input_count outputs [output_script_length] payload_len fee_rate minimum_fee"

text \<open>
  The passes of \<open>storage_mass_fee_with_payload\<close>: \<open>passes\<close> is what is left of \<open>MAX_FEE_PASSES\<close>, \<open>available\<close> the
  selected value less the payment.
\<close>

fun fee_passes ::
  "nat \<Rightarrow> (nat \<times> nat) list \<Rightarrow> nat \<Rightarrow> nat \<Rightarrow> nat \<Rightarrow> nat list \<Rightarrow> nat \<Rightarrow> nat \<Rightarrow> nat \<Rightarrow> nat \<Rightarrow> string + nat" where
  "fee_passes 0 inputs input_count available amount lens payload_len fee_rate minimum_fee fee =
     Err ''payload-aware storage-mass fee calculation did not converge''"
| "fee_passes (Suc passes) inputs input_count available amount lens payload_len fee_rate minimum_fee fee =
     (if fee > available then Ok fee
      else let change = available - fee in
        if is_dust change
        then rbind (ok_or (get_at lens 0) ''missing output script length for fee estimate'') (\<lambda>len.
             rbind (required_mass_fee inputs input_count [(amount, 1)] len payload_len fee_rate minimum_fee) (\<lambda>required_no_change.
             Ok (if available \<ge> required_no_change then available else required_no_change)))
        else rbind (ok_or (get_range lens 0 2) ''missing output script length for fee estimate'') (\<lambda>script_lengths.
             rbind (required_mass_fee_for_scripts inputs input_count [(amount, 1), (change, 1)] script_lengths payload_len
                      fee_rate minimum_fee) (\<lambda>required_fee.
             if required_fee \<le> fee then Ok fee
             else fee_passes passes inputs input_count available amount lens payload_len fee_rate minimum_fee required_fee)))"

definition storage_mass_fee_with_payload ::
  "utxo_entry list \<Rightarrow> nat \<Rightarrow> nat \<Rightarrow> nat \<Rightarrow> nat \<Rightarrow> nat list \<Rightarrow> nat \<Rightarrow> string + nat" where
  "storage_mass_fee_with_payload selected selected_total amount requested_fee payload_len lens fee_rate =
     (let inputs = map (\<lambda>u. (ue_amount u, 1)) selected;
          minimum_fee = max MINIMUM_PLANNER_FEE requested_fee in
      rbind (checked_required amount minimum_fee) (\<lambda>_.
      rbind (ok_or (sub64 selected_total amount) ''Selected value is below payment amount'') (\<lambda>available.
      fee_passes 256 inputs (length selected) available amount lens payload_len fee_rate minimum_fee minimum_fee)))"

definition storage_mass_fee :: "utxo_entry list \<Rightarrow> nat \<Rightarrow> nat \<Rightarrow> nat \<Rightarrow> string + nat" where
  "storage_mass_fee selected selected_total amount requested_fee =
     storage_mass_fee_with_payload selected selected_total amount requested_fee 0 [34, 34] DEFAULT_PLANNER_FEE_RATE"

definition validate_recipient_amount :: "nat \<Rightarrow> string + unit" where
  "validate_recipient_amount amount =
     (if amount = 0 then Err ''amount must be > 0''
      else if is_dust amount then Err (''amount too small ('' @ dec_string amount @ '' sompi)'')
      else Ok ())"

record 'j prepared_send =
  ps_output :: "'j planned_output"
  ps_required :: nat
  ps_fee :: nat

definition prepare_send :: "wallet_data \<Rightarrow> string \<Rightarrow> nat \<Rightarrow> nat \<Rightarrow> plan_error + 'j prepared_send" where
  "prepare_send w destination amount fee =
     rbind (msg (validate_recipient_amount amount)) (\<lambda>_.
     rbind (msg (checked_required amount fee)) (\<lambda>required.
     rbind (wallet_address_prefix w) (\<lambda>p.
     rbind (map_err AddressError (address_to_script_pubkey_on destination p)) (\<lambda>script.
     Ok \<lparr>ps_output = planned_output_new amount script, ps_required = required, ps_fee = fee\<rparr>))))"

section \<open>Sends\<close>

definition encode_payment ::
  "('j unsigned_plan \<Rightarrow> plan_error + string) \<Rightarrow> wallet_data \<Rightarrow> utxo_entry list \<Rightarrow> 'j planned_output \<Rightarrow> nat
     \<Rightarrow> plan_error + string" where
  "encode_payment encode_plan w selected out fee = rbind (plan_payment w selected [out] fee) encode_plan"

definition create_limited_send_from_utxos ::
  "('j unsigned_plan \<Rightarrow> plan_error + string) \<Rightarrow> wallet_data \<Rightarrow> 'j prepared_send \<Rightarrow> utxo_entry list \<Rightarrow> nat
     \<Rightarrow> plan_error + string" where
  "create_limited_send_from_utxos encode_plan w prepared utxos max_inputs =
     rbind (msg (select_automatic_with_limit utxos (ps_required prepared) max_inputs)) (\<lambda>selected.
     encode_payment encode_plan w selected (ps_output prepared) (ps_fee prepared))"

definition create_send_from_utxos ::
  "('j unsigned_plan \<Rightarrow> plan_error + string) \<Rightarrow> wallet_data \<Rightarrow> 'j prepared_send \<Rightarrow> utxo_entry list
     \<Rightarrow> plan_error + string" where
  "create_send_from_utxos encode_plan w prepared utxos =
     rbind (msg (select_automatic_with_limit utxos (ps_required prepared) 8)) (\<lambda>selected.
     encode_payment encode_plan w selected (ps_output prepared) (ps_fee prepared))"

definition create_send_selected_from_utxos ::
  "('j unsigned_plan \<Rightarrow> plan_error + string) \<Rightarrow> wallet_data \<Rightarrow> 'j prepared_send \<Rightarrow> nat list \<Rightarrow> utxo_entry list
     \<Rightarrow> plan_error + string" where
  "create_send_selected_from_utxos encode_plan w prepared indices utxos =
     rbind (msg (select_explicit utxos indices)) (\<lambda>selected.
     encode_payment encode_plan w selected (ps_output prepared) (ps_fee prepared))"

definition create_consolidation_from_utxos ::
  "('j unsigned_plan \<Rightarrow> plan_error + string) \<Rightarrow> wallet_data \<Rightarrow> nat \<Rightarrow> utxo_entry list \<Rightarrow> plan_error + string" where
  "create_consolidation_from_utxos encode_plan w fee utxos =
     rbind (msg (select_for_consolidation utxos 5)) (\<lambda>selected.
     rbind (plan_consolidation w selected fee) encode_plan)"

definition create_pskb_with_utxos ::
  "('j unsigned_plan \<Rightarrow> plan_error + string) \<Rightarrow> wallet_data \<Rightarrow> string \<Rightarrow> nat \<Rightarrow> nat \<Rightarrow> utxo_entry list
     \<Rightarrow> plan_error + string" where
  "create_pskb_with_utxos encode_plan w destination amount requested_fee selected =
     rbind (prepare_send w destination amount requested_fee) (\<lambda>prepared.
     if selected = [] then Err (Message ''No UTXOs provided'')
     else rbind (msg (checked_total selected)) (\<lambda>selected_total.
          rbind (msg (storage_mass_fee selected selected_total amount requested_fee)) (\<lambda>fee.
          encode_payment encode_plan w selected (ps_output prepared) fee)))"

text \<open>\<open>Result::ok\<close>.\<close>

definition ok :: "'e + 'a \<Rightarrow> 'a option" where
  "ok r = (case r of Err _ \<Rightarrow> None | Ok a \<Rightarrow> Some a)"

fun payload_passes ::
  "nat \<Rightarrow> wallet_data \<Rightarrow> 'j prepared_send \<Rightarrow> nat \<Rightarrow> nat \<Rightarrow> bytes \<Rightarrow> utxo_entry list \<Rightarrow> nat \<Rightarrow> nat \<Rightarrow> nat
     \<Rightarrow> (nat \<times> 'j unsigned_plan) option" where
  "payload_passes 0 w prepared amount requested_fee payload selected selected_total fee_rate fee = None"
| "payload_passes (Suc passes) w prepared amount requested_fee payload selected selected_total fee_rate fee =
     Option.bind (ok (checked_required amount fee)) (\<lambda>required.
     if required > selected_total then None
     else Option.bind (ok (plan_payment w selected [ps_output prepared] fee)) (\<lambda>plan.
          let plan = plan\<lparr>up_payload := payload\<rparr>;
              exact_script_lengths = map (\<lambda>out. length (po_script_public_key out)) (up_outputs plan) in
          Option.bind (ok (estimate_non_contextual_fee (length (up_inputs plan)) exact_script_lengths
                             (length (up_payload plan)) fee_rate)) (\<lambda>(non_contextual_fee, _, _).
          if non_contextual_fee \<le> fee
          then Option.bind (sub64 selected_total (\<Sum>out\<leftarrow>up_outputs plan. po_amount out)) (\<lambda>paid. Some (paid, plan))
          else payload_passes passes w prepared amount requested_fee payload selected selected_total fee_rate
                 (max (max non_contextual_fee requested_fee) MINIMUM_PLANNER_FEE))))"

definition plan_payload_send ::
  "wallet_data \<Rightarrow> 'j prepared_send \<Rightarrow> nat \<Rightarrow> nat \<Rightarrow> bytes \<Rightarrow> utxo_entry list \<Rightarrow> nat
     \<Rightarrow> (nat \<times> 'j unsigned_plan) option" where
  "plan_payload_send w prepared amount requested_fee payload selected fee_rate =
     Option.bind (ok (checked_total selected)) (\<lambda>selected_total.
     Option.bind (case get_at (wd_change_addresses w) (wd_next_change_index w) of
                    None \<Rightarrow> Some None
                  | Some address \<Rightarrow> map_option (\<lambda>script. Some (length script)) (ok (address_to_script_pubkey address)))
       (\<lambda>potential_change_script_length.
     let output_script_lengths = [length (po_script_public_key (ps_output prepared))]
           @ (case potential_change_script_length of None \<Rightarrow> [] | Some n \<Rightarrow> [n]) in
     Option.bind (ok (storage_mass_fee_with_payload selected selected_total amount requested_fee (length payload)
                        output_script_lengths fee_rate)) (\<lambda>fee.
     payload_passes 8 w prepared amount requested_fee payload selected selected_total fee_rate fee)))"

text \<open>
  The loop over the prefixes of the sorted UTXOs, \<open>counts\<close> what is left of \<open>1..=len\<close>; it keeps the cheapest plan.
\<close>

fun best_prefix ::
  "(nat \<Rightarrow> (nat \<times> 'j unsigned_plan) option) \<Rightarrow> utxo_entry list \<Rightarrow> nat \<Rightarrow> nat \<Rightarrow> (nat \<times> 'j unsigned_plan) option
     \<Rightarrow> nat list \<Rightarrow> string + (nat \<times> 'j unsigned_plan) option" where
  "best_prefix plan_of utxos minimum_required t best [] = Ok best"
| "best_prefix plan_of utxos minimum_required t best (n # counts) =
     rbind (ok_or (add64 t (ue_amount (utxos ! (n - 1)))) ''UTXO total exceeds supported monetary range'') (\<lambda>t.
     if t < minimum_required then best_prefix plan_of utxos minimum_required t best counts
     else case plan_of n of
            None \<Rightarrow> best_prefix plan_of utxos minimum_required t best counts
          | Some (fee, plan) \<Rightarrow>
              best_prefix plan_of utxos minimum_required t
                (case best of
                   None \<Rightarrow> Some (fee, plan)
                 | Some (best_fee, best_plan) \<Rightarrow> if fee < best_fee then Some (fee, plan) else best) counts)"

definition create_send_with_payload_from_utxos ::
  "('j unsigned_plan \<Rightarrow> plan_error + string) \<Rightarrow> wallet_data \<Rightarrow> 'j prepared_send \<Rightarrow> nat \<Rightarrow> nat \<Rightarrow> bytes
     \<Rightarrow> utxo_entry list \<Rightarrow> nat \<Rightarrow> plan_error + string" where
  "create_send_with_payload_from_utxos encode_plan w prepared amount requested_fee payload utxos fee_rate =
     (let utxos = sort_largest_first utxos in
      rbind (msg (checked_required amount (max MINIMUM_PLANNER_FEE requested_fee))) (\<lambda>minimum_required.
      rbind (msg (best_prefix (\<lambda>n. plan_payload_send w prepared amount requested_fee payload (take n utxos) fee_rate)
                    utxos minimum_required 0 None [1..<Suc (min (length utxos) 8)])) (\<lambda>best.
      case best of
        Some (_, plan) \<Rightarrow> encode_plan plan
      | None \<Rightarrow>
          rbind (msg (checked_total (take 8 utxos))) (\<lambda>available.
          Err (Message (''Insufficient funds within the current 8-UTXO selection limit: have '' @ dec_string available
                @ '' sompi, need at least '' @ dec_string minimum_required
                @ '' sompi plus mass fees. Raise the Advanced UTXO limit or choose UTXOs manually.''))))))"

end
