(* ===== verification/Planner_Correct.thy ===== *)
theory Planner_Correct
  imports Planner
begin

text \<open>
  Correctness of coin selection and planning: the automatic selection is the smallest that covers the amount, an
  explicit selection is exactly the named UTXOs, plans neither create nor lose value beyond the fee, the fee search
  ends with a fee that pays for the mass of what is built, and the payload planner returns the cheapest prefix.
\<close>

section \<open>Totals\<close>

definition tot :: "utxo_entry list \<Rightarrow> nat" where
  "tot us = sum_list (map ue_amount us)"

lemma tot_simps [simp]: "tot [] = 0" "tot (u # us) = ue_amount u + tot us" "tot (us @ vs) = tot us + tot vs"
  by (simp_all add: tot_def)

lemma checked_total_eq:
  "checked_total us = (if tot us \<le> u64_max then Ok (tot us) else Err ''UTXO total exceeds supported monetary range'')"
  using try_fold_add64 [of 0 ue_amount "''UTXO total exceeds supported monetary range''" us]
  by (simp add: checked_total_def tot_def)

lemma tot_take_mono: "m \<le> n \<Longrightarrow> tot (take m us) \<le> tot (take n us)"
  using tot_simps(3) [of "take m us" "drop m (take n us)"] by (metis append_take_drop_id le_add1 min.absorb1 take_take)

lemma tot_mset: "mset us = mset vs \<Longrightarrow> tot us = tot vs"
  unfolding tot_def by (metis mset_map sum_mset_sum_list)

section \<open>Greedy selection\<close>

definition descending :: "utxo_entry list \<Rightarrow> bool" where
  "descending us \<longleftrightarrow> sorted_wrt (\<lambda>a b. ue_amount b \<le> ue_amount a) us"

lemma descending_sorted: "descending (sort_largest_first us)"
proof -
  have "sorted (map (\<lambda>u. - int (ue_amount u)) (sort_largest_first us))"
    by (simp add: sort_largest_first_def)
  then show ?thesis by (simp add: descending_def sorted_map)
qed

lemma mset_sort_largest_first [simp]: "mset (sort_largest_first us) = mset us"
  by (simp add: sort_largest_first_def)

lemma take_dominates: "descending (x # ys) \<Longrightarrow> tot (take n ys) \<le> tot (take n (x # ys))"
proof (induction n arbitrary: x ys)
  case (Suc n)
  show ?case
  proof (cases ys)
    case (Cons y zs)
    with Suc.prems have "descending (y # zs)" "ue_amount y \<le> ue_amount x" by (auto simp: descending_def)
    with Suc.IH [of y zs] Cons show ?thesis by simp
  qed simp
qed simp

text \<open>The first \<open>n\<close> UTXOs in descending order are worth at least as much as any \<open>n\<close> of them.\<close>

lemma prefix_dominates:
  "descending xs \<Longrightarrow> T \<subseteq># mset xs \<Longrightarrow> (\<Sum>u\<in>#T. ue_amount u) \<le> tot (take (size T) xs)"
proof (induction xs arbitrary: T)
  case (Cons x ys)
  have d: "descending ys" using Cons.prems(1) by (simp add: descending_def)
  show ?case
  proof (cases "x \<in># T")
    case True
    then obtain T' where T: "T = add_mset x T'" by (metis insert_DiffM)
    then have "T' \<subseteq># mset ys" using Cons.prems(2) by simp
    then show ?thesis using Cons.IH [OF d] T by simp
  next
    case False
    have "count T y \<le> count (mset ys) y" for y
      using False Cons.prems(2) mset_subset_eq_count [of T "mset (x # ys)" y] by (cases "y = x") (auto simp: not_in_iff)
    then have "T \<subseteq># mset ys" by (rule mset_subset_eqI)
    then show ?thesis using Cons.IH [OF d] take_dominates [OF Cons.prems(1), of "size T"] by (meson order_trans)
  qed
qed simp

lemma select_loop_True:
  "select_loop req t sel us = Ok (True, r) \<Longrightarrow>
   \<exists>k<length us. r = sel @ take (Suc k) us \<and> req \<le> t + tot (take (Suc k) us) \<and> (k > 0 \<longrightarrow> t + tot (take k us) < req)"
proof (induction us arbitrary: t sel)
  case (Cons u us)
  then have h: "t + ue_amount u \<le> u64_max"
    "(req \<le> t + ue_amount u \<and> r = sel @ [u])
     \<or> (t + ue_amount u < req \<and> select_loop req (t + ue_amount u) (sel @ [u]) us = Ok (True, r))"
    by (auto simp: rbind_Inr_iff split: if_splits)
  from h(2) show ?case
  proof
    assume "req \<le> t + ue_amount u \<and> r = sel @ [u]"
    then show ?thesis by (intro exI [of _ 0]) simp
  next
    assume r: "t + ue_amount u < req \<and> select_loop req (t + ue_amount u) (sel @ [u]) us = Ok (True, r)"
    then obtain k where k: "k < length us" "r = (sel @ [u]) @ take (Suc k) us"
      "req \<le> t + ue_amount u + tot (take (Suc k) us)" "k > 0 \<longrightarrow> t + ue_amount u + tot (take k us) < req"
      using Cons.IH by blast
    then show ?thesis using r by (intro exI [of _ "Suc k"]) (cases k, auto)
  qed
qed simp

lemma select_loop_False:
  "select_loop req t sel us = Ok (False, r) \<Longrightarrow> r = sel @ us \<and> (us \<noteq> [] \<longrightarrow> t + tot us < req)"
proof (induction us arbitrary: t sel)
  case (Cons u us)
  then have "t + ue_amount u < req" "select_loop req (t + ue_amount u) (sel @ [u]) us = Ok (False, r)"
    by (auto simp: rbind_Inr_iff split: if_splits)
  with Cons.IH [of "t + ue_amount u" "sel @ [u]"] show ?case by (cases "us = []") simp_all
qed simp

lemma select_loop_total: "t + tot us \<le> u64_max \<Longrightarrow> \<exists>d r. select_loop req t sel us = Ok (d, r)"
proof (induction us arbitrary: t sel)
  case (Cons u us)
  then have "t + ue_amount u \<le> u64_max" "(t + ue_amount u) + tot us \<le> u64_max" by simp_all
  with Cons.IH [of "t + ue_amount u" "sel @ [u]"] show ?case by (auto simp: add64_def)
qed auto

lemma mset_take_subset: "mset (take n xs) \<subseteq># mset xs"
  by (metis append_take_drop_id mset_append mset_subset_eq_add_left)

section \<open>Explicit selection\<close>

lemma length_sort_for_display [simp]: "length (sort_for_display us) = length us"
  by (simp add: sort_for_display_def)

lemma explicit_loop_Ok:
  "explicit_loop us seen sel is = Ok r \<longleftrightarrow>
     distinct is \<and> set is \<inter> set seen = {} \<and> list_all (\<lambda>i. i < length us) is \<and> r = sel @ map ((!) us) is"
  by (induction "is" arbitrary: seen sel) auto

section \<open>Fees\<close>

lemma required_fee_ge:
  "required_mass_fee_for_scripts ins n outs lens pl rate mf = Ok r \<Longrightarrow> mf \<le> r"
  by (auto simp: required_mass_fee_for_scripts_def rbind_Inr_iff Let_def split: if_splits)

text \<open>What the fee search has established when it stops with a fee that the selection can pay.\<close>

definition fee_settled ::
  "(nat \<times> nat) list \<Rightarrow> nat \<Rightarrow> nat \<Rightarrow> nat \<Rightarrow> nat list \<Rightarrow> nat \<Rightarrow> nat \<Rightarrow> nat \<Rightarrow> nat \<Rightarrow> bool" where
  "fee_settled ins n available amount lens pl rate mf fee \<longleftrightarrow>
     (if is_dust (available - fee)
      then fee = available \<and> (\<exists>r. required_mass_fee ins n [(amount, 1)] (lens ! 0) pl rate mf = Ok r \<and> r \<le> fee)
      else \<exists>r. required_mass_fee_for_scripts ins n [(amount, 1), (available - fee, 1)] (take 2 lens) pl rate mf = Ok r
               \<and> r \<le> fee)"

lemma fee_passes_settled:
  "fee_passes k ins n available amount lens pl rate mf fee0 = Ok fee \<Longrightarrow> fee \<le> available \<Longrightarrow>
   fee_settled ins n available amount lens pl rate mf fee"
proof (induction k arbitrary: fee0)
  case (Suc k)
  show ?case
  proof (cases "fee0 > available")
    case True
    with Suc.prems show ?thesis by simp
  next
    case False
    show ?thesis
    proof (cases "is_dust (available - fee0)")
      case True
      with Suc.prems False obtain r where
        "required_mass_fee ins n [(amount, 1)] (lens ! 0) pl rate mf = Ok r" "r \<le> available" "fee = available"
        by (auto simp: rbind_Inr_iff get_at_def Let_def split: if_splits)
      then show ?thesis by (simp add: fee_settled_def is_dust_iff)
    next
      case nd: False
      with Suc.prems False obtain r where
        r: "required_mass_fee_for_scripts ins n [(amount, 1), (available - fee0, 1)] (take 2 lens) pl rate mf = Ok r"
        and c: "r \<le> fee0 \<and> fee = fee0 \<or> \<not> r \<le> fee0 \<and> fee_passes k ins n available amount lens pl rate mf r = Ok fee"
        by (auto simp: rbind_Inr_iff get_range_def Let_def split: if_splits)
      from c show ?thesis using Suc.IH [of r] Suc.prems(2) r nd by (auto simp: fee_settled_def)
    qed
  qed
qed simp

lemma fee_passes_ge:
  "fee_passes k ins n available amount lens pl rate mf fee0 = Ok fee \<Longrightarrow> mf \<le> fee0 \<Longrightarrow> mf \<le> fee"
proof (induction k arbitrary: fee0)
  case (Suc k)
  show ?case
  proof (cases "fee0 > available")
    case True
    with Suc.prems show ?thesis by simp
  next
    case False
    show ?thesis
    proof (cases "is_dust (available - fee0)")
      case True
      with Suc.prems False show ?thesis
        by (auto simp: rbind_Inr_iff Let_def required_mass_fee_def dest: required_fee_ge split: if_splits)
    next
      case nd: False
      with Suc.prems False obtain r where "mf \<le> r"
        "r \<le> fee0 \<and> fee = fee0 \<or> \<not> r \<le> fee0 \<and> fee_passes k ins n available amount lens pl rate mf r = Ok fee"
        by (auto simp: rbind_Inr_iff Let_def dest: required_fee_ge split: if_splits)
      with Suc.IH [of r] Suc.prems(2) show ?thesis by auto
    qed
  qed
qed simp

lemma storage_fee_ge:
  "storage_mass_fee_with_payload sel t amount rf pl lens rate = Ok fee \<Longrightarrow> max MINIMUM_PLANNER_FEE rf \<le> fee"
  by (auto simp: storage_mass_fee_with_payload_def rbind_Inr_iff Let_def dest: fee_passes_ge)

section \<open>Plans\<close>

definition out_tot :: "'j planned_output list \<Rightarrow> nat" where
  "out_tot outs = (\<Sum>out\<leftarrow>outs. po_amount out)"

lemma calculate_change_Ok:
  "calculate_change t spend fee = Ok c \<longleftrightarrow>
     spend + fee \<le> u64_max \<and> spend + fee \<le> t \<and> c = (if is_dust (t - (spend + fee)) then 0 else t - (spend + fee))"
  by (auto simp: calculate_change_def rbind_Inr_iff)

text \<open>
  A payment plan, taken apart: the recipients come first and unchanged, and a change output to the wallet's next
  change address follows exactly when the change is not dust.
\<close>

definition change_output :: "wallet_data \<Rightarrow> nat \<Rightarrow> 'j planned_output \<Rightarrow> bool" where
  "change_output w change out \<longleftrightarrow>
     po_amount out = change \<and> po_derivation_hint out = Some (1, wd_next_change_index w)
     \<and> wd_next_change_index w < length (wd_change_addresses w)
     \<and> address_to_script_pubkey (wd_change_addresses w ! wd_next_change_index w) = Ok (po_script_public_key out)"

lemma plan_payment_Ok:
  assumes "plan_payment w selected recipients fee = Ok plan"
  shows "map pi_utxo (up_inputs plan) = selected \<and> out_tot recipients + fee \<le> tot selected \<and> tot selected \<le> u64_max
    \<and> (let change = tot selected - (out_tot recipients + fee) in
        if is_dust change then up_outputs plan = recipients
        else \<exists>out. up_outputs plan = recipients @ [out] \<and> change_output w change out)"
proof -
  have ins: "map (pi_utxo \<circ> p2pk_input) us = us" for us by (simp add: p2pk_input_def comp_def)
  obtain change where c: "calculate_change (tot selected) (out_tot recipients) fee = Ok change" "tot selected \<le> u64_max"
    and rest: "(if change > 0 then
       rbind (ok_or (get_at (wd_change_addresses w) (wd_next_change_index w))
                (Message ''No more change addresses. Re-import kpub.'')) (\<lambda>address.
       rbind (map_err AddressError (address_to_script_pubkey address)) (\<lambda>script.
       rbind (ensure (wd_next_change_index w \<le> u32_max) (Message ''Change derivation index exceeds u32'')) (\<lambda>_.
       Ok (plan_standard selected
             (recipients @ [with_derivation 1 (wd_next_change_index w) (planned_output_new change script)])))))
     else Ok (plan_standard selected recipients)) = Ok plan"
    using assms unfolding plan_payment_def checked_total_eq checked_sum_eq out_tot_def
    by (auto simp: rbind_Inr_iff simp del: One_nat_def split: if_splits)
  have p: "(change = 0 \<and> plan = plan_standard selected recipients)
      \<or> (0 < change \<and> wd_next_change_index w < length (wd_change_addresses w) \<and>
         (\<exists>script. address_to_script_pubkey (wd_change_addresses w ! wd_next_change_index w) = Ok script
            \<and> plan = plan_standard selected
                 (recipients @ [with_derivation 1 (wd_next_change_index w) (planned_output_new change script)])))"
    using rest by (cases "change = 0") (auto simp: rbind_Inr_iff get_at_def split: if_splits)
  from p show ?thesis
  proof
    assume "change = 0 \<and> plan = plan_standard selected recipients"
    then show ?thesis using c by (auto simp: calculate_change_Ok plan_standard_def ins Let_def is_dust_iff split: if_splits)
  next
    assume "0 < change \<and> wd_next_change_index w < length (wd_change_addresses w) \<and>
         (\<exists>script. address_to_script_pubkey (wd_change_addresses w ! wd_next_change_index w) = Ok script
            \<and> plan = plan_standard selected
                 (recipients @ [with_derivation 1 (wd_next_change_index w) (planned_output_new change script)]))"
    then show ?thesis
      using c by (auto simp: calculate_change_Ok plan_standard_def ins Let_def change_output_def with_derivation_def
          planned_output_new_def split: if_splits)
  qed
qed

lemma plan_payment_value:
  assumes "plan_payment w selected recipients fee = Ok plan"
  shows "\<exists>paid. tot selected = out_tot (up_outputs plan) + paid \<and> fee \<le> paid
    \<and> (paid = fee \<or> up_outputs plan = recipients \<and> is_dust (paid - fee))"
  using plan_payment_Ok [OF assms]
  by (intro exI [of _ "tot selected - out_tot (up_outputs plan)"])
    (auto simp: Let_def out_tot_def change_output_def split: if_splits)

section \<open>The payload planner\<close>

lemma ok_Some [simp]: "ok r = Some a \<longleftrightarrow> r = Ok a"
  by (simp add: ok_def split: sum.splits)

lemma payload_passes_Some:
  assumes "payload_passes k w prepared amount rf payload selected t rate fee0 = Some (paid, plan)"
    and "t = tot selected" "m \<le> fee0" "m \<le> max MINIMUM_PLANNER_FEE rf"
  shows "\<exists>fee. plan_payment w selected [ps_output prepared] fee = Ok (plan\<lparr>up_payload := []\<rparr>) \<and> m \<le> fee
    \<and> amount + fee \<le> t \<and> up_payload plan = payload \<and> out_tot (up_outputs plan) + paid = t
    \<and> (\<exists>f c tr. estimate_non_contextual_fee (length (up_inputs plan))
           (map (\<lambda>out. length (po_script_public_key out)) (up_outputs plan)) (length payload) rate = Ok (f, c, tr) \<and> f \<le> fee)"
  using assms(1,3)
proof (induction k arbitrary: fee0)
  case (Suc k)
  obtain p nc c tr where pp: "amount + fee0 \<le> t" "plan_payment w selected [ps_output prepared] fee0 = Ok p"
    and est: "estimate_non_contextual_fee (length (up_inputs p))
       (map (\<lambda>out. length (po_script_public_key out)) (up_outputs p)) (length payload) rate = Ok (nc, c, tr)"
    and rest: "(nc \<le> fee0 \<and> out_tot (up_outputs p) \<le> t \<and> paid = t - out_tot (up_outputs p) \<and> plan = p\<lparr>up_payload := payload\<rparr>)
      \<or> (\<not> nc \<le> fee0 \<and> payload_passes k w prepared amount rf payload selected t rate
            (max (max nc rf) MINIMUM_PLANNER_FEE) = Some (paid, plan))"
    using Suc.prems(1)
    by (auto simp: checked_required_def out_tot_def Let_def bind_eq_Some_conv split: if_splits)
  have "up_payload p = []" using pp(2)
    by (auto simp: plan_payment_def rbind_Inr_iff plan_standard_def split: if_splits)
  then have reset: "p\<lparr>up_payload := payload\<rparr>\<lparr>up_payload := []\<rparr> = p" by simp
  from rest show ?case
  proof
    assume r: "nc \<le> fee0 \<and> out_tot (up_outputs p) \<le> t \<and> paid = t - out_tot (up_outputs p) \<and> plan = p\<lparr>up_payload := payload\<rparr>"
    then show ?thesis using pp est reset Suc.prems(2) by (intro exI [of _ fee0]) auto
  next
    assume r: "\<not> nc \<le> fee0 \<and> payload_passes k w prepared amount rf payload selected t rate
        (max (max nc rf) MINIMUM_PLANNER_FEE) = Some (paid, plan)"
    then show ?thesis using Suc.IH [of "max (max nc rf) MINIMUM_PLANNER_FEE"] assms(4) by auto
  qed
qed simp

lemma plan_payload_send_Some:
  assumes "plan_payload_send w prepared amount rf payload selected rate = Some (paid, plan)"
  shows "\<exists>fee. plan_payment w selected [ps_output prepared] fee = Ok (plan\<lparr>up_payload := []\<rparr>)
    \<and> max MINIMUM_PLANNER_FEE rf \<le> fee
    \<and> amount + fee \<le> tot selected \<and> up_payload plan = payload \<and> out_tot (up_outputs plan) + paid = tot selected
    \<and> (\<exists>f c tr. estimate_non_contextual_fee (length (up_inputs plan))
           (map (\<lambda>out. length (po_script_public_key out)) (up_outputs plan)) (length payload) rate = Ok (f, c, tr) \<and> f \<le> fee)"
proof -
  obtain lens fee0 where f: "storage_mass_fee_with_payload selected (tot selected) amount rf (length payload) lens rate = Ok fee0"
    "payload_passes 8 w prepared amount rf payload selected (tot selected) rate fee0 = Some (paid, plan)"
    using assms
    by (auto simp: plan_payload_send_def checked_total_eq Let_def bind_eq_Some_conv split: if_splits)
  show ?thesis
    using payload_passes_Some [OF f(2) refl storage_fee_ge [OF f(1)]] by simp
qed

text \<open>The loop over prefixes keeps the first cheapest plan among those it has seen.\<close>

lemma best_prefix_Ok:
  assumes "best_prefix plan_of us mr t best ns = Ok r"
    and "\<forall>n f p. plan_of n = Some (f, p) \<longrightarrow> mr \<le> tot (take n us)"
    and "t = tot (take (hd (ns @ [1]) - 1) us)" "\<exists>a b. ns = [Suc a..<b] \<and> b \<le> Suc (length us)"
  shows "(r = best \<or> (\<exists>n\<in>set ns. r = plan_of n))
    \<and> (\<forall>n\<in>set ns. \<forall>f p. plan_of n = Some (f, p) \<longrightarrow> (\<exists>f' p'. r = Some (f', p') \<and> f' \<le> f))
    \<and> (\<forall>f p. best = Some (f, p) \<longrightarrow> (\<exists>f' p'. r = Some (f', p') \<and> f' \<le> f))"
  using assms
proof (induction ns arbitrary: t best)
  case (Cons n ns)
  obtain a b where ab: "n # ns = [Suc a..<b]" "b \<le> Suc (length us)" using Cons.prems(4) by blast
  have "Suc a < b \<and> Suc a = n \<and> [Suc a + 1..<b] = ns"
    by (rule upt_eq_Cons_conv [THEN iffD1, OF ab(1) [symmetric]])
  then have n: "n = Suc a" "ns = [Suc (Suc a)..<b]" "a < length us" using ab(2) by auto
  define t' where "t' = t + ue_amount (us ! a)"
  have t': "t' = tot (take n us)" using Cons.prems(3) n by (simp add: t'_def take_Suc_conv_app_nth)
  have hd: "t' = tot (take (hd (ns @ [1]) - 1) us) \<or> ns = []"
    using t' n(1) by (cases "Suc (Suc a) < b") (auto simp: n(2) upt_conv_Cons)
  define best' where "best' = (if t' < mr then best else case plan_of n of None \<Rightarrow> best
    | Some (fee, plan) \<Rightarrow> (case best of None \<Rightarrow> Some (fee, plan)
        | Some (bf, bp) \<Rightarrow> if fee < bf then Some (fee, plan) else best))"
  have rest: "best_prefix plan_of us mr t' best' ns = Ok r"
    using Cons.prems(1) n(1) by (auto simp: t'_def best'_def rbind_Inr_iff split: if_splits option.splits)
  have IH: "(r = best' \<or> (\<exists>n\<in>set ns. r = plan_of n))
    \<and> (\<forall>n\<in>set ns. \<forall>f p. plan_of n = Some (f, p) \<longrightarrow> (\<exists>f' p'. r = Some (f', p') \<and> f' \<le> f))
    \<and> (\<forall>f p. best' = Some (f, p) \<longrightarrow> (\<exists>f' p'. r = Some (f', p') \<and> f' \<le> f))"
  proof (cases "ns = []")
    case True
    with rest show ?thesis by simp
  next
    case False
    show ?thesis
    proof (rule Cons.IH [OF rest])
      show "\<exists>a b. ns = [Suc a..<b] \<and> b \<le> Suc (length us)" using n(2) ab(2) by blast
      show "t' = tot (take (hd (ns @ [1]) - 1) us)" using hd False by blast
    qed (use Cons.prems(2) in blast)
  qed
  have new: "\<exists>f' p'. best' = Some (f', p') \<and> f' \<le> f" if "plan_of n = Some (f, p)" for f p
  proof -
    have "\<not> t' < mr" using Cons.prems(2) that t' by (metis not_le)
    then show ?thesis using that by (auto simp: best'_def split: option.splits)
  qed
  have old: "\<exists>f' p'. best' = Some (f', p') \<and> f' \<le> f" if "best = Some (f, p)" for f p
    using that by (auto simp: best'_def split: option.splits)
  have "best' = best \<or> best' = plan_of n" by (auto simp: best'_def split: option.splits)
  moreover have "\<exists>f' p'. r = Some (f', p') \<and> f' \<le> f" if "\<exists>f' p'. best' = Some (f', p') \<and> f' \<le> f" for f
  proof -
    from that obtain f1 p1 where "best' = Some (f1, p1)" "f1 \<le> f" by blast
    moreover from this IH obtain f2 p2 where "r = Some (f2, p2)" "f2 \<le> f1" by blast
    ultimately show ?thesis by auto
  qed
  ultimately show ?case using IH new old by auto
qed simp

section \<open>A sample wallet\<close>

definition sample_wallet :: wallet_data where
  "sample_wallet = \<lparr>wd_kpub = ''kpub'', wd_receive_addresses = [sample_address], wd_change_addresses = [sample_address],
     wd_next_receive_index = 0, wd_next_change_index = 0\<rparr>"

definition sample_utxo :: "nat \<Rightarrow> utxo_entry" where
  "sample_utxo a = \<lparr>ue_tx_id = ''00'', ue_index = 0, ue_amount = a, ue_script_public_key = p2pk_script (replicate 32 0),
     ue_block_daa_score = 0, ue_covenant_id = None\<rparr>"

definition sample_output :: "unit planned_output" where
  "sample_output = planned_output_new 500000000 (p2pk_script (replicate 32 1))"

lemma sample_script: "address_to_script_pubkey sample_address = Ok (p2pk_script (replicate 32 0))"
  by (simp add: address_to_script_pubkey_def sample_address_ok)

lemma sample_plan_payment:
  assumes "fee \<le> 400000000"
  shows "plan_payment sample_wallet [sample_utxo 1000000000] [sample_output] fee =
    Ok (plan_standard [sample_utxo 1000000000]
      [sample_output, with_derivation 1 0 (planned_output_new (500000000 - fee) (p2pk_script (replicate 32 0)))])"
  using assms
  by (simp add: plan_payment_def checked_total_eq checked_sum_eq calculate_change_def add64_def sub64_def is_dust_iff
      get_at_def sample_wallet_def sample_utxo_def sample_output_def planned_output_new_def sample_script u64_max_def
      u32_max_def)

lemma sample_required:
  "required_mass_fee_for_scripts [(1000000000, 1)] 1 [(500000000, 1), (499700000, 1)] [34, 34] 0 110 300000 = Ok 330110"
  "required_mass_fee_for_scripts [(1000000000, 1)] 1 [(500000000, 1), (499669890, 1)] [34, 34] 0 110 300000 = Ok 330110"
  by (simp_all add: required_mass_fee_for_scripts_def estimate_non_contextual_fee_def
      estimate_non_contextual_fee_for_shape_def P2PK_SHAPE_def estimated_plan_size_def script_mass_step_def add64_def
      mul64_def mass_consts mass_validity_def normalize_mass_def div_ceil_def u64_max_def storage_mass_estimate_def
      plurality_total_def harmonic_mass_def storage_mass_term_def uses_relaxed_storage_mass_def STORAGE_MASS_C_def)

lemma sample_fee:
  "storage_mass_fee_with_payload [sample_utxo 1000000000] 1000000000 500000000 0 0 [34, 34] 110 = Ok 330110"
  unfolding storage_mass_fee_with_payload_def
  using sample_required
  by (simp add: checked_required_def add64_def sub64_def u64_max_def MINIMUM_PLANNER_FEE_def sample_utxo_def is_dust_iff
      get_range_def Let_def fee_passes.simps(2) [of 255, simplified Suc_numeral add_num_simps]
      fee_passes.simps(2) [of 254, simplified Suc_numeral add_num_simps])

lemma sample_estimate: "estimate_non_contextual_fee 1 [34, 34] 0 110 = Ok (223960, 2036, 1264)"
  by (simp add: estimate_non_contextual_fee_def
      estimate_non_contextual_fee_for_shape_def P2PK_SHAPE_def estimated_plan_size_def script_mass_step_def add64_def
      mul64_def mass_consts mass_validity_def normalize_mass_def div_ceil_def u64_max_def)

section \<open>Properties\<close>

text \<open>
  (C25) Automatic selection is optimal. When the wallet's total fits 64 bits, a successful selection consists of
  distinct UTXOs of the wallet, keeps within the limit, covers the required amount, and no non-empty set of the
  wallet's UTXOs with fewer members covers it; and selection fails only when no set within the limit covers it.
\<close>

theorem select_automatic_optimal:
  assumes "tot utxos \<le> u64_max" and "0 < max_inputs"
  shows "case select_automatic_with_limit utxos required max_inputs of
      Ok sel \<Rightarrow> mset sel \<subseteq># mset utxos \<and> length sel \<le> max_inputs \<and> required \<le> tot sel
        \<and> (\<forall>T. T \<subseteq># mset utxos \<longrightarrow> T \<noteq> {#} \<longrightarrow> required \<le> (\<Sum>u\<in>#T. ue_amount u) \<longrightarrow> length sel \<le> size T)
    | Err _ \<Rightarrow> \<forall>T. T \<subseteq># mset utxos \<longrightarrow> T \<noteq> {#} \<longrightarrow> size T \<le> max_inputs \<longrightarrow> (\<Sum>u\<in>#T. ue_amount u) < required"
proof -
  let ?s = "sort_largest_first utxos"
  have dom: "(\<Sum>u\<in>#T. ue_amount u) \<le> tot (take (size T) ?s)" if "T \<subseteq># mset utxos" for T
    using that by (intro prefix_dominates descending_sorted) simp
  have "tot (take max_inputs ?s) \<le> tot ?s" using tot_take_mono [of max_inputs "max max_inputs (length ?s)" ?s] by simp
  also have "\<dots> = tot utxos" by (rule tot_mset) simp
  finally obtain d r where l: "select_loop required 0 [] (take max_inputs ?s) = Ok (d, r)"
    using select_loop_total [of 0 "take max_inputs ?s" required "[]"] assms(1) by auto
  show ?thesis
  proof (cases d)
    case True
    with l have "select_loop required 0 [] (take max_inputs ?s) = Ok (True, r)" by simp
    from select_loop_True [OF this] obtain k where "k < length (take max_inputs ?s)" "r = [] @ take (Suc k) (take max_inputs ?s)"
      "required \<le> 0 + tot (take (Suc k) (take max_inputs ?s))" "k > 0 \<longrightarrow> 0 + tot (take k (take max_inputs ?s)) < required"
      by blast
    then have k: "k < length (take max_inputs ?s)" "r = take (Suc k) (take max_inputs ?s)"
      "required \<le> tot (take (Suc k) (take max_inputs ?s))" "k > 0 \<longrightarrow> tot (take k (take max_inputs ?s)) < required"
      by simp_all
    have len: "length r = Suc k" and r: "r = take (Suc k) ?s" using k(1,2) by (simp_all add: min_absorb1)
    have "length r \<le> size T" if T: "T \<subseteq># mset utxos" "T \<noteq> {#}" "required \<le> (\<Sum>u\<in>#T. ue_amount u)" for T
    proof (rule ccontr)
      assume "\<not> length r \<le> size T"
      then have "size T \<le> k" "0 < k" using len T(2) by (auto simp: nonempty_has_size)
      then have "(\<Sum>u\<in>#T. ue_amount u) \<le> tot (take k ?s)" using dom [OF T(1)] tot_take_mono order_trans by blast
      moreover have "take k (take max_inputs ?s) = take k ?s" using k(1) by (simp add: min_absorb1)
      ultimately show False using k(4) T(3) \<open>0 < k\<close> by simp
    qed
    moreover have "mset r \<subseteq># mset utxos" using mset_take_subset [of "Suc k" ?s] r by simp
    moreover have "length r \<le> max_inputs" using k(1) len by simp
    ultimately show ?thesis using l True k assms(2) by (simp add: select_automatic_with_limit_def)
  next
    case False
    have r: "r = take max_inputs ?s" "take max_inputs ?s \<noteq> [] \<longrightarrow> tot (take max_inputs ?s) < required"
      using select_loop_False [of required 0 "[]" "take max_inputs ?s" r] l False by auto
    have "(\<Sum>u\<in>#T. ue_amount u) < required" if T: "T \<subseteq># mset utxos" "T \<noteq> {#}" "size T \<le> max_inputs" for T
    proof -
      have "utxos \<noteq> []" using T(1,2) by auto
      then have "take max_inputs ?s \<noteq> []" using assms(2) by (metis mset_sort_largest_first mset_zero_iff neq0_conv take_eq_Nil)
      then show ?thesis using dom [OF T(1)] tot_take_mono [OF T(3), of ?s] r(2) by simp
    qed
    then show ?thesis using l False assms(2)
      by (auto simp: select_automatic_with_limit_def rbind_def split: sum.splits)
  qed
qed

theorem select_automatic_optimal_witness:
  "case select_automatic_with_limit [sample_utxo 3, sample_utxo 5] 4 2 of
      Ok sel \<Rightarrow> mset sel \<subseteq># mset [sample_utxo 3, sample_utxo 5] \<and> length sel \<le> 2 \<and> 4 \<le> tot sel
        \<and> (\<forall>T. T \<subseteq># mset [sample_utxo 3, sample_utxo 5] \<longrightarrow> T \<noteq> {#} \<longrightarrow> 4 \<le> (\<Sum>u\<in>#T. ue_amount u) \<longrightarrow> length sel \<le> size T)
    | Err _ \<Rightarrow> \<forall>T. T \<subseteq># mset [sample_utxo 3, sample_utxo 5] \<longrightarrow> T \<noteq> {#} \<longrightarrow> size T \<le> 2 \<longrightarrow> (\<Sum>u\<in>#T. ue_amount u) < 4"
  by (rule select_automatic_optimal) (simp_all add: sample_utxo_def u64_max_def)

text \<open>
  Explicit selection returns exactly the UTXOs the caller named, in the caller's order and by their position in
  the displayed order; it succeeds exactly when no position is named twice and all exist.
\<close>

theorem select_explicit_exact:
  "select_explicit utxos indices = Ok sel \<longleftrightarrow>
     distinct indices \<and> list_all (\<lambda>i. i < length utxos) indices \<and> sel = map ((!) (sort_for_display utxos)) indices"
  by (simp add: select_explicit_def explicit_loop_Ok)

text \<open>
  (C26) A payment plan conserves value. It spends exactly the selected UTXOs; the recipients come first and
  unchanged; what the outputs do not return is a fee of at least the requested one; and the fee exceeds the request
  only by dust that is too small for a change output, in which case there is none.
\<close>

theorem payment_plan_conserves_value:
  assumes "plan_payment w selected recipients fee = Ok plan"
  shows "map pi_utxo (up_inputs plan) = selected \<and> take (length recipients) (up_outputs plan) = recipients
    \<and> (\<exists>paid. tot selected = out_tot (up_outputs plan) + paid \<and> fee \<le> paid
        \<and> (paid = fee \<or> up_outputs plan = recipients \<and> paid - fee \<le> 9999900))"
  using plan_payment_Ok [OF assms] plan_payment_value [OF assms]
  by (auto simp: is_dust_iff Let_def split: if_splits)

theorem payment_plan_conserves_value_witness:
  "\<exists>plan. plan_payment sample_wallet [sample_utxo 1000000000] [sample_output] 300000 = Ok plan
    \<and> map pi_utxo (up_inputs plan) = [sample_utxo 1000000000] \<and> take 1 (up_outputs plan) = [sample_output]"
proof -
  let ?plan = "plan_standard [sample_utxo 1000000000]
      [sample_output, with_derivation 1 0 (planned_output_new (500000000 - 300000) (p2pk_script (replicate 32 0)))]"
  have p: "plan_payment sample_wallet [sample_utxo 1000000000] [sample_output] 300000 = Ok ?plan"
    by (rule sample_plan_payment) simp
  from payment_plan_conserves_value [OF p] p show ?thesis by (intro exI [of _ ?plan]) simp
qed



text \<open>
  The payload planner returns the cheapest plan. What it encodes is a plan for some largest-first prefix of at
  most eight UTXOs, and no such prefix has a plan that pays less.
\<close>

theorem payload_send_cheapest:
  assumes "create_send_with_payload_from_utxos encode_plan w prepared amount requested_fee payload utxos rate = Ok encoded"
  shows "\<exists>n paid plan. 1 \<le> n \<and> n \<le> min (length utxos) 8 \<and> encode_plan plan = Ok encoded
    \<and> plan_payload_send w prepared amount requested_fee payload (take n (sort_largest_first utxos)) rate = Some (paid, plan)
    \<and> (\<forall>n' paid' plan'. 1 \<le> n' \<longrightarrow> n' \<le> min (length utxos) 8 \<longrightarrow>
        plan_payload_send w prepared amount requested_fee payload (take n' (sort_largest_first utxos)) rate = Some (paid', plan') \<longrightarrow>
        paid \<le> paid')"
proof -
  let ?s = "sort_largest_first utxos" and ?k = "min (length utxos) 8"
  let ?plan = "\<lambda>n. plan_payload_send w prepared amount requested_fee payload (take n ?s) rate"
  let ?mr = "amount + max MINIMUM_PLANNER_FEE requested_fee"
  have len: "length ?s = length utxos" by (metis mset_sort_largest_first size_mset)
  obtain paid plan where b: "best_prefix ?plan ?s ?mr 0 None [1..<Suc ?k] = Ok (Some (paid, plan))"
    and e: "encode_plan plan = Ok encoded"
    using assms
    by (auto simp: create_send_with_payload_from_utxos_def checked_required_def len Let_def rbind_Inr_iff simp del: upt_Suc
        split: option.splits)
  have "?mr \<le> tot (take n ?s)" if "?plan n = Some (f, p)" for n f p
    using plan_payload_send_Some [OF that] by (metis add_le_mono1 add.commute order_trans nat_add_left_cancel_le)
  then have mr: "\<forall>n f p. ?plan n = Some (f, p) \<longrightarrow> ?mr \<le> tot (take n ?s)" by blast
  have rng: "\<exists>a b. [1..<Suc ?k] = [Suc a..<b] \<and> b \<le> Suc (length ?s)" 
    using len by (intro exI [of _ 0] exI [of _ "Suc ?k"]) simp
  have start: "0 = tot (take (hd ([1..<Suc ?k] @ [1]) - 1) ?s)"
    by (cases "1 < Suc ?k") (simp_all add: upt_conv_Cons del: upt_Suc)
  note best = best_prefix_Ok [OF b mr start rng]
  then obtain n where n: "n \<in> set [1..<Suc ?k]" "?plan n = Some (paid, plan)" by (metis option.discI)
  have "paid \<le> f" if "m \<in> set [1..<Suc ?k]" "?plan m = Some (f, p)" for m f p
    using best that by fastforce
  with n e show ?thesis
    by - (rule exI [of _ n], rule exI [of _ paid], rule exI [of _ plan], auto simp: less_Suc_eq_le simp del: upt_Suc)
qed

definition sample_prepared :: "unit prepared_send" where
  "sample_prepared = \<lparr>ps_output = sample_output, ps_required = 500300000, ps_fee = 300000\<rparr>"

lemma sample_plan_payload:
  "\<exists>plan. plan_payload_send sample_wallet sample_prepared 500000000 0 [] [sample_utxo 1000000000] 110 = Some (330110, plan)"
proof -
  have len: "length (p2pk_script (replicate 32 b)) = 34" for b by (simp add: p2pk_script_def)
  have tot: "checked_total [sample_utxo 1000000000] = Ok 1000000000"
    by (simp add: checked_total_eq sample_utxo_def u64_max_def)
  have chg: "get_at (wd_change_addresses sample_wallet) (wd_next_change_index sample_wallet) = Some sample_address"
    by (simp add: sample_wallet_def get_at_def)
  show ?thesis
    unfolding plan_payload_send_def tot chg
    using sample_fee sample_plan_payment [of 330110] sample_estimate
    by (simp add: sample_script sample_prepared_def len checked_required_def add64_def u64_max_def sub64_def ok_def
        plan_standard_def planned_output_new_def with_derivation_def sample_output_def
        payload_passes.simps(2) [of 7, simplified Suc_numeral add_num_simps])
qed

theorem payload_send_cheapest_witness:
  "\<exists>n paid plan. 1 \<le> n \<and> n \<le> min (length [sample_utxo 1000000000]) 8
    \<and> plan_payload_send sample_wallet sample_prepared 500000000 0 [] (take n (sort_largest_first [sample_utxo 1000000000])) 110
        = Some (paid, plan)"
proof -
  let ?enc = "\<lambda>_ :: unit unsigned_plan. Ok ''plan'' :: plan_error + string"
  have "create_send_with_payload_from_utxos ?enc sample_wallet sample_prepared 500000000 0 [] [sample_utxo 1000000000] 110
      = Ok ''plan''"
    using sample_plan_payload
    by (auto simp: create_send_with_payload_from_utxos_def checked_required_def add64_def u64_max_def
        sort_largest_first_def MINIMUM_PLANNER_FEE_def sample_utxo_def)
  from payload_send_cheapest [OF this] show ?thesis by blast
qed

end
