(* ===== verification/Qr_Frame.thy ===== *)
theory Qr_Frame
  imports Script
begin

text \<open>
  The frames of animated QR transfers (\<open>transaction/interchange/qr/frame.rs\<close>, \<open>security.rs\<close>) and the framing of raw
  QR payloads (\<open>primitives/qr_payload.rs\<close>). SHA-256 is third-party code and is the parameter \<open>sha256\<close>; the only
  thing the code relies on is that a digest has 32 bytes.
\<close>

section \<open>Definitions\<close>

definition FRAME_MAGIC :: bytes where "FRAME_MAGIC = [0x4b, 0x51]"
definition FRAME_VERSION :: u8 where "FRAME_VERSION = 1"
definition SESSION_ID_LEN :: nat where "SESSION_ID_LEN = 12"
definition FRAME_HEADER_LEN :: nat where "FRAME_HEADER_LEN = 2 + 1 + SESSION_ID_LEN + 1 + 1 + 1"
definition MIN_ENCODED_FRAME_LEN :: nat where "MIN_ENCODED_FRAME_LEN = 20"
definition MAX_FRAMES :: nat where "MAX_FRAMES = 64"

lemmas frame_consts =
  FRAME_MAGIC_def FRAME_VERSION_def SESSION_ID_LEN_def FRAME_HEADER_LEN_def MIN_ENCODED_FRAME_LEN_def MAX_FRAMES_def

datatype frame_error = FrameBufferTooSmall | InvalidHeader | InvalidIndex | InvalidLength | NonCanonicalPadding

record parsed_frame =
  pf_session_id :: bytes
  pf_frame_index :: u8
  pf_total_frames :: u8
  pf_fragment :: bytes

text \<open>\<open>u64::to_be_bytes\<close> of a length.\<close>

definition u64_to_be :: "nat \<Rightarrow> bytes" where
  "u64_to_be n = rev (le_bytes 8 n)"

definition session_tag :: bytes where
  "session_tag = map of_char ''KaspaPortal/multi-frame/v1''"

definition session_id :: "(bytes \<Rightarrow> bytes) \<Rightarrow> bytes \<Rightarrow> bytes" where
  "session_id sha256 payload = take SESSION_ID_LEN (sha256 (session_tag @ u64_to_be (length payload) @ payload))"

definition encode_frame :: "bytes \<Rightarrow> u8 \<Rightarrow> u8 \<Rightarrow> bytes \<Rightarrow> bytes \<Rightarrow> frame_error + nat \<times> bytes" where
  "encode_frame identifier frame_index total_frames fragment out =
     (if total_frames < 2 \<or> unat total_frames > MAX_FRAMES \<or> frame_index \<ge> total_frames
         \<or> fragment = [] \<or> length fragment > 255
      then Err InvalidIndex
      else let encoded_len = FRAME_HEADER_LEN + length fragment;
               display_len = max encoded_len MIN_ENCODED_FRAME_LEN in
        if display_len > length out then Err FrameBufferTooSmall
        else Ok (display_len,
               FRAME_MAGIC @ [FRAME_VERSION] @ identifier @ [frame_index, total_frames, word_of_nat (length fragment)]
               @ fragment @ replicate (display_len - encoded_len) 0 @ drop display_len out))"

definition validate_frame_header :: "bytes \<Rightarrow> frame_error + unit" where
  "validate_frame_header data =
     (if length data < FRAME_HEADER_LEN \<or> take 2 data \<noteq> FRAME_MAGIC then Err InvalidHeader
      else if data ! 2 \<noteq> FRAME_VERSION then Err InvalidHeader
      else Ok ())"

definition validate_frame_index :: "u8 \<Rightarrow> u8 \<Rightarrow> nat \<Rightarrow> frame_error + unit" where
  "validate_frame_index total_frames frame_index fragment_len =
     (if total_frames < 2 \<or> unat total_frames > MAX_FRAMES then Err InvalidIndex
      else if frame_index \<ge> total_frames \<or> fragment_len = 0 then Err InvalidIndex
      else Ok ())"

definition parse_frame :: "bytes \<Rightarrow> frame_error + parsed_frame" where
  "parse_frame data =
     rbind (validate_frame_header data) (\<lambda>_.
     let identifier = take SESSION_ID_LEN (drop 3 data);
         frame_index = data ! (3 + SESSION_ID_LEN);
         total_frames = data ! (4 + SESSION_ID_LEN);
         fragment_len = unat (data ! (5 + SESSION_ID_LEN)) in
     rbind (validate_frame_index total_frames frame_index fragment_len) (\<lambda>_.
     let end = FRAME_HEADER_LEN + fragment_len in
     if end > length data then Err InvalidLength
     else if list_ex (\<lambda>byte. byte \<noteq> 0) (drop end data) then Err NonCanonicalPadding
     else Ok \<lparr>pf_session_id = identifier, pf_frame_index = frame_index, pf_total_frames = total_frames,
             pf_fragment = take fragment_len (drop FRAME_HEADER_LEN data)\<rparr>))"

definition verify_session :: "(bytes \<Rightarrow> bytes) \<Rightarrow> bytes \<Rightarrow> bytes \<Rightarrow> bool" where
  "verify_session sha256 payload expected \<longleftrightarrow> session_id sha256 payload = expected"

definition is_session_frame :: "bytes \<Rightarrow> bool" where
  "is_session_frame data \<longleftrightarrow>
     length data \<ge> FRAME_HEADER_LEN \<and> take 2 data = FRAME_MAGIC \<and> data ! 2 = FRAME_VERSION"

datatype session_error = MixedSession | FrameCountChanged

definition authorize_frame_session :: "bool \<Rightarrow> bytes \<Rightarrow> u8 \<Rightarrow> bytes \<Rightarrow> u8 \<Rightarrow> session_error + unit" where
  "authorize_frame_session session_active current_id current_total incoming_id incoming_total =
     (if \<not> session_active then Ok ()
      else if current_id \<noteq> incoming_id then Err MixedSession
      else if current_total \<noteq> incoming_total then Err FrameCountChanged
      else Ok ())"

definition PAYLOAD_V1_RAW :: u8 where "PAYLOAD_V1_RAW = 0x01"
definition MAX_RAW_LEN :: nat where "MAX_RAW_LEN = 2953"

definition unwrap_v1_raw :: "bytes \<Rightarrow> bytes option" where
  "unwrap_v1_raw blob =
     (case split_first blob of
        Some (version, body) \<Rightarrow> if version = PAYLOAD_V1_RAW \<and> body \<noteq> [] then Some body else None
      | None \<Rightarrow> None)"

definition wrap_v1_raw :: "bytes \<Rightarrow> bytes \<Rightarrow> (nat \<times> bytes) option" where
  "wrap_v1_raw data out =
     (if data = [] \<or> length data > MAX_RAW_LEN then None
      else let needed = length data + 1 in
        if length out < needed then None else Some (needed, PAYLOAD_V1_RAW # data @ drop needed out))"

section \<open>Frames\<close>

text \<open>A frame the encoder accepts.\<close>

definition frame_ok :: "parsed_frame \<Rightarrow> bool" where
  "frame_ok f \<longleftrightarrow>
     length (pf_session_id f) = SESSION_ID_LEN \<and> 2 \<le> unat (pf_total_frames f) \<and> unat (pf_total_frames f) \<le> MAX_FRAMES
     \<and> unat (pf_frame_index f) < unat (pf_total_frames f) \<and> pf_fragment f \<noteq> [] \<and> length (pf_fragment f) \<le> 255"

definition frame_bytes :: "parsed_frame \<Rightarrow> bytes" where
  "frame_bytes f =
     FRAME_MAGIC @ [FRAME_VERSION] @ pf_session_id f
     @ [pf_frame_index f, pf_total_frames f, word_of_nat (length (pf_fragment f))] @ pf_fragment f"

lemma length_frame_bytes:
  "length (pf_session_id f) = SESSION_ID_LEN \<Longrightarrow> length (frame_bytes f) = FRAME_HEADER_LEN + length (pf_fragment f)"
  by (simp add: frame_bytes_def frame_consts)

lemma drop_header:
  assumes "length sid = 12"
  shows "drop (18 + m) (a # b # c # sid @ d # e # g # rest) = drop m rest"
proof -
  have "18 + m = length (a # b # c # sid @ [d, e, g]) + m" using assms by simp
  then have "drop (18 + m) ((a # b # c # sid @ [d, e, g]) @ rest) = drop m rest"
    by (simp only: drop_append drop_all) simp
  then show ?thesis by simp
qed

lemma parse_frame_bytes:
  assumes "frame_ok f"
  shows "parse_frame (frame_bytes f @ replicate k 0) = Ok f"
proof -
  obtain sid i n frag where f: "f = \<lparr>pf_session_id = sid, pf_frame_index = i, pf_total_frames = n, pf_fragment = frag\<rparr>"
    by (cases f)
  have l: "length sid = 12" "2 \<le> unat n" "unat n \<le> 64" "unat i < unat n" "frag \<noteq> []" "length frag \<le> 255"
    using assms by (auto simp: f frame_ok_def frame_consts)
  have n: "\<not> n < 2" "\<not> n \<le> i" using l(2,4) by (simp_all add: word_less_nat_alt word_le_nat_alt)
  have u: "unat (word_of_nat (length frag) :: u8) = length frag" using l(6) by simp
  have z: "\<not> list_ex (\<lambda>byte. byte \<noteq> 0) (replicate k (0 :: u8))" by (simp add: list_ex_iff)
  show ?thesis
    using l n u z drop_header [OF l(1), of 0] drop_header [OF l(1), of "length frag"]
    by (simp add: Let_def parse_frame_def validate_frame_header_def validate_frame_index_def frame_bytes_def frame_consts f
        nth_append drop_append)
qed

lemma parse_frame_inv:
  assumes "parse_frame data = Ok f"
  shows "frame_ok f \<and> (\<exists>k. data = frame_bytes f @ replicate k 0)"
proof -
  have h: "18 \<le> length data" "take 2 data = FRAME_MAGIC" "data ! 2 = FRAME_VERSION"
    and i: "2 \<le> unat (data ! 16)" "unat (data ! 16) \<le> 64" "unat (data ! 15) < unat (data ! 16)" "unat (data ! 17) \<noteq> 0"
    and e: "18 + unat (data ! 17) \<le> length data" "\<forall>b\<in>set (drop (18 + unat (data ! 17)) data). b = 0"
    and f: "f = \<lparr>pf_session_id = take 12 (drop 3 data), pf_frame_index = data ! 15, pf_total_frames = data ! 16,
             pf_fragment = take (unat (data ! 17)) (drop 18 data)\<rparr>"
    using assms
    by (auto simp: parse_frame_def validate_frame_header_def validate_frame_index_def frame_consts rbind_Inr_iff Let_def
        word_less_nat_alt word_le_nat_alt list_ex_iff not_less split: if_splits)
  let ?n = "unat (data ! 17)"
  have "drop 15 data = data ! 15 # data ! 16 # data ! 17 # drop 18 data"
    using h(1) by (simp add: Cons_nth_drop_Suc numeral_eq_Suc)
  moreover have "drop 2 data = data ! 2 # drop 3 data" using h(1) by (simp add: Cons_nth_drop_Suc numeral_eq_Suc)
  moreover have "data = take 2 data @ drop 2 data" "drop 3 data = take 12 (drop 3 data) @ drop 15 data"
    "drop 18 data = take ?n (drop 18 data) @ drop (18 + ?n) data"
    using append_take_drop_id [of 12 "drop 3 data"] append_take_drop_id [of ?n "drop 18 data"]
    by (simp_all add: add.commute)
  moreover have "drop (18 + ?n) data = replicate (length data - (18 + ?n)) 0"
    using e(2) replicate_length_same [of "drop (18 + ?n) data" 0] by simp
  moreover have "length (take ?n (drop 18 data)) = ?n" using e(1) by simp
  ultimately have "data = frame_bytes f @ replicate (length data - (18 + ?n)) 0"
    using h(2,3) unfolding f frame_bytes_def by (simp del: append_take_drop_id)
  moreover have "frame_ok f"
    using h(1) i e(1) unat_u8_less [of "data ! 17"] by (simp add: f frame_ok_def frame_consts)
  ultimately show ?thesis by blast
qed

lemma encode_frame_Ok:
  "encode_frame sid i n frag out = Ok (len, out') \<longleftrightarrow>
     2 \<le> unat n \<and> unat n \<le> MAX_FRAMES \<and> unat i < unat n \<and> frag \<noteq> [] \<and> length frag \<le> 255
     \<and> len = max (FRAME_HEADER_LEN + length frag) MIN_ENCODED_FRAME_LEN \<and> len \<le> length out
     \<and> out' = FRAME_MAGIC @ [FRAME_VERSION] @ sid @ [i, n, word_of_nat (length frag)] @ frag
             @ replicate (len - (FRAME_HEADER_LEN + length frag)) 0 @ drop len out"
  by (auto simp: encode_frame_def Let_def word_less_nat_alt word_le_nat_alt not_less not_le)

end
