(* ===== verification/Qr_Codec.thy ===== *)
theory Qr_Codec
  imports Qr_Frame Mass Strings
begin

text \<open>
  Animated QR transfers (\<open>transaction/interchange/qr/codec.rs\<close>): splitting data into frames and the decoder that
  assembles them. The thread-local decoder is explicit state. SHA-256, the \<open>hex\<close> crate and the \<open>qrcode\<close> crate are
  third-party code and are the parameters \<open>sha256\<close>, \<open>hex_decode\<close>, \<open>hex_encode\<close> and \<open>qr_new\<close> (the width of a code and
  which of its modules are dark).

  The decoder refines an abstract session (\<open>qr_session\<close>): idle, or an identifier with a frame count and a finite map of
  the fragments received. The delivery and integrity properties are proved on it.
\<close>

section \<open>Definitions\<close>

definition MAX_FRAME_DATA :: nat where "MAX_FRAME_DATA = 91"
definition SINGLE_FRAME_DATA :: nat where "SINGLE_FRAME_DATA = 134"

record qr_frame =
  qf_frame_num :: u8
  qf_total_frames :: u8
  qf_svg :: string

text \<open>\<open>slice::chunks\<close>: the last chunk may be shorter.\<close>

function slice_chunks :: "nat \<Rightarrow> 'a list \<Rightarrow> 'a list list" where
  "slice_chunks n xs = (if n = 0 \<or> xs = [] then [] else take n xs # slice_chunks n (drop n xs))"
  by auto
termination by (relation "measure (\<lambda>(n, xs). length xs)") auto

declare slice_chunks.simps [simp del]

text \<open>Collecting an iterator of results: the first error wins.\<close>

fun collect_results :: "('e + 'a) list \<Rightarrow> 'e + 'a list" where
  "collect_results [] = Ok []"
| "collect_results (r # rs) = rbind r (\<lambda>a. rbind (collect_results rs) (\<lambda>as. Ok (a # as)))"

fun frame_error_debug :: "frame_error \<Rightarrow> string" where
  "frame_error_debug FrameBufferTooSmall = ''BufferTooSmall''"
| "frame_error_debug InvalidHeader = ''InvalidHeader''"
| "frame_error_debug InvalidIndex = ''InvalidIndex''"
| "frame_error_debug InvalidLength = ''InvalidLength''"
| "frame_error_debug NonCanonicalPadding = ''NonCanonicalPadding''"

definition frame_payloads :: "(bytes \<Rightarrow> bytes) \<Rightarrow> bytes \<Rightarrow> string + bytes list" where
  "frame_payloads sha256 data =
     (if data = [] then Err ''Empty data''
      else if length data \<le> SINGLE_FRAME_DATA then Ok [data]
      else let total_frames = div_ceil (length data) MAX_FRAME_DATA in
        if total_frames > MAX_FRAMES
        then Err (''Too large: '' @ dec_string (length data) @ '' bytes ('' @ dec_string total_frames
                  @ '' frames, max '' @ dec_string MAX_FRAMES @ '')'')
        else let identifier = session_id sha256 data;
                 fragments = slice_chunks (div_ceil (length data) total_frames) data;
                 count = word_of_nat (length fragments) :: u8 in
          collect_results (map (\<lambda>(fragment, frame_num).
            rbind (map_err (\<lambda>e. ''Frame encoding failed: '' @ frame_error_debug e)
                     (encode_frame identifier frame_num count fragment (replicate SINGLE_FRAME_DATA 0)))
              (\<lambda>(len, payload). Ok (take len payload)))
            (zip fragments (map word_of_nat [0..<length fragments]))))"

definition qr_to_svg :: "(bytes \<Rightarrow> string + nat \<times> bool list) \<Rightarrow> bytes \<Rightarrow> string + string" where
  \<open>qr_to_svg qr_new data =
     rbind (map_err (\<lambda>e. ''QR failed: '' @ e) (qr_new data)) (\<lambda>(width, modules).
     let border = 2;
         side = dec_string (border + width + border) in
     Ok (''<svg xmlns="http://www.w3.org/2000/svg" viewBox="0 0 '' @ side @ '' '' @ side
         @ ''" shape-rendering="crispEdges"><rect width="'' @ side @ ''" height="'' @ side @ ''" fill="white"/>''
         @ concat (map (\<lambda>(i, dark). if dark
             then ''<rect x="'' @ dec_string (i mod width + border) @ ''" y="'' @ dec_string (i div width + border)
                  @ ''" width="1" height="1" fill="black"/>'' else []) (enumerate 0 modules))
         @ ''</svg>''))\<close>

definition generate_frames ::
  "(bytes \<Rightarrow> bytes) \<Rightarrow> (string \<Rightarrow> string + bytes) \<Rightarrow> (bytes \<Rightarrow> string + nat \<times> bool list) \<Rightarrow> string \<Rightarrow> string + qr_frame list" where
  "generate_frames sha256 hex_decode qr_new kspt_hex =
     rbind (map_err (\<lambda>e. ''Invalid hex: '' @ e) (hex_decode kspt_hex)) (\<lambda>data.
     rbind (frame_payloads sha256 data) (\<lambda>payloads.
     let total_frames = word_of_nat (length payloads) in
     collect_results (map (\<lambda>(payload, frame_num).
       rbind (qr_to_svg qr_new payload) (\<lambda>svg.
       Ok \<lparr>qf_frame_num = frame_num, qf_total_frames = total_frames, qf_svg = svg\<rparr>))
       (zip payloads (map word_of_nat [0..<length payloads])))))"

record decoder_state =
  ds_session_id :: bytes
  ds_session_active :: bool
  ds_total_frames :: u8
  ds_received :: "bool list"
  ds_fragments :: "bytes list"

definition decoder_new :: decoder_state where
  "decoder_new = \<lparr>ds_session_id = replicate SESSION_ID_LEN 0, ds_session_active = False, ds_total_frames = 0,
     ds_received = replicate MAX_FRAMES False, ds_fragments = replicate MAX_FRAMES []\<rparr>"

definition decoder_reset :: "decoder_state \<Rightarrow> decoder_state" where
  "decoder_reset st = st\<lparr>ds_session_id := map (\<lambda>_. 0) (ds_session_id st), ds_session_active := False,
     ds_total_frames := 0, ds_received := replicate MAX_FRAMES False, ds_fragments := map (\<lambda>_. []) (ds_fragments st)\<rparr>"

definition accept_session :: "bytes \<Rightarrow> u8 \<Rightarrow> decoder_state \<Rightarrow> string + decoder_state" where
  "accept_session sid total_frames st =
     (case authorize_frame_session (ds_session_active st) (ds_session_id st) (ds_total_frames st) sid total_frames of
        Err _ \<Rightarrow> Err ''Mixed multi-frame QR session rejected''
      | Ok _ \<Rightarrow>
          if \<not> ds_session_active st
          then Ok (st\<lparr>ds_session_id := sid, ds_session_active := True, ds_total_frames := total_frames\<rparr>)
          else Ok st)"

definition assembled :: "(bytes \<Rightarrow> bytes) \<Rightarrow> decoder_state \<Rightarrow> string + bytes option" where
  "assembled sha256 st =
     (let n = unat (ds_total_frames st) in
      if \<not> list_all (\<lambda>received. received) (take n (ds_received st)) then Ok None
      else let complete = concat (take n (ds_fragments st)) in
        if \<not> verify_session sha256 complete (ds_session_id st) then Err ''Assembled QR session digest mismatch''
        else Ok (Some complete))"

definition absorb :: "(bytes \<Rightarrow> bytes) \<Rightarrow> parsed_frame \<Rightarrow> decoder_state \<Rightarrow> (string + bytes option) \<times> decoder_state" where
  "absorb sha256 frame st =
     (case accept_session (pf_session_id frame) (pf_total_frames frame) st of
        Err e \<Rightarrow> (Err e, st)
      | Ok st \<Rightarrow>
          let index = unat (pf_frame_index frame) in
          if ds_received st ! index
          then (if ds_fragments st ! index = pf_fragment frame then Ok None
                else Err ''Conflicting duplicate QR frame rejected'', st)
          else let st = st\<lparr>ds_received := (ds_received st)[index := True],
                           ds_fragments := (ds_fragments st)[index := pf_fragment frame]\<rparr>
               in (assembled sha256 st, st))"

text \<open>The closure of \<open>decode_frame\<close>: absorb one parsed frame and end the session unless more frames are missing.\<close>

definition decode_parsed :: "(bytes \<Rightarrow> bytes) \<Rightarrow> parsed_frame \<Rightarrow> decoder_state \<Rightarrow> (string + bytes option) \<times> decoder_state" where
  "decode_parsed sha256 frame st =
     (let (outcome, st) = absorb sha256 frame st in
      (outcome, if outcome \<noteq> Ok None then decoder_reset st else st))"

definition decode_payload :: "(bytes \<Rightarrow> bytes) \<Rightarrow> bytes \<Rightarrow> decoder_state \<Rightarrow> (string + bytes option) \<times> decoder_state" where
  "decode_payload sha256 payload st =
     (case parse_frame payload of
        Err e \<Rightarrow> (Err (''Invalid multi-frame QR: '' @ frame_error_debug e), st)
      | Ok frame \<Rightarrow> decode_parsed sha256 frame st)"

definition decode_frame ::
  "(bytes \<Rightarrow> bytes) \<Rightarrow> (string \<Rightarrow> string + bytes) \<Rightarrow> (bytes \<Rightarrow> string) \<Rightarrow> string \<Rightarrow> decoder_state
     \<Rightarrow> (string + string option) \<times> decoder_state" where
  "decode_frame sha256 hex_decode hex_encode frame_hex st =
     (case hex_decode frame_hex of
        Err e \<Rightarrow> (Err (''Invalid hex: '' @ e), st)
      | Ok payload \<Rightarrow>
          let (outcome, st) = decode_payload sha256 payload st in
          (rbind outcome (\<lambda>complete. Ok (map_option hex_encode complete)), st))"

definition reset_decoder :: "decoder_state \<Rightarrow> decoder_state" where
  "reset_decoder st = decoder_reset st"

fun join :: "string \<Rightarrow> string list \<Rightarrow> string" where
  "join sep [] = []"
| "join sep [s] = s"
| "join sep (s # t # ts) = s @ sep @ join sep (t # ts)"

definition decoder_progress :: "decoder_state \<Rightarrow> string" where
  \<open>decoder_progress st =
     (let n = unat (ds_total_frames st) in
      if n = 0 then ''0/0''
      else let received = length (filter (\<lambda>i. ds_received st ! i) [0..<n]);
               bits = map (\<lambda>i. if ds_received st ! i then ''1'' else ''0'') [0..<n]
           in ''{"total":'' @ dec_string n @ '',"count":'' @ dec_string received @ '',"bits":['' @ join '','' bits @ '']}'')\<close>

definition generate_svg_from_text :: "(bytes \<Rightarrow> string + nat \<times> bool list) \<Rightarrow> string \<Rightarrow> string + string" where
  "generate_svg_from_text qr_new txt = qr_to_svg qr_new (map of_char txt)"

section \<open>Splitting\<close>

lemma concat_slice_chunks: "0 < n \<Longrightarrow> concat (slice_chunks n xs) = xs"
  by (induction n xs rule: slice_chunks.induct) (subst slice_chunks.simps, simp)

lemma slice_chunks_bounds: "c \<in> set (slice_chunks n xs) \<Longrightarrow> c \<noteq> [] \<and> length c \<le> n"
proof (induction n xs rule: slice_chunks.induct)
  case (1 n xs)
  then show ?case by (subst (asm) (2) slice_chunks.simps) (auto split: if_splits)
qed

lemma div_ceil_small: "0 < l \<Longrightarrow> l \<le> n \<Longrightarrow> div_ceil l n = 1"
  unfolding div_ceil_def by (rule div_nat_eqI) simp_all

lemma length_slice_chunks: "0 < n \<Longrightarrow> length (slice_chunks n xs) = div_ceil (length xs) n"
proof (induction n xs rule: slice_chunks.induct)
  case (1 n xs)
  show ?case
  proof (cases "length xs \<le> n")
    case True
    show ?thesis
    proof (cases "xs = []")
      case False
      then have "div_ceil (length xs) n = 1" using True div_ceil_small [of "length xs" n] by simp
      then show ?thesis using True False 1(2)
        by (subst slice_chunks.simps) (simp add: slice_chunks.simps [of n "[]"])
    qed (use 1(2) in \<open>simp add: slice_chunks.simps [of n "[]"] div_ceil_def\<close>)
  next
    case False
    then have "xs \<noteq> []" by auto
    have "(length xs + n - 1) div n = Suc ((length xs - n + n - 1) div n)"
      using False 1(2) le_div_geq [of n "length xs + n - 1"] by simp
    then show ?thesis using 1 \<open>xs \<noteq> []\<close> by (subst slice_chunks.simps) (simp add: div_ceil_def)
  qed
qed

lemma collect_results_Ok: "(\<And>x. x \<in> set xs \<Longrightarrow> f x = Ok (g x)) \<Longrightarrow> collect_results (map f xs) = Ok (map g xs)"
  by (induction xs) auto

text \<open>A frame as the encoder pads it for display.\<close>

definition shown_frame :: "parsed_frame \<Rightarrow> bytes" where
  "shown_frame f = frame_bytes f @ replicate (MIN_ENCODED_FRAME_LEN - (FRAME_HEADER_LEN + length (pf_fragment f))) 0"

lemma parse_shown_frame: "frame_ok f \<Longrightarrow> parse_frame (shown_frame f) = Ok f"
  by (simp add: shown_frame_def parse_frame_bytes)

lemma encode_frame_shown:
  assumes "frame_ok f" "MIN_ENCODED_FRAME_LEN \<le> length out" "FRAME_HEADER_LEN + length (pf_fragment f) \<le> length out"
  shows "\<exists>out'. encode_frame (pf_session_id f) (pf_frame_index f) (pf_total_frames f) (pf_fragment f) out
           = Ok (length (shown_frame f), out') \<and> take (length (shown_frame f)) out' = shown_frame f \<and> length out' = length out"
proof -
  let ?len = "max (FRAME_HEADER_LEN + length (pf_fragment f)) MIN_ENCODED_FRAME_LEN"
  have len: "length (shown_frame f) = ?len"
    using assms(1) by (simp add: shown_frame_def length_frame_bytes frame_ok_def)
  have pad: "?len - (FRAME_HEADER_LEN + length (pf_fragment f))
      = MIN_ENCODED_FRAME_LEN - (FRAME_HEADER_LEN + length (pf_fragment f))" by simp
  have "encode_frame (pf_session_id f) (pf_frame_index f) (pf_total_frames f) (pf_fragment f) out
      = Ok (?len, shown_frame f @ drop ?len out)"
    using assms unfolding encode_frame_Ok frame_ok_def pad by (simp add: shown_frame_def frame_bytes_def)
  then show ?thesis using assms(2,3) len by (intro exI [of _ "shown_frame f @ drop ?len out"]) simp
qed

text \<open>The frames of a transfer: fragment \<open>i\<close> of \<open>frags\<close> under the identifier \<open>sid\<close>.\<close>

definition transfer_frame :: "bytes \<Rightarrow> bytes list \<Rightarrow> nat \<Rightarrow> parsed_frame" where
  "transfer_frame sid frags i =
     \<lparr>pf_session_id = sid, pf_frame_index = word_of_nat i, pf_total_frames = word_of_nat (length frags),
      pf_fragment = frags ! i\<rparr>"

definition transfer_ok :: "bytes list \<Rightarrow> bool" where
  "transfer_ok frags \<longleftrightarrow> 2 \<le> length frags \<and> length frags \<le> MAX_FRAMES
     \<and> (\<forall>c\<in>set frags. c \<noteq> [] \<and> length c \<le> MAX_FRAME_DATA)"

lemma unat_of_small: "n \<le> MAX_FRAMES \<Longrightarrow> unat (word_of_nat n :: u8) = n"
  by (simp add: frame_consts)

lemma transfer_frame_ok:
  assumes "transfer_ok frags" "i < length frags" "length sid = SESSION_ID_LEN"
  shows "frame_ok (transfer_frame sid frags i)"
proof -
  have "frags ! i \<noteq> []" "length (frags ! i) \<le> 91"
    using assms(1,2) nth_mem [of i frags] by (auto simp: transfer_ok_def MAX_FRAME_DATA_def)
  moreover have "length frags \<le> MAX_FRAMES" "2 \<le> length frags" "i \<le> MAX_FRAMES"
    using assms(1,2) by (auto simp: transfer_ok_def)
  ultimately show ?thesis
    using assms(2,3) by (simp add: frame_ok_def transfer_frame_def unat_of_small)
qed

lemma div_ceil_le: "0 < b \<Longrightarrow> a \<le> c * b \<Longrightarrow> div_ceil a b \<le> c"
proof -
  assume "0 < b" "a \<le> c * b"
  then have "a + b - 1 < Suc c * b" by (simp; linarith)
  then show ?thesis using less_mult_imp_div_less [of "a + b - 1" "Suc c" b] by (simp add: div_ceil_def)
qed

lemma div_ceil_mult: "0 < b \<Longrightarrow> a \<le> div_ceil a b * b"
  using dividend_less_div_times [of b "a + b - 1"] by (simp add: div_ceil_def)

lemma div_ceil_pos: "0 < a \<Longrightarrow> 0 < b \<Longrightarrow> 0 < div_ceil a b"
  by (simp add: div_ceil_def div_greater_zero_iff)

text \<open>What \<open>frame_payloads\<close> sends when the data does not fit one code.\<close>

lemma balanced_fragments:
  fixes data :: bytes
  assumes "SINGLE_FRAME_DATA < length data" "div_ceil (length data) MAX_FRAME_DATA \<le> MAX_FRAMES"
  shows "transfer_ok (slice_chunks (div_ceil (length data) (div_ceil (length data) MAX_FRAME_DATA)) data)"
proof -
  let ?t = "div_ceil (length data) MAX_FRAME_DATA"
  let ?c = "div_ceil (length data) ?t"
  have len: "0 < length data" "91 < length data" using assms(1) by (auto simp: SINGLE_FRAME_DATA_def)
  have t: "0 < ?t" using len by (intro div_ceil_pos) (auto simp: MAX_FRAME_DATA_def)
  have c: "0 < ?c" using len t by (simp add: div_ceil_pos)
  have c91: "?c \<le> 91"
    using div_ceil_mult [of 91 "length data"] t unfolding MAX_FRAME_DATA_def
    by (intro div_ceil_le) (simp_all add: mult.commute)
  have "div_ceil (length data) ?c \<le> ?t"
    using c div_ceil_mult [OF t, of "length data"] by (intro div_ceil_le) (auto simp: mult.commute)
  moreover have "2 \<le> div_ceil (length data) ?c"
  proof (rule ccontr)
    assume "\<not> ?thesis"
    then have "div_ceil (length data) ?c * ?c \<le> 1 * 91" using c91 by (intro mult_le_mono) auto
    then show False using div_ceil_mult [OF c, of "length data"] len(2) by linarith
  qed
  moreover have "\<forall>f\<in>set (slice_chunks ?c data). f \<noteq> [] \<and> length f \<le> MAX_FRAME_DATA"
    using c91 slice_chunks_bounds [of _ ?c data] by (fastforce simp: MAX_FRAME_DATA_def)
  ultimately show ?thesis using assms(2) c by (simp add: transfer_ok_def length_slice_chunks)
qed

lemma frame_payloads_split:
  assumes "SINGLE_FRAME_DATA < length data" "frame_payloads sha256 data = Ok frames"
    and "length (session_id sha256 data) = SESSION_ID_LEN"
  obtains frags where "transfer_ok frags" "concat frags = data"
    "frames = map (\<lambda>i. shown_frame (transfer_frame (session_id sha256 data) frags i)) [0..<length frags]"
proof -
  let ?t = "div_ceil (length data) MAX_FRAME_DATA"
  let ?frags = "slice_chunks (div_ceil (length data) ?t) data"
  let ?sid = "session_id sha256 data"
  define enc where "enc = (\<lambda>(fragment, frame_num).
            rbind (map_err (\<lambda>e. ''Frame encoding failed: '' @ frame_error_debug e)
                     (encode_frame ?sid frame_num (word_of_nat (length ?frags)) fragment (replicate SINGLE_FRAME_DATA 0)))
              (\<lambda>(len, payload). Ok (take len payload)))"
  have ne: "data \<noteq> []" using assms(1) by auto
  have t: "?t \<le> MAX_FRAMES" using assms(1,2) ne by (auto simp: frame_payloads_def Let_def split: if_splits)
  have ok: "transfer_ok ?frags" using balanced_fragments [OF assms(1) t] .
  have pos: "0 < div_ceil (length data) ?t"
    using ne by (intro div_ceil_pos) (auto intro: div_ceil_pos simp: MAX_FRAME_DATA_def)
  have zip: "zip ?frags (map word_of_nat [0..<length ?frags]) = map (\<lambda>i. (?frags ! i, word_of_nat i)) [0..<length ?frags]"
    by (auto intro: nth_equalityI)
  have enc: "enc (?frags ! i, word_of_nat i) = Ok (shown_frame (transfer_frame ?sid ?frags i))"
    if "i \<in> set [0..<length ?frags]" for i
  proof -
    let ?f = "transfer_frame ?sid ?frags i"
    have "frame_ok ?f" using ok that assms(3) by (intro transfer_frame_ok) auto
    moreover have "length (pf_fragment ?f) \<le> 91"
      using ok that nth_mem [of i ?frags] by (auto simp: transfer_ok_def MAX_FRAME_DATA_def transfer_frame_def)
    ultimately obtain out' where "encode_frame ?sid (word_of_nat i) (word_of_nat (length ?frags)) (?frags ! i)
        (replicate SINGLE_FRAME_DATA 0) = Ok (length (shown_frame ?f), out')"
      "take (length (shown_frame ?f)) out' = shown_frame ?f"
      using encode_frame_shown [of ?f "replicate SINGLE_FRAME_DATA 0"]
      by (auto simp: SINGLE_FRAME_DATA_def frame_consts transfer_frame_def)
    then show ?thesis by (simp add: enc_def map_err_def)
  qed
  have "frame_payloads sha256 data = collect_results (map enc (map (\<lambda>i. (?frags ! i, word_of_nat i)) [0..<length ?frags]))"
    using assms(1) ne t unfolding frame_payloads_def Let_def enc_def zip by simp
  also have "\<dots> = Ok (map (\<lambda>i. shown_frame (transfer_frame ?sid ?frags i)) [0..<length ?frags])"
    unfolding map_map comp_def by (rule collect_results_Ok) (rule enc)
  finally show thesis
    using that [OF ok] concat_slice_chunks [OF pos, of data] assms(2) by simp
qed

section \<open>The decoder refines an abstract session\<close>

text \<open>The session: idle, or an identifier, a frame count and the fragments received so far.\<close>

datatype qr_session = Idle | Active bytes nat "nat \<Rightarrow> bytes option"

definition complete_map :: "nat \<Rightarrow> (nat \<Rightarrow> bytes option) \<Rightarrow> bool" where
  "complete_map n m \<longleftrightarrow> (\<forall>i<n. m i \<noteq> None)"

definition deliver :: "(bytes \<Rightarrow> bytes) \<Rightarrow> bytes \<Rightarrow> nat \<Rightarrow> (nat \<Rightarrow> bytes option) \<Rightarrow> (string + bytes option) \<times> qr_session" where
  "deliver sha256 sid n m =
     (if \<not> complete_map n m then (Ok None, Active sid n m)
      else let complete = concat (map (\<lambda>i. the (m i)) [0..<n]) in
        if session_id sha256 complete \<noteq> sid then (Err ''Assembled QR session digest mismatch'', Idle)
        else (Ok (Some complete), Idle))"

definition session_step :: "(bytes \<Rightarrow> bytes) \<Rightarrow> parsed_frame \<Rightarrow> qr_session \<Rightarrow> (string + bytes option) \<times> qr_session" where
  "session_step sha256 f s =
     (let i = unat (pf_frame_index f) in
      case s of
        Idle \<Rightarrow> deliver sha256 (pf_session_id f) (unat (pf_total_frames f)) [i \<mapsto> pf_fragment f]
      | Active sid n m \<Rightarrow>
          if pf_session_id f \<noteq> sid \<or> unat (pf_total_frames f) \<noteq> n then (Err ''Mixed multi-frame QR session rejected'', Idle)
          else (case m i of
                  None \<Rightarrow> deliver sha256 sid n (m(i \<mapsto> pf_fragment f))
                | Some fragment \<Rightarrow> if fragment = pf_fragment f then (Ok None, s)
                                   else (Err ''Conflicting duplicate QR frame rejected'', Idle)))"

definition received_map :: "decoder_state \<Rightarrow> nat \<Rightarrow> bytes option" where
  "received_map st i = (if i < MAX_FRAMES \<and> ds_received st ! i then Some (ds_fragments st ! i) else None)"

definition abs_session :: "decoder_state \<Rightarrow> qr_session" where
  "abs_session st =
     (if ds_session_active st then Active (ds_session_id st) (unat (ds_total_frames st)) (received_map st) else Idle)"

definition decoder_inv :: "decoder_state \<Rightarrow> bool" where
  "decoder_inv st \<longleftrightarrow>
     length (ds_session_id st) = SESSION_ID_LEN \<and> length (ds_received st) = MAX_FRAMES \<and> length (ds_fragments st) = MAX_FRAMES
     \<and> unat (ds_total_frames st) \<le> MAX_FRAMES \<and> (\<not> ds_session_active st \<longrightarrow> st = decoder_new)"

lemma decoder_reset_new: "decoder_inv st \<Longrightarrow> decoder_reset st = decoder_new"
  by (simp add: decoder_inv_def decoder_reset_def decoder_new_def map_replicate_const)

lemma decoder_inv_new [simp]: "decoder_inv decoder_new"
  by (simp add: decoder_inv_def decoder_new_def frame_consts)

lemma abs_session_new [simp]: "abs_session decoder_new = Idle"
  by (simp add: abs_session_def decoder_new_def)

lemma abs_session_Idle: "decoder_inv st \<Longrightarrow> abs_session st = Idle \<longleftrightarrow> st = decoder_new"
  by (auto simp: abs_session_def decoder_inv_def decoder_new_def split: if_splits)

lemma received_map_new: "received_map decoder_new = Map.empty"
  by (auto simp: received_map_def decoder_new_def)

lemma received_map_store:
  assumes "length (ds_received st) = MAX_FRAMES" "length (ds_fragments st) = MAX_FRAMES" "i < MAX_FRAMES"
  shows "received_map (st\<lparr>ds_received := (ds_received st)[i := True], ds_fragments := (ds_fragments st)[i := frag]\<rparr>)
         = (received_map st)(i \<mapsto> frag)"
  using assms by (auto simp: received_map_def nth_list_update)

text \<open>\<open>assembled\<close> on an active session, together with the reset of \<open>decode_frame\<close>, is \<open>deliver\<close>.\<close>

lemma assembled_deliver:
  assumes "decoder_inv st" "ds_session_active st"
  shows "deliver sha256 (ds_session_id st) (unat (ds_total_frames st)) (received_map st)
         = (assembled sha256 st, abs_session (if assembled sha256 st \<noteq> Ok None then decoder_reset st else st))"
proof -
  let ?n = "unat (ds_total_frames st)"
  have len: "?n \<le> MAX_FRAMES" "length (ds_received st) = MAX_FRAMES" "length (ds_fragments st) = MAX_FRAMES"
    using assms by (auto simp: decoder_inv_def)
  have c: "list_all (\<lambda>received. received) (take ?n (ds_received st)) \<longleftrightarrow> complete_map ?n (received_map st)"
    using len by (auto simp: list_all_length complete_map_def received_map_def)
  have f: "concat (map (\<lambda>i. the (received_map st i)) [0..<?n]) = concat (take ?n (ds_fragments st))"
    if "complete_map ?n (received_map st)"
  proof -
    have "map (\<lambda>i. the (received_map st i)) [0..<?n] = take ?n (ds_fragments st)"
      using that len by (intro nth_equalityI) (auto simp: complete_map_def received_map_def split: if_splits)
    then show ?thesis by simp
  qed
  have "abs_session st = Active (ds_session_id st) ?n (received_map st)" using assms(2) by (simp add: abs_session_def)
  then show ?thesis
    using assms c f by (simp add: deliver_def assembled_def Let_def verify_session_def decoder_reset_new)
qed

text \<open>The rest of \<open>absorb\<close> once the session is accepted.\<close>

definition store_frame :: "(bytes \<Rightarrow> bytes) \<Rightarrow> parsed_frame \<Rightarrow> decoder_state \<Rightarrow> (string + bytes option) \<times> decoder_state" where
  "store_frame sha256 f st =
     (let i = unat (pf_frame_index f) in
      if ds_received st ! i
      then (if ds_fragments st ! i = pf_fragment f then Ok None else Err ''Conflicting duplicate QR frame rejected'', st)
      else let st = st\<lparr>ds_received := (ds_received st)[i := True], ds_fragments := (ds_fragments st)[i := pf_fragment f]\<rparr>
           in (assembled sha256 st, st))"

lemma store_frame_refines:
  assumes "decoder_inv st" "ds_session_active st" "frame_ok f"
    and "ds_session_id st = pf_session_id f" "ds_total_frames st = pf_total_frames f"
    and "store_frame sha256 f st = (r, st')"
  shows "session_step sha256 f (Active (ds_session_id st) (unat (ds_total_frames st)) (received_map st))
         = (r, abs_session (if r \<noteq> Ok None then decoder_reset st' else st'))" (is ?step)
    and "decoder_inv st'"
proof -
  let ?i = "unat (pf_frame_index f)"
  have i: "?i < MAX_FRAMES" using assms(3) by (auto simp: frame_ok_def)
  have act: "abs_session st = Active (ds_session_id st) (unat (ds_total_frames st)) (received_map st)"
    using assms(2) by (simp add: abs_session_def)
  have "?step \<and> decoder_inv st'"
  proof (cases "ds_received st ! ?i")
    case True
    then have "received_map st ?i = Some (ds_fragments st ! ?i)" using i by (simp add: received_map_def)
    then show ?thesis using True assms act by (auto simp: store_frame_def session_step_def Let_def decoder_reset_new split: if_splits)
  next
    case False
    then have none: "received_map st ?i = None" by (simp add: received_map_def)
    let ?st = "st\<lparr>ds_received := (ds_received st)[?i := True], ds_fragments := (ds_fragments st)[?i := pf_fragment f]\<rparr>"
    have inv: "decoder_inv ?st" using assms(1,2) by (simp add: decoder_inv_def)
    have r: "r = assembled sha256 ?st" "st' = ?st" using assms(6) False by (auto simp: store_frame_def Let_def)
    have "received_map ?st = (received_map st)(?i \<mapsto> pf_fragment f)"
      using assms(1) i by (intro received_map_store) (auto simp: decoder_inv_def)
    then show ?thesis
      using assembled_deliver [OF inv, of sha256] inv assms(2,4,5) none r by (simp add: session_step_def Let_def)
  qed
  then show ?step "decoder_inv st'" by blast+
qed

lemma decode_parsed_refines:
  assumes "decoder_inv st" "frame_ok f" "decode_parsed sha256 f st = (r, st')"
  shows "session_step sha256 f (abs_session st) = (r, abs_session st') \<and> decoder_inv st'"
proof (cases "accept_session (pf_session_id f) (pf_total_frames f) st")
  case (Inl e)
  then have mixed: "ds_session_active st" "ds_session_id st \<noteq> pf_session_id f \<or> ds_total_frames st \<noteq> pf_total_frames f"
    and e: "e = ''Mixed multi-frame QR session rejected''"
    by (auto simp: accept_session_def authorize_frame_session_def split: if_splits sum.splits)
  have "r = Err e" "st' = decoder_new"
    using assms(1,3) Inl by (auto simp: decode_parsed_def absorb_def decoder_reset_new)
  moreover have "abs_session st = Active (ds_session_id st) (unat (ds_total_frames st)) (received_map st)"
    using mixed(1) by (simp add: abs_session_def)
  ultimately show ?thesis using mixed(2) [unfolded word_unat_eq_iff] e by (auto simp: session_step_def Let_def)
next
  case (Inr st1)
  obtain r1 st2 where st: "store_frame sha256 f st1 = (r1, st2)" by (cases "store_frame sha256 f st1")
  have "absorb sha256 f st = store_frame sha256 f st1" using Inr by (simp add: absorb_def store_frame_def)
  then have r: "r = r1" "st' = (if r \<noteq> Ok None then decoder_reset st2 else st2)"
    using assms(3) st by (auto simp: decode_parsed_def)
  have st1: "ds_session_active st1" "ds_session_id st1 = pf_session_id f" "ds_total_frames st1 = pf_total_frames f"
    "received_map st1 = received_map st" "decoder_inv st1"
    using Inr assms(1,2)
    by (auto simp: accept_session_def authorize_frame_session_def decoder_inv_def received_map_def frame_ok_def fun_eq_iff
        split: if_splits sum.splits)
  note step = store_frame_refines [OF st1(5,1) assms(2) st1(2,3) st]
  have "session_step sha256 f (abs_session st)
      = session_step sha256 f (Active (ds_session_id st1) (unat (ds_total_frames st1)) (received_map st1))"
  proof (cases "ds_session_active st")
    case True
    then have "st1 = st" using Inr by (auto simp: accept_session_def split: sum.splits)
    then show ?thesis using True by (simp add: abs_session_def)
  next
    case False
    then have "st = decoder_new" using assms(1) by (simp add: decoder_inv_def)
    then show ?thesis using st1 by (simp add: received_map_new session_step_def)
  qed
  then show ?thesis using step r by (auto simp: decoder_reset_new)
qed

lemma decode_payload_step:
  assumes "decoder_inv st" "parse_frame payload = Ok f"
  shows "\<exists>st'. decode_payload sha256 payload st = (fst (session_step sha256 f (abs_session st)), st')
          \<and> abs_session st' = snd (session_step sha256 f (abs_session st)) \<and> decoder_inv st'"
proof -
  obtain r st' where "decode_parsed sha256 f st = (r, st')" by (cases "decode_parsed sha256 f st")
  with decode_parsed_refines [OF assms(1)] assms(2) parse_frame_inv [OF assms(2)] show ?thesis
    by (force simp: decode_payload_def)
qed

lemma decode_payload_inv: "decoder_inv st \<Longrightarrow> decoder_inv (snd (decode_payload sha256 payload st))"
  using decode_payload_step [of st payload _ sha256] by (cases "parse_frame payload") (auto simp: decode_payload_def)

section \<open>Delivery\<close>

text \<open>Feeding scanned payloads one after the other.\<close>

fun feed :: "(bytes \<Rightarrow> bytes) \<Rightarrow> bytes list \<Rightarrow> decoder_state \<Rightarrow> (string + bytes option) list \<times> decoder_state" where
  "feed sha256 [] st = ([], st)"
| "feed sha256 (p # ps) st =
     (let (r, st) = decode_payload sha256 p st; (rs, st) = feed sha256 ps st in (r # rs, st))"

lemma feed_append:
  "feed sha256 (ps @ qs) st =
     (let (rs, st) = feed sha256 ps st; (rs', st) = feed sha256 qs st in (rs @ rs', st))"
  by (induction ps arbitrary: st) (auto simp: Let_def split: prod.splits)

lemma feed_inv: "decoder_inv st \<Longrightarrow> decoder_inv (snd (feed sha256 ps st))"
proof (induction ps arbitrary: st)
  case (Cons p ps)
  then show ?case using decode_payload_inv [OF Cons.prems, of sha256 p] by (auto simp: Let_def split: prod.splits) (metis snd_conv)
qed simp

text \<open>A session of the transfer \<open>frags\<close> in which the frames with index in \<open>I\<close> were seen.\<close>

definition partial_session :: "bytes \<Rightarrow> bytes list \<Rightarrow> nat set \<Rightarrow> qr_session" where
  "partial_session sid frags I =
     (if I = {} then Idle else Active sid (length frags) (\<lambda>i. if i \<in> I then Some (frags ! i) else None))"

lemma partial_session_step:
  assumes "transfer_ok frags" "sid = session_id sha256 (concat frags)" "I \<subset> {..<length frags}" "i < length frags"
  shows "session_step sha256 (transfer_frame sid frags i) (partial_session sid frags I)
         = (if insert i I = {..<length frags} then (Ok (Some (concat frags)), Idle)
            else (Ok None, partial_session sid frags (insert i I)))"
proof -
  let ?n = "length frags"
  let ?m = "\<lambda>i. if i \<in> I then Some (frags ! i) else None"
  let ?f = "transfer_frame sid frags i"
  have n: "unat (pf_total_frames ?f) = ?n" "unat (pf_frame_index ?f) = i" "pf_fragment ?f = frags ! i" "pf_session_id ?f = sid"
    using assms(1,4) by (auto simp: transfer_frame_def transfer_ok_def unat_of_small)
  have upd: "?m(i \<mapsto> frags ! i) = (\<lambda>j. if j \<in> insert i I then Some (frags ! j) else None)" by auto
  have complete: "complete_map ?n (\<lambda>j. if j \<in> insert i I then Some (frags ! j) else None) \<longleftrightarrow> insert i I = {..<?n}"
    using assms(3,4) by (auto simp: complete_map_def)
  have full: "concat (map (\<lambda>j. the (if j \<in> insert i I then Some (frags ! j) else None)) [0..<?n]) = concat frags"
    if "insert i I = {..<?n}"
  proof -
    have "map (\<lambda>j. the (if j \<in> insert i I then Some (frags ! j) else None)) [0..<?n] = frags"
      using that by (intro nth_equalityI) auto
    then show ?thesis by simp
  qed
  have d: "deliver sha256 sid ?n (?m(i \<mapsto> frags ! i)) = (if insert i I = {..<?n} then (Ok (Some (concat frags)), Idle)
      else (Ok None, partial_session sid frags (insert i I)))"
    using full assms(2) unfolding upd deliver_def complete Let_def by (simp add: partial_session_def)
  show ?thesis
  proof (cases "i \<in> I")
    case True
    then have "insert i I \<noteq> {..<?n}" "insert i I = I" "I \<noteq> {}" using assms(3) by auto
    then show ?thesis using True n by (simp add: session_step_def partial_session_def Let_def)
  next
    case False
    then have none: "?m i = None" by simp
    show ?thesis
    proof (cases "I = {}")
      case True
      then show ?thesis using n d by (simp add: session_step_def partial_session_def Let_def fun_upd_def)
    next
      case nonempty: False
      then show ?thesis using n d none False by (simp add: session_step_def partial_session_def Let_def)
    qed
  qed
qed

lemma feed_snoc:
  "feed sha256 (ps @ [p]) st = (fst (feed sha256 ps st) @ [fst (decode_payload sha256 p (snd (feed sha256 ps st)))],
     snd (decode_payload sha256 p (snd (feed sha256 ps st))))"
  by (simp add: feed_append Let_def split: prod.splits)

abbreviation transfer_payload :: "bytes \<Rightarrow> bytes list \<Rightarrow> nat \<Rightarrow> bytes" where
  "transfer_payload sid frags i \<equiv> shown_frame (transfer_frame sid frags i)"

lemma feed_step:
  assumes "transfer_ok frags" "sid = session_id sha256 (concat frags)" "length sid = SESSION_ID_LEN"
    and "decoder_inv st" "abs_session st = partial_session sid frags I" "I \<subset> {..<length frags}" "i < length frags"
  obtains r st' where "decode_payload sha256 (transfer_payload sid frags i) st = (r, st')" "decoder_inv st'"
    "(r, abs_session st') = (if insert i I = {..<length frags} then (Ok (Some (concat frags)), Idle)
       else (Ok None, partial_session sid frags (insert i I)))"
proof -
  have "parse_frame (transfer_payload sid frags i) = Ok (transfer_frame sid frags i)"
    using assms by (intro parse_shown_frame transfer_frame_ok)
  from decode_payload_step [OF assms(4) this, of sha256] obtain st' where
    "decode_payload sha256 (transfer_payload sid frags i) st
      = (fst (session_step sha256 (transfer_frame sid frags i) (abs_session st)), st')"
    "abs_session st' = snd (session_step sha256 (transfer_frame sid frags i) (abs_session st))" "decoder_inv st'" by blast
  then show thesis using that partial_session_step [OF assms(1,2,6,7)] by (simp add: assms(5))
qed

lemma feed_partial:
  assumes "transfer_ok frags" "sid = session_id sha256 (concat frags)" "length sid = SESSION_ID_LEN"
  shows "set is \<subset> {..<length frags} \<Longrightarrow>
    \<exists>st. feed sha256 (map (transfer_payload sid frags) is) decoder_new = (replicate (length is) (Ok None), st)
      \<and> decoder_inv st \<and> abs_session st = partial_session sid frags (set is)"
proof (induction "is" rule: rev_induct)
  case Nil
  then show ?case by (simp add: partial_session_def)
next
  case (snoc i ii)
  then have ii: "set ii \<subset> {..<length frags}" "i < length frags" "insert i (set ii) \<noteq> {..<length frags}" by auto
  with snoc.IH obtain st where st: "feed sha256 (map (transfer_payload sid frags) ii) decoder_new = (replicate (length ii) (Ok None), st)"
    "decoder_inv st" "abs_session st = partial_session sid frags (set ii)" by auto
  obtain r st' where "decode_payload sha256 (transfer_payload sid frags i) st = (r, st')" "decoder_inv st'"
    "(r, abs_session st') = (if insert i (set ii) = {..<length frags} then (Ok (Some (concat frags)), Idle)
       else (Ok None, partial_session sid frags (insert i (set ii))))"
    using feed_step [OF assms st(2,3) ii(1,2)] .
  then show ?case using ii(3) st(1) by (simp add: feed_snoc replicate_append_same)
qed

lemma inj_transfer_payload:
  assumes "transfer_ok frags" "length sid = SESSION_ID_LEN" "i < length frags" "j < length frags"
    and "transfer_payload sid frags i = transfer_payload sid frags j"
  shows "i = j"
proof -
  have "Ok (transfer_frame sid frags i) = parse_frame (transfer_payload sid frags i)"
    by (rule parse_shown_frame [OF transfer_frame_ok [OF assms(1,3,2)], symmetric])
  also have "\<dots> = parse_frame (transfer_payload sid frags j)" by (rule arg_cong [OF assms(5)])
  also have "\<dots> = Ok (transfer_frame sid frags j)"
    by (rule parse_shown_frame [OF transfer_frame_ok [OF assms(1,4,2)]])
  finally have "transfer_frame sid frags i = transfer_frame sid frags j" by (rule sum.inject(2) [THEN iffD1])
  then have "unat (pf_frame_index (transfer_frame sid frags i)) = unat (pf_frame_index (transfer_frame sid frags j))" by metis
  moreover have "i \<le> MAX_FRAMES" "j \<le> MAX_FRAMES" using assms(1,3,4) unfolding transfer_ok_def by linarith+
  ultimately show ?thesis by (simp add: transfer_frame_def unat_of_small)
qed

lemma delivery_core:
  assumes "\<forall>x. length (sha256 x) = 32" "SINGLE_FRAME_DATA < length data" "frame_payloads sha256 data = Ok frames"
    and "set ps \<subseteq> set frames" "\<not> set frames \<subseteq> set ps" "p \<in> set frames"
  obtains st where "feed sha256 (ps @ [p]) decoder_new =
    (replicate (length ps) (Ok None) @ [if set frames \<subseteq> set (ps @ [p]) then Ok (Some data) else Ok None], st)"
    "set frames \<subseteq> set (ps @ [p]) \<longrightarrow> st = decoder_new"
proof -
  let ?sid = "session_id sha256 data"
  have sid: "length ?sid = SESSION_ID_LEN" using assms(1) by (simp add: session_id_def frame_consts)
  obtain frags where ok: "transfer_ok frags" and data: "concat frags = data"
    and frames: "frames = map (transfer_payload ?sid frags) [0..<length frags]"
    using frame_payloads_split [OF assms(2,3) sid] by metis
  let ?P = "transfer_payload ?sid frags"
  have "ps \<in> lists (?P ` {..<length frags})" using assms(4) frames by (auto simp: lists_eq_set atLeast0LessThan)
  then obtain ii where ii: "ps = map ?P ii" "set ii \<subseteq> {..<length frags}"
    unfolding lists_image by (auto simp: lists_eq_set)
  obtain i where i: "p = ?P i" "i < length frags" using assms(6) frames by auto
  have inj: "inj_on ?P {..<length frags}" using inj_transfer_payload [OF ok sid] by (auto intro: inj_onI)
  have sub: "set frames \<subseteq> ?P ` J \<longleftrightarrow> J = {..<length frags}" if "J \<subseteq> {..<length frags}" for J
    using inj_on_image_eq_iff [OF inj that subset_refl] that frames by (auto simp: atLeast0LessThan)
  have ne: "set ii \<noteq> {..<length frags}" using assms(5) sub [OF ii(2)] ii(1) by auto
  have all: "set frames \<subseteq> set (ps @ [p]) \<longleftrightarrow> insert i (set ii) = {..<length frags}"
    using sub [of "insert i (set ii)"] ii i by simp
  obtain st where st: "feed sha256 ps decoder_new = (replicate (length ii) (Ok None), st)"
    "decoder_inv st" "abs_session st = partial_session ?sid frags (set ii)"
    using feed_partial [OF ok _ sid, where ?is = ii] ii ne data by (auto simp: psubset_eq)
  obtain r st' where step: "decode_payload sha256 (?P i) st = (r, st')" "decoder_inv st'"
    "(r, abs_session st') = (if insert i (set ii) = {..<length frags} then (Ok (Some (concat frags)), Idle)
       else (Ok None, partial_session ?sid frags (insert i (set ii))))"
    using feed_step [OF ok _ sid st(2,3) _ i(2)] ii(2) ne data by (auto simp: psubset_eq)
  show thesis
  proof (rule that [of st'])
    show "feed sha256 (ps @ [p]) decoder_new =
      (replicate (length ps) (Ok None) @ [if set frames \<subseteq> set (ps @ [p]) then Ok (Some data) else Ok None], st')"
      using st(1) step(1,3) i(1) ii(1) data unfolding all by (auto simp: feed_snoc split: if_splits)
    show "set frames \<subseteq> set (ps @ [p]) \<longrightarrow> st' = decoder_new"
      using step(2,3) abs_session_Idle unfolding all by auto
  qed
qed

section \<open>Properties\<close>

text \<open>(C30) Delivery: data too large for one code is split by \<open>frame_payloads\<close>; scanning those frames in any order
  and with any repetitions, a fresh decoder answers \<open>Ok None\<close> to every frame until the last missing one, answers that
  one with the data itself, and is then back in its initial state. (A digest has 32 bytes.)\<close>

theorem qr_delivery:
  assumes "\<forall>x. length (sha256 x) = 32" "SINGLE_FRAME_DATA < length data" "frame_payloads sha256 data = Ok frames"
    and "set ps \<subseteq> set frames" "\<not> set frames \<subseteq> set ps" "p \<in> set frames"
  shows "case feed sha256 (ps @ [p]) decoder_new of (outcomes, st) \<Rightarrow>
     if set frames \<subseteq> set (ps @ [p])
     then outcomes = replicate (length ps) (Ok None) @ [Ok (Some data)] \<and> st = decoder_new
     else outcomes = replicate (length ps + 1) (Ok None)"
proof -
  obtain st where st: "feed sha256 (ps @ [p]) decoder_new =
    (replicate (length ps) (Ok None) @ [if set frames \<subseteq> set (ps @ [p]) then Ok (Some data) else Ok None], st)"
    "set frames \<subseteq> set (ps @ [p]) \<longrightarrow> st = decoder_new" using delivery_core [OF assms] by metis
  then show ?thesis unfolding st(1) by (simp only: prod.case) (simp add: replicate_append_same)
qed

definition sample_digest :: "bytes \<Rightarrow> bytes" where
  "sample_digest x = replicate 32 (fold (\<lambda>b acc. acc * 31 + b) x 7)"

definition sample_frames :: "bytes list" where
  "sample_frames = (case frame_payloads sample_digest (replicate 200 5) of Ok frames \<Rightarrow> frames | Err _ \<Rightarrow> [])"

lemma sample_frames_Ok: "frame_payloads sample_digest (replicate 200 5) = Ok sample_frames"
  "length sample_frames = 3" "distinct sample_frames"
  by code_simp+

theorem qr_delivery_witness:
  "fst (feed sample_digest [sample_frames ! 2, sample_frames ! 0, sample_frames ! 2, sample_frames ! 1] decoder_new)
     = [Ok None, Ok None, Ok None, Ok (Some (replicate 200 5))]"
proof -
  obtain a b c where abc: "sample_frames = [a, b, c]"
    using sample_frames_Ok(2) by (auto simp: numeral_eq_Suc length_Suc_conv)
  then have "b \<noteq> a" "b \<noteq> c" using sample_frames_Ok(3) unfolding abc by auto
  then show ?thesis
    using qr_delivery [of sample_digest "replicate 200 5" sample_frames "[c, a, c]" b] sample_frames_Ok(1)
    by (auto simp: abc sample_digest_def SINGLE_FRAME_DATA_def numeral_eq_Suc)
qed

text \<open>(C31) The decoder refines the abstract session: on a state of the invariant, a payload that parses as a frame has the
  outcome of the abstract step (mixed sessions, conflicting duplicates and digest mismatches are errors that end the
  session; a repeated frame changes nothing), the abstraction commutes with the step and the invariant is kept; a payload
  that is not a frame is an error and leaves the state as it is.\<close>

theorem qr_decoder_refines_session:
  assumes "decoder_inv st" "decode_payload sha256 payload st = (r, st')"
  shows "decoder_inv st' \<and>
    (case parse_frame payload of
       Ok f \<Rightarrow> session_step sha256 f (abs_session st) = (r, abs_session st')
     | Err e \<Rightarrow> r = Err (''Invalid multi-frame QR: '' @ frame_error_debug e) \<and> st' = st)"
  using assms decode_payload_step [OF assms(1), of payload _ sha256]
  by (cases "parse_frame payload") (auto simp: decode_payload_def)

theorem qr_decoder_refines_session_witness:
  "session_step sample_digest (transfer_frame (replicate 12 1) [[1], [2]] 1)
     (abs_session (snd (decode_payload sample_digest (transfer_payload (replicate 12 1) [[1], [2]] 0) decoder_new)))
   = (Err ''Assembled QR session digest mismatch'', Idle)"
proof -
  let ?st = "snd (decode_payload sample_digest (transfer_payload (replicate 12 1) [[1], [2]] 0) decoder_new)"
  have "decode_payload sample_digest (transfer_payload (replicate 12 1) [[1], [2]] 1) ?st
      = (Err ''Assembled QR session digest mismatch'', decoder_new)" by code_simp
  moreover have "parse_frame (transfer_payload (replicate 12 1) [[1], [2]] 1) = Ok (transfer_frame (replicate 12 1) [[1], [2]] 1)"
    by code_simp
  ultimately show ?thesis
    using qr_decoder_refines_session [OF decode_payload_inv [OF decoder_inv_new]] by fastforce
qed

lemma deliver_Some:
  "deliver sha256 sid n m = (Ok (Some p), s) \<Longrightarrow> session_id sha256 p = sid \<and> s = Idle"
  by (auto simp: deliver_def Let_def split: if_splits)

lemma session_step_Some:
  "session_step sha256 f s = (Ok (Some p), s') \<Longrightarrow> session_id sha256 p = pf_session_id f \<and> s' = Idle"
  using deliver_Some [of sha256 _ _ _ p s']
  by (auto simp: session_step_def Let_def split: qr_session.splits option.splits if_splits)

text \<open>(C32) Integrity and the end of a session: whatever the decoder delivers carries the session identifier of the frame
  just scanned (so its tagged digest and length were verified), and every outcome but \<open>Ok None\<close> of a payload that is a
  frame, a delivery or a rejection alike, returns the decoder to its initial state.\<close>

theorem qr_delivered_payload_verified:
  assumes "decoder_inv st" "parse_frame payload = Ok f" "decode_payload sha256 payload st = (r, st')" "r \<noteq> Ok None"
  shows "st' = decoder_new \<and> (case r of Ok (Some data) \<Rightarrow> session_id sha256 data = pf_session_id f | _ \<Rightarrow> True)"
proof -
  obtain st2 where st2: "r = fst (session_step sha256 f (abs_session st))" "st' = st2"
    "abs_session st' = snd (session_step sha256 f (abs_session st))" "decoder_inv st'"
    using decode_payload_step [OF assms(1,2), of sha256] assms(3) by auto
  have "snd (session_step sha256 f (abs_session st)) = Idle" using assms(4) st2(1)
    by (auto simp: session_step_def deliver_def Let_def split: qr_session.splits option.splits if_splits)
  then have "st' = decoder_new" using st2(3,4) abs_session_Idle by auto
  moreover have "session_id sha256 data = pf_session_id f" if "r = Ok (Some data)" for data
    using session_step_Some [of sha256 f "abs_session st" data] st2(1) that by (metis prod.collapse)
  ultimately show ?thesis by (auto split: sum.splits option.splits)
qed

text \<open>A frame of another payload while a session is in progress: the frames already received are lost.\<close>

theorem qr_delivered_payload_verified_witness:
  "snd (decode_payload sample_digest (transfer_payload (replicate 12 1) [[1], [2]] 0)
     (snd (decode_payload sample_digest (sample_frames ! 0) decoder_new))) = decoder_new"
proof -
  let ?st = "snd (decode_payload sample_digest (sample_frames ! 0) decoder_new)"
  let ?p = "transfer_payload (replicate 12 1) [[1], [2]] 0"
  have "fst (decode_payload sample_digest ?p ?st) = Err ''Mixed multi-frame QR session rejected''" by code_simp
  moreover have "parse_frame ?p = Ok (transfer_frame (replicate 12 1) [[1], [2]] 0)" by code_simp
  ultimately show ?thesis
    using qr_delivered_payload_verified [OF decode_payload_inv [OF decoder_inv_new, of sample_digest "sample_frames ! 0"], of ?p]
    by (metis prod.collapse sum.distinct(1))
qed

text \<open>Frame round trip: into a buffer with room, \<open>encode_frame\<close> writes exactly \<open>max (18 + n) 20\<close> bytes from which
  \<open>parse_frame\<close> reads the same frame back; and everything \<open>parse_frame\<close> accepts is the encoding of a frame the encoder
  accepts, followed by zero padding only.\<close>

theorem qr_frame_roundtrip:
  "(frame_ok f \<and> max (FRAME_HEADER_LEN + length (pf_fragment f)) MIN_ENCODED_FRAME_LEN \<le> length out \<longrightarrow>
      (\<exists>len out'. encode_frame (pf_session_id f) (pf_frame_index f) (pf_total_frames f) (pf_fragment f) out = Ok (len, out')
        \<and> len = max (FRAME_HEADER_LEN + length (pf_fragment f)) MIN_ENCODED_FRAME_LEN \<and> length out' = length out
        \<and> drop len out' = drop len out \<and> parse_frame (take len out') = Ok f)) \<and>
   (parse_frame data = Ok f \<longleftrightarrow> frame_ok f \<and> (\<exists>k. data = frame_bytes f @ replicate k 0))"
proof (intro conjI impI)
  assume a: "frame_ok f \<and> max (FRAME_HEADER_LEN + length (pf_fragment f)) MIN_ENCODED_FRAME_LEN \<le> length out"
  let ?len = "max (FRAME_HEADER_LEN + length (pf_fragment f)) MIN_ENCODED_FRAME_LEN"
  have len: "length (shown_frame f) = ?len"
    using a by (simp add: shown_frame_def length_frame_bytes frame_ok_def)
  obtain out' where o: "encode_frame (pf_session_id f) (pf_frame_index f) (pf_total_frames f) (pf_fragment f) out = Ok (?len, out')"
    "take ?len out' = shown_frame f" "length out' = length out"
    using encode_frame_shown [of f out] a len by auto
  then have "out' = shown_frame f @ drop ?len out"
    unfolding encode_frame_Ok by (simp add: shown_frame_def frame_bytes_def)
  then have "drop ?len out' = drop ?len out" using len by simp
  then show "\<exists>len out'. encode_frame (pf_session_id f) (pf_frame_index f) (pf_total_frames f) (pf_fragment f) out = Ok (len, out')
        \<and> len = ?len \<and> length out' = length out \<and> drop len out' = drop len out \<and> parse_frame (take len out') = Ok f"
    using o a parse_shown_frame by auto
qed (use parse_frame_inv parse_frame_bytes in blast)

theorem qr_frame_roundtrip_witness:
  "\<exists>out'. encode_frame (replicate 12 9) 1 2 [7] (replicate 30 255) = Ok (20, out')
     \<and> parse_frame (take 20 out') = Ok \<lparr>pf_session_id = replicate 12 9, pf_frame_index = 1, pf_total_frames = 2, pf_fragment = [7]\<rparr>"
  using qr_frame_roundtrip [of "\<lparr>pf_session_id = replicate 12 9, pf_frame_index = 1, pf_total_frames = 2, pf_fragment = [7]\<rparr>"
      "replicate 30 255" "[]"]
  by (simp add: frame_ok_def frame_consts) blast

end
