(* ===== verification/Tx_Model.thy ===== *)
theory Tx_Model
  imports Wire_Model Address
begin

text \<open>
  The in-memory transaction that the codecs fill and the signers read (\<open>transaction/model\<close>): signature hash types,
  scripts, inputs with their signature slots and redeem scripts, outputs, and the transaction with its fixed arrays and its
  shared pool for long redeem scripts.

  A fixed array is a list; \<open>tx_arrays\<close> states the lengths Rust's types give. Slicing or indexing past the end panics in
  Rust; \<open>script_bytes\<close>, \<open>tx_inputs\<close> and \<open>tx_outputs\<close> are used on slices in range, which \<open>tx_slices\<close> states and the
  validation of the codec establishes. The allocator is the parameter \<open>reserve\<close>: whether a reservation of that many
  elements succeeds. A method that fails returns its error with the transaction it leaves behind.
\<close>

section \<open>Constants and signature hash types\<close>

definition DEFAULT_INPUT_CAPACITY :: nat where "DEFAULT_INPUT_CAPACITY = 8"
definition MAX_INPUTS :: nat where "MAX_INPUTS = 65535"
definition MAX_SIGS_PER_INPUT :: nat where "MAX_SIGS_PER_INPUT = 5"
definition MAX_MULTISIG_KEYS :: nat where "MAX_MULTISIG_KEYS = 5"
definition REDEEM_POOL_SIZE :: nat where "REDEEM_POOL_SIZE = 2048"
definition SUBNETWORK_ID_NATIVE :: bytes where "SUBNETWORK_ID_NATIVE = replicate 20 0"

record transaction_limits =
  tl_max_inputs :: nat
  tl_max_payload_bytes :: nat

definition limits_format :: transaction_limits where
  "limits_format = \<lparr>tl_max_inputs = MAX_INPUTS, tl_max_payload_bytes = MAX_PAYLOAD_SIZE\<rparr>"

datatype sighash_type =
  SigAll | SigNone | SigSingle | SigAnyOneCanPay | SigAllAnyOneCanPay | SigNoneAnyOneCanPay | SigSingleAnyOneCanPay

fun sighash_to_byte :: "sighash_type \<Rightarrow> u8" where
  "sighash_to_byte SigAll = 0x01"
| "sighash_to_byte SigNone = 0x02"
| "sighash_to_byte SigSingle = 0x04"
| "sighash_to_byte SigAnyOneCanPay = 0x80"
| "sighash_to_byte SigAllAnyOneCanPay = 0x81"
| "sighash_to_byte SigNoneAnyOneCanPay = 0x82"
| "sighash_to_byte SigSingleAnyOneCanPay = 0x84"

definition sighash_from_byte :: "u8 \<Rightarrow> sighash_type option" where
  "sighash_from_byte b =
     (if b = 0x01 then Some SigAll else if b = 0x02 then Some SigNone else if b = 0x04 then Some SigSingle
      else if b = 0x81 then Some SigAllAnyOneCanPay else if b = 0x82 then Some SigNoneAnyOneCanPay
      else if b = 0x84 then Some SigSingleAnyOneCanPay else None)"

definition is_anyone_can_pay :: "sighash_type \<Rightarrow> bool" where
  "is_anyone_can_pay t \<longleftrightarrow> sighash_to_byte t AND 0x80 \<noteq> 0"

definition is_sighash_none :: "sighash_type \<Rightarrow> bool" where
  "is_sighash_none t \<longleftrightarrow> sighash_to_byte t AND 0x02 \<noteq> 0"

definition is_sighash_single :: "sighash_type \<Rightarrow> bool" where
  "is_sighash_single t \<longleftrightarrow> sighash_to_byte t AND 0x04 \<noteq> 0"

section \<open>Scripts, inputs and outputs\<close>

record script_public_key =
  spk_version :: u16
  spk_script :: bytes
  spk_script_len :: nat

definition spk_new :: script_public_key where
  "spk_new = \<lparr>spk_version = 0, spk_script = replicate MAX_SCRIPT_SIZE 0, spk_script_len = 0\<rparr>"

definition script_bytes :: "script_public_key \<Rightarrow> bytes" where
  "script_bytes spk = take (spk_script_len spk) (spk_script spk)"

record tx_utxo_entry =
  tu_amount :: u64
  tu_script_public_key :: script_public_key
  tu_block_daa_score :: u64

record multisig_info =
  mi_m :: u8
  mi_n :: u8
  mi_pubkeys :: "bytes list"

definition multisig_info_new :: multisig_info where
  "multisig_info_new = \<lparr>mi_m = 0, mi_n = 0, mi_pubkeys = replicate MAX_MULTISIG_KEYS (replicate 32 0)\<rparr>"

datatype script_type = P2PK | P2SH | Multisig | UnknownScript

definition is_p2pk_script :: "bytes \<Rightarrow> nat \<Rightarrow> bool" where
  "is_p2pk_script script len \<longleftrightarrow>
     len = 34 \<and> get_at script 0 = Some OP_DATA_32 \<and> get_at script 33 = Some OP_CHECKSIG"

definition is_p2sh_script :: "bytes \<Rightarrow> nat \<Rightarrow> bool" where
  "is_p2sh_script script len \<longleftrightarrow>
     len = 35 \<and> get_at script 0 = Some OP_BLAKE2B \<and> get_at script 1 = Some OP_DATA_32
     \<and> get_at script 34 = Some OP_EQUAL"

definition signer_multisig :: "bytes \<Rightarrow> nat \<Rightarrow> multisig_script option" where
  "signer_multisig script len =
     Option.bind (get_range script 0 len) (\<lambda>s.
     Option.bind (multisig_parse s) (\<lambda>parsed.
     if unat (key_count parsed) \<le> MAX_MULTISIG_KEYS then Some parsed else None))"

definition is_multisig_script :: "bytes \<Rightarrow> nat \<Rightarrow> bool" where
  "is_multisig_script script len \<longleftrightarrow> signer_multisig script len \<noteq> None"

definition detect_script_type :: "bytes \<Rightarrow> nat \<Rightarrow> script_type" where
  "detect_script_type script len =
     (if is_p2pk_script script len then P2PK
      else if is_p2sh_script script len then P2SH
      else if is_multisig_script script len then Multisig
      else UnknownScript)"

text \<open>The loop fills the first slots with the keys of the script.\<close>

definition parse_multisig_script :: "bytes \<Rightarrow> nat \<Rightarrow> multisig_info option" where
  "parse_multisig_script script len =
     Option.bind (signer_multisig script len) (\<lambda>parsed.
     let keys = take MAX_MULTISIG_KEYS (multisig_keys parsed) in
     Some (multisig_info_new\<lparr>mi_m := mu_threshold parsed, mi_n := key_count parsed,
             mi_pubkeys := keys @ drop (length keys) (mi_pubkeys multisig_info_new)\<rparr>))"

record input_sig =
  is_signature :: bytes
  is_sighash_type :: u8
  is_pubkey_pos :: u8
  is_present :: bool
  is_pubkey_compressed :: bytes

definition input_sig_empty :: input_sig where
  "input_sig_empty = \<lparr>is_signature = replicate 64 0, is_sighash_type = 0, is_pubkey_pos = 0, is_present = False,
     is_pubkey_compressed = replicate 33 0\<rparr>"

record incoming_partial_sig =
  ip_pubkey :: bytes
  ip_signature :: bytes
  ip_present :: bool

definition incoming_partial_sig_empty :: incoming_partial_sig where
  "incoming_partial_sig_empty = \<lparr>ip_pubkey = replicate 33 0, ip_signature = replicate 64 0, ip_present = False\<rparr>"

record ms45_hint =
  mh_present :: bool
  mh_cosigner :: u32
  mh_chain :: u32
  mh_index :: u32

definition ms45_none :: ms45_hint where
  "ms45_none = \<lparr>mh_present = False, mh_cosigner = 0, mh_chain = 0, mh_index = 0\<rparr>"

record outpoint =
  op_transaction_id :: bytes
  op_index :: u32

record transaction_input =
  ti_previous_outpoint :: outpoint
  ti_sequence :: u64
  ti_sig_op_count :: u8
  ti_utxo_entry :: tx_utxo_entry
  ti_sigs :: "input_sig list"
  ti_sig_count :: u8
  ti_sighash_type :: u8
  ti_redeem_script :: bytes
  ti_redeem_script_len :: nat
  ti_redeem_in_pool :: bool
  ti_redeem_script_offset :: u16
  ti_incoming_partial_sigs :: "incoming_partial_sig list"
  ti_incoming_partial_sigs_count :: u8
  ti_has_derivation_hint :: bool
  ti_derivation_branch :: u8
  ti_derivation_index :: u32
  ti_ms45_hint :: ms45_hint
  ti_covenant_execution_present :: bool
  ti_covenant_execution_mask :: u16
  ti_covenant_execution_true_mask :: u16

definition input_empty :: transaction_input where
  "input_empty =
     \<lparr>ti_previous_outpoint = \<lparr>op_transaction_id = replicate 32 0, op_index = 0\<rparr>, ti_sequence = 0, ti_sig_op_count = 1,
      ti_utxo_entry = \<lparr>tu_amount = 0, tu_script_public_key = spk_new, tu_block_daa_score = 0\<rparr>,
      ti_sigs = replicate MAX_SIGS_PER_INPUT input_sig_empty, ti_sig_count = 0, ti_sighash_type = 0,
      ti_redeem_script = replicate MAX_SCRIPT_SIZE 0, ti_redeem_script_len = 0, ti_redeem_in_pool = False,
      ti_redeem_script_offset = 0,
      ti_incoming_partial_sigs = replicate MAX_SIGS_PER_INPUT incoming_partial_sig_empty,
      ti_incoming_partial_sigs_count = 0, ti_has_derivation_hint = False, ti_derivation_branch = 0,
      ti_derivation_index = 0, ti_ms45_hint = ms45_none, ti_covenant_execution_present = False,
      ti_covenant_execution_mask = 0, ti_covenant_execution_true_mask = 0\<rparr>"

record transaction_output =
  to_value :: u64
  to_script_public_key :: script_public_key
  to_has_covenant :: bool
  to_covenant_auth_input :: u16
  to_covenant_id :: bytes
  to_derivation_branch :: u8
  to_derivation_index :: u32
  to_has_derivation_hint :: bool
  to_ms45_hint :: ms45_hint

definition output_empty :: transaction_output where
  "output_empty =
     \<lparr>to_value = 0, to_script_public_key = spk_new, to_has_covenant = False, to_covenant_auth_input = 0,
      to_covenant_id = replicate 32 0, to_derivation_branch = 0, to_derivation_index = 0,
      to_has_derivation_hint = False, to_ms45_hint = ms45_none\<rparr>"

section \<open>The transaction\<close>

record transaction =
  tx_version :: u16
  tx_input_slots :: "transaction_input list"
  tx_num_inputs :: nat
  tx_output_slots :: "transaction_output list"
  tx_num_outputs :: nat
  tx_network :: kaspa_network
  tx_locktime :: u64
  tx_subnetwork_id :: bytes
  tx_gas :: u64
  tx_payload :: bytes
  tx_stealth_tweak :: bytes
  tx_has_stealth_tweak :: bool
  tx_redeem_pool :: bytes
  tx_redeem_pool_used :: nat
  tx_limits :: transaction_limits

record transaction_amounts =
  ta_input_total :: u64
  ta_output_total :: u64
  ta_fee :: u64

datatype amount_error = InputTotalOverflow | OutputTotalOverflow | AmountOutputsExceedInputs

datatype storage_error =
  AllocationFailed | StorageTooManyInputs | PayloadTooLarge | RedeemScriptTooLarge | RedeemPoolFull
  | InternalStorageInvariant

definition try_boxed_array :: "(nat \<Rightarrow> bool) \<Rightarrow> nat \<Rightarrow> 'a \<Rightarrow> storage_error + 'a list" where
  "try_boxed_array reserve n v = (if reserve n then Ok (replicate n v) else Err AllocationFailed)"

definition try_new_with :: "(nat \<Rightarrow> bool) \<Rightarrow> transaction_limits \<Rightarrow> storage_error + transaction" where
  "try_new_with reserve lims =
     (let initial_inputs = min DEFAULT_INPUT_CAPACITY (tl_max_inputs lims) in
      if \<not> reserve initial_inputs then Err AllocationFailed
      else rbind (try_boxed_array reserve MAX_OUTPUTS output_empty) (\<lambda>outs.
           rbind (try_boxed_array reserve REDEEM_POOL_SIZE 0) (\<lambda>pool.
           Ok \<lparr>tx_version = 0, tx_input_slots = replicate initial_inputs input_empty, tx_num_inputs = 0,
               tx_output_slots = outs, tx_num_outputs = 0, tx_network = KUnknown, tx_locktime = 0,
               tx_subnetwork_id = SUBNETWORK_ID_NATIVE, tx_gas = 0, tx_payload = [],
               tx_stealth_tweak = replicate 32 0, tx_has_stealth_tweak = False, tx_redeem_pool = pool,
               tx_redeem_pool_used = 0, tx_limits = lims\<rparr>)))"

definition try_new :: "(nat \<Rightarrow> bool) \<Rightarrow> storage_error + transaction" where
  "try_new reserve = try_new_with reserve limits_format"

definition tx_clear :: "transaction \<Rightarrow> transaction" where
  "tx_clear tx =
     tx\<lparr>tx_version := 0, tx_num_inputs := 0, tx_input_slots := map (\<lambda>_. input_empty) (tx_input_slots tx),
        tx_output_slots := map (\<lambda>_. output_empty) (tx_output_slots tx), tx_num_outputs := 0, tx_network := KUnknown,
        tx_locktime := 0, tx_subnetwork_id := SUBNETWORK_ID_NATIVE, tx_gas := 0, tx_payload := [],
        tx_stealth_tweak := map (\<lambda>_. 0) (tx_stealth_tweak tx), tx_has_stealth_tweak := False,
        tx_redeem_pool := map (\<lambda>_. 0) (tx_redeem_pool tx), tx_redeem_pool_used := 0\<rparr>"

definition prepare_for_parse :: "transaction \<Rightarrow> transaction" where
  "prepare_for_parse tx =
     tx\<lparr>tx_version := 0, tx_num_inputs := 0, tx_num_outputs := 0, tx_network := KUnknown,
        tx_locktime := 0, tx_subnetwork_id := SUBNETWORK_ID_NATIVE, tx_gas := 0, tx_payload := [],
        tx_stealth_tweak := map (\<lambda>_. 0) (tx_stealth_tweak tx), tx_has_stealth_tweak := False,
        tx_redeem_pool := map (\<lambda>_. 0) (tx_redeem_pool tx), tx_redeem_pool_used := 0\<rparr>"

definition ensure_input_slots :: "(nat \<Rightarrow> bool) \<Rightarrow> nat \<Rightarrow> transaction \<Rightarrow> (storage_error \<times> transaction) + transaction" where
  "ensure_input_slots reserve n tx =
     (if n > tl_max_inputs (tx_limits tx) then Err (StorageTooManyInputs, tx)
      else if n > length (tx_input_slots tx)
      then (if reserve (n - length (tx_input_slots tx))
            then Ok (tx\<lparr>tx_input_slots := tx_input_slots tx @ replicate (n - length (tx_input_slots tx)) input_empty\<rparr>)
            else Err (AllocationFailed, tx))
      else Ok tx)"

definition set_payload :: "(nat \<Rightarrow> bool) \<Rightarrow> bytes \<Rightarrow> transaction \<Rightarrow> (storage_error \<times> transaction) + transaction" where
  "set_payload reserve payload tx =
     (if length payload > tl_max_payload_bytes (tx_limits tx) then Err (PayloadTooLarge, tx)
      else if \<not> reserve (length payload) then Err (AllocationFailed, tx\<lparr>tx_payload := []\<rparr>)
      else Ok (tx\<lparr>tx_payload := payload\<rparr>))"

text \<open>\<open>None\<close> is the panic of a slice out of range.\<close>

definition redeem_bytes :: "transaction \<Rightarrow> nat \<Rightarrow> bytes option" where
  "redeem_bytes tx idx =
     Option.bind (get_at (tx_input_slots tx) idx) (\<lambda>inp.
     if ti_redeem_script_len inp = 0 then Some []
     else if ti_redeem_in_pool inp
     then let off = unat (ti_redeem_script_offset inp) in get_range (tx_redeem_pool tx) off (off + ti_redeem_script_len inp)
     else get_range (ti_redeem_script inp) 0 (ti_redeem_script_len inp))"

definition upd_input :: "nat \<Rightarrow> (transaction_input \<Rightarrow> transaction_input) \<Rightarrow> transaction \<Rightarrow> transaction" where
  "upd_input i f tx = tx\<lparr>tx_input_slots := (tx_input_slots tx)[i := f (tx_input_slots tx ! i)]\<rparr>"

definition upd_output :: "nat \<Rightarrow> (transaction_output \<Rightarrow> transaction_output) \<Rightarrow> transaction \<Rightarrow> transaction" where
  "upd_output i f tx = tx\<lparr>tx_output_slots := (tx_output_slots tx)[i := f (tx_output_slots tx ! i)]\<rparr>"

text \<open>\<open>dst[off..off + n].copy_from_slice(data)\<close>.\<close>

definition copy_at :: "nat \<Rightarrow> bytes \<Rightarrow> bytes \<Rightarrow> bytes" where
  "copy_at off data dst = take off dst @ data @ drop (off + length data) dst"

definition store_redeem :: "nat \<Rightarrow> bytes \<Rightarrow> transaction \<Rightarrow> (storage_error \<times> transaction) + transaction" where
  "store_redeem idx data tx =
     (let len = length data in
      if len = 0 then Ok (upd_input idx (\<lambda>inp. inp\<lparr>ti_redeem_script_len := 0, ti_redeem_in_pool := False\<rparr>) tx)
      else if len \<le> MAX_SCRIPT_SIZE
      then Ok (upd_input idx (\<lambda>inp. inp\<lparr>ti_redeem_script := copy_at 0 data (ti_redeem_script inp),
                 ti_redeem_script_len := len, ti_redeem_in_pool := False\<rparr>) tx)
      else if len > MAX_REDEEM_SIZE then Err (RedeemScriptTooLarge, tx)
      else let off = tx_redeem_pool_used tx in
        if off + len > REDEEM_POOL_SIZE then Err (RedeemPoolFull, tx)
        else Ok (upd_input idx (\<lambda>inp. inp\<lparr>ti_redeem_script_offset := word_of_nat off,
                   ti_redeem_script_len := len, ti_redeem_in_pool := True\<rparr>)
                  (tx\<lparr>tx_redeem_pool := copy_at off data (tx_redeem_pool tx), tx_redeem_pool_used := off + len\<rparr>)))"

definition tx_inputs :: "transaction \<Rightarrow> transaction_input list" where
  "tx_inputs tx = take (tx_num_inputs tx) (tx_input_slots tx)"

definition tx_outputs :: "transaction \<Rightarrow> transaction_output list" where
  "tx_outputs tx = take (tx_num_outputs tx) (tx_output_slots tx)"

definition is_native :: "transaction \<Rightarrow> bool" where
  "is_native tx \<longleftrightarrow> tx_subnetwork_id tx = SUBNETWORK_ID_NATIVE"

definition checked_amounts :: "transaction \<Rightarrow> amount_error + transaction_amounts" where
  "checked_amounts tx =
     rbind (try_fold (\<lambda>t inp. ok_or (checked_add t (tu_amount (ti_utxo_entry inp))) InputTotalOverflow) 0 (tx_inputs tx))
       (\<lambda>input_total.
     rbind (try_fold (\<lambda>t out. ok_or (checked_add t (to_value out)) OutputTotalOverflow) 0 (tx_outputs tx))
       (\<lambda>output_total.
     rbind (ok_or (checked_sub input_total output_total) AmountOutputsExceedInputs) (\<lambda>fee.
     Ok \<lparr>ta_input_total = input_total, ta_output_total = output_total, ta_fee = fee\<rparr>)))"

definition total_input_value :: "transaction \<Rightarrow> amount_error + u64" where
  "total_input_value tx = rbind (checked_amounts tx) (\<lambda>a. Ok (ta_input_total a))"

definition total_output_value :: "transaction \<Rightarrow> amount_error + u64" where
  "total_output_value tx = rbind (checked_amounts tx) (\<lambda>a. Ok (ta_output_total a))"

definition tx_fee :: "transaction \<Rightarrow> amount_error + u64" where
  "tx_fee tx = rbind (checked_amounts tx) (\<lambda>a. Ok (ta_fee a))"

section \<open>Shapes\<close>

definition spk_array :: "script_public_key \<Rightarrow> bool" where
  "spk_array spk \<longleftrightarrow> length (spk_script spk) = MAX_SCRIPT_SIZE"

definition input_arrays :: "transaction_input \<Rightarrow> bool" where
  "input_arrays inp \<longleftrightarrow>
     length (op_transaction_id (ti_previous_outpoint inp)) = 32 \<and> spk_array (tu_script_public_key (ti_utxo_entry inp))
     \<and> length (ti_sigs inp) = MAX_SIGS_PER_INPUT \<and> (\<forall>s\<in>set (ti_sigs inp). length (is_signature s) = 64)
     \<and> length (ti_redeem_script inp) = MAX_SCRIPT_SIZE
     \<and> length (ti_incoming_partial_sigs inp) = MAX_SIGS_PER_INPUT"

definition output_arrays :: "transaction_output \<Rightarrow> bool" where
  "output_arrays out \<longleftrightarrow> spk_array (to_script_public_key out) \<and> length (to_covenant_id out) = 32"

definition tx_arrays :: "transaction \<Rightarrow> bool" where
  "tx_arrays tx \<longleftrightarrow>
     (\<forall>inp\<in>set (tx_input_slots tx). input_arrays inp) \<and> (\<forall>out\<in>set (tx_output_slots tx). output_arrays out)
     \<and> length (tx_output_slots tx) = MAX_OUTPUTS \<and> length (tx_subnetwork_id tx) = 20
     \<and> length (tx_stealth_tweak tx) = 32 \<and> length (tx_redeem_pool tx) = REDEEM_POOL_SIZE"

definition tx_slices :: "transaction \<Rightarrow> bool" where
  "tx_slices tx \<longleftrightarrow> tx_num_inputs tx \<le> length (tx_input_slots tx) \<and> tx_num_outputs tx \<le> length (tx_output_slots tx)"

lemma input_arrays_empty [simp]: "input_arrays input_empty"
  by (simp add: input_arrays_def input_empty_def spk_array_def spk_new_def input_sig_empty_def)

lemma output_arrays_empty [simp]: "output_arrays output_empty"
  by (simp add: output_arrays_def output_empty_def spk_array_def spk_new_def)

lemma tx_arrays_clear: "tx_arrays tx \<Longrightarrow> tx_arrays (tx_clear tx)"
  by (auto simp: tx_arrays_def tx_clear_def SUBNETWORK_ID_NATIVE_def)

lemma tx_arrays_prepare: "tx_arrays tx \<Longrightarrow> tx_arrays (prepare_for_parse tx)"
  by (auto simp: tx_arrays_def prepare_for_parse_def SUBNETWORK_ID_NATIVE_def)

lemma try_new_with_arrays: "try_new_with reserve lims = Ok tx \<Longrightarrow> tx_arrays tx \<and> tx_slices tx"
  by (auto simp: try_new_with_def try_boxed_array_def tx_arrays_def tx_slices_def SUBNETWORK_ID_NATIVE_def Let_def
      split: if_splits)

section \<open>Amounts and script types\<close>

lemma try_fold_checked_add:
  "try_fold (\<lambda>t x. ok_or (checked_add t (f x)) e) (t :: u64) xs =
     (if unat t + sum_list (map (\<lambda>x. unat (f x)) xs) < 2 ^ 64
      then Ok (word_of_nat (unat t + sum_list (map (\<lambda>x. unat (f x)) xs))) else Err e)"
proof (induction xs arbitrary: t)
  case (Cons x xs)
  show ?case
  proof (cases "unat t + unat (f x) < 2 ^ 64")
    case True
    then have "unat (t + f x) = unat t + unat (f x)" by (simp add: unat_add_lem [THEN iffD1])
    then show ?thesis using True Cons.IH [of "t + f x"] by (simp add: checked_add_def ok_or_def add.assoc)
  qed (auto simp: checked_add_def ok_or_def)
next
  case Nil
  show ?case using unat_bound [of t] by simp
qed

text \<open>The amounts on unbounded numbers.\<close>

lemma checked_amounts_spec:
  "checked_amounts tx =
     (let ins = sum_list (map (\<lambda>i. unat (tu_amount (ti_utxo_entry i))) (tx_inputs tx));
          outs = sum_list (map (\<lambda>o'. unat (to_value o')) (tx_outputs tx)) in
      if ins \<ge> 2 ^ 64 then Err InputTotalOverflow
      else if outs \<ge> 2 ^ 64 then Err OutputTotalOverflow
      else if outs > ins then Err AmountOutputsExceedInputs
      else Ok \<lparr>ta_input_total = word_of_nat ins, ta_output_total = word_of_nat outs, ta_fee = word_of_nat (ins - outs)\<rparr>)"
  unfolding checked_amounts_def try_fold_checked_add
  by (simp add: checked_sub_def ok_or_def Let_def word_le_nat_alt unat_of_nat of_nat_diff not_le)

lemma is_p2pk_script_iff: "is_p2pk_script s (length s) \<longleftrightarrow> (\<exists>key. length key = 32 \<and> s = p2pk_script key)"
proof
  assume "is_p2pk_script s (length s)"
  then have s: "length s = 34" "s ! 0 = OP_DATA_32" "s ! 33 = OP_CHECKSIG"
    by (auto simp: is_p2pk_script_def get_at_def split: if_splits)
  have "s = p2pk_script (take 32 (drop 1 s))"
    using s by (intro nth_equalityI) (auto simp: p2pk_script_def nth_append nth_Cons' less_Suc_eq numeral_eq_Suc)
  then show "\<exists>key. length key = 32 \<and> s = p2pk_script key" using s(1) by (intro exI [of _ "take 32 (drop 1 s)"]) simp
qed (auto simp: is_p2pk_script_def get_at_def p2pk_script_def nth_append)

end
