(* ===== verification/Kspt_Validate.thy ===== *)
theory Kspt_Validate
  imports Tx_Model
begin

text \<open>
  Validation of the transaction model for the compact KSPT codec (\<open>transaction/interchange/kspt/error.rs\<close>,
  \<open>validation.rs\<close>, \<open>script.rs\<close>): the error enum and its conversion from wire errors, the checked access to redeem
  scripts, the shape, amount, script and signature-slot checks, and the analysis of the script that controls an input.

  \<open>[false; 256]\<close>, indexed by a byte, is a function on bytes. The lemmas characterise what passes each check.
\<close>

section \<open>Errors\<close>

datatype pskt_error =
  PeBufferTooShort | PeInvalidMagic | PeUnsupportedVersion | PeTooManyInputs | PeTooManyOutputs | PeScriptTooLong
  | PePayloadTooLong | PeInvalidSigHashType | PeOutputBufferTooSmall | PeNoInputs | PeNoOutputs | PeInvalidFlags
  | PeTrailingData | PeInvalidModel | PeTooManySignatures | PeInvalidSignatureState | PeInvalidTrailer
  | PeInvalidInputIndex | PeDerivationFailed | PeSigningFailed | PeReusableNonce | PeInputAmountOverflow
  | PeOutputAmountOverflow | PeOutputsExceedInputs | PeStorageExhausted | PeUnsupportedTransactionVersion
  | PeNonCanonicalEncoding

fun pskt_of_wire :: "wire_error \<Rightarrow> pskt_error" where
  "pskt_of_wire BufferTooShort = PeBufferTooShort"
| "pskt_of_wire CountOverflow = PeBufferTooShort"
| "pskt_of_wire OutputBufferTooSmall = PeOutputBufferTooSmall"
| "pskt_of_wire InvalidMagic = PeInvalidMagic"
| "pskt_of_wire UnsupportedVersion = PeUnsupportedVersion"
| "pskt_of_wire InvalidFlags = PeInvalidFlags"
| "pskt_of_wire ScriptTooLong = PeScriptTooLong"
| "pskt_of_wire RedeemTooLong = PeScriptTooLong"
| "pskt_of_wire TooManySignatures = PeTooManySignatures"
| "pskt_of_wire DuplicateSignaturePosition = PeInvalidSignatureState"
| "pskt_of_wire InvalidSigHashType = PeInvalidSigHashType"
| "pskt_of_wire InvalidNetwork = PeInvalidTrailer"
| "pskt_of_wire MissingNetwork = PeInvalidTrailer"
| "pskt_of_wire InvalidTrailer = PeInvalidTrailer"
| "pskt_of_wire TrailingData = PeTrailingData"
| "pskt_of_wire TooManyInputs = PeTooManyInputs"
| "pskt_of_wire TooManyOutputs = PeTooManyOutputs"
| "pskt_of_wire PayloadTooLong = PePayloadTooLong"
| "pskt_of_wire UnsupportedTransactionVersion = PeUnsupportedTransactionVersion"
| "pskt_of_wire NonCanonicalEncoding = PeNonCanonicalEncoding"

section \<open>Validation\<close>

fun map_amount_error :: "amount_error \<Rightarrow> pskt_error" where
  "map_amount_error InputTotalOverflow = PeInputAmountOverflow"
| "map_amount_error OutputTotalOverflow = PeOutputAmountOverflow"
| "map_amount_error AmountOutputsExceedInputs = PeOutputsExceedInputs"

definition transaction_amounts_of :: "transaction \<Rightarrow> pskt_error + transaction_amounts" where
  "transaction_amounts_of tx = map_err map_amount_error (checked_amounts tx)"

definition checked_pool_redeem_bytes :: "transaction \<Rightarrow> nat \<Rightarrow> nat \<Rightarrow> pskt_error + bytes" where
  "checked_pool_redeem_bytes tx start len =
     (let end' = start + len in
      if tx_redeem_pool_used tx > REDEEM_POOL_SIZE \<or> end' > tx_redeem_pool_used tx then Err PeInvalidModel
      else if end' > length (tx_redeem_pool tx) then Err PeInvalidModel
      else Ok (take len (drop start (tx_redeem_pool tx))))"

definition checked_inline_redeem_bytes :: "transaction_input \<Rightarrow> nat \<Rightarrow> pskt_error + bytes" where
  "checked_inline_redeem_bytes inp len = ok_or (get_range (ti_redeem_script inp) 0 len) PeInvalidModel"

definition checked_redeem_bytes :: "transaction \<Rightarrow> nat \<Rightarrow> pskt_error + bytes" where
  "checked_redeem_bytes tx input_index =
     (if input_index \<ge> tx_num_inputs tx \<or> input_index \<ge> length (tx_input_slots tx) then Err PeInvalidInputIndex
      else let inp = tx_input_slots tx ! input_index; len = ti_redeem_script_len inp in
        if len = 0 then Ok []
        else if len > MAX_REDEEM_SIZE then Err PeScriptTooLong
        else if ti_redeem_in_pool inp then checked_pool_redeem_bytes tx (unat (ti_redeem_script_offset inp)) len
        else checked_inline_redeem_bytes inp len)"

definition validate_transaction_shape :: "transaction \<Rightarrow> pskt_error + unit" where
  "validate_transaction_shape tx =
     (if tx_num_inputs tx = 0 then Err PeNoInputs
      else if tx_num_inputs tx > tl_max_inputs (tx_limits tx) then Err PeTooManyInputs
      else if tx_num_inputs tx > length (tx_input_slots tx) then Err PeInvalidModel
      else if tx_num_outputs tx = 0 then Err PeNoOutputs
      else if tx_num_outputs tx > MAX_OUTPUTS then Err PeTooManyOutputs
      else if length (tx_payload tx) > min (tl_max_payload_bytes (tx_limits tx)) MAX_PAYLOAD_SIZE then Err PePayloadTooLong
      else if tx_redeem_pool_used tx > REDEEM_POOL_SIZE then Err PeInvalidModel
      else Ok ())"

definition validate_inputs :: "transaction \<Rightarrow> pskt_error + unit" where
  "validate_inputs tx =
     try_fold (\<lambda>_ input_index.
       if spk_script_len (tu_script_public_key (ti_utxo_entry (tx_input_slots tx ! input_index))) > MAX_SCRIPT_SIZE
       then Err PeScriptTooLong
       else rbind (checked_redeem_bytes tx input_index) (\<lambda>_. Ok ())) () [0..<tx_num_inputs tx]"

definition validate_outputs :: "transaction \<Rightarrow> pskt_error + unit" where
  "validate_outputs tx =
     try_fold (\<lambda>_ out.
       if spk_script_len (to_script_public_key out) > MAX_SCRIPT_SIZE then Err PeScriptTooLong
       else if to_has_covenant out \<and> unat (to_covenant_auth_input out) \<ge> tx_num_inputs tx then Err PeInvalidInputIndex
       else Ok ()) () (tx_outputs tx)"

definition validate_base_transaction :: "transaction \<Rightarrow> pskt_error + unit" where
  "validate_base_transaction tx =
     rbind (validate_transaction_shape tx) (\<lambda>_.
     rbind (transaction_amounts_of tx) (\<lambda>_.
     rbind (validate_inputs tx) (\<lambda>_.
     validate_outputs tx)))"

definition validate_transaction_for_review :: "transaction \<Rightarrow> pskt_error + unit" where
  "validate_transaction_for_review tx = validate_base_transaction tx"

definition validate_present_signature :: "input_sig \<Rightarrow> (u8 \<Rightarrow> bool) \<Rightarrow> pskt_error + (u8 \<Rightarrow> bool)" where
  "validate_present_signature slot seen =
     (if \<not> is_present slot then Err PeInvalidSignatureState
      else if is_sighash_type slot \<noteq> sighash_to_byte SigAll then Err PeInvalidSigHashType
      else if seen (is_pubkey_pos slot) then Err PeInvalidSignatureState
      else Ok (seen(is_pubkey_pos slot := True)))"

definition validate_signature_slots :: "transaction_input \<Rightarrow> pskt_error + unit" where
  "validate_signature_slots inp =
     (let n = unat (ti_sig_count inp) in
      if n > MAX_SIGS_PER_INPUT then Err PeTooManySignatures
      else rbind (try_fold (\<lambda>seen slot_index.
             let slot = ti_sigs inp ! slot_index in
             if slot_index < n then validate_present_signature slot seen
             else if is_present slot then Err PeInvalidSignatureState
             else Ok seen) (\<lambda>_. False) [0..<MAX_SIGS_PER_INPUT]) (\<lambda>_.
           if n \<noteq> 0 \<and> ti_sighash_type inp \<noteq> is_sighash_type (ti_sigs inp ! 0) then Err PeInvalidSignatureState
           else Ok ()))"

definition validate_partial_signed :: "transaction \<Rightarrow> pskt_error + unit" where
  "validate_partial_signed tx =
     rbind (validate_base_transaction tx) (\<lambda>_.
     try_fold (\<lambda>_ input_index.
       let inp = tx_input_slots tx ! input_index in
       if ti_sighash_type inp \<noteq> 0 \<and> ti_sighash_type inp \<noteq> sighash_to_byte SigAll then Err PeInvalidSigHashType
       else rbind (validate_signature_slots inp) (\<lambda>_.
            rbind (checked_redeem_bytes tx input_index) (\<lambda>_. Ok ()))) () [0..<tx_num_inputs tx])"

section \<open>The script that controls an input\<close>

definition multisig_of :: "script_type \<Rightarrow> bytes \<Rightarrow> multisig_info option" where
  "multisig_of t script = (if t = Multisig then parse_multisig_script script (length script) else None)"

definition try_analyze_input_script :: "transaction \<Rightarrow> nat \<Rightarrow> (script_type \<times> multisig_info option) option" where
  "try_analyze_input_script tx input_index =
     (if input_index \<ge> tx_num_inputs tx then None
      else let inp = tx_input_slots tx ! input_index; script = tu_script_public_key (ti_utxo_entry inp) in
        Option.bind (get_range (spk_script script) 0 (spk_script_len script)) (\<lambda>bytes.
        let t = detect_script_type bytes (length bytes) in
        if t = P2SH \<and> ti_redeem_script_len inp \<noteq> 0
        then (case checked_redeem_bytes tx input_index of
                Err _ \<Rightarrow> None
              | Ok redeem \<Rightarrow> Some (P2SH, multisig_of (detect_script_type redeem (length redeem)) redeem))
        else Some (t, multisig_of t bytes)))"

definition analyze_input_script :: "transaction \<Rightarrow> nat \<Rightarrow> script_type \<times> multisig_info option" where
  "analyze_input_script tx input_index =
     (case try_analyze_input_script tx input_index of Some r \<Rightarrow> r | None \<Rightarrow> (UnknownScript, None))"

section \<open>What passes\<close>

lemma try_fold_unit: "try_fold (\<lambda>_ x. f x) () xs = Ok () \<longleftrightarrow> (\<forall>x\<in>set xs. f x = Ok ())"
  by (induction xs) (auto simp: rbind_Inr_iff)

lemma validate_shape_iff:
  "validate_transaction_shape tx = Ok () \<longleftrightarrow>
     0 < tx_num_inputs tx \<and> tx_num_inputs tx \<le> tl_max_inputs (tx_limits tx) \<and> tx_num_inputs tx \<le> length (tx_input_slots tx)
     \<and> 0 < tx_num_outputs tx \<and> tx_num_outputs tx \<le> MAX_OUTPUTS
     \<and> length (tx_payload tx) \<le> min (tl_max_payload_bytes (tx_limits tx)) MAX_PAYLOAD_SIZE
     \<and> tx_redeem_pool_used tx \<le> REDEEM_POOL_SIZE"
  by (auto simp: validate_transaction_shape_def)

lemma validate_inputs_iff:
  "validate_inputs tx = Ok () \<longleftrightarrow>
     (\<forall>i<tx_num_inputs tx.
        spk_script_len (tu_script_public_key (ti_utxo_entry (tx_input_slots tx ! i))) \<le> MAX_SCRIPT_SIZE
        \<and> (\<exists>redeem. checked_redeem_bytes tx i = Ok redeem))"
  unfolding validate_inputs_def try_fold_unit by (auto simp: rbind_Inr_iff not_less)

lemma validate_outputs_iff:
  "validate_outputs tx = Ok () \<longleftrightarrow>
     (\<forall>out\<in>set (tx_outputs tx). spk_script_len (to_script_public_key out) \<le> MAX_SCRIPT_SIZE
        \<and> (to_has_covenant out \<longrightarrow> unat (to_covenant_auth_input out) < tx_num_inputs tx))"
  unfolding validate_outputs_def try_fold_unit by auto

lemma validate_base_iff:
  "validate_base_transaction tx = Ok () \<longleftrightarrow>
     validate_transaction_shape tx = Ok () \<and> (\<exists>a. checked_amounts tx = Ok a) \<and> validate_inputs tx = Ok ()
     \<and> validate_outputs tx = Ok ()"
  by (auto simp: validate_base_transaction_def transaction_amounts_of_def rbind_Inr_iff)

text \<open>The signatures of an input: the first \<open>sig_count\<close> slots, of type \<open>All\<close>, at different key positions.\<close>

definition slots_ok :: "transaction_input \<Rightarrow> bool" where
  "slots_ok inp \<longleftrightarrow>
     unat (ti_sig_count inp) \<le> MAX_SIGS_PER_INPUT
     \<and> (\<forall>k<MAX_SIGS_PER_INPUT. is_present (ti_sigs inp ! k) \<longleftrightarrow> k < unat (ti_sig_count inp))
     \<and> (\<forall>k<unat (ti_sig_count inp). is_sighash_type (ti_sigs inp ! k) = 1)
     \<and> distinct (map (\<lambda>k. is_pubkey_pos (ti_sigs inp ! k)) [0..<unat (ti_sig_count inp)])
     \<and> (0 < unat (ti_sig_count inp) \<longrightarrow> ti_sighash_type inp = 1)"

definition slot_step :: "transaction_input \<Rightarrow> (u8 \<Rightarrow> bool) \<Rightarrow> nat \<Rightarrow> pskt_error + (u8 \<Rightarrow> bool)" where
  "slot_step inp seen k =
     (let slot = ti_sigs inp ! k in
      if k < unat (ti_sig_count inp) then validate_present_signature slot seen
      else if is_present slot then Err PeInvalidSignatureState else Ok seen)"

lemma slot_fold:
  "try_fold (slot_step inp) seen ks = Ok seen' \<longleftrightarrow>
     (\<forall>k\<in>set ks. is_present (ti_sigs inp ! k) \<longleftrightarrow> k < unat (ti_sig_count inp))
     \<and> (\<forall>k\<in>set ks. k < unat (ti_sig_count inp) \<longrightarrow> is_sighash_type (ti_sigs inp ! k) = 1)
     \<and> distinct (map (\<lambda>k. is_pubkey_pos (ti_sigs inp ! k)) (filter (\<lambda>k. k < unat (ti_sig_count inp)) ks))
     \<and> (\<forall>k\<in>set ks. k < unat (ti_sig_count inp) \<longrightarrow> \<not> seen (is_pubkey_pos (ti_sigs inp ! k)))
     \<and> seen' = (\<lambda>p. seen p \<or> p \<in> (\<lambda>k. is_pubkey_pos (ti_sigs inp ! k)) ` {k \<in> set ks. k < unat (ti_sig_count inp)})"
proof (induction ks arbitrary: seen)
  case (Cons k ks)
  show ?case
  proof (cases "k < unat (ti_sig_count inp)")
    case True
    let ?p = "is_pubkey_pos (ti_sigs inp ! k)"
    have "try_fold (slot_step inp) seen (k # ks) = Ok seen' \<longleftrightarrow>
        is_present (ti_sigs inp ! k) \<and> is_sighash_type (ti_sigs inp ! k) = 1 \<and> \<not> seen ?p
        \<and> try_fold (slot_step inp) (seen(?p := True)) ks = Ok seen'"
      using True by (simp add: slot_step_def validate_present_signature_def Let_def)
    then show ?thesis unfolding Cons.IH using True by (auto simp: fun_eq_iff image_iff)
  next
    case False
    then show ?thesis using Cons.IH [of seen] by (auto simp: slot_step_def image_iff)
  qed
qed auto

lemma validate_slots_iff: "validate_signature_slots inp = Ok () \<longleftrightarrow> slots_ok inp"
proof (cases "unat (ti_sig_count inp) \<le> MAX_SIGS_PER_INPUT")
  case True
  let ?n = "unat (ti_sig_count inp)"
  have flt: "filter (\<lambda>k. k < ?n) [0..<MAX_SIGS_PER_INPUT] = [0..<?n]"
    using True upt_add_eq_append [of 0 ?n "MAX_SIGS_PER_INPUT - ?n"] by (simp add: filter_empty_conv)
  have "validate_signature_slots inp = Ok () \<longleftrightarrow>
      (\<exists>seen. try_fold (slot_step inp) (\<lambda>_. False) [0..<MAX_SIGS_PER_INPUT] = Ok seen)
      \<and> (0 < ?n \<longrightarrow> ti_sighash_type inp = is_sighash_type (ti_sigs inp ! 0))"
    using True unfolding validate_signature_slots_def slot_step_def Let_def by (auto simp: rbind_Inr_iff)
  then show ?thesis unfolding slot_fold flt slots_ok_def using True by auto
qed (simp add: validate_signature_slots_def slots_ok_def)

lemma validate_partial_iff:
  "validate_partial_signed tx = Ok () \<longleftrightarrow>
     validate_base_transaction tx = Ok ()
     \<and> (\<forall>i<tx_num_inputs tx. ti_sighash_type (tx_input_slots tx ! i) \<in> {0, 1} \<and> slots_ok (tx_input_slots tx ! i))"
proof -
  have redeem: "\<exists>redeem. checked_redeem_bytes tx i = Ok redeem"
    if "validate_base_transaction tx = Ok ()" "i < tx_num_inputs tx" for i
    using that by (auto simp: validate_base_iff validate_inputs_iff)
  show ?thesis
    unfolding validate_partial_signed_def rbind_Inr_iff try_fold_unit
    using redeem by (auto simp: Let_def rbind_Inr_iff validate_slots_iff split: if_splits)
qed

end
