(* ===== verification/Sighash.thy ===== *)
theory Sighash
  imports Tx_Model
begin

text \<open>
  Signature hashes (\<open>transaction/sighash\<close>): the view of a transaction that is hashed, the component hashes and the final
  digest, and the derivation of per-input auxiliary randomness. Keyed BLAKE2b-256, SHA-256 and Schnorr signing are
  third-party code and are the parameters \<open>keyed\<close>, \<open>sha256\<close> and \<open>schnorr\<close>; an incremental hasher is the hash of the
  concatenation of its updates.

  The theorem states what a signature commits to: \<open>committed\<close> collects exactly the fields a signature hash type covers, and
  two signature hashes are equal exactly when these views are, as long as the hash function has no collision among the
  byte strings that the two computations hash (\<open>queries\<close>) and sends none of them to the all-zero digest, which the format
  uses as a placeholder.
\<close>

section \<open>Definitions\<close>

record sighash_input =
  si_transaction_id :: bytes
  si_index :: u32
  si_sequence :: u64
  si_sig_op_count :: u8
  si_script_version :: u16
  si_script :: bytes
  si_amount :: u64

record sighash_output =
  so_value :: u64
  so_script_version :: u16
  so_script :: bytes
  so_covenant :: "(u16 \<times> bytes) option"

record sighash_source =
  ss_version :: u16
  ss_input_count :: nat
  ss_input :: "nat \<Rightarrow> sighash_input"
  ss_output_count :: nat
  ss_output :: "nat \<Rightarrow> sighash_output"
  ss_locktime :: u64
  ss_subnetwork_id :: bytes
  ss_gas :: u64
  ss_payload :: bytes

definition tx_sighash_input :: "transaction_input \<Rightarrow> sighash_input" where
  "tx_sighash_input inp =
     \<lparr>si_transaction_id = op_transaction_id (ti_previous_outpoint inp), si_index = op_index (ti_previous_outpoint inp),
      si_sequence = ti_sequence inp, si_sig_op_count = ti_sig_op_count inp,
      si_script_version = spk_version (tu_script_public_key (ti_utxo_entry inp)),
      si_script = script_bytes (tu_script_public_key (ti_utxo_entry inp)), si_amount = tu_amount (ti_utxo_entry inp)\<rparr>"

definition tx_sighash_output :: "transaction_output \<Rightarrow> sighash_output" where
  "tx_sighash_output out =
     \<lparr>so_value = to_value out, so_script_version = spk_version (to_script_public_key out),
      so_script = script_bytes (to_script_public_key out),
      so_covenant = (if to_has_covenant out then Some (to_covenant_auth_input out, to_covenant_id out) else None)\<rparr>"

definition sighash_source_of :: "transaction \<Rightarrow> sighash_source" where
  "sighash_source_of tx =
     \<lparr>ss_version = tx_version tx, ss_input_count = tx_num_inputs tx,
      ss_input = (\<lambda>i. tx_sighash_input (tx_inputs tx ! i)), ss_output_count = tx_num_outputs tx,
      ss_output = (\<lambda>i. tx_sighash_output (tx_outputs tx ! i)), ss_locktime = tx_locktime tx,
      ss_subnetwork_id = tx_subnetwork_id tx, ss_gas = tx_gas tx, ss_payload = tx_payload tx\<rparr>"

definition signing_hasher :: "(bytes \<Rightarrow> bytes \<Rightarrow> bytes) \<Rightarrow> bytes \<Rightarrow> bytes" where
  "signing_hasher keyed = keyed (map of_char ''TransactionSigningHash'')"

definition zero_hash :: bytes where "zero_hash = replicate 32 0"

definition previous_outputs_hash :: "(bytes \<Rightarrow> bytes \<Rightarrow> bytes) \<Rightarrow> sighash_source \<Rightarrow> sighash_type \<Rightarrow> bytes" where
  "previous_outputs_hash keyed tx t =
     (if is_anyone_can_pay t then zero_hash
      else signing_hasher keyed (concat (map (\<lambda>i. si_transaction_id (ss_input tx i) @ u32_to_le (si_index (ss_input tx i)))
             [0..<ss_input_count tx])))"

definition sequences_hash :: "(bytes \<Rightarrow> bytes \<Rightarrow> bytes) \<Rightarrow> sighash_source \<Rightarrow> sighash_type \<Rightarrow> bytes" where
  "sequences_hash keyed tx t =
     (if is_anyone_can_pay t \<or> is_sighash_single t \<or> is_sighash_none t then zero_hash
      else signing_hasher keyed (concat (map (\<lambda>i. u64_to_le (si_sequence (ss_input tx i))) [0..<ss_input_count tx])))"

definition sig_op_counts_hash :: "(bytes \<Rightarrow> bytes \<Rightarrow> bytes) \<Rightarrow> sighash_source \<Rightarrow> sighash_type \<Rightarrow> bytes" where
  "sig_op_counts_hash keyed tx t =
     (if is_anyone_can_pay t then zero_hash
      else signing_hasher keyed (map (\<lambda>i. si_sig_op_count (ss_input tx i)) [0..<ss_input_count tx]))"

definition hash_output :: "sighash_output \<Rightarrow> u16 \<Rightarrow> bytes" where
  "hash_output out version =
     u64_to_le (so_value out) @ u16_to_le (so_script_version out) @ u64_to_le (word_of_nat (length (so_script out)))
     @ so_script out
     @ (if version \<ge> 1
        then (case so_covenant out of
                Some (authorizing_input, covenant_id) \<Rightarrow> [1] @ u16_to_le authorizing_input @ covenant_id
              | None \<Rightarrow> [0])
        else [])"

definition outputs_hash :: "(bytes \<Rightarrow> bytes \<Rightarrow> bytes) \<Rightarrow> sighash_source \<Rightarrow> sighash_type \<Rightarrow> nat \<Rightarrow> bytes" where
  "outputs_hash keyed tx t input_index =
     (if is_sighash_none t then zero_hash
      else if is_sighash_single t
      then (if input_index \<ge> ss_output_count tx then zero_hash
            else signing_hasher keyed (hash_output (ss_output tx input_index) (ss_version tx)))
      else signing_hasher keyed (concat (map (\<lambda>i. hash_output (ss_output tx i) (ss_version tx)) [0..<ss_output_count tx])))"

definition payload_hash :: "(bytes \<Rightarrow> bytes \<Rightarrow> bytes) \<Rightarrow> sighash_source \<Rightarrow> bytes" where
  "payload_hash keyed tx =
     (if ss_subnetwork_id tx = SUBNETWORK_ID_NATIVE \<and> ss_payload tx = [] then zero_hash
      else signing_hasher keyed (u64_to_le (word_of_nat (length (ss_payload tx))) @ ss_payload tx))"

text \<open>The updates of the final hasher, in order.\<close>

definition sighash_preimage :: "(bytes \<Rightarrow> bytes \<Rightarrow> bytes) \<Rightarrow> sighash_source \<Rightarrow> nat \<Rightarrow> sighash_type \<Rightarrow> bytes" where
  "sighash_preimage keyed tx input_index t =
     (let inp = ss_input tx input_index in
      u16_to_le (ss_version tx)
      @ previous_outputs_hash keyed tx t
      @ sequences_hash keyed tx t
      @ (if ss_version tx = 0 then sig_op_counts_hash keyed tx t else [])
      @ si_transaction_id inp
      @ u32_to_le (si_index inp)
      @ u16_to_le (si_script_version inp)
      @ u64_to_le (word_of_nat (length (si_script inp)))
      @ si_script inp
      @ u64_to_le (si_amount inp)
      @ u64_to_le (si_sequence inp)
      @ (if ss_version tx = 0 then [si_sig_op_count inp] else [])
      @ outputs_hash keyed tx t input_index
      @ u64_to_le (ss_locktime tx)
      @ ss_subnetwork_id tx
      @ u64_to_le (ss_gas tx)
      @ payload_hash keyed tx
      @ [sighash_to_byte t])"

definition calculate_sighash :: "(bytes \<Rightarrow> bytes \<Rightarrow> bytes) \<Rightarrow> sighash_source \<Rightarrow> nat \<Rightarrow> sighash_type \<Rightarrow> bytes" where
  "calculate_sighash keyed tx input_index t = signing_hasher keyed (sighash_preimage keyed tx input_index t)"

definition AUX_DOMAIN :: bytes where "AUX_DOMAIN = map of_char ''KaspaPortal/BIP340/input-aux/v1''"

definition input_aux_rand :: "(bytes \<Rightarrow> bytes) \<Rightarrow> bytes \<Rightarrow> bytes \<Rightarrow> nat \<Rightarrow> bytes" where
  "input_aux_rand sha256 signing_entropy sighash input_index =
     sha256 (AUX_DOMAIN @ signing_entropy @ sighash @ u64_to_le (word_of_nat input_index))"

definition sign_input ::
  "(bytes \<Rightarrow> bytes \<Rightarrow> bytes) \<Rightarrow> (bytes \<Rightarrow> bytes \<Rightarrow> 'e + bytes) \<Rightarrow> transaction \<Rightarrow> nat \<Rightarrow> bytes \<Rightarrow> sighash_type \<Rightarrow> 'e + bytes" where
  "sign_input keyed schnorr_sign tx input_index private_key t =
     schnorr_sign private_key (calculate_sighash keyed (sighash_source_of tx) input_index t)"

definition sign_input_with_entropy ::
  "(bytes \<Rightarrow> bytes \<Rightarrow> bytes) \<Rightarrow> (bytes \<Rightarrow> bytes) \<Rightarrow> (bytes \<Rightarrow> bytes \<Rightarrow> bytes \<Rightarrow> 'e + bytes) \<Rightarrow> transaction \<Rightarrow> nat \<Rightarrow> bytes
     \<Rightarrow> sighash_type \<Rightarrow> bytes \<Rightarrow> 'e + bytes" where
  "sign_input_with_entropy keyed sha256 schnorr_sign_with_aux_rand tx input_index private_key t signing_entropy =
     (let sighash = calculate_sighash keyed (sighash_source_of tx) input_index t in
      schnorr_sign_with_aux_rand private_key sighash (input_aux_rand sha256 signing_entropy sighash input_index))"

section \<open>What a signature commits to\<close>

text \<open>A component that is hashed (\<open>Some\<close> its bytes) or replaced by zeros (\<open>None\<close>).\<close>

definition digest_or_zero :: "(bytes \<Rightarrow> bytes) \<Rightarrow> bytes option \<Rightarrow> bytes" where
  "digest_or_zero H p = (case p of None \<Rightarrow> zero_hash | Some x \<Rightarrow> H x)"

definition outpoints_part :: "sighash_source \<Rightarrow> sighash_type \<Rightarrow> (bytes \<times> u32) list option" where
  "outpoints_part tx t = (if is_anyone_can_pay t then None
     else Some (map (\<lambda>i. (si_transaction_id (ss_input tx i), si_index (ss_input tx i))) [0..<ss_input_count tx]))"

definition sequences_part :: "sighash_source \<Rightarrow> sighash_type \<Rightarrow> u64 list option" where
  "sequences_part tx t = (if is_anyone_can_pay t \<or> is_sighash_single t \<or> is_sighash_none t then None
     else Some (map (\<lambda>i. si_sequence (ss_input tx i)) [0..<ss_input_count tx]))"

definition sig_ops_part :: "sighash_source \<Rightarrow> sighash_type \<Rightarrow> u8 list option" where
  "sig_ops_part tx t = (if ss_version tx \<noteq> 0 \<or> is_anyone_can_pay t then None
     else Some (map (\<lambda>i. si_sig_op_count (ss_input tx i)) [0..<ss_input_count tx]))"

text \<open>A version 0 transaction does not commit to covenants.\<close>

definition seen_output :: "u16 \<Rightarrow> sighash_output \<Rightarrow> sighash_output" where
  "seen_output version out = (if version \<ge> 1 then out else out\<lparr>so_covenant := None\<rparr>)"

definition outputs_part :: "sighash_source \<Rightarrow> sighash_type \<Rightarrow> nat \<Rightarrow> sighash_output list option" where
  "outputs_part tx t i =
     (if is_sighash_none t then None
      else if is_sighash_single t
      then (if i \<ge> ss_output_count tx then None else Some [seen_output (ss_version tx) (ss_output tx i)])
      else Some (map (\<lambda>i. seen_output (ss_version tx) (ss_output tx i)) [0..<ss_output_count tx]))"

text \<open>Only version 0 commits to the signature operation count of the input.\<close>

definition seen_input :: "u16 \<Rightarrow> sighash_input \<Rightarrow> sighash_input" where
  "seen_input version inp = (if version = 0 then inp else inp\<lparr>si_sig_op_count := 0\<rparr>)"

record commitment =
  cm_type :: sighash_type
  cm_version :: u16
  cm_outpoints :: "(bytes \<times> u32) list option"
  cm_sequences :: "u64 list option"
  cm_sig_ops :: "u8 list option"
  cm_input :: sighash_input
  cm_outputs :: "sighash_output list option"
  cm_locktime :: u64
  cm_subnetwork_id :: bytes
  cm_gas :: u64
  cm_payload :: bytes

definition committed :: "sighash_source \<Rightarrow> nat \<Rightarrow> sighash_type \<Rightarrow> commitment" where
  "committed tx i t =
     \<lparr>cm_type = t, cm_version = ss_version tx, cm_outpoints = outpoints_part tx t, cm_sequences = sequences_part tx t,
      cm_sig_ops = sig_ops_part tx t, cm_input = seen_input (ss_version tx) (ss_input tx i),
      cm_outputs = outputs_part tx t i, cm_locktime = ss_locktime tx, cm_subnetwork_id = ss_subnetwork_id tx,
      cm_gas = ss_gas tx, cm_payload = ss_payload tx\<rparr>"

text \<open>Lengths that Rust's types give, and lengths that fit a \<open>u64\<close>.\<close>

definition sighash_output_ok :: "sighash_output \<Rightarrow> bool" where
  "sighash_output_ok out \<longleftrightarrow> length (so_script out) < 2 ^ 64
     \<and> (case so_covenant out of None \<Rightarrow> True | Some (_, covenant_id) \<Rightarrow> length covenant_id = 32)"

definition sighash_source_ok :: "sighash_source \<Rightarrow> nat \<Rightarrow> bool" where
  "sighash_source_ok tx i \<longleftrightarrow>
     i < ss_input_count tx \<and> list_all (\<lambda>k. length (si_transaction_id (ss_input tx k)) = 32) [0..<ss_input_count tx]
     \<and> length (si_script (ss_input tx i)) < 2 ^ 64
     \<and> list_all (\<lambda>k. sighash_output_ok (ss_output tx k)) [0..<ss_output_count tx]
     \<and> length (ss_subnetwork_id tx) = 20 \<and> length (ss_payload tx) < 2 ^ 64"

section \<open>The parts as bytes\<close>

definition outpoints_bytes :: "(bytes \<times> u32) list \<Rightarrow> bytes" where
  "outpoints_bytes xs = concat (map (\<lambda>(txid, k). txid @ u32_to_le k) xs)"

definition sequences_bytes :: "u64 list \<Rightarrow> bytes" where
  "sequences_bytes xs = concat (map u64_to_le xs)"

definition outputs_bytes :: "u16 \<Rightarrow> sighash_output list \<Rightarrow> bytes" where
  "outputs_bytes version xs = concat (map (\<lambda>out. hash_output out version) xs)"

definition payload_part :: "sighash_source \<Rightarrow> bytes option" where
  "payload_part tx = (if ss_subnetwork_id tx = SUBNETWORK_ID_NATIVE \<and> ss_payload tx = [] then None
     else Some (u64_to_le (word_of_nat (length (ss_payload tx))) @ ss_payload tx))"

lemma hash_output_seen: "hash_output (seen_output version out) version = hash_output out version"
  by (simp add: hash_output_def seen_output_def)

lemma component_hashes:
  "previous_outputs_hash keyed tx t = digest_or_zero (signing_hasher keyed) (map_option outpoints_bytes (outpoints_part tx t))"
  "sequences_hash keyed tx t = digest_or_zero (signing_hasher keyed) (map_option sequences_bytes (sequences_part tx t))"
  "outputs_hash keyed tx t i
     = digest_or_zero (signing_hasher keyed) (map_option (outputs_bytes (ss_version tx)) (outputs_part tx t i))"
  "payload_hash keyed tx = digest_or_zero (signing_hasher keyed) (payload_part tx)"
  "ss_version tx = 0 \<Longrightarrow> sig_op_counts_hash keyed tx t = digest_or_zero (signing_hasher keyed) (sig_ops_part tx t)"
  by (simp_all add: previous_outputs_hash_def sequences_hash_def outputs_hash_def payload_hash_def sig_op_counts_hash_def
      digest_or_zero_def outpoints_part_def sequences_part_def outputs_part_def payload_part_def sig_ops_part_def
      outpoints_bytes_def sequences_bytes_def outputs_bytes_def hash_output_seen comp_def)

text \<open>Everything a computation of the signature hash hands to the hash function.\<close>

definition opt_list :: "'a option \<Rightarrow> 'a list" where
  "opt_list p = (case p of None \<Rightarrow> [] | Some x \<Rightarrow> [x])"

definition queries :: "(bytes \<Rightarrow> bytes \<Rightarrow> bytes) \<Rightarrow> sighash_source \<Rightarrow> nat \<Rightarrow> sighash_type \<Rightarrow> bytes list" where
  "queries keyed tx i t =
     sighash_preimage keyed tx i t
     # opt_list (map_option outpoints_bytes (outpoints_part tx t))
     @ opt_list (map_option sequences_bytes (sequences_part tx t))
     @ opt_list (sig_ops_part tx t)
     @ opt_list (map_option (outputs_bytes (ss_version tx)) (outputs_part tx t i))
     @ opt_list (payload_part tx)"

lemma set_opt_list [simp]: "set (opt_list p) = set_option p"
  by (cases p) (simp_all add: opt_list_def)

lemma digest_or_zero_inject:
  assumes "inj_on H Q" "zero_hash \<notin> H ` Q" "set_option p \<subseteq> Q" "set_option p' \<subseteq> Q"
  shows "digest_or_zero H p = digest_or_zero H p' \<longleftrightarrow> p = p'"
proof -
  have zero: "zero_hash \<noteq> H x" "H x \<noteq> zero_hash" if "x \<in> Q" for x using that assms(2) by force+
  show ?thesis using assms(1,3,4) zero by (cases p; cases p') (auto simp: digest_or_zero_def inj_on_eq_iff)
qed

lemma length_digest_or_zero: "(\<And>x. length (H x) = 32) \<Longrightarrow> length (digest_or_zero H p) = 32"
  by (cases p) (simp_all add: digest_or_zero_def zero_hash_def)

text \<open>Concatenations of self-delimiting pieces are read in one way only.\<close>

locale prefix_code =
  fixes enc :: "'a \<Rightarrow> bytes" and ok :: "'a \<Rightarrow> bool"
  assumes enc_nonempty: "enc a \<noteq> []"
    and enc_split: "ok a \<Longrightarrow> ok b \<Longrightarrow> enc a @ r = enc b @ s \<Longrightarrow> a = b \<and> r = s"
begin

lemma concat_inject:
  "list_all ok xs \<Longrightarrow> list_all ok ys \<Longrightarrow> concat (map enc xs) = concat (map enc ys) \<longleftrightarrow> xs = ys"
proof (induction xs arbitrary: ys)
  case Nil
  then show ?case by (cases ys) (auto simp: enc_nonempty)
next
  case (Cons x xs)
  show ?case
  proof (cases ys)
    case Nil
    then show ?thesis by (simp add: enc_nonempty)
  next
    case (Cons y zs)
    then show ?thesis
      using Cons.prems Cons.IH [of zs] enc_split [of x y "concat (map enc xs)" "concat (map enc zs)"] by auto
  qed
qed

end

lemmas le_inject [simp] = u16_codec.enc_inject u32_codec.enc_inject u64_codec.enc_inject

lemma le_append_inject [simp]:
  "u16_to_le a @ r = u16_to_le b @ s \<longleftrightarrow> a = b \<and> r = s"
  "u32_to_le c @ r = u32_to_le d @ s \<longleftrightarrow> c = d \<and> r = s"
  "u64_to_le e @ r = u64_to_le f @ s \<longleftrightarrow> e = f \<and> r = s"
  by (simp_all add: append_eq_append_conv)

lemma var_bytes_inject:
  assumes "length x < 2 ^ 64" "length y < 2 ^ 64"
  shows "u64_to_le (word_of_nat (length x)) @ x @ r = u64_to_le (word_of_nat (length y)) @ y @ s \<longleftrightarrow> x = y \<and> r = s"
proof -
  have "length x = length y" if "(word_of_nat (length x) :: u64) = word_of_nat (length y)"
    using arg_cong [OF that, of unat] assms by simp
  then show ?thesis by auto
qed

interpretation outpoint_code: prefix_code "\<lambda>(txid, k). txid @ u32_to_le k" "\<lambda>(txid, k). length txid = 32"
proof unfold_locales
  fix a :: "bytes \<times> u32"
  have "length (case a of (txid, k) \<Rightarrow> txid @ u32_to_le k) \<noteq> 0" by (cases a) simp
  then show "(case a of (txid, k) \<Rightarrow> txid @ u32_to_le k) \<noteq> []" by auto
qed (auto simp: append_eq_append_conv)

interpretation sequence_code: prefix_code u64_to_le "\<lambda>_. True"
proof unfold_locales
  fix a :: u64
  have "length (u64_to_le a) \<noteq> 0" by simp
  then show "u64_to_le a \<noteq> []" by (metis list.size(3))
qed auto

interpretation output_code: prefix_code "\<lambda>out. hash_output out version"
  "\<lambda>out. sighash_output_ok out \<and> (version = 0 \<longrightarrow> so_covenant out = None)" for version
proof unfold_locales
  fix a
  have "length (hash_output a version) \<noteq> 0" by (simp add: hash_output_def)
  then show "hash_output a version \<noteq> []" by auto
next
  fix a b r s
  assume ok: "sighash_output_ok a \<and> (version = 0 \<longrightarrow> so_covenant a = None)"
    "sighash_output_ok b \<and> (version = 0 \<longrightarrow> so_covenant b = None)"
    and eq: "hash_output a version @ r = hash_output b version @ s"
  let ?c = "\<lambda>out. if version \<ge> 1 then (case so_covenant out of
                Some (authorizing_input, covenant_id) \<Rightarrow> [1] @ u16_to_le authorizing_input @ covenant_id
              | None \<Rightarrow> [0]) else []"
  let ?w = "\<lambda>out. u64_to_le (word_of_nat (length (so_script out)))"
  have "so_value a = so_value b \<and> so_script_version a = so_script_version b
      \<and> ?w a = ?w b \<and> so_script a @ ?c a @ r = so_script b @ ?c b @ s"
    using eq by (simp only: hash_output_def append_assoc le_append_inject le_inject)
  then have 1: "so_value a = so_value b" "so_script_version a = so_script_version b"
    "?w a @ so_script a @ ?c a @ r = ?w b @ so_script b @ ?c b @ s" by (simp_all only: refl)
  have "length (so_script a) < 2 ^ 64" "length (so_script b) < 2 ^ 64" using ok by (simp_all add: sighash_output_ok_def)
  then have 2: "so_script a = so_script b" "?c a @ r = ?c b @ s" using iffD1 [OF var_bytes_inject 1(3)] by blast+
  have v: "\<not> 1 \<le> version \<longleftrightarrow> version = 0" by (simp add: word_le_nat_alt word_unat_eq_iff) arith
  have "so_covenant a = so_covenant b \<and> r = s"
    using 2(2) ok v by (auto simp: sighash_output_ok_def append_eq_append_conv split: option.splits if_splits)
  then show "a = b \<and> r = s" using 1(1,2) 2(1) by (cases a; cases b) simp
qed

section \<open>Equal hashes are equal commitments\<close>

lemma sighash_to_byte_inject: "sighash_to_byte t = sighash_to_byte t' \<longleftrightarrow> t = t'"
  by (cases t; cases t') simp_all

lemma parts_inject:
  assumes "sighash_source_ok tx i" "sighash_source_ok tx' i'" "ss_version tx = ss_version tx'"
  shows "map_option outpoints_bytes (outpoints_part tx t) = map_option outpoints_bytes (outpoints_part tx' t)
           \<longleftrightarrow> outpoints_part tx t = outpoints_part tx' t"
    and "map_option sequences_bytes (sequences_part tx t) = map_option sequences_bytes (sequences_part tx' t)
           \<longleftrightarrow> sequences_part tx t = sequences_part tx' t"
    and "map_option (outputs_bytes (ss_version tx)) (outputs_part tx t i)
           = map_option (outputs_bytes (ss_version tx')) (outputs_part tx' t i') \<longleftrightarrow> outputs_part tx t i = outputs_part tx' t i'"
    and "ss_subnetwork_id tx = ss_subnetwork_id tx' \<Longrightarrow> payload_part tx = payload_part tx' \<longleftrightarrow> ss_payload tx = ss_payload tx'"
proof -
  have seen: "sighash_output_ok (seen_output v out) \<and> (v = 0 \<longrightarrow> so_covenant (seen_output v out) = None)"
    if "sighash_output_ok out" for v out
    using that by (auto simp: seen_output_def sighash_output_ok_def split: option.splits)
  show "map_option outpoints_bytes (outpoints_part tx t) = map_option outpoints_bytes (outpoints_part tx' t)
           \<longleftrightarrow> outpoints_part tx t = outpoints_part tx' t"
    using assms(1,2) outpoint_code.concat_inject
      [of "map (\<lambda>i. (si_transaction_id (ss_input tx i), si_index (ss_input tx i))) [0..<ss_input_count tx]"
          "map (\<lambda>i. (si_transaction_id (ss_input tx' i), si_index (ss_input tx' i))) [0..<ss_input_count tx']"]
    by (simp add: outpoints_part_def outpoints_bytes_def sighash_source_ok_def list_all_iff)
  show "map_option sequences_bytes (sequences_part tx t) = map_option sequences_bytes (sequences_part tx' t)
           \<longleftrightarrow> sequences_part tx t = sequences_part tx' t"
    using sequence_code.concat_inject [of "map (\<lambda>i. si_sequence (ss_input tx i)) [0..<ss_input_count tx]"
        "map (\<lambda>i. si_sequence (ss_input tx' i)) [0..<ss_input_count tx']"]
    by (simp add: sequences_part_def sequences_bytes_def list_all_iff)
  have outs: "list_all (\<lambda>out. sighash_output_ok out \<and> (ss_version x = 0 \<longrightarrow> so_covenant out = None)) outs"
    if "outputs_part x t k = Some outs" "sighash_source_ok x k" for x k outs
    using that seen by (auto simp: outputs_part_def sighash_source_ok_def list_all_iff split: if_splits)
  show "map_option (outputs_bytes (ss_version tx)) (outputs_part tx t i)
           = map_option (outputs_bytes (ss_version tx')) (outputs_part tx' t i') \<longleftrightarrow> outputs_part tx t i = outputs_part tx' t i'"
  proof (cases "outputs_part tx t i"; cases "outputs_part tx' t i'")
    fix a b assume "outputs_part tx t i = Some a" "outputs_part tx' t i' = Some b"
    with outs [OF _ assms(1)] outs [OF _ assms(2)] assms(3) show ?thesis
      using output_code.concat_inject [of "ss_version tx'" a b] by (simp add: outputs_bytes_def)
  qed simp_all
  show "payload_part tx = payload_part tx' \<longleftrightarrow> ss_payload tx = ss_payload tx'"
    if "ss_subnetwork_id tx = ss_subnetwork_id tx'"
    using that assms(1,2) var_bytes_inject [of "ss_payload tx" "ss_payload tx'" "[]" "[]"]
    by (auto simp: payload_part_def sighash_source_ok_def)
qed

lemma component_lengths:
  assumes "\<forall>x. length (signing_hasher keyed x) = 32"
  shows "length (previous_outputs_hash keyed tx t) = 32" "length (sequences_hash keyed tx t) = 32"
    "length (sig_op_counts_hash keyed tx t) = 32" "length (outputs_hash keyed tx t i) = 32"
    "length (payload_hash keyed tx) = 32"
  using assms by (simp_all add: previous_outputs_hash_def sequences_hash_def sig_op_counts_hash_def outputs_hash_def
      payload_hash_def zero_hash_def)

lemma preimage_fields:
  assumes "\<forall>x. length (signing_hasher keyed x) = 32" "sighash_source_ok tx i" "sighash_source_ok tx' i'"
    and eq: "sighash_preimage keyed tx i t = sighash_preimage keyed tx' i' t'"
  shows "t = t' \<and> ss_version tx = ss_version tx' \<and> previous_outputs_hash keyed tx t = previous_outputs_hash keyed tx' t'
    \<and> sequences_hash keyed tx t = sequences_hash keyed tx' t'
    \<and> (ss_version tx = 0 \<longrightarrow> sig_op_counts_hash keyed tx t = sig_op_counts_hash keyed tx' t')
    \<and> seen_input (ss_version tx) (ss_input tx i) = seen_input (ss_version tx') (ss_input tx' i')
    \<and> outputs_hash keyed tx t i = outputs_hash keyed tx' t' i' \<and> ss_locktime tx = ss_locktime tx'
    \<and> ss_subnetwork_id tx = ss_subnetwork_id tx' \<and> ss_gas tx = ss_gas tx' \<and> payload_hash keyed tx = payload_hash keyed tx'"
proof -
  note len = component_lengths [OF assms(1)]
  let ?a = "ss_input tx i" and ?b = "ss_input tx' i'"
  have txid: "length (si_transaction_id ?a) = 32" "length (si_transaction_id ?b) = 32"
    and scr: "length (si_script ?a) < 2 ^ 64" "length (si_script ?b) < 2 ^ 64"
    and sub: "length (ss_subnetwork_id tx) = 20" "length (ss_subnetwork_id tx') = 20"
    using assms(2,3) by (auto simp: sighash_source_ok_def list_all_iff)
  have v: "ss_version tx = ss_version tx'" using eq by (simp add: sighash_preimage_def Let_def)
  have w: "length (si_script ?a) = length (si_script ?b)"
    if "(word_of_nat (length (si_script ?a)) :: u64) = word_of_nat (length (si_script ?b))"
    using arg_cong [OF that, of unat] scr by simp
  show ?thesis
  proof (cases "ss_version tx = 0")
    case True
    with eq v w len txid sub show ?thesis
      by (auto simp: sighash_preimage_def Let_def append_eq_append_conv sighash_to_byte_inject seen_input_def
          intro: sighash_input.equality)
  next
    case False
    with eq v w len txid sub show ?thesis
      by (auto simp: sighash_preimage_def Let_def append_eq_append_conv sighash_to_byte_inject seen_input_def
          intro!: sighash_input.equality)
  qed
qed

lemma preimage_of_committed:
  assumes "committed tx i t = committed tx' i' t'"
  shows "sighash_preimage keyed tx i t = sighash_preimage keyed tx' i' t'"
proof -
  have c: "t = t'" "ss_version tx = ss_version tx'" "outpoints_part tx t = outpoints_part tx' t'"
    "sequences_part tx t = sequences_part tx' t'" "sig_ops_part tx t = sig_ops_part tx' t'"
    "seen_input (ss_version tx) (ss_input tx i) = seen_input (ss_version tx') (ss_input tx' i')"
    "outputs_part tx t i = outputs_part tx' t' i'" "ss_locktime tx = ss_locktime tx'"
    "ss_subnetwork_id tx = ss_subnetwork_id tx'" "ss_gas tx = ss_gas tx'" "ss_payload tx = ss_payload tx'"
    using assms by (auto simp: committed_def)
  let ?a = "ss_input tx i" and ?b = "ss_input tx' i'"
  have inp: "si_transaction_id ?a = si_transaction_id ?b" "si_index ?a = si_index ?b" "si_sequence ?a = si_sequence ?b"
    "si_script_version ?a = si_script_version ?b" "si_script ?a = si_script ?b" "si_amount ?a = si_amount ?b"
    "ss_version tx' = 0 \<Longrightarrow> si_sig_op_count ?a = si_sig_op_count ?b"
    using c(2,6) by (cases ?a; cases ?b; simp add: seen_input_def split: if_splits)+
  have "payload_part tx = payload_part tx'" using c(9,11) by (simp add: payload_part_def)
  then show ?thesis
    using c inp component_hashes(5) [of tx keyed t] component_hashes(5) [of tx' keyed t']
    by (simp add: sighash_preimage_def Let_def component_hashes(1-4))
qed

lemma queries_parts:
  "set_option (map_option outpoints_bytes (outpoints_part tx t)) \<subseteq> set (queries keyed tx i t)"
  "set_option (map_option sequences_bytes (sequences_part tx t)) \<subseteq> set (queries keyed tx i t)"
  "set_option (sig_ops_part tx t) \<subseteq> set (queries keyed tx i t)"
  "set_option (map_option (outputs_bytes (ss_version tx)) (outputs_part tx t i)) \<subseteq> set (queries keyed tx i t)"
  "set_option (payload_part tx) \<subseteq> set (queries keyed tx i t)"
  "sighash_preimage keyed tx i t \<in> set (queries keyed tx i t)"
  unfolding queries_def by auto

lemma committed_of_preimage:
  assumes H: "\<forall>x. length (signing_hasher keyed x) = 32" "inj_on (signing_hasher keyed) Q" "zero_hash \<notin> signing_hasher keyed ` Q"
    and Q: "set (queries keyed tx i t) \<subseteq> Q" "set (queries keyed tx' i' t') \<subseteq> Q"
    and ok: "sighash_source_ok tx i" "sighash_source_ok tx' i'"
    and eq: "sighash_preimage keyed tx i t = sighash_preimage keyed tx' i' t'"
  shows "committed tx i t = committed tx' i' t'"
proof -
  from preimage_fields [OF H(1) ok eq] have t: "t' = t" and v: "ss_version tx = ss_version tx'" by simp_all
  note f = preimage_fields [OF H(1) ok eq, unfolded t]
  note inject = digest_or_zero_inject [OF H(2,3) order_trans [OF _ Q(1)] order_trans [OF _ Q(2) [unfolded t]]]
  have "outpoints_part tx t = outpoints_part tx' t"
    using f unfolding component_hashes(1) inject [OF queries_parts(1) queries_parts(1)] parts_inject(1) [OF ok v] by blast
  moreover have "sequences_part tx t = sequences_part tx' t"
    using f unfolding component_hashes(2) inject [OF queries_parts(2) queries_parts(2)] parts_inject(2) [OF ok v] by blast
  moreover have "sig_ops_part tx t = sig_ops_part tx' t"
  proof (cases "ss_version tx = 0")
    case True
    then have "digest_or_zero (signing_hasher keyed) (sig_ops_part tx t) = digest_or_zero (signing_hasher keyed) (sig_ops_part tx' t)"
      using f v component_hashes(5) [of tx keyed t] component_hashes(5) [of tx' keyed t] by simp
    then show ?thesis unfolding inject [OF queries_parts(3) queries_parts(3)] .
  qed (simp add: sig_ops_part_def v [symmetric])
  moreover have "outputs_part tx t i = outputs_part tx' t i'"
    using f unfolding component_hashes(3) inject [OF queries_parts(4) queries_parts(4)] parts_inject(3) [OF ok v] by blast
  moreover have "ss_payload tx = ss_payload tx'"
    using f parts_inject(4) [OF ok v] unfolding component_hashes(4) inject [OF queries_parts(5) queries_parts(5)] by blast
  moreover have "seen_input (ss_version tx) (ss_input tx i) = seen_input (ss_version tx') (ss_input tx' i')"
    "ss_locktime tx = ss_locktime tx'" "ss_subnetwork_id tx = ss_subnetwork_id tx'" "ss_gas tx = ss_gas tx'" using f by blast+
  ultimately show ?thesis by (simp only: committed_def t v)
qed

text \<open>(C4) Signature hashes commit to exactly the fields their type covers: for well-formed transactions, and a keyed hash
  with 32-byte digests that has no collision among the strings the two computations hash and maps none of them to the zero
  placeholder, two signature hashes are equal if and only if the committed views are. The view has the type, the version,
  the spent output and sequence of the signed input, lock time, subnetwork, gas and payload always; all outpoints unless
  anyone can pay; all sequences only for plain \<open>All\<close>; signature operation counts only in version 0; covenants only from
  version 1; and no output, the output of the same index or all outputs for \<open>None\<close>, \<open>Single\<close> and \<open>All\<close>.\<close>

theorem sighash_commits:
  assumes "\<forall>x. length (signing_hasher keyed x) = 32" "sighash_source_ok tx i" "sighash_source_ok tx' i'"
    and "inj_on (signing_hasher keyed) (set (queries keyed tx i t @ queries keyed tx' i' t'))"
    and "zero_hash \<notin> signing_hasher keyed ` set (queries keyed tx i t @ queries keyed tx' i' t')"
  shows "calculate_sighash keyed tx i t = calculate_sighash keyed tx' i' t' \<longleftrightarrow> committed tx i t = committed tx' i' t'"
proof
  assume "calculate_sighash keyed tx i t = calculate_sighash keyed tx' i' t'"
  then have "sighash_preimage keyed tx i t = sighash_preimage keyed tx' i' t'"
    using assms(4) queries_parts(6) [of keyed tx i t] queries_parts(6) [of keyed tx' i' t']
    by (simp add: calculate_sighash_def inj_on_eq_iff)
  then show "committed tx i t = committed tx' i' t'"
    by (rule committed_of_preimage [OF assms(1,4,5) _ _ assms(2,3), rotated 2]) simp_all
next
  assume "committed tx i t = committed tx' i' t'"
  then show "calculate_sighash keyed tx i t = calculate_sighash keyed tx' i' t'"
    unfolding calculate_sighash_def by (rule arg_cong [OF preimage_of_committed])
qed

definition sample_keyed :: "bytes \<Rightarrow> bytes \<Rightarrow> bytes" where
  "sample_keyed key x =
     1 # replicate 29 0 @ [word_of_nat (length x), sum_list x]"

definition sample_spend :: "u64 \<Rightarrow> sighash_source" where
  "sample_spend amount =
     \<lparr>ss_version = 0, ss_input_count = 1,
      ss_input = (\<lambda>_. \<lparr>si_transaction_id = replicate 32 7, si_index = 1, si_sequence = 0, si_sig_op_count = 1,
                     si_script_version = 0, si_script = [0x20, 0xac], si_amount = 50\<rparr>),
      ss_output_count = 1,
      ss_output = (\<lambda>_. \<lparr>so_value = amount, so_script_version = 0, so_script = [0x51], so_covenant = None\<rparr>),
      ss_locktime = 0, ss_subnetwork_id = replicate 20 0, ss_gas = 0, ss_payload = []\<rparr>"

lemma sample_keyed_length: "length (signing_hasher sample_keyed x) = 32"
  by (simp add: signing_hasher_def sample_keyed_def)

lemma sample_keyed_zero: "signing_hasher sample_keyed x \<noteq> zero_hash"
  by (simp add: signing_hasher_def sample_keyed_def zero_hash_def numeral_eq_Suc)

lemma sample_spend_ok: "sighash_source_ok (sample_spend amount) 0"
  by (simp add: sighash_source_ok_def sample_spend_def sighash_output_ok_def)

lemma sample_queries_distinct:
  "distinct (map (signing_hasher sample_keyed)
     (remdups (queries sample_keyed (sample_spend 10) 0 SigSingle @ queries sample_keyed (sample_spend 11) 0 SigSingle)))"
  by code_simp

text \<open>Changing an output changes the hash of type \<open>Single\<close>.\<close>

theorem sighash_commits_witness:
  "calculate_sighash sample_keyed (sample_spend 10) 0 SigSingle \<noteq> calculate_sighash sample_keyed (sample_spend 11) 0 SigSingle"
proof -
  have "inj_on (signing_hasher sample_keyed)
      (set (queries sample_keyed (sample_spend 10) 0 SigSingle @ queries sample_keyed (sample_spend 11) 0 SigSingle))"
    using sample_queries_distinct unfolding distinct_map set_remdups by blast
  moreover have "committed (sample_spend 10) 0 SigSingle \<noteq> committed (sample_spend 11) 0 SigSingle"
    by (simp add: committed_def sample_spend_def outputs_part_def seen_output_def is_sighash_none_def is_sighash_single_def)
  ultimately show ?thesis
    using sighash_commits [OF _ sample_spend_ok sample_spend_ok, of sample_keyed 10 SigSingle 11 SigSingle]
      sample_keyed_length sample_keyed_zero by (simp add: image_iff) metis
qed

end
