(* ===== verification/Branch.thy ===== *)
theory Branch
  imports Script
begin

text \<open>
  The covenant branch resolver (\<open>contract/covenant/branch.rs\<close>): one pass over a redeem script that binds every key
  consumed by a signature check to the truth values of the conditionals around it. Fixed arrays are lists of their size.

  The specification is the execution of the script with its conditionals decided by an assignment of truth values to
  selectors, one per \<open>OP_IF\<close> or \<open>OP_NOTIF\<close> in the order of the script: \<open>executed_keys\<close> walks the tokens with a stack of
  decisions and returns the keys of the signature checks that execute. \<open>resolve_exact\<close> shows that the resolved bindings
  that match the assignment are exactly these keys, in order, for every assignment.
\<close>

unbundle bit_operations_syntax

section \<open>Definitions\<close>

definition MAX_COVENANT_BRANCH_DEPTH :: nat where "MAX_COVENANT_BRANCH_DEPTH = 16"
definition MAX_COVENANT_BRANCH_KEYS :: nat where "MAX_COVENANT_BRANCH_KEYS = 16"

datatype branch_resolve_error =
  MalformedScript | BranchDepthExceeded | TooManyKeys | AmbiguousKey | KeyNotFound | PositionOutOfRange

record branch_key =
  bk_key :: bytes
  bk_decision_mask :: u16
  bk_if_mask :: u16

record branch_resolution =
  br_keys :: "branch_key list"
  br_len :: nat
  br_selector_mask :: u16

definition matches_selectors :: "branch_key \<Rightarrow> u16 \<Rightarrow> u16 \<Rightarrow> bool" where
  "matches_selectors b supplied_mask supplied_true_mask \<longleftrightarrow>
     supplied_mask AND bk_decision_mask b = bk_decision_mask b
     \<and> (supplied_true_mask XOR bk_if_mask b) AND bk_decision_mask b = 0"

definition branch_key_empty :: branch_key where
  "branch_key_empty = \<lparr>bk_key = replicate 32 0, bk_decision_mask = 0, bk_if_mask = 0\<rparr>"

definition key_at :: "branch_resolution \<Rightarrow> u8 \<Rightarrow> branch_resolve_error + branch_key" where
  "key_at r pos =
     (case get_at (br_keys r) (unat pos) of
        Some b \<Rightarrow> if unat pos < br_len r then Ok b else Err PositionOutOfRange
      | None \<Rightarrow> Err PositionOutOfRange)"

definition truth_reaching_key :: "branch_resolution \<Rightarrow> u8 \<Rightarrow> branch_resolve_error + u16" where
  "truth_reaching_key r pos = rbind (key_at r pos) (\<lambda>b. Ok (bk_if_mask b AND bk_decision_mask b))"

definition unique_position_for_key :: "branch_resolution \<Rightarrow> bytes \<Rightarrow> branch_resolve_error + u8" where
  "unique_position_for_key r key =
     rbind (try_fold (\<lambda>found pos.
         if bk_key (br_keys r ! pos) \<noteq> key then Ok found
         else if found \<noteq> None then Err AmbiguousKey
         else if pos < 256 then Ok (Some (word_of_nat pos)) else Err TooManyKeys) None [0..<br_len r])
       (\<lambda>found. ok_or found KeyNotFound)"

definition position_for_key_with_selectors ::
  "branch_resolution \<Rightarrow> bytes \<Rightarrow> u16 \<Rightarrow> u16 \<Rightarrow> branch_resolve_error + u8" where
  "position_for_key_with_selectors r key supplied_mask supplied_true_mask =
     rbind (try_fold (\<lambda>found pos.
         let binding = br_keys r ! pos in
         if bk_key binding \<noteq> key \<or> \<not> matches_selectors binding supplied_mask supplied_true_mask then Ok found
         else if found \<noteq> None then Err AmbiguousKey
         else if pos < 256 then Ok (Some (word_of_nat pos)) else Err TooManyKeys) None [0..<br_len r])
       (\<lambda>found. ok_or found KeyNotFound)"

definition br_push :: "branch_key \<Rightarrow> branch_resolution \<Rightarrow> branch_resolve_error + branch_resolution" where
  "br_push item r =
     (if item \<in> set (take (br_len r) (br_keys r)) then Err AmbiguousKey
      else if br_len r \<ge> MAX_COVENANT_BRANCH_KEYS then Err TooManyKeys
      else Ok (r\<lparr>br_keys := (br_keys r)[br_len r := item], br_len := br_len r + 1\<rparr>))"

record branch_frame =
  bf_bit :: u16
  bf_in_else :: bool

record branch_parser =
  bp_out :: branch_resolution
  bp_frames :: "branch_frame list"
  bp_depth :: nat
  bp_next_branch :: nat
  bp_decision_mask :: u16
  bp_if_mask :: u16

definition branch_parser_new :: branch_parser where
  "branch_parser_new =
     \<lparr>bp_out = \<lparr>br_keys = replicate MAX_COVENANT_BRANCH_KEYS branch_key_empty, br_len = 0, br_selector_mask = 0\<rparr>,
      bp_frames = replicate MAX_COVENANT_BRANCH_DEPTH \<lparr>bf_bit = 0, bf_in_else = False\<rparr>,
      bp_depth = 0, bp_next_branch = 0, bp_decision_mask = 0, bp_if_mask = 0\<rparr>"

definition enter_branch :: "u8 \<Rightarrow> branch_parser \<Rightarrow> branch_resolve_error + branch_parser" where
  "enter_branch opcode p =
     (if bp_next_branch p \<ge> MAX_COVENANT_BRANCH_DEPTH then Err BranchDepthExceeded
      else let b = push_bit (bp_next_branch p) 1 in
        Ok (p\<lparr>bp_next_branch := bp_next_branch p + 1,
              bp_out := (bp_out p)\<lparr>br_selector_mask := br_selector_mask (bp_out p) OR b\<rparr>,
              bp_frames := (bp_frames p)[bp_depth p := \<lparr>bf_bit = b, bf_in_else = False\<rparr>],
              bp_depth := bp_depth p + 1,
              bp_decision_mask := bp_decision_mask p OR b,
              bp_if_mask := if opcode = 0x63 then bp_if_mask p OR b else bp_if_mask p\<rparr>))"

definition enter_else :: "branch_parser \<Rightarrow> branch_resolve_error + branch_parser" where
  "enter_else p =
     (if bp_depth p = 0 then Err MalformedScript
      else let top = bp_depth p - 1; frame = bp_frames p ! top in
        if bf_in_else frame then Err MalformedScript
        else Ok (p\<lparr>bp_frames := (bp_frames p)[top := frame\<lparr>bf_in_else := True\<rparr>],
                   bp_if_mask := bp_if_mask p XOR bf_bit frame\<rparr>))"

definition leave_branch :: "branch_parser \<Rightarrow> branch_resolve_error + branch_parser" where
  "leave_branch p =
     (if bp_depth p = 0 then Err MalformedScript
      else let frame = bp_frames p ! (bp_depth p - 1) in
        Ok (p\<lparr>bp_depth := bp_depth p - 1,
              bp_decision_mask := bp_decision_mask p AND NOT (bf_bit frame),
              bp_if_mask := bp_if_mask p AND NOT (bf_bit frame)\<rparr>))"

definition inspect_key_push :: "bytes \<Rightarrow> branch_parser \<Rightarrow> branch_resolve_error + branch_parser" where
  "inspect_key_push rest p =
     rbind (ok_or (get_range rest 1 33) MalformedScript) (\<lambda>key.
     if get_at rest 33 = Some 0xac \<or> get_at rest 33 = Some 0xad
     then rbind (br_push \<lparr>bk_key = key, bk_decision_mask = bp_decision_mask p, bk_if_mask = bp_if_mask p\<rparr> (bp_out p))
            (\<lambda>out. Ok (p\<lparr>bp_out := out\<rparr>))
     else Ok p)"

definition branch_step :: "bytes \<Rightarrow> u8 \<Rightarrow> branch_parser \<Rightarrow> branch_resolve_error + nat \<times> branch_parser" where
  "branch_step rest opcode p =
     (if opcode = 0x63 \<or> opcode = 0x64 then rbind (enter_branch opcode p) (\<lambda>p. Ok (1, p))
      else if opcode = 0x67 then rbind (enter_else p) (\<lambda>p. Ok (1, p))
      else if opcode = 0x68 then rbind (leave_branch p) (\<lambda>p. Ok (1, p))
      else if opcode = 0x20 then rbind (inspect_key_push rest p) (\<lambda>p. Ok (33, p))
      else if 0x01 \<le> opcode \<and> opcode \<le> 0x4e
      then rbind (ok_or (read_element rest 0) MalformedScript) (\<lambda>(_, e).
           if e = 0 then Err MalformedScript else Ok (e, p))
      else Ok (1, p))"

text \<open>The \<open>while let\<close> loop; a width is a \<open>NonZeroUsize\<close>.\<close>

function branch_loop :: "branch_parser \<Rightarrow> bytes \<Rightarrow> branch_resolve_error + branch_parser" where
  "branch_loop p rest =
     (case rest of
        [] \<Rightarrow> Ok p
      | opcode # _ \<Rightarrow>
          (case branch_step rest opcode p of
             Err e \<Rightarrow> Err e
           | Ok (width, p) \<Rightarrow>
               if width = 0 \<or> width > length rest then Err MalformedScript else branch_loop p (drop width rest)))"
  by pat_completeness auto
termination by (relation "measure (\<lambda>(p, rest). length rest)") (auto split: list.splits)

declare branch_loop.simps [simp del]

definition branch_finish :: "branch_parser \<Rightarrow> branch_resolve_error + branch_resolution" where
  "branch_finish p = (if bp_depth p \<noteq> 0 then Err MalformedScript else Ok (bp_out p))"

definition resolve_covenant_branches :: "bytes \<Rightarrow> branch_resolve_error + branch_resolution" where
  "resolve_covenant_branches script = rbind (branch_loop branch_parser_new script) branch_finish"

section \<open>The specification\<close>

datatype token = TokIf | TokNotIf | TokElse | TokEndIf | TokKeyCheck bytes | TokOther

text \<open>The token at the start of a script and its width; a 32-byte push counts as a key when a signature check consumes it.\<close>

definition next_token :: "bytes \<Rightarrow> (token \<times> nat) option" where
  "next_token rest =
     (case rest of
        [] \<Rightarrow> None
      | opcode # _ \<Rightarrow>
          if opcode = 0x63 then Some (TokIf, 1) else if opcode = 0x64 then Some (TokNotIf, 1)
          else if opcode = 0x67 then Some (TokElse, 1) else if opcode = 0x68 then Some (TokEndIf, 1)
          else map_option (\<lambda>(e, width).
                 (if el_opcode e = 0x20 \<and> (get_at rest 33 = Some 0xac \<or> get_at rest 33 = Some 0xad)
                  then TokKeyCheck (el_data e) else TokOther, width)) (read_element rest 0))"

text \<open>
  Running a script with selector \<open>n\<close> deciding its \<open>n\<close>th conditional. The stack has one decision per open conditional; a
  signature check executes when all of them are true.
\<close>

function executed_keys :: "(nat \<Rightarrow> bool) \<Rightarrow> nat \<Rightarrow> bool list \<Rightarrow> bytes \<Rightarrow> bytes list option" where
  "executed_keys sel n st rest =
     (if rest = [] then (if st = [] then Some [] else None)
      else case next_token rest of
        None \<Rightarrow> None
      | Some (t, width) \<Rightarrow>
          if width = 0 \<or> width > length rest then None
          else case t of
              TokIf \<Rightarrow> executed_keys sel (n + 1) (sel n # st) (drop width rest)
            | TokNotIf \<Rightarrow> executed_keys sel (n + 1) ((\<not> sel n) # st) (drop width rest)
            | TokElse \<Rightarrow> (case st of [] \<Rightarrow> None | d # ds \<Rightarrow> executed_keys sel n ((\<not> d) # ds) (drop width rest))
            | TokEndIf \<Rightarrow> (case st of [] \<Rightarrow> None | d # ds \<Rightarrow> executed_keys sel n ds (drop width rest))
            | TokKeyCheck key \<Rightarrow>
                map_option (\<lambda>ks. if list_all id st then key # ks else ks) (executed_keys sel n st (drop width rest))
            | TokOther \<Rightarrow> executed_keys sel n st (drop width rest))"
  by pat_completeness auto
termination by (relation "measure (\<lambda>(sel, n, st, rest). length rest)") auto

declare executed_keys.simps [simp del]

section \<open>The resolver follows the execution\<close>

text \<open>
  The open conditionals of a parser state, innermost first: the ordinal of each and the truth value its selector has in
  the arm being read.
\<close>

definition branch_inv :: "branch_parser \<Rightarrow> (nat \<times> bool) list \<Rightarrow> bool" where
  "branch_inv p fs \<longleftrightarrow>
     length (bp_frames p) = 16 \<and> length (br_keys (bp_out p)) = 16 \<and> br_len (bp_out p) \<le> 16
     \<and> bp_depth p = length fs \<and> length fs \<le> bp_next_branch p \<and> bp_next_branch p \<le> 16
     \<and> distinct (map fst fs) \<and> (\<forall>(k, r)\<in>set fs. k < bp_next_branch p)
     \<and> (\<forall>j<length fs. bf_bit (bp_frames p ! j) = 2 ^ fst (rev fs ! j))
     \<and> (\<forall>k<16. bit (bp_decision_mask p) k \<longleftrightarrow> k \<in> fst ` set fs)
     \<and> (\<forall>k<16. bit (bp_if_mask p) k \<longleftrightarrow> (k, True) \<in> set fs)
     \<and> (\<forall>k<16. bit (br_selector_mask (bp_out p)) k \<longleftrightarrow> k < bp_next_branch p)"

definition decisions :: "u16 \<Rightarrow> (nat \<times> bool) list \<Rightarrow> bool list" where
  "decisions T fs = map (\<lambda>(k, r). bit T k = r) fs"

definition active :: "u16 \<Rightarrow> branch_key \<Rightarrow> bool" where
  "active T b \<longleftrightarrow> (T XOR bk_if_mask b) AND bk_decision_mask b = 0"

lemma u16_eq_iff: "(a :: u16) = b \<longleftrightarrow> (\<forall>k<16. bit a k = bit b k)"
  by (auto simp: bit_eq_iff dest: bit_imp_le_length [where ?'a = 16])

lemma bit_single: "bit (2 ^ n :: u16) k \<longleftrightarrow> k = n \<and> n < 16"
  by (auto simp: bit_exp_iff)

lemma branch_inv_new: "branch_inv branch_parser_new []"
  by (simp add: branch_inv_def branch_parser_new_def MAX_COVENANT_BRANCH_DEPTH_def MAX_COVENANT_BRANCH_KEYS_def)

lemma branch_inv_enter:
  assumes "branch_inv p fs" "enter_branch opcode p = Ok p'"
  shows "branch_inv p' ((bp_next_branch p, opcode = 0x63) # fs)" "bp_next_branch p' = bp_next_branch p + 1"
    "br_keys (bp_out p') = br_keys (bp_out p)" "br_len (bp_out p') = br_len (bp_out p)"
proof -
  let ?b = "2 ^ bp_next_branch p :: u16"
  have n: "bp_next_branch p < 16" and p': "p' = p\<lparr>bp_next_branch := bp_next_branch p + 1,
              bp_out := (bp_out p)\<lparr>br_selector_mask := br_selector_mask (bp_out p) OR ?b\<rparr>,
              bp_frames := (bp_frames p)[bp_depth p := \<lparr>bf_bit = ?b, bf_in_else = False\<rparr>],
              bp_depth := bp_depth p + 1, bp_decision_mask := bp_decision_mask p OR ?b,
              bp_if_mask := if opcode = 0x63 then bp_if_mask p OR ?b else bp_if_mask p\<rparr>"
    using assms(2) by (auto simp: enter_branch_def Let_def MAX_COVENANT_BRANCH_DEPTH_def split: if_splits)
  have fresh: "bp_next_branch p \<notin> fst ` set fs" "(bp_next_branch p, r) \<notin> set fs" for r
    using assms(1) by (auto simp: branch_inv_def)
  have frames: "\<forall>j<Suc (length fs). bf_bit (bp_frames p' ! j) = 2 ^ fst (rev ((bp_next_branch p, opcode = 0x63) # fs) ! j)"
    using assms(1) n by (auto simp: p' branch_inv_def nth_append nth_list_update less_Suc_eq)
  have masks: "\<forall>k<16. bit (bp_decision_mask p') k \<longleftrightarrow> k \<in> fst ` set ((bp_next_branch p, opcode = 0x63) # fs)"
    "\<forall>k<16. bit (bp_if_mask p') k \<longleftrightarrow> (k, True) \<in> set ((bp_next_branch p, opcode = 0x63) # fs)"
    "\<forall>k<16. bit (br_selector_mask (bp_out p')) k \<longleftrightarrow> k < bp_next_branch p'"
    using assms(1) fresh by (auto simp: p' branch_inv_def bit_or_iff bit_single)
  show "branch_inv p' ((bp_next_branch p, opcode = 0x63) # fs)"
    unfolding branch_inv_def
  proof (intro conjI)
    show "\<forall>(k, r)\<in>set ((bp_next_branch p, opcode = 0x63) # fs). k < bp_next_branch p'"
      using assms(1) by (auto simp: branch_inv_def p')
  qed (use assms(1) n fresh frames masks in \<open>auto simp: p' branch_inv_def\<close>)
  show "bp_next_branch p' = bp_next_branch p + 1" "br_keys (bp_out p') = br_keys (bp_out p)"
    "br_len (bp_out p') = br_len (bp_out p)" by (simp_all add: p')
qed

lemma branch_inv_top:
  assumes "branch_inv p fs" "bp_depth p \<noteq> 0"
  obtains k r gs where "fs = (k, r) # gs" "bf_bit (bp_frames p ! (bp_depth p - 1)) = 2 ^ k" "k < 16"
proof -
  obtain k r gs where fs: "fs = (k, r) # gs" using assms by (cases fs) (auto simp: branch_inv_def)
  then have "bf_bit (bp_frames p ! length gs) = 2 ^ k" "k < 16" "bp_depth p = Suc (length gs)"
    using assms(1) by (auto simp: branch_inv_def nth_append split: prod.splits dest!: spec [of _ "length gs"])
  then show thesis using that fs by simp
qed

lemma branch_inv_else:
  assumes "branch_inv p fs" "enter_else p = Ok p'"
  obtains k r gs where "fs = (k, r) # gs" "branch_inv p' ((k, \<not> r) # gs)" "bp_next_branch p' = bp_next_branch p"
    "bp_out p' = bp_out p"
proof -
  have d: "bp_depth p \<noteq> 0" using assms(2) by (auto simp: enter_else_def split: if_splits)
  obtain k r gs where fs: "fs = (k, r) # gs" and b: "bf_bit (bp_frames p ! (bp_depth p - 1)) = 2 ^ k" and k: "k < 16"
    using branch_inv_top [OF assms(1) d] .
  have p': "p' = p\<lparr>bp_frames := (bp_frames p)[bp_depth p - 1 := (bp_frames p ! (bp_depth p - 1))\<lparr>bf_in_else := True\<rparr>],
      bp_if_mask := bp_if_mask p XOR 2 ^ k\<rparr>"
    using assms(2) d b by (auto simp: enter_else_def Let_def split: if_splits)
  have "k \<notin> fst ` set gs" using assms(1) by (auto simp: branch_inv_def fs)
  then have fresh: "k \<notin> fst ` set gs" "(k, x) \<notin> set gs" for x by force+
  have frames: "\<forall>j<length fs. bf_bit (bp_frames p' ! j) = 2 ^ fst (rev ((k, \<not> r) # gs) ! j)"
    using assms(1) by (auto simp: p' fs branch_inv_def nth_list_update nth_append)
  have "branch_inv p' ((k, \<not> r) # gs)"
    using assms(1) fresh frames k unfolding branch_inv_def
    by (auto simp: p' fs bit_xor_iff bit_single image_iff simp del: rev.simps)
  then show thesis using that fs by (simp add: p')
qed

lemma branch_inv_leave:
  assumes "branch_inv p fs" "leave_branch p = Ok p'"
  obtains k r gs where "fs = (k, r) # gs" "branch_inv p' gs" "bp_next_branch p' = bp_next_branch p" "bp_out p' = bp_out p"
proof -
  have d: "bp_depth p \<noteq> 0" using assms(2) by (auto simp: leave_branch_def split: if_splits)
  obtain k r gs where fs: "fs = (k, r) # gs" and b: "bf_bit (bp_frames p ! (bp_depth p - 1)) = 2 ^ k" and k: "k < 16"
    using branch_inv_top [OF assms(1) d] .
  have p': "p' = p\<lparr>bp_depth := bp_depth p - 1, bp_decision_mask := bp_decision_mask p AND NOT (2 ^ k),
      bp_if_mask := bp_if_mask p AND NOT (2 ^ k)\<rparr>"
    using assms(2) d b by (auto simp: leave_branch_def Let_def)
  have "k \<notin> fst ` set gs" using assms(1) by (auto simp: branch_inv_def fs)
  then have fresh: "k \<notin> fst ` set gs" "(k, x) \<notin> set gs" for x by force+
  have frames: "\<forall>j<length gs. bf_bit (bp_frames p ! j) = 2 ^ fst (rev gs ! j)"
  proof (intro allI impI)
    fix j assume "j < length gs"
    then show "bf_bit (bp_frames p ! j) = 2 ^ fst (rev gs ! j)"
      using assms(1) by (auto simp: branch_inv_def fs nth_append dest!: spec [of _ j])
  qed
  have "branch_inv p' gs"
    using assms(1) fresh frames k unfolding branch_inv_def
    by (auto simp: p' fs bit_and_iff bit_not_iff bit_single image_iff)
  then show thesis using that fs by (simp add: p')
qed

lemma decisions_active:
  assumes "branch_inv p fs"
  shows "list_all id (decisions T fs) \<longleftrightarrow> active T \<lparr>bk_key = key, bk_decision_mask = bp_decision_mask p, bk_if_mask = bp_if_mask p\<rparr>"
proof -
  have "active T \<lparr>bk_key = key, bk_decision_mask = bp_decision_mask p, bk_if_mask = bp_if_mask p\<rparr> \<longleftrightarrow>
      (\<forall>k<16. k \<in> fst ` set fs \<longrightarrow> bit T k = ((k, True) \<in> set fs))"
    using assms by (auto simp: active_def u16_eq_iff bit_and_iff bit_xor_iff branch_inv_def)
  also have "\<dots> \<longleftrightarrow> (\<forall>(k, r)\<in>set fs. bit T k = r)"
  proof -
    have "(k, True) \<in> set fs \<longleftrightarrow> r" "k < 16" if "(k, r) \<in> set fs" for k r
      using that assms by (auto simp: branch_inv_def dest: eq_key_imp_eq_value)
    then show ?thesis by force
  qed
  finally show ?thesis by (auto simp: decisions_def list_all_iff)
qed

lemma read_element_key: "read_element (0x20 # rest) 0 = Some (e, n) \<longleftrightarrow>
    32 \<le> length rest \<and> e = \<lparr>el_opcode = 0x20, el_data = take 32 rest\<rparr> \<and> n = 33"
  by (auto simp: read_element_def get_at_def get_range_def opcode_defs split: if_splits)

lemma read_element_plain:
  "\<not> (0x01 \<le> opcode \<and> opcode \<le> (0x4e :: u8)) \<Longrightarrow> read_element (opcode # rest) 0 = Some (\<lparr>el_opcode = opcode, el_data = []\<rparr>, 1)"
  by (auto simp: read_element_def get_at_def get_range_def opcode_defs word_le_nat_alt)

text \<open>One step of the loop against one token of the execution.\<close>

definition step_sim :: "branch_parser \<Rightarrow> (nat \<times> bool) list \<Rightarrow> token \<Rightarrow> branch_parser \<Rightarrow> (nat \<times> bool) list \<Rightarrow> branch_key list \<Rightarrow> bool" where
  "step_sim p fs t p' fs' new \<longleftrightarrow>
     branch_inv p' fs' \<and> take (br_len (bp_out p')) (br_keys (bp_out p')) = take (br_len (bp_out p)) (br_keys (bp_out p)) @ new
     \<and> bp_next_branch p' = bp_next_branch p + (if t = TokIf \<or> t = TokNotIf then 1 else 0)
     \<and> (case t of
          TokIf \<Rightarrow> fs' = (bp_next_branch p, True) # fs \<and> new = []
        | TokNotIf \<Rightarrow> fs' = (bp_next_branch p, False) # fs \<and> new = []
        | TokElse \<Rightarrow> (\<exists>k r gs. fs = (k, r) # gs \<and> fs' = (k, \<not> r) # gs) \<and> new = []
        | TokEndIf \<Rightarrow> (\<exists>k r. fs = (k, r) # fs') \<and> new = []
        | TokKeyCheck key \<Rightarrow> fs' = fs
            \<and> new = [\<lparr>bk_key = key, bk_decision_mask = bp_decision_mask p, bk_if_mask = bp_if_mask p\<rparr>]
        | TokOther \<Rightarrow> fs' = fs \<and> new = [])"

lemma branch_inv_push:
  assumes "branch_inv p fs" "br_push item (bp_out p) = Ok out"
  shows "branch_inv (p\<lparr>bp_out := out\<rparr>) fs"
    "take (br_len out) (br_keys out) = take (br_len (bp_out p)) (br_keys (bp_out p)) @ [item]"
  using assms
  by (auto simp: br_push_def branch_inv_def MAX_COVENANT_BRANCH_KEYS_def take_Suc_conv_app_nth split: if_splits)

lemma branch_step_sim:
  assumes "branch_inv p fs" "branch_step (opcode # rest) opcode p = Ok (width, p')"
  shows "\<exists>t fs' new. next_token (opcode # rest) = Some (t, width) \<and> step_sim p fs t p' fs' new"
proof -
  consider (enter) "opcode = 0x63 \<or> opcode = 0x64" | (els) "opcode = 0x67" | (leave) "opcode = 0x68" | (key) "opcode = 0x20"
    | (data) "0x01 \<le> opcode" "opcode \<le> 0x4e" "opcode \<noteq> 0x20"
    | (plain) "\<not> (0x01 \<le> opcode \<and> opcode \<le> 0x4e)" "opcode \<notin> {0x63, 0x64, 0x67, 0x68}" by blast
  then show ?thesis
  proof cases
    case enter
    then have "enter_branch opcode p = Ok p'" "width = 1" using assms(2) by (auto simp: branch_step_def rbind_Inr_iff)
    with branch_inv_enter [OF assms(1)] enter show ?thesis
      by (intro exI [of _ "if opcode = 0x63 then TokIf else TokNotIf"] exI [of _ "(bp_next_branch p, opcode = 0x63) # fs"] exI [of _ "[]"])
        (auto simp: next_token_def step_sim_def)
  next
    case els
    then have e: "enter_else p = Ok p'" "width = 1" using assms(2) by (auto simp: branch_step_def rbind_Inr_iff)
    from branch_inv_else [OF assms(1) e(1)] obtain k r gs where "fs = (k, r) # gs" "branch_inv p' ((k, \<not> r) # gs)"
      "bp_next_branch p' = bp_next_branch p" "bp_out p' = bp_out p" .
    with e els show ?thesis
      by (intro exI [of _ TokElse] exI [of _ "(k, \<not> r) # gs"] exI [of _ "[]"]) (simp add: next_token_def step_sim_def)
  next
    case leave
    then have e: "leave_branch p = Ok p'" "width = 1" using assms(2) by (auto simp: branch_step_def rbind_Inr_iff)
    from branch_inv_leave [OF assms(1) e(1)] obtain k r gs where "fs = (k, r) # gs" "branch_inv p' gs"
      "bp_next_branch p' = bp_next_branch p" "bp_out p' = bp_out p" .
    with e leave show ?thesis
      by (intro exI [of _ TokEndIf] exI [of _ gs] exI [of _ "[]"]) (simp add: next_token_def step_sim_def)
  next
    case key
    then have i: "inspect_key_push (0x20 # rest) p = Ok p'" "width = 33" using assms(2) by (auto simp: branch_step_def rbind_Inr_iff)
    then have len: "32 \<le> length rest" by (auto simp: inspect_key_push_def rbind_Inr_iff get_range_def ok_or_def split: if_splits)
    then have re: "read_element (0x20 # rest) 0 = Some (\<lparr>el_opcode = 0x20, el_data = take 32 rest\<rparr>, 33)"
      by (simp add: read_element_key)
    let ?check = "get_at (0x20 # rest) 33 = Some 0xac \<or> get_at (0x20 # rest) 33 = Some 0xad"
    show ?thesis
    proof (cases ?check)
      case True
      with i(1) len obtain out where out: "p' = p\<lparr>bp_out := out\<rparr>"
        "br_push \<lparr>bk_key = take 32 rest, bk_decision_mask = bp_decision_mask p, bk_if_mask = bp_if_mask p\<rparr> (bp_out p) = Ok out"
        by (auto simp: inspect_key_push_def rbind_Inr_iff get_range_def ok_or_def)
      with True re i(2) key branch_inv_push [OF assms(1) out(2)] show ?thesis
        by (intro exI [of _ "TokKeyCheck (take 32 rest)"] exI [of _ fs] exI) (simp add: next_token_def step_sim_def)
    next
      case False
      with i(1) len have "p' = p" by (auto simp: inspect_key_push_def rbind_Inr_iff get_range_def ok_or_def)
      with False re i(2) key assms(1) show ?thesis
        by (intro exI [of _ TokOther] exI [of _ fs] exI [of _ "[]"]) (simp add: next_token_def step_sim_def)
    qed
  next
    case data
    have ne: "opcode \<notin> {0x63, 0x64, 0x67, 0x68}" using data by (auto simp: word_le_nat_alt)
    with data assms(2) obtain e where e: "read_element (opcode # rest) 0 = Some (e, width)" "p' = p"
      by (auto simp: branch_step_def rbind_Inr_iff ok_or_def split: option.splits if_splits)
    have "el_opcode e = opcode" using e(1) by (auto simp: read_element_def get_at_def Let_def bind_eq_Some_conv)
    with e ne data assms(1) show ?thesis
      by (intro exI [of _ TokOther] exI [of _ fs] exI [of _ "[]"]) (simp add: next_token_def step_sim_def)
  next
    case plain
    have ne: "opcode \<noteq> 0x20" using plain(1) by (auto simp: word_le_nat_alt)
    then have "width = 1" "p' = p" using plain assms(2) by (auto simp: branch_step_def)
    with plain ne read_element_plain [OF plain(1)] assms(1) show ?thesis
      by (intro exI [of _ TokOther] exI [of _ fs] exI [of _ "[]"]) (simp add: next_token_def step_sim_def)
  qed
qed

lemma map_option_append_Nil [simp]: "map_option ((@) []) x = x" "map_option (\<lambda>ks. [] @ ks) x = x"
  "map_option ((@) [a]) x = map_option ((#) a) x"
  by (cases x; simp)+

lemma executed_keys_token:
  assumes "next_token rest = Some (t, width)" "rest \<noteq> []" "0 < width" "width \<le> length rest"
    and sim: "step_sim p fs t p' fs' new"
  shows "executed_keys (bit T) (bp_next_branch p) (decisions T fs) rest =
    map_option (\<lambda>ks. (if new \<noteq> [] \<and> list_all id (decisions T fs) then map bk_key new else []) @ ks)
      (executed_keys (bit T) (bp_next_branch p') (decisions T fs') (drop width rest))"
  using assms(1-4) sim
  by (subst executed_keys.simps) (auto simp: step_sim_def decisions_def option.map_ident split: token.splits)

lemma branch_loop_exact:
  "branch_inv p fs \<Longrightarrow> branch_loop p rest = Ok p' \<Longrightarrow> bp_depth p' = 0 \<Longrightarrow>
    \<exists>new. take (br_len (bp_out p')) (br_keys (bp_out p')) = take (br_len (bp_out p)) (br_keys (bp_out p)) @ new
      \<and> executed_keys (bit T) (bp_next_branch p) (decisions T fs) rest = Some (map bk_key (filter (active T) new))
      \<and> (\<forall>b\<in>set new. bk_decision_mask b AND br_selector_mask (bp_out p') = bk_decision_mask b)
      \<and> branch_inv p' [] \<and> bp_next_branch p \<le> bp_next_branch p'"
proof (induction p rest arbitrary: fs rule: branch_loop.induct)
  case (1 p rest)
  show ?case
  proof (cases rest)
    case Nil
    then have "p' = p" using "1.prems"(2) by (simp add: branch_loop.simps)
    then have "fs = []" using "1.prems" by (auto simp: branch_inv_def)
    then show ?thesis using "1.prems" \<open>p' = p\<close> Nil by (simp add: executed_keys.simps decisions_def)
  next
    case (Cons opcode tail)
    obtain width q where q: "branch_step rest opcode p = Ok (width, q)" "0 < width" "width \<le> length rest"
      "branch_loop q (drop width rest) = Ok p'"
      using "1.prems"(2) by (subst (asm) branch_loop.simps) (auto simp: Cons split: sum.splits if_splits)
    obtain t fs' new where t: "next_token rest = Some (t, width)" "step_sim p fs t q fs' new"
      using branch_step_sim [OF "1.prems"(1)] q(1) Cons by blast
    have inv: "branch_inv q fs'" using t(2) by (simp add: step_sim_def)
    obtain more where more: "take (br_len (bp_out p')) (br_keys (bp_out p')) = take (br_len (bp_out q)) (br_keys (bp_out q)) @ more"
      "executed_keys (bit T) (bp_next_branch q) (decisions T fs') (drop width rest) = Some (map bk_key (filter (active T) more))"
      "\<forall>b\<in>set more. bk_decision_mask b AND br_selector_mask (bp_out p') = bk_decision_mask b"
      "branch_inv p' []" "bp_next_branch q \<le> bp_next_branch p'"
      using "1.IH" [OF Cons q(1) refl _ inv q(4) "1.prems"(3)] q(2,3) by auto
    have le: "bp_next_branch p \<le> bp_next_branch q" using t(2) by (auto simp: step_sim_def)
    have new: "b = \<lparr>bk_key = bk_key b, bk_decision_mask = bp_decision_mask p, bk_if_mask = bp_if_mask p\<rparr>" "new = [b]"
      if "b \<in> set new" for b using that t(2) by (auto simp: step_sim_def split: token.splits)
    have keys: "filter (active T) new = (if new \<noteq> [] \<and> list_all id (decisions T fs) then new else [])"
    proof (cases new)
      case (Cons b bs)
      then show ?thesis using new [of b] decisions_active [OF "1.prems"(1), of T "bk_key b"] by auto
    qed simp
    have "bk_decision_mask b AND br_selector_mask (bp_out p') = bk_decision_mask b" if "b \<in> set new" for b
    proof -
      have "bk_decision_mask b = bp_decision_mask p" using new(1) [OF that] by (metis branch_key.select_convs(2))
      then show ?thesis
        using "1.prems"(1) more(4,5) le by (auto simp: u16_eq_iff bit_and_iff branch_inv_def)
    qed
    moreover have "executed_keys (bit T) (bp_next_branch p) (decisions T fs) rest = Some (map bk_key (filter (active T) (new @ more)))"
      using executed_keys_token [OF t(1) _ q(2,3) t(2), of T] more(2) keys Cons by simp
    ultimately show ?thesis using more le t(2) by (intro exI [of _ "new @ more"]) (auto simp: step_sim_def)
  qed
qed

text \<open>(C7) The branch resolver is exact: when it accepts a script, then for every assignment of truth values to the
  selectors, the bindings that match the assignment are exactly the keys whose signature checks execute when the
  conditionals are decided that way, in the order of the script.\<close>

theorem branch_resolution_exact:
  assumes "resolve_covenant_branches script = Ok r"
  shows "executed_keys (bit T) 0 [] script =
    Some (map bk_key (filter (\<lambda>b. matches_selectors b (br_selector_mask r) T) (take (br_len r) (br_keys r))))"
proof -
  obtain p where p: "branch_loop branch_parser_new script = Ok p" "bp_depth p = 0" "r = bp_out p"
    using assms by (auto simp: resolve_covenant_branches_def branch_finish_def rbind_Inr_iff split: if_splits)
  from branch_loop_exact [OF branch_inv_new p(1,2), of T] obtain new where
    new: "take (br_len r) (br_keys r) = new"
      "executed_keys (bit T) 0 [] script = Some (map bk_key (filter (active T) new))"
      "\<forall>b\<in>set new. bk_decision_mask b AND br_selector_mask r = bk_decision_mask b"
    by (auto simp: branch_parser_new_def decisions_def p(3))
  have "filter (active T) new = filter (\<lambda>b. matches_selectors b (br_selector_mask r) T) new"
    using new(3) by (intro filter_cong) (auto simp: matches_selectors_def active_def and.commute)
  then show ?thesis using new by simp
qed

definition sample_key :: "u8 \<Rightarrow> bytes" where "sample_key k = replicate 32 k"

text \<open>\<open>IF <k1> CHECKSIG ELSE NOTIF <k2> CHECKSIGVERIFY ENDIF <k3> CHECKSIG ENDIF\<close>\<close>

definition sample_covenant :: bytes where
  "sample_covenant = [0x63] @ 0x20 # sample_key 1 @ [0xac, 0x67, 0x64] @ 0x20 # sample_key 2 @ [0xad, 0x68]
     @ 0x20 # sample_key 3 @ [0xac, 0x68]"

theorem branch_resolution_exact_witness:
  "executed_keys (bit (0b10 :: u16)) 0 [] sample_covenant = Some [sample_key 3]
   \<and> executed_keys (bit (0b00 :: u16)) 0 [] sample_covenant = Some [sample_key 2, sample_key 3]"
proof -
  obtain r where r: "resolve_covenant_branches sample_covenant = Ok r"
    "map bk_key (filter (\<lambda>b. matches_selectors b (br_selector_mask r) 0b10) (take (br_len r) (br_keys r))) = [sample_key 3]"
    "map bk_key (filter (\<lambda>b. matches_selectors b (br_selector_mask r) 0b00) (take (br_len r) (br_keys r))) = [sample_key 2, sample_key 3]"
  proof -
    have "case resolve_covenant_branches sample_covenant of Err _ \<Rightarrow> False
      | Ok r \<Rightarrow> map bk_key (filter (\<lambda>b. matches_selectors b (br_selector_mask r) 0b10) (take (br_len r) (br_keys r))) = [sample_key 3]
         \<and> map bk_key (filter (\<lambda>b. matches_selectors b (br_selector_mask r) 0b00) (take (br_len r) (br_keys r))) = [sample_key 2, sample_key 3]"
      by code_simp
    then show thesis using that by (auto split: sum.splits)
  qed
  show ?thesis using branch_resolution_exact [OF r(1), of "0b10"] branch_resolution_exact [OF r(1), of "0b00"] r(2,3) by simp
qed

end
