(* ===== verification/Sig_Verify.thy ===== *)
theory Sig_Verify
  imports Kspt_Validate Sighash Branch
begin

text \<open>
  Verification of the signatures an untrusted transaction carries (\<open>transaction/signature_verification/mod.rs\<close>): which
  key a slot's position stands for, whether its signature is valid over the exact signature hash, how many signatures an
  input needs, and the status of the whole transaction. The keyed hash and Schnorr verification are third-party code and
  are the parameters \<open>keyed\<close> and \<open>schnorr_verify\<close> (key, message, signature).

  The lemmas show what a positive answer means: every input has as many signatures as its script requires, at different
  positions, each valid under the key at its position; and that the status counts agree with it.
\<close>

section \<open>Definitions\<close>

datatype signature_validation_error = SvInvalidModel | SvInvalidSighash | SvInvalidBinding | SvDuplicateBinding | SvInvalidSignature

datatype signature_source = SourceKspt | SourceStandardPskt

definition validate_covenant_execution_binding :: "transaction_input \<Rightarrow> u16 \<Rightarrow> signature_validation_error + unit" where
  "validate_covenant_execution_binding inp selector_mask =
     (if \<not> ti_covenant_execution_present inp then Err SvInvalidBinding
      else if ti_covenant_execution_true_mask inp AND NOT (ti_covenant_execution_mask inp) \<noteq> 0 then Err SvInvalidBinding
      else if ti_covenant_execution_mask inp \<noteq> selector_mask then Err SvInvalidBinding
      else Ok ())"

definition resolved_execution :: "transaction \<Rightarrow> nat \<Rightarrow> signature_validation_error + transaction_input \<times> branch_resolution" where
  "resolved_execution tx input_index =
     rbind (ok_or (get_at (tx_input_slots tx) input_index) SvInvalidModel) (\<lambda>inp.
     rbind (map_err (\<lambda>_. SvInvalidModel) (checked_redeem_bytes tx input_index)) (\<lambda>redeem.
     rbind (map_err (\<lambda>_. SvInvalidBinding) (resolve_covenant_branches redeem)) (\<lambda>resolved.
     rbind (validate_covenant_execution_binding inp (br_selector_mask resolved)) (\<lambda>_.
     Ok (inp, resolved)))))"

definition active_execution_key_count :: "transaction_input \<Rightarrow> branch_resolution \<Rightarrow> u8 option" where
  "active_execution_key_count inp resolved =
     foldl (\<lambda>acc pos. Option.bind acc (\<lambda>count.
       if pos \<ge> 256 then None
       else case key_at resolved (word_of_nat pos) of
              Err _ \<Rightarrow> None
            | Ok binding \<Rightarrow>
                if matches_selectors binding (ti_covenant_execution_mask inp) (ti_covenant_execution_true_mask inp)
                then checked_add count 1 else Some count)) (Some 0) [0..<br_len resolved]"

definition covenant_required_for_execution :: "transaction \<Rightarrow> nat \<Rightarrow> u8 option" where
  "covenant_required_for_execution tx input_index =
     (case resolved_execution tx input_index of
        Err _ \<Rightarrow> None
      | Ok (inp, resolved) \<Rightarrow>
          Option.bind (active_execution_key_count inp resolved) (\<lambda>count.
          if count > 0 \<and> unat count \<le> MAX_SIGS_PER_INPUT then Some count else None))"

definition required_for_input :: "transaction \<Rightarrow> nat \<Rightarrow> u8 option" where
  "required_for_input tx input_index =
     (case analyze_input_script tx input_index of
        (P2PK, _) \<Rightarrow> Some 1
      | (Multisig, Some info) \<Rightarrow> Some (mi_m info)
      | (P2SH, Some info) \<Rightarrow> Some (mi_m info)
      | (P2SH, None) \<Rightarrow> covenant_required_for_execution tx input_index
      | _ \<Rightarrow> None)"

definition covenant_position_matches_execution :: "transaction \<Rightarrow> nat \<Rightarrow> u8 \<Rightarrow> signature_validation_error + unit" where
  "covenant_position_matches_execution tx input_index pos =
     rbind (resolved_execution tx input_index) (\<lambda>(inp, resolved).
     rbind (map_err (\<lambda>_. SvInvalidBinding) (key_at resolved pos)) (\<lambda>binding.
     if matches_selectors binding (ti_covenant_execution_mask inp) (ti_covenant_execution_true_mask inp)
     then Ok () else Err SvInvalidBinding))"

definition p2pk_xonly_for_position :: "transaction \<Rightarrow> nat \<Rightarrow> u8 \<Rightarrow> signature_validation_error + bytes" where
  "p2pk_xonly_for_position tx input_index pos =
     (if pos \<noteq> 0 then Err SvInvalidBinding
      else rbind (ok_or (get_at (tx_input_slots tx) input_index) SvInvalidModel) (\<lambda>inp.
           let spk = tu_script_public_key (ti_utxo_entry inp) in
           rbind (ok_or (get_range (spk_script spk) 0 (spk_script_len spk)) SvInvalidModel) (\<lambda>script.
           ok_or (p2pk_xonly script) SvInvalidBinding)))"

definition multisig_xonly_for_position :: "multisig_info \<Rightarrow> u8 \<Rightarrow> signature_validation_error + bytes" where
  "multisig_xonly_for_position info pos =
     ok_or (Option.bind (get_range (mi_pubkeys info) 0 (unat (mi_n info))) (\<lambda>keys. get_at keys (unat pos))) SvInvalidBinding"

definition covenant_xonly_for_position :: "transaction \<Rightarrow> nat \<Rightarrow> u8 \<Rightarrow> signature_validation_error + bytes" where
  "covenant_xonly_for_position tx input_index pos =
     rbind (map_err (\<lambda>_. SvInvalidModel) (checked_redeem_bytes tx input_index)) (\<lambda>redeem.
     rbind (map_err (\<lambda>_. SvInvalidBinding) (resolve_covenant_branches redeem)) (\<lambda>resolved.
     rbind (map_err (\<lambda>_. SvInvalidBinding) (key_at resolved pos)) (\<lambda>branch. Ok (bk_key branch))))"

definition expected_xonly_for_position :: "transaction \<Rightarrow> nat \<Rightarrow> u8 \<Rightarrow> signature_validation_error + bytes" where
  "expected_xonly_for_position tx input_index pos =
     (case analyze_input_script tx input_index of
        (P2PK, _) \<Rightarrow> p2pk_xonly_for_position tx input_index pos
      | (Multisig, Some info) \<Rightarrow> multisig_xonly_for_position info pos
      | (P2SH, Some info) \<Rightarrow> multisig_xonly_for_position info pos
      | (P2SH, None) \<Rightarrow> covenant_xonly_for_position tx input_index pos
      | _ \<Rightarrow> Err SvInvalidBinding)"

definition verify_signature_bytes ::
  "(bytes \<Rightarrow> bytes \<Rightarrow> bytes) \<Rightarrow> (bytes \<Rightarrow> bytes \<Rightarrow> bytes \<Rightarrow> bool) \<Rightarrow> transaction \<Rightarrow> nat \<Rightarrow> u8 \<Rightarrow> u8 \<Rightarrow> bytes
     \<Rightarrow> signature_validation_error + unit" where
  "verify_signature_bytes keyed schnorr_verify tx input_index pos sighash_byte sig =
     (if sighash_byte \<noteq> sighash_to_byte SigAll then Err SvInvalidSighash
      else rbind (expected_xonly_for_position tx input_index pos) (\<lambda>public_key.
           rbind (if analyze_input_script tx input_index = (P2SH, None)
                  then covenant_position_matches_execution tx input_index pos else Ok ()) (\<lambda>_.
           let message = calculate_sighash keyed (sighash_source_of tx) input_index SigAll in
           if schnorr_verify public_key message sig then Ok () else Err SvInvalidSignature)))"

definition compressed_xonly :: "bytes \<Rightarrow> signature_validation_error + bytes" where
  "compressed_xonly pubkey = (if pubkey ! 0 \<noteq> 0x02 \<and> pubkey ! 0 \<noteq> 0x03 then Err SvInvalidBinding else Ok (take 32 (drop 1 pubkey)))"

definition position_for_p2pk_key :: "transaction \<Rightarrow> nat \<Rightarrow> bytes \<Rightarrow> signature_validation_error + u8" where
  "position_for_p2pk_key tx input_index key =
     rbind (expected_xonly_for_position tx input_index 0) (\<lambda>expected.
     if key = expected then Ok 0 else Err SvInvalidBinding)"

definition position_for_multisig_key :: "multisig_info \<Rightarrow> bytes \<Rightarrow> signature_validation_error + u8" where
  "position_for_multisig_key info key =
     rbind (ok_or (get_range (mi_pubkeys info) 0 (unat (mi_n info))) SvInvalidModel) (\<lambda>candidates.
     ok_or (Option.bind (find_index (\<lambda>candidate. candidate = key) candidates)
              (\<lambda>pos. if pos < 256 then Some (word_of_nat pos) else None)) SvInvalidBinding)"

definition position_for_covenant_key :: "transaction \<Rightarrow> nat \<Rightarrow> bytes \<Rightarrow> signature_validation_error + u8" where
  "position_for_covenant_key tx input_index key =
     rbind (resolved_execution tx input_index) (\<lambda>(inp, resolved).
     map_err (\<lambda>_. SvInvalidBinding)
       (position_for_key_with_selectors resolved key (ti_covenant_execution_mask inp) (ti_covenant_execution_true_mask inp)))"

definition position_for_pskt_key :: "transaction \<Rightarrow> nat \<Rightarrow> bytes \<Rightarrow> signature_validation_error + u8" where
  "position_for_pskt_key tx input_index pubkey =
     rbind (compressed_xonly pubkey) (\<lambda>key.
     case analyze_input_script tx input_index of
        (P2PK, _) \<Rightarrow> position_for_p2pk_key tx input_index key
      | (Multisig, Some info) \<Rightarrow> position_for_multisig_key info key
      | (P2SH, Some info) \<Rightarrow> position_for_multisig_key info key
      | (P2SH, None) \<Rightarrow> position_for_covenant_key tx input_index key
      | _ \<Rightarrow> Err SvInvalidBinding)"

definition mark_signature_position :: "(u8 \<Rightarrow> bool) \<Rightarrow> u8 \<Rightarrow> signature_validation_error + (u8 \<Rightarrow> bool)" where
  "mark_signature_position seen pos = (if seen pos then Err SvDuplicateBinding else Ok (seen(pos := True)))"

definition verify_kspt_slot ::
  "(bytes \<Rightarrow> bytes \<Rightarrow> bytes) \<Rightarrow> (bytes \<Rightarrow> bytes \<Rightarrow> bytes \<Rightarrow> bool) \<Rightarrow> transaction \<Rightarrow> nat \<Rightarrow> nat
     \<Rightarrow> (u8 \<Rightarrow> bool) \<times> u8 \<Rightarrow> nat \<times> input_sig \<Rightarrow> signature_validation_error + (u8 \<Rightarrow> bool) \<times> u8" where
  "verify_kspt_slot keyed schnorr_verify tx input_index declared = (\<lambda>(seen, count) (slot_index, slot).
     if slot_index \<ge> declared then (if is_present slot then Err SvInvalidModel else Ok (seen, count))
     else if \<not> is_present slot then Err SvInvalidModel
     else rbind (mark_signature_position seen (is_pubkey_pos slot)) (\<lambda>seen.
          rbind (verify_signature_bytes keyed schnorr_verify tx input_index (is_pubkey_pos slot) (is_sighash_type slot)
                   (is_signature slot)) (\<lambda>_.
          Ok (seen, saturating_add count 1))))"

definition verified_kspt_count ::
  "(bytes \<Rightarrow> bytes \<Rightarrow> bytes) \<Rightarrow> (bytes \<Rightarrow> bytes \<Rightarrow> bytes \<Rightarrow> bool) \<Rightarrow> transaction \<Rightarrow> nat \<Rightarrow> transaction_input
     \<Rightarrow> signature_validation_error + u8" where
  "verified_kspt_count keyed schnorr_verify tx input_index inp =
     (let declared = unat (ti_sig_count inp) in
      if declared > MAX_SIGS_PER_INPUT then Err SvInvalidModel
      else rbind (try_fold (verify_kspt_slot keyed schnorr_verify tx input_index declared) (\<lambda>_. False, 0)
                    (enumerate 0 (ti_sigs inp))) (\<lambda>(_, count). Ok count))"

definition verify_pskt_slot ::
  "(bytes \<Rightarrow> bytes \<Rightarrow> bytes) \<Rightarrow> (bytes \<Rightarrow> bytes \<Rightarrow> bytes \<Rightarrow> bool) \<Rightarrow> transaction \<Rightarrow> nat \<Rightarrow> nat
     \<Rightarrow> (u8 \<Rightarrow> bool) \<times> u8 \<Rightarrow> nat \<times> incoming_partial_sig \<Rightarrow> signature_validation_error + (u8 \<Rightarrow> bool) \<times> u8" where
  "verify_pskt_slot keyed schnorr_verify tx input_index declared = (\<lambda>(seen, count) (slot_index, slot).
     if slot_index \<ge> declared then (if ip_present slot then Err SvInvalidModel else Ok (seen, count))
     else if \<not> ip_present slot then Err SvInvalidModel
     else rbind (position_for_pskt_key tx input_index (ip_pubkey slot)) (\<lambda>pos.
          rbind (mark_signature_position seen pos) (\<lambda>seen.
          rbind (ok_or (get_at (tx_input_slots tx) input_index) SvInvalidModel) (\<lambda>inp.
          rbind (verify_signature_bytes keyed schnorr_verify tx input_index pos (ti_sighash_type inp) (ip_signature slot)) (\<lambda>_.
          Ok (seen, saturating_add count 1))))))"

definition verified_pskt_count ::
  "(bytes \<Rightarrow> bytes \<Rightarrow> bytes) \<Rightarrow> (bytes \<Rightarrow> bytes \<Rightarrow> bytes \<Rightarrow> bool) \<Rightarrow> transaction \<Rightarrow> nat \<Rightarrow> transaction_input
     \<Rightarrow> signature_validation_error + u8" where
  "verified_pskt_count keyed schnorr_verify tx input_index inp =
     (let declared = unat (ti_incoming_partial_sigs_count inp) in
      if declared > MAX_SIGS_PER_INPUT then Err SvInvalidModel
      else if ti_sighash_type inp \<noteq> sighash_to_byte SigAll \<and> declared \<noteq> 0 then Err SvInvalidSighash
      else rbind (try_fold (verify_pskt_slot keyed schnorr_verify tx input_index declared) (\<lambda>_. False, 0)
                    (enumerate 0 (ti_incoming_partial_sigs inp))) (\<lambda>(_, count). Ok count))"

definition verified_count ::
  "(bytes \<Rightarrow> bytes \<Rightarrow> bytes) \<Rightarrow> (bytes \<Rightarrow> bytes \<Rightarrow> bytes \<Rightarrow> bool) \<Rightarrow> transaction \<Rightarrow> nat \<Rightarrow> signature_source
     \<Rightarrow> signature_validation_error + u8" where
  "verified_count keyed schnorr_verify tx input_index source =
     rbind (ok_or (get_at (tx_input_slots tx) input_index) SvInvalidModel) (\<lambda>inp.
     case source of
       SourceKspt \<Rightarrow> verified_kspt_count keyed schnorr_verify tx input_index inp
     | SourceStandardPskt \<Rightarrow> verified_pskt_count keyed schnorr_verify tx input_index inp)"

definition status_step ::
  "(bytes \<Rightarrow> bytes \<Rightarrow> bytes) \<Rightarrow> (bytes \<Rightarrow> bytes \<Rightarrow> bytes \<Rightarrow> bool) \<Rightarrow> transaction \<Rightarrow> signature_source \<Rightarrow> u32 \<times> u32 \<Rightarrow> nat \<Rightarrow> u32 \<times> u32" where
  "status_step keyed schnorr_verify tx source = (\<lambda>(present, required) input_index.
     case required_for_input tx input_index of
       None \<Rightarrow> (present, saturating_add required 1)
     | Some required_input \<Rightarrow>
         let required = saturating_add required (ucast required_input) in
         (case verified_count keyed schnorr_verify tx input_index source of
            Err _ \<Rightarrow> (present, required)
          | Ok valid \<Rightarrow> if valid \<le> required_input then (saturating_add present (ucast valid), required) else (present, required)))"

definition signature_status ::
  "(bytes \<Rightarrow> bytes \<Rightarrow> bytes) \<Rightarrow> (bytes \<Rightarrow> bytes \<Rightarrow> bytes \<Rightarrow> bool) \<Rightarrow> transaction \<Rightarrow> signature_source \<Rightarrow> u32 \<times> u32" where
  "signature_status keyed schnorr_verify tx source =
     (if tx_num_inputs tx = 0 \<or> tx_num_inputs tx > length (tx_input_slots tx) then (0, 0)
      else foldl (status_step keyed schnorr_verify tx source) (0, 0) [0..<tx_num_inputs tx])"

definition kspt_status ::
  "(bytes \<Rightarrow> bytes \<Rightarrow> bytes) \<Rightarrow> (bytes \<Rightarrow> bytes \<Rightarrow> bytes \<Rightarrow> bool) \<Rightarrow> transaction \<Rightarrow> u32 \<times> u32" where
  "kspt_status keyed schnorr_verify tx = signature_status keyed schnorr_verify tx SourceKspt"

definition pskt_status ::
  "(bytes \<Rightarrow> bytes \<Rightarrow> bytes) \<Rightarrow> (bytes \<Rightarrow> bytes \<Rightarrow> bytes \<Rightarrow> bool) \<Rightarrow> transaction \<Rightarrow> u32 \<times> u32" where
  "pskt_status keyed schnorr_verify tx = signature_status keyed schnorr_verify tx SourceStandardPskt"

definition kspt_is_fully_signed ::
  "(bytes \<Rightarrow> bytes \<Rightarrow> bytes) \<Rightarrow> (bytes \<Rightarrow> bytes \<Rightarrow> bytes \<Rightarrow> bool) \<Rightarrow> transaction \<Rightarrow> bool" where
  "kspt_is_fully_signed keyed schnorr_verify tx \<longleftrightarrow>
     tx_num_inputs tx \<noteq> 0 \<and> tx_num_inputs tx \<le> length (tx_input_slots tx)
     \<and> list_all (\<lambda>input_index.
          case required_for_input tx input_index of
            None \<Rightarrow> False
          | Some required \<Rightarrow>
              (case verified_count keyed schnorr_verify tx input_index SourceKspt of
                 Err _ \<Rightarrow> False | Ok valid \<Rightarrow> valid = required)) [0..<tx_num_inputs tx]"

section \<open>Signature slots\<close>

lemma ex_list_all2_Cons:
  "(\<exists>ps. list_all2 P (x # xs) ps \<and> Q ps) \<longleftrightarrow> (\<exists>y ys. list_all2 P (x # xs) (y # ys) \<and> Q (y # ys))"
  by (auto simp: list_all2_Cons1)

text \<open>
  Compact and standard transactions keep their signatures in different slots; both are verified by one loop. The contract:
  a slot says whether it is used, which key position it stands for, and whether its signature checks out there.
\<close>

locale signature_slots =
  fixes present :: "'slot \<Rightarrow> bool"
    and position_of :: "'slot \<Rightarrow> signature_validation_error + u8"
    and check_slot :: "u8 \<Rightarrow> 'slot \<Rightarrow> signature_validation_error + unit"
    and step :: "nat \<Rightarrow> (u8 \<Rightarrow> bool) \<times> u8 \<Rightarrow> nat \<times> 'slot \<Rightarrow> signature_validation_error + (u8 \<Rightarrow> bool) \<times> u8"
  assumes step_unused: "k \<ge> declared \<Longrightarrow>
      step declared (seen, n) (k, slot) = (if present slot then Err SvInvalidModel else Ok (seen, n))"
    and step_absent: "k < declared \<Longrightarrow> \<not> present slot \<Longrightarrow> step declared (seen, n) (k, slot) = Err SvInvalidModel"
    and step_used: "k < declared \<Longrightarrow> present slot \<Longrightarrow>
      step declared (seen, n) (k, slot) = Ok s \<longleftrightarrow>
        (\<exists>pos. position_of slot = Ok pos \<and> \<not> seen pos \<and> check_slot pos slot = Ok ()
           \<and> s = (seen(pos := True), saturating_add n 1))"
begin

lemma verified_unused:
  "declared \<le> k \<Longrightarrow> try_fold (step declared) (seen, n) (enumerate k slots) =
     (if \<exists>slot\<in>set slots. present slot then Err SvInvalidModel else Ok (seen, n))"
  by (induction slots arbitrary: k) (auto simp: step_unused)

lemma verified_used:
  assumes "k + length slots \<le> declared"
  shows "try_fold (step declared) (seen, n) (enumerate k slots) = Ok (seen', n') \<longleftrightarrow>
    (\<exists>ps. list_all2 (\<lambda>slot pos. present slot \<and> position_of slot = Ok pos \<and> check_slot pos slot = Ok ()) slots ps
       \<and> distinct ps \<and> (\<forall>p\<in>set ps. \<not> seen p) \<and> seen' = (\<lambda>p. seen p \<or> p \<in> set ps)
       \<and> n' = ((\<lambda>m. saturating_add m 1) ^^ length slots) n)"
  using assms
proof (induction slots arbitrary: k seen n)
  case Nil
  then show ?case by auto
next
  case (Cons slot slots)
  let ?valid = "list_all2 (\<lambda>slot pos. present slot \<and> position_of slot = Ok pos \<and> check_slot pos slot = Ok ())"
  let ?inc = "\<lambda>m :: u8. saturating_add m 1"
  show ?case
  proof (cases "present slot")
    case True
    have "try_fold (step declared) (seen, n) (enumerate k (slot # slots)) = Ok (seen', n') \<longleftrightarrow>
        (\<exists>pos. position_of slot = Ok pos \<and> \<not> seen pos \<and> check_slot pos slot = Ok ()
           \<and> try_fold (step declared) (seen(pos := True), saturating_add n 1) (enumerate (Suc k) slots) = Ok (seen', n'))"
      using step_used [OF _ True, of k declared] Cons.prems by (auto simp: rbind_Inr_iff)
    also have "\<dots> \<longleftrightarrow> (\<exists>pos ps. position_of slot = Ok pos \<and> \<not> seen pos \<and> check_slot pos slot = Ok ()
       \<and> list_all2 (\<lambda>slot pos. present slot \<and> position_of slot = Ok pos \<and> check_slot pos slot = Ok ()) slots ps
       \<and> distinct (pos # ps) \<and> (\<forall>p\<in>set ps. \<not> seen p) \<and> seen' = (\<lambda>p. seen p \<or> p \<in> set (pos # ps))
       \<and> n' = ((\<lambda>m. saturating_add m 1) ^^ length slots) (saturating_add n 1))"
      using Cons.prems by (subst Cons.IH) (auto simp: fun_eq_iff)
    also have "\<dots> \<longleftrightarrow> (\<exists>pos ps. ?valid (slot # slots) (pos # ps) \<and> distinct (pos # ps) \<and> (\<forall>p\<in>set (pos # ps). \<not> seen p)
       \<and> seen' = (\<lambda>p. seen p \<or> p \<in> set (pos # ps)) \<and> n' = (?inc ^^ length (slot # slots)) n)"
      using True funpow_swap1 [of ?inc "length slots" n] by auto
    finally show ?thesis by (simp only: ex_list_all2_Cons)
  next
    case False
    then show ?thesis using step_absent [OF _ False, of k declared] Cons.prems by (auto simp: list_all2_Cons1)
  qed
qed

lemma saturating_steps: "k \<le> 255 \<Longrightarrow> unat (((\<lambda>m. saturating_add m 1) ^^ k) 0 :: u8) = k"
  by (induction k) (simp_all add: unat_saturating_add)

text \<open>The count is returned exactly when the declared slots come first, check out and stand for different keys.\<close>

lemma verified_slots:
  assumes "declared \<le> length slots" "declared \<le> 255"
  shows "(\<exists>seen. try_fold (step declared) (\<lambda>_. False, 0) (enumerate 0 slots) = Ok (seen, n)) \<longleftrightarrow>
    unat n = declared \<and> (\<forall>slot\<in>set (drop declared slots). \<not> present slot)
    \<and> (\<exists>ps. list_all2 (\<lambda>slot pos. present slot \<and> position_of slot = Ok pos \<and> check_slot pos slot = Ok ()) (take declared slots) ps
         \<and> distinct ps)"
    (is "?L \<longleftrightarrow> ?R")
proof -
  have split: "enumerate 0 slots = enumerate 0 (take declared slots) @ enumerate declared (drop declared slots)"
    using enumerate_append_eq [of 0 "take declared slots" "drop declared slots"] assms(1) by simp
  have n: "unat n = declared \<longleftrightarrow> n = ((\<lambda>m. saturating_add m 1) ^^ declared) 0"
    using saturating_steps [OF assms(2)] by (metis word_unat_eq_iff)
  show ?thesis
    unfolding n split try_fold_append rbind_Inr_iff
    using assms by (auto simp: verified_used verified_unused split: if_splits)
qed

end

lemma mark_signature_position_Ok: "mark_signature_position seen pos = Ok s \<longleftrightarrow> \<not> seen pos \<and> s = seen(pos := True)"
  by (auto simp: mark_signature_position_def)

interpretation kspt_slots: signature_slots is_present "\<lambda>slot. Ok (is_pubkey_pos slot)"
    "\<lambda>pos slot. verify_signature_bytes keyed schnorr_verify tx input_index pos (is_sighash_type slot) (is_signature slot)"
    "verify_kspt_slot keyed schnorr_verify tx input_index"
  for keyed schnorr_verify tx input_index
  by unfold_locales (auto simp: verify_kspt_slot_def rbind_Inr_iff mark_signature_position_Ok)

interpretation pskt_slots: signature_slots ip_present "\<lambda>slot. position_for_pskt_key tx input_index (ip_pubkey slot)"
    "\<lambda>pos slot. rbind (ok_or (get_at (tx_input_slots tx) input_index) SvInvalidModel) (\<lambda>inp.
       verify_signature_bytes keyed schnorr_verify tx input_index pos (ti_sighash_type inp) (ip_signature slot))"
    "verify_pskt_slot keyed schnorr_verify tx input_index"
  for keyed schnorr_verify tx input_index
  by unfold_locales (auto simp: verify_pskt_slot_def rbind_Inr_iff mark_signature_position_Ok)

section \<open>A fully signed transaction\<close>

lemma kspt_is_fully_signed_iff:
  "kspt_is_fully_signed keyed schnorr_verify tx \<longleftrightarrow>
     0 < tx_num_inputs tx \<and> tx_num_inputs tx \<le> length (tx_input_slots tx)
     \<and> (\<forall>i<tx_num_inputs tx. \<exists>n. required_for_input tx i = Some n
          \<and> verified_count keyed schnorr_verify tx i SourceKspt = Ok n)"
proof -
  have "(case a of None \<Rightarrow> False | Some n \<Rightarrow> (case b of Err _ \<Rightarrow> False | Ok v \<Rightarrow> v = n)) \<longleftrightarrow> (\<exists>n. a = Some n \<and> b = Ok n)"
    for a :: "u8 option" and b :: "signature_validation_error + u8"
    by (cases a; cases b) auto
  then show ?thesis by (auto simp: kspt_is_fully_signed_def list_all_iff)
qed

definition signature_valid ::
  "(bytes \<Rightarrow> bytes \<Rightarrow> bytes) \<Rightarrow> (bytes \<Rightarrow> bytes \<Rightarrow> bytes \<Rightarrow> bool) \<Rightarrow> transaction \<Rightarrow> nat \<Rightarrow> u8 \<Rightarrow> bytes \<Rightarrow> bool" where
  "signature_valid keyed schnorr_verify tx i pos sig \<longleftrightarrow>
     (case expected_xonly_for_position tx i pos of
        Err _ \<Rightarrow> False
      | Ok key \<Rightarrow> schnorr_verify key (calculate_sighash keyed (sighash_source_of tx) i SigAll) sig)
     \<and> (analyze_input_script tx i \<noteq> (P2SH, None) \<or> covenant_position_matches_execution tx i pos = Ok ())"

definition input_signed ::
  "(bytes \<Rightarrow> bytes \<Rightarrow> bytes) \<Rightarrow> (bytes \<Rightarrow> bytes \<Rightarrow> bytes \<Rightarrow> bool) \<Rightarrow> transaction \<Rightarrow> nat \<Rightarrow> nat \<Rightarrow> bool" where
  "input_signed keyed schnorr_verify tx i n \<longleftrightarrow>
     (let sigs = ti_sigs (tx_input_slots tx ! i) in
      unat (ti_sig_count (tx_input_slots tx ! i)) = n \<and> n \<le> MAX_SIGS_PER_INPUT
      \<and> list_all (\<lambda>slot. is_present slot \<and> is_sighash_type slot = 1
            \<and> signature_valid keyed schnorr_verify tx i (is_pubkey_pos slot) (is_signature slot)) (take n sigs)
      \<and> list_all (\<lambda>slot. \<not> is_present slot) (drop n sigs)
      \<and> distinct (map is_pubkey_pos (take n sigs)))"

lemma verify_signature_bytes_iff:
  "verify_signature_bytes keyed schnorr_verify tx i pos sighash_byte sig = Ok () \<longleftrightarrow>
     sighash_byte = 1 \<and> signature_valid keyed schnorr_verify tx i pos sig"
  by (cases "expected_xonly_for_position tx i pos")
    (auto simp: verify_signature_bytes_def signature_valid_def rbind_Inr_iff Let_def)

lemma list_all2_function: "list_all2 (\<lambda>x y. P x \<and> f x = y) xs ys \<longleftrightarrow> list_all P xs \<and> ys = map f xs"
  by (induction xs arbitrary: ys) (auto simp: list_all2_Cons1)

lemma verified_kspt_count_iff:
  assumes "tx_arrays tx" "i < length (tx_input_slots tx)"
  shows "verified_count keyed schnorr_verify tx i SourceKspt = Ok n \<longleftrightarrow> input_signed keyed schnorr_verify tx i (unat n)"
proof -
  let ?inp = "tx_input_slots tx ! i"
  let ?d = "unat (ti_sig_count ?inp)"
  have len: "length (ti_sigs ?inp) = MAX_SIGS_PER_INPUT"
    using assms by (auto simp: tx_arrays_def input_arrays_def)
  let ?ok = "\<lambda>slot. is_present slot \<and> is_sighash_type slot = 1
      \<and> signature_valid keyed schnorr_verify tx i (is_pubkey_pos slot) (is_signature slot)"
  have slots: "list_all2 (\<lambda>slot pos. is_present slot \<and> is_pubkey_pos slot = pos
        \<and> verify_signature_bytes keyed schnorr_verify tx i pos (is_sighash_type slot) (is_signature slot) = Ok ()) xs ps
      \<longleftrightarrow> list_all ?ok xs \<and> ps = map is_pubkey_pos xs" for xs ps
    unfolding list_all2_function [symmetric]
    by (rule arg_cong [of _ _ "\<lambda>P. list_all2 P xs ps"]) (auto simp: fun_eq_iff verify_signature_bytes_iff)
  show ?thesis
  proof (cases "?d \<le> MAX_SIGS_PER_INPUT")
    case True
    have "verified_count keyed schnorr_verify tx i SourceKspt = Ok n \<longleftrightarrow>
      (\<exists>seen. try_fold (verify_kspt_slot keyed schnorr_verify tx i ?d) (\<lambda>_. False, 0) (enumerate 0 (ti_sigs ?inp)) = Ok (seen, n))"
      using assms(2) True by (auto simp: verified_count_def verified_kspt_count_def get_at_def rbind_Inr_iff)
    also have "\<dots> \<longleftrightarrow> input_signed keyed schnorr_verify tx i (unat n)"
      using True len
      by (subst kspt_slots.verified_slots)
        (auto simp: slots input_signed_def Let_def list_all_iff MAX_SIGS_PER_INPUT_def)
    finally show ?thesis .
  next
    case False
    then show ?thesis
      using assms(2) by (auto simp: verified_count_def verified_kspt_count_def get_at_def input_signed_def Let_def)
  qed
qed

lemma input_signed_unique:
  "input_signed keyed schnorr_verify tx i m \<Longrightarrow> input_signed keyed schnorr_verify tx i n \<Longrightarrow> m = n"
  by (simp add: input_signed_def Let_def)

text \<open>(C3) The completion check is exact: a compact transaction counts as fully signed exactly when it has inputs and
  every input has as many signatures as the script that controls it requires, all of type \<open>All\<close>, at different key
  positions and no slot besides, each valid over the signature hash of that input under the key the script (or, for a
  covenant, the executed branch of the redeem script) has at its position.\<close>

theorem kspt_fully_signed_exact:
  assumes "tx_arrays tx"
  shows "kspt_is_fully_signed keyed schnorr_verify tx \<longleftrightarrow>
    0 < tx_num_inputs tx \<and> tx_num_inputs tx \<le> length (tx_input_slots tx)
    \<and> (\<forall>i<tx_num_inputs tx. \<exists>n. required_for_input tx i = Some n \<and> input_signed keyed schnorr_verify tx i (unat n))"
  unfolding kspt_is_fully_signed_iff
  using verified_kspt_count_iff [OF assms] by (metis order_less_le_trans)

definition sample_schnorr :: "bytes \<Rightarrow> bytes \<Rightarrow> bytes \<Rightarrow> bool" where
  "sample_schnorr key message sig \<longleftrightarrow> sig = key @ message"

definition sample_p2pk_input :: "bytes \<Rightarrow> transaction_input" where
  "sample_p2pk_input sig =
     input_empty\<lparr>ti_utxo_entry := \<lparr>tu_amount = 50,
          tu_script_public_key = spk_new\<lparr>spk_script := copy_at 0 (p2pk_script (sample_key 9)) (spk_script spk_new),
             spk_script_len := 34\<rparr>, tu_block_daa_score = 0\<rparr>,
        ti_sigs := (input_sig_empty\<lparr>is_signature := sig, is_sighash_type := 1, is_present := True\<rparr>)
          # replicate (MAX_SIGS_PER_INPUT - 1) input_sig_empty, ti_sig_count := 1, ti_sighash_type := 1\<rparr>"

definition sample_p2pk_tx :: "bytes \<Rightarrow> transaction" where
  "sample_p2pk_tx sig =
     \<lparr>tx_version = 0, tx_input_slots = [sample_p2pk_input sig], tx_num_inputs = 1,
      tx_output_slots = replicate MAX_OUTPUTS output_empty, tx_num_outputs = 1, tx_network = KUnknown, tx_locktime = 0,
      tx_subnetwork_id = SUBNETWORK_ID_NATIVE, tx_gas = 0, tx_payload = [], tx_stealth_tweak = replicate 32 0,
      tx_has_stealth_tweak = False, tx_redeem_pool = replicate REDEEM_POOL_SIZE 0, tx_redeem_pool_used = 0,
      tx_limits = \<lparr>tl_max_inputs = 1, tl_max_payload_bytes = 0\<rparr>\<rparr>"

definition sample_signature :: bytes where
  "sample_signature = sample_key 9
     @ calculate_sighash sample_keyed (sighash_source_of (sample_p2pk_tx (replicate 64 0))) 0 SigAll"

lemma sample_p2pk_arrays: "length sig = 64 \<Longrightarrow> tx_arrays (sample_p2pk_tx sig)"
  by (simp add: tx_arrays_def sample_p2pk_tx_def input_arrays_def sample_p2pk_input_def input_empty_def spk_array_def
      spk_new_def copy_at_def p2pk_script_def sample_key_def MAX_SIGS_PER_INPUT_def input_sig_empty_def
      SUBNETWORK_ID_NATIVE_def MAX_SCRIPT_SIZE_def)

lemma sample_p2pk_script:
  "script_bytes (tu_script_public_key (ti_utxo_entry (sample_p2pk_input sig))) = p2pk_script (sample_key 9)"
  by (simp add: script_bytes_def sample_p2pk_input_def copy_at_def p2pk_script_def sample_key_def)

lemma sample_p2pk_range:
  "get_range (spk_script (tu_script_public_key (ti_utxo_entry (sample_p2pk_input sig)))) 0
     (spk_script_len (tu_script_public_key (ti_utxo_entry (sample_p2pk_input sig)))) = Some (p2pk_script (sample_key 9))"
  using sample_p2pk_script [of sig]
  by (simp add: get_range_def script_bytes_def sample_p2pk_input_def copy_at_def p2pk_script_def sample_key_def spk_new_def
      MAX_SCRIPT_SIZE_def)

lemma sample_p2pk_analysis: "analyze_input_script (sample_p2pk_tx sig) 0 = (P2PK, None)"
proof -
  have "is_p2pk_script (p2pk_script (sample_key 9)) (length (p2pk_script (sample_key 9)))"
    unfolding is_p2pk_script_iff by (intro exI [of _ "sample_key 9"]) (simp add: sample_key_def)
  then show ?thesis
    by (simp add: analyze_input_script_def try_analyze_input_script_def sample_p2pk_tx_def sample_p2pk_range
        detect_script_type_def multisig_of_def Let_def)
qed

lemma sample_sighash:
  "calculate_sighash sample_keyed (sighash_source_of (sample_p2pk_tx sig)) 0 SigAll =
   calculate_sighash sample_keyed (sighash_source_of (sample_p2pk_tx sig')) 0 SigAll"
  by (simp add: sighash_source_of_def sample_p2pk_tx_def tx_inputs_def tx_outputs_def sample_p2pk_input_def
      tx_sighash_input_def calculate_sighash_def sighash_preimage_def previous_outputs_hash_def sequences_hash_def
      sig_op_counts_hash_def outputs_hash_def payload_hash_def)

lemma sample_signed_iff:
  "input_signed sample_keyed sample_schnorr (sample_p2pk_tx sig) 0 1 \<longleftrightarrow> sig = sample_signature"
proof -
  have "expected_xonly_for_position (sample_p2pk_tx sig) 0 0 = Ok (sample_key 9)"
    using sample_p2pk_range [of sig] sample_p2pk_analysis [of sig]
    by (simp add: expected_xonly_for_position_def p2pk_xonly_for_position_def sample_p2pk_tx_def get_at_def p2pk_xonly_def
        p2pk_script_def sample_key_def butlast_append)
  then have "signature_valid sample_keyed sample_schnorr (sample_p2pk_tx sig) 0 0 sig \<longleftrightarrow> sig = sample_signature"
    using sample_sighash [of sig "replicate 64 0"]
    by (simp add: signature_valid_def sample_p2pk_analysis sample_schnorr_def sample_signature_def)
  moreover have "ti_sigs (tx_input_slots (sample_p2pk_tx sig) ! 0)
      = input_sig_empty\<lparr>is_signature := sig, is_sighash_type := 1, is_present := True\<rparr>
        # replicate (MAX_SIGS_PER_INPUT - 1) input_sig_empty"
    and "ti_sig_count (tx_input_slots (sample_p2pk_tx sig) ! 0) = 1"
    by (simp_all add: sample_p2pk_tx_def sample_p2pk_input_def)
  ultimately show ?thesis
    by (simp add: input_signed_def input_sig_empty_def MAX_SIGS_PER_INPUT_def list_all_iff)
qed

theorem kspt_fully_signed_exact_witness:
  "kspt_is_fully_signed sample_keyed sample_schnorr (sample_p2pk_tx sample_signature)
   \<and> \<not> kspt_is_fully_signed sample_keyed sample_schnorr (sample_p2pk_tx (replicate 64 0))"
proof -
  have "length (calculate_sighash sample_keyed tx 0 SigAll) = 32" for tx
    by (simp add: calculate_sighash_def sample_keyed_length)
  then have len: "length sample_signature = 64" by (simp add: sample_signature_def sample_key_def)
  have "required_for_input (sample_p2pk_tx sig) 0 = Some 1" for sig
    by (simp add: required_for_input_def sample_p2pk_analysis)
  then have "kspt_is_fully_signed sample_keyed sample_schnorr (sample_p2pk_tx sig) \<longleftrightarrow> sig = sample_signature"
    if "length sig = 64" for sig
    using kspt_fully_signed_exact [OF sample_p2pk_arrays [OF that], of sample_keyed sample_schnorr] sample_signed_iff [of sig]
    by (simp add: sample_p2pk_tx_def)
  moreover have "replicate 64 0 \<noteq> sample_signature"
    by (rule notI, drule arg_cong [of _ _ hd]) (simp add: sample_signature_def sample_key_def hd_append)
  ultimately show ?thesis using len by simp
qed

section \<open>The status of a transaction\<close>

lemma required_positive: "required_for_input tx i = Some n \<Longrightarrow> 0 < unat n"
proof -
  have multi: "0 < unat (mi_m info)" if "multisig_of t s = Some info" for t s info
    using that multisig_parse_Some
    by (fastforce simp: multisig_of_def parse_multisig_script_def signer_multisig_def multisig_valid_def Let_def
        bind_eq_Some_conv word_gt_0 unat_gt_0 split: if_splits)
  have info: "0 < unat (mi_m info)" if "analyze_input_script tx i = (t, Some info)" for t info
    using that multi
    by (auto simp: analyze_input_script_def try_analyze_input_script_def Let_def bind_eq_Some_conv
        split: option.splits if_splits sum.splits)
  show "required_for_input tx i = Some n \<Longrightarrow> 0 < unat n"
    using info
    by (auto simp: required_for_input_def covenant_required_for_execution_def bind_eq_Some_conv word_less_nat_alt
        split: prod.splits script_type.splits option.splits sum.splits if_splits)
qed

definition required_of :: "transaction \<Rightarrow> nat \<Rightarrow> nat" where
  "required_of tx i = (case required_for_input tx i of None \<Rightarrow> 1 | Some n \<Rightarrow> unat n)"

definition present_of ::
  "(bytes \<Rightarrow> bytes \<Rightarrow> bytes) \<Rightarrow> (bytes \<Rightarrow> bytes \<Rightarrow> bytes \<Rightarrow> bool) \<Rightarrow> transaction \<Rightarrow> signature_source \<Rightarrow> nat \<Rightarrow> nat" where
  "present_of keyed schnorr_verify tx source i =
     (case (required_for_input tx i, verified_count keyed schnorr_verify tx i source) of
        (Some n, Ok v) \<Rightarrow> if v \<le> n then unat v else 0 | _ \<Rightarrow> 0)"

lemma required_of_bounds: "0 < required_of tx i" "required_of tx i \<le> 255"
  using required_positive [of tx i] unat_u8_less by (auto simp: required_of_def less_Suc_eq_le [symmetric] split: option.split)

lemma present_le_required: "present_of keyed schnorr_verify tx source i \<le> required_of tx i"
  by (auto simp: present_of_def required_of_def word_le_nat_alt split: option.split sum.split)

lemma present_eq_required:
  "present_of keyed schnorr_verify tx source i = required_of tx i \<longleftrightarrow>
     (\<exists>n. required_for_input tx i = Some n \<and> verified_count keyed schnorr_verify tx i source = Ok n)"
  using required_positive [of tx i]
  by (cases "required_for_input tx i"; cases "verified_count keyed schnorr_verify tx i source")
    (auto simp: present_of_def required_of_def word_le_nat_alt intro: word_unat_eq_iff [THEN iffD2])

lemma status_fold:
  assumes "unat p + 255 * length is < 2 ^ 32" "unat r + 255 * length is < 2 ^ 32"
  shows "foldl (status_step keyed schnorr_verify tx source) (p, r) is =
    (word_of_nat (unat p + sum_list (map (present_of keyed schnorr_verify tx source) is)),
     word_of_nat (unat r + sum_list (map (required_of tx) is)))"
  using assms
proof (induction "is" arbitrary: p r)
  case Nil
  then show ?case by simp
next
  case (Cons i "is")
  let ?p = "saturating_add p (word_of_nat (present_of keyed schnorr_verify tx source i))"
  let ?r = "saturating_add r (word_of_nat (required_of tx i))"
  have bounds: "present_of keyed schnorr_verify tx source i \<le> 255" "required_of tx i \<le> 255"
    using present_le_required [of keyed schnorr_verify tx source i] required_of_bounds(2) [of tx i] by simp_all
  have u: "unat ?p = unat p + present_of keyed schnorr_verify tx source i" "unat ?r = unat r + required_of tx i"
    using Cons.prems bounds by (simp_all add: unat_saturating_add)
  have zero: "saturating_add p 0 = p"
    using unat_bound [of p] by (simp add: saturating_add_def)
  have "status_step keyed schnorr_verify tx source (p, r) i = (?p, ?r)"
    by (auto simp: status_step_def present_of_def required_of_def zero of_nat_unat Let_def
        split: option.split sum.split)
  then show ?case using Cons.IH [of ?p ?r] Cons.prems bounds u by (simp add: add.assoc)
qed

text \<open>The displayed status agrees with the completion check: a transaction counts as fully signed exactly when its
  status shows as many valid signatures as required ones, and at least one.\<close>

theorem kspt_status_complete:
  assumes "255 * tx_num_inputs tx < 2 ^ 32"
  shows "kspt_is_fully_signed keyed schnorr_verify tx \<longleftrightarrow> (\<exists>n. 0 < n \<and> kspt_status keyed schnorr_verify tx = (n, n))"
proof (cases "tx_num_inputs tx = 0 \<or> tx_num_inputs tx > length (tx_input_slots tx)")
  case True
  then show ?thesis by (auto simp: kspt_is_fully_signed_def kspt_status_def signature_status_def)
next
  case False
  let ?is = "[0..<tx_num_inputs tx]"
  let ?p = "present_of keyed schnorr_verify tx SourceKspt" and ?r = "required_of tx"
  have le: "sum_list (map ?p ?is) \<le> sum_list (map ?r ?is)"
    by (intro sum_list_mono present_le_required)
  have small: "sum_list (map ?r ?is) \<le> 255 * tx_num_inputs tx"
    using sum_list_mono [of ?is ?r "\<lambda>_. 255"] required_of_bounds(2) by (simp add: sum_list_triv mult.commute)
  have pos: "0 < sum_list (map ?r ?is)"
    using False required_of_bounds(1) [of tx 0] by (simp add: upt_conv_Cons)
  have "kspt_status keyed schnorr_verify tx = (word_of_nat (sum_list (map ?p ?is)), word_of_nat (sum_list (map ?r ?is)))"
    using False assms status_fold [of 0 ?is 0] by (simp add: kspt_status_def signature_status_def)
  then have "(\<exists>n. 0 < n \<and> kspt_status keyed schnorr_verify tx = (n, n)) \<longleftrightarrow> 0 < (word_of_nat (sum_list (map ?r ?is)) :: u32)
      \<and> (word_of_nat (sum_list (map ?p ?is)) :: u32) = word_of_nat (sum_list (map ?r ?is))" by auto
  also have "\<dots> \<longleftrightarrow> sum_list (map ?p ?is) = sum_list (map ?r ?is)"
    using le small pos assms by (auto simp: word_unat_eq_iff word_less_nat_alt)
  also have "\<dots> \<longleftrightarrow> (\<forall>i<tx_num_inputs tx. ?p i = ?r i)"
    using present_le_required [of keyed schnorr_verify tx SourceKspt]
    by (auto simp: interv_sum_list_conv_sum_set_nat intro: sum_mono_inv [of ?p "{0..<tx_num_inputs tx}" ?r])
  also have "\<dots> \<longleftrightarrow> kspt_is_fully_signed keyed schnorr_verify tx"
    using False by (simp add: present_eq_required kspt_is_fully_signed_iff)
  finally show ?thesis by simp
qed

theorem kspt_status_complete_witness:
  "kspt_is_fully_signed sample_keyed sample_schnorr (sample_p2pk_tx []) \<longleftrightarrow>
     (\<exists>n. 0 < n \<and> kspt_status sample_keyed sample_schnorr (sample_p2pk_tx []) = (n, n))"
  by (rule kspt_status_complete) (simp add: sample_p2pk_tx_def)

end
