(* ===== verification/Kspt_Codec.thy ===== *)
theory Kspt_Codec
  imports Wire_Roundtrip Sig_Verify
begin

text \<open>
  The transaction model on the wire (\<open>transaction/interchange/kspt/codec\<close>): \<open>TransactionSource\<close>, the view the encoder
  reads; \<open>TransactionSink\<close>, which fills a transaction from the decoder's calls under the policy that every signature is of
  type \<open>All\<close>; and serializing and parsing, with validation and the check of the completion flag against the signatures
  themselves. Indexing of a slot is within range by the grammar and the reserved slots.

  The lemmas compute the transaction a run of the sink leaves (\<open>filled_tx\<close>), slot by slot and with the layout of the redeem
  pool, and show that it describes the same envelope; they rest on the round trip of the grammar.
\<close>

section \<open>The source\<close>

fun network_code :: "kaspa_network \<Rightarrow> u8" where
  "network_code KUnknown = 0"
| "network_code KMainnet = 1"
| "network_code KTestnet = 2"
| "network_code KDevnet = 3"
| "network_code KSimnet = 4"

definition source_ms45 :: "ms45_hint \<Rightarrow> ms45_derivation option" where
  "source_ms45 hint =
     (if \<not> mh_present hint then None
      else Some \<lparr>ms_cosigner = mh_cosigner hint, ms_chain = mh_chain hint, ms_index = mh_index hint\<rparr>)"

definition source_derivation :: "bool \<Rightarrow> u8 \<Rightarrow> u32 \<Rightarrow> derivation option" where
  "source_derivation present branch index =
     (if \<not> present then None else Some \<lparr>dv_branch = branch, dv_index = index\<rparr>)"

definition source_global ::
  "(bytes \<Rightarrow> bytes \<Rightarrow> bytes) \<Rightarrow> (bytes \<Rightarrow> bytes \<Rightarrow> bytes \<Rightarrow> bool) \<Rightarrow> transaction \<Rightarrow> global" where
  "source_global keyed schnorr_verify tx =
     \<lparr>g_flags = (if kspt_is_fully_signed keyed schnorr_verify tx then FLAG_SIGNED_OR_COMPLETE else 0),
      g_version = tx_version tx, g_input_count = word_of_nat (tx_num_inputs tx),
      g_output_count = word_of_nat (tx_num_outputs tx), g_locktime = tx_locktime tx,
      g_subnetwork_id = tx_subnetwork_id tx, g_gas = tx_gas tx, g_payload = tx_payload tx\<rparr>"

definition source_input :: "transaction_input \<Rightarrow> wire_input" where
  "source_input inp =
     \<lparr>wi_previous_tx_id = op_transaction_id (ti_previous_outpoint inp), wi_previous_index = op_index (ti_previous_outpoint inp),
      wi_amount = tu_amount (ti_utxo_entry inp), wi_sequence = ti_sequence inp, wi_sig_op_count = ti_sig_op_count inp,
      wi_script_version = spk_version (tu_script_public_key (ti_utxo_entry inp)),
      wi_script = script_bytes (tu_script_public_key (ti_utxo_entry inp))\<rparr>"

definition source_signature :: "input_sig \<Rightarrow> signature" where
  "source_signature slot =
     \<lparr>sg_position = is_pubkey_pos slot, sg_sighash = is_sighash_type slot, sg_bytes = is_signature slot\<rparr>"

definition source_redeem :: "transaction \<Rightarrow> nat \<Rightarrow> bytes" where
  "source_redeem tx i = (case checked_redeem_bytes tx i of Ok redeem \<Rightarrow> redeem | Err _ \<Rightarrow> [])"

definition source_output :: "transaction_output \<Rightarrow> wire_output" where
  "source_output out =
     \<lparr>wo_amount = to_value out, wo_script_version = spk_version (to_script_public_key out),
      wo_script = script_bytes (to_script_public_key out)\<rparr>"

definition source_covenant :: "transaction_output \<Rightarrow> covenant option" where
  "source_covenant out =
     (if to_has_covenant out
      then Some \<lparr>cv_authorizing_input = to_covenant_auth_input out, cv_id = to_covenant_id out\<rparr> else None)"

definition source_covenant_execution :: "transaction_input \<Rightarrow> covenant_execution option" where
  "source_covenant_execution inp =
     (if ti_covenant_execution_present inp
      then Some \<lparr>ce_supplied_mask = ti_covenant_execution_mask inp,
                 ce_supplied_true_mask = ti_covenant_execution_true_mask inp\<rparr> else None)"

definition transaction_source ::
  "(bytes \<Rightarrow> bytes \<Rightarrow> bytes) \<Rightarrow> (bytes \<Rightarrow> bytes \<Rightarrow> bytes \<Rightarrow> bool) \<Rightarrow> transaction \<Rightarrow> encode_source" where
  "transaction_source keyed schnorr_verify tx =
     \<lparr>src_global = source_global keyed schnorr_verify tx,
      src_input = (\<lambda>i. source_input (tx_input_slots tx ! i)),
      src_signature_count = (\<lambda>i. unat (ti_sig_count (tx_input_slots tx ! i))),
      src_signature = (\<lambda>i k. source_signature (ti_sigs (tx_input_slots tx ! i) ! k)),
      src_redeem = source_redeem tx,
      src_output = (\<lambda>i. source_output (tx_output_slots tx ! i)),
      src_network = network_code (tx_network tx),
      src_stealth = (if tx_has_stealth_tweak tx then Some (tx_stealth_tweak tx) else None),
      src_input_derivation = (\<lambda>i. let inp = tx_input_slots tx ! i in
        source_derivation (ti_has_derivation_hint inp) (ti_derivation_branch inp) (ti_derivation_index inp)),
      src_output_derivation = (\<lambda>i. let out = tx_output_slots tx ! i in
        source_derivation (to_has_derivation_hint out) (to_derivation_branch out) (to_derivation_index out)),
      src_input_ms45 = (\<lambda>i. source_ms45 (ti_ms45_hint (tx_input_slots tx ! i))),
      src_output_ms45 = (\<lambda>i. source_ms45 (to_ms45_hint (tx_output_slots tx ! i))),
      src_covenant = (\<lambda>i. source_covenant (tx_output_slots tx ! i)),
      src_covenant_execution = (\<lambda>i. source_covenant_execution (tx_input_slots tx ! i))\<rparr>"

section \<open>The sink\<close>

definition sink_ms45_hint :: "ms45_derivation \<Rightarrow> ms45_hint" where
  "sink_ms45_hint v = \<lparr>mh_present = True, mh_cosigner = ms_cosigner v, mh_chain = ms_chain v, mh_index = ms_index v\<rparr>"

definition sink_global :: "(nat \<Rightarrow> bool) \<Rightarrow> global \<Rightarrow> transaction \<Rightarrow> (pskt_error \<times> transaction) + transaction" where
  "sink_global reserve g tx =
     (if g_input_count g = 0 then Err (PeNoInputs, tx)
      else if g_output_count g = 0 then Err (PeNoOutputs, tx)
      else let inputs = unat (g_input_count g) in
        rbind (map_err (\<lambda>(_, tx). (PeTooManyInputs, tx)) (ensure_input_slots reserve inputs tx)) (\<lambda>tx.
        map_err (\<lambda>(_, tx). (PeStorageExhausted, tx)) (set_payload reserve (g_payload g)
          (tx\<lparr>tx_num_inputs := inputs, tx_num_outputs := unat (g_output_count g), tx_version := g_version g,
              tx_locktime := g_locktime g, tx_subnetwork_id := g_subnetwork_id g, tx_gas := g_gas g\<rparr>))))"

definition store_script :: "u16 \<Rightarrow> bytes \<Rightarrow> script_public_key \<Rightarrow> script_public_key" where
  "store_script version script spk =
     spk\<lparr>spk_version := version, spk_script_len := length script, spk_script := copy_at 0 script (spk_script spk)\<rparr>"

definition sink_input :: "wire_input \<Rightarrow> u8 \<Rightarrow> transaction_input \<Rightarrow> transaction_input" where
  "sink_input v signature_count inp =
     inp\<lparr>ti_previous_outpoint := \<lparr>op_transaction_id = wi_previous_tx_id v, op_index = wi_previous_index v\<rparr>,
         ti_utxo_entry := (ti_utxo_entry inp)\<lparr>tu_amount := wi_amount v,
            tu_script_public_key := store_script (wi_script_version v) (wi_script v)
              (tu_script_public_key (ti_utxo_entry inp))\<rparr>,
         ti_sequence := wi_sequence v, ti_sig_op_count := wi_sig_op_count v, ti_sig_count := signature_count,
         ti_sighash_type := sighash_to_byte SigAll\<rparr>"

definition sink_signature :: "nat \<Rightarrow> nat \<Rightarrow> signature \<Rightarrow> transaction \<Rightarrow> (pskt_error \<times> transaction) + transaction" where
  "sink_signature i slot v tx =
     (if sg_sighash v \<noteq> sighash_to_byte SigAll then Err (PeInvalidSigHashType, tx)
      else Ok (upd_input i (\<lambda>inp. inp\<lparr>ti_sigs := (ti_sigs inp)[slot := (ti_sigs inp ! slot)
                 \<lparr>is_pubkey_pos := sg_position v, is_sighash_type := sg_sighash v, is_signature := sg_bytes v,
                  is_present := True\<rparr>]\<rparr>) tx))"

definition sink_redeem :: "nat \<Rightarrow> bytes \<Rightarrow> transaction \<Rightarrow> (pskt_error \<times> transaction) + transaction" where
  "sink_redeem i v tx =
     (if v = [] then Ok tx else map_err (\<lambda>(_, tx). (PeScriptTooLong, tx)) (store_redeem i v tx))"

definition sink_output :: "wire_output \<Rightarrow> transaction_output \<Rightarrow> transaction_output" where
  "sink_output v out =
     out\<lparr>to_value := wo_amount v,
         to_script_public_key := store_script (wo_script_version v) (wo_script v) (to_script_public_key out)\<rparr>"

definition sink_network :: "u8 \<Rightarrow> transaction \<Rightarrow> (pskt_error \<times> transaction) + transaction" where
  "sink_network code tx =
     (case from_wire code of None \<Rightarrow> Err (PeInvalidTrailer, tx) | Some network \<Rightarrow> Ok (tx\<lparr>tx_network := network\<rparr>))"

definition sink_stealth :: "bytes \<Rightarrow> transaction \<Rightarrow> transaction" where
  "sink_stealth tweak tx = tx\<lparr>tx_stealth_tweak := tweak, tx_has_stealth_tweak := True\<rparr>"

definition sink_input_derivation :: "derivation \<Rightarrow> transaction_input \<Rightarrow> transaction_input" where
  "sink_input_derivation v inp =
     inp\<lparr>ti_has_derivation_hint := True, ti_derivation_branch := dv_branch v, ti_derivation_index := dv_index v\<rparr>"

definition sink_output_derivation :: "derivation \<Rightarrow> transaction_output \<Rightarrow> transaction_output" where
  "sink_output_derivation v out =
     out\<lparr>to_has_derivation_hint := True, to_derivation_branch := dv_branch v, to_derivation_index := dv_index v\<rparr>"

definition sink_covenant :: "u16 \<Rightarrow> bytes \<Rightarrow> transaction_output \<Rightarrow> transaction_output" where
  "sink_covenant authorizing_input covenant_id out =
     out\<lparr>to_has_covenant := True, to_covenant_auth_input := authorizing_input, to_covenant_id := covenant_id\<rparr>"

definition sink_covenant_execution :: "covenant_execution \<Rightarrow> transaction_input \<Rightarrow> transaction_input" where
  "sink_covenant_execution v inp =
     inp\<lparr>ti_covenant_execution_present := True, ti_covenant_execution_mask := ce_supplied_mask v,
         ti_covenant_execution_true_mask := ce_supplied_true_mask v\<rparr>"

fun transaction_sink :: "(nat \<Rightarrow> bool) \<Rightarrow> (transaction, pskt_error) decode_sink" where
  "transaction_sink reserve (CallGlobal g) tx = sink_global reserve g tx"
| "transaction_sink reserve (CallInput i v n) tx = Ok (upd_input i (sink_input v n) tx)"
| "transaction_sink reserve (CallSignature i slot v) tx = sink_signature i slot v tx"
| "transaction_sink reserve (CallRedeem i v) tx = sink_redeem i v tx"
| "transaction_sink reserve (CallOutput i v) tx = Ok (upd_output i (sink_output v) tx)"
| "transaction_sink reserve (CallNetwork code) tx = sink_network code tx"
| "transaction_sink reserve (CallStealth tweak) tx = Ok (sink_stealth tweak tx)"
| "transaction_sink reserve (CallInputDerivation i v) tx = Ok (upd_input (unat i) (sink_input_derivation v) tx)"
| "transaction_sink reserve (CallOutputDerivation i v) tx = Ok (upd_output (unat i) (sink_output_derivation v) tx)"
| "transaction_sink reserve (CallInputMs45 i v) tx =
     Ok (upd_input (unat i) (\<lambda>inp. inp\<lparr>ti_ms45_hint := sink_ms45_hint v\<rparr>) tx)"
| "transaction_sink reserve (CallOutputMs45 i v) tx =
     Ok (upd_output (unat i) (\<lambda>out. out\<lparr>to_ms45_hint := sink_ms45_hint v\<rparr>) tx)"
| "transaction_sink reserve (CallCovenant i a covenant_id) tx = Ok (upd_output (unat i) (sink_covenant a covenant_id) tx)"
| "transaction_sink reserve (CallCovenantExecution i v) tx = Ok (upd_input (unat i) (sink_covenant_execution v) tx)"

section \<open>Serializing and parsing\<close>

definition grammar_limits :: "transaction \<Rightarrow> limits" where
  "grammar_limits tx =
     \<lparr>lim_max_inputs = (case u32_try_from (tl_max_inputs (tx_limits tx)) of Some n \<Rightarrow> n | None \<Rightarrow> - 1),
      lim_max_outputs = word_of_nat MAX_OUTPUTS, lim_max_payload = tl_max_payload_bytes (tx_limits tx)\<rparr>"

definition encode_error :: "wire_error \<Rightarrow> pskt_error" where
  "encode_error e = (if e \<in> {InvalidNetwork, InvalidTrailer, CountOverflow} then PeInvalidModel else pskt_of_wire e)"

definition serialize_compact_kspt ::
  "(bytes \<Rightarrow> bytes \<Rightarrow> bytes) \<Rightarrow> (bytes \<Rightarrow> bytes \<Rightarrow> bytes \<Rightarrow> bool) \<Rightarrow> transaction \<Rightarrow> bytes \<Rightarrow> pskt_error + nat \<times> bytes" where
  "serialize_compact_kspt keyed schnorr_verify tx out =
     rbind (validate_partial_signed tx) (\<lambda>_.
     map_err encode_error (encode (transaction_source keyed schnorr_verify tx) out (grammar_limits tx)))"

fun parse_error :: "pskt_error decode_error \<Rightarrow> pskt_error" where
  "parse_error (Wire e) = pskt_of_wire e"
| "parse_error (Sink e) = e"

definition parse_compact_kspt ::
  "(nat \<Rightarrow> bool) \<Rightarrow> (bytes \<Rightarrow> bytes \<Rightarrow> bytes) \<Rightarrow> (bytes \<Rightarrow> bytes \<Rightarrow> bytes \<Rightarrow> bool) \<Rightarrow> bytes \<Rightarrow> transaction
     \<Rightarrow> (pskt_error + unit) \<times> transaction" where
  "parse_compact_kspt reserve keyed schnorr_verify data tx =
     (let tx = tx_clear tx in
      case decode (transaction_sink reserve) data (grammar_limits tx) tx of
        Err (e, tx) \<Rightarrow> (Err (parse_error e), tx)
      | Ok (flags, tx) \<Rightarrow>
          if (flags AND FLAG_SIGNED_OR_COMPLETE \<noteq> 0) \<noteq> kspt_is_fully_signed keyed schnorr_verify tx
          then (Err PeInvalidSignatureState, tx)
          else (validate_partial_signed tx, tx))"

definition decode_compact_kspt ::
  "(nat \<Rightarrow> bool) \<Rightarrow> (bytes \<Rightarrow> bytes \<Rightarrow> bytes) \<Rightarrow> (bytes \<Rightarrow> bytes \<Rightarrow> bytes \<Rightarrow> bool) \<Rightarrow> bytes \<Rightarrow> pskt_error + transaction" where
  "decode_compact_kspt reserve keyed schnorr_verify data =
     rbind (map_err (\<lambda>_. PeStorageExhausted) (try_new reserve)) (\<lambda>tx.
     case parse_compact_kspt reserve keyed schnorr_verify data tx of (r, tx) \<Rightarrow> rbind r (\<lambda>_. Ok tx))"

text \<open>The recursion has no bound of its own; \<open>fuel\<close> counts it and \<open>None\<close> is "still running".\<close>

fun serialize_compact_vec_with_capacity ::
  "nat \<Rightarrow> (bytes \<Rightarrow> bytes \<Rightarrow> bytes) \<Rightarrow> (bytes \<Rightarrow> bytes \<Rightarrow> bytes \<Rightarrow> bool) \<Rightarrow> transaction \<Rightarrow> nat \<Rightarrow> (pskt_error + bytes) option" where
  "serialize_compact_vec_with_capacity 0 keyed schnorr_verify tx capacity = None"
| "serialize_compact_vec_with_capacity (Suc fuel) keyed schnorr_verify tx capacity =
     (case serialize_compact_kspt keyed schnorr_verify tx (replicate capacity 0) of
        Ok (len, out) \<Rightarrow> Some (Ok (take len out))
      | Err e \<Rightarrow>
          if e \<noteq> PeOutputBufferTooSmall then Some (Err e)
          else if capacity * 2 > usize_max then Some (Err PeOutputBufferTooSmall)
          else serialize_compact_vec_with_capacity fuel keyed schnorr_verify tx (capacity * 2))"

definition compact_vec_capacity :: "transaction \<Rightarrow> nat" where
  "compact_vec_capacity tx =
     (let sat_add = (\<lambda>a b. min (a + b) usize_max); sat_mul = (\<lambda>a b. min (a * b) usize_max) in
      sat_add (sat_add (sat_add (sat_add 1024 (sat_mul (tx_num_inputs tx) 192)) (sat_mul (tx_num_outputs tx) 640))
        (length (tx_payload tx))) (tx_redeem_pool_used tx))"

definition serialize_compact_kspt_vec ::
  "(bytes \<Rightarrow> bytes \<Rightarrow> bytes) \<Rightarrow> (bytes \<Rightarrow> bytes \<Rightarrow> bytes \<Rightarrow> bool) \<Rightarrow> transaction \<Rightarrow> (pskt_error + bytes) option" where
  "serialize_compact_kspt_vec keyed schnorr_verify tx =
     serialize_compact_vec_with_capacity 64 keyed schnorr_verify tx (compact_vec_capacity tx)"

section \<open>The transaction a run of the sink leaves\<close>

definition upd_list :: "nat \<Rightarrow> (nat \<Rightarrow> 'a \<Rightarrow> 'a) \<Rightarrow> 'a list \<Rightarrow> 'a list" where
  "upd_list n F xs = map (\<lambda>i. F i (xs ! i)) [0..<n] @ drop n xs"

definition upd_inputs :: "nat \<Rightarrow> (nat \<Rightarrow> transaction_input \<Rightarrow> transaction_input) \<Rightarrow> transaction \<Rightarrow> transaction" where
  "upd_inputs n F tx = tx\<lparr>tx_input_slots := upd_list n F (tx_input_slots tx)\<rparr>"

definition upd_outputs :: "nat \<Rightarrow> (nat \<Rightarrow> transaction_output \<Rightarrow> transaction_output) \<Rightarrow> transaction \<Rightarrow> transaction" where
  "upd_outputs n F tx = tx\<lparr>tx_output_slots := upd_list n F (tx_output_slots tx)\<rparr>"

lemma upd_list_0 [simp]: "upd_list 0 F xs = xs"
  by (simp add: upd_list_def)

lemma length_upd_list [simp]: "n \<le> length xs \<Longrightarrow> length (upd_list n F xs) = length xs"
  by (simp add: upd_list_def)

lemma upd_list_nth: "n \<le> length xs \<Longrightarrow> i < length xs \<Longrightarrow> upd_list n F xs ! i = (if i < n then F i (xs ! i) else xs ! i)"
  by (auto simp: upd_list_def nth_append)

lemma upd_list_Suc:
  "n < length xs \<Longrightarrow> upd_list (Suc n) F xs = (upd_list n F xs)[n := F n (upd_list n F xs ! n)]"
  by (auto simp: list_eq_iff_nth_eq upd_list_nth nth_list_update less_Suc_eq)

lemma upd_list_twice: "n \<le> length xs \<Longrightarrow> upd_list n F (upd_list n G xs) = upd_list n (\<lambda>i x. F i (G i x)) xs"
  by (auto simp: list_eq_iff_nth_eq upd_list_nth)

lemma upd_inputs_Suc: "n < length (tx_input_slots tx) \<Longrightarrow> upd_inputs (Suc n) F tx = upd_input n (F n) (upd_inputs n F tx)"
  by (simp add: upd_inputs_def upd_input_def upd_list_Suc)

lemma upd_outputs_Suc: "n < length (tx_output_slots tx) \<Longrightarrow> upd_outputs (Suc n) F tx = upd_output n (F n) (upd_outputs n F tx)"
  by (simp add: upd_outputs_def upd_output_def upd_list_Suc)

lemma upd_inputs_0 [simp]: "upd_inputs 0 F tx = tx"
  by (simp add: upd_inputs_def)

lemma upd_outputs_0 [simp]: "upd_outputs 0 F tx = tx"
  by (simp add: upd_outputs_def)

lemma length_upd_slots [simp]:
  "n \<le> length (tx_input_slots tx) \<Longrightarrow> length (tx_input_slots (upd_inputs n F tx)) = length (tx_input_slots tx)"
  "n \<le> length (tx_output_slots tx) \<Longrightarrow> length (tx_output_slots (upd_outputs n G tx)) = length (tx_output_slots tx)"
  "length (tx_input_slots (upd_input i f tx)) = length (tx_input_slots tx)"
  "length (tx_output_slots (upd_output i g tx)) = length (tx_output_slots tx)"
  by (simp_all add: upd_inputs_def upd_outputs_def upd_input_def upd_output_def)

lemma pool_upd [simp]:
  "tx_redeem_pool (upd_inputs n F tx) = tx_redeem_pool tx" "tx_redeem_pool (upd_input i f tx) = tx_redeem_pool tx"
  by (simp_all add: upd_inputs_def upd_input_def)

lemma upd_input_twice: "i < length (tx_input_slots tx) \<Longrightarrow> upd_input i f (upd_input i g tx) = upd_input i (\<lambda>inp. f (g inp)) tx"
  by (simp add: upd_input_def)

text \<open>A trailer group updates the slots that have a record.\<close>

definition on_present :: "('v \<Rightarrow> 'a \<Rightarrow> 'a) \<Rightarrow> (nat \<Rightarrow> 'v option) \<Rightarrow> nat \<Rightarrow> 'a \<Rightarrow> 'a" where
  "on_present f get i = (case get i of None \<Rightarrow> id | Some v \<Rightarrow> f v)"

lemma group_calls_snoc:
  "group_calls call get (ixs @ [n]) = group_calls call get ixs
     @ (case get n of None \<Rightarrow> [] | Some v \<Rightarrow> [call (word_of_nat n) v])"
  by (simp add: group_calls_def)

lemma run_group_inputs:
  assumes "\<And>q v tx. sink (call q v) tx = Ok (upd_input (unat q) (f v) tx)"
    and "\<And>i. i < n \<Longrightarrow> get i \<noteq> None \<Longrightarrow> i < 256" and "n \<le> length (tx_input_slots tx)"
  shows "run_calls sink (group_calls call get [0..<n]) tx = Ok (upd_inputs n (on_present f get) tx)"
  using assms(2,3)
proof (induction n)
  case 0
  then show ?case by (simp add: group_calls_def)
next
  case (Suc n)
  have "upd_input n id (upd_inputs n F tx) = upd_inputs n F tx" for F by (simp add: upd_input_def)
  then show ?case
    using Suc assms(1) by (cases "get n") (simp_all add: group_calls_snoc run_calls_append upd_inputs_Suc on_present_def)
qed

lemma run_group_outputs:
  assumes "\<And>q v tx. sink (call q v) tx = Ok (upd_output (unat q) (f v) tx)"
    and "\<And>i. i < n \<Longrightarrow> get i \<noteq> None \<Longrightarrow> i < 256" and "n \<le> length (tx_output_slots tx)"
  shows "run_calls sink (group_calls call get [0..<n]) tx = Ok (upd_outputs n (on_present f get) tx)"
  using assms(2,3)
proof (induction n)
  case 0
  then show ?case by (simp add: group_calls_def)
next
  case (Suc n)
  have "upd_output n id (upd_outputs n F tx) = upd_outputs n F tx" for F by (simp add: upd_output_def)
  then show ?case
    using Suc assms(1) by (cases "get n") (simp_all add: group_calls_snoc run_calls_append upd_outputs_Suc on_present_def)
qed

lemma run_outputs:
  assumes "n \<le> length (tx_output_slots tx)"
  shows "run_calls (transaction_sink reserve) (map (\<lambda>i. CallOutput i (v i)) [0..<n]) tx =
    Ok (upd_outputs n (\<lambda>i. sink_output (v i)) tx)"
  using assms by (induction n) (simp_all add: run_calls_append upd_outputs_Suc)

text \<open>The signatures of an input.\<close>

definition stored_signature :: "signature \<Rightarrow> input_sig \<Rightarrow> input_sig" where
  "stored_signature v slot =
     slot\<lparr>is_pubkey_pos := sg_position v, is_sighash_type := sg_sighash v, is_signature := sg_bytes v, is_present := True\<rparr>"

definition stored_signatures :: "(nat \<Rightarrow> signature) \<Rightarrow> nat \<Rightarrow> transaction_input \<Rightarrow> transaction_input" where
  "stored_signatures sg n inp =
     inp\<lparr>ti_sigs := upd_list n (\<lambda>k. stored_signature (sg k)) (ti_sigs inp)\<rparr>"

lemma run_signatures:
  assumes "i < length (tx_input_slots tx)" "n \<le> length (ti_sigs (tx_input_slots tx ! i))" "\<And>k. k < n \<Longrightarrow> sg_sighash (sg k) = 1"
  shows "run_calls (transaction_sink reserve) (map (\<lambda>k. CallSignature i k (sg k)) [0..<n]) tx =
    Ok (upd_input i (stored_signatures sg n) tx)"
  using assms(2,3)
proof (induction n)
  case 0
  then show ?case by (simp add: stored_signatures_def upd_input_def)
next
  case (Suc n)
  have "sink_signature i n (sg n) (upd_input i (stored_signatures sg n) tx) = Ok (upd_input i (stored_signatures sg (Suc n)) tx)"
    using Suc.prems assms(1)
    by (simp add: sink_signature_def upd_input_def stored_signatures_def stored_signature_def upd_list_Suc)
  then show ?case using Suc by (simp add: run_calls_append)
qed

text \<open>Long redeem scripts follow each other in the pool, in the order of the inputs.\<close>

definition pooled :: "encode_source \<Rightarrow> nat \<Rightarrow> bytes" where
  "pooled src i = (if length (src_redeem src i) > MAX_SCRIPT_SIZE then src_redeem src i else [])"

definition pool_prefix :: "encode_source \<Rightarrow> nat \<Rightarrow> bytes" where
  "pool_prefix src n = concat (map (pooled src) [0..<n])"

definition set_pool :: "encode_source \<Rightarrow> nat \<Rightarrow> transaction \<Rightarrow> transaction" where
  "set_pool src n tx =
     tx\<lparr>tx_redeem_pool := pool_prefix src n @ drop (length (pool_prefix src n)) (tx_redeem_pool tx),
        tx_redeem_pool_used := length (pool_prefix src n)\<rparr>"

definition stored_redeem :: "encode_source \<Rightarrow> nat \<Rightarrow> transaction_input \<Rightarrow> transaction_input" where
  "stored_redeem src i inp =
     (let redeem = src_redeem src i in
      if redeem = [] then inp
      else if length redeem \<le> MAX_SCRIPT_SIZE
      then inp\<lparr>ti_redeem_script := copy_at 0 redeem (ti_redeem_script inp), ti_redeem_script_len := length redeem,
               ti_redeem_in_pool := False\<rparr>
      else inp\<lparr>ti_redeem_script_offset := word_of_nat (length (pool_prefix src i)), ti_redeem_script_len := length redeem,
               ti_redeem_in_pool := True\<rparr>)"

definition stored_input :: "encode_source \<Rightarrow> nat \<Rightarrow> transaction_input \<Rightarrow> transaction_input" where
  "stored_input src i inp =
     stored_redeem src i (stored_signatures (src_signature src i) (src_signature_count src i)
       (sink_input (src_input src i) (word_of_nat (src_signature_count src i)) inp))"

lemma pool_prefix_Suc: "pool_prefix src (Suc n) = pool_prefix src n @ pooled src n"
  by (simp add: pool_prefix_def)

lemma pool_prefix_mono: "m \<le> n \<Longrightarrow> length (pool_prefix src m) \<le> length (pool_prefix src n)"
  by (induction n) (auto simp: pool_prefix_Suc le_Suc_eq)

lemma set_pool_upd: "upd_input i f (set_pool src n tx) = set_pool src n (upd_input i f tx)"
  by (simp add: upd_input_def set_pool_def)

lemma run_redeem:
  assumes "length (src_redeem src n) \<le> MAX_REDEEM_SIZE" "length (pool_prefix src (Suc n)) \<le> REDEEM_POOL_SIZE"
    and "length (tx_redeem_pool tx) = REDEEM_POOL_SIZE"
  shows "sink_redeem n (src_redeem src n) (set_pool src n tx) = Ok (set_pool src (Suc n) (upd_input n (stored_redeem src n) tx))"
proof -
  have same: "set_pool src (Suc n) t = set_pool src n t" if "length (src_redeem src n) \<le> MAX_SCRIPT_SIZE" for t
    using that by (simp add: set_pool_def pool_prefix_Suc pooled_def)
  have "copy_at (length p) r (p @ drop (length p) xs) = p @ r @ drop (length p + length r) xs" for p r xs :: bytes
    by (simp add: copy_at_def add.commute)
  then show ?thesis
    using assms same
    by (auto simp: sink_redeem_def store_redeem_def stored_redeem_def upd_input_def set_pool_def pool_prefix_Suc pooled_def
        Let_def)
qed

definition sink_input_ok :: "encode_source \<Rightarrow> nat \<Rightarrow> bool" where
  "sink_input_ok src i \<longleftrightarrow>
     src_signature_count src i \<le> MAX_SIGS_PER_INPUT \<and> (\<forall>k < src_signature_count src i. sg_sighash (src_signature src i k) = 1)
     \<and> length (src_redeem src i) \<le> MAX_REDEEM_SIZE"

lemma run_inputs:
  assumes "n \<le> length (tx_input_slots tx)" "\<And>i. i < n \<Longrightarrow> sink_input_ok src i"
    and "length (pool_prefix src n) \<le> REDEEM_POOL_SIZE" "length (tx_redeem_pool tx) = REDEEM_POOL_SIZE" "tx_redeem_pool_used tx = 0"
    and "\<And>inp. inp \<in> set (tx_input_slots tx) \<Longrightarrow> length (ti_sigs inp) = MAX_SIGS_PER_INPUT"
  shows "run_calls (transaction_sink reserve) (concat (map (input_calls src) [0..<n])) tx =
    Ok (set_pool src n (upd_inputs n (stored_input src) tx))"
  using assms(1,2,3)
proof (induction n)
  case 0
  then show ?case by (simp add: set_pool_def pool_prefix_def assms(5))
next
  case (Suc n)
  let ?S = "upd_inputs n (stored_input src) tx"
  have slot: "tx_input_slots ?S ! n = tx_input_slots tx ! n" using Suc.prems(1) by (simp add: upd_inputs_def upd_list_nth)
  have ok: "sink_input_ok src n" and len: "n < length (tx_input_slots tx)" using Suc.prems by auto
  let ?T = "upd_input n (sink_input (src_input src n) (word_of_nat (src_signature_count src n))) ?S"
  have sigs: "length (ti_sigs (tx_input_slots (set_pool src n ?T) ! n)) = MAX_SIGS_PER_INPUT"
    using assms(6) [of "tx_input_slots tx ! n"] len slot
    by (simp add: upd_input_def set_pool_def sink_input_def upd_inputs_def)
  have "run_calls (transaction_sink reserve) (input_calls src n) (set_pool src n ?S) =
      rbind (run_calls (transaction_sink reserve) (map (\<lambda>k. CallSignature n k (src_signature src n k)) [0..<src_signature_count src n])
        (set_pool src n ?T)) (run_calls (transaction_sink reserve) [CallRedeem n (src_redeem src n)])"
    by (simp add: input_calls_def set_pool_upd run_calls_append)
  also have "\<dots> = Ok (set_pool src (Suc n) (upd_input n (stored_redeem src n)
       (upd_input n (stored_signatures (src_signature src n) (src_signature_count src n)) ?T)))"
    using ok len Suc.prems(1,3) assms(4) sigs
    by (subst run_signatures) (simp_all add: sink_input_ok_def set_pool_upd run_redeem, simp add: set_pool_def)
  also have "\<dots> = Ok (set_pool src (Suc n) (upd_inputs (Suc n) (stored_input src) tx))"
    using len Suc.prems(1) by (simp add: upd_input_twice upd_inputs_Suc stored_input_def [abs_def])
  finally show ?case
    using Suc by (simp add: run_calls_append pool_prefix_Suc)
qed

definition final_input :: "encode_source \<Rightarrow> nat \<Rightarrow> transaction_input" where
  "final_input src i =
     on_present sink_input_derivation (src_input_derivation src) i
       (on_present sink_covenant_execution (src_covenant_execution src) i
         (on_present (\<lambda>v inp. inp\<lparr>ti_ms45_hint := sink_ms45_hint v\<rparr>) (src_input_ms45 src) i
           (stored_input src i input_empty)))"

definition final_output :: "encode_source \<Rightarrow> nat \<Rightarrow> transaction_output" where
  "final_output src i =
     on_present sink_output_derivation (src_output_derivation src) i
       (on_present (\<lambda>v. sink_covenant (cv_authorizing_input v) (cv_id v)) (src_covenant src) i
         (on_present (\<lambda>v out. out\<lparr>to_ms45_hint := sink_ms45_hint v\<rparr>) (src_output_ms45 src) i
           (sink_output (src_output src i) output_empty)))"

text \<open>The result of filling a cleared transaction.\<close>

definition filled_tx :: "encode_source \<Rightarrow> transaction \<Rightarrow> transaction" where
  "filled_tx src tx =
     (let g = src_global src; n = unat (g_input_count g); m = unat (g_output_count g) in
      tx\<lparr>tx_version := g_version g,
         tx_input_slots := map (final_input src) [0..<n] @ drop n (tx_input_slots tx), tx_num_inputs := n,
         tx_output_slots := map (final_output src) [0..<m] @ drop m (tx_output_slots tx), tx_num_outputs := m,
         tx_network := (case from_wire (src_network src) of Some network \<Rightarrow> network | None \<Rightarrow> KUnknown),
         tx_locktime := g_locktime g, tx_subnetwork_id := g_subnetwork_id g, tx_gas := g_gas g, tx_payload := g_payload g,
         tx_stealth_tweak := (case src_stealth src of Some t \<Rightarrow> t | None \<Rightarrow> tx_stealth_tweak tx),
         tx_has_stealth_tweak := (src_stealth src \<noteq> None),
         tx_redeem_pool := pool_prefix src n @ drop (length (pool_prefix src n)) (tx_redeem_pool tx),
         tx_redeem_pool_used := length (pool_prefix src n)\<rparr>)"

text \<open>What the sink needs: a blank transaction with room, and a source that keeps to its policy.\<close>

definition blank_tx :: "transaction \<Rightarrow> bool" where
  "blank_tx tx \<longleftrightarrow>
     (\<forall>inp\<in>set (tx_input_slots tx). inp = input_empty) \<and> tx_output_slots tx = replicate MAX_OUTPUTS output_empty
     \<and> length (tx_redeem_pool tx) = REDEEM_POOL_SIZE \<and> tx_redeem_pool_used tx = 0 \<and> \<not> tx_has_stealth_tweak tx"

definition sink_accepts :: "encode_source \<Rightarrow> transaction \<Rightarrow> bool" where
  "sink_accepts src tx \<longleftrightarrow>
     (let g = src_global src; n = unat (g_input_count g); m = unat (g_output_count g) in
      0 < n \<and> 0 < m \<and> n \<le> tl_max_inputs (tx_limits tx) \<and> m \<le> MAX_OUTPUTS
      \<and> length (g_payload g) \<le> tl_max_payload_bytes (tx_limits tx)
      \<and> (\<forall>i<n. sink_input_ok src i) \<and> length (pool_prefix src n) \<le> REDEEM_POOL_SIZE)"

definition opened :: "global \<Rightarrow> transaction \<Rightarrow> transaction" where
  "opened g tx =
     tx\<lparr>tx_input_slots := tx_input_slots tx @ replicate (unat (g_input_count g) - length (tx_input_slots tx)) input_empty,
        tx_num_inputs := unat (g_input_count g), tx_num_outputs := unat (g_output_count g), tx_version := g_version g,
        tx_locktime := g_locktime g, tx_subnetwork_id := g_subnetwork_id g, tx_gas := g_gas g, tx_payload := g_payload g\<rparr>"

lemma run_global:
  assumes "sink_accepts src tx" "\<And>n. reserve n"
  shows "sink_global reserve (src_global src) tx = Ok (opened (src_global src) tx)"
  using assms
  by (auto simp: sink_accepts_def sink_global_def opened_def ensure_input_slots_def set_payload_def Let_def unat_gt_0)

lemma upd_frame [simp]:
  "tx_output_slots (upd_inputs n F tx) = tx_output_slots tx" "tx_input_slots (upd_outputs n G tx) = tx_input_slots tx"
  by (simp_all add: upd_inputs_def upd_outputs_def)

lemma group_ok_small: "group_ok valid get [0..<k] \<Longrightarrow> i < k \<Longrightarrow> get i = Some v \<Longrightarrow> i < 256"
  by (force simp: group_ok_def list_all_iff)

text \<open>The trailers, on a transaction whose slots are there.\<close>

lemma run_trailers:
  assumes "trailers_ok src" "unat (g_input_count (src_global src)) \<le> length (tx_input_slots tx)"
    "unat (g_output_count (src_global src)) \<le> length (tx_output_slots tx)" "from_wire (src_network src) = Some network"
  shows "run_calls (transaction_sink reserve) (trailer_calls src) tx =
    (let n = unat (g_input_count (src_global src)); m = unat (g_output_count (src_global src)) in
     Ok (upd_outputs m (on_present sink_output_derivation (src_output_derivation src))
        (upd_inputs n (on_present sink_input_derivation (src_input_derivation src))
        (upd_inputs n (on_present sink_covenant_execution (src_covenant_execution src))
        (upd_outputs m (on_present (\<lambda>v. sink_covenant (cv_authorizing_input v) (cv_id v)) (src_covenant src))
        ((case src_stealth src of None \<Rightarrow> id | Some t \<Rightarrow> sink_stealth t)
        (upd_outputs m (on_present (\<lambda>v out. out\<lparr>to_ms45_hint := sink_ms45_hint v\<rparr>) (src_output_ms45 src))
        (upd_inputs n (on_present (\<lambda>v inp. inp\<lparr>ti_ms45_hint := sink_ms45_hint v\<rparr>) (src_input_ms45 src))
        (tx\<lparr>tx_network := network\<rparr>)))))))))"
proof -
  let ?n = "unat (g_input_count (src_global src))" and ?m = "unat (g_output_count (src_global src))"
  have smalls:
    "\<And>i. i < ?n \<Longrightarrow> src_input_ms45 src i \<noteq> None \<Longrightarrow> i < 256" "\<And>i. i < ?m \<Longrightarrow> src_output_ms45 src i \<noteq> None \<Longrightarrow> i < 256"
    "\<And>i. i < ?m \<Longrightarrow> src_covenant src i \<noteq> None \<Longrightarrow> i < 256"
    "\<And>i. i < ?n \<Longrightarrow> src_covenant_execution src i \<noteq> None \<Longrightarrow> i < 256"
    "\<And>i. i < ?n \<Longrightarrow> src_input_derivation src i \<noteq> None \<Longrightarrow> i < 256"
    "\<And>i. i < ?m \<Longrightarrow> src_output_derivation src i \<noteq> None \<Longrightarrow> i < 256"
    using assms(1) by (auto simp: trailers_ok_def Let_def dest: group_ok_small)
  have stealth: "run_calls (transaction_sink reserve) (case src_stealth src of None \<Rightarrow> [] | Some t \<Rightarrow> [CallStealth t]) t
      = Ok ((case src_stealth src of None \<Rightarrow> id | Some t \<Rightarrow> sink_stealth t) t)" for t
    by (cases "src_stealth src") simp_all
  have frame [simp]: "tx_input_slots ((case src_stealth src of None \<Rightarrow> id | Some t \<Rightarrow> sink_stealth t) t) = tx_input_slots t"
    "tx_output_slots ((case src_stealth src of None \<Rightarrow> id | Some t \<Rightarrow> sink_stealth t) t) = tx_output_slots t" for t
    by (cases "src_stealth src"; simp add: sink_stealth_def)+
  note groups =
    run_group_inputs [of "transaction_sink reserve" CallInputMs45 "\<lambda>v inp. inp\<lparr>ti_ms45_hint := sink_ms45_hint v\<rparr>",
      OF transaction_sink.simps(10) smalls(1)]
    run_group_outputs [of "transaction_sink reserve" CallOutputMs45 "\<lambda>v out. out\<lparr>to_ms45_hint := sink_ms45_hint v\<rparr>",
      OF transaction_sink.simps(11) smalls(2)]
    run_group_outputs [of "transaction_sink reserve" covenant_call "\<lambda>v. sink_covenant (cv_authorizing_input v) (cv_id v)", OF _ smalls(3)]
    run_group_inputs [of "transaction_sink reserve" CallCovenantExecution sink_covenant_execution, OF transaction_sink.simps(13) smalls(4)]
    run_group_inputs [of "transaction_sink reserve" CallInputDerivation sink_input_derivation, OF transaction_sink.simps(8) smalls(5)]
    run_group_outputs [of "transaction_sink reserve" CallOutputDerivation sink_output_derivation, OF transaction_sink.simps(9) smalls(6)]
  show ?thesis
    using assms(2,3)
    by (simp add: trailer_calls_def Let_def run_calls_append sink_network_def assms(4) groups covenant_call_def stealth)
qed

lemma drop_extended: "drop n (xs @ replicate (n - length xs) x) = drop n xs"
  by (cases "n \<le> length xs") simp_all

lemma nth_extended:
  "(\<forall>y\<in>set xs. y = x) \<Longrightarrow> i < n \<Longrightarrow> (xs @ replicate (n - length xs) x) ! i = x"
  by (cases "i < length xs") (auto simp: nth_append)

lemma blank_opened:
  assumes "blank_tx tx" "i < unat (g_input_count g)"
  shows "tx_input_slots (opened g tx) ! i = input_empty"
  using assms nth_extended [of "tx_input_slots tx" input_empty i "unat (g_input_count g)"] by (simp add: blank_tx_def opened_def)

lemma from_wire_valid:
  assumes "valid_network v"
  shows "\<exists>network. from_wire v = Some network \<and> network_code network = v"
proof -
  have "unat v = 1 \<or> unat v = 2 \<or> unat v = 3 \<or> unat v = 4"
    using assms by (auto simp: valid_network_def word_le_nat_alt)
  then have "v = 1 \<or> v = 2 \<or> v = 3 \<or> v = 4" using word_unat_eq_iff [of v] by auto
  then show ?thesis by (auto simp: from_wire_def)
qed

lemma run_source:
  assumes acc: "sink_accepts src tx" and blank: "blank_tx tx" and "\<And>n. reserve n" and tr: "trailers_ok src"
  shows "run_calls (transaction_sink reserve) (calls_of src) tx = Ok (filled_tx src tx)"
proof -
  let ?n = "unat (g_input_count (src_global src))" and ?m = "unat (g_output_count (src_global src))"
  obtain network where net: "from_wire (src_network src) = Some network"
    using tr from_wire_valid by (auto simp: trailers_ok_def Let_def)
  let ?T = "opened (src_global src) tx"
  have len: "?n \<le> length (tx_input_slots ?T)" "?m \<le> length (tx_output_slots ?T)"
    using acc blank by (auto simp: opened_def sink_accepts_def blank_tx_def Let_def)
  have sigs: "length (ti_sigs inp) = MAX_SIGS_PER_INPUT" if "inp \<in> set (tx_input_slots ?T)" for inp
  proof -
    have "inp = input_empty" using that blank by (auto simp: opened_def blank_tx_def)
    then show ?thesis by (simp add: input_empty_def)
  qed
  have slots:
    "upd_list ?n (\<lambda>i x. on_present sink_input_derivation (src_input_derivation src) i
       (on_present sink_covenant_execution (src_covenant_execution src) i
         (on_present (\<lambda>v inp. inp\<lparr>ti_ms45_hint := sink_ms45_hint v\<rparr>) (src_input_ms45 src) i (stored_input src i x))))
       (tx_input_slots ?T) = map (final_input src) [0..<?n] @ drop ?n (tx_input_slots tx)"
    "upd_list ?m (\<lambda>i x. on_present sink_output_derivation (src_output_derivation src) i
       (on_present (\<lambda>v. sink_covenant (cv_authorizing_input v) (cv_id v)) (src_covenant src) i
         (on_present (\<lambda>v out. out\<lparr>to_ms45_hint := sink_ms45_hint v\<rparr>) (src_output_ms45 src) i
           (sink_output (src_output src i) x))))
       (tx_output_slots ?T) = map (final_output src) [0..<?m] @ drop ?m (tx_output_slots tx)"
    using blank_opened [OF blank, of _ "src_global src"] len blank
    by (simp_all add: upd_list_def final_input_def final_output_def blank_tx_def, simp_all add: opened_def drop_extended)
  let ?I = "set_pool src ?n (upd_inputs ?n (stored_input src) ?T)"
  have ins: "run_calls (transaction_sink reserve) (concat (map (input_calls src) [0..<?n])) ?T = Ok ?I"
    using acc blank len(1) sigs by (intro run_inputs) (auto simp: sink_accepts_def Let_def blank_tx_def opened_def)
  let ?O = "upd_outputs ?m (\<lambda>i. sink_output (src_output src i)) ?I"
  have outs: "run_calls (transaction_sink reserve) (map (\<lambda>i. CallOutput i (src_output src i)) [0..<?m]) ?I = Ok ?O"
    using len(2) by (intro run_outputs) (simp add: set_pool_def)
  have lenO: "?n \<le> length (tx_input_slots ?O)" "?m \<le> length (tx_output_slots ?O)"
    using len by (simp_all add: set_pool_def)
  have "run_calls (transaction_sink reserve) (calls_of src) tx = run_calls (transaction_sink reserve) (trailer_calls src) ?O"
    using run_global [OF acc assms(3)] ins outs by (simp add: calls_of_def run_calls_append)
  also have "\<dots> = Ok (filled_tx src tx)"
    unfolding run_trailers [OF tr lenO net] Let_def
    using len slots blank
    by (cases "src_stealth src")
      (simp_all add: filled_tx_def upd_inputs_def upd_outputs_def upd_list_twice set_pool_def sink_stealth_def net Let_def
        blank_tx_def, simp_all add: opened_def)
  finally show ?thesis .
qed

section \<open>The filled transaction describes the same envelope\<close>

text \<open>Two sources that agree on everything but the flags.\<close>

definition same_body :: "encode_source \<Rightarrow> encode_source \<Rightarrow> bool" where
  "same_body a b \<longleftrightarrow>
     (src_global a)\<lparr>g_flags := 0\<rparr> = (src_global b)\<lparr>g_flags := 0\<rparr>
     \<and> (\<forall>i < unat (g_input_count (src_global a)).
          src_input a i = src_input b i \<and> src_signature_count a i = src_signature_count b i
          \<and> (\<forall>k < src_signature_count a i. src_signature a i k = src_signature b i k)
          \<and> src_redeem a i = src_redeem b i \<and> src_input_derivation a i = src_input_derivation b i
          \<and> src_input_ms45 a i = src_input_ms45 b i \<and> src_covenant_execution a i = src_covenant_execution b i)
     \<and> (\<forall>i < unat (g_output_count (src_global a)).
          src_output a i = src_output b i \<and> src_output_derivation a i = src_output_derivation b i
          \<and> src_output_ms45 a i = src_output_ms45 b i \<and> src_covenant a i = src_covenant b i)
     \<and> src_network a = src_network b \<and> src_stealth a = src_stealth b"

lemmas final_defs = final_input_def final_output_def on_present_def stored_input_def stored_redeem_def stored_signatures_def
  sink_input_def sink_output_def sink_input_derivation_def sink_output_derivation_def sink_covenant_def
  sink_covenant_execution_def sink_ms45_hint_def store_script_def input_empty_def output_empty_def ms45_none_def Let_def

lemma script_bytes_store: "script_bytes (store_script version script spk) = script"
  by (simp add: script_bytes_def store_script_def copy_at_def)

lemma final_input_view:
  "source_input (final_input src i) = src_input src i"
  "ti_sig_count (final_input src i) = word_of_nat (src_signature_count src i)"
  "ti_sighash_type (final_input src i) = 1"
  "ti_sigs (final_input src i) = upd_list (src_signature_count src i) (\<lambda>k. stored_signature (src_signature src i k))
     (replicate MAX_SIGS_PER_INPUT input_sig_empty)"
  "source_derivation (ti_has_derivation_hint (final_input src i)) (ti_derivation_branch (final_input src i))
     (ti_derivation_index (final_input src i)) = src_input_derivation src i"
  "source_ms45 (ti_ms45_hint (final_input src i)) = src_input_ms45 src i"
  "source_covenant_execution (final_input src i) = src_covenant_execution src i"
  by (simp_all add: final_defs source_input_def source_derivation_def source_ms45_def source_covenant_execution_def
      script_bytes_def copy_at_def split: option.split)

lemma final_output_view:
  "source_output (final_output src i) = src_output src i"
  "source_derivation (to_has_derivation_hint (final_output src i)) (to_derivation_branch (final_output src i))
     (to_derivation_index (final_output src i)) = src_output_derivation src i"
  "source_ms45 (to_ms45_hint (final_output src i)) = src_output_ms45 src i"
  "source_covenant (final_output src i) = src_covenant src i"
  by (simp_all add: final_defs source_output_def source_derivation_def source_ms45_def source_covenant_def
      script_bytes_def copy_at_def split: option.split)

lemma final_input_redeem:
  "ti_redeem_script_len (final_input src i) = length (src_redeem src i)"
  "ti_redeem_in_pool (final_input src i) \<longleftrightarrow> MAX_SCRIPT_SIZE < length (src_redeem src i)"
  "MAX_SCRIPT_SIZE < length (src_redeem src i) \<Longrightarrow>
     ti_redeem_script_offset (final_input src i) = word_of_nat (length (pool_prefix src i))"
  "src_redeem src i \<noteq> [] \<Longrightarrow> length (src_redeem src i) \<le> MAX_SCRIPT_SIZE \<Longrightarrow>
     ti_redeem_script (final_input src i) = copy_at 0 (src_redeem src i) (replicate MAX_SCRIPT_SIZE 0)"
  by (auto simp: final_defs split: option.split)

lemma pool_prefix_split: "i < n \<Longrightarrow> \<exists>rest. pool_prefix src n = pool_prefix src i @ pooled src i @ rest"
proof (induction n)
  case (Suc n)
  then show ?case by (cases "i = n") (auto simp: pool_prefix_Suc)
qed simp

lemma filled_nth:
  "i < unat (g_input_count (src_global src)) \<Longrightarrow> tx_input_slots (filled_tx src tx) ! i = final_input src i"
  "j < unat (g_output_count (src_global src)) \<Longrightarrow> tx_output_slots (filled_tx src tx) ! j = final_output src j"
  by (simp_all add: filled_tx_def Let_def nth_append)

lemma filled_redeem:
  assumes acc: "sink_accepts src tx" and blank: "blank_tx tx" and i: "i < unat (g_input_count (src_global src))"
  shows "checked_redeem_bytes (filled_tx src tx) i = Ok (src_redeem src i)"
proof -
  let ?n = "unat (g_input_count (src_global src))" and ?r = "src_redeem src i"
  have ok: "length ?r \<le> MAX_REDEEM_SIZE" and fit: "length (pool_prefix src ?n) \<le> REDEEM_POOL_SIZE"
    using acc i by (auto simp: sink_accepts_def Let_def sink_input_ok_def)
  have len: "i < length (tx_input_slots (filled_tx src tx))" "i < tx_num_inputs (filled_tx src tx)"
    using i by (simp_all add: filled_tx_def Let_def)
  consider "?r = []" | "?r \<noteq> []" "length ?r \<le> MAX_SCRIPT_SIZE" | "MAX_SCRIPT_SIZE < length ?r" by linarith
  then show ?thesis
  proof cases
    case 1
    then show ?thesis using len by (simp add: checked_redeem_bytes_def filled_nth(1) [OF i] final_input_redeem)
  next
    case 2
    then show ?thesis
      using len ok
      by (simp add: checked_redeem_bytes_def filled_nth(1) [OF i] final_input_redeem checked_inline_redeem_bytes_def
          get_range_def copy_at_def)
  next
    case 3
    obtain rest where split: "pool_prefix src ?n = pool_prefix src i @ ?r @ rest"
      using pool_prefix_split [OF i, of src] 3 by (auto simp: pooled_def)
    have off: "unat (word_of_nat (length (pool_prefix src i)) :: u16) = length (pool_prefix src i)"
      using fit split by (intro unat_word_of_nat_small) (simp add: REDEEM_POOL_SIZE_def)
    have "take (length ?r) (drop (length (pool_prefix src i)) (tx_redeem_pool (filled_tx src tx))) = ?r"
      by (simp add: filled_tx_def Let_def split)
    then show ?thesis
      using len ok 3 fit split
      by (simp add: checked_redeem_bytes_def filled_nth(1) [OF i] final_input_redeem checked_pool_redeem_bytes_def off Let_def)
        (simp add: filled_tx_def Let_def)
  qed
qed

lemma filled_fields:
  "tx_num_inputs (filled_tx src tx) = unat (g_input_count (src_global src))"
  "tx_num_outputs (filled_tx src tx) = unat (g_output_count (src_global src))"
  "tx_limits (filled_tx src tx) = tx_limits tx" "tx_payload (filled_tx src tx) = g_payload (src_global src)"
  "tx_redeem_pool_used (filled_tx src tx) = length (pool_prefix src (unat (g_input_count (src_global src))))"
  by (simp_all add: filled_tx_def Let_def)

lemma filled_signature:
  assumes "k < src_signature_count src i" "src_signature_count src i \<le> MAX_SIGS_PER_INPUT"
  shows "source_signature (ti_sigs (final_input src i) ! k) = src_signature src i k"
    and "is_present (ti_sigs (final_input src i) ! k)"
  using assms by (simp_all add: final_input_view(4) upd_list_nth stored_signature_def source_signature_def)

lemma filled_same_body:
  assumes acc: "sink_accepts src tx" and blank: "blank_tx tx" and net: "valid_network (src_network src)"
  shows "same_body (transaction_source keyed schnorr_verify (filled_tx src tx)) src"
proof -
  let ?tx = "filled_tx src tx"
  have sigs: "src_signature_count src i \<le> MAX_SIGS_PER_INPUT" if "i < unat (g_input_count (src_global src))" for i
    using acc that by (auto simp: sink_accepts_def Let_def sink_input_ok_def)
  have g: "(source_global keyed schnorr_verify ?tx)\<lparr>g_flags := 0\<rparr> = (src_global src)\<lparr>g_flags := 0\<rparr>"
    by (simp add: source_global_def filled_tx_def Let_def)
  have n: "unat (g_input_count (source_global keyed schnorr_verify ?tx)) = unat (g_input_count (src_global src))"
    "unat (g_output_count (source_global keyed schnorr_verify ?tx)) = unat (g_output_count (src_global src))"
    by (simp_all add: source_global_def filled_fields)
  have "network_code (tx_network ?tx) = src_network src" using from_wire_valid [OF net] by (auto simp: filled_tx_def Let_def)
  moreover have "(if tx_has_stealth_tweak ?tx then Some (tx_stealth_tweak ?tx) else None) = src_stealth src"
    by (auto simp: filled_tx_def Let_def split: option.split)
  moreover have "unat (word_of_nat (src_signature_count src i) :: u8) = src_signature_count src i"
    if "i < unat (g_input_count (src_global src))" for i
    using sigs [OF that] by (simp add: MAX_SIGS_PER_INPUT_def)
  ultimately show ?thesis
    using sigs
    by (simp add: same_body_def transaction_source_def g n filled_nth final_input_view(1,2,5,6,7) final_output_view
        source_redeem_def filled_redeem [OF acc blank] filled_signature Let_def)
qed

section \<open>What signature verification reads\<close>

text \<open>Verification reads the body of the envelope only: transactions with the same body, valid as compact transactions,
  have the same signature hashes, keys and required counts, and are fully signed together.\<close>

lemma same_bodyD:
  assumes "same_body (transaction_source keyed schnorr_verify a) (transaction_source keyed schnorr_verify b)"
    and "tx_num_inputs a < 2 ^ 32" "tx_num_outputs a < 2 ^ 8" "tx_num_inputs b < 2 ^ 32" "tx_num_outputs b < 2 ^ 8"
  shows "tx_num_inputs a = tx_num_inputs b" "tx_num_outputs a = tx_num_outputs b"
    "tx_version a = tx_version b" "tx_locktime a = tx_locktime b" "tx_subnetwork_id a = tx_subnetwork_id b"
    "tx_gas a = tx_gas b" "tx_payload a = tx_payload b"
    "i < tx_num_inputs a \<Longrightarrow> source_input (tx_input_slots a ! i) = source_input (tx_input_slots b ! i)"
    "i < tx_num_inputs a \<Longrightarrow> ti_sig_count (tx_input_slots a ! i) = ti_sig_count (tx_input_slots b ! i)"
    "i < tx_num_inputs a \<Longrightarrow> k < unat (ti_sig_count (tx_input_slots a ! i)) \<Longrightarrow>
       source_signature (ti_sigs (tx_input_slots a ! i) ! k) = source_signature (ti_sigs (tx_input_slots b ! i) ! k)"
    "i < tx_num_inputs a \<Longrightarrow> source_redeem a i = source_redeem b i"
    "i < tx_num_inputs a \<Longrightarrow>
       source_covenant_execution (tx_input_slots a ! i) = source_covenant_execution (tx_input_slots b ! i)"
    "i < tx_num_outputs a \<Longrightarrow> source_output (tx_output_slots a ! i) = source_output (tx_output_slots b ! i)"
    "i < tx_num_outputs a \<Longrightarrow> source_covenant (tx_output_slots a ! i) = source_covenant (tx_output_slots b ! i)"
proof -
  have g: "(source_global keyed schnorr_verify a)\<lparr>g_flags := 0\<rparr> = (source_global keyed schnorr_verify b)\<lparr>g_flags := 0\<rparr>"
    using assms(1) by (simp add: same_body_def transaction_source_def)
  have "g_input_count (source_global keyed schnorr_verify a) = g_input_count (source_global keyed schnorr_verify b)"
    "g_output_count (source_global keyed schnorr_verify a) = g_output_count (source_global keyed schnorr_verify b)"
    using arg_cong [OF g, of g_input_count] arg_cong [OF g, of g_output_count] by simp_all
  then show n: "tx_num_inputs a = tx_num_inputs b" "tx_num_outputs a = tx_num_outputs b"
    using assms(2-5) by (simp_all add: source_global_def word_unat_eq_iff)
  show "tx_version a = tx_version b" "tx_locktime a = tx_locktime b" "tx_subnetwork_id a = tx_subnetwork_id b"
    "tx_gas a = tx_gas b" "tx_payload a = tx_payload b"
    using g by (simp_all add: source_global_def)
  have cnt: "unat (g_input_count (source_global keyed schnorr_verify a)) = tx_num_inputs a"
    "unat (g_output_count (source_global keyed schnorr_verify a)) = tx_num_outputs a"
    using assms(2,3) by (simp_all add: source_global_def)
  show "i < tx_num_inputs a \<Longrightarrow> source_input (tx_input_slots a ! i) = source_input (tx_input_slots b ! i)"
    "i < tx_num_inputs a \<Longrightarrow> ti_sig_count (tx_input_slots a ! i) = ti_sig_count (tx_input_slots b ! i)"
    "i < tx_num_inputs a \<Longrightarrow> k < unat (ti_sig_count (tx_input_slots a ! i)) \<Longrightarrow>
       source_signature (ti_sigs (tx_input_slots a ! i) ! k) = source_signature (ti_sigs (tx_input_slots b ! i) ! k)"
    "i < tx_num_inputs a \<Longrightarrow> source_redeem a i = source_redeem b i"
    "i < tx_num_inputs a \<Longrightarrow>
       source_covenant_execution (tx_input_slots a ! i) = source_covenant_execution (tx_input_slots b ! i)"
    "i < tx_num_outputs a \<Longrightarrow> source_output (tx_output_slots a ! i) = source_output (tx_output_slots b ! i)"
    "i < tx_num_outputs a \<Longrightarrow> source_covenant (tx_output_slots a ! i) = source_covenant (tx_output_slots b ! i)"
    using assms(1) by (simp_all add: same_body_def transaction_source_def cnt word_unat_eq_iff)
qed

definition wire_valid :: "transaction \<Rightarrow> bool" where
  "wire_valid tx \<longleftrightarrow> tx_arrays tx \<and> validate_partial_signed tx = Ok () \<and> tx_num_inputs tx < 2 ^ 32"

lemma wire_validD:
  assumes "wire_valid tx"
  shows "tx_num_inputs tx < 2 ^ 32" "tx_num_outputs tx < 2 ^ 8" "tx_num_outputs tx \<le> MAX_OUTPUTS"
    "0 < tx_num_inputs tx" "0 < tx_num_outputs tx" "tx_num_inputs tx \<le> length (tx_input_slots tx)"
    "tx_num_inputs tx \<le> tl_max_inputs (tx_limits tx)" "length (tx_payload tx) \<le> tl_max_payload_bytes (tx_limits tx)"
    "i < tx_num_inputs tx \<Longrightarrow> \<exists>redeem. checked_redeem_bytes tx i = Ok redeem"
    "i < tx_num_inputs tx \<Longrightarrow> slots_ok (tx_input_slots tx ! i)"
    "i < tx_num_inputs tx \<Longrightarrow> input_arrays (tx_input_slots tx ! i)"
    "i < tx_num_inputs tx \<Longrightarrow> spk_script_len (tu_script_public_key (ti_utxo_entry (tx_input_slots tx ! i))) \<le> MAX_SCRIPT_SIZE"
  using assms
  by (auto simp: wire_valid_def validate_partial_iff validate_base_iff validate_shape_iff validate_inputs_iff tx_arrays_def
      MAX_OUTPUTS_def)

lemma script_range:
  "spk_array spk \<Longrightarrow> spk_script_len spk \<le> MAX_SCRIPT_SIZE \<Longrightarrow>
     get_range (spk_script spk) 0 (spk_script_len spk) = Some (script_bytes spk)"
  by (simp add: get_range_def spk_array_def script_bytes_def)

lemma redeem_length: "checked_redeem_bytes tx i = Ok r \<Longrightarrow> length r = ti_redeem_script_len (tx_input_slots tx ! i)"
  by (auto simp: checked_redeem_bytes_def checked_pool_redeem_bytes_def checked_inline_redeem_bytes_def get_range_def Let_def
      split: if_splits)

lemma checked_redeem_source: "wire_valid tx \<Longrightarrow> i < tx_num_inputs tx \<Longrightarrow> checked_redeem_bytes tx i = Ok (source_redeem tx i)"
  using wire_validD(9) [of tx i] by (auto simp: source_redeem_def)

lemma sighash_same:
  assumes "tx_num_inputs a = tx_num_inputs b" "tx_num_outputs a = tx_num_outputs b" "tx_version a = tx_version b"
    "tx_locktime a = tx_locktime b" "tx_subnetwork_id a = tx_subnetwork_id b" "tx_gas a = tx_gas b" "tx_payload a = tx_payload b"
    "\<And>i. i < tx_num_inputs a \<Longrightarrow> source_input (tx_input_slots a ! i) = source_input (tx_input_slots b ! i)"
    "\<And>i. i < tx_num_outputs a \<Longrightarrow> source_output (tx_output_slots a ! i) = source_output (tx_output_slots b ! i)"
    "\<And>i. i < tx_num_outputs a \<Longrightarrow> source_covenant (tx_output_slots a ! i) = source_covenant (tx_output_slots b ! i)"
    and len: "tx_slices a" "tx_slices b" and i: "i < tx_num_inputs a"
  shows "calculate_sighash keyed (sighash_source_of a) i t = calculate_sighash keyed (sighash_source_of b) i t"
proof -
  have inp: "ss_input (sighash_source_of a) k = ss_input (sighash_source_of b) k" if "k < tx_num_inputs a" for k
    using assms(1) assms(8) [OF that] that len
    by (simp add: sighash_source_of_def tx_inputs_def tx_slices_def source_input_def tx_sighash_input_def)
  have out: "ss_output (sighash_source_of a) k = ss_output (sighash_source_of b) k" if "k < tx_num_outputs a" for k
    using assms(2) assms(9,10) [OF that] that len
    by (auto simp: sighash_source_of_def tx_outputs_def tx_slices_def source_output_def source_covenant_def
        tx_sighash_output_def split: if_splits)
  have cnt: "ss_input_count (sighash_source_of a) = tx_num_inputs a" "ss_output_count (sighash_source_of a) = tx_num_outputs a"
    "ss_input_count (sighash_source_of b) = tx_num_inputs a" "ss_output_count (sighash_source_of b) = tx_num_outputs a"
    using assms(1,2) by (simp_all add: sighash_source_of_def)
  have "committed (sighash_source_of a) i t = committed (sighash_source_of b) i t"
    using inp out i assms(3-7)
    by (auto simp: committed_def outpoints_part_def sequences_part_def sig_ops_part_def outputs_part_def cnt,
        simp_all add: sighash_source_of_def)
  then show ?thesis unfolding calculate_sighash_def by (rule arg_cong [OF preimage_of_committed])
qed

text \<open>What verification reads of one input: script, redeem script and execution selectors.\<close>

definition same_spend :: "transaction \<Rightarrow> transaction \<Rightarrow> nat \<Rightarrow> bool" where
  "same_spend a b i \<longleftrightarrow>
     i < tx_num_inputs a \<and> tx_num_inputs a = tx_num_inputs b
     \<and> source_input (tx_input_slots a ! i) = source_input (tx_input_slots b ! i)
     \<and> source_redeem a i = source_redeem b i
     \<and> source_covenant_execution (tx_input_slots a ! i) = source_covenant_execution (tx_input_slots b ! i)"

lemma same_spend_reads:
  assumes "same_spend a b i" "wire_valid a" "wire_valid b"
  shows "checked_redeem_bytes a i = checked_redeem_bytes b i"
    and "get_at (tx_input_slots a) i = Some (tx_input_slots a ! i)" "get_at (tx_input_slots b) i = Some (tx_input_slots b ! i)"
    and "script_bytes (tu_script_public_key (ti_utxo_entry (tx_input_slots a ! i)))
       = script_bytes (tu_script_public_key (ti_utxo_entry (tx_input_slots b ! i)))"
    and "get_range (spk_script (tu_script_public_key (ti_utxo_entry (tx_input_slots a ! i)))) 0
          (spk_script_len (tu_script_public_key (ti_utxo_entry (tx_input_slots a ! i))))
       = get_range (spk_script (tu_script_public_key (ti_utxo_entry (tx_input_slots b ! i)))) 0
          (spk_script_len (tu_script_public_key (ti_utxo_entry (tx_input_slots b ! i))))"
    and "ti_redeem_script_len (tx_input_slots a ! i) = ti_redeem_script_len (tx_input_slots b ! i)"
    and "ti_covenant_execution_present (tx_input_slots a ! i) = ti_covenant_execution_present (tx_input_slots b ! i)"
    and "ti_covenant_execution_present (tx_input_slots a ! i) \<Longrightarrow>
       ti_covenant_execution_mask (tx_input_slots a ! i) = ti_covenant_execution_mask (tx_input_slots b ! i)
       \<and> ti_covenant_execution_true_mask (tx_input_slots a ! i) = ti_covenant_execution_true_mask (tx_input_slots b ! i)"
proof -
  have i: "i < tx_num_inputs a" "i < tx_num_inputs b" using assms(1) by (auto simp: same_spend_def)
  show r: "checked_redeem_bytes a i = checked_redeem_bytes b i"
    using assms checked_redeem_source i by (simp add: same_spend_def)
  then show "ti_redeem_script_len (tx_input_slots a ! i) = ti_redeem_script_len (tx_input_slots b ! i)"
    using redeem_length [OF checked_redeem_source [OF assms(2) i(1)]] redeem_length [of b i "source_redeem a i"]
      checked_redeem_source [OF assms(2) i(1)] by simp
  show "get_at (tx_input_slots a) i = Some (tx_input_slots a ! i)" "get_at (tx_input_slots b) i = Some (tx_input_slots b ! i)"
    using i wire_validD(6) [OF assms(2)] wire_validD(6) [OF assms(3)] by (simp_all add: get_at_def)
  show s: "script_bytes (tu_script_public_key (ti_utxo_entry (tx_input_slots a ! i)))
       = script_bytes (tu_script_public_key (ti_utxo_entry (tx_input_slots b ! i)))"
    using assms(1) by (simp add: same_spend_def source_input_def)
  have "spk_array (tu_script_public_key (ti_utxo_entry (tx_input_slots a ! i)))"
    "spk_array (tu_script_public_key (ti_utxo_entry (tx_input_slots b ! i)))"
    using wire_validD(11) [OF assms(2) i(1)] wire_validD(11) [OF assms(3) i(2)] by (simp_all add: input_arrays_def)
  then show "get_range (spk_script (tu_script_public_key (ti_utxo_entry (tx_input_slots a ! i)))) 0
          (spk_script_len (tu_script_public_key (ti_utxo_entry (tx_input_slots a ! i))))
       = get_range (spk_script (tu_script_public_key (ti_utxo_entry (tx_input_slots b ! i)))) 0
          (spk_script_len (tu_script_public_key (ti_utxo_entry (tx_input_slots b ! i))))"
    using wire_validD(12) [OF assms(2) i(1)] wire_validD(12) [OF assms(3) i(2)] s by (simp add: script_range)
  show "ti_covenant_execution_present (tx_input_slots a ! i) = ti_covenant_execution_present (tx_input_slots b ! i)"
    "ti_covenant_execution_present (tx_input_slots a ! i) \<Longrightarrow>
       ti_covenant_execution_mask (tx_input_slots a ! i) = ti_covenant_execution_mask (tx_input_slots b ! i)
       \<and> ti_covenant_execution_true_mask (tx_input_slots a ! i) = ti_covenant_execution_true_mask (tx_input_slots b ! i)"
    using assms(1) by (auto simp: same_spend_def source_covenant_execution_def split: if_splits)
qed

lemma same_spend_verification:
  assumes same: "same_spend a b i" "wire_valid a" "wire_valid b"
  shows "analyze_input_script a i = analyze_input_script b i"
    and "required_for_input a i = required_for_input b i"
    and "expected_xonly_for_position a i pos = expected_xonly_for_position b i pos"
    and "covenant_position_matches_execution a i pos = covenant_position_matches_execution b i pos"
proof -
  note reads = same_spend_reads [OF same]
  have i: "i < tx_num_inputs a" "i < tx_num_inputs b" using assms(1) by (auto simp: same_spend_def)
  show an: "analyze_input_script a i = analyze_input_script b i"
    unfolding analyze_input_script_def try_analyze_input_script_def Let_def reads(1,5,6) using i by simp
  have exec: "rbind (resolved_execution a i) (\<lambda>(inp, r). F (ti_covenant_execution_mask inp) (ti_covenant_execution_true_mask inp) r)
      = rbind (resolved_execution b i) (\<lambda>(inp, r). F (ti_covenant_execution_mask inp) (ti_covenant_execution_true_mask inp) r)" for F
    using reads(8)
    by (cases "ti_covenant_execution_present (tx_input_slots b ! i)")
      (auto simp: resolved_execution_def reads(1,2,3,7) validate_covenant_execution_binding_def rbind_def split: sum.splits)
  show "covenant_position_matches_execution a i pos = covenant_position_matches_execution b i pos"
    unfolding covenant_position_matches_execution_def
    by (rule exec [of "\<lambda>m t r. rbind (map_err (\<lambda>_. SvInvalidBinding) (key_at r pos)) (\<lambda>binding.
          if matches_selectors binding m t then Ok () else Err SvInvalidBinding)"])
  have count: "active_execution_key_count x r = active_execution_key_count y r"
    if "ti_covenant_execution_mask x = ti_covenant_execution_mask y"
      "ti_covenant_execution_true_mask x = ti_covenant_execution_true_mask y" for x y r
    unfolding active_execution_key_count_def that ..
  have cov: "covenant_required_for_execution a i = covenant_required_for_execution b i"
    using reads(8) count [of "tx_input_slots a ! i" "tx_input_slots b ! i"]
    by (cases "ti_covenant_execution_present (tx_input_slots b ! i)")
      (auto simp: covenant_required_for_execution_def resolved_execution_def reads(1,2,3,7)
        validate_covenant_execution_binding_def rbind_def split: sum.splits)
  show "required_for_input a i = required_for_input b i" unfolding required_for_input_def an cov ..
  have p2pk: "p2pk_xonly_for_position a i pos = p2pk_xonly_for_position b i pos"
    by (simp add: p2pk_xonly_for_position_def reads(2,3,5) Let_def)
  have cxo: "covenant_xonly_for_position a i pos = covenant_xonly_for_position b i pos"
    unfolding covenant_xonly_for_position_def reads(1) ..
  show "expected_xonly_for_position a i pos = expected_xonly_for_position b i pos"
    unfolding expected_xonly_for_position_def an p2pk cxo ..
qed

lemma input_signed_slots:
  assumes "slots_ok (tx_input_slots tx ! i)" "input_arrays (tx_input_slots tx ! i)"
  shows "input_signed keyed schnorr_verify tx i n \<longleftrightarrow>
    unat (ti_sig_count (tx_input_slots tx ! i)) = n
    \<and> (\<forall>k<n. signature_valid keyed schnorr_verify tx i (sg_position (source_signature (ti_sigs (tx_input_slots tx ! i) ! k)))
              (sg_bytes (source_signature (ti_sigs (tx_input_slots tx ! i) ! k))))"
proof -
  let ?inp = "tx_input_slots tx ! i"
  have len: "length (ti_sigs ?inp) = MAX_SIGS_PER_INPUT" using assms(2) by (simp add: input_arrays_def)
  show ?thesis
  proof (cases "unat (ti_sig_count ?inp) = n")
    case True
    then have n: "n \<le> MAX_SIGS_PER_INPUT" and present: "\<And>k. k < MAX_SIGS_PER_INPUT \<Longrightarrow> is_present (ti_sigs ?inp ! k) \<longleftrightarrow> k < n"
      and all: "\<And>k. k < n \<Longrightarrow> is_sighash_type (ti_sigs ?inp ! k) = 1"
      and dist: "distinct (map (\<lambda>k. is_pubkey_pos (ti_sigs ?inp ! k)) [0..<n])"
      using assms(1) by (auto simp: slots_ok_def)
    have "map is_pubkey_pos (take n (ti_sigs ?inp)) = map (\<lambda>k. is_pubkey_pos (ti_sigs ?inp ! k)) [0..<n]"
      using n len by (intro nth_equalityI) simp_all
    moreover have "list_all (\<lambda>slot. \<not> is_present slot) (drop n (ti_sigs ?inp))"
      using present len n by (auto simp: list_all_length)
    ultimately show ?thesis
      using True n len present all dist by (auto simp: input_signed_def list_all_length source_signature_def Let_def)
  qed (simp add: input_signed_def Let_def)
qed

lemma same_body_same_spend:
  assumes "same_body (transaction_source keyed schnorr_verify a) (transaction_source keyed schnorr_verify b)"
    and "wire_valid a" "wire_valid b" "i < tx_num_inputs a"
  shows "same_spend a b i"
  using same_bodyD [OF assms(1) wire_validD(1,2) [OF assms(2)] wire_validD(1,2) [OF assms(3)]] assms(4)
  by (simp add: same_spend_def)

lemma same_body_fully_signed:
  assumes body: "same_body (transaction_source keyed schnorr_verify a) (transaction_source keyed schnorr_verify b)"
    and valid: "wire_valid a" "wire_valid b"
  shows "kspt_is_fully_signed keyed schnorr_verify a = kspt_is_fully_signed keyed schnorr_verify b"
proof -
  note same = same_bodyD [OF body wire_validD(1,2) [OF valid(1)] wire_validD(1,2) [OF valid(2)]]
  have slices: "tx_slices a" "tx_slices b"
    using wire_validD(3,6) [OF valid(1)] wire_validD(3,6) [OF valid(2)] valid by (auto simp: tx_slices_def wire_valid_def tx_arrays_def)
  have sig: "signature_valid keyed schnorr_verify a i pos sg = signature_valid keyed schnorr_verify b i pos sg"
    if "i < tx_num_inputs a" for i pos sg
  proof -
    have hash: "calculate_sighash keyed (sighash_source_of a) i SigAll = calculate_sighash keyed (sighash_source_of b) i SigAll"
      by (rule sighash_same [OF same(1-8) same(13,14) slices that])
    show ?thesis
      unfolding signature_valid_def same_spend_verification [OF same_body_same_spend [OF body valid that] valid] hash ..
  qed
  have signed: "input_signed keyed schnorr_verify a i n = input_signed keyed schnorr_verify b i n" if i: "i < tx_num_inputs a" for i n
  proof -
    have i': "i < tx_num_inputs b" using i same(1) by simp
    show ?thesis
      unfolding input_signed_slots [OF wire_validD(10,11) [OF valid(1) i]] input_signed_slots [OF wire_validD(10,11) [OF valid(2) i']]
      using same(9,10) [OF i] sig [OF i] by auto
  qed
  have count: "verified_count keyed schnorr_verify a i SourceKspt = Ok n \<longleftrightarrow> verified_count keyed schnorr_verify b i SourceKspt = Ok n"
    if i: "i < tx_num_inputs a" for i n
    using verified_kspt_count_iff [of a i] verified_kspt_count_iff [of b i] signed [OF i] i same(1) valid
      wire_validD(6) [OF valid(1)] wire_validD(6) [OF valid(2)] by (simp add: wire_valid_def)
  show ?thesis
    unfolding kspt_is_fully_signed_iff
    using same_spend_verification(2) [OF same_body_same_spend [OF body valid] valid] count same(1)
      wire_validD(6) [OF valid(1)] wire_validD(6) [OF valid(2)] by simp
qed

section \<open>Round trip\<close>

lemma source_counts:
  assumes "wire_valid tx"
  shows "unat (g_input_count (src_global (transaction_source keyed schnorr_verify tx))) = tx_num_inputs tx"
    "unat (g_output_count (src_global (transaction_source keyed schnorr_verify tx))) = tx_num_outputs tx"
  using wire_validD(1,2) [OF assms] by (simp_all add: transaction_source_def source_global_def)

lemma source_arrays_tx:
  assumes "wire_valid tx"
  shows "source_arrays (transaction_source keyed schnorr_verify tx)"
proof -
  have arr: "input_arrays (tx_input_slots tx ! i)" if "i < tx_num_inputs tx" for i
    using wire_validD(11) [OF assms that] .
  moreover have "output_arrays (tx_output_slots tx ! i)" if "i < tx_num_outputs tx" for i
    using assms wire_validD(3) [OF assms] that by (auto simp: wire_valid_def tx_arrays_def)
  moreover have "unat (ti_sig_count (tx_input_slots tx ! i)) \<le> MAX_SIGS_PER_INPUT" if "i < tx_num_inputs tx" for i
    using wire_validD(10) [OF assms that] by (simp add: slots_ok_def)
  then have "length (is_signature (ti_sigs (tx_input_slots tx ! i) ! k)) = 64"
    if "i < tx_num_inputs tx" "k < unat (ti_sig_count (tx_input_slots tx ! i))" for i k
    using arr that by (fastforce simp: input_arrays_def)
  ultimately show ?thesis
    using assms unfolding source_arrays_def source_counts [OF assms]
    by (auto simp: transaction_source_def source_global_def source_input_def source_signature_def source_covenant_def
        wire_valid_def tx_arrays_def input_arrays_def output_arrays_def split: if_splits)
qed

lemma source_authorized_tx:
  assumes "wire_valid tx"
  shows "covenants_authorized (transaction_source keyed schnorr_verify tx)"
proof -
  have "validate_outputs tx = Ok ()" using assms by (simp add: wire_valid_def validate_partial_iff validate_base_iff)
  moreover have "tx_output_slots tx ! i \<in> set (tx_outputs tx)" if "i < tx_num_outputs tx" for i
    using that wire_validD(3) [OF assms] assms
    by (auto simp: tx_outputs_def wire_valid_def tx_arrays_def in_set_conv_nth intro!: exI [of _ i])
  ultimately show ?thesis
    unfolding covenants_authorized_def source_counts [OF assms] validate_outputs_iff
    by (auto simp: transaction_source_def source_covenant_def)
qed

lemma source_accepted:
  assumes "wire_valid tx" "source_ok (transaction_source keyed schnorr_verify tx) l" "tx_limits tx0 = tx_limits tx"
    and "length (pool_prefix (transaction_source keyed schnorr_verify tx) (tx_num_inputs tx)) \<le> REDEEM_POOL_SIZE"
  shows "sink_accepts (transaction_source keyed schnorr_verify tx) tx0"
proof -
  have "sink_input_ok (transaction_source keyed schnorr_verify tx) i" if "i < tx_num_inputs tx" for i
    using wire_validD(10) [OF assms(1) that] assms(2) that source_counts [OF assms(1), of keyed schnorr_verify]
    by (auto simp: sink_input_ok_def source_ok_def list_all_iff input_ok_def slots_ok_def transaction_source_def source_signature_def)
  moreover have "g_payload (src_global (transaction_source keyed schnorr_verify tx)) = tx_payload tx"
    by (simp add: transaction_source_def source_global_def)
  ultimately show ?thesis
    using wire_validD(3-8) [OF assms(1)] assms(3,4)
    unfolding sink_accepts_def source_counts [OF assms(1)] Let_def by simp
qed

lemma blank_clear: "tx_arrays tx \<Longrightarrow> blank_tx (tx_clear tx)"
  by (auto simp: blank_tx_def tx_clear_def tx_arrays_def map_replicate_const)

lemma final_input_slots_ok:
  assumes "sink_input_ok src i" "distinct (map sg_position (signature_list src i))"
  shows "slots_ok (final_input src i)"
proof -
  let ?n = "src_signature_count src i"
  have n: "?n \<le> MAX_SIGS_PER_INPUT" using assms(1) by (simp add: sink_input_ok_def)
  then have u: "unat (ti_sig_count (final_input src i)) = ?n" by (simp add: final_input_view MAX_SIGS_PER_INPUT_def)
  have "map (\<lambda>k. is_pubkey_pos (ti_sigs (final_input src i) ! k)) [0..<?n] = map sg_position (signature_list src i)"
    using n by (simp add: signature_list_def final_input_view(4) upd_list_nth stored_signature_def)
  then show ?thesis
    using assms n unfolding slots_ok_def u
    by (auto simp: final_input_view(3,4) upd_list_nth stored_signature_def sink_input_ok_def input_sig_empty_def)
qed

lemma final_input_arrays:
  assumes "sink_input_ok src i" "length (wi_previous_tx_id (src_input src i)) = 32"
    "length (wi_script (src_input src i)) \<le> MAX_SCRIPT_SIZE"
    "\<And>k. k < src_signature_count src i \<Longrightarrow> length (sg_bytes (src_signature src i k)) = 64"
  shows "input_arrays (final_input src i)"
proof -
  have "length (is_signature s) = 64" if "s \<in> set (ti_sigs (final_input src i))" for s
    using that assms(1,4)
    by (auto simp: in_set_conv_nth final_input_view(4) upd_list_nth stored_signature_def input_sig_empty_def sink_input_ok_def
        split: if_splits)
  moreover have "length (ti_redeem_script (final_input src i)) = MAX_SCRIPT_SIZE"
    by (auto simp: final_defs copy_at_def split: option.split)
  moreover have "spk_array (tu_script_public_key (ti_utxo_entry (final_input src i)))"
    "length (op_transaction_id (ti_previous_outpoint (final_input src i))) = 32"
    "length (ti_incoming_partial_sigs (final_input src i)) = MAX_SIGS_PER_INPUT"
    using assms(2,3) by (simp_all add: final_defs spk_array_def copy_at_def spk_new_def split: option.split)
  ultimately show ?thesis
    using assms(1) by (simp add: input_arrays_def final_input_view(4) sink_input_ok_def)
qed

lemma final_output_arrays:
  assumes "length (wo_script (src_output src i)) \<le> MAX_SCRIPT_SIZE" "\<And>c. src_covenant src i = Some c \<Longrightarrow> length (cv_id c) = 32"
  shows "output_arrays (final_output src i)"
  using assms by (simp add: output_arrays_def final_defs spk_array_def copy_at_def spk_new_def split: option.split)

lemma amounts_same:
  assumes "map (\<lambda>i. tu_amount (ti_utxo_entry i)) (tx_inputs a) = map (\<lambda>i. tu_amount (ti_utxo_entry i)) (tx_inputs b)"
    "map to_value (tx_outputs a) = map to_value (tx_outputs b)"
  shows "checked_amounts a = checked_amounts b"
proof -
  have "map (\<lambda>i. unat (tu_amount (ti_utxo_entry i))) (tx_inputs a) = map (\<lambda>i. unat (tu_amount (ti_utxo_entry i))) (tx_inputs b)"
    "map (\<lambda>x. unat (to_value x)) (tx_outputs a) = map (\<lambda>x. unat (to_value x)) (tx_outputs b)"
    using arg_cong [OF assms(1), of "map unat"] arg_cong [OF assms(2), of "map unat"] by (simp_all add: comp_def)
  then show ?thesis unfolding checked_amounts_spec by simp
qed

lemma slots_prefix: "n \<le> length xs \<Longrightarrow> take n xs = map (nth xs) [0..<n]"
  by (simp add: list_eq_iff_nth_eq)

lemma filled_arrays:
  assumes ok: "source_ok src l" "source_arrays src" and acc: "sink_accepts src tx" and blank: "blank_tx tx"
    and "length (tx_stealth_tweak tx) = 32"
  shows "tx_arrays (filled_tx src tx)"
proof -
  let ?n = "unat (g_input_count (src_global src))" and ?m = "unat (g_output_count (src_global src))"
  have "input_arrays (final_input src i)" if "i < ?n" for i
    using that ok acc
    by (intro final_input_arrays)
      (auto simp: sink_accepts_def Let_def source_arrays_def source_ok_def list_all_iff input_ok_def)
  moreover have "output_arrays (final_output src i)" if "i < ?m" for i
    using that ok by (intro final_output_arrays) (auto simp: source_arrays_def source_ok_def list_all_iff)
  moreover have "input_arrays inp" if "inp \<in> set (drop ?n (tx_input_slots tx))" for inp
  proof -
    have "inp = input_empty" using that blank by (auto simp: blank_tx_def dest: in_set_dropD)
    then show ?thesis by simp
  qed
  ultimately show ?thesis
    using blank acc ok(2) assms(5)
    by (auto simp: tx_arrays_def filled_tx_def Let_def blank_tx_def sink_accepts_def source_arrays_def split: option.split)
qed

lemma filled_valid:
  assumes tx: "wire_valid tx" and src: "src = transaction_source keyed schnorr_verify tx" and ok: "source_ok src l"
    and acc: "sink_accepts src tx0" and blank: "blank_tx tx0" and lims: "tx_limits tx0 = tx_limits tx"
    and len: "length (tx_stealth_tweak tx0) = 32"
  shows "wire_valid (filled_tx src tx0)"
proof -
  let ?f = "filled_tx src tx0"
  note cnt = source_counts [OF tx, of keyed schnorr_verify, folded src]
  have arr: "tx_arrays ?f"
    by (rule filled_arrays [OF ok _ acc blank len]) (simp add: src source_arrays_tx [OF tx])
  have n: "tx_num_inputs ?f = tx_num_inputs tx" "tx_num_outputs ?f = tx_num_outputs tx" by (simp_all add: filled_fields cnt)
  have slots: "tx_num_inputs tx \<le> length (tx_input_slots ?f)" "tx_num_outputs tx \<le> length (tx_output_slots ?f)"
    by (simp_all add: filled_tx_def Let_def cnt)
  have orig: "tx_num_outputs tx \<le> length (tx_output_slots tx)" using tx wire_validD(3) [OF tx] by (simp add: wire_valid_def tx_arrays_def)
  have inp: "source_input (final_input src i) = source_input (tx_input_slots tx ! i)" for i
    by (simp add: final_input_view src transaction_source_def)
  have out: "source_output (final_output src i) = source_output (tx_output_slots tx ! i)"
    "source_covenant (final_output src i) = source_covenant (tx_output_slots tx ! i)" for i
    by (simp_all add: final_output_view src transaction_source_def)
  have fi: "tx_inputs ?f = map (final_input src) [0..<tx_num_inputs tx]" and fo: "tx_outputs ?f = map (final_output src) [0..<tx_num_outputs tx]"
    by (simp_all add: tx_inputs_def tx_outputs_def filled_tx_def Let_def cnt)
  have "checked_amounts ?f = checked_amounts tx"
    using inp out(1) slots_prefix [OF wire_validD(6) [OF tx]] slots_prefix [OF orig]
    by (intro amounts_same) (simp_all add: fi fo tx_inputs_def [of tx] tx_outputs_def [of tx] source_input_def source_output_def)
  moreover have base: "validate_base_transaction tx = Ok ()" using tx by (simp add: wire_valid_def validate_partial_iff)
  ultimately have amounts: "\<exists>a. checked_amounts ?f = Ok a" by (simp add: validate_base_iff)
  have shape: "validate_transaction_shape ?f = Ok ()"
    using base slots acc unfolding validate_base_iff validate_shape_iff n
    by (auto simp: filled_fields lims src, simp_all add: transaction_source_def source_global_def sink_accepts_def Let_def)
  have "spk_script_len (tu_script_public_key (ti_utxo_entry (final_input src i))) = length (wi_script (src_input src i))" for i
    by (simp add: final_defs split: option.split)
  then have ins: "validate_inputs ?f = Ok ()"
    using ok filled_redeem [OF acc blank] unfolding validate_inputs_iff n
    by (auto simp: filled_nth cnt source_ok_def list_all_iff input_ok_def)
  have outlen: "spk_script_len (to_script_public_key (final_output src i)) = length (wo_script (src_output src i))" for i
    by (simp add: final_defs split: option.split)
  have auth: "unat (to_covenant_auth_input (final_output src i)) < tx_num_inputs tx"
    if "i < tx_num_outputs tx" "to_has_covenant (final_output src i)" for i
    using source_authorized_tx [OF tx, of keyed schnorr_verify] that cnt
    by (auto simp: covenants_authorized_def src [symmetric] final_output_view(4) [symmetric] source_covenant_def)
  have outs: "validate_outputs ?f = Ok ()"
    unfolding validate_outputs_iff fo n using ok auth by (auto simp: outlen source_ok_def list_all_iff cnt)
  have "slots_ok (final_input src i)" if "i < tx_num_inputs tx" for i
    using that ok acc
    by (intro final_input_slots_ok) (auto simp: sink_accepts_def Let_def cnt source_ok_def list_all_iff input_ok_def signatures_ok_def)
  then have "validate_partial_signed ?f = Ok ()"
    using shape amounts ins outs unfolding validate_partial_iff validate_base_iff n by (simp add: filled_nth cnt final_input_view(3))
  then show ?thesis using arr wire_validD(1) [OF tx] by (simp add: wire_valid_def n)
qed

lemma grammar_limits_clear: "tx_limits tx0 = tx_limits tx \<Longrightarrow> grammar_limits (tx_clear tx0) = grammar_limits tx"
  by (simp add: grammar_limits_def tx_clear_def)

lemma parse_wire_bytes:
  assumes valid: "wire_valid tx" and ok: "source_ok (transaction_source keyed schnorr_verify tx) (grammar_limits tx)"
    and "tx_arrays tx0" "tx_limits tx0 = tx_limits tx" "\<forall>k. reserve k"
    and "length (pool_prefix (transaction_source keyed schnorr_verify tx) (tx_num_inputs tx)) \<le> REDEEM_POOL_SIZE"
  shows "\<exists>tx'. parse_compact_kspt reserve keyed schnorr_verify (wire_bytes (transaction_source keyed schnorr_verify tx)) tx0 = (Ok (), tx')
    \<and> src_global (transaction_source keyed schnorr_verify tx') = src_global (transaction_source keyed schnorr_verify tx)
    \<and> same_body (transaction_source keyed schnorr_verify tx') (transaction_source keyed schnorr_verify tx)"
proof -
  define src where src: "src = transaction_source keyed schnorr_verify tx"
  note ok = ok [folded src]
  have blank: "blank_tx (tx_clear tx0)" by (rule blank_clear [OF assms(3)])
  have lims: "tx_limits (tx_clear tx0) = tx_limits tx" using assms(4) by (simp add: tx_clear_def)
  have acc: "sink_accepts src (tx_clear tx0)"
    unfolding src by (rule source_accepted [OF valid ok [unfolded src] lims assms(6)])
  let ?f = "filled_tx src (tx_clear tx0)"
  have tr: "trailers_ok src" using ok by (simp add: source_ok_def)
  have arr: "source_arrays src" and auth: "covenants_authorized src"
    unfolding src by (rule source_arrays_tx [OF valid], rule source_authorized_tx [OF valid])
  have "decode (transaction_sink reserve) (wire_bytes src) (grammar_limits tx) (tx_clear tx0) = Ok (g_flags (src_global src), ?f)"
    unfolding decode_wire_bytes [OF ok arr auth]
    using run_source [OF acc blank _ tr, of reserve] assms(5) by simp
  moreover have body: "same_body (transaction_source keyed schnorr_verify ?f) src"
    using tr by (intro filled_same_body [OF acc blank]) (simp add: trailers_ok_def Let_def)
  have wv: "wire_valid ?f"
    using assms(3) by (intro filled_valid [OF valid src ok acc blank lims]) (simp add: tx_clear_def tx_arrays_def)
  have signed: "kspt_is_fully_signed keyed schnorr_verify ?f = kspt_is_fully_signed keyed schnorr_verify tx"
    by (rule same_body_fully_signed [OF body [unfolded src] wv [unfolded src] valid, folded src])
  moreover have "g_flags (src_global src) = (if kspt_is_fully_signed keyed schnorr_verify tx then FLAG_SIGNED_OR_COMPLETE else 0)"
    by (simp add: src transaction_source_def source_global_def)
  ultimately have "parse_compact_kspt reserve keyed schnorr_verify (wire_bytes src) tx0 = (Ok (), ?f)"
    using wv by (simp add: parse_compact_kspt_def grammar_limits_clear [OF assms(4)] wire_valid_def FLAG_SIGNED_OR_COMPLETE_def Let_def)
  moreover have "src_global (transaction_source keyed schnorr_verify ?f) = src_global src"
    using body signed by (simp add: same_body_def src transaction_source_def source_global_def)
  ultimately show ?thesis using body unfolding src by blast
qed

text \<open>(C2) Model round trip: whatever serializing a transaction writes, parsing reads back into any transaction storage with
  the same limits: parsing succeeds, and the parsed transaction describes exactly the same envelope as the original, flags
  included, so every input with its script, signatures and redeem script, every output with its covenant, and every
  derivation and execution record arrives unchanged. The allocator must not fail, and the long redeem scripts must fit the
  shared pool together, as they do when they were stored there.\<close>

theorem kspt_model_roundtrip:
  assumes "serialize_compact_kspt keyed schnorr_verify tx out = Ok (n, out')"
    and "tx_arrays tx" "tx_num_inputs tx < 2 ^ 32"
    and "tx_arrays tx0" "tx_limits tx0 = tx_limits tx" "\<forall>k. reserve k"
    and "length (pool_prefix (transaction_source keyed schnorr_verify tx) (tx_num_inputs tx)) \<le> REDEEM_POOL_SIZE"
  shows "\<exists>tx'. parse_compact_kspt reserve keyed schnorr_verify (take n out') tx0 = (Ok (), tx')
    \<and> src_global (transaction_source keyed schnorr_verify tx') = src_global (transaction_source keyed schnorr_verify tx)
    \<and> same_body (transaction_source keyed schnorr_verify tx') (transaction_source keyed schnorr_verify tx)"
proof -
  have "wire_valid tx" "source_ok (transaction_source keyed schnorr_verify tx) (grammar_limits tx)"
    "take n out' = wire_bytes (transaction_source keyed schnorr_verify tx)"
    using assms(1-3) by (auto simp: serialize_compact_kspt_def wire_valid_def rbind_Inr_iff encode_ok_iff)
  then show ?thesis using parse_wire_bytes [OF _ _ assms(4-7)] by simp
qed

definition sample_wire_tx :: transaction where
  "sample_wire_tx = (sample_p2pk_tx (replicate 64 7))\<lparr>tx_network := KTestnet\<rparr>"

lemma sample_wire_slots: "tx_input_slots sample_wire_tx = [sample_p2pk_input (replicate 64 7)]"
  "tx_output_slots sample_wire_tx = replicate MAX_OUTPUTS output_empty" "tx_num_inputs sample_wire_tx = 1"
  "tx_num_outputs sample_wire_tx = 1" "tx_payload sample_wire_tx = []" "tx_redeem_pool_used sample_wire_tx = 0"
  "tl_max_inputs (tx_limits sample_wire_tx) = 1"
  by (simp_all add: sample_wire_tx_def sample_p2pk_tx_def)

lemma sample_wire_arrays: "tx_arrays sample_wire_tx"
  using sample_p2pk_arrays [of "replicate 64 7"] by (simp add: sample_wire_tx_def tx_arrays_def)

lemma sample_wire_redeem: "checked_redeem_bytes sample_wire_tx 0 = Ok []"
  by (simp add: checked_redeem_bytes_def sample_wire_slots sample_p2pk_input_def input_empty_def)

lemma sample_wire_input_slots: "slots_ok (sample_p2pk_input sig)"
proof -
  have "is_present ((input_sig_empty\<lparr>is_signature := sig, is_sighash_type := 1, is_present := True\<rparr> # replicate 4 input_sig_empty) ! k)
      \<longleftrightarrow> k = 0" if "k < 5" for k
    using that by (cases k) (auto simp: input_sig_empty_def)
  then show ?thesis by (simp add: slots_ok_def sample_p2pk_input_def MAX_SIGS_PER_INPUT_def)
qed

lemma sample_wire_valid: "validate_partial_signed sample_wire_tx = Ok ()"
proof -
  have "checked_amounts sample_wire_tx \<noteq> Err e" for e
    by (simp add: checked_amounts_spec tx_inputs_def tx_outputs_def sample_wire_slots sample_p2pk_input_def output_empty_def
        MAX_OUTPUTS_def Let_def)
  then have "\<exists>a. checked_amounts sample_wire_tx = Ok a" by (metis sum.exhaust)
  moreover have "validate_transaction_shape sample_wire_tx = Ok ()"
    by (simp add: validate_shape_iff sample_wire_slots MAX_OUTPUTS_def)
  moreover have "validate_inputs sample_wire_tx = Ok ()"
    by (simp add: validate_inputs_iff sample_wire_slots sample_wire_redeem)
      (simp add: sample_p2pk_input_def MAX_SCRIPT_SIZE_def)
  moreover have "validate_outputs sample_wire_tx = Ok ()"
    by (simp add: validate_outputs_iff tx_outputs_def sample_wire_slots output_empty_def spk_new_def)
  ultimately show ?thesis
    using sample_wire_input_slots [of "replicate 64 7"]
    by (simp add: validate_partial_iff validate_base_iff sample_wire_slots) (simp add: sample_p2pk_input_def)
qed

lemma sample_wire_global:
  "src_global (transaction_source sample_keyed sample_schnorr sample_wire_tx) = \<lparr>g_flags = (if kspt_is_fully_signed sample_keyed sample_schnorr sample_wire_tx then FLAG_SIGNED_OR_COMPLETE else 0),
      g_version = 0, g_input_count = 1, g_output_count = 1, g_locktime = 0, g_subnetwork_id = SUBNETWORK_ID_NATIVE, g_gas = 0,
      g_payload = []\<rparr>"
  by (simp add: transaction_source_def source_global_def sample_wire_slots) (simp add: sample_wire_tx_def sample_p2pk_tx_def)

lemma sample_wire_source_ok: "source_ok (transaction_source sample_keyed sample_schnorr sample_wire_tx) (grammar_limits sample_wire_tx)"
  (is "source_ok ?src ?l")
proof -
  note g = sample_wire_global
  have "global_ok (src_global ?src) ?l"
    unfolding g
    by (simp add: global_ok_def supported_tx_version_def ALLOWED_FLAGS_def FLAG_SIGNED_OR_COMPLETE_def grammar_limits_def
        u32_try_from_def sample_wire_slots MAX_OUTPUTS_def MAX_SUPPORTED_TX_VERSION_def)
  moreover have "input_ok ?src 0"
    using sample_p2pk_script [of "replicate 64 7"]
    by (simp add: input_ok_def transaction_source_def signature_list_def signatures_ok_def source_input_def source_redeem_def
        sample_wire_slots sample_wire_redeem MAX_SIGNATURE_RECORDS_def MAX_SCRIPT_SIZE_def source_signature_def)
      (simp add: sample_p2pk_input_def p2pk_script_def sample_key_def input_empty_def valid_sighash_def)
  moreover have "trailers_ok ?src"
    unfolding trailers_ok_def g Let_def
    by (simp add: transaction_source_def group_ok_def sample_wire_slots source_ms45_def source_covenant_def
        source_covenant_execution_def source_derivation_def MAX_OUTPUTS_def output_empty_def ms45_none_def)
      (simp add: sample_wire_tx_def sample_p2pk_tx_def sample_p2pk_input_def input_empty_def ms45_none_def valid_network_def)
  moreover have "length (wo_script (src_output ?src 0)) \<le> MAX_SCRIPT_SIZE"
    by (simp add: transaction_source_def sample_wire_slots source_output_def output_empty_def script_bytes_def MAX_OUTPUTS_def spk_new_def)
  ultimately show ?thesis unfolding source_ok_def by (simp add: g)
qed

theorem kspt_model_roundtrip_witness:
  "\<exists>tx'. parse_compact_kspt (\<lambda>_. True) sample_keyed sample_schnorr
        (wire_bytes (transaction_source sample_keyed sample_schnorr sample_wire_tx)) sample_wire_tx = (Ok (), tx')
    \<and> src_global (transaction_source sample_keyed sample_schnorr tx')
        = src_global (transaction_source sample_keyed sample_schnorr sample_wire_tx)
    \<and> same_body (transaction_source sample_keyed sample_schnorr tx') (transaction_source sample_keyed sample_schnorr sample_wire_tx)"
proof -
  let ?src = "transaction_source sample_keyed sample_schnorr sample_wire_tx"
  have "serialize_compact_kspt sample_keyed sample_schnorr sample_wire_tx (replicate (length (wire_bytes ?src)) 0)
      = Ok (length (wire_bytes ?src), wire_bytes ?src)"
    by (simp add: serialize_compact_kspt_def sample_wire_valid encode_ok_iff sample_wire_source_ok)
  moreover have "pool_prefix ?src (tx_num_inputs sample_wire_tx) = []"
    by (simp add: pool_prefix_def pooled_def sample_wire_slots transaction_source_def source_redeem_def sample_wire_redeem)
  ultimately show ?thesis
    using kspt_model_roundtrip [OF _ sample_wire_arrays _ sample_wire_arrays refl, of sample_keyed sample_schnorr
        "replicate (length (wire_bytes ?src)) 0" "length (wire_bytes ?src)" "wire_bytes ?src" "\<lambda>_. True"]
    by (simp add: sample_wire_slots)
qed

section \<open>Serializing into a vector\<close>

lemma try_fold_Inl: "try_fold f s xs = Err e \<Longrightarrow> \<exists>s x. x \<in> set xs \<and> f s x = Err e"
  by (induction xs arbitrary: s) (auto simp: rbind_Inl_iff, blast+)

lemma try_fold_error: "(\<And>s x. x \<in> set xs \<Longrightarrow> f s x \<noteq> Err e) \<Longrightarrow> try_fold f s xs \<noteq> Err e"
  using try_fold_Inl by metis

lemma redeem_error: "checked_redeem_bytes tx i \<noteq> Err PeOutputBufferTooSmall"
  by (simp add: checked_redeem_bytes_def checked_pool_redeem_bytes_def checked_inline_redeem_bytes_def ok_or_def Let_def
      split: option.split)

lemma amounts_error: "transaction_amounts_of tx \<noteq> Err PeOutputBufferTooSmall"
proof -
  have "map_amount_error e \<noteq> PeOutputBufferTooSmall" for e by (cases e) simp_all
  then show ?thesis by (auto simp: transaction_amounts_of_def map_err_def split: sum.split)
qed

lemma validate_error: "validate_partial_signed tx \<noteq> Err PeOutputBufferTooSmall"
proof -
  have ins: "validate_inputs tx \<noteq> Err PeOutputBufferTooSmall"
    unfolding validate_inputs_def by (rule try_fold_error) (auto simp: rbind_Inl_iff redeem_error split: if_splits)
  have outs: "validate_outputs tx \<noteq> Err PeOutputBufferTooSmall"
    unfolding validate_outputs_def by (rule try_fold_error) auto
  have base: "validate_base_transaction tx \<noteq> Err PeOutputBufferTooSmall"
    using ins outs amounts_error by (simp add: validate_base_transaction_def rbind_Inl_iff validate_transaction_shape_def)
  have slots: "validate_signature_slots inp \<noteq> Err PeOutputBufferTooSmall" for inp
  proof -
    have "try_fold (slot_step inp) s xs \<noteq> Err PeOutputBufferTooSmall" for s xs
      by (rule try_fold_error) (simp add: slot_step_def validate_present_signature_def Let_def)
    from this [unfolded slot_step_def [abs_def] Let_def] show ?thesis
      unfolding validate_signature_slots_def Let_def by (auto simp: rbind_Inl_iff split: if_splits)
  qed
  have "try_fold (\<lambda>_ input_index.
       let inp = tx_input_slots tx ! input_index in
       if ti_sighash_type inp \<noteq> 0 \<and> ti_sighash_type inp \<noteq> sighash_to_byte SigAll then Err PeInvalidSigHashType
       else rbind (validate_signature_slots inp) (\<lambda>_.
            rbind (checked_redeem_bytes tx input_index) (\<lambda>_. Ok ()))) () [0..<tx_num_inputs tx] \<noteq> Err PeOutputBufferTooSmall"
    by (rule try_fold_error) (auto simp: Let_def rbind_Inl_iff redeem_error slots split: if_splits)
  then show ?thesis using base by (simp add: validate_partial_signed_def rbind_Inl_iff)
qed

lemma encode_error_small: "encode_error e = PeOutputBufferTooSmall \<longleftrightarrow> e = OutputBufferTooSmall"
  by (cases e) (simp_all add: encode_error_def)

text \<open>The vector serializer is validation followed by the loop of the grammar's own vector encoder.\<close>

lemma serialize_vec_refines:
  "serialize_compact_vec_with_capacity (Suc fuel) keyed schnorr_verify tx capacity =
     (case validate_partial_signed tx of
        Err e \<Rightarrow> Some (Err e)
      | Ok _ \<Rightarrow> map_option (map_err encode_error)
          (encode_vec_loop (Suc fuel) (transaction_source keyed schnorr_verify tx) (grammar_limits tx) capacity))"
proof (induction fuel arbitrary: capacity)
  case 0
  then show ?case
    using validate_error [of tx]
    by (auto simp: serialize_compact_kspt_def encode_error_small encode_error_small [THEN iffD2, OF refl] map_err_def
        split: sum.splits)
next
  case (Suc fuel)
  show ?case
    using validate_error [of tx] Suc.IH [of "capacity * 2"]
    by (subst serialize_compact_vec_with_capacity.simps, subst encode_vec_loop.simps)
      (auto simp: serialize_compact_kspt_def encode_error_small encode_error_small [THEN iffD2, OF refl] map_err_def
        simp del: serialize_compact_vec_with_capacity.simps encode_vec_loop.simps split: sum.splits)
qed

lemma saturated_sum_ge: "(k :: nat) \<le> a \<Longrightarrow> k \<le> m \<Longrightarrow> k \<le> min (a + b) m"
  by simp

lemma compact_capacity_start: "1024 \<le> compact_vec_capacity tx"
  unfolding compact_vec_capacity_def Let_def by (intro saturated_sum_ge) (simp_all add: usize_max_def)

text \<open>(C36) Serializing into a vector always returns: the doubling of the buffer ends, an invalid transaction is refused with
  the error of its validation, and a valid one whose fields the grammar admits gives exactly its encoding. (An encoding
  longer than half the address space cannot exist in memory.)\<close>

theorem serialize_vec_total:
  "(\<exists>r. serialize_compact_kspt_vec keyed schnorr_verify tx = Some r)
   \<and> (validate_partial_signed tx = Err e \<longrightarrow> serialize_compact_kspt_vec keyed schnorr_verify tx = Some (Err e))
   \<and> (validate_partial_signed tx = Ok () \<and> source_ok (transaction_source keyed schnorr_verify tx) (grammar_limits tx)
        \<and> length (wire_bytes (transaction_source keyed schnorr_verify tx)) \<le> usize_max div 2 \<longrightarrow>
      serialize_compact_kspt_vec keyed schnorr_verify tx = Some (Ok (wire_bytes (transaction_source keyed schnorr_verify tx))))"
proof -
  let ?src = "transaction_source keyed schnorr_verify tx" and ?cap = "compact_vec_capacity tx"
  have fuel: "64 = Suc 63" by simp
  have vec: "serialize_compact_kspt_vec keyed schnorr_verify tx =
      (case validate_partial_signed tx of Err e \<Rightarrow> Some (Err e)
       | Ok _ \<Rightarrow> map_option (map_err encode_error) (encode_vec_loop 64 ?src (grammar_limits tx) ?cap))"
    unfolding serialize_compact_kspt_vec_def fuel by (rule serialize_vec_refines)
  have "usize_max < 1024 * 2 ^ 64" by (simp add: usize_max_def)
  also have "\<dots> \<le> ?cap * 2 ^ 64" using compact_capacity_start [of tx] by (rule mult_right_mono) simp
  finally obtain r where r: "encode_vec_loop 64 ?src (grammar_limits tx) ?cap = Some r"
    using encode_vec_loop_returns [of ?cap 64 ?src "grammar_limits tx"] by auto
  then show ?thesis
    using encode_vec_loop_ok [OF _ r] by (auto simp: vec split: sum.split)
qed

theorem serialize_vec_total_witness:
  "length (wire_bytes (transaction_source sample_keyed sample_schnorr sample_wire_tx)) \<le> usize_max div 2
   \<and> serialize_compact_kspt_vec sample_keyed sample_schnorr sample_wire_tx
     = Some (Ok (wire_bytes (transaction_source sample_keyed sample_schnorr sample_wire_tx)))"
proof -
  let ?src = "transaction_source sample_keyed sample_schnorr sample_wire_tx"
  have "length (wire_bytes ?src) \<le> 1000"
    using sample_p2pk_script [of "replicate 64 7"]
    unfolding wire_bytes_def header_bytes_def global_bytes_def trailer_bytes_def sample_wire_global Let_def
    by (simp add: input_bytes_def input_value_bytes_def signature_list_def signature_bytes_def Wire_Encode.redeem_bytes_def
        output_bytes_def group_bytes_def stealth_bytes_def script_bytes_enc_def transaction_source_def sample_wire_slots
        source_input_def source_output_def source_redeem_def sample_wire_redeem source_signature_def source_ms45_def
        source_covenant_def source_covenant_execution_def source_derivation_def MAGIC_def SUBNETWORK_ID_NATIVE_def MAX_OUTPUTS_def)
      (simp add: sample_wire_tx_def sample_p2pk_tx_def sample_p2pk_input_def input_empty_def output_empty_def ms45_none_def
        p2pk_script_def sample_key_def signature_bytes_def script_bytes_def spk_new_def)
  then have len: "length (wire_bytes ?src) \<le> usize_max div 2" by (simp add: usize_max_def)
  then show ?thesis
    using serialize_vec_total [of sample_keyed sample_schnorr sample_wire_tx] sample_wire_valid sample_wire_source_ok by simp
qed

section \<open>What parsing accepts\<close>

lemma upd_input_arrays:
  assumes "tx_arrays tx" "\<And>inp. input_arrays inp \<Longrightarrow> input_arrays (f inp)"
  shows "tx_arrays (upd_input i f tx)"
proof (cases "i < length (tx_input_slots tx)")
  case True
  then show ?thesis
    using assms by (auto simp: tx_arrays_def upd_input_def dest!: set_update_subset_insert [THEN subsetD])
qed (use assms in \<open>simp add: upd_input_def list_update_beyond\<close>)

lemma upd_output_arrays:
  assumes "tx_arrays tx" "\<And>out. output_arrays out \<Longrightarrow> output_arrays (f out)"
  shows "tx_arrays (upd_output i f tx)"
proof (cases "i < length (tx_output_slots tx)")
  case True
  then show ?thesis
    using assms by (auto simp: tx_arrays_def upd_output_def dest!: set_update_subset_insert [THEN subsetD])
qed (use assms in \<open>simp add: upd_output_def list_update_beyond\<close>)

lemma store_script_array: "spk_array spk \<Longrightarrow> length script \<le> MAX_SCRIPT_SIZE \<Longrightarrow> spk_array (store_script v script spk)"
  by (simp add: spk_array_def store_script_def copy_at_def)

lemma store_redeem_arrays:
  assumes "store_redeem i data tx = Ok tx'" "tx_arrays tx"
  shows "tx_arrays tx'"
proof -
  have pool: "tx_arrays (tx\<lparr>tx_redeem_pool := copy_at off data (tx_redeem_pool tx), tx_redeem_pool_used := u\<rparr>)"
    if "off + length data \<le> REDEEM_POOL_SIZE" for off u
    using assms(2) that by (simp add: tx_arrays_def copy_at_def)
  show ?thesis
    using assms
    by (auto simp: store_redeem_def Let_def input_arrays_def copy_at_def split: if_splits
        intro!: upd_input_arrays pool [unfolded copy_at_def])
qed

text \<open>Every call the grammar makes keeps the array lengths of the transaction's Rust types, and its limits.\<close>

lemma sink_keeps_arrays:
  assumes "transaction_sink reserve c tx = Ok tx'" "call_ok n m c" "tx_arrays tx"
  shows "tx_arrays tx' \<and> tx_limits tx' = tx_limits tx"
proof (cases c)
  case (CallGlobal g)
  then show ?thesis
    using assms
    by (auto simp: sink_global_def ensure_input_slots_def set_payload_def tx_arrays_def map_err_def Let_def rbind_Inr_iff
        split: if_splits sum.splits)
next
  case (CallInput i v k)
  then show ?thesis
    using assms
    by (auto simp: sink_input_def input_arrays_def input_value_ok_def store_script_array intro!: upd_input_arrays)
      (simp add: upd_input_def)
next
  case (CallSignature i k v)
  have "length (is_signature s) = 64"
    if "s \<in> set ((ti_sigs inp)[k := x])" "\<forall>s\<in>set (ti_sigs inp). length (is_signature s) = 64" "length (is_signature x) = 64"
    for s x and inp :: transaction_input
    using that set_update_subset_insert [of "ti_sigs inp" k x] by auto
  then show ?thesis
    using assms CallSignature
    by (auto simp: sink_signature_def input_arrays_def split: if_splits intro!: upd_input_arrays) (simp add: upd_input_def)
next
  case (CallRedeem i v)
  moreover have "tx_limits tx' = tx_limits tx" if "store_redeem i v tx = Ok tx'"
    using that by (auto simp: store_redeem_def upd_input_def Let_def split: if_splits)
  ultimately show ?thesis
    using assms store_redeem_arrays [of i v tx tx'] by (auto simp: sink_redeem_def split: if_splits)
next
  case (CallNetwork code)
  then show ?thesis using assms by (auto simp: sink_network_def tx_arrays_def split: option.splits)
next
  case (CallStealth t)
  then show ?thesis using assms by (auto simp: sink_stealth_def tx_arrays_def)
qed (use assms in \<open>auto simp: sink_output_def sink_input_derivation_def sink_output_derivation_def sink_covenant_def
      sink_covenant_execution_def input_arrays_def output_arrays_def store_script_array
      intro!: upd_input_arrays upd_output_arrays, simp_all add: upd_input_def upd_output_def\<close>)

lemma run_keeps_arrays:
  assumes "run_calls (transaction_sink reserve) cs tx = Ok tx'" "tx_arrays tx" "\<And>c. c \<in> set cs \<Longrightarrow> call_ok n m c"
  shows "tx_arrays tx' \<and> tx_limits tx' = tx_limits tx"
  using assms
proof (induction cs arbitrary: tx)
  case (Cons c cs)
  then obtain tx1 where step: "transaction_sink reserve c tx = Ok tx1" "run_calls (transaction_sink reserve) cs tx1 = Ok tx'"
    by (auto split: sum.splits)
  have "tx_arrays tx1 \<and> tx_limits tx1 = tx_limits tx"
    using Cons.prems by (intro sink_keeps_arrays [OF step(1), of n m]) auto
  then show ?case using Cons.IH [OF step(2)] Cons.prems(3) by auto
qed simp

text \<open>(C12) What parsing accepts: the transaction it fills keeps the shape of its Rust types and its limits, has passed the
  whole validation, and is fully signed, signature by signature, exactly when the completion flag of the envelope (the
  sixth byte) says so.\<close>

theorem kspt_parse_sound:
  assumes "parse_compact_kspt reserve keyed schnorr_verify data tx0 = (Ok (), tx)" "tx_arrays tx0"
  shows "tx_arrays tx \<and> tx_limits tx = tx_limits tx0 \<and> validate_partial_signed tx = Ok ()
    \<and> 5 < length data \<and> (data ! 5 AND FLAG_SIGNED_OR_COMPLETE \<noteq> 0 \<longleftrightarrow> kspt_is_fully_signed keyed schnorr_verify tx)"
proof -
  obtain flags where dec: "decode (transaction_sink reserve) data (grammar_limits (tx_clear tx0)) (tx_clear tx0) = Ok (flags, tx)"
    and flag: "(flags AND FLAG_SIGNED_OR_COMPLETE \<noteq> 0) = kspt_is_fully_signed keyed schnorr_verify tx"
    and valid: "validate_partial_signed tx = Ok ()"
    using assms(1) by (auto simp: parse_compact_kspt_def Let_def split: sum.splits if_splits)
  from decode_canonical [OF dec] obtain g cs where
    data: "data = calls_bytes (CallGlobal g # cs)" and run: "run_calls (transaction_sink reserve) (CallGlobal g # cs) (tx_clear tx0) = Ok tx"
    and g: "flags = g_flags g" "global_wire_ok (grammar_limits (tx_clear tx0)) g"
    and cs: "\<And>c. c \<in> set cs \<Longrightarrow> call_ok (unat (g_input_count g)) (unat (g_output_count g)) c"
    by blast
  have "tx_arrays tx \<and> tx_limits tx = tx_limits (tx_clear tx0)"
    using cs g(2) tx_arrays_clear [OF assms(2)]
    by (intro run_keeps_arrays [OF run, of "unat (g_input_count g)" "unat (g_output_count g)"]) (auto simp: global_wire_ok_def)
  moreover have "5 < length data \<and> data ! 5 = flags"
    by (simp add: data header_bytes_def MAGIC_def g(1))
  ultimately show ?thesis using valid flag by (simp add: tx_clear_def)
qed

theorem kspt_parse_sound_witness:
  "\<exists>tx. parse_compact_kspt (\<lambda>_. True) sample_keyed sample_schnorr
        (wire_bytes (transaction_source sample_keyed sample_schnorr sample_wire_tx)) sample_wire_tx = (Ok (), tx)
    \<and> tx_arrays tx \<and> validate_partial_signed tx = Ok ()"
proof -
  let ?src = "transaction_source sample_keyed sample_schnorr sample_wire_tx"
  have valid: "wire_valid sample_wire_tx"
    using sample_wire_arrays sample_wire_valid by (simp add: wire_valid_def sample_wire_slots)
  have "pool_prefix ?src (tx_num_inputs sample_wire_tx) = []"
    by (simp add: pool_prefix_def pooled_def sample_wire_slots transaction_source_def source_redeem_def sample_wire_redeem)
  then obtain tx where "parse_compact_kspt (\<lambda>_. True) sample_keyed sample_schnorr (wire_bytes ?src) sample_wire_tx = (Ok (), tx)"
    using parse_wire_bytes [OF valid sample_wire_source_ok sample_wire_arrays refl, of "\<lambda>_. True"] by auto
  then show ?thesis using kspt_parse_sound [OF _ sample_wire_arrays] by blast
qed

end
