(* ===== verification/Execution.thy ===== *)
theory Execution
  imports Branch
begin

text \<open>
  Witness consumption order of a covenant path (\<open>contract/covenant/execution.rs\<close>): the script is parsed into a tree of
  pushes, key checks, opcodes and branches, and the path a complete selector assignment takes is walked while counting the
  stack items the script itself produced. The result lists every witness item in the order it is consumed.

  The vector of open branches is a list with the innermost branch first. \<open>isize\<close> counters are integers.
\<close>

unbundle bit_operations_syntax

section \<open>Definitions\<close>

datatype witness_item = WitnessSelector bool | WitnessSignature u8

datatype execution_error =
  ExMalformedScript | ExBranchDepthExceeded | ExTooManyKeys | ExIncompleteSelectors | ExUnsupportedSignatureCheck
| ExUnsupportedOpcode | ExWitnessDataRequired | ExDataDependentBranch

datatype node =
  NodePush
| NodeKeyCheck u8 bool
| NodeOp u8
| NodeBranch u16 bool "node list" "node list"

record open_branch =
  ob_bit :: u16
  ob_notif :: bool
  ob_then :: "node list"
  ob_otherwise :: "node list option"

record exec_parser =
  xp_open :: "open_branch list"
  xp_root :: "node list"
  xp_next_branch :: nat
  xp_next_key :: nat

text \<open>\<open>self.current().push(node)\<close>\<close>

definition push_current :: "node \<Rightarrow> exec_parser \<Rightarrow> exec_parser" where
  "push_current nd p =
     (case xp_open p of
        [] \<Rightarrow> p\<lparr>xp_root := xp_root p @ [nd]\<rparr>
      | b # bs \<Rightarrow>
          (case ob_otherwise b of
             Some otherwise \<Rightarrow> p\<lparr>xp_open := b\<lparr>ob_otherwise := Some (otherwise @ [nd])\<rparr> # bs\<rparr>
           | None \<Rightarrow> p\<lparr>xp_open := b\<lparr>ob_then := ob_then b @ [nd]\<rparr> # bs\<rparr>))"

definition ex_enter_branch :: "u8 \<Rightarrow> exec_parser \<Rightarrow> execution_error + exec_parser" where
  "ex_enter_branch opcode p =
     (if length (xp_open p) \<ge> MAX_COVENANT_BRANCH_DEPTH \<or> xp_next_branch p \<ge> 16 then Err ExBranchDepthExceeded
      else Ok (p\<lparr>xp_next_branch := xp_next_branch p + 1,
                 xp_open := \<lparr>ob_bit = push_bit (xp_next_branch p) 1, ob_notif = (opcode = 0x64), ob_then = [],
                             ob_otherwise = None\<rparr> # xp_open p\<rparr>))"

definition ex_enter_else :: "exec_parser \<Rightarrow> execution_error + exec_parser" where
  "ex_enter_else p =
     (case xp_open p of
        b # bs \<Rightarrow> if ob_otherwise b = None then Ok (p\<lparr>xp_open := b\<lparr>ob_otherwise := Some []\<rparr> # bs\<rparr>) else Err ExMalformedScript
      | [] \<Rightarrow> Err ExMalformedScript)"

definition ex_leave_branch :: "exec_parser \<Rightarrow> execution_error + exec_parser" where
  "ex_leave_branch p =
     (case xp_open p of
        [] \<Rightarrow> Err ExMalformedScript
      | b # bs \<Rightarrow>
          Ok (push_current
                (NodeBranch (ob_bit b) (ob_notif b) (ob_then b) (case ob_otherwise b of None \<Rightarrow> [] | Some ns \<Rightarrow> ns))
                (p\<lparr>xp_open := bs\<rparr>)))"

definition ex_key_push :: "bytes \<Rightarrow> nat \<Rightarrow> exec_parser \<Rightarrow> execution_error + nat \<times> exec_parser" where
  "ex_key_push script at p =
     (if at + 33 > length script then Err ExMalformedScript
      else let stop = at + 33; check = get_at script stop in
        if \<not> (check = Some OP_CHECKSIG \<or> check = Some 0xad) then Ok (stop, push_current NodePush p)
        else if xp_next_key p \<ge> MAX_COVENANT_BRANCH_KEYS then Err ExTooManyKeys
        else if xp_next_key p \<ge> 256 then Err ExTooManyKeys
        else Ok (stop + 1, push_current (NodeKeyCheck (word_of_nat (xp_next_key p)) (check = Some 0xad))
                             (p\<lparr>xp_next_key := xp_next_key p + 1\<rparr>)))"

definition ex_data_push :: "bytes \<Rightarrow> nat \<Rightarrow> exec_parser \<Rightarrow> execution_error + nat \<times> exec_parser" where
  "ex_data_push script at p =
     rbind (ok_or (read_element script at) ExMalformedScript) (\<lambda>(_, stop). Ok (stop, push_current NodePush p))"

definition ex_element :: "bytes \<Rightarrow> nat \<Rightarrow> u8 \<Rightarrow> exec_parser \<Rightarrow> execution_error + nat \<times> exec_parser" where
  "ex_element script at opcode p =
     (if opcode = 0x63 \<or> opcode = 0x64 then rbind (ex_enter_branch opcode p) (\<lambda>p. Ok (0, p))
      else if opcode = 0x67 then rbind (ex_enter_else p) (\<lambda>p. Ok (0, p))
      else if opcode = 0x68 then rbind (ex_leave_branch p) (\<lambda>p. Ok (0, p))
      else if opcode = OP_DATA_32 then ex_key_push script at p
      else if 0x01 \<le> opcode \<and> opcode \<le> 0x4e then ex_data_push script at p
      else if opcode = 0x00 \<or> opcode = 0x4f \<or> 0x51 \<le> opcode \<and> opcode \<le> 0x60 then Ok (0, push_current NodePush p)
      else Ok (0, push_current (NodeOp opcode) p))"

definition ex_parse_step :: "bytes \<Rightarrow> nat \<times> exec_parser \<Rightarrow> nat \<times> u8 \<Rightarrow> execution_error + nat \<times> exec_parser" where
  "ex_parse_step script st item =
     (case (st, item) of ((operands_end, p), (at, opcode)) \<Rightarrow>
        if at \<ge> operands_end then ex_element script at opcode p else Ok (operands_end, p))"

definition ex_parse :: "bytes \<Rightarrow> exec_parser \<Rightarrow> execution_error + node list \<times> u16" where
  "ex_parse script p =
     rbind (try_fold (ex_parse_step script) (0, p) (enumerate 0 script)) (\<lambda>(_, p).
       if xp_open p \<noteq> [] then Err ExMalformedScript
       else Ok (xp_root p, ucast (push_bit (xp_next_branch p) 1 - 1 :: u32)))"

definition stack_effect :: "u8 \<Rightarrow> (nat \<times> nat) option" where
  "stack_effect opcode =
     (if opcode = 0x61 then Some (0, 0)
      else if opcode \<in> {0x69, 0x75, 0xb0, 0xb1} then Some (1, 0)
      else if opcode = 0x6d then Some (2, 0)
      else if opcode = 0x6e then Some (2, 4)
      else if opcode \<in> {0x76, 0x82} then Some (1, 2)
      else if opcode = 0x77 then Some (2, 1)
      else if opcode \<in> {0x78, 0x7d} then Some (2, 3)
      else if opcode = 0x7b then Some (3, 3)
      else if opcode = 0x7c then Some (2, 2)
      else if opcode \<in> {0x7f, 0xa5, 0xbc} then Some (3, 1)
      else if opcode \<in> {0x88, 0x9d} then Some (2, 0)
      else if opcode \<in> {0x8b, 0x8c, 0xa8, 0xaa} \<or> 0x8f \<le> opcode \<and> opcode \<le> 0x92 then Some (1, 1)
      else if opcode \<in> {0x7e, 0x87, 0x93, 0x94} \<or> 0x9a \<le> opcode \<and> opcode \<le> 0x9c \<or> 0x9e \<le> opcode \<and> opcode \<le> 0xa4
      then Some (2, 1)
      else if opcode \<in> {0xb3, 0xb4, 0xb9} then Some (0, 1)
      else if opcode \<in> {0xbe, 0xbf, 0xc2, 0xc3, 0xc9, 0xcb, 0xcf, 0xd0, 0xd2, 0xd5} then Some (1, 1)
      else if opcode = 0xd3 then Some (2, 1)
      else None)"

definition opcode_error :: "u8 \<Rightarrow> execution_error" where
  "opcode_error opcode =
     (if opcode \<in> {0xab, 0xac, 0xad, 0xae, 0xaf, 0xd7} then ExUnsupportedSignatureCheck else ExUnsupportedOpcode)"

text \<open>The loop of \<open>pure_effect\<close> with its \<open>depth\<close> and \<open>need\<close>, and the agreement of two arms.\<close>

function (sequential) pure_loop :: "node list \<Rightarrow> int \<Rightarrow> int \<Rightarrow> execution_error + int \<times> int"
and arms_effect :: "node list \<Rightarrow> node list \<Rightarrow> execution_error + int \<times> int" where
  "pure_loop [] depth need = Ok (need, depth)"
| "pure_loop (NodePush # ns) depth need = pure_loop ns (depth + 1) (max need (- depth))"
| "pure_loop (NodeKeyCheck i v # ns) depth need = Err ExDataDependentBranch"
| "pure_loop (NodeOp opcode # ns) depth need =
     rbind (ok_or (stack_effect opcode) (opcode_error opcode)) (\<lambda>(pops, pushes).
       let depth = depth - int pops in pure_loop ns (depth + int pushes) (max need (- depth)))"
| "pure_loop (NodeBranch b f th ot # ns) depth need =
     (let depth = depth - 1 in
      rbind (arms_effect th ot) (\<lambda>(then_need, delta). pure_loop ns (depth + delta) (max need (then_need - depth))))"
| "arms_effect th ot =
     rbind (pure_loop th 0 0) (\<lambda>(then_need, then_delta).
     rbind (pure_loop ot 0 0) (\<lambda>(else_need, else_delta).
       if then_delta \<noteq> else_delta then Err ExDataDependentBranch else Ok (max then_need else_need, then_delta)))"
  by pat_completeness auto
termination
  by (relation "measure (case_sum (\<lambda>(ns, d, n). size_list size ns) (\<lambda>(th, ot). Suc (size_list size th + size_list size ot)))") auto

fun holds_key_check :: "node list \<Rightarrow> bool" where
  "holds_key_check [] = False"
| "holds_key_check (NodeKeyCheck i v # ns) = True"
| "holds_key_check (NodeBranch b f th ot # ns) = (holds_key_check th \<or> holds_key_check ot \<or> holds_key_check ns)"
| "holds_key_check (_ # ns) = holds_key_check ns"

record exec_walk =
  wk_produced :: nat
  wk_items :: "witness_item list"

definition wk_pop :: "nat \<Rightarrow> exec_walk \<Rightarrow> execution_error + exec_walk" where
  "wk_pop n w = (if wk_produced w < n then Err ExWitnessDataRequired else Ok (w\<lparr>wk_produced := wk_produced w - n\<rparr>))"

function (sequential) wk_run :: "u16 \<Rightarrow> node list \<Rightarrow> exec_walk \<Rightarrow> execution_error + exec_walk"
and wk_step :: "u16 \<Rightarrow> node \<Rightarrow> exec_walk \<Rightarrow> execution_error + exec_walk" where
  "wk_run truth [] w = Ok w"
| "wk_run truth (nd # ns) w = rbind (wk_step truth nd w) (wk_run truth ns)"
| "wk_step truth NodePush w = Ok (w\<lparr>wk_produced := wk_produced w + 1\<rparr>)"
| "wk_step truth (NodeKeyCheck i verify) w =
     (if wk_produced w \<noteq> 0 then Err ExUnsupportedSignatureCheck
      else Ok (w\<lparr>wk_items := wk_items w @ [WitnessSignature i], wk_produced := if verify then 0 else 1\<rparr>))"
| "wk_step truth (NodeOp opcode) w =
     rbind (ok_or (stack_effect opcode) (opcode_error opcode)) (\<lambda>(pops, pushes).
     rbind (wk_pop pops w) (\<lambda>w. Ok (w\<lparr>wk_produced := wk_produced w + pushes\<rparr>)))"
| "wk_step truth (NodeBranch b notif th ot) w =
     (let val = (truth AND b \<noteq> 0) in
      if wk_produced w = 0
      then wk_run truth (if val \<noteq> notif then th else ot) (w\<lparr>wk_items := wk_items w @ [WitnessSelector val]\<rparr>)
      else rbind (wk_pop 1 w) (\<lambda>w.
        if holds_key_check th \<or> holds_key_check ot then wk_run truth (if val \<noteq> notif then th else ot) w
        else rbind (arms_effect th ot) (\<lambda>(need, delta).
          if int (wk_produced w) < need then Err ExWitnessDataRequired
          else Ok (w\<lparr>wk_produced := nat (int (wk_produced w) + delta)\<rparr>))))"
  by pat_completeness auto
termination by (relation "measure (case_sum (\<lambda>(t, ns, w). size_list size ns) (\<lambda>(t, nd, w). size nd))") auto

definition trace_witness :: "bytes \<Rightarrow> u16 \<Rightarrow> u16 \<Rightarrow> execution_error + witness_item list" where
  "trace_witness script supplied_mask supplied_true_mask =
     rbind (ex_parse script \<lparr>xp_open = [], xp_root = [], xp_next_branch = 0, xp_next_key = 0\<rparr>) (\<lambda>(program, selector_mask).
       if supplied_mask \<noteq> selector_mask \<or> supplied_true_mask AND NOT supplied_mask \<noteq> 0 then Err ExIncompleteSelectors
       else rbind (wk_run supplied_true_mask program \<lparr>wk_produced = 0, wk_items = []\<rparr>) (\<lambda>w. Ok (wk_items w)))"

section \<open>The keys a tree reaches\<close>

text \<open>The key positions on the path an assignment takes through a tree.\<close>

fun node_keys :: "u16 \<Rightarrow> node list \<Rightarrow> nat list" where
  "node_keys truth [] = []"
| "node_keys truth (NodeKeyCheck i v # ns) = unat i # node_keys truth ns"
| "node_keys truth (NodeBranch b notif th ot # ns) =
     (if (truth AND b \<noteq> 0) \<noteq> notif then node_keys truth th else node_keys truth ot) @ node_keys truth ns"
| "node_keys truth (_ # ns) = node_keys truth ns"

definition chosen_arm :: "u16 \<Rightarrow> open_branch \<Rightarrow> node list" where
  "chosen_arm truth b =
     (if (truth AND ob_bit b \<noteq> 0) \<noteq> ob_notif b then ob_then b else case ob_otherwise b of None \<Rightarrow> [] | Some ns \<Rightarrow> ns)"

text \<open>The arm being read is the chosen one.\<close>

definition on_path :: "u16 \<Rightarrow> open_branch \<Rightarrow> bool" where
  "on_path truth b \<longleftrightarrow> (truth AND ob_bit b \<noteq> 0) = ((ob_otherwise b = None) \<noteq> ob_notif b)"

fun stack_keys :: "u16 \<Rightarrow> open_branch list \<Rightarrow> nat list" where
  "stack_keys truth [] = []"
| "stack_keys truth (b # bs) =
     stack_keys truth bs @ (if list_all (on_path truth) bs then node_keys truth (chosen_arm truth b) else [])"

definition parser_keys :: "u16 \<Rightarrow> exec_parser \<Rightarrow> nat list" where
  "parser_keys truth p = node_keys truth (xp_root p) @ stack_keys truth (xp_open p)"

lemma node_keys_append [simp]: "node_keys truth (xs @ ys) = node_keys truth xs @ node_keys truth ys"
  by (induction truth xs rule: node_keys.induct) auto

lemma push_current_keys:
  "parser_keys truth (push_current nd p) =
     parser_keys truth p @ (if list_all (on_path truth) (xp_open p) then node_keys truth [nd] else [])"
  by (auto simp: parser_keys_def push_current_def chosen_arm_def on_path_def split: list.splits option.splits)

lemma push_current_simps [simp]:
  "xp_next_branch (push_current nd p) = xp_next_branch p" "xp_next_key (push_current nd p) = xp_next_key p"
  by (simp_all add: push_current_def split: list.splits option.splits)

lemma enter_keys: "ex_enter_branch opcode p = Ok q \<Longrightarrow> parser_keys truth q = parser_keys truth p"
  by (auto simp: ex_enter_branch_def parser_keys_def chosen_arm_def split: if_splits)

lemma else_keys: "ex_enter_else p = Ok q \<Longrightarrow> parser_keys truth q = parser_keys truth p"
  by (auto simp: ex_enter_else_def parser_keys_def chosen_arm_def split: list.splits if_splits)

lemma leave_keys: "ex_leave_branch p = Ok q \<Longrightarrow> parser_keys truth q = parser_keys truth p"
proof -
  assume "ex_leave_branch p = Ok q"
  then obtain b bs where b: "xp_open p = b # bs"
    "q = push_current (NodeBranch (ob_bit b) (ob_notif b) (ob_then b) (case ob_otherwise b of None \<Rightarrow> [] | Some ns \<Rightarrow> ns))
           (p\<lparr>xp_open := bs\<rparr>)"
    by (auto simp: ex_leave_branch_def split: list.splits)
  then show ?thesis by (simp add: push_current_keys) (simp add: parser_keys_def chosen_arm_def)
qed

lemma no_keys: "\<not> holds_key_check ns \<Longrightarrow> node_keys truth ns = []"
  by (induction ns rule: holds_key_check.induct) auto

section \<open>The walk visits the keys of its path\<close>

definition signature_positions :: "witness_item list \<Rightarrow> nat list" where
  "signature_positions items = List.map_filter (\<lambda>x. case x of WitnessSignature i \<Rightarrow> Some (unat i) | _ \<Rightarrow> None) items"

lemma signature_positions_append [simp]:
  "signature_positions (xs @ ys) = signature_positions xs @ signature_positions ys"
  "signature_positions [] = []" "signature_positions [WitnessSelector s] = []" "signature_positions [WitnessSignature i] = [unat i]"
  by (simp_all add: signature_positions_def map_filter_def)

lemma node_keys_Cons: "node_keys truth (nd # ns) = node_keys truth [nd] @ node_keys truth ns"
  using node_keys_append [of truth "[nd]" ns] by simp

lemma walk_keys:
  "wk_run truth ns w = Ok w' \<Longrightarrow> signature_positions (wk_items w') = signature_positions (wk_items w) @ node_keys truth ns"
  "wk_step truth nd w = Ok w' \<Longrightarrow> signature_positions (wk_items w') = signature_positions (wk_items w) @ node_keys truth [nd]"
proof (induction truth ns w and truth nd w arbitrary: w' and w' rule: wk_run_wk_step.induct)
  case (2 truth nd ns w)
  then obtain v where "wk_step truth nd w = Ok v" "wk_run truth ns v = Ok w'" by (auto simp: rbind_Inr_iff)
  with 2 show ?case by (subst node_keys_Cons) auto
next
  case (5 truth opcode w)
  then show ?case by (auto simp: rbind_Inr_iff wk_pop_def split: if_splits)
next
  case (6 truth b notif th ot w)
  define val where "val = (truth AND b \<noteq> 0)"
  show ?case
  proof (cases "wk_produced w = 0")
    case True
    then have "wk_run truth (if val \<noteq> notif then th else ot) (w\<lparr>wk_items := wk_items w @ [WitnessSelector val]\<rparr>) = Ok w'"
      using 6(3) by (simp add: Let_def val_def)
    from 6(1) [OF val_def True this] show ?thesis by (simp add: val_def)
  next
    case False
    then obtain v where v: "wk_pop 1 w = Ok v" "wk_items v = wk_items w" by (auto simp: wk_pop_def)
    show ?thesis
    proof (cases "holds_key_check th \<or> holds_key_check ot")
      case True
      then have "wk_run truth (if val \<noteq> notif then th else ot) v = Ok w'"
        using 6(3) False v by (auto simp: Let_def val_def)
      from 6(2) [OF val_def False True this] v(2) show ?thesis by (simp add: val_def)
    next
      case pure: False
      then show ?thesis using 6(3) False v
        by (auto simp: Let_def no_keys rbind_Inr_iff split: if_splits)
    qed
  qed
qed (auto split: if_splits)

section \<open>The parser follows the resolver\<close>

text \<open>The loop over positions, one element at a time.\<close>

function ex_loop :: "bytes \<Rightarrow> nat \<Rightarrow> exec_parser \<Rightarrow> execution_error + exec_parser" where
  "ex_loop script at p =
     (if length script \<le> at then Ok p
      else case ex_element script at (script ! at) p of
             Inl e \<Rightarrow> Err e
           | Inr (stop, q) \<Rightarrow> ex_loop script (max stop (Suc at)) q)"
  by pat_completeness auto
termination by (relation "measure (\<lambda>(script, at, p). length script - at)") auto

declare ex_loop.simps [simp del]

lemma parse_fold_loop:
  "at \<le> length script \<Longrightarrow>
   rbind (try_fold (ex_parse_step script) (operands_end, p) (enumerate at (drop at script))) (\<lambda>(_, p). f p) =
     rbind (ex_loop script (max operands_end at) p) f"
proof (induction "length script - at" arbitrary: at operands_end p)
  case 0
  then show ?case by (simp add: ex_loop.simps)
next
  case (Suc n)
  then have lt: "at < length script" by simp
  have d: "drop at script = script ! at # drop (Suc at) script" using lt by (rule Cons_nth_drop_Suc [symmetric])
  have ih: "rbind (try_fold (ex_parse_step script) (oe, q) (enumerate (Suc at) (drop (Suc at) script))) (\<lambda>(_, p). f p) =
      rbind (ex_loop script (max oe (Suc at)) q) f" for oe q
    by (rule Suc.hyps(1)) (use Suc.hyps(2) lt in auto)
  show ?case
  proof (cases "at \<ge> operands_end")
    case True
    then have m: "max operands_end at = at" by simp
    show ?thesis
    proof (cases "ex_element script at (script ! at) p")
      case (Inl e)
      then show ?thesis using True lt unfolding m d by (simp add: ex_parse_step_def ex_loop.simps [of script at p])
    next
      case (Inr r)
      obtain stop q where r: "r = (stop, q)" by (cases r)
      have "try_fold (ex_parse_step script) (operands_end, p) (enumerate at (drop at script)) =
          try_fold (ex_parse_step script) (stop, q) (enumerate (Suc at) (drop (Suc at) script))"
        using True Inr r unfolding d by (simp add: ex_parse_step_def)
      moreover have "ex_loop script at p = ex_loop script (max stop (Suc at)) q"
        using lt Inr r by (subst ex_loop.simps) simp
      ultimately show ?thesis using ih [of stop q] unfolding m by simp
    qed
  next
    case False
    then have "try_fold (ex_parse_step script) (operands_end, p) (enumerate at (drop at script)) =
        try_fold (ex_parse_step script) (operands_end, p) (enumerate (Suc at) (drop (Suc at) script))"
      unfolding d by (simp add: ex_parse_step_def)
    moreover have "max operands_end at = max operands_end (Suc at)" using False by simp
    ultimately show ?thesis using ih [of operands_end p] by simp
  qed
qed

lemma read_element_shift:
  assumes "at < length script"
  shows "read_element script at = map_option (\<lambda>(e, n). (e, at + n)) (read_element (drop at script) 0)"
proof -
  have s: "script = take at script @ script ! at # drop (Suc at) script" "drop at script = script ! at # drop (Suc at) script"
    using assms by (simp_all add: id_take_nth_drop Cons_nth_drop_Suc)
  have l: "length (take at script) = at" using assms by simp
  have "read_element script at = read_element (take at script @ script ! at # drop (Suc at) script) (length (take at script))"
    using s l by simp
  also have "\<dots> = map_option (\<lambda>(e, n). (e, at + n)) (read_element (script ! at # drop (Suc at) script) 0)"
  proof -
    note h = read_element_header [of "[]" "script ! at" "drop (Suc at) script", unfolded append_Nil list.size]
    show ?thesis unfolding read_element_header h using l by (auto split: Option.bind_splits)
  qed
  finally show ?thesis using s(2) by simp
qed

text \<open>An open branch of the parser against an open conditional of the resolver.\<close>

definition ob_rel :: "open_branch \<Rightarrow> nat \<times> bool \<Rightarrow> bool" where
  "ob_rel b f \<longleftrightarrow> ob_bit b = 2 ^ fst f \<and> fst f < 16 \<and> snd f = ((ob_otherwise b = None) \<noteq> ob_notif b)"

definition exec_rel :: "exec_parser \<Rightarrow> branch_parser \<Rightarrow> (nat \<times> bool) list \<Rightarrow> bool" where
  "exec_rel p bp fs \<longleftrightarrow>
     branch_inv bp fs \<and> list_all2 ob_rel (xp_open p) fs \<and> xp_next_branch p = bp_next_branch bp
     \<and> xp_next_key p = br_len (bp_out bp)
     \<and> (\<forall>truth. parser_keys truth p = filter (\<lambda>i. active truth (br_keys (bp_out bp) ! i)) [0..<br_len (bp_out bp)])"

lemma and_bit_iff: "k < 16 \<Longrightarrow> (truth :: u16) AND 2 ^ k \<noteq> 0 \<longleftrightarrow> bit truth k"
  by (simp add: and_exp_eq_0_iff_not_bit)

lemma on_path_decisions: "list_all2 ob_rel bs fs \<Longrightarrow> list_all (on_path truth) bs \<longleftrightarrow> list_all id (decisions truth fs)"
  by (induction rule: list_all2_induct) (auto simp: decisions_def on_path_def ob_rel_def and_bit_iff)

lemma list_all2_push_current: "list_all2 ob_rel (xp_open p) fs \<Longrightarrow> list_all2 ob_rel (xp_open (push_current nd p)) fs"
  by (auto simp: push_current_def ob_rel_def list_all2_Cons1 split: list.splits option.splits)

text \<open>A step of the resolver that adds no key, or one.\<close>

lemma active_keys_same:
  assumes "branch_inv bp fs" "branch_inv bp' fs'"
    and "take (br_len (bp_out bp')) (br_keys (bp_out bp')) = take (br_len (bp_out bp)) (br_keys (bp_out bp)) @ new"
  shows "br_len (bp_out bp') = br_len (bp_out bp) + length new"
    and "filter (\<lambda>i. active truth (br_keys (bp_out bp') ! i)) [0..<br_len (bp_out bp')] =
      filter (\<lambda>i. active truth (br_keys (bp_out bp) ! i)) [0..<br_len (bp_out bp)]
      @ filter (\<lambda>i. active truth (new ! (i - br_len (bp_out bp)))) [br_len (bp_out bp)..<br_len (bp_out bp) + length new]"
proof -
  let ?n = "br_len (bp_out bp)" and ?n' = "br_len (bp_out bp')"
  have len: "?n \<le> length (br_keys (bp_out bp))" "?n' \<le> length (br_keys (bp_out bp'))"
    using assms(1,2) by (simp_all add: branch_inv_def)
  show l: "?n' = ?n + length new" using arg_cong [OF assms(3), of length] len by simp
  have nth: "br_keys (bp_out bp') ! i = (if i < ?n then br_keys (bp_out bp) ! i else new ! (i - ?n))" if "i < ?n'" for i
    using arg_cong [OF assms(3), of "\<lambda>xs. xs ! i"] that len by (auto simp: nth_append min_def split: if_splits)
  have "[0..<?n'] = [0..<?n] @ [?n..<?n + length new]" unfolding l by (rule upt_add_eq_append) simp
  then show "filter (\<lambda>i. active truth (br_keys (bp_out bp') ! i)) [0..<?n'] =
      filter (\<lambda>i. active truth (br_keys (bp_out bp) ! i)) [0..<?n]
      @ filter (\<lambda>i. active truth (new ! (i - ?n))) [?n..<?n + length new]"
    using nth l by (auto intro!: arg_cong2 [where f = append] filter_cong)
qed

lemma branch_advance:
  assumes "branch_inv bp fs" "branch_loop bp (opcode # tail) = Ok bp'"
  obtains t width bq fs' new where "next_token (opcode # tail) = Some (t, width)" "step_sim bp fs t bq fs' new"
    and "branch_loop bq (drop width (opcode # tail)) = Ok bp'"
proof -
  obtain width bq where q: "branch_step (opcode # tail) opcode bp = Ok (width, bq)"
    "branch_loop bq (drop width (opcode # tail)) = Ok bp'"
    using assms(2) by (subst (asm) branch_loop.simps) (auto split: sum.splits if_splits)
  with branch_step_sim [OF assms(1) q(1)] that show thesis by blast
qed

lemma exec_rel_quiet:
  assumes "exec_rel p bp fs" "step_sim bp fs t bq fs' []" "list_all2 ob_rel (xp_open q) fs'"
    and "xp_next_branch q = bp_next_branch bq" "xp_next_key q = xp_next_key p" "\<And>truth. parser_keys truth q = parser_keys truth p"
  shows "exec_rel q bq fs'"
proof -
  have inv: "branch_inv bp fs" "branch_inv bq fs'" using assms(1,2) by (simp_all add: exec_rel_def step_sim_def)
  have new: "take (br_len (bp_out bq)) (br_keys (bp_out bq)) = take (br_len (bp_out bp)) (br_keys (bp_out bp)) @ []"
    using assms(2) by (simp add: step_sim_def)
  show ?thesis
    using assms active_keys_same [OF inv new] inv(2) by (simp add: exec_rel_def)
qed

lemma exec_rel_key:
  assumes "exec_rel p bp fs" "step_sim bp fs (TokKeyCheck key) bq fs' new" "br_len (bp_out bp) < 16"
    and "q = push_current (NodeKeyCheck (word_of_nat (xp_next_key p)) v) (p\<lparr>xp_next_key := xp_next_key p + 1\<rparr>)"
  shows "exec_rel q bq fs'"
proof -
  have inv: "branch_inv bp fs" "branch_inv bq fs'" and fs: "fs' = fs"
    and b: "new = [\<lparr>bk_key = key, bk_decision_mask = bp_decision_mask bp, bk_if_mask = bp_if_mask bp\<rparr>]"
    and nb: "bp_next_branch bq = bp_next_branch bp"
    and app: "take (br_len (bp_out bq)) (br_keys (bp_out bq)) = take (br_len (bp_out bp)) (br_keys (bp_out bp)) @ new"
    using assms(1,2) by (auto simp: exec_rel_def step_sim_def)
  note act = active_keys_same [OF inv app]
  have "parser_keys truth (p\<lparr>xp_next_key := n\<rparr>) = parser_keys truth p" for truth n by (simp add: parser_keys_def)
  moreover have "list_all (on_path truth) (xp_open p) \<longleftrightarrow> active truth (hd new)" for truth
    using on_path_decisions [of "xp_open p" fs truth] decisions_active [OF inv(1), of truth key] assms(1) b
    by (simp add: exec_rel_def)
  ultimately have "parser_keys truth q =
      parser_keys truth p @ (if active truth (hd new) then [br_len (bp_out bp)] else [])" for truth
    using assms(1,3) by (simp add: assms(4) push_current_keys exec_rel_def)
  moreover have "list_all2 ob_rel (xp_open q) fs"
    using assms(1) list_all2_push_current [of "p\<lparr>xp_next_key := xp_next_key p + 1\<rparr>" fs] by (simp add: assms(4) exec_rel_def)
  moreover have "xp_next_key q = br_len (bp_out bq)" "xp_next_branch q = bp_next_branch bq"
    using assms(1,4) act(1) nb b by (simp_all add: exec_rel_def)
  ultimately show ?thesis
    using assms(1) inv(2) act(2) unfolding fs by (simp add: exec_rel_def act(1) b)
qed

lemma next_token_simps:
  "next_token (0x63 # tail) = Some (TokIf, 1)" "next_token (0x64 # tail) = Some (TokNotIf, 1)"
  "next_token (0x67 # tail) = Some (TokElse, 1)" "next_token (0x68 # tail) = Some (TokEndIf, 1)"
  by (simp_all add: next_token_def)

lemma next_token_plain:
  "\<not> (0x01 \<le> opcode \<and> opcode \<le> (0x4e :: u8)) \<Longrightarrow> opcode \<notin> {0x63, 0x64, 0x67, 0x68} \<Longrightarrow>
   next_token (opcode # tail) = Some (TokOther, 1)"
  using read_element_plain [of opcode tail] by (auto simp: next_token_def word_le_nat_alt)

lemma step_sim_quiet:
  "step_sim bp fs TokOther bq fs' new \<Longrightarrow> fs' = fs \<and> new = [] \<and> bp_next_branch bq = bp_next_branch bp"
  by (simp add: step_sim_def)

lemma exec_rel_push:
  assumes "exec_rel p bp fs" "step_sim bp fs TokOther bq fs' new" "\<And>truth. node_keys truth [nd] = []"
  shows "exec_rel (push_current nd p) bq fs'"
  using assms step_sim_quiet [OF assms(2)]
  by (intro exec_rel_quiet [OF assms(1), of TokOther])
    (auto simp: exec_rel_def push_current_keys list_all2_push_current)

lemma exec_rel_skip:
  assumes "exec_rel p bp fs" "step_sim bp fs TokOther bq fs' new"
  shows "exec_rel p bq fs'"
proof -
  have new: "new = []" "fs' = fs" "bp_next_branch bq = bp_next_branch bp" using step_sim_quiet [OF assms(2)] by auto
  show ?thesis
    by (rule exec_rel_quiet [OF assms(1) assms(2) [unfolded new(1)]]) (use assms(1) new in \<open>simp_all add: exec_rel_def\<close>)
qed

lemma exec_sim_step:
  assumes rel: "exec_rel p bp fs" and loop: "branch_loop bp (drop at script) = Ok bp'" and lt: "at < length script"
    and el: "ex_element script at (script ! at) p = Ok (stop, q)"
  shows "\<exists>bq gs. exec_rel q bq gs \<and> branch_loop bq (drop (max stop (Suc at)) script) = Ok bp'"
proof -
  define opcode tail where "opcode = script ! at" and "tail = drop (Suc at) script"
  have d: "drop at script = opcode # tail" using lt by (simp add: opcode_def tail_def Cons_nth_drop_Suc)
  have inv: "branch_inv bp fs" using rel by (simp add: exec_rel_def)
  obtain t width bq fs' new where tok: "next_token (opcode # tail) = Some (t, width)" and sim: "step_sim bp fs t bq fs' new"
    and more: "branch_loop bq (drop width (opcode # tail)) = Ok bp'"
    using branch_advance [OF inv loop [unfolded d]] .
  have drp: "drop n (opcode # tail) = drop (at + n) script" for n unfolding d [symmetric] by (simp add: add.commute)
  have el': "ex_element script at opcode p = Ok (stop, q)" using el by (simp add: opcode_def)
  note close = more [unfolded drp]
  consider (enter) "opcode = 0x63 \<or> opcode = 0x64" | (els) "opcode = 0x67" | (leave) "opcode = 0x68" | (key) "opcode = 0x20"
    | (data) "0x01 \<le> opcode" "opcode \<le> 0x4e" "opcode \<noteq> 0x20"
    | (plain) "\<not> (0x01 \<le> opcode \<and> opcode \<le> 0x4e)" "opcode \<notin> {0x63, 0x64, 0x67, 0x68}" by blast
  then show ?thesis
  proof cases
    case enter
    then have e: "ex_enter_branch opcode p = Ok q" "stop = 0" using el' by (auto simp: ex_element_def rbind_Inr_iff)
    have t: "t = (if opcode = 0x63 then TokIf else TokNotIf)" "width = 1" using tok enter by (auto simp: next_token_simps)
    have new: "new = []" "fs' = (bp_next_branch bp, opcode = 0x63) # fs" "bp_next_branch bq = bp_next_branch bp + 1"
      using sim t(1) enter by (auto simp: step_sim_def split: if_splits)
    have "exec_rel q bq fs'"
      by (rule exec_rel_quiet [OF rel sim [unfolded new(1)]])
        (use rel e(1) enter new enter_keys [OF e(1)] in \<open>auto simp: ex_enter_branch_def exec_rel_def ob_rel_def split: if_splits\<close>)
    then show ?thesis using close e(2) t(2) by auto
  next
    case els
    then have e: "ex_enter_else p = Ok q" "stop = 0" using el' by (auto simp: ex_element_def rbind_Inr_iff)
    have t: "t = TokElse" "width = 1" using tok els by (auto simp: next_token_simps)
    obtain k r gs where new: "new = []" "fs = (k, r) # gs" "fs' = (k, \<not> r) # gs" "bp_next_branch bq = bp_next_branch bp"
      using sim t(1) by (auto simp: step_sim_def)
    obtain b bs where b: "xp_open p = b # bs" "ob_otherwise b = None" "q = p\<lparr>xp_open := b\<lparr>ob_otherwise := Some []\<rparr> # bs\<rparr>"
      using e(1) by (auto simp: ex_enter_else_def split: list.splits if_splits)
    have "exec_rel q bq fs'"
      by (rule exec_rel_quiet [OF rel sim [unfolded new(1)]])
        (use rel b new else_keys [OF e(1)] in \<open>auto simp: exec_rel_def ob_rel_def\<close>)
    then show ?thesis using close e(2) t(2) by auto
  next
    case leave
    then have e: "ex_leave_branch p = Ok q" "stop = 0" using el' by (auto simp: ex_element_def rbind_Inr_iff)
    have t: "t = TokEndIf" "width = 1" using tok leave by (auto simp: next_token_simps)
    obtain k r where new: "new = []" "fs = (k, r) # fs'" "bp_next_branch bq = bp_next_branch bp"
      using sim t(1) by (auto simp: step_sim_def)
    obtain b bs nd where b: "xp_open p = b # bs" "q = push_current nd (p\<lparr>xp_open := bs\<rparr>)"
      using e(1) by (auto simp: ex_leave_branch_def split: list.splits)
    have "list_all2 ob_rel (xp_open q) fs'"
      using rel b new list_all2_push_current [of "p\<lparr>xp_open := bs\<rparr>" fs' nd] by (simp add: exec_rel_def)
    then have "exec_rel q bq fs'"
      by (intro exec_rel_quiet [OF rel sim [unfolded new(1)]])
        (use rel b new leave_keys [OF e(1)] in \<open>auto simp: exec_rel_def\<close>)
    then show ?thesis using close e(2) t(2) by auto
  next
    case key
    then have k: "ex_key_push script at p = Ok (stop, q)" using el' by (simp add: ex_element_def OP_DATA_32_def)
    then have len: "at + 33 \<le> length script" by (auto simp: ex_key_push_def split: if_splits)
    have re: "read_element (0x20 # tail) 0 = Some (\<lparr>el_opcode = 0x20, el_data = take 32 tail\<rparr>, 33)"
      using len by (simp add: read_element_key tail_def)
    have at33: "get_at (0x20 # tail) 33 = get_at script (at + 33)"
      using len lt by (auto simp: get_at_def tail_def add.commute)
    show ?thesis
    proof (cases "get_at script (at + 33) = Some 0xac \<or> get_at script (at + 33) = Some 0xad")
      case False
      then have q: "q = push_current NodePush p" "stop = at + 33" using k len by (auto simp: ex_key_push_def Let_def OP_CHECKSIG_def)
      have t: "t = TokOther" "width = 33" using tok key re at33 False by (auto simp: next_token_def)
      have "exec_rel q bq fs'" unfolding q(1) by (rule exec_rel_push [OF rel sim [unfolded t(1)]]) simp
      then show ?thesis using close q(2) t(2) by auto
    next
      case True
      then have q: "stop = at + 34" "xp_next_key p < 16"
        "\<exists>v. q = push_current (NodeKeyCheck (word_of_nat (xp_next_key p)) v) (p\<lparr>xp_next_key := xp_next_key p + 1\<rparr>)"
        using k len by (auto simp: ex_key_push_def Let_def OP_CHECKSIG_def MAX_COVENANT_BRANCH_KEYS_def split: if_splits)
      have t: "t = TokKeyCheck (take 32 tail)" "width = 33" using tok key re at33 True by (auto simp: next_token_def)
      have rel': "exec_rel q bq fs'"
        using exec_rel_key [OF rel sim [unfolded t(1)]] q(2,3) rel by (auto simp: exec_rel_def)
      obtain c where c: "script ! (at + 33) = c" "c = 0xac \<or> c = 0xad" "at + 33 < length script"
        using True by (auto simp: get_at_def split: if_splits)
      have dc: "drop (at + 33) script = c # drop (at + 34) script"
        using c Cons_nth_drop_Suc [of "at + 33" script] by (simp add: add.commute)
      have inv': "branch_inv bq fs'" using sim by (simp add: step_sim_def)
      obtain t' w' br gs new' where adv: "next_token (c # drop (at + 34) script) = Some (t', w')" "step_sim bq fs' t' br gs new'"
        "branch_loop br (drop w' (c # drop (at + 34) script)) = Ok bp'"
        using branch_advance [OF inv' close [unfolded t(2) dc]] .
      have t': "t' = TokOther" "w' = 1" using adv(1) c(2) next_token_plain [of c] by auto
      have "exec_rel q br gs" using exec_rel_skip [OF rel' adv(2) [unfolded t'(1)]] .
      then show ?thesis using adv(3) t'(2) q(1) by auto
    qed
  next
    case data
    have ne: "opcode \<notin> {0x63, 0x64, 0x67, 0x68}" using data by (auto simp: word_le_nat_alt)
    with data el' have "ex_data_push script at p = Ok (stop, q)" by (simp add: ex_element_def OP_DATA_32_def)
    then obtain e where e: "read_element script at = Some (e, stop)" "q = push_current NodePush p"
      by (auto simp: ex_data_push_def rbind_Inr_iff)
    from e(1) read_element_shift [OF lt] d obtain n where n: "read_element (opcode # tail) 0 = Some (e, n)" "stop = at + n"
      by auto
    have "el_opcode e = opcode" using n(1) by (auto simp: read_element_def get_at_def Let_def bind_eq_Some_conv)
    with data n ne tok have t: "t = TokOther" "width = n" by (auto simp: next_token_def)
    have "n > 0" using read_element_inv [OF n(1)] by (simp add: element_bytes_def)
    have "exec_rel q bq fs'" unfolding e(2) by (rule exec_rel_push [OF rel sim [unfolded t(1)]]) simp
    moreover have "max stop (Suc at) = at + n" using n(2) \<open>n > 0\<close> by simp
    ultimately show ?thesis using close t(2) by auto
  next
    case plain
    then have t: "t = TokOther" "width = 1" using tok next_token_plain by auto
    have "opcode \<noteq> 0x20" using plain(1) by (auto simp: word_le_nat_alt)
    then have q: "stop = 0" "q = push_current NodePush p \<or> q = push_current (NodeOp opcode) p"
      using plain el' by (auto simp: ex_element_def OP_DATA_32_def split: if_splits)
    have "exec_rel q bq fs'"
      using q(2) exec_rel_push [OF rel sim [unfolded t(1)], of NodePush] exec_rel_push [OF rel sim [unfolded t(1)], of "NodeOp opcode"]
      by auto
    then show ?thesis using close q(1) t(2) by auto
  qed
qed

lemma exec_sim:
  "ex_loop script at p = Ok p' \<Longrightarrow> branch_loop bp (drop at script) = Ok bp' \<Longrightarrow> exec_rel p bp fs \<Longrightarrow> \<exists>gs. exec_rel p' bp' gs"
proof (induction script at p arbitrary: bp fs rule: ex_loop.induct)
  case (1 script at p)
  show ?case
  proof (cases "length script \<le> at")
    case True
    then have "p' = p" "bp' = bp" using "1.prems" by (simp_all add: ex_loop.simps branch_loop.simps)
    with "1.prems"(3) show ?thesis by blast
  next
    case False
    then obtain stop q where q: "ex_element script at (script ! at) p = Ok (stop, q)" "ex_loop script (max stop (Suc at)) q = Ok p'"
      using "1.prems"(1) by (subst (asm) ex_loop.simps) (auto split: sum.splits)
    from exec_sim_step [OF "1.prems"(3,2) _ q(1)] False obtain bq gs where
      "exec_rel q bq gs" "branch_loop bq (drop (max stop (Suc at)) script) = Ok bp'" by auto
    with "1.IH" [OF False q(1) refl q(2)] show ?thesis by blast
  qed
qed

section \<open>Properties\<close>

lemma selector_mask_bits: "n \<le> 16 \<Longrightarrow> bit (ucast (push_bit n 1 - 1 :: u32) :: u16) k \<longleftrightarrow> k < n \<and> k < 16"
  by (auto simp: bit_ucast_iff bit_mask_iff simp flip: mask_eq_exp_minus_1)

lemma parse_loop:
  "ex_parse script p =
     rbind (ex_loop script 0 p) (\<lambda>p. if xp_open p \<noteq> [] then Err ExMalformedScript
       else Ok (xp_root p, ucast (push_bit (xp_next_branch p) 1 - 1 :: u32)))"
  using parse_fold_loop [of 0 script 0 p] by (simp add: ex_parse_def)

lemma parse_exact:
  assumes "ex_parse script \<lparr>xp_open = [], xp_root = [], xp_next_branch = 0, xp_next_key = 0\<rparr> = Ok (program, m)"
    and "resolve_covenant_branches script = Ok r"
  shows "m = br_selector_mask r"
    and "node_keys truth program = filter (\<lambda>i. active truth (br_keys r ! i)) [0..<br_len r]"
    and "\<And>i. i < br_len r \<Longrightarrow> bk_decision_mask (br_keys r ! i) AND br_selector_mask r = bk_decision_mask (br_keys r ! i)"
proof -
  let ?p = "\<lparr>xp_open = [], xp_root = [], xp_next_branch = 0, xp_next_key = 0\<rparr> :: exec_parser"
  obtain bp where bp: "branch_loop branch_parser_new script = Ok bp" "bp_depth bp = 0" "r = bp_out bp"
    using assms(2) by (auto simp: resolve_covenant_branches_def branch_finish_def rbind_Inr_iff split: if_splits)
  obtain p where p: "ex_loop script 0 ?p = Ok p" "xp_open p = []" "program = xp_root p"
      "m = ucast (push_bit (xp_next_branch p) 1 - 1 :: u32)"
    using assms(1) unfolding parse_loop by (auto simp: rbind_Inr_iff split: if_splits)
  have "exec_rel ?p branch_parser_new []"
    using branch_inv_new by (simp add: exec_rel_def parser_keys_def branch_parser_new_def)
  from exec_sim [OF p(1) _ this, of bp] bp(1) obtain gs where rel: "exec_rel p bp gs" by auto
  then have gs: "gs = []" and inv: "branch_inv bp []" and nb: "xp_next_branch p = bp_next_branch bp" "bp_next_branch bp \<le> 16"
    using p(2) by (auto simp: exec_rel_def branch_inv_def)
  have sel: "bit (br_selector_mask r) k \<longleftrightarrow> k < bp_next_branch bp" if "k < 16" for k
    using inv that by (auto simp: branch_inv_def bp(3))
  show "m = br_selector_mask r"
    using sel selector_mask_bits [OF nb(2)] unfolding p(4) nb(1) u16_eq_iff by auto
  show "node_keys truth program = filter (\<lambda>i. active truth (br_keys r ! i)) [0..<br_len r]"
    using rel p(2,3) by (simp add: exec_rel_def parser_keys_def bp(3))
  from branch_loop_exact [OF branch_inv_new bp(1,2)] obtain new where
    new: "take (br_len r) (br_keys r) = new" "\<forall>b\<in>set new. bk_decision_mask b AND br_selector_mask r = bk_decision_mask b"
    by (auto simp: branch_parser_new_def bp(3))
  show "bk_decision_mask (br_keys r ! i) AND br_selector_mask r = bk_decision_mask (br_keys r ! i)" if "i < br_len r" for i
  proof -
    have "br_len r \<le> length (br_keys r)" using inv by (simp add: branch_inv_def bp(3))
    then have "br_keys r ! i \<in> set new" using that new(1) by (auto simp: in_set_conv_nth)
    then show ?thesis using new(2) by blast
  qed
qed

text \<open>
  (C9) The execution trace and the branch resolver agree. When a trace is returned for an assignment and the resolver accepts
  the script, the assignment sets exactly the resolver's selectors, and the signatures of the trace, in the order they are
  consumed, are for exactly the key positions the resolver reports as matching the assignment, in the order of the script:
  none is missing, and none is asked for on a branch that is not taken.
\<close>

theorem trace_signatures_exact:
  assumes "trace_witness script supplied_mask supplied_true_mask = Ok items"
    and "resolve_covenant_branches script = Ok r"
  shows "supplied_mask = br_selector_mask r
    \<and> signature_positions items =
        filter (\<lambda>i. matches_selectors (br_keys r ! i) supplied_mask supplied_true_mask) [0..<br_len r]"
proof -
  obtain program m w where
    p: "ex_parse script \<lparr>xp_open = [], xp_root = [], xp_next_branch = 0, xp_next_key = 0\<rparr> = Ok (program, m)"
    and m: "supplied_mask = m" and w: "wk_run supplied_true_mask program \<lparr>wk_produced = 0, wk_items = []\<rparr> = Ok w" "items = wk_items w"
    using assms(1) by (auto simp: trace_witness_def rbind_Inr_iff split: if_splits)
  note parse = parse_exact [OF p assms(2)]
  have "signature_positions items = node_keys supplied_true_mask program" using walk_keys(1) [OF w(1)] w(2) by simp
  also have "\<dots> = filter (\<lambda>i. matches_selectors (br_keys r ! i) supplied_mask supplied_true_mask) [0..<br_len r]"
    unfolding parse(2) using parse(1,3) m
    by (intro filter_cong) (auto simp: matches_selectors_def active_def and.commute)
  finally show ?thesis using m parse(1) by simp
qed

theorem trace_signatures_exact_witness:
  "\<exists>items r. trace_witness sample_covenant 0b11 0b01 = Ok items \<and> resolve_covenant_branches sample_covenant = Ok r
     \<and> signature_positions items = filter (\<lambda>i. matches_selectors (br_keys r ! i) 0b11 0b01) [0..<br_len r]
     \<and> items = [WitnessSelector True, WitnessSignature 0]"
proof -
  have "trace_witness sample_covenant 0b11 0b01 = Ok [WitnessSelector True, WitnessSignature 0]" by code_simp
  moreover have "case resolve_covenant_branches sample_covenant of Inl _ \<Rightarrow> False | Inr _ \<Rightarrow> True" by code_simp
  then obtain r where "resolve_covenant_branches sample_covenant = Ok r" by (auto split: sum.splits)
  ultimately show ?thesis using trace_signatures_exact [of sample_covenant "0b11" "0b01"] by blast
qed

end
