(* ===== verification/Contract_Script.thy ===== *)
theory Contract_Script
  imports Script
begin

text \<open>
  The script toolkit of the contracts (\<open>primitives/opcode.rs\<close>, \<open>contract/script/*.rs\<close>): pushes of integers, data and
  keys, the integer an element stands for, the search for the integer in front of an opcode, and the elements of a
  whole script.

  A function that appends to a \<open>&mut Vec<u8>\<close> returns the bytes it appends, so a builder is the concatenation of its
  pushes in order. \<open>push_data\<close> panics on four gigabytes or more, which is \<open>None\<close>; \<open>script_of\<close> concatenates the
  pushes of a builder that uses it. An array argument \<open>[u8; N]\<close> is a list, and \<open>try_into\<close> checks its length.
\<close>

unbundle bit_operations_syntax

section \<open>Definitions\<close>

definition OP_2 :: u8 where "OP_2 = 0x52"
definition OP_3 :: u8 where "OP_3 = 0x53"
definition OP_4 :: u8 where "OP_4 = 0x54"
definition OP_5 :: u8 where "OP_5 = 0x55"
definition OP_IF :: u8 where "OP_IF = 0x63"
definition OP_ELSE :: u8 where "OP_ELSE = 0x67"
definition OP_ENDIF :: u8 where "OP_ENDIF = 0x68"
definition OP_VERIFY :: u8 where "OP_VERIFY = 0x69"
definition OP_DROP :: u8 where "OP_DROP = 0x75"
definition OP_DUP :: u8 where "OP_DUP = 0x76"
definition OP_PICK :: u8 where "OP_PICK = 0x79"
definition OP_SWAP :: u8 where "OP_SWAP = 0x7c"
definition OP_CAT :: u8 where "OP_CAT = 0x7e"
definition OP_SUBSTR :: u8 where "OP_SUBSTR = 0x7f"
definition OP_EQUALVERIFY :: u8 where "OP_EQUALVERIFY = 0x88"
definition OP_NOT :: u8 where "OP_NOT = 0x91"
definition OP_ADD :: u8 where "OP_ADD = 0x93"
definition OP_SUB :: u8 where "OP_SUB = 0x94"
definition OP_NUMEQUALVERIFY :: u8 where "OP_NUMEQUALVERIFY = 0x9d"
definition OP_LESSTHANOREQUAL :: u8 where "OP_LESSTHANOREQUAL = 0xa1"
definition OP_GREATERTHANOREQUAL :: u8 where "OP_GREATERTHANOREQUAL = 0xa2"
definition OP_WITHIN :: u8 where "OP_WITHIN = 0xa5"
definition OP_ZK_PRECOMPILE :: u8 where "OP_ZK_PRECOMPILE = 0xa6"
definition OP_SHA256 :: u8 where "OP_SHA256 = 0xa8"
definition OP_CHECKSIGVERIFY :: u8 where "OP_CHECKSIGVERIFY = 0xad"
definition OP_CHECKLOCKTIMEVERIFY :: u8 where "OP_CHECKLOCKTIMEVERIFY = 0xb0"
definition OP_CHECKSEQUENCEVERIFY :: u8 where "OP_CHECKSEQUENCEVERIFY = 0xb1"
definition OP_TX_INPUT_COUNT :: u8 where "OP_TX_INPUT_COUNT = 0xb3"
definition OP_TX_OUTPUT_COUNT :: u8 where "OP_TX_OUTPUT_COUNT = 0xb4"
definition OP_TX_INPUT_INDEX :: u8 where "OP_TX_INPUT_INDEX = 0xb9"
definition OP_TX_INPUT_SCRIPT_SIG_SUBSTR :: u8 where "OP_TX_INPUT_SCRIPT_SIG_SUBSTR = 0xbc"
definition OP_TX_INPUT_AMOUNT :: u8 where "OP_TX_INPUT_AMOUNT = 0xbe"
definition OP_TX_INPUT_SPK :: u8 where "OP_TX_INPUT_SPK = 0xbf"
definition OP_TX_OUTPUT_AMOUNT :: u8 where "OP_TX_OUTPUT_AMOUNT = 0xc2"
definition OP_TX_OUTPUT_SPK :: u8 where "OP_TX_OUTPUT_SPK = 0xc3"
definition OP_TX_INPUT_SCRIPT_SIG_LEN :: u8 where "OP_TX_INPUT_SCRIPT_SIG_LEN = 0xc9"
definition OP_AUTH_OUTPUT_COUNT :: u8 where "OP_AUTH_OUTPUT_COUNT = 0xcb"
definition OP_INPUT_COVENANT_ID :: u8 where "OP_INPUT_COVENANT_ID = 0xcf"
definition OP_COV_INPUT_COUNT :: u8 where "OP_COV_INPUT_COUNT = 0xd0"
definition OP_COV_OUTPUT_COUNT :: u8 where "OP_COV_OUTPUT_COUNT = 0xd2"
definition OP_COV_OUTPUT_IDX :: u8 where "OP_COV_OUTPUT_IDX = 0xd3"
definition OP_OUTPUT_COVENANT_ID :: u8 where "OP_OUTPUT_COVENANT_ID = 0xd5"
definition OP_CHECKSIGFROMSTACK :: u8 where "OP_CHECKSIGFROMSTACK = 0xd7"

lemmas contract_opcode_defs =
  OP_2_def OP_3_def OP_4_def OP_5_def OP_IF_def OP_ELSE_def OP_ENDIF_def OP_VERIFY_def OP_DROP_def OP_DUP_def
  OP_PICK_def OP_SWAP_def OP_CAT_def OP_SUBSTR_def OP_EQUALVERIFY_def OP_NOT_def OP_ADD_def OP_SUB_def
  OP_NUMEQUALVERIFY_def OP_LESSTHANOREQUAL_def OP_GREATERTHANOREQUAL_def OP_WITHIN_def OP_ZK_PRECOMPILE_def
  OP_SHA256_def OP_CHECKSIGVERIFY_def OP_CHECKLOCKTIMEVERIFY_def OP_CHECKSEQUENCEVERIFY_def OP_TX_INPUT_COUNT_def
  OP_TX_OUTPUT_COUNT_def OP_TX_INPUT_INDEX_def OP_TX_INPUT_SCRIPT_SIG_SUBSTR_def OP_TX_INPUT_AMOUNT_def
  OP_TX_INPUT_SPK_def OP_TX_OUTPUT_AMOUNT_def OP_TX_OUTPUT_SPK_def OP_TX_INPUT_SCRIPT_SIG_LEN_def
  OP_AUTH_OUTPUT_COUNT_def OP_INPUT_COVENANT_ID_def OP_COV_INPUT_COUNT_def OP_COV_OUTPUT_COUNT_def
  OP_COV_OUTPUT_IDX_def OP_OUTPUT_COVENANT_ID_def OP_CHECKSIGFROMSTACK_def

text \<open>\<open>while bytes.last() == Some(&0) { bytes.pop(); }\<close>\<close>

definition pop_zeros :: "bytes \<Rightarrow> bytes" where
  "pop_zeros bs = rev (dropWhile (\<lambda>b. b = 0) (rev bs))"

text \<open>The bytes of an integer above 16: no trailing zeros, and a zero sign byte when the top bit is set.\<close>

definition script_int_bytes :: "u64 \<Rightarrow> bytes" where
  "script_int_bytes v =
     (let bs = pop_zeros (u64_to_le v) in
      if bs \<noteq> [] \<and> List.last bs AND 0x80 \<noteq> 0 then bs @ [0] else bs)"

definition push_int :: "u64 \<Rightarrow> bytes" where
  "push_int v =
     (if v = 0 then [OP_0]
      else if v \<le> 16 then [0x50 + ucast v]
      else let bs = script_int_bytes v in word_of_nat (length bs) # bs)"

definition push_data :: "bytes \<Rightarrow> bytes option" where
  "push_data data =
     (let n = length data in
      if n \<le> 75 then Some (word_of_nat n # data)
      else if n \<le> 255 then Some (0x4c # word_of_nat n # data)
      else if n \<le> 65535 then Some (0x4d # u16_to_le (word_of_nat n) @ data)
      else if n \<le> u32_max then Some (0x4e # u32_to_le (word_of_nat n) @ data)
      else None)"

definition push_pubkey :: "bytes \<Rightarrow> bytes" where
  "push_pubkey key = 0x20 # key"

fun script_of :: "bytes option list \<Rightarrow> bytes option" where
  "script_of [] = Some []"
| "script_of (p # ps) = Option.bind p (\<lambda>b. Option.bind (script_of ps) (\<lambda>bs. Some (b @ bs)))"

datatype script_item = ItemOpcode | ItemInteger u64 | ItemOversized

definition read_script_int :: "bytes \<Rightarrow> u64" where
  "read_script_int data = u64_from_le (data @ replicate (8 - length data) 0)"

definition classify_push :: "bytes \<Rightarrow> script_item" where
  "classify_push data = (if length data > 8 then ItemOversized else ItemInteger (read_script_int data))"

definition classify_element :: "element \<Rightarrow> script_item" where
  "classify_element e =
     (if is_push e then classify_push (el_data e)
      else if OP_1 \<le> el_opcode e \<and> el_opcode e \<le> OP_16 then ItemInteger (ucast (el_opcode e - OP_1 + 1))
      else ItemOpcode)"

datatype script_error = TruncatedScriptItem | ScriptIntegerTooLong

definition next_script_item :: "bytes \<Rightarrow> nat \<Rightarrow> script_error + nat \<times> script_item" where
  "next_script_item script at =
     rbind (ok_or (read_element script at) TruncatedScriptItem) (\<lambda>(e, nxt). Ok (nxt, classify_element e))"

definition element_integer :: "element \<Rightarrow> u64 option" where
  "element_integer e =
     (let e = (if el_data e \<noteq> [] \<and> List.last (el_data e) = 0 then e\<lparr>el_data := butlast (el_data e)\<rparr> else e) in
      case classify_element e of ItemInteger v \<Rightarrow> Some v | _ \<Rightarrow> None)"

text \<open>The \<open>for\<close> loop of \<open>find_preceding_script_integer\<close>, with the number of rounds left.\<close>

fun find_preceding_loop :: "nat \<Rightarrow> bytes \<Rightarrow> u8 \<Rightarrow> nat \<Rightarrow> script_item \<Rightarrow> script_error + u64 option" where
  "find_preceding_loop 0 script target at previous = Ok None"
| "find_preceding_loop (Suc n) script target at previous =
     (case get_at script at of
        None \<Rightarrow> Ok None
      | Some opcode \<Rightarrow>
          if opcode = target
          then (case previous of
                  ItemInteger v \<Rightarrow> Ok (Some v)
                | ItemOversized \<Rightarrow> Err ScriptIntegerTooLong
                | ItemOpcode \<Rightarrow> Ok None)
          else rbind (next_script_item script at) (\<lambda>(nxt, item). find_preceding_loop n script target nxt item))"

definition find_preceding_script_integer :: "bytes \<Rightarrow> u8 \<Rightarrow> script_error + u64 option" where
  "find_preceding_script_integer script target = find_preceding_loop (length script) script target 0 ItemOpcode"

definition extract_cltv_locktime :: "bytes \<Rightarrow> script_error + u64 option" where
  "extract_cltv_locktime script = find_preceding_script_integer script OP_CHECKLOCKTIMEVERIFY"

definition extract_csv_sequence :: "bytes \<Rightarrow> script_error + u64 option" where
  "extract_csv_sequence script = find_preceding_script_integer script OP_CHECKSEQUENCEVERIFY"

definition item_end :: "bytes \<Rightarrow> nat \<Rightarrow> nat option" where
  "item_end script offset = map_option snd (read_element script offset)"

fun opcode_pair_loop :: "nat \<Rightarrow> bytes \<Rightarrow> u8 \<Rightarrow> u8 \<Rightarrow> nat \<Rightarrow> bool" where
  "opcode_pair_loop 0 script a b offset = False"
| "opcode_pair_loop (Suc n) script a b offset =
     (case get_at script offset of
        None \<Rightarrow> False
      | Some opcode \<Rightarrow>
          if opcode = a \<and> get_at script (offset + 1) = Some b then True
          else (case item_end script offset of
                  None \<Rightarrow> False
                | Some nxt \<Rightarrow> opcode_pair_loop n script a b nxt))"

definition contains_opcode_pair :: "bytes \<Rightarrow> u8 \<Rightarrow> u8 \<Rightarrow> bool" where
  "contains_opcode_pair script a b = opcode_pair_loop (length script) script a b 0"

definition complete_elements :: "bytes \<Rightarrow> element list option" where
  "complete_elements script = (let (collected, it) = walk (elements script) in if is_complete it then Some collected else None)"

text \<open>\<open>elements.get(i)?.data.try_into().ok()?\<close> into an array, \<open>element_integer(elements.get(i)?)?\<close>, and the tail \<open>data.get(2..)?\<close>.\<close>

definition array_at :: "nat \<Rightarrow> element list \<Rightarrow> nat \<Rightarrow> bytes option" where
  "array_at n es i = Option.bind (get_at es i) (\<lambda>e. if length (el_data e) = n then Some (el_data e) else None)"

definition integer_at :: "element list \<Rightarrow> nat \<Rightarrow> u64 option" where
  "integer_at es i = Option.bind (get_at es i) element_integer"

definition tail_at :: "element list \<Rightarrow> nat \<Rightarrow> bytes option" where
  "tail_at es i = Option.bind (get_at es i) (\<lambda>e. if 2 \<le> length (el_data e) then Some (drop 2 (el_data e)) else None)"

section \<open>Elements of a builder\<close>

text \<open>The element each push stands for.\<close>

definition op_element :: "u8 \<Rightarrow> element" where
  "op_element c = \<lparr>el_opcode = c, el_data = []\<rparr>"

definition key_element :: "bytes \<Rightarrow> element" where
  "key_element key = \<lparr>el_opcode = 0x20, el_data = key\<rparr>"

definition int_element :: "u64 \<Rightarrow> element" where
  "int_element v =
     (if v = 0 then op_element OP_0
      else if v \<le> 16 then op_element (0x50 + ucast v)
      else \<lparr>el_opcode = word_of_nat (length (script_int_bytes v)), el_data = script_int_bytes v\<rparr>)"

definition data_element :: "bytes \<Rightarrow> element" where
  "data_element data =
     \<lparr>el_opcode = (if length data \<le> 75 then word_of_nat (length data) else if length data \<le> 255 then 0x4c
                  else if length data \<le> 65535 then 0x4d else 0x4e), el_data = data\<rparr>"

definition plain_op :: "u8 \<Rightarrow> bool" where
  "plain_op c \<longleftrightarrow> c = 0 \<or> 0x4e < c"

named_theorems script_simps \<open>how pushes, elements and their accessors evaluate\<close>

lemma plain_ops [simp]:
  "plain_op OP_0" "plain_op OP_1" "plain_op OP_2" "plain_op OP_IF" "plain_op OP_ELSE" "plain_op OP_ENDIF"
  "plain_op OP_VERIFY" "plain_op OP_DROP" "plain_op OP_DUP" "plain_op OP_PICK" "plain_op OP_SWAP" "plain_op OP_CAT"
  "plain_op OP_SUBSTR" "plain_op OP_EQUAL" "plain_op OP_EQUALVERIFY" "plain_op OP_NOT" "plain_op OP_ADD"
  "plain_op OP_SUB" "plain_op OP_NUMEQUALVERIFY" "plain_op OP_LESSTHANOREQUAL" "plain_op OP_GREATERTHANOREQUAL"
  "plain_op OP_WITHIN" "plain_op OP_ZK_PRECOMPILE" "plain_op OP_SHA256" "plain_op OP_BLAKE2B" "plain_op OP_CHECKSIG"
  "plain_op OP_CHECKSIGVERIFY" "plain_op OP_CHECKLOCKTIMEVERIFY" "plain_op OP_CHECKSEQUENCEVERIFY"
  "plain_op OP_TX_INPUT_COUNT" "plain_op OP_TX_OUTPUT_COUNT" "plain_op OP_TX_INPUT_INDEX"
  "plain_op OP_TX_INPUT_SCRIPT_SIG_SUBSTR" "plain_op OP_TX_INPUT_AMOUNT" "plain_op OP_TX_INPUT_SPK"
  "plain_op OP_TX_OUTPUT_AMOUNT" "plain_op OP_TX_OUTPUT_SPK" "plain_op OP_TX_INPUT_SCRIPT_SIG_LEN"
  "plain_op OP_AUTH_OUTPUT_COUNT" "plain_op OP_INPUT_COVENANT_ID" "plain_op OP_COV_INPUT_COUNT"
  "plain_op OP_COV_OUTPUT_COUNT" "plain_op OP_COV_OUTPUT_IDX" "plain_op OP_OUTPUT_COVENANT_ID"
  "plain_op OP_CHECKSIGFROMSTACK"
  by (simp_all add: plain_op_def opcode_defs contract_opcode_defs)

lemma op_element_bytes [script_simps]: "plain_op c \<Longrightarrow> element_bytes (op_element c) = [c]"
  by (auto simp: plain_op_def op_element_def element_bytes_def length_field_def opcode_defs)

lemma op_element_ok [script_simps]: "plain_op c \<Longrightarrow> element_ok (op_element c)"
  by (auto simp: plain_op_def op_element_def element_ok_def opcode_defs word_le_nat_alt word_less_nat_alt)

lemma key_element_bytes [script_simps]: "element_bytes (key_element key) = push_pubkey key"
  by (simp add: key_element_def element_bytes_def length_field_def opcode_defs push_pubkey_def)

lemma key_element_ok [script_simps]: "length key = 32 \<Longrightarrow> element_ok (key_element key)"
  by (simp add: key_element_def element_ok_def)

lemma data_element_bytes [script_simps]: "length data < 2 ^ 32 \<Longrightarrow> push_data data = Some (element_bytes (data_element data))"
proof -
  have "(word_of_nat (length data) :: u8) \<noteq> 0x4c" "(word_of_nat (length data) :: u8) \<noteq> 0x4d"
    "(word_of_nat (length data) :: u8) \<noteq> 0x4e" if "length data \<le> 75"
    using that by (auto simp: word_unat_eq_iff)
  moreover assume "length data < 2 ^ 32"
  ultimately show ?thesis
    by (auto simp: push_data_def data_element_def element_bytes_def length_field_def opcode_defs u32_max_def)
qed

lemma data_element_ok [script_simps]: "length data < 2 ^ 32 \<Longrightarrow> element_ok (data_element data)"
  by (auto simp: data_element_def element_ok_def opcode_defs word_le_nat_alt word_unat_eq_iff not_less_eq_eq)

lemma element_data [script_simps]:
  "el_data (op_element c) = []" "el_data (key_element key) = key" "el_data (data_element data) = data"
  "el_opcode (op_element c) = c" "el_opcode (key_element key) = 0x20"
  by (simp_all add: op_element_def key_element_def data_element_def)

lemma complete_elements_bytes:
  "list_all element_ok es \<Longrightarrow> complete_elements (concat (map element_bytes es)) = Some es"
  using walk_bytes [of es "[]"] by (auto simp: complete_elements_def elements_def iter_at_def is_complete_def)

lemma complete_elements_inv:
  "complete_elements script = Some es \<Longrightarrow> list_all element_ok es \<and> script = concat (map element_bytes es)"
  using walk_inv [of "elements script" es] by (auto simp: complete_elements_def elements_def split: if_splits prod.splits)

lemma get_at_numeral [simp]: "get_at (x # xs) (numeral n) = get_at xs (pred_numeral n)"
  by (simp add: numeral_eq_Suc)

lemma get_at_one [simp]: "get_at (x # xs) 1 = get_at xs 0"
  by (simp add: One_nat_def del: One_nat_def [symmetric])

section \<open>Script integers\<close>

lemma le_nat_append: "le_nat (xs @ ys) = le_nat xs + 256 ^ length xs * le_nat ys"
  by (induction xs) (auto simp: algebra_simps)

lemma le_nat_zeros [simp]: "le_nat (replicate k 0) = 0"
  by (induction k) auto

lemma pop_zeros_last: "pop_zeros bs \<noteq> [] \<Longrightarrow> List.last (pop_zeros bs) \<noteq> 0"
  unfolding pop_zeros_def last_rev rev_is_Nil_conv by (rule hd_dropWhile)

lemma pop_zeros_append: "\<exists>k. bs = pop_zeros bs @ replicate k 0"
proof -
  have "rev bs = takeWhile (\<lambda>b. b = 0) (rev bs) @ dropWhile (\<lambda>b. b = 0) (rev bs)" by simp
  moreover have "takeWhile (\<lambda>b. b = 0) (rev bs) = replicate (length (takeWhile (\<lambda>b. b = 0) (rev bs))) 0"
    by (metis (mono_tags, lifting) replicate_length_same set_takeWhileD)
  ultimately have "bs = pop_zeros bs @ rev (replicate (length (takeWhile (\<lambda>b. b = 0) (rev bs))) 0)"
    unfolding pop_zeros_def by (metis rev_append rev_rev_ident)
  then show ?thesis by auto
qed

lemma le_nat_pop_zeros: "le_nat (pop_zeros bs) = le_nat bs"
proof -
  obtain k where "bs = pop_zeros bs @ replicate k 0" using pop_zeros_append by blast
  then have "le_nat bs = le_nat (pop_zeros bs @ replicate k 0)" by simp
  then show ?thesis by (simp add: le_nat_append)
qed

lemma length_pop_zeros: "length (pop_zeros bs) \<le> length bs"
  by (simp add: pop_zeros_def) (metis length_dropWhile_le length_rev)

lemma sign_bit_iff: "(b :: u8) AND 0x80 \<noteq> 0 \<longleftrightarrow> 128 \<le> unat b"
proof -
  have "b AND 0x80 = 0 \<longleftrightarrow> \<not> bit b 7" using and_exp_eq_0_iff_not_bit [of b 7] by simp
  moreover have "bit b 7 \<longleftrightarrow> odd (unat b div 128)"
    using bit_unsigned_iff [where ?'a = nat and w = b and n = 7] by (simp add: bit_iff_odd)
  moreover have "unat b div 128 = (if 128 \<le> unat b then 1 else 0)"
    using unat_u8_less [of b] by (auto simp: div_eq_0_iff)
  ultimately show ?thesis by simp
qed

lemma read_script_int_le: "length data \<le> 8 \<Longrightarrow> unat (read_script_int data) = le_nat data"
  using le_nat_bound [of data] power_increasing [of "length data" 8 "256 :: nat"]
  by (simp add: read_script_int_def u64_from_le_def le_nat_append unat_of_nat take_bit_eq_mod)

lemma le_nat_u64: "le_nat (u64_to_le v) = unat v"
  using unat_bound [of v] by (simp add: u64_to_le_def le_nat_le_bytes)

definition int_magnitude :: "u64 \<Rightarrow> bytes" where
  "int_magnitude v = pop_zeros (u64_to_le v)"

lemma int_magnitude:
  shows "length (int_magnitude v) \<le> 8" and "le_nat (int_magnitude v) = unat v"
    and "v \<noteq> 0 \<Longrightarrow> int_magnitude v \<noteq> [] \<and> List.last (int_magnitude v) \<noteq> 0"
proof -
  show l: "length (int_magnitude v) \<le> 8" using length_pop_zeros [of "u64_to_le v"] by (simp add: int_magnitude_def)
  show n: "le_nat (int_magnitude v) = unat v" by (simp add: int_magnitude_def le_nat_pop_zeros le_nat_u64)
  show "int_magnitude v \<noteq> [] \<and> List.last (int_magnitude v) \<noteq> 0" if "v \<noteq> 0"
  proof -
    have "int_magnitude v \<noteq> []" using n that by (auto simp: unat_eq_0)
    then show ?thesis using pop_zeros_last by (auto simp: int_magnitude_def)
  qed
qed

lemma int_magnitude_sign:
  "length (int_magnitude v) = 8 \<and> 128 \<le> unat (List.last (int_magnitude v)) \<longleftrightarrow> 2 ^ 63 \<le> unat v"
proof (cases "length (int_magnitude v) = 8")
  case True
  then obtain xs b where m: "int_magnitude v = xs @ [b]" "length xs = 7"
    by (cases "int_magnitude v" rule: rev_cases) auto
  then have v: "unat v = le_nat xs + 256 ^ 7 * unat b" using int_magnitude(2) [of v] by (simp add: le_nat_append)
  have "le_nat xs < 256 ^ 7" using le_nat_bound [of xs] m(2) by simp
  then have "2 ^ 63 \<le> unat v \<longleftrightarrow> 128 \<le> unat b" unfolding v by simp arith
  then show ?thesis using m by simp
next
  case False
  then have l: "length (int_magnitude v) \<le> 7" using int_magnitude(1) [of v] by linarith
  have "unat v < 256 ^ 7"
    using le_nat_bound [of "int_magnitude v"] int_magnitude(2) [of v]
      power_increasing [OF l, of "256 :: nat"] by simp
  then show ?thesis using False by simp
qed

lemma script_int_bytes_magnitude:
  "v \<noteq> 0 \<Longrightarrow> script_int_bytes v =
     (if 128 \<le> unat (List.last (int_magnitude v)) then int_magnitude v @ [0] else int_magnitude v)"
  using int_magnitude(3) [of v] by (simp add: script_int_bytes_def int_magnitude_def Let_def sign_bit_iff)

lemma length_script_int_bytes: "v \<noteq> 0 \<Longrightarrow> 1 \<le> length (script_int_bytes v) \<and> length (script_int_bytes v) \<le> 9"
  using int_magnitude [of v] by (cases "int_magnitude v") (auto simp: script_int_bytes_magnitude)

lemma small_int_opcode:
  assumes "v \<noteq> 0" "v \<le> (16 :: u64)"
  shows "unat (0x50 + ucast v :: u8) = 80 + unat v"
  using assms by (simp add: unat_word_ariths word_le_nat_alt take_bit_eq_mod unsigned_ucast_eq)

lemma int_element_bytes [script_simps]: "element_bytes (int_element v) = push_int v"
proof -
  have "plain_op (0x50 + ucast v)" if "v \<noteq> 0" "v \<le> 16"
    using small_int_opcode [OF that] by (simp add: plain_op_def word_less_nat_alt)
  moreover have "element_bytes \<lparr>el_opcode = word_of_nat (length (script_int_bytes v)), el_data = script_int_bytes v\<rparr>
      = word_of_nat (length (script_int_bytes v)) # script_int_bytes v" if "v \<noteq> 0"
    using length_script_int_bytes [OF that]
    by (simp add: element_bytes_def length_field_def opcode_defs word_unat_eq_iff)
  ultimately show ?thesis by (simp add: int_element_def push_int_def op_element_bytes Let_def)
qed

lemma int_element_ok [script_simps]: "element_ok (int_element v)"
proof -
  have "plain_op (0x50 + ucast v)" if "v \<noteq> 0" "v \<le> 16"
    using small_int_opcode [OF that] by (simp add: plain_op_def word_less_nat_alt)
  moreover have "element_ok \<lparr>el_opcode = word_of_nat (length (script_int_bytes v)), el_data = script_int_bytes v\<rparr>" if "v \<noteq> 0"
    using length_script_int_bytes [OF that] by (simp add: element_ok_def word_le_nat_alt)
  ultimately show ?thesis by (simp add: int_element_def op_element_ok)
qed

lemma is_push_int: "v \<noteq> 0 \<Longrightarrow> is_push \<lparr>el_opcode = word_of_nat (length (script_int_bytes v)), el_data = d\<rparr>"
  using length_script_int_bytes [of v] by (simp add: is_push_def opcode_defs word_le_nat_alt)

lemma classify_small_int: "v \<noteq> 0 \<Longrightarrow> v \<le> 16 \<Longrightarrow> classify_element (op_element (0x50 + ucast v)) = ItemInteger v"
  using small_int_opcode [of v]
  by (auto simp: classify_element_def is_push_def op_element_def opcode_defs word_le_nat_alt word_unat_eq_iff
      unsigned_ucast_eq unat_word_ariths take_bit_eq_mod unat_sub)

lemma classify_int_element [script_simps]:
  "classify_element (int_element v) = (if v < 2 ^ 63 then ItemInteger v else ItemOversized)"
proof -
  consider "v = 0" | "v \<noteq> 0" "v \<le> 16" | "v \<noteq> 0" "\<not> v \<le> 16" by blast
  then show ?thesis
  proof cases
    case 1
    then show ?thesis
      by (simp add: int_element_def op_element_def classify_element_def is_push_def opcode_defs classify_push_def
          read_script_int_def u64_from_le_def)
  next
    case 2
    then have "v < 2 ^ 63" by (simp add: word_le_nat_alt word_less_nat_alt)
    with 2 show ?thesis by (simp add: int_element_def classify_small_int)
  next
    case 3
    have r: "read_script_int (int_magnitude v) = v" "length (int_magnitude v) < 8 \<Longrightarrow> read_script_int (int_magnitude v @ [0]) = v"
      using int_magnitude [of v] read_script_int_le [of "int_magnitude v"] read_script_int_le [of "int_magnitude v @ [0]"]
      by (simp_all add: word_unat_eq_iff le_nat_append)
    have big: "v < 2 ^ 63 \<longleftrightarrow> \<not> (length (int_magnitude v) = 8 \<and> 128 \<le> unat (List.last (int_magnitude v)))"
      unfolding int_magnitude_sign by (simp add: word_less_nat_alt not_le)
    have "classify_push (script_int_bytes v) = (if v < 2 ^ 63 then ItemInteger v else ItemOversized)"
      unfolding big using 3(1) r int_magnitude(1) [of v] by (auto simp: classify_push_def script_int_bytes_magnitude)
    with 3 show ?thesis by (simp add: int_element_def classify_element_def is_push_int)
  qed
qed

lemma element_integer_int [script_simps]: "element_integer (int_element v) = Some v"
proof -
  consider "v = 0" | "v \<noteq> 0" "v \<le> 16" | "v \<noteq> 0" "\<not> v \<le> 16" by blast
  then show ?thesis
  proof cases
    case 1
    then show ?thesis using classify_int_element [of 0]
      by (simp add: int_element_def element_integer_def op_element_def)
  next
    case 2
    then show ?thesis using classify_small_int [of v]
      by (simp add: int_element_def element_integer_def op_element_def)
  next
    case 3
    have "classify_push (int_magnitude v) = ItemInteger v"
      using int_magnitude [of v] read_script_int_le [of "int_magnitude v"]
      by (simp add: classify_push_def word_unat_eq_iff)
    with 3 int_magnitude(3) [of v] is_push_int [of v] show ?thesis
      by (auto simp: int_element_def element_integer_def script_int_bytes_magnitude classify_element_def)
  qed
qed

section \<open>Searching a script\<close>

fun scan_items :: "u8 \<Rightarrow> script_item \<Rightarrow> element list \<Rightarrow> script_error + u64 option" where
  "scan_items target previous [] = Ok None"
| "scan_items target previous (e # es) =
     (if el_opcode e = target
      then (case previous of
              ItemInteger v \<Rightarrow> Ok (Some v) | ItemOversized \<Rightarrow> Err ScriptIntegerTooLong | ItemOpcode \<Rightarrow> Ok None)
      else scan_items target (classify_element e) es)"

lemma find_preceding_loop_elements:
  "list_all element_ok es \<Longrightarrow> length (concat (map element_bytes es)) \<le> n \<Longrightarrow>
   find_preceding_loop n (p @ concat (map element_bytes es)) target (length p) previous = scan_items target previous es"
proof (induction es arbitrary: p n previous)
  case Nil
  then show ?case by (cases n) (simp_all add: get_at_def)
next
  case (Cons e es)
  let ?rest = "concat (map element_bytes es)"
  have "length (element_bytes e) > 0" by (simp add: element_bytes_def)
  moreover have "length (element_bytes e) + length ?rest \<le> n" using Cons.prems(2) by simp
  ultimately have "n = Suc (n - 1)" "length ?rest \<le> n - 1" by linarith+
  then obtain m where n: "n = Suc m" "length ?rest \<le> m" by blast
  have r: "read_element (p @ element_bytes e @ ?rest) (length p) = Some (e, length (p @ element_bytes e))"
    using read_element_bytes [of e p ?rest] Cons.prems(1) by simp
  have g: "get_at (p @ element_bytes e @ ?rest) (length p) = Some (el_opcode e)"
    using get_at_append [of p "element_bytes e @ ?rest" 0] by (simp add: element_bytes_def)
  show ?case
    using Cons.IH [of m "p @ element_bytes e" "classify_element e"] Cons.prems(1) n g r
    by (simp add: next_script_item_def)
qed

lemma find_preceding_elements [script_simps]:
  "list_all element_ok es \<Longrightarrow>
   find_preceding_script_integer (concat (map element_bytes es)) target = scan_items target ItemOpcode es"
  using find_preceding_loop_elements [of es _ "[]"] by (simp add: find_preceding_script_integer_def)

lemma extract_elements [script_simps]:
  assumes "list_all element_ok es"
  shows "extract_cltv_locktime (concat (map element_bytes es)) = scan_items OP_CHECKLOCKTIMEVERIFY ItemOpcode es"
    and "extract_csv_sequence (concat (map element_bytes es)) = scan_items OP_CHECKSEQUENCEVERIFY ItemOpcode es"
  using assms by (simp_all add: extract_cltv_locktime_def extract_csv_sequence_def find_preceding_elements)

lemma classify_op_element [script_simps]: "0x60 < c \<Longrightarrow> classify_element (op_element c) = ItemOpcode"
  by (auto simp: classify_element_def op_element_def is_push_def opcode_defs word_le_nat_alt word_less_nat_alt)

text \<open>The integer in front of a script, an opcode and what follows it.\<close>

lemma int_element_opcode: "unat (el_opcode (int_element v)) \<le> 96"
proof -
  have "unat (0x50 + ucast v :: u8) \<le> 96" if "v \<noteq> 0" "v \<le> 16"
    using small_int_opcode [OF that] that by (simp add: word_le_nat_alt)
  moreover have "unat (word_of_nat (length (script_int_bytes v)) :: u8) \<le> 96" if "v \<noteq> 0"
    using length_script_int_bytes [OF that] by simp
  ultimately show ?thesis by (simp add: int_element_def op_element_def opcode_defs)
qed

lemma int_element_not_op [script_simps]: "0x60 < c \<Longrightarrow> el_opcode (int_element v) \<noteq> c"
  using int_element_opcode [of v] by (auto simp: word_less_nat_alt)

lemma script_of_Some [script_simps]: "script_of (map Some ps) = Some (concat ps)"
  by (induction ps) auto

section \<open>Properties\<close>

text \<open>
  The integer codec of scripts: what \<open>push_int\<close> writes for any 64-bit integer is one well-formed element, the template
  readers read the integer back from it, and the search in front of an opcode reads it back exactly when it is below
  \<open>2^63\<close>; above that it reports an integer of more than eight bytes.
\<close>

theorem push_int_roundtrip:
  assumes "0x60 < target"
  shows "\<exists>e. complete_elements (push_int v) = Some [e] \<and> element_integer e = Some v"
    and "find_preceding_script_integer (push_int v @ [target]) target =
      (if v < 2 ^ 63 then Ok (Some v) else Err ScriptIntegerTooLong)"
proof -
  show "\<exists>e. complete_elements (push_int v) = Some [e] \<and> element_integer e = Some v"
    using complete_elements_bytes [of "[int_element v]"] by (simp add: script_simps)
  have p: "plain_op target" using assms by (simp add: plain_op_def word_less_nat_alt)
  have "push_int v @ [target] = concat (map element_bytes [int_element v, op_element target])"
    using p by (simp add: script_simps)
  then show "find_preceding_script_integer (push_int v @ [target]) target =
      (if v < 2 ^ 63 then Ok (Some v) else Err ScriptIntegerTooLong)"
    using p assms find_preceding_elements [of "[int_element v, op_element target]" target]
    by (simp add: script_simps)
qed

end
