(* ===== verification/Covenant_Templates.thy ===== *)
theory Covenant_Templates
  imports Contract_Script
begin

text \<open>
  Covenant redeem scripts and their recognizers (\<open>contract/covenant/script/*.rs\<close>, \<open>contract/commit_reveal\<close>).

  Every template has a builder, a record of its fields and a recognizer that reads the fields off the elements of a
  script, rebuilds the script from them and compares: \<open>recognize_by\<close>. The locale \<open>script_template\<close> is the contract
  they share: the recognizer accepts exactly the scripts the builder makes, with the fields it made them from.
\<close>

section \<open>The contract of a template\<close>

text \<open>\<open>complete_elements(script)?\<close>, the fields, and \<open>(rebuilt == script).then_some(fields)\<close>.\<close>

definition recognize_by :: "(bytes \<Rightarrow> element list \<Rightarrow> 'f option) \<Rightarrow> ('f \<Rightarrow> bytes option) \<Rightarrow> bytes \<Rightarrow> 'f option" where
  "recognize_by read build script =
     Option.bind (complete_elements script) (\<lambda>es.
     Option.bind (read script es) (\<lambda>fields.
       if build fields = Some script then Some fields else None))"

locale script_template =
  fixes build :: "'f \<Rightarrow> bytes option"
    and read :: "bytes \<Rightarrow> element list \<Rightarrow> 'f option"
    and valid :: "'f \<Rightarrow> bool"
    and layout :: "'f \<Rightarrow> element list"
  assumes build_layout: "valid f \<Longrightarrow> build f = Some (concat (map element_bytes (layout f)))"
    and layout_ok: "valid f \<Longrightarrow> list_all element_ok (layout f)"
    and read_layout: "valid f \<Longrightarrow> read (concat (map element_bytes (layout f))) (layout f) = Some f"
    and read_valid: "read s es = Some f \<Longrightarrow> build f = Some s \<Longrightarrow> complete_elements s = Some es \<Longrightarrow> valid f"
begin

lemma build_total: "valid f \<Longrightarrow> \<exists>s. build f = Some s \<and> complete_elements s = Some (layout f)"
  using build_layout layout_ok complete_elements_bytes by blast

lemma recognize_exact: "recognize_by read build s = Some f \<longleftrightarrow> valid f \<and> build f = Some s"
proof
  assume "recognize_by read build s = Some f"
  then show "valid f \<and> build f = Some s"
    using read_valid by (auto simp: recognize_by_def split: Option.bind_splits if_splits)
next
  assume "valid f \<and> build f = Some s"
  moreover from this have "s = concat (map element_bytes (layout f))" "complete_elements s = Some (layout f)"
    using build_layout build_total by fastforce+
  ultimately show "recognize_by read build s = Some f"
    using read_layout by (simp add: recognize_by_def)
qed

lemma build_inject: "valid f \<Longrightarrow> valid g \<Longrightarrow> build f = build g \<Longrightarrow> f = g"
  using recognize_exact build_total by (metis option.inject)

end

lemma array_at_Some: "array_at n es i = Some b \<Longrightarrow> length b = n"
  by (auto simp: array_at_def split: Option.bind_splits if_splits)

lemmas accessor_simps = array_at_def integer_at_def tail_at_def script_simps

section \<open>Dead man's switch\<close>

definition build_dms_csv_script :: "bytes \<Rightarrow> bytes \<Rightarrow> u64 \<Rightarrow> bytes" where
  "build_dms_csv_script owner_pubkey heir_pubkey inactivity_daa =
     [OP_IF] @ push_pubkey owner_pubkey @ [OP_CHECKSIG, OP_ELSE] @ push_int inactivity_daa
     @ [OP_CHECKSEQUENCEVERIFY] @ push_pubkey heir_pubkey @ [OP_CHECKSIG, OP_ENDIF]"

record dms_fields =
  dms_owner_pubkey :: bytes
  dms_heir_pubkey :: bytes
  dms_inactivity_daa :: u64

definition build_dms :: "dms_fields \<Rightarrow> bytes option" where
  "build_dms f = Some (build_dms_csv_script (dms_owner_pubkey f) (dms_heir_pubkey f) (dms_inactivity_daa f))"

definition read_dms :: "bytes \<Rightarrow> element list \<Rightarrow> dms_fields option" where
  "read_dms script es =
     Option.bind (array_at 32 es 1) (\<lambda>owner.
     Option.bind (integer_at es 4) (\<lambda>inactivity.
     Option.bind (array_at 32 es 6) (\<lambda>heir.
       Some \<lparr>dms_owner_pubkey = owner, dms_heir_pubkey = heir, dms_inactivity_daa = inactivity\<rparr>)))"

definition dms_script_fields :: "bytes \<Rightarrow> dms_fields option" where
  "dms_script_fields = recognize_by read_dms build_dms"

definition dms_valid :: "dms_fields \<Rightarrow> bool" where
  "dms_valid f \<longleftrightarrow> length (dms_owner_pubkey f) = 32 \<and> length (dms_heir_pubkey f) = 32"

definition dms_layout :: "dms_fields \<Rightarrow> element list" where
  "dms_layout f =
     [op_element OP_IF, key_element (dms_owner_pubkey f), op_element OP_CHECKSIG, op_element OP_ELSE,
      int_element (dms_inactivity_daa f), op_element OP_CHECKSEQUENCEVERIFY, key_element (dms_heir_pubkey f),
      op_element OP_CHECKSIG, op_element OP_ENDIF]"

lemmas dms_defs = build_dms_def build_dms_csv_script_def read_dms_def dms_valid_def dms_layout_def

interpretation dms: script_template build_dms read_dms dms_valid dms_layout
  by unfold_locales (auto simp: dms_defs accessor_simps split: Option.bind_splits if_splits)

section \<open>Time-locked savings\<close>

definition build_timelocked_savings_script :: "bytes \<Rightarrow> bytes \<Rightarrow> u64 \<Rightarrow> bytes" where
  "build_timelocked_savings_script wallet1_pubkey wallet2_pubkey locktime_daa =
     [OP_IF] @ push_pubkey wallet1_pubkey @ [OP_CHECKSIGVERIFY] @ push_int locktime_daa
     @ [OP_CHECKLOCKTIMEVERIFY, OP_1]
     @ [OP_ELSE] @ push_pubkey wallet2_pubkey @ [OP_CHECKSIGVERIFY] @ push_int locktime_daa
     @ [OP_CHECKLOCKTIMEVERIFY, OP_1, OP_ENDIF]"

record timelocked_savings_fields =
  tsv_wallet1_pubkey :: bytes
  tsv_wallet2_pubkey :: bytes
  tsv_locktime_daa :: u64

definition build_savings :: "timelocked_savings_fields \<Rightarrow> bytes option" where
  "build_savings f =
     Some (build_timelocked_savings_script (tsv_wallet1_pubkey f) (tsv_wallet2_pubkey f) (tsv_locktime_daa f))"

definition read_savings :: "bytes \<Rightarrow> element list \<Rightarrow> timelocked_savings_fields option" where
  "read_savings script es =
     Option.bind (array_at 32 es 1) (\<lambda>wallet1.
     Option.bind (integer_at es 3) (\<lambda>locktime.
     Option.bind (array_at 32 es 7) (\<lambda>wallet2.
       Some \<lparr>tsv_wallet1_pubkey = wallet1, tsv_wallet2_pubkey = wallet2, tsv_locktime_daa = locktime\<rparr>)))"

definition timelocked_savings_script_fields :: "bytes \<Rightarrow> timelocked_savings_fields option" where
  "timelocked_savings_script_fields = recognize_by read_savings build_savings"

definition savings_valid :: "timelocked_savings_fields \<Rightarrow> bool" where
  "savings_valid f \<longleftrightarrow> length (tsv_wallet1_pubkey f) = 32 \<and> length (tsv_wallet2_pubkey f) = 32"

definition savings_layout :: "timelocked_savings_fields \<Rightarrow> element list" where
  "savings_layout f =
     [op_element OP_IF, key_element (tsv_wallet1_pubkey f), op_element OP_CHECKSIGVERIFY,
      int_element (tsv_locktime_daa f), op_element OP_CHECKLOCKTIMEVERIFY, op_element OP_1,
      op_element OP_ELSE, key_element (tsv_wallet2_pubkey f), op_element OP_CHECKSIGVERIFY,
      int_element (tsv_locktime_daa f), op_element OP_CHECKLOCKTIMEVERIFY, op_element OP_1, op_element OP_ENDIF]"

lemmas savings_defs =
  build_savings_def build_timelocked_savings_script_def read_savings_def savings_valid_def savings_layout_def

interpretation savings: script_template build_savings read_savings savings_valid savings_layout
  by unfold_locales (auto simp: savings_defs accessor_simps split: Option.bind_splits if_splits)

section \<open>Payjoin\<close>

definition build_payjoin_covenant_script :: "bytes \<Rightarrow> bytes \<Rightarrow> u64 \<Rightarrow> u64 \<Rightarrow> u64 \<Rightarrow> bytes" where
  "build_payjoin_covenant_script owner_pubkey beneficiary_pubkey locktime_daa min_inputs min_outputs =
     [OP_IF] @ push_pubkey owner_pubkey @ [OP_CHECKSIGVERIFY] @ push_int locktime_daa
     @ [OP_CHECKLOCKTIMEVERIFY, OP_1]
     @ [OP_ELSE] @ push_pubkey beneficiary_pubkey @ [OP_CHECKSIGVERIFY]
     @ [OP_TX_INPUT_COUNT] @ push_int min_inputs @ [OP_GREATERTHANOREQUAL, OP_VERIFY]
     @ [OP_TX_OUTPUT_COUNT] @ push_int min_outputs @ [OP_GREATERTHANOREQUAL, OP_VERIFY]
     @ push_int 0 @ [OP_TX_INPUT_SPK] @ push_int 1 @ [OP_TX_INPUT_SPK, OP_EQUAL, OP_NOT, OP_VERIFY]
     @ [OP_1, OP_ENDIF]"

record payjoin_fields =
  pj_owner_pubkey :: bytes
  pj_beneficiary_pubkey :: bytes
  pj_locktime_daa :: u64
  pj_min_inputs :: u64
  pj_min_outputs :: u64

definition build_payjoin :: "payjoin_fields \<Rightarrow> bytes option" where
  "build_payjoin f =
     Some (build_payjoin_covenant_script (pj_owner_pubkey f) (pj_beneficiary_pubkey f) (pj_locktime_daa f)
             (pj_min_inputs f) (pj_min_outputs f))"

definition read_payjoin :: "bytes \<Rightarrow> element list \<Rightarrow> payjoin_fields option" where
  "read_payjoin script es =
     Option.bind (array_at 32 es 1) (\<lambda>owner.
     Option.bind (integer_at es 3) (\<lambda>locktime.
     Option.bind (array_at 32 es 7) (\<lambda>beneficiary.
     Option.bind (integer_at es 10) (\<lambda>min_inputs.
     Option.bind (integer_at es 14) (\<lambda>min_outputs.
       Some \<lparr>pj_owner_pubkey = owner, pj_beneficiary_pubkey = beneficiary, pj_locktime_daa = locktime,
             pj_min_inputs = min_inputs, pj_min_outputs = min_outputs\<rparr>)))))"

definition payjoin_script_fields :: "bytes \<Rightarrow> payjoin_fields option" where
  "payjoin_script_fields = recognize_by read_payjoin build_payjoin"

definition payjoin_valid :: "payjoin_fields \<Rightarrow> bool" where
  "payjoin_valid f \<longleftrightarrow> length (pj_owner_pubkey f) = 32 \<and> length (pj_beneficiary_pubkey f) = 32"

definition payjoin_layout :: "payjoin_fields \<Rightarrow> element list" where
  "payjoin_layout f =
     [op_element OP_IF, key_element (pj_owner_pubkey f), op_element OP_CHECKSIGVERIFY,
      int_element (pj_locktime_daa f), op_element OP_CHECKLOCKTIMEVERIFY, op_element OP_1,
      op_element OP_ELSE, key_element (pj_beneficiary_pubkey f), op_element OP_CHECKSIGVERIFY,
      op_element OP_TX_INPUT_COUNT, int_element (pj_min_inputs f), op_element OP_GREATERTHANOREQUAL, op_element OP_VERIFY,
      op_element OP_TX_OUTPUT_COUNT, int_element (pj_min_outputs f), op_element OP_GREATERTHANOREQUAL, op_element OP_VERIFY,
      int_element 0, op_element OP_TX_INPUT_SPK, int_element 1, op_element OP_TX_INPUT_SPK, op_element OP_EQUAL,
      op_element OP_NOT, op_element OP_VERIFY, op_element OP_1, op_element OP_ENDIF]"

lemmas payjoin_defs =
  build_payjoin_def build_payjoin_covenant_script_def read_payjoin_def payjoin_valid_def payjoin_layout_def

interpretation payjoin: script_template build_payjoin read_payjoin payjoin_valid payjoin_layout
  by unfold_locales (auto simp: payjoin_defs accessor_simps split: Option.bind_splits if_splits)

section \<open>Oracle attestation\<close>

definition ORACLE_V1_SIG_OP_COUNT :: u8 where "ORACLE_V1_SIG_OP_COUNT = 2"

definition build_oracle_v1_covenant_script ::
  "bytes \<Rightarrow> bytes \<Rightarrow> bytes \<Rightarrow> bytes \<Rightarrow> u64 \<Rightarrow> bytes \<Rightarrow> bytes option" where
  "build_oracle_v1_covenant_script owner_pubkey beneficiary_pubkey oracle_pubkey expected_message_commitment
       locktime_daa salt =
     script_of
       [Some ([0x10] @ salt @ [OP_DROP]),
        Some ([OP_IF] @ push_pubkey owner_pubkey @ [OP_CHECKSIGVERIFY] @ push_int locktime_daa
              @ [OP_CHECKLOCKTIMEVERIFY, OP_1]),
        Some ([OP_ELSE] @ push_pubkey beneficiary_pubkey @ [OP_CHECKSIGVERIFY]),
        push_data expected_message_commitment,
        Some (push_pubkey oracle_pubkey @ [OP_CHECKSIGFROMSTACK, OP_VERIFY, OP_1, OP_ENDIF])]"

record oracle_v1_fields =
  ov_owner_pubkey :: bytes
  ov_beneficiary_pubkey :: bytes
  ov_oracle_pubkey :: bytes
  ov_message_commitment :: bytes
  ov_locktime_daa :: u64
  ov_salt :: bytes

definition build_oracle_v1 :: "oracle_v1_fields \<Rightarrow> bytes option" where
  "build_oracle_v1 f =
     build_oracle_v1_covenant_script (ov_owner_pubkey f) (ov_beneficiary_pubkey f) (ov_oracle_pubkey f)
       (ov_message_commitment f) (ov_locktime_daa f) (ov_salt f)"

definition read_oracle_v1 :: "bytes \<Rightarrow> element list \<Rightarrow> oracle_v1_fields option" where
  "read_oracle_v1 script es =
     Option.bind (array_at 16 es 0) (\<lambda>salt.
     Option.bind (array_at 32 es 3) (\<lambda>owner.
     Option.bind (integer_at es 5) (\<lambda>locktime.
     Option.bind (array_at 32 es 9) (\<lambda>beneficiary.
     Option.bind (array_at 32 es 11) (\<lambda>commitment.
     Option.bind (array_at 32 es 12) (\<lambda>oracle.
       Some \<lparr>ov_owner_pubkey = owner, ov_beneficiary_pubkey = beneficiary, ov_oracle_pubkey = oracle,
             ov_message_commitment = commitment, ov_locktime_daa = locktime, ov_salt = salt\<rparr>))))))"

definition oracle_v1_script_fields :: "bytes \<Rightarrow> oracle_v1_fields option" where
  "oracle_v1_script_fields = recognize_by read_oracle_v1 build_oracle_v1"

definition oracle_v1_attestation_binding :: "bytes \<Rightarrow> (bytes \<times> bytes \<times> bytes) option" where
  "oracle_v1_attestation_binding script =
     map_option (\<lambda>f. (ov_beneficiary_pubkey f, ov_message_commitment f, ov_oracle_pubkey f))
       (oracle_v1_script_fields script)"

definition oracle_v1_script_commits_to :: "bytes \<Rightarrow> bytes \<Rightarrow> bytes \<Rightarrow> bool" where
  "oracle_v1_script_commits_to script commitment oracle_pubkey =
     (case oracle_v1_attestation_binding script of
        None \<Rightarrow> False
      | Some (_, embedded_commitment, embedded_oracle) \<Rightarrow>
          embedded_commitment = commitment \<and> embedded_oracle = oracle_pubkey)"

definition oracle_v1_valid :: "oracle_v1_fields \<Rightarrow> bool" where
  "oracle_v1_valid f \<longleftrightarrow>
     length (ov_owner_pubkey f) = 32 \<and> length (ov_beneficiary_pubkey f) = 32 \<and> length (ov_oracle_pubkey f) = 32
     \<and> length (ov_message_commitment f) = 32 \<and> length (ov_salt f) = 16"

definition oracle_v1_layout :: "oracle_v1_fields \<Rightarrow> element list" where
  "oracle_v1_layout f =
     [data_element (ov_salt f), op_element OP_DROP,
      op_element OP_IF, key_element (ov_owner_pubkey f), op_element OP_CHECKSIGVERIFY,
      int_element (ov_locktime_daa f), op_element OP_CHECKLOCKTIMEVERIFY, op_element OP_1,
      op_element OP_ELSE, key_element (ov_beneficiary_pubkey f), op_element OP_CHECKSIGVERIFY,
      data_element (ov_message_commitment f), key_element (ov_oracle_pubkey f), op_element OP_CHECKSIGFROMSTACK,
      op_element OP_VERIFY, op_element OP_1, op_element OP_ENDIF]"

lemmas oracle_v1_defs =
  build_oracle_v1_def build_oracle_v1_covenant_script_def read_oracle_v1_def oracle_v1_valid_def oracle_v1_layout_def

text \<open>A salt is written as its length and its bytes, which is what \<open>push_data\<close> writes for it.\<close>

lemma short_data_bytes: "length data \<le> 75 \<Longrightarrow> element_bytes (data_element data) = word_of_nat (length data) # data"
  using data_element_bytes [of data] by (simp add: push_data_def)

interpretation oracle_v1: script_template build_oracle_v1 read_oracle_v1 oracle_v1_valid oracle_v1_layout
  by unfold_locales (auto simp: oracle_v1_defs accessor_simps short_data_bytes split: Option.bind_splits if_splits)

section \<open>Commit and reveal\<close>

definition build_commit_reveal_script :: "bytes \<Rightarrow> bytes \<Rightarrow> u64 \<Rightarrow> bytes option" where
  "build_commit_reveal_script owner_pubkey committed_hash locktime_daa =
     script_of
       [Some ([OP_IF] @ push_pubkey owner_pubkey @ [OP_CHECKSIGVERIFY] @ push_int locktime_daa
              @ [OP_CHECKLOCKTIMEVERIFY, OP_1]),
        Some ([OP_ELSE] @ push_pubkey owner_pubkey @ [OP_CHECKSIGVERIFY, OP_CAT, OP_BLAKE2B]),
        push_data committed_hash,
        Some [OP_EQUALVERIFY, OP_1, OP_ENDIF]]"

record commit_reveal_fields =
  crf_owner_pubkey :: bytes
  crf_committed_hash :: bytes
  crf_locktime_daa :: u64

definition build_commit_reveal :: "commit_reveal_fields \<Rightarrow> bytes option" where
  "build_commit_reveal f =
     build_commit_reveal_script (crf_owner_pubkey f) (crf_committed_hash f) (crf_locktime_daa f)"

definition read_commit_reveal :: "bytes \<Rightarrow> element list \<Rightarrow> commit_reveal_fields option" where
  "read_commit_reveal script es =
     Option.bind (array_at 32 es 1) (\<lambda>owner.
     Option.bind (integer_at es 3) (\<lambda>locktime.
     Option.bind (array_at 32 es 11) (\<lambda>committed.
       Some \<lparr>crf_owner_pubkey = owner, crf_committed_hash = committed, crf_locktime_daa = locktime\<rparr>)))"

definition commit_reveal_script_fields :: "bytes \<Rightarrow> commit_reveal_fields option" where
  "commit_reveal_script_fields = recognize_by read_commit_reveal build_commit_reveal"

definition commit_reveal_valid :: "commit_reveal_fields \<Rightarrow> bool" where
  "commit_reveal_valid f \<longleftrightarrow> length (crf_owner_pubkey f) = 32 \<and> length (crf_committed_hash f) = 32"

definition commit_reveal_layout :: "commit_reveal_fields \<Rightarrow> element list" where
  "commit_reveal_layout f =
     [op_element OP_IF, key_element (crf_owner_pubkey f), op_element OP_CHECKSIGVERIFY,
      int_element (crf_locktime_daa f), op_element OP_CHECKLOCKTIMEVERIFY, op_element OP_1,
      op_element OP_ELSE, key_element (crf_owner_pubkey f), op_element OP_CHECKSIGVERIFY, op_element OP_CAT,
      op_element OP_BLAKE2B, data_element (crf_committed_hash f), op_element OP_EQUALVERIFY, op_element OP_1,
      op_element OP_ENDIF]"

lemmas commit_reveal_defs =
  build_commit_reveal_def build_commit_reveal_script_def read_commit_reveal_def commit_reveal_valid_def
  commit_reveal_layout_def

interpretation commit_reveal:
  script_template build_commit_reveal read_commit_reveal commit_reveal_valid commit_reveal_layout
  by unfold_locales (auto simp: commit_reveal_defs accessor_simps split: Option.bind_splits if_splits)

text \<open>A reveal spend, read back from its signature script. BLAKE2b is the parameter of \<open>reveal_matches\<close>.\<close>

record commit_reveal_reveal =
  crr_preimage :: bytes
  crr_fields :: commit_reveal_fields

definition reveal_matches :: "(bytes \<Rightarrow> bytes) \<Rightarrow> commit_reveal_reveal \<Rightarrow> bool" where
  "reveal_matches blake2b_256 r \<longleftrightarrow> blake2b_256 (crr_preimage r) = crf_committed_hash (crr_fields r)"

definition read_commit_reveal_reveal :: "bytes \<Rightarrow> commit_reveal_reveal option" where
  "read_commit_reveal_reveal signature_script =
     Option.bind (complete_elements signature_script) (\<lambda>es.
     case es of
       [part_a, part_b, signature, selector, redeem] \<Rightarrow>
         if el_opcode selector \<noteq> OP_0 \<or> \<not> list_all is_push [part_a, part_b, signature, redeem] then None
         else Option.bind (commit_reveal_script_fields (el_data redeem)) (\<lambda>fields.
              Some \<lparr>crr_preimage = el_data part_a @ el_data part_b, crr_fields = fields\<rparr>)
     | _ \<Rightarrow> None)"

section \<open>Private swap\<close>

definition PRIVATE_SWAP_MAX_FEE_SOMPI :: u64 where "PRIVATE_SWAP_MAX_FEE_SOMPI = 500000000"

datatype private_swap_error = RefundTimeoutZero | SaltZero | DestinationLength | KeysEqual

definition versioned_destination :: "bytes \<Rightarrow> bytes" where
  "versioned_destination script = [0x00, 0x00] @ script"

definition append_claim_fee_bound :: bytes where
  "append_claim_fee_bound =
     push_int 0 @ [OP_TX_INPUT_AMOUNT, OP_DUP] @ push_int 0 @ [OP_TX_OUTPUT_AMOUNT, OP_GREATERTHANOREQUAL, OP_VERIFY]
     @ push_int 0 @ [OP_TX_OUTPUT_AMOUNT, OP_SUB] @ push_int PRIVATE_SWAP_MAX_FEE_SOMPI
     @ [OP_LESSTHANOREQUAL, OP_VERIFY]"

definition build_private_swap_script ::
  "bytes \<Rightarrow> bytes \<Rightarrow> bytes \<Rightarrow> u64 \<Rightarrow> bytes \<Rightarrow> (private_swap_error + bytes) option" where
  "build_private_swap_script owner_pubkey claimer_pubkey claimer_output_spk refund_locktime_daa salt =
     (if refund_locktime_daa = 0 then Some (Err RefundTimeoutZero)
      else if list_all (\<lambda>b. b = 0) salt then Some (Err SaltZero)
      else if length claimer_output_spk < 3 \<or> length claimer_output_spk > 73 then Some (Err DestinationLength)
      else if owner_pubkey = claimer_pubkey then Some (Err KeysEqual)
      else map_option Ok (script_of
        [push_data salt, Some [OP_DROP],
         Some ([OP_IF] @ push_pubkey claimer_pubkey @ [OP_CHECKSIGVERIFY]
               @ [OP_TX_INPUT_COUNT] @ push_int 1 @ [OP_NUMEQUALVERIFY]
               @ [OP_TX_OUTPUT_COUNT] @ push_int 1 @ [OP_NUMEQUALVERIFY] @ push_int 0 @ [OP_TX_OUTPUT_SPK]),
         push_data (versioned_destination claimer_output_spk),
         Some ([OP_EQUALVERIFY] @ append_claim_fee_bound @ [OP_1]),
         Some ([OP_ELSE] @ push_pubkey owner_pubkey @ [OP_CHECKSIGVERIFY] @ push_int refund_locktime_daa
               @ [OP_CHECKLOCKTIMEVERIFY, OP_1, OP_ENDIF])]))"

record private_swap_fields =
  psw_owner_pubkey :: bytes
  psw_claimer_pubkey :: bytes
  psw_claimer_output_spk :: bytes
  psw_refund_locktime_daa :: u64
  psw_salt :: bytes

text \<open>\<open>build_private_swap_script(...).ok()\<close>\<close>

definition build_private_swap :: "private_swap_fields \<Rightarrow> bytes option" where
  "build_private_swap f =
     Option.bind
       (build_private_swap_script (psw_owner_pubkey f) (psw_claimer_pubkey f) (psw_claimer_output_spk f)
          (psw_refund_locktime_daa f) (psw_salt f))
       (\<lambda>r. case r of Inl _ \<Rightarrow> None | Inr s \<Rightarrow> Some s)"

definition read_private_swap :: "bytes \<Rightarrow> element list \<Rightarrow> private_swap_fields option" where
  "read_private_swap script es =
     Option.bind (array_at 16 es 0) (\<lambda>salt.
     Option.bind (array_at 32 es 3) (\<lambda>claimer.
     Option.bind (tail_at es 13) (\<lambda>spk.
     Option.bind (array_at 32 es 30) (\<lambda>owner.
     Option.bind (integer_at es 32) (\<lambda>locktime.
       Some \<lparr>psw_owner_pubkey = owner, psw_claimer_pubkey = claimer, psw_claimer_output_spk = spk,
             psw_refund_locktime_daa = locktime, psw_salt = salt\<rparr>)))))"

definition private_swap_script_fields :: "bytes \<Rightarrow> private_swap_fields option" where
  "private_swap_script_fields = recognize_by read_private_swap build_private_swap"

definition private_swap_valid :: "private_swap_fields \<Rightarrow> bool" where
  "private_swap_valid f \<longleftrightarrow>
     length (psw_owner_pubkey f) = 32 \<and> length (psw_claimer_pubkey f) = 32 \<and> length (psw_salt f) = 16
     \<and> 3 \<le> length (psw_claimer_output_spk f) \<and> length (psw_claimer_output_spk f) \<le> 73
     \<and> psw_refund_locktime_daa f \<noteq> 0 \<and> \<not> list_all (\<lambda>b. b = 0) (psw_salt f)
     \<and> psw_owner_pubkey f \<noteq> psw_claimer_pubkey f"

definition private_swap_layout :: "private_swap_fields \<Rightarrow> element list" where
  "private_swap_layout f =
     [data_element (psw_salt f), op_element OP_DROP,
      op_element OP_IF, key_element (psw_claimer_pubkey f), op_element OP_CHECKSIGVERIFY,
      op_element OP_TX_INPUT_COUNT, int_element 1, op_element OP_NUMEQUALVERIFY,
      op_element OP_TX_OUTPUT_COUNT, int_element 1, op_element OP_NUMEQUALVERIFY, int_element 0, op_element OP_TX_OUTPUT_SPK,
      data_element (versioned_destination (psw_claimer_output_spk f)), op_element OP_EQUALVERIFY,
      int_element 0, op_element OP_TX_INPUT_AMOUNT, op_element OP_DUP, int_element 0, op_element OP_TX_OUTPUT_AMOUNT,
      op_element OP_GREATERTHANOREQUAL, op_element OP_VERIFY, int_element 0, op_element OP_TX_OUTPUT_AMOUNT,
      op_element OP_SUB, int_element PRIVATE_SWAP_MAX_FEE_SOMPI, op_element OP_LESSTHANOREQUAL, op_element OP_VERIFY,
      op_element OP_1, op_element OP_ELSE, key_element (psw_owner_pubkey f), op_element OP_CHECKSIGVERIFY,
      int_element (psw_refund_locktime_daa f), op_element OP_CHECKLOCKTIMEVERIFY, op_element OP_1, op_element OP_ENDIF]"

lemma versioned_destination_simps [simp]:
  "length (versioned_destination spk) = length spk + 2" "drop 2 (versioned_destination spk) = spk"
  by (simp_all add: versioned_destination_def)

lemmas private_swap_defs =
  build_private_swap_def build_private_swap_script_def append_claim_fee_bound_def read_private_swap_def
  private_swap_valid_def private_swap_layout_def

interpretation private_swap:
  script_template build_private_swap read_private_swap private_swap_valid private_swap_layout
  by unfold_locales
    (auto simp: private_swap_defs accessor_simps split: Option.bind_splits if_splits)

section \<open>Escrow\<close>

definition build_escrow_script :: "bytes \<Rightarrow> bytes \<Rightarrow> bytes \<Rightarrow> bytes \<Rightarrow> bytes \<Rightarrow> bytes \<Rightarrow> bytes option" where
  "build_escrow_script alice_pubkey bob_pubkey arbiter_pubkey alice_spk bob_spk salt =
     (let bob_spk_full = [0x00, 0x00] @ bob_spk; alice_spk_full = [0x00, 0x00] @ alice_spk in
      script_of
        [Some ([0x08] @ salt @ [OP_DROP]),
         Some ([OP_IF] @ push_pubkey alice_pubkey @ [OP_CHECKSIGVERIFY] @ push_int 0 @ [OP_TX_OUTPUT_SPK]),
         push_data bob_spk_full,
         Some [OP_EQUALVERIFY, 0x51, OP_ELSE],
         Some ([OP_IF] @ push_pubkey bob_pubkey @ [OP_CHECKSIGVERIFY] @ push_int 0 @ [OP_TX_OUTPUT_SPK]),
         push_data alice_spk_full,
         Some [OP_EQUALVERIFY, 0x51, OP_ELSE],
         Some ([OP_IF] @ push_pubkey arbiter_pubkey @ [OP_CHECKSIGVERIFY]),
         Some ([OP_IF] @ push_int 0 @ [OP_TX_OUTPUT_SPK]),
         push_data bob_spk_full,
         Some ([OP_EQUALVERIFY, 0x51, OP_ELSE] @ push_int 0 @ [OP_TX_OUTPUT_SPK]),
         push_data alice_spk_full,
         Some [OP_EQUALVERIFY, 0x51, OP_ENDIF, OP_ELSE],
         Some ([OP_IF] @ push_pubkey alice_pubkey @ [OP_CHECKSIGVERIFY, OP_ELSE]
               @ push_pubkey bob_pubkey @ [OP_CHECKSIGVERIFY, OP_ENDIF]),
         Some ([OP_TX_INPUT_INDEX, OP_TX_INPUT_SPK] @ push_int 0 @ [OP_TX_OUTPUT_SPK, OP_EQUALVERIFY, 0x51]),
         Some [OP_ENDIF, OP_ENDIF, OP_ENDIF]])"

record escrow_fields =
  esc_alice_pubkey :: bytes
  esc_bob_pubkey :: bytes
  esc_arbiter_pubkey :: bytes
  esc_alice_spk :: bytes
  esc_bob_spk :: bytes
  esc_salt :: bytes

definition build_escrow :: "escrow_fields \<Rightarrow> bytes option" where
  "build_escrow f =
     build_escrow_script (esc_alice_pubkey f) (esc_bob_pubkey f) (esc_arbiter_pubkey f) (esc_alice_spk f)
       (esc_bob_spk f) (esc_salt f)"

definition read_escrow :: "bytes \<Rightarrow> element list \<Rightarrow> escrow_fields option" where
  "read_escrow script es =
     Option.bind (array_at 8 es 0) (\<lambda>salt.
     Option.bind (array_at 32 es 3) (\<lambda>alice.
     Option.bind (tail_at es 7) (\<lambda>bob_spk.
     Option.bind (array_at 32 es 12) (\<lambda>bob.
     Option.bind (tail_at es 16) (\<lambda>alice_spk.
     Option.bind (array_at 32 es 21) (\<lambda>arbiter.
       Some \<lparr>esc_alice_pubkey = alice, esc_bob_pubkey = bob, esc_arbiter_pubkey = arbiter,
             esc_alice_spk = alice_spk, esc_bob_spk = bob_spk, esc_salt = salt\<rparr>))))))"

definition escrow_script_fields :: "bytes \<Rightarrow> escrow_fields option" where
  "escrow_script_fields = recognize_by read_escrow build_escrow"

definition escrow_valid :: "escrow_fields \<Rightarrow> bool" where
  "escrow_valid f \<longleftrightarrow>
     length (esc_alice_pubkey f) = 32 \<and> length (esc_bob_pubkey f) = 32 \<and> length (esc_arbiter_pubkey f) = 32
     \<and> length (esc_alice_spk f) + 2 < 2 ^ 32 \<and> length (esc_bob_spk f) + 2 < 2 ^ 32 \<and> length (esc_salt f) = 8"

definition escrow_layout :: "escrow_fields \<Rightarrow> element list" where
  "escrow_layout f =
     (let bob = data_element ([0x00, 0x00] @ esc_bob_spk f); alice = data_element ([0x00, 0x00] @ esc_alice_spk f) in
      [data_element (esc_salt f), op_element OP_DROP,
       op_element OP_IF, key_element (esc_alice_pubkey f), op_element OP_CHECKSIGVERIFY, int_element 0,
       op_element OP_TX_OUTPUT_SPK, bob, op_element OP_EQUALVERIFY, op_element OP_1, op_element OP_ELSE,
       op_element OP_IF, key_element (esc_bob_pubkey f), op_element OP_CHECKSIGVERIFY, int_element 0,
       op_element OP_TX_OUTPUT_SPK, alice, op_element OP_EQUALVERIFY, op_element OP_1, op_element OP_ELSE,
       op_element OP_IF, key_element (esc_arbiter_pubkey f), op_element OP_CHECKSIGVERIFY,
       op_element OP_IF, int_element 0, op_element OP_TX_OUTPUT_SPK, bob, op_element OP_EQUALVERIFY, op_element OP_1,
       op_element OP_ELSE, int_element 0, op_element OP_TX_OUTPUT_SPK, alice, op_element OP_EQUALVERIFY,
       op_element OP_1, op_element OP_ENDIF, op_element OP_ELSE,
       op_element OP_IF, key_element (esc_alice_pubkey f), op_element OP_CHECKSIGVERIFY, op_element OP_ELSE,
       key_element (esc_bob_pubkey f), op_element OP_CHECKSIGVERIFY, op_element OP_ENDIF,
       op_element OP_TX_INPUT_INDEX, op_element OP_TX_INPUT_SPK, int_element 0, op_element OP_TX_OUTPUT_SPK,
       op_element OP_EQUALVERIFY, op_element OP_1, op_element OP_ENDIF, op_element OP_ENDIF, op_element OP_ENDIF])"

lemma push_data_bound: "push_data data = Some b \<Longrightarrow> length data < 2 ^ 32"
  by (auto simp: push_data_def u32_max_def Let_def split: if_splits)

lemma OP_1_literal: "(0x51 :: u8) = OP_1"
  by (simp add: OP_1_def)

lemmas escrow_defs =
  build_escrow_def build_escrow_script_def read_escrow_def escrow_valid_def escrow_layout_def Let_def OP_1_literal

interpretation escrow: script_template build_escrow read_escrow escrow_valid escrow_layout
  by unfold_locales
    (auto simp: escrow_defs accessor_simps short_data_bytes split: Option.bind_splits if_splits dest!: push_data_bound)

section \<open>Properties\<close>

text \<open>
  (C8) The covenant recognizers are exact. For each of the seven templates a recognizer returns fields for a script exactly
  when the fields have their array sizes (and, for the swap, pass the builder's checks) and the builder makes that very
  script from them. So no other script passes for a covenant, and no covenant the builder makes is missed, at any value
  of its locktimes and counts.
\<close>

theorem covenant_templates_exact:
  "(dms_script_fields script = Some dms_f \<longleftrightarrow> dms_valid dms_f \<and> build_dms dms_f = Some script)
   \<and> (timelocked_savings_script_fields script = Some sav_f \<longleftrightarrow> savings_valid sav_f \<and> build_savings sav_f = Some script)
   \<and> (payjoin_script_fields script = Some pj_f \<longleftrightarrow> payjoin_valid pj_f \<and> build_payjoin pj_f = Some script)
   \<and> (oracle_v1_script_fields script = Some ov_f \<longleftrightarrow> oracle_v1_valid ov_f \<and> build_oracle_v1 ov_f = Some script)
   \<and> (commit_reveal_script_fields script = Some cr_f \<longleftrightarrow>
        commit_reveal_valid cr_f \<and> build_commit_reveal cr_f = Some script)
   \<and> (private_swap_script_fields script = Some ps_f \<longleftrightarrow>
        private_swap_valid ps_f \<and> build_private_swap ps_f = Some script)
   \<and> (escrow_script_fields script = Some es_f \<longleftrightarrow> escrow_valid es_f \<and> build_escrow es_f = Some script)"
  unfolding dms_script_fields_def timelocked_savings_script_fields_def payjoin_script_fields_def
    oracle_v1_script_fields_def commit_reveal_script_fields_def private_swap_script_fields_def escrow_script_fields_def
  by (intro conjI dms.recognize_exact savings.recognize_exact payjoin.recognize_exact oracle_v1.recognize_exact
      commit_reveal.recognize_exact private_swap.recognize_exact escrow.recognize_exact)

text \<open>
  An oracle covenant commits to a statement and an oracle exactly when the builder made it from them.
\<close>

theorem oracle_v1_commits_exact:
  "oracle_v1_script_commits_to script commitment oracle_pubkey \<longleftrightarrow>
     (\<exists>f. oracle_v1_valid f \<and> build_oracle_v1 f = Some script
          \<and> ov_message_commitment f = commitment \<and> ov_oracle_pubkey f = oracle_pubkey)"
proof -
  have "oracle_v1_script_commits_to script commitment oracle_pubkey \<longleftrightarrow>
      (\<exists>f. oracle_v1_script_fields script = Some f
           \<and> ov_message_commitment f = commitment \<and> ov_oracle_pubkey f = oracle_pubkey)"
    by (auto simp: oracle_v1_script_commits_to_def oracle_v1_attestation_binding_def split: option.splits)
  then show ?thesis unfolding oracle_v1_script_fields_def oracle_v1.recognize_exact by blast
qed

text \<open>
  The reveal spend of a commit-reveal covenant, assembled from two preimage parts, a signature, the selector and the
  redeem script, reads back as the concatenated preimage and the covenant's fields.
\<close>

theorem commit_reveal_reveal_roundtrip:
  assumes "commit_reveal_valid f" "build_commit_reveal f = Some redeem"
    and "push_data part_a = Some a" "push_data part_b = Some b" "push_data signature = Some sig" "push_data redeem = Some r"
  shows "read_commit_reveal_reveal (a @ b @ sig @ push_int 0 @ r) =
    Some \<lparr>crr_preimage = part_a @ part_b, crr_fields = f\<rparr>"
proof -
  have l: "length part_a < 2 ^ 32" "length part_b < 2 ^ 32" "length signature < 2 ^ 32" "length redeem < 2 ^ 32"
    using assms push_data_bound by blast+
  let ?es = "[data_element part_a, data_element part_b, data_element signature, int_element 0, data_element redeem]"
  have s: "a @ b @ sig @ push_int 0 @ r = concat (map element_bytes ?es)"
    using assms(3-6) l by (simp add: script_simps)
  have "complete_elements (concat (map element_bytes ?es)) = Some ?es"
    by (rule complete_elements_bytes) (use l in \<open>simp add: script_simps\<close>)
  moreover have p: "is_push (data_element d)" for d
    by (simp add: is_push_def data_element_def opcode_defs word_le_nat_alt)
  moreover have "commit_reveal_script_fields redeem = Some f"
    unfolding commit_reveal_script_fields_def commit_reveal.recognize_exact using assms by simp
  moreover have "el_opcode (int_element 0) = OP_0" by (simp add: int_element_def op_element_def)
  ultimately show ?thesis
    unfolding read_commit_reveal_reveal_def s by (simp add: script_simps)
qed

end
