(* ===== verification/Contract_Builders.thy ===== *)
theory Contract_Builders
  imports Covenant_Templates Network_Id
begin

text \<open>
  Contract scripts without a recognizer: the allowance and time-locked escrow (\<open>contract/covenant/script\<close>), the vaults
  (\<open>contract/vault/script.rs\<close>), the crowdfunding covenant (\<open>contract/crowdfund/script.rs\<close>) and the oracle publication and
  heartbeat scripts (\<open>contract/oracle/script/*.rs\<close>), the proof cost model (\<open>contract/zk/cost.rs\<close>), the spend path of a
  covenant (\<open>contract/covenant/spend_path.rs\<close>), the token operation of a redeem script (\<open>contract/krc20.rs\<close>) and the stealth
  payload (\<open>contract/seq_commit/proof.rs\<close>). Arithmetic of the cost model wraps as in a release build.

  Two of these scripts inspect their own bytes on chain at fixed offsets: the oracle body reads its publication time and
  its own code off the revealed script, and a crowdfunding sweep compares the campaign fingerprint at the end of every
  revealed script. The properties show that the offsets are those of the built scripts. BLAKE2b keyed by a domain is the
  parameter \<open>keyed\<close>.
\<close>

section \<open>Covenants and vaults\<close>

definition build_allowance_script :: "bytes \<Rightarrow> bytes \<Rightarrow> u64 \<Rightarrow> u64 \<Rightarrow> u64 \<Rightarrow> bytes" where
  "build_allowance_script owner_pubkey beneficiary_pubkey max_withdraw_sompi min_sequence start_daa =
     [OP_IF] @ push_pubkey owner_pubkey @ [OP_CHECKSIG]
     @ [OP_ELSE] @ push_pubkey beneficiary_pubkey @ [OP_CHECKSIGVERIFY]
     @ (if start_daa > 0 then push_int start_daa @ [OP_CHECKLOCKTIMEVERIFY] else [])
     @ [OP_TX_INPUT_INDEX, OP_TX_INPUT_SPK] @ push_int 0 @ [OP_TX_OUTPUT_SPK, OP_EQUALVERIFY]
     @ push_int 0 @ [OP_TX_OUTPUT_AMOUNT, OP_TX_INPUT_INDEX, OP_TX_INPUT_AMOUNT] @ push_int max_withdraw_sompi
     @ [OP_SUB, OP_GREATERTHANOREQUAL, OP_VERIFY]
     @ (if min_sequence > 0 then push_int min_sequence @ [OP_CHECKSEQUENCEVERIFY] else [])
     @ [OP_TX_OUTPUT_COUNT] @ push_int 2 @ [OP_EQUAL, OP_ENDIF]"

definition build_timelocked_escrow_script :: "bytes \<Rightarrow> bytes \<Rightarrow> bytes \<Rightarrow> bytes \<Rightarrow> u64 \<Rightarrow> bytes option" where
  "build_timelocked_escrow_script alice_pubkey bob_pubkey alice_spk bob_spk locktime_daa =
     (let bob_spk_full = [0x00, 0x00] @ bob_spk; alice_spk_full = [0x00, 0x00] @ alice_spk in
      script_of
        [Some ([OP_IF] @ push_pubkey alice_pubkey @ [OP_CHECKSIGVERIFY] @ push_int 0 @ [OP_TX_OUTPUT_SPK]),
         push_data bob_spk_full,
         Some [OP_EQUAL, OP_ELSE],
         Some ([OP_IF] @ push_pubkey bob_pubkey @ [OP_CHECKSIGVERIFY] @ push_int 0 @ [OP_TX_OUTPUT_SPK]),
         push_data alice_spk_full,
         Some [OP_EQUAL, OP_ELSE],
         Some (push_int locktime_daa @ [OP_CHECKLOCKTIMEVERIFY] @ push_int 0 @ [OP_TX_OUTPUT_SPK]),
         push_data alice_spk_full,
         Some [OP_EQUAL, OP_ENDIF, OP_ENDIF]])"

definition build_tagged_vault_script :: "bytes \<Rightarrow> bytes" where
  "build_tagged_vault_script owner_pubkey =
     push_pubkey owner_pubkey @ [OP_CHECKSIGVERIFY, OP_TX_INPUT_INDEX, OP_INPUT_COVENANT_ID, OP_0,
       OP_OUTPUT_COVENANT_ID, OP_EQUALVERIFY, OP_1]"

definition build_split_vault_script :: "bytes \<Rightarrow> bytes" where
  "build_split_vault_script owner_pubkey =
     push_pubkey owner_pubkey @ [OP_CHECKSIGVERIFY, OP_TX_INPUT_INDEX, OP_INPUT_COVENANT_ID, OP_DUP,
       OP_COV_OUTPUT_COUNT, 0x52, OP_EQUALVERIFY, OP_TX_INPUT_INDEX, OP_AUTH_OUTPUT_COUNT, 0x52, OP_EQUALVERIFY,
       OP_DROP, OP_1]"

section \<open>Proof costs\<close>

definition groth16_script_units :: "u64 \<Rightarrow> u64" where
  "groth16_script_units public_inputs = 14000000 + (public_inputs + 1) * 250000 + 640 + 2000 + 50000"

definition u64_div_ceil :: "u64 \<Rightarrow> u64 \<Rightarrow> u64" where
  "u64_div_ceil a b = (if a mod b = 0 then a div b else a div b + 1)"

definition groth16_sig_op_count :: "u64 \<Rightarrow> u8" where
  "groth16_sig_op_count public_inputs =
     (let sigops = u64_div_ceil (groth16_script_units public_inputs - 9999) 100000 in
      if sigops > 255 then 255 else ucast sigops)"

definition groth16_min_fee_sompi :: "u64 \<Rightarrow> u64" where
  "groth16_min_fee_sompi public_inputs = (groth16_script_units public_inputs div 100 + 20000) * 100"

definition GROTH16_TAG :: u8 where "GROTH16_TAG = 0x20"
definition GROTH16_SIG_OP_COUNT :: u8 where "GROTH16_SIG_OP_COUNT = groth16_sig_op_count 1"
definition RISC0_TAG :: u8 where "RISC0_TAG = 0x21"
definition RISC0_SIG_OP_COUNT :: u8 where "RISC0_SIG_OP_COUNT = 255"

section \<open>Crowdfunding\<close>

definition CROWDFUND_MAX_CONTRIBUTORS :: nat where "CROWDFUND_MAX_CONTRIBUTORS = 8"
definition CROWDFUND_MAX_SWEEP_FEE_SOMPI :: u64 where "CROWDFUND_MAX_SWEEP_FEE_SOMPI = 500000000"
definition CAMPAIGN_TAIL_LEN :: u64 where "CAMPAIGN_TAIL_LEN = 35"
definition CAMPAIGN_ID_START_FROM_END :: u64 where "CAMPAIGN_ID_START_FROM_END = 34"
definition CAMPAIGN_ID_END_FROM_END :: u64 where "CAMPAIGN_ID_END_FROM_END = 2"

record crowdfund_script =
  cf_contributor_pubkey :: bytes
  cf_goal_sompi :: u64
  cf_locktime_daa :: u64
  cf_verifying_key_hash :: bytes
  cf_organizer_output_spk :: bytes
  cf_salt :: bytes

definition crowdfund_campaign_id :: "(bytes \<Rightarrow> bytes \<Rightarrow> bytes) \<Rightarrow> u64 \<Rightarrow> u64 \<Rightarrow> bytes \<Rightarrow> bytes \<Rightarrow> bytes" where
  "crowdfund_campaign_id keyed goal_sompi locktime_daa verifying_key_hash organizer_output_spk =
     keyed (map of_char ''KaspaPortalCrowdfundV1'')
       (verifying_key_hash @ u64_to_le goal_sompi @ u64_to_le locktime_daa
        @ u64_to_le (word_of_nat (length organizer_output_spk)) @ organizer_output_spk)"

datatype crowdfund_error = GoalZero | TimeoutZero | OrganizerScriptLength | CrowdfundSaltZero

definition validate_config :: "crowdfund_script \<Rightarrow> crowdfund_error + unit" where
  "validate_config c =
     (if cf_goal_sompi c = 0 then Err GoalZero
      else if cf_locktime_daa c = 0 then Err TimeoutZero
      else if length (cf_organizer_output_spk c) < 3 \<or> length (cf_organizer_output_spk c) > 260
      then Err OrganizerScriptLength
      else if list_all (\<lambda>b. b = 0) (cf_salt c) then Err CrowdfundSaltZero
      else Ok ())"

definition append_proof_verification :: "bytes \<Rightarrow> bytes option list" where
  "append_proof_verification verifying_key_hash =
     [Some [OP_DUP, OP_BLAKE2B], push_data verifying_key_hash, Some [OP_EQUALVERIFY], push_data [GROTH16_TAG],
      Some [OP_ZK_PRECOMPILE, OP_VERIFY]]"

definition append_input_bounds :: "bytes option list" where
  "append_input_bounds =
     [Some ([OP_TX_INPUT_COUNT] @ push_int 1 @ [OP_GREATERTHANOREQUAL, OP_VERIFY] @ [OP_TX_INPUT_COUNT]
            @ push_int (word_of_nat CROWDFUND_MAX_CONTRIBUTORS) @ [OP_LESSTHANOREQUAL, OP_VERIFY])]"

definition append_campaign_isolation :: "u64 \<Rightarrow> bytes \<Rightarrow> bytes option list" where
  "append_campaign_isolation i campaign_id =
     [Some (push_int i @ push_int i @ [OP_TX_INPUT_SCRIPT_SIG_LEN, OP_DUP] @ push_int CAMPAIGN_TAIL_LEN
            @ [OP_GREATERTHANOREQUAL, OP_VERIFY, OP_DUP] @ push_int CAMPAIGN_ID_START_FROM_END @ [OP_SUB, OP_SWAP]
            @ push_int CAMPAIGN_ID_END_FROM_END @ [OP_SUB, OP_TX_INPUT_SCRIPT_SIG_SUBSTR]),
      push_data campaign_id, Some [OP_EQUALVERIFY]]"

definition append_campaign_inputs_total :: "bytes \<Rightarrow> bytes option list" where
  "append_campaign_inputs_total campaign_id =
     [Some (push_int 0)]
     @ concat (map (\<lambda>i.
         [Some ([OP_TX_INPUT_COUNT] @ push_int (word_of_nat i + 1) @ [OP_GREATERTHANOREQUAL, OP_IF])]
         @ append_campaign_isolation (word_of_nat i) campaign_id
         @ [Some (push_int (word_of_nat i) @ [OP_TX_INPUT_AMOUNT, OP_ADD, OP_ENDIF])]) [0..<CROWDFUND_MAX_CONTRIBUTORS])"

definition append_sweep_constraints :: "u64 \<Rightarrow> bytes \<Rightarrow> bytes option list" where
  "append_sweep_constraints goal_sompi organizer_spk =
     [Some ([OP_DUP] @ push_int goal_sompi @ [OP_GREATERTHANOREQUAL, OP_VERIFY]
            @ [OP_TX_OUTPUT_COUNT] @ push_int 1 @ [OP_NUMEQUALVERIFY] @ push_int 0 @ [OP_TX_OUTPUT_SPK]),
      push_data organizer_spk,
      Some ([OP_EQUALVERIFY, OP_DUP] @ push_int 0 @ [OP_TX_OUTPUT_AMOUNT, OP_GREATERTHANOREQUAL, OP_VERIFY]
            @ push_int 0 @ [OP_TX_OUTPUT_AMOUNT, OP_SUB] @ push_int CROWDFUND_MAX_SWEEP_FEE_SOMPI
            @ [OP_LESSTHANOREQUAL, OP_VERIFY])]"

definition crowdfund_redeem_script :: "(bytes \<Rightarrow> bytes \<Rightarrow> bytes) \<Rightarrow> crowdfund_script \<Rightarrow> (crowdfund_error + bytes) option" where
  "crowdfund_redeem_script keyed c =
     (case validate_config c of
        Inl e \<Rightarrow> Some (Err e)
      | Inr _ \<Rightarrow>
          let campaign_id = crowdfund_campaign_id keyed (cf_goal_sompi c) (cf_locktime_daa c) (cf_verifying_key_hash c)
                (cf_organizer_output_spk c) in
          map_option Ok (script_of
            ([push_data (cf_salt c), Some [OP_DROP],
              Some ([OP_IF] @ push_pubkey (cf_contributor_pubkey c) @ [OP_CHECKSIGVERIFY] @ push_int (cf_locktime_daa c)
                    @ [OP_CHECKLOCKTIMEVERIFY]),
              Some [OP_ELSE]]
             @ append_proof_verification (cf_verifying_key_hash c) @ append_input_bounds
             @ append_campaign_inputs_total campaign_id
             @ append_sweep_constraints (cf_goal_sompi c) (cf_organizer_output_spk c)
             @ [Some [OP_ENDIF], push_data campaign_id, Some [OP_DROP, OP_1]])))"

section \<open>Oracle publication\<close>

definition ORACLE_MB_HEARTBEAT_SIG_OP_COUNT :: u8 where "ORACLE_MB_HEARTBEAT_SIG_OP_COUNT = 0"
definition ORACLE_MB_MAX_FEE_SOMPI :: u64 where "ORACLE_MB_MAX_FEE_SOMPI = 1000000"
definition ORACLE_MB_BODY_LEN :: u64 where "ORACLE_MB_BODY_LEN = 288"
definition ORACLE_MB_SIG_OP_COUNT :: u8 where "ORACLE_MB_SIG_OP_COUNT = RISC0_SIG_OP_COUNT"
definition ORACLE_MB_REDEEM_LEN :: u64 where "ORACLE_MB_REDEEM_LEN = 308"

definition oracle_mb_prefix :: "u64 \<Rightarrow> u64 \<Rightarrow> bytes" where
  "oracle_mb_prefix price t = [0x08] @ u64_to_le price @ [0x75] @ [0x08] @ u64_to_le t @ [0x75]"

definition push_oracle_mb_singleton_strict :: bytes where
  "push_oracle_mb_singleton_strict =
     [OP_TX_INPUT_INDEX, OP_INPUT_COVENANT_ID, OP_DUP, OP_COV_INPUT_COUNT] @ push_int 1
     @ [OP_NUMEQUALVERIFY, OP_COV_OUTPUT_COUNT] @ push_int 1 @ [OP_NUMEQUALVERIFY]"

definition push_oracle_roll_branch :: "bytes \<Rightarrow> bytes \<Rightarrow> bytes \<Rightarrow> u8 \<Rightarrow> bytes \<Rightarrow> bytes option list" where
  "push_oracle_roll_branch image_id control_id set_root hashfn heartbeat_cov_id =
     [push_data heartbeat_cov_id,
      Some ([OP_COV_INPUT_COUNT] @ push_int 1 @ [OP_NUMEQUALVERIFY]
            @ push_int 0 @ [OP_PICK] @ push_int 16 @ push_int 48 @ [OP_SUBSTR]),
      push_data set_root,
      Some ([OP_EQUALVERIFY] @ push_int 0 @ [OP_PICK] @ push_int 0 @ push_int 8 @ [OP_SUBSTR] @ push_int 1
            @ push_int (push_bit 60 1 + 1) @ [OP_WITHIN, OP_VERIFY]),
      Some (push_int 0 @ [OP_PICK] @ push_int 8 @ push_int 16
            @ [OP_SUBSTR, OP_TX_INPUT_INDEX, OP_TX_INPUT_INDEX, OP_TX_INPUT_SCRIPT_SIG_LEN, OP_DUP]
            @ push_int (ORACLE_MB_REDEEM_LEN - 11) @ [OP_SUB, OP_SWAP] @ push_int (ORACLE_MB_REDEEM_LEN - 19)
            @ [OP_SUB, OP_TX_INPUT_SCRIPT_SIG_SUBSTR, OP_GREATERTHANOREQUAL, OP_VERIFY]),
      push_data [0x08],
      Some (push_int 1 @ [OP_PICK] @ push_int 0 @ push_int 8 @ [OP_SUBSTR, OP_CAT]),
      push_data [0x75, 0x08],
      Some ([OP_CAT] @ push_int 1 @ [OP_PICK] @ push_int 8 @ push_int 16 @ [OP_SUBSTR, OP_CAT]),
      push_data [0x75],
      Some ([OP_CAT, OP_TX_INPUT_INDEX, OP_TX_INPUT_INDEX, OP_TX_INPUT_SCRIPT_SIG_LEN, OP_DUP]
            @ push_int ORACLE_MB_BODY_LEN @ [OP_SUB, OP_SWAP, OP_TX_INPUT_SCRIPT_SIG_SUBSTR, OP_CAT]),
      Some push_oracle_mb_singleton_strict,
      Some [OP_BLAKE2B], push_data [0x87], Some [OP_CAT], push_data [0xAA, 0x20], Some [OP_SWAP, OP_CAT],
      push_data [0x00, 0x00],
      Some ([OP_SWAP, OP_CAT] @ push_int 0 @ [OP_TX_OUTPUT_SPK, OP_EQUALVERIFY]),
      Some (push_int 0 @ [OP_TX_OUTPUT_AMOUNT, OP_TX_INPUT_INDEX, OP_TX_INPUT_AMOUNT] @ push_int ORACLE_MB_MAX_FEE_SOMPI
            @ [OP_SUB, OP_GREATERTHANOREQUAL, OP_VERIFY]),
      Some [OP_SHA256], push_data image_id, push_data control_id, push_data [hashfn], push_data [RISC0_TAG],
      Some [OP_ZK_PRECOMPILE, OP_VERIFY, OP_1]]"

definition push_oracle_passthrough_branch :: bytes where
  "push_oracle_passthrough_branch =
     [OP_TX_INPUT_INDEX, OP_INPUT_COVENANT_ID, OP_DUP, OP_COV_INPUT_COUNT] @ push_int 1 @ [OP_NUMEQUALVERIFY]
     @ [OP_DUP, OP_COV_OUTPUT_COUNT] @ push_int 1 @ [OP_NUMEQUALVERIFY] @ push_int 0
     @ [OP_COV_OUTPUT_IDX, OP_DUP, OP_TX_OUTPUT_SPK, OP_TX_INPUT_INDEX, OP_TX_INPUT_SPK, OP_EQUALVERIFY,
        OP_TX_OUTPUT_AMOUNT, OP_TX_INPUT_INDEX, OP_TX_INPUT_AMOUNT] @ push_int ORACLE_MB_MAX_FEE_SOMPI
     @ [OP_SUB, OP_GREATERTHANOREQUAL, OP_VERIFY, OP_1]"

definition build_oracle_mb_publish_body :: "bytes \<Rightarrow> bytes \<Rightarrow> bytes \<Rightarrow> u8 \<Rightarrow> bytes \<Rightarrow> bytes option" where
  "build_oracle_mb_publish_body image_id control_id set_root hashfn heartbeat_cov_id =
     script_of ([Some [OP_IF]] @ push_oracle_roll_branch image_id control_id set_root hashfn heartbeat_cov_id
                @ [Some [OP_ELSE], Some push_oracle_passthrough_branch, Some [OP_ENDIF]])"

definition build_oracle_mb_redeem :: "u64 \<Rightarrow> u64 \<Rightarrow> bytes \<Rightarrow> bytes \<Rightarrow> bytes \<Rightarrow> u8 \<Rightarrow> bytes \<Rightarrow> bytes option" where
  "build_oracle_mb_redeem price t image_id control_id set_root hashfn heartbeat_cov_id =
     map_option (\<lambda>body. oracle_mb_prefix price t @ body)
       (build_oracle_mb_publish_body image_id control_id set_root hashfn heartbeat_cov_id)"

definition build_oracle_mb_publish_sig_script :: "bytes \<Rightarrow> bytes \<Rightarrow> bytes \<Rightarrow> bytes \<Rightarrow> bytes \<Rightarrow> bytes \<Rightarrow> bytes option" where
  "build_oracle_mb_publish_sig_script redeem claim control_index control_digests seal raw_journal =
     script_of [push_data claim, push_data control_index, push_data control_digests, push_data seal,
                push_data raw_journal, push_data [0x01], push_data redeem]"

definition build_oracle_mb_passthrough_sig_script :: "bytes \<Rightarrow> bytes option" where
  "build_oracle_mb_passthrough_sig_script redeem = script_of [Some [OP_0], push_data redeem]"

definition build_oracle_mb_genesis_redeem :: "u64 \<Rightarrow> u64 \<Rightarrow> bytes \<Rightarrow> bytes \<Rightarrow> bytes \<Rightarrow> u8 \<Rightarrow> bytes \<Rightarrow> bytes option" where
  "build_oracle_mb_genesis_redeem = build_oracle_mb_redeem"

definition build_oracle_mb_consumer_sig_script :: "bytes \<Rightarrow> bytes option" where
  "build_oracle_mb_consumer_sig_script redeem = push_data redeem"

definition build_oracle_mb_heartbeat_script :: bytes where
  "build_oracle_mb_heartbeat_script =
     [OP_TX_INPUT_INDEX, OP_INPUT_COVENANT_ID, OP_DUP, OP_COV_INPUT_COUNT] @ push_int 1 @ [OP_NUMEQUALVERIFY]
     @ [OP_DUP, OP_COV_OUTPUT_COUNT] @ push_int 1 @ [OP_NUMEQUALVERIFY] @ push_int 0
     @ [OP_COV_OUTPUT_IDX, OP_DUP, OP_TX_OUTPUT_SPK, OP_TX_INPUT_INDEX, OP_TX_INPUT_SPK, OP_EQUALVERIFY,
        OP_TX_OUTPUT_AMOUNT, OP_TX_INPUT_INDEX, OP_TX_INPUT_AMOUNT, OP_GREATERTHANOREQUAL, OP_VERIFY, OP_1]"

definition build_oracle_mb_heartbeat_sig_script :: "bytes \<Rightarrow> bytes option" where
  "build_oracle_mb_heartbeat_sig_script redeem = push_data redeem"

section \<open>Spend paths\<close>

datatype spend_path_kind = PathOwner | PathOther

definition salted_body_offset :: "bytes \<Rightarrow> nat" where
  "salted_body_offset script =
     (case read_element script 0 of
        Some (salt, nxt) \<Rightarrow> if el_opcode salt = 8 \<and> get_at script nxt = Some OP_DROP then nxt + 1 else 0
      | None \<Rightarrow> 0)"

definition is_single_path :: "bytes \<Rightarrow> bool" where
  "is_single_path redeem_script =
     (case read_element redeem_script (salted_body_offset redeem_script) of
        Some (element, nxt) \<Rightarrow> el_opcode element = 32 \<and> get_at redeem_script nxt = Some OP_CHECKSIGVERIFY
      | None \<Rightarrow> False)"

definition spend_path :: "bytes \<Rightarrow> bytes \<Rightarrow> spend_path_kind option" where
  "spend_path signature_script redeem_script =
     (if is_single_path redeem_script then Some PathOwner
      else Option.bind (complete_elements signature_script) (\<lambda>es.
        if length es < 2 then None
        else let selector = es ! (length es - 2); redeem = List.last es in
          if el_data redeem \<noteq> redeem_script then None
          else if el_opcode selector = OP_1 then Some PathOwner
          else if el_opcode selector = OP_0 then Some PathOther
          else None))"

section \<open>Token envelopes\<close>

definition PROTOCOL_TAG :: bytes where "PROTOCOL_TAG = map of_char ''kasplex''"

text \<open>\<open>items.windows(3).position(...)\<close>: the index of the first window that matches.\<close>

fun envelope_start :: "element list \<Rightarrow> nat option" where
  "envelope_start (a # b # c # es) =
     (if el_opcode a = OP_0 \<and> el_opcode b = OP_IF \<and> el_data c = PROTOCOL_TAG then Some 0
      else map_option Suc (envelope_start (b # c # es)))"
| "envelope_start es = None"

definition envelope_payload :: "bytes \<Rightarrow> bytes option" where
  "envelope_payload script =
     (let items = fst (walk (elements script)) in
      Option.bind (envelope_start items) (\<lambda>start.
      let body = drop (start + 3) items in
      Option.bind (find_index (\<lambda>item. el_opcode item = OP_ENDIF) body) (\<lambda>stop.
        map_option el_data (find (\<lambda>item. is_push item \<and> el_data item \<noteq> []) (rev (take stop body))))))"

datatype krc20_op = KrcDeploy | KrcMint | KrcTransfer | KrcOther

definition krc20_label :: "krc20_op \<Rightarrow> string" where
  "krc20_label op = (case op of KrcDeploy \<Rightarrow> ''DEPLOY'' | KrcMint \<Rightarrow> ''MINT'' | KrcTransfer \<Rightarrow> ''TRANSFER'' | KrcOther \<Rightarrow> ''?'')"

record krc20_operation =
  ko_op :: krc20_op
  ko_ticker :: string
  ko_amount :: "string option"
  ko_recipient :: "string option"

record krc20_envelope =
  ke_p :: string
  ke_op :: string
  ke_tick :: string
  ke_amt :: "string option"
  ke_to :: "string option"

definition ascii_upper :: "char \<Rightarrow> char" where
  "ascii_upper c = (if CHR ''a'' \<le> c \<and> c \<le> CHR ''z'' then char_of (of_char c - (32 :: nat)) else c)"

text \<open>The JSON reader is the parameter \<open>from_slice\<close>.\<close>

definition krc20_operation_of :: "(bytes \<Rightarrow> krc20_envelope option) \<Rightarrow> bytes \<Rightarrow> krc20_operation option" where
  "krc20_operation_of from_slice redeem_script =
     Option.bind (envelope_payload redeem_script) (\<lambda>json.
     Option.bind (from_slice json) (\<lambda>envelope.
       if map ascii_lower (ke_p envelope) \<noteq> ''krc-20'' \<or> ke_tick envelope = [] then None
       else let lower = map ascii_lower (ke_op envelope);
                op = (if lower = ''deploy'' then KrcDeploy else if lower = ''mint'' then KrcMint
                      else if lower = ''transfer'' then KrcTransfer else KrcOther)
            in Some \<lparr>ko_op = op, ko_ticker = map ascii_upper (ke_tick envelope), ko_amount = ke_amt envelope,
                     ko_recipient = ke_to envelope\<rparr>))"

section \<open>Sequence commitments\<close>

record sequence_commit_proof =
  sp_subnetwork_id_hex :: string
  sp_gas :: u64
  sp_transaction_version :: u16
  sp_payload :: bytes

definition stealth_proof :: "bytes \<Rightarrow> u8 \<Rightarrow> sequence_commit_proof" where
  "stealth_proof ephemeral_public_key view_tag =
     \<lparr>sp_subnetwork_id_hex = ''4b53544c00000000000000000000000000000000'', sp_gas = 0, sp_transaction_version = 1,
      sp_payload = [1] @ ephemeral_public_key @ [view_tag]\<rparr>"

section \<open>Lengths and offsets\<close>

lemma le_bytes_8:
  "le_bytes 8 n =
     [word_of_nat (n mod 256), word_of_nat (n div 256 mod 256), word_of_nat (n div 256 div 256 mod 256),
      word_of_nat (n div 256 div 256 div 256 mod 256), word_of_nat (n div 256 div 256 div 256 div 256 mod 256),
      word_of_nat (n div 256 div 256 div 256 div 256 div 256 mod 256),
      word_of_nat (n div 256 div 256 div 256 div 256 div 256 div 256 mod 256),
      word_of_nat (n div 256 div 256 div 256 div 256 div 256 div 256 div 256 mod 256)]"
proof -
  have "(8 :: nat) = Suc (Suc (Suc (Suc (Suc (Suc (Suc (Suc 0)))))))" by simp
  then show ?thesis by (simp only: le_bytes.simps)
qed

lemma push_int_constants:
  "push_int 0 = [0x00]" "push_int 1 = [0x51]" "push_int 2 = [0x52]" "push_int 8 = [0x58]" "push_int 16 = [0x60]"
  "push_int 48 = [0x01, 0x30]" "push_int 1152921504606846977 = [0x08, 1, 0, 0, 0, 0, 0, 0, 0x10]"
  "push_int (ORACLE_MB_REDEEM_LEN - 11) = [0x02, 0x29, 0x01]" "push_int (ORACLE_MB_REDEEM_LEN - 19) = [0x02, 0x21, 0x01]"
  "push_int ORACLE_MB_BODY_LEN = [0x02, 0x20, 0x01]" "push_int ORACLE_MB_MAX_FEE_SOMPI = [0x03, 0x40, 0x42, 0x0f]"
  by (simp_all add: push_int_def script_int_bytes_def pop_zeros_def u64_to_le_def le_bytes_8 OP_0_def
      ORACLE_MB_REDEEM_LEN_def ORACLE_MB_BODY_LEN_def ORACLE_MB_MAX_FEE_SOMPI_def)

lemma length_push_data: "length data \<le> 75 \<Longrightarrow> \<exists>b. push_data data = Some b \<and> length b = Suc (length data)"
  by (simp add: push_data_def)

lemma push_data_suffix: "push_data data = Some b \<Longrightarrow> \<exists>p. b = p @ data"
  by (auto simp: push_data_def Let_def split: if_splits intro: exI [of _ "[_]"] exI [of _ "[_, _]"])

lemma script_of_append:
  "script_of (ps @ qs) = Option.bind (script_of ps) (\<lambda>b. Option.bind (script_of qs) (\<lambda>c. Some (b @ c)))"
  by (induction ps) (auto split: Option.bind_splits)

lemma oracle_body_length:
  assumes "length image_id = 32" "length control_id = 32" "length set_root = 32" "length heartbeat_cov_id = 32"
  shows "\<exists>body. build_oracle_mb_publish_body image_id control_id set_root hashfn heartbeat_cov_id = Some body
    \<and> length body = 288"
  using assms
  by (simp add: build_oracle_mb_publish_body_def push_oracle_roll_branch_def push_oracle_passthrough_branch_def
      push_oracle_mb_singleton_strict_def push_int_constants push_data_def)

lemma get_range_suffix:
  assumes "s = p @ q" "a \<le> b" "b \<le> length q"
  shows "get_range s (length s - (length q - a)) (length s - (length q - b)) = Some (take (b - a) (drop a q))"
proof -
  have "length s - (length q - a) = length p + a" "length s - (length q - b) = length p + b" using assms by auto
  then show ?thesis using get_range_append [of p q a b] assms by (simp add: get_range_def)
qed

lemma oracle_redeem_parts:
  "build_oracle_mb_redeem price t image_id control_id set_root hashfn heartbeat_cov_id = Some redeem \<longleftrightarrow>
   (\<exists>body. build_oracle_mb_publish_body image_id control_id set_root hashfn heartbeat_cov_id = Some body
       \<and> redeem = oracle_mb_prefix price t @ body)"
  by (auto simp: build_oracle_mb_redeem_def)

lemma oracle_sig_scripts_end:
  "build_oracle_mb_publish_sig_script redeem claim control_index control_digests seal raw_journal = Some s \<Longrightarrow> \<exists>p. s = p @ redeem"
  "build_oracle_mb_passthrough_sig_script redeem = Some s \<Longrightarrow> \<exists>p. s = p @ redeem"
  "build_oracle_mb_consumer_sig_script redeem = Some s \<Longrightarrow> \<exists>p. s = p @ redeem"
proof -
  have end_of: "script_of (ps @ [push_data redeem]) = Some s \<Longrightarrow> \<exists>p. s = p @ redeem" for ps
    by (auto simp: script_of_append split: Option.bind_splits dest!: push_data_suffix)
  show "build_oracle_mb_publish_sig_script redeem claim control_index control_digests seal raw_journal = Some s \<Longrightarrow>
      \<exists>p. s = p @ redeem"
    using end_of [of "[push_data claim, push_data control_index, push_data control_digests, push_data seal,
      push_data raw_journal, push_data [0x01]]"] by (simp add: build_oracle_mb_publish_sig_script_def)
  show "build_oracle_mb_passthrough_sig_script redeem = Some s \<Longrightarrow> \<exists>p. s = p @ redeem"
    using end_of [of "[Some [OP_0]]"] by (simp add: build_oracle_mb_passthrough_sig_script_def)
  show "build_oracle_mb_consumer_sig_script redeem = Some s \<Longrightarrow> \<exists>p. s = p @ redeem"
    using push_data_suffix by (simp add: build_oracle_mb_consumer_sig_script_def)
qed

section \<open>Properties\<close>


definition oracle_key :: bytes where "oracle_key = replicate 32 7"


text \<open>
  A crowdfunding covenant carries its campaign at its end. Whenever the builder returns a script, the bytes from 34 to 2
  before the end of every signature script that ends with it are the campaign fingerprint of its goal, timeout, verifying
  key and organizer script: two contributions to one campaign agree there whatever their contributor, timeout encoding and
  salt.
\<close>

theorem crowdfund_campaign_tail:
  assumes "crowdfund_redeem_script keyed c = Some (Ok redeem)"
    and "\<forall>domain message. length (keyed domain message) = 32"
  shows "get_range (p @ redeem) (length (p @ redeem) - unat CAMPAIGN_ID_START_FROM_END)
      (length (p @ redeem) - unat CAMPAIGN_ID_END_FROM_END) =
    Some (crowdfund_campaign_id keyed (cf_goal_sompi c) (cf_locktime_daa c) (cf_verifying_key_hash c) (cf_organizer_output_spk c))"
proof -
  define cid where "cid = crowdfund_campaign_id keyed (cf_goal_sompi c) (cf_locktime_daa c) (cf_verifying_key_hash c)
    (cf_organizer_output_spk c)"
  have l: "length cid = 32" using assms(2) by (simp add: cid_def crowdfund_campaign_id_def)
  from assms(1) obtain ps where "script_of (ps @ [Some [OP_ENDIF], push_data cid, Some [OP_DROP, OP_1]]) = Some redeem"
    unfolding crowdfund_redeem_script_def Let_def cid_def [symmetric]
    by (auto split: sum.splits simp flip: append_Cons append_assoc)
  then obtain q where q: "redeem = q @ cid @ [OP_DROP, OP_1]"
    using l by (auto simp: script_of_append push_data_def split: Option.bind_splits)
  have "get_range (p @ redeem) (length (p @ redeem) - (34 - 0)) (length (p @ redeem) - (34 - 32)) = Some cid"
    using get_range_suffix [of "p @ redeem" "p @ q" "cid @ [OP_DROP, OP_1]" 0 32] l by (simp add: q)
  then show ?thesis
    by (simp add: cid_def [symmetric] CAMPAIGN_ID_START_FROM_END_def CAMPAIGN_ID_END_FROM_END_def)
qed

text \<open>
  The spend path reads the selector. For a covenant with branches, a signature script of any well-formed pushes followed by
  the selector and the redeem script is read as the owner's path for selector 1 and as the other path for selector 0.
\<close>

theorem spend_path_selector:
  assumes "complete_elements pushes = Some es" "push_data redeem = Some r" "\<not> is_single_path redeem"
  shows "spend_path (pushes @ push_int 1 @ r) redeem = Some PathOwner"
    and "spend_path (pushes @ push_int 0 @ r) redeem = Some PathOther"
proof -
  note e = complete_elements_inv [OF assms(1)]
  have l: "length redeem < 2 ^ 32" using assms(2) by (rule push_data_bound)
  have s: "pushes @ push_int v @ r = concat (map element_bytes (es @ [int_element v, data_element redeem]))" for v
    using assms(2) e l by (simp add: script_simps)
  have c: "complete_elements (pushes @ push_int v @ r) = Some (es @ [int_element v, data_element redeem])" for v
    unfolding s by (rule complete_elements_bytes) (use e l in \<open>simp add: script_simps\<close>)
  have "el_opcode (int_element 1) = OP_1" "el_opcode (int_element 0) = OP_0"
    by (simp_all add: int_element_def op_element_def opcode_defs)
  then show "spend_path (pushes @ push_int 1 @ r) redeem = Some PathOwner"
    "spend_path (pushes @ push_int 0 @ r) redeem = Some PathOther"
    unfolding spend_path_def c using assms(3) by (simp_all add: Let_def nth_append script_simps OP_0_def OP_1_def)
qed

text \<open>
  The token payload of a reveal script is the last non-empty push of the first envelope: the elements in front of it open no
  envelope, and metadata pushes and empty pushes in it do not matter.
\<close>

lemma envelope_start_skip:
  "\<forall>e\<in>set pre. el_opcode e \<noteq> OP_0 \<Longrightarrow>
   envelope_start (pre @ op_element OP_0 # op_element OP_IF # data_element PROTOCOL_TAG # body) = Some (length pre)"
proof (induction pre)
  case Nil
  then show ?case by (simp add: script_simps)
next
  case (Cons e pre)
  let ?tail = "pre @ op_element OP_0 # op_element OP_IF # data_element PROTOCOL_TAG # body"
  obtain b c rest where "?tail = b # c # rest" by (cases pre; cases "tl pre") auto
  with Cons show ?case by simp
qed

lemma find_index_first: "\<forall>x\<in>set xs. \<not> P x \<Longrightarrow> P y \<Longrightarrow> find_index P (xs @ y # ys) = Some (length xs)"
  by (induction xs) auto

theorem envelope_payload_exact:
  assumes "complete_elements script =
      Some (pre @ [op_element OP_0, op_element OP_IF, data_element PROTOCOL_TAG] @ metadata @ [data_element json] @ empties
            @ [op_element OP_ENDIF] @ post)"
    and "\<forall>e\<in>set pre. el_opcode e \<noteq> OP_0" and "\<forall>e\<in>set metadata. el_opcode e \<noteq> OP_ENDIF"
    and "\<forall>e\<in>set empties. el_opcode e \<noteq> OP_ENDIF \<and> el_data e = []" and "json \<noteq> []"
  shows "envelope_payload script = Some json"
proof -
  let ?body = "metadata @ [data_element json] @ empties @ [op_element OP_ENDIF] @ post"
  have items: "fst (walk (elements script)) =
      pre @ op_element OP_0 # op_element OP_IF # data_element PROTOCOL_TAG # ?body"
    using assms(1) by (auto simp: complete_elements_def split: prod.splits if_splits)
  have push: "is_push (data_element json)" "el_opcode (data_element json) \<noteq> OP_ENDIF"
    by (auto simp: is_push_def data_element_def opcode_defs contract_opcode_defs word_le_nat_alt word_unat_eq_iff)
  have idx: "find_index (\<lambda>item. el_opcode item = OP_ENDIF) ?body = Some (length metadata + Suc (length empties))"
    using find_index_first [of "metadata @ [data_element json] @ empties" "\<lambda>item. el_opcode item = OP_ENDIF"
        "op_element OP_ENDIF" post] assms(3,4) push(2) by (simp add: script_simps ball_Un)
  have "find (\<lambda>item. is_push item \<and> el_data item \<noteq> []) (rev empties @ data_element json # rev metadata) = Some (data_element json)"
    using assms(4,5) push(1) by (induction empties rule: rev_induct) (auto simp: script_simps)
  then show ?thesis
    using idx envelope_start_skip [OF assms(2), of ?body]
    by (simp add: envelope_payload_def items Let_def script_simps)
qed

end
