(* ===== verification/Covenant_Identity.thy ===== *)
theory Covenant_Identity
  imports Sighash Mass Address
begin

text \<open>
  Covenant identities (\<open>contract/covenant/identity.rs\<close>) and the genesis group of a transaction
  (\<open>transaction/consensus/model.rs\<close>). BLAKE2b is a parameter: \<open>keyed\<close> under a domain, \<open>blake2b_256\<close> without one. The
  amounts of a consensus transaction are naturals below \<open>2^64\<close>.
\<close>

section \<open>Definitions\<close>

definition COVENANT_ID_DOMAIN :: bytes where "COVENANT_ID_DOMAIN = map of_char ''CovenantID''"

record genesis_outpoint =
  go_transaction_id :: bytes
  go_index :: u32

record authorized_output =
  ao_index :: u32
  ao_value :: u64
  ao_spk_version :: u16
  ao_spk_script :: bytes

record covenant_genesis =
  cg_covenant_id :: bytes
  cg_outpoint :: genesis_outpoint
  cg_authorizing_input :: u16
  cg_outputs :: "authorized_output list"

datatype covenant_proof_error =
  NoAuthorizedOutputs | OutputsNotOrdered | IdMismatch | MixedAuthorizingInputs | NoSuchInput u16 | NotPayToScriptHash
| RedeemScriptMismatch

text \<open>The bytes fed to the hasher for one output, and for the whole identity.\<close>

definition authorized_output_bytes :: "authorized_output \<Rightarrow> bytes" where
  "authorized_output_bytes out =
     u32_to_le (ao_index out) @ u64_to_le (ao_value out) @ u16_to_le (ao_spk_version out)
     @ u64_to_le (word_of_nat (length (ao_spk_script out))) @ ao_spk_script out"

definition covenant_id_message :: "genesis_outpoint \<Rightarrow> authorized_output list \<Rightarrow> bytes" where
  "covenant_id_message genesis outputs =
     go_transaction_id genesis @ u32_to_le (go_index genesis) @ u64_to_le (word_of_nat (length outputs))
     @ concat (map authorized_output_bytes outputs)"

definition covenant_id :: "(bytes \<Rightarrow> bytes \<Rightarrow> bytes) \<Rightarrow> genesis_outpoint \<Rightarrow> authorized_output list \<Rightarrow> bytes" where
  "covenant_id keyed genesis outputs = keyed COVENANT_ID_DOMAIN (covenant_id_message genesis outputs)"

fun ascending :: "authorized_output list \<Rightarrow> bool" where
  "ascending (a # b # outputs) \<longleftrightarrow> ao_index a < ao_index b \<and> ascending (b # outputs)"
| "ascending outputs \<longleftrightarrow> True"

definition verify_genesis ::
  "(bytes \<Rightarrow> bytes \<Rightarrow> bytes) \<Rightarrow> bytes \<Rightarrow> genesis_outpoint \<Rightarrow> authorized_output list \<Rightarrow> covenant_proof_error + unit" where
  "verify_genesis keyed claimed genesis outputs =
     (if outputs = [] then Err NoAuthorizedOutputs
      else if \<not> ascending outputs then Err OutputsNotOrdered
      else if covenant_id keyed genesis outputs \<noteq> claimed then Err IdMismatch
      else Ok ())"

definition verify_redeem_script ::
  "(bytes \<Rightarrow> bytes) \<Rightarrow> authorized_output \<Rightarrow> bytes \<Rightarrow> covenant_proof_error + unit" where
  "verify_redeem_script blake2b_256 out redeem_script =
     (case (ao_spk_version out, p2sh_hash (ao_spk_script out)) of
        (version, Some h) \<Rightarrow>
          if version \<noteq> 0 then Err NotPayToScriptHash
          else if h \<noteq> script_hash blake2b_256 redeem_script then Err RedeemScriptMismatch
          else Ok ()
      | (_, None) \<Rightarrow> Err NotPayToScriptHash)"

definition script_to_address :: "(bytes \<Rightarrow> bytes) \<Rightarrow> bytes \<Rightarrow> string \<Rightarrow> string + string" where
  "script_to_address blake2b_256 redeem_script p = Ok (script_to_p2sh_address blake2b_256 redeem_script p)"

text \<open>One round of the loop of \<open>covenant_genesis\<close> over the enumerated outputs.\<close>

definition genesis_step ::
  "bytes \<Rightarrow> u16 option \<times> authorized_output list \<Rightarrow> nat \<times> consensus_output
   \<Rightarrow> covenant_proof_error + (u16 option \<times> authorized_output list)" where
  "genesis_step claimed st item =
     (case (st, item) of ((authorizing_input, outputs), (index, output)) \<Rightarrow>
        (case co_covenant output of
           Some (input, cid) \<Rightarrow>
             if cid \<noteq> claimed then Ok st
             else let first = (case authorizing_input of None \<Rightarrow> input | Some a \<Rightarrow> a) in
               if first \<noteq> input then Err MixedAuthorizingInputs
               else if index \<ge> 2 ^ 32 then Err OutputsNotOrdered
               else Ok (Some first, outputs @ [\<lparr>ao_index = word_of_nat index, ao_value = word_of_nat (co_value output),
                          ao_spk_version = co_spk_version output, ao_spk_script = co_spk_script output\<rparr>])
         | None \<Rightarrow> Ok st))"

definition covenant_genesis_of ::
  "(bytes \<Rightarrow> bytes \<Rightarrow> bytes) \<Rightarrow> consensus_transaction \<Rightarrow> bytes \<Rightarrow> covenant_proof_error + covenant_genesis" where
  "covenant_genesis_of keyed tx claimed =
     rbind (try_fold (genesis_step claimed) (None, []) (enumerate 0 (ct_outputs tx))) (\<lambda>(authorizing, outputs).
     rbind (ok_or authorizing NoAuthorizedOutputs) (\<lambda>authorizing_input.
     rbind (ok_or (get_at (ct_inputs tx) (unat authorizing_input)) (NoSuchInput authorizing_input)) (\<lambda>input.
     let outpoint = \<lparr>go_transaction_id = ci_prev_tx_id input, go_index = ci_prev_index input\<rparr> in
     rbind (verify_genesis keyed claimed outpoint outputs) (\<lambda>_.
       Ok \<lparr>cg_covenant_id = claimed, cg_outpoint = outpoint, cg_authorizing_input = authorizing_input,
           cg_outputs = outputs\<rparr>))))"

section \<open>The identity commits to its preimage\<close>

definition authorized_ok :: "authorized_output \<Rightarrow> bool" where
  "authorized_ok out \<longleftrightarrow> length (ao_spk_script out) < 2 ^ 64"

interpretation authorized_code: prefix_code authorized_output_bytes authorized_ok
proof unfold_locales
  show "authorized_output_bytes out \<noteq> []" for out
  proof -
    have "length (authorized_output_bytes out) \<noteq> 0" by (simp add: authorized_output_bytes_def)
    then show ?thesis by auto
  qed
  show "a = b \<and> r = s"
    if "authorized_ok a" "authorized_ok b" "authorized_output_bytes a @ r = authorized_output_bytes b @ s" for a b r s
    using that var_bytes_inject [of "ao_spk_script a" "ao_spk_script b" r s]
    by (simp add: authorized_output_bytes_def authorized_ok_def)
qed

lemma covenant_id_message_inject:
  assumes "length (go_transaction_id g) = length (go_transaction_id h)" "list_all authorized_ok outs" "list_all authorized_ok outs'"
    and "covenant_id_message g outs = covenant_id_message h outs'"
  shows "g = h \<and> outs = outs'"
  using assms authorized_code.concat_inject [of outs outs']
  by (auto simp: covenant_id_message_def append_eq_append_conv)

section \<open>The genesis group\<close>

text \<open>The outputs bound to an identity, with their positions.\<close>

definition bound_items :: "bytes \<Rightarrow> (nat \<times> consensus_output) list \<Rightarrow> (nat \<times> consensus_output) list" where
  "bound_items claimed = filter (\<lambda>(i, out). \<exists>input. co_covenant out = Some (input, claimed))"

definition item_input :: "nat \<times> consensus_output \<Rightarrow> u16" where
  "item_input item = fst (the (co_covenant (snd item)))"

definition item_output :: "nat \<times> consensus_output \<Rightarrow> authorized_output" where
  "item_output item =
     \<lparr>ao_index = word_of_nat (fst item), ao_value = word_of_nat (co_value (snd item)),
      ao_spk_version = co_spk_version (snd item), ao_spk_script = co_spk_script (snd item)\<rparr>"

lemma genesis_step_unbound:
  "bound_items claimed [item] = [] \<Longrightarrow> genesis_step claimed st item = Ok st"
  by (cases item; cases st) (auto simp: genesis_step_def bound_items_def split: option.splits if_splits)

lemma genesis_step_bound:
  "bound_items claimed [item] \<noteq> [] \<Longrightarrow> genesis_step claimed (a, outs) item = Ok st \<longleftrightarrow>
     (a = None \<or> a = Some (item_input item)) \<and> fst item < 2 ^ 32 \<and> st = (Some (item_input item), outs @ [item_output item])"
  by (cases item)
    (auto simp: genesis_step_def bound_items_def item_input_def item_output_def Let_def split: option.splits if_splits)

lemma genesis_fold:
  "try_fold (genesis_step claimed) (a, outs) items = Ok (a', outs') \<longleftrightarrow>
     (\<forall>item\<in>set (bound_items claimed items). fst item < 2 ^ 32 \<and> Some (item_input item) = a')
     \<and> (a = None \<or> a = a') \<and> (bound_items claimed items = [] \<longrightarrow> a' = a)
     \<and> outs' = outs @ map item_output (bound_items claimed items)"
proof (induction items arbitrary: a outs)
  case Nil
  then show ?case by (auto simp: bound_items_def)
next
  case (Cons item items)
  have b: "bound_items claimed (item # items) = bound_items claimed [item] @ bound_items claimed items"
    by (simp add: bound_items_def)
  show ?case
  proof (cases "bound_items claimed [item] = []")
    case True
    then show ?thesis using Cons.IH [of a outs] unfolding b by (simp add: genesis_step_unbound)
  next
    case False
    then have i: "bound_items claimed [item] = [item]" by (auto simp: bound_items_def split: if_splits)
    have "try_fold (genesis_step claimed) (a, outs) (item # items) = Ok (a', outs') \<longleftrightarrow>
        (a = None \<or> a = Some (item_input item)) \<and> fst item < 2 ^ 32
        \<and> try_fold (genesis_step claimed) (Some (item_input item), outs @ [item_output item]) items = Ok (a', outs')"
      using genesis_step_bound [OF False, of a outs] by (auto simp: rbind_Inr_iff)
    then show ?thesis unfolding Cons.IH b i by auto
  qed
qed

lemma ascending_sorted: "ascending outs \<longleftrightarrow> sorted_wrt (\<lambda>a b. ao_index a < ao_index b) outs"
proof (induction outs rule: ascending.induct)
  case (1 a b outs)
  then show ?case by (auto intro: less_trans)
qed auto

lemma bound_items_ascending:
  assumes "list_all (\<lambda>item. fst item < 2 ^ 32) (bound_items claimed (enumerate 0 outs))"
  shows "ascending (map item_output (bound_items claimed (enumerate 0 outs)))"
proof -
  let ?items = "bound_items claimed (enumerate 0 outs)"
  have "sorted_wrt (\<lambda>a b. fst a < fst b) (enumerate 0 outs)"
    by (simp add: sorted_wrt_iff_nth_less nth_enumerate_eq)
  then have "sorted_wrt (\<lambda>a b. fst a < fst b) ?items" by (simp add: bound_items_def sorted_wrt_filter)
  then have "sorted_wrt (\<lambda>a b. ao_index (item_output a) < ao_index (item_output b)) ?items"
    by (rule sorted_wrt_mono_rel [rotated])
      (use assms in \<open>auto simp: item_output_def word_less_nat_alt list_all_iff\<close>)
  then show ?thesis by (simp add: ascending_sorted sorted_wrt_map)
qed

section \<open>Properties\<close>

text \<open>
  (C11) The genesis group of a transaction is exact. A genesis is returned for a claimed identity exactly when its outputs are
  all the outputs of the transaction bound to the identity, with their positions, values and scripts, there is at least
  one, they all name the authorizing input of the genesis, that input exists and its outpoint is the genesis outpoint, and
  the identity recomputed from outpoint and outputs is the claimed one. The group is ascending by construction.
\<close>

theorem covenant_genesis_exact:
  "covenant_genesis_of keyed tx claimed = Ok g \<longleftrightarrow>
     (let items = bound_items claimed (enumerate 0 (ct_outputs tx)) in
      items \<noteq> []
      \<and> list_all (\<lambda>item. fst item < 2 ^ 32 \<and> item_input item = cg_authorizing_input g) items
      \<and> unat (cg_authorizing_input g) < length (ct_inputs tx)
      \<and> g = \<lparr>cg_covenant_id = claimed,
            cg_outpoint = \<lparr>go_transaction_id = ci_prev_tx_id (ct_inputs tx ! unat (cg_authorizing_input g)),
                           go_index = ci_prev_index (ct_inputs tx ! unat (cg_authorizing_input g))\<rparr>,
            cg_authorizing_input = cg_authorizing_input g, cg_outputs = map item_output items\<rparr>
      \<and> covenant_id keyed (cg_outpoint g) (cg_outputs g) = claimed)"
proof -
  let ?items = "bound_items claimed (enumerate 0 (ct_outputs tx))"
  have "covenant_genesis_of keyed tx claimed = Ok g \<longleftrightarrow>
      (\<exists>a outs input. try_fold (genesis_step claimed) (None, []) (enumerate 0 (ct_outputs tx)) = Ok (Some a, outs)
         \<and> get_at (ct_inputs tx) (unat a) = Some input
         \<and> verify_genesis keyed claimed \<lparr>go_transaction_id = ci_prev_tx_id input, go_index = ci_prev_index input\<rparr> outs = Ok ()
         \<and> g = \<lparr>cg_covenant_id = claimed,
               cg_outpoint = \<lparr>go_transaction_id = ci_prev_tx_id input, go_index = ci_prev_index input\<rparr>,
               cg_authorizing_input = a, cg_outputs = outs\<rparr>)"
    by (auto simp: covenant_genesis_of_def rbind_Inr_iff Let_def split: prod.splits)
  also have "\<dots> \<longleftrightarrow> (\<exists>a input. ?items \<noteq> [] \<and> list_all (\<lambda>item. fst item < 2 ^ 32 \<and> item_input item = a) ?items
         \<and> get_at (ct_inputs tx) (unat a) = Some input
         \<and> verify_genesis keyed claimed \<lparr>go_transaction_id = ci_prev_tx_id input, go_index = ci_prev_index input\<rparr>
             (map item_output ?items) = Ok ()
         \<and> g = \<lparr>cg_covenant_id = claimed,
               cg_outpoint = \<lparr>go_transaction_id = ci_prev_tx_id input, go_index = ci_prev_index input\<rparr>,
               cg_authorizing_input = a, cg_outputs = map item_output ?items\<rparr>)"
    unfolding genesis_fold by (auto simp: list_all_iff)
  also have "\<dots> \<longleftrightarrow> ?items \<noteq> [] \<and> list_all (\<lambda>item. fst item < 2 ^ 32 \<and> item_input item = cg_authorizing_input g) ?items
      \<and> unat (cg_authorizing_input g) < length (ct_inputs tx)
      \<and> g = \<lparr>cg_covenant_id = claimed,
            cg_outpoint = \<lparr>go_transaction_id = ci_prev_tx_id (ct_inputs tx ! unat (cg_authorizing_input g)),
                           go_index = ci_prev_index (ct_inputs tx ! unat (cg_authorizing_input g))\<rparr>,
            cg_authorizing_input = cg_authorizing_input g, cg_outputs = map item_output ?items\<rparr>
      \<and> covenant_id keyed (cg_outpoint g) (cg_outputs g) = claimed"
  proof -
    have "ascending (map item_output ?items)" if "list_all (\<lambda>item. fst item < 2 ^ 32 \<and> item_input item = a) ?items" for a
      using bound_items_ascending [of claimed "ct_outputs tx"] that by (simp add: list_all_iff)
    then show ?thesis by (cases g) (auto simp: verify_genesis_def get_at_def split: if_splits)
  qed
  finally show ?thesis by (simp add: Let_def)
qed

text \<open>
  An identity names one genesis. If two transactions both prove the same claimed identity, and the two messages hashed for
  it do not collide, then both have the same genesis outpoint and the same authorized outputs: same positions, values and
  scripts.
\<close>

theorem covenant_identity_unique:
  assumes "covenant_genesis_of keyed tx claimed = Ok g" "covenant_genesis_of keyed tx' claimed = Ok g'"
    and "length (go_transaction_id (cg_outpoint g)) = 32" "length (go_transaction_id (cg_outpoint g')) = 32"
    and "list_all authorized_ok (cg_outputs g)" "list_all authorized_ok (cg_outputs g')"
    and "keyed COVENANT_ID_DOMAIN (covenant_id_message (cg_outpoint g) (cg_outputs g)) =
         keyed COVENANT_ID_DOMAIN (covenant_id_message (cg_outpoint g') (cg_outputs g')) \<longrightarrow>
         covenant_id_message (cg_outpoint g) (cg_outputs g) = covenant_id_message (cg_outpoint g') (cg_outputs g')"
  shows "cg_outpoint g = cg_outpoint g' \<and> cg_outputs g = cg_outputs g'"
proof -
  have proven: "covenant_id keyed (cg_outpoint h) (cg_outputs h) = claimed" if "covenant_genesis_of keyed u claimed = Ok h" for u h
    using that by (auto simp: covenant_genesis_of_def verify_genesis_def Let_def elim!: rbind_OkE split: prod.splits if_splits)
  from proven [OF assms(1)] proven [OF assms(2)]
  show ?thesis using assms(3-7) covenant_id_message_inject [of "cg_outpoint g" "cg_outpoint g'" "cg_outputs g" "cg_outputs g'"]
    by (simp add: covenant_id_def)
qed

text \<open>
  A redeem script is proven for an output exactly when the output has version 0 and its script is the pay-to-script-hash
  form of the redeem script's hash.
\<close>

theorem verify_redeem_script_exact:
  assumes "\<forall>y. length (blake2b_256 y) = 32"
  shows "verify_redeem_script blake2b_256 out redeem = Ok () \<longleftrightarrow>
    ao_spk_version out = 0 \<and> ao_spk_script out = [OP_BLAKE2B, OP_DATA_32] @ blake2b_256 redeem @ [OP_EQUAL]"
proof -
  have "p2sh_hash s = Some (blake2b_256 redeem) \<longleftrightarrow> s = [OP_BLAKE2B, OP_DATA_32] @ blake2b_256 redeem @ [OP_EQUAL]" for s
  proof
    assume h: "p2sh_hash s = Some (blake2b_256 redeem)"
    then obtain rest where "s = OP_BLAKE2B # OP_DATA_32 # rest" "rest \<noteq> []" "List.last rest = OP_EQUAL"
      "butlast rest = blake2b_256 redeem"
      by (cases s; cases "tl s") (auto simp: p2sh_hash_def numeral_eq_Suc split: if_splits)
    then show "s = [OP_BLAKE2B, OP_DATA_32] @ blake2b_256 redeem @ [OP_EQUAL]"
      by (metis append_Cons append_Nil append_butlast_last_id)
  next
    assume "s = [OP_BLAKE2B, OP_DATA_32] @ blake2b_256 redeem @ [OP_EQUAL]"
    then show "p2sh_hash s = Some (blake2b_256 redeem)" using assms by (simp add: p2sh_hash_def butlast_append)
  qed
  moreover have "verify_redeem_script blake2b_256 out redeem = Ok () \<longleftrightarrow>
      ao_spk_version out = 0 \<and> p2sh_hash (ao_spk_script out) = Some (blake2b_256 redeem)"
    by (simp add: verify_redeem_script_def script_hash_def split: option.splits)
  ultimately show ?thesis by blast
qed

end
