(* ===== verification/Covenant_Limits.thy ===== *)
theory Covenant_Limits
  imports Covenant_Templates
begin

text \<open>
  Covenants whose optional clauses shift their elements (\<open>contract/covenant/script/savings.rs\<close>, \<open>allowance.rs\<close>,
  \<open>spending_limit.rs\<close>, \<open>global_thread.rs\<close>): piggy bank, global allowance and global spending limit. Their recognizers
  find integers by the opcode behind them, which reads at most eight bytes: the templates are recognized for integers
  below \<open>2^63\<close>.
\<close>

section \<open>Definitions\<close>

text \<open>\<open>.ok()?.unwrap_or(0)\<close> and \<open>.ok()??\<close> of a search.\<close>

definition found_or_zero :: "script_error + u64 option \<Rightarrow> u64 option" where
  "found_or_zero r = (case r of Inl _ \<Rightarrow> None | Inr None \<Rightarrow> Some 0 | Inr (Some v) \<Rightarrow> Some v)"

definition found :: "script_error + u64 option \<Rightarrow> u64 option" where
  "found r = (case r of Inl _ \<Rightarrow> None | Inr v \<Rightarrow> v)"

definition build_piggy_bank_script :: "bytes \<Rightarrow> u64 \<Rightarrow> u64 \<Rightarrow> bytes \<Rightarrow> bytes" where
  "build_piggy_bank_script owner_pubkey threshold_sompi deadline_daa salt =
     (let has_conditions = threshold_sompi > 0 \<or> deadline_daa > 0 in
      [0x08] @ salt @ [OP_DROP] @ [OP_IF] @ push_pubkey owner_pubkey
      @ (if has_conditions
         then [OP_CHECKSIGVERIFY, OP_IF]
              @ (if threshold_sompi > 0
                 then [0x00, OP_TX_OUTPUT_AMOUNT] @ push_int threshold_sompi @ [OP_GREATERTHANOREQUAL]
                 else [0x00])
              @ [OP_ELSE]
              @ (if deadline_daa > 0 then push_int deadline_daa @ [OP_CHECKLOCKTIMEVERIFY, 0x51] else [0x00])
              @ [OP_ENDIF]
         else [OP_CHECKSIG])
      @ [OP_ELSE, OP_TX_INPUT_INDEX, OP_TX_INPUT_SPK, OP_TX_INPUT_INDEX, OP_TX_OUTPUT_SPK, OP_EQUALVERIFY,
         OP_TX_INPUT_INDEX, OP_TX_OUTPUT_AMOUNT, OP_TX_INPUT_INDEX, OP_TX_INPUT_AMOUNT, OP_GREATERTHANOREQUAL,
         OP_ENDIF])"

record piggy_bank_fields =
  pig_owner_pubkey :: bytes
  pig_threshold_sompi :: u64
  pig_deadline_daa :: u64
  pig_salt :: bytes

definition build_piggy :: "piggy_bank_fields \<Rightarrow> bytes option" where
  "build_piggy f =
     Some (build_piggy_bank_script (pig_owner_pubkey f) (pig_threshold_sompi f) (pig_deadline_daa f) (pig_salt f))"

definition read_piggy :: "bytes \<Rightarrow> element list \<Rightarrow> piggy_bank_fields option" where
  "read_piggy script es =
     Option.bind (array_at 8 es 0) (\<lambda>salt.
     Option.bind (array_at 32 es 3) (\<lambda>owner.
     Option.bind (found_or_zero (find_preceding_script_integer script OP_GREATERTHANOREQUAL)) (\<lambda>threshold.
     Option.bind (found_or_zero (extract_cltv_locktime script)) (\<lambda>deadline.
       Some \<lparr>pig_owner_pubkey = owner, pig_threshold_sompi = threshold, pig_deadline_daa = deadline, pig_salt = salt\<rparr>))))"

definition piggy_bank_script_fields :: "bytes \<Rightarrow> piggy_bank_fields option" where
  "piggy_bank_script_fields = recognize_by read_piggy build_piggy"

definition append_global_thread_enforcement :: "u64 \<Rightarrow> bytes" where
  "append_global_thread_enforcement max_withdraw_sompi =
     [OP_TX_INPUT_INDEX, OP_INPUT_COVENANT_ID, OP_DUP, OP_COV_OUTPUT_COUNT, OP_DUP] @ push_int 1 @ [OP_EQUAL]
     @ [OP_IF, OP_DROP] @ push_int 0
     @ [OP_COV_OUTPUT_IDX, OP_DUP, OP_TX_OUTPUT_SPK, OP_TX_INPUT_INDEX, OP_TX_INPUT_SPK, OP_EQUALVERIFY,
        OP_TX_OUTPUT_AMOUNT, OP_TX_INPUT_INDEX, OP_TX_INPUT_AMOUNT]
     @ push_int max_withdraw_sompi @ [OP_SUB, OP_GREATERTHANOREQUAL, OP_VERIFY]
     @ [OP_ELSE] @ push_int 0 @ [OP_EQUALVERIFY, OP_DROP, OP_TX_INPUT_INDEX, OP_TX_INPUT_AMOUNT]
     @ push_int max_withdraw_sompi @ [OP_LESSTHANOREQUAL, OP_VERIFY, OP_ENDIF, OP_1]"

definition build_global_allowance_script :: "bytes \<Rightarrow> bytes \<Rightarrow> u64 \<Rightarrow> u64 \<Rightarrow> u64 \<Rightarrow> bytes \<Rightarrow> bytes" where
  "build_global_allowance_script owner_pubkey beneficiary_pubkey max_withdraw_sompi cooldown_daa start_daa salt =
     [0x08] @ salt @ [OP_DROP]
     @ [OP_IF] @ push_pubkey owner_pubkey @ [OP_CHECKSIG]
     @ [OP_ELSE] @ push_pubkey beneficiary_pubkey @ [OP_CHECKSIGVERIFY]
     @ (if start_daa > 0 then push_int start_daa @ [OP_CHECKLOCKTIMEVERIFY] else [])
     @ (if cooldown_daa > 0 then push_int cooldown_daa @ [OP_CHECKSEQUENCEVERIFY] else [])
     @ append_global_thread_enforcement max_withdraw_sompi @ [OP_ENDIF]"

record global_allowance_fields =
  gal_owner_pubkey :: bytes
  gal_beneficiary_pubkey :: bytes
  gal_max_withdraw_sompi :: u64
  gal_cooldown_daa :: u64
  gal_start_daa :: u64
  gal_salt :: bytes

definition build_allowance :: "global_allowance_fields \<Rightarrow> bytes option" where
  "build_allowance f =
     Some (build_global_allowance_script (gal_owner_pubkey f) (gal_beneficiary_pubkey f) (gal_max_withdraw_sompi f)
             (gal_cooldown_daa f) (gal_start_daa f) (gal_salt f))"

definition read_allowance :: "bytes \<Rightarrow> element list \<Rightarrow> global_allowance_fields option" where
  "read_allowance script es =
     Option.bind (array_at 8 es 0) (\<lambda>salt.
     Option.bind (array_at 32 es 3) (\<lambda>owner.
     Option.bind (array_at 32 es 6) (\<lambda>beneficiary.
     Option.bind (found (find_preceding_script_integer script OP_SUB)) (\<lambda>max_withdraw.
     Option.bind (found_or_zero (extract_csv_sequence script)) (\<lambda>cooldown.
     Option.bind (found_or_zero (extract_cltv_locktime script)) (\<lambda>start.
       Some \<lparr>gal_owner_pubkey = owner, gal_beneficiary_pubkey = beneficiary, gal_max_withdraw_sompi = max_withdraw,
             gal_cooldown_daa = cooldown, gal_start_daa = start, gal_salt = salt\<rparr>))))))"

definition global_allowance_script_fields :: "bytes \<Rightarrow> global_allowance_fields option" where
  "global_allowance_script_fields = recognize_by read_allowance build_allowance"

definition build_global_spending_limit_script :: "bytes \<Rightarrow> u64 \<Rightarrow> u64 \<Rightarrow> bytes \<Rightarrow> bytes" where
  "build_global_spending_limit_script owner_pubkey max_withdraw_sompi cooldown_daa salt =
     [0x08] @ salt @ [OP_DROP] @ push_pubkey owner_pubkey @ [OP_CHECKSIGVERIFY]
     @ push_int cooldown_daa @ [OP_CHECKSEQUENCEVERIFY] @ append_global_thread_enforcement max_withdraw_sompi"

record global_spending_limit_fields =
  gsl_owner_pubkey :: bytes
  gsl_max_withdraw_sompi :: u64
  gsl_cooldown_daa :: u64
  gsl_salt :: bytes

definition build_limit :: "global_spending_limit_fields \<Rightarrow> bytes option" where
  "build_limit f =
     Some (build_global_spending_limit_script (gsl_owner_pubkey f) (gsl_max_withdraw_sompi f) (gsl_cooldown_daa f)
             (gsl_salt f))"

definition read_limit :: "bytes \<Rightarrow> element list \<Rightarrow> global_spending_limit_fields option" where
  "read_limit script es =
     Option.bind (array_at 8 es 0) (\<lambda>salt.
     Option.bind (array_at 32 es 2) (\<lambda>owner.
     Option.bind (integer_at es 4) (\<lambda>cooldown.
     Option.bind (found (find_preceding_script_integer script OP_SUB)) (\<lambda>max_withdraw.
       Some \<lparr>gsl_owner_pubkey = owner, gsl_max_withdraw_sompi = max_withdraw, gsl_cooldown_daa = cooldown,
             gsl_salt = salt\<rparr>))))"

definition global_spending_limit_script_fields :: "bytes \<Rightarrow> global_spending_limit_fields option" where
  "global_spending_limit_script_fields = recognize_by read_limit build_limit"

section \<open>Layouts\<close>

definition piggy_layout :: "piggy_bank_fields \<Rightarrow> element list" where
  "piggy_layout f =
     [data_element (pig_salt f), op_element OP_DROP, op_element OP_IF, key_element (pig_owner_pubkey f)]
     @ (if pig_threshold_sompi f > 0 \<or> pig_deadline_daa f > 0
        then [op_element OP_CHECKSIGVERIFY, op_element OP_IF]
             @ (if pig_threshold_sompi f > 0
                then [op_element OP_0, op_element OP_TX_OUTPUT_AMOUNT, int_element (pig_threshold_sompi f),
                      op_element OP_GREATERTHANOREQUAL]
                else [op_element OP_0])
             @ [op_element OP_ELSE]
             @ (if pig_deadline_daa f > 0
                then [int_element (pig_deadline_daa f), op_element OP_CHECKLOCKTIMEVERIFY, op_element OP_1]
                else [op_element OP_0])
             @ [op_element OP_ENDIF]
        else [op_element OP_CHECKSIG])
     @ map op_element
         [OP_ELSE, OP_TX_INPUT_INDEX, OP_TX_INPUT_SPK, OP_TX_INPUT_INDEX, OP_TX_OUTPUT_SPK, OP_EQUALVERIFY,
          OP_TX_INPUT_INDEX, OP_TX_OUTPUT_AMOUNT, OP_TX_INPUT_INDEX, OP_TX_INPUT_AMOUNT, OP_GREATERTHANOREQUAL, OP_ENDIF]"

definition thread_layout :: "u64 \<Rightarrow> element list" where
  "thread_layout max_withdraw =
     map op_element [OP_TX_INPUT_INDEX, OP_INPUT_COVENANT_ID, OP_DUP, OP_COV_OUTPUT_COUNT, OP_DUP]
     @ [int_element 1, op_element OP_EQUAL, op_element OP_IF, op_element OP_DROP, int_element 0]
     @ map op_element [OP_COV_OUTPUT_IDX, OP_DUP, OP_TX_OUTPUT_SPK, OP_TX_INPUT_INDEX, OP_TX_INPUT_SPK, OP_EQUALVERIFY,
          OP_TX_OUTPUT_AMOUNT, OP_TX_INPUT_INDEX, OP_TX_INPUT_AMOUNT]
     @ [int_element max_withdraw, op_element OP_SUB, op_element OP_GREATERTHANOREQUAL, op_element OP_VERIFY,
        op_element OP_ELSE, int_element 0, op_element OP_EQUALVERIFY, op_element OP_DROP, op_element OP_TX_INPUT_INDEX,
        op_element OP_TX_INPUT_AMOUNT, int_element max_withdraw, op_element OP_LESSTHANOREQUAL, op_element OP_VERIFY,
        op_element OP_ENDIF, op_element OP_1]"

definition allowance_layout :: "global_allowance_fields \<Rightarrow> element list" where
  "allowance_layout f =
     [data_element (gal_salt f), op_element OP_DROP, op_element OP_IF, key_element (gal_owner_pubkey f),
      op_element OP_CHECKSIG, op_element OP_ELSE, key_element (gal_beneficiary_pubkey f), op_element OP_CHECKSIGVERIFY]
     @ (if gal_start_daa f > 0 then [int_element (gal_start_daa f), op_element OP_CHECKLOCKTIMEVERIFY] else [])
     @ (if gal_cooldown_daa f > 0 then [int_element (gal_cooldown_daa f), op_element OP_CHECKSEQUENCEVERIFY] else [])
     @ thread_layout (gal_max_withdraw_sompi f) @ [op_element OP_ENDIF]"

definition limit_layout :: "global_spending_limit_fields \<Rightarrow> element list" where
  "limit_layout f =
     [data_element (gsl_salt f), op_element OP_DROP, key_element (gsl_owner_pubkey f), op_element OP_CHECKSIGVERIFY,
      int_element (gsl_cooldown_daa f), op_element OP_CHECKSEQUENCEVERIFY] @ thread_layout (gsl_max_withdraw_sompi f)"

text \<open>The sizes the array types guarantee.\<close>

definition piggy_sized :: "piggy_bank_fields \<Rightarrow> bool" where
  "piggy_sized f \<longleftrightarrow> length (pig_owner_pubkey f) = 32 \<and> length (pig_salt f) = 8"

definition allowance_sized :: "global_allowance_fields \<Rightarrow> bool" where
  "allowance_sized f \<longleftrightarrow>
     length (gal_owner_pubkey f) = 32 \<and> length (gal_beneficiary_pubkey f) = 32 \<and> length (gal_salt f) = 8"

definition limit_sized :: "global_spending_limit_fields \<Rightarrow> bool" where
  "limit_sized f \<longleftrightarrow> length (gsl_owner_pubkey f) = 32 \<and> length (gsl_salt f) = 8"

lemmas sized_defs = piggy_sized_def allowance_sized_def limit_sized_def

definition piggy_valid :: "piggy_bank_fields \<Rightarrow> bool" where
  "piggy_valid f \<longleftrightarrow> piggy_sized f \<and> pig_threshold_sompi f < 2 ^ 63 \<and> pig_deadline_daa f < 2 ^ 63"

definition allowance_valid :: "global_allowance_fields \<Rightarrow> bool" where
  "allowance_valid f \<longleftrightarrow>
     allowance_sized f \<and> gal_max_withdraw_sompi f < 2 ^ 63 \<and> gal_cooldown_daa f < 2 ^ 63 \<and> gal_start_daa f < 2 ^ 63"

definition limit_valid :: "global_spending_limit_fields \<Rightarrow> bool" where
  "limit_valid f \<longleftrightarrow> limit_sized f \<and> gsl_max_withdraw_sompi f < 2 ^ 63"

section \<open>Builders\<close>

lemma piggy_build: "piggy_sized f \<Longrightarrow> build_piggy f = Some (concat (map element_bytes (piggy_layout f)))"
  by (simp add: build_piggy_def build_piggy_bank_script_def piggy_layout_def piggy_sized_def Let_def script_simps
      short_data_bytes OP_1_literal OP_0_def [symmetric])

lemma piggy_ok: "piggy_sized f \<Longrightarrow> list_all element_ok (piggy_layout f)"
  by (simp add: piggy_layout_def piggy_sized_def script_simps)

lemma thread_build: "append_global_thread_enforcement m = concat (map element_bytes (thread_layout m))"
  by (simp add: append_global_thread_enforcement_def thread_layout_def script_simps)

lemma thread_ok: "list_all element_ok (thread_layout m)"
  by (simp add: thread_layout_def script_simps)

lemma allowance_build: "allowance_sized f \<Longrightarrow> build_allowance f = Some (concat (map element_bytes (allowance_layout f)))"
  by (simp add: build_allowance_def build_global_allowance_script_def allowance_layout_def allowance_sized_def
      script_simps short_data_bytes thread_build)

lemma allowance_ok: "allowance_sized f \<Longrightarrow> list_all element_ok (allowance_layout f)"
  by (simp add: allowance_layout_def allowance_sized_def script_simps thread_ok)

lemma limit_build: "limit_sized f \<Longrightarrow> build_limit f = Some (concat (map element_bytes (limit_layout f)))"
  by (simp add: build_limit_def build_global_spending_limit_script_def limit_layout_def limit_sized_def
      script_simps short_data_bytes thread_build)

lemma limit_ok: "limit_sized f \<Longrightarrow> list_all element_ok (limit_layout f)"
  by (simp add: limit_layout_def limit_sized_def script_simps thread_ok)

section \<open>What the searches find\<close>

definition search_result :: "u64 \<Rightarrow> script_error + u64 option" where
  "search_result v = (if v < 2 ^ 63 then Ok (Some v) else Err ScriptIntegerTooLong)"

lemma search_result_item:
  "(case classify_element (int_element v) of
      ItemInteger v \<Rightarrow> Ok (Some v) | ItemOversized \<Rightarrow> Err ScriptIntegerTooLong | ItemOpcode \<Rightarrow> Ok None) = search_result v"
  by (simp add: classify_int_element search_result_def)

lemma short_data_opcode: "length data \<le> 75 \<Longrightarrow> el_opcode (data_element data) = word_of_nat (length data)"
  by (simp add: data_element_def)

lemma int_element_neq_numeral: "(0x60 :: u8) < numeral c \<Longrightarrow> el_opcode (int_element v) \<noteq> numeral c"
  by (rule int_element_not_op)

lemmas scan_simps =
  search_result_item short_data_opcode int_element_neq_numeral element_data classify_op_element opcode_defs
  contract_opcode_defs

lemma piggy_scans:
  assumes "piggy_sized f"
  shows "scan_items OP_GREATERTHANOREQUAL ItemOpcode (piggy_layout f) =
      (if pig_threshold_sompi f = 0 then Ok None else search_result (pig_threshold_sompi f))"
    and "scan_items OP_CHECKLOCKTIMEVERIFY ItemOpcode (piggy_layout f) =
      (if pig_deadline_daa f = 0 then Ok None else search_result (pig_deadline_daa f))"
  using assms by (auto simp: piggy_layout_def piggy_sized_def scan_simps word_gt_0)

lemma thread_scans:
  "scan_items OP_SUB previous (thread_layout m @ es) = search_result m"
  "scan_items OP_CHECKLOCKTIMEVERIFY previous (thread_layout m @ [op_element OP_ENDIF]) = Ok None"
  "scan_items OP_CHECKSEQUENCEVERIFY previous (thread_layout m @ [op_element OP_ENDIF]) = Ok None"
  by (simp_all add: thread_layout_def scan_simps)

lemma allowance_scans:
  assumes "allowance_sized f"
  shows "scan_items OP_SUB ItemOpcode (allowance_layout f) = search_result (gal_max_withdraw_sompi f)"
    and "scan_items OP_CHECKSEQUENCEVERIFY ItemOpcode (allowance_layout f) =
      (if gal_cooldown_daa f = 0 then Ok None else search_result (gal_cooldown_daa f))"
    and "scan_items OP_CHECKLOCKTIMEVERIFY ItemOpcode (allowance_layout f) =
      (if gal_start_daa f = 0 then Ok None else search_result (gal_start_daa f))"
  using assms thread_scans [unfolded opcode_defs contract_opcode_defs]
  by (auto simp: allowance_layout_def allowance_sized_def scan_simps word_gt_0)

lemma limit_scan:
  "limit_sized f \<Longrightarrow> scan_items OP_SUB ItemOpcode (limit_layout f) = search_result (gsl_max_withdraw_sompi f)"
  using thread_scans(1) [of _ _ "[]", unfolded opcode_defs contract_opcode_defs]
  by (auto simp: limit_layout_def limit_sized_def scan_simps)

lemma found_search [simp]:
  "found (search_result v) = Some w \<longleftrightarrow> v < 2 ^ 63 \<and> w = v"
  "found_or_zero (search_result v) = Some w \<longleftrightarrow> v < 2 ^ 63 \<and> w = v"
  "found_or_zero (Ok None) = Some w \<longleftrightarrow> w = 0"
  by (auto simp: found_def found_or_zero_def search_result_def)

text \<open>Reading the fields of a built script back gives the fields, provided the integers it searches for are short.\<close>

lemma read_piggy_layout:
  "piggy_sized f \<Longrightarrow> read_piggy (concat (map element_bytes (piggy_layout f))) (piggy_layout f) = Some g \<longleftrightarrow>
     piggy_valid f \<and> g = f"
  using piggy_ok [of f]
  by (auto simp: read_piggy_def piggy_valid_def extract_elements find_preceding_elements piggy_scans Option.bind_eq_Some_conv)
    (auto simp: piggy_layout_def piggy_sized_def accessor_simps)

lemma read_allowance_layout:
  "allowance_sized f \<Longrightarrow>
   read_allowance (concat (map element_bytes (allowance_layout f))) (allowance_layout f) = Some g \<longleftrightarrow>
     allowance_valid f \<and> g = f"
  using allowance_ok [of f]
  by (auto simp: read_allowance_def allowance_valid_def extract_elements find_preceding_elements allowance_scans
      Option.bind_eq_Some_conv)
    (auto simp: allowance_layout_def allowance_sized_def accessor_simps)

lemma read_limit_layout:
  "limit_sized f \<Longrightarrow> read_limit (concat (map element_bytes (limit_layout f))) (limit_layout f) = Some g \<longleftrightarrow>
     limit_valid f \<and> g = f"
  using limit_ok [of f]
  by (auto simp: read_limit_def limit_valid_def find_preceding_elements limit_scan Option.bind_eq_Some_conv)
    (auto simp: limit_layout_def limit_sized_def accessor_simps)

lemma read_sized:
  "read_piggy s es = Some pf \<Longrightarrow> piggy_sized pf"
  "read_allowance s es = Some af \<Longrightarrow> allowance_sized af"
  "read_limit s es = Some lf \<Longrightarrow> limit_sized lf"
  by (auto simp: read_piggy_def read_allowance_def read_limit_def sized_defs array_at_Some split: Option.bind_splits)

text \<open>A script that was built has the layout of its fields as its elements.\<close>

lemma built_elements:
  "Some (concat (map element_bytes layout)) = Some s \<Longrightarrow> list_all element_ok layout \<Longrightarrow>
   complete_elements s = Some es \<Longrightarrow> s = concat (map element_bytes layout) \<and> es = layout"
  using complete_elements_bytes by fastforce

interpretation piggy: script_template build_piggy read_piggy piggy_valid piggy_layout
proof
  show "piggy_valid f" if "read_piggy s es = Some f" "build_piggy f = Some s" "complete_elements s = Some es" for s es f
    using that built_elements [of "piggy_layout f" s es] read_sized(1) [OF that(1)]
      piggy_build [of f] piggy_ok [of f] read_piggy_layout [of f f] by simp
qed (simp_all add: piggy_valid_def piggy_build piggy_ok read_piggy_layout)

interpretation allowance: script_template build_allowance read_allowance allowance_valid allowance_layout
proof
  show "allowance_valid f"
    if "read_allowance s es = Some f" "build_allowance f = Some s" "complete_elements s = Some es" for s es f
    using that built_elements [of "allowance_layout f" s es] read_sized(2) [OF that(1)]
      allowance_build [of f] allowance_ok [of f] read_allowance_layout [of f f] by simp
qed (simp_all add: allowance_valid_def allowance_build allowance_ok read_allowance_layout)

interpretation limit: script_template build_limit read_limit limit_valid limit_layout
proof
  show "limit_valid f" if "read_limit s es = Some f" "build_limit f = Some s" "complete_elements s = Some es" for s es f
    using that built_elements [of "limit_layout f" s es] read_sized(3) [OF that(1)]
      limit_build [of f] limit_ok [of f] read_limit_layout [of f f] by simp
qed (simp_all add: limit_valid_def limit_build limit_ok read_limit_layout)

section \<open>Properties\<close>

text \<open>
  (C33) The recognizers that search for their integers. Each returns fields exactly when the builder makes that script from
  them and the integers it searches for are below \<open>2^63\<close>. A script the builder makes with a goal, deadline, cap, start
  or cooldown of \<open>2^63\<close> or more is recognized by none of them: its integer takes nine bytes and the search refuses it.
\<close>

theorem limit_templates_exact:
  "(piggy_bank_script_fields script = Some pf \<longleftrightarrow>
      piggy_sized pf \<and> pig_threshold_sompi pf < 2 ^ 63 \<and> pig_deadline_daa pf < 2 ^ 63 \<and> build_piggy pf = Some script)
   \<and> (global_allowance_script_fields script = Some af \<longleftrightarrow>
      allowance_sized af \<and> gal_max_withdraw_sompi af < 2 ^ 63 \<and> gal_cooldown_daa af < 2 ^ 63 \<and> gal_start_daa af < 2 ^ 63
      \<and> build_allowance af = Some script)
   \<and> (global_spending_limit_script_fields script = Some lf \<longleftrightarrow>
      limit_sized lf \<and> gsl_max_withdraw_sompi lf < 2 ^ 63 \<and> build_limit lf = Some script)"
  unfolding piggy_bank_script_fields_def global_allowance_script_fields_def global_spending_limit_script_fields_def
    piggy.recognize_exact allowance.recognize_exact limit.recognize_exact
  by (auto simp: piggy_valid_def allowance_valid_def limit_valid_def)

end
