(* ===== verification/Merkle.thy ===== *)
theory Merkle
  imports Covenant_Templates
begin

text \<open>
  The Merkle whitelist vault (\<open>contract/merkle/script.rs\<close>): the redeem script and its recognizer, the root of a list of
  leaves and the proof of one leaf. BLAKE2b is the parameter \<open>blake2b_256\<close>; a proof is checked by \<open>merkle_fold\<close>, the
  concatenation order the comments of the script builder give for one layer: direction 1 swaps the pair before the
  concatenation, direction 0 preserves it.

  Indexing that can panic is \<open>None\<close>: \<open>pair[1]\<close> of an incomplete pair, \<open>level[sibling_idx]\<close> and \<open>level[0]\<close>. The
  properties show that none of them happens.
\<close>

section \<open>Definitions\<close>

definition append_owner_refund_branch :: "bytes \<Rightarrow> u64 \<Rightarrow> bytes option list" where
  "append_owner_refund_branch owner_pubkey locktime_daa =
     [Some ([OP_IF] @ push_pubkey owner_pubkey @ [OP_CHECKSIGVERIFY] @ push_int locktime_daa
            @ [OP_CHECKLOCKTIMEVERIFY, OP_1, OP_ELSE])]"

definition append_whitelist_branch :: "bytes \<Rightarrow> bytes \<Rightarrow> u8 \<Rightarrow> bytes option list" where
  "append_whitelist_branch owner_pubkey merkle_root depth =
     [Some (push_pubkey owner_pubkey @ [OP_CHECKSIGVERIFY, OP_BLAKE2B]),
      Some (concat (replicate (unat depth) [OP_SWAP, OP_IF, OP_SWAP, OP_ENDIF, OP_CAT, OP_BLAKE2B])),
      push_data merkle_root,
      Some ([OP_EQUALVERIFY] @ push_int 0 @ [OP_TX_OUTPUT_SPK, OP_EQUALVERIFY, OP_1])]"

definition build_merkle_whitelist_script :: "bytes \<Rightarrow> bytes \<Rightarrow> u8 \<Rightarrow> u64 \<Rightarrow> bytes option" where
  "build_merkle_whitelist_script owner_pubkey merkle_root depth locktime_daa =
     script_of (append_owner_refund_branch owner_pubkey locktime_daa
                @ append_whitelist_branch owner_pubkey merkle_root depth @ [Some [OP_ENDIF]])"

record merkle_whitelist_fields =
  mw_owner_pubkey :: bytes
  mw_merkle_root :: bytes
  mw_depth :: u8
  mw_locktime_daa :: u64

definition build_merkle :: "merkle_whitelist_fields \<Rightarrow> bytes option" where
  "build_merkle f = build_merkle_whitelist_script (mw_owner_pubkey f) (mw_merkle_root f) (mw_depth f) (mw_locktime_daa f)"

definition FIXED_ELEMENTS :: nat where "FIXED_ELEMENTS = 17"
definition LAYER_ELEMENTS :: nat where "LAYER_ELEMENTS = 6"

definition read_merkle :: "bytes \<Rightarrow> element list \<Rightarrow> merkle_whitelist_fields option" where
  "read_merkle script es =
     Option.bind (if FIXED_ELEMENTS \<le> length es then Some (length es - FIXED_ELEMENTS) else None) (\<lambda>rest.
     let layers = rest div LAYER_ELEMENTS in
     Option.bind (array_at 32 es 1) (\<lambda>owner.
     Option.bind (integer_at es 3) (\<lambda>locktime.
     Option.bind (array_at 32 es (10 + layers * LAYER_ELEMENTS)) (\<lambda>root.
     Option.bind (if layers < 256 then Some (word_of_nat layers) else None) (\<lambda>depth.
       Some \<lparr>mw_owner_pubkey = owner, mw_merkle_root = root, mw_depth = depth, mw_locktime_daa = locktime\<rparr>)))))"

definition merkle_whitelist_script_fields :: "bytes \<Rightarrow> merkle_whitelist_fields option" where
  "merkle_whitelist_script_fields = recognize_by read_merkle build_merkle"

text \<open>\<open>usize::next_power_of_two\<close>: the first power of two from \<open>p\<close> on that is at least \<open>n\<close>.\<close>

function power_from :: "nat \<Rightarrow> nat \<Rightarrow> nat" where
  "power_from p n = (if p = 0 \<or> n \<le> p then p else power_from (2 * p) n)"
  by auto
termination by (relation "measure (\<lambda>(p, n). n - p)") auto

declare power_from.simps [simp del]

definition next_power_of_two :: "nat \<Rightarrow> nat" where
  "next_power_of_two n = power_from 1 n"

definition leaf_level :: "(bytes \<Rightarrow> bytes) \<Rightarrow> bytes list \<Rightarrow> bytes list" where
  "leaf_level blake2b_256 leaves =
     (let level = map blake2b_256 leaves; target = next_power_of_two (length level) in
      level @ replicate (target - length level) (replicate 32 0))"

text \<open>The next level, pair by pair.\<close>

fun next_level :: "(bytes \<Rightarrow> bytes) \<Rightarrow> bytes list \<Rightarrow> bytes list option" where
  "next_level blake2b_256 [] = Some []"
| "next_level blake2b_256 [a] = None"
| "next_level blake2b_256 (a # b # level) = map_option (\<lambda>rest. blake2b_256 (a @ b) # rest) (next_level blake2b_256 level)"

lemma length_next_level: "next_level H level = Some l \<Longrightarrow> length level = 2 * length l"
  by (induction H level arbitrary: l rule: next_level.induct) auto

function root_loop :: "(bytes \<Rightarrow> bytes) \<Rightarrow> bytes list \<Rightarrow> bytes option" where
  "root_loop blake2b_256 level =
     (if length level \<le> 1 then get_at level 0
      else case next_level blake2b_256 level of None \<Rightarrow> None | Some level \<Rightarrow> root_loop blake2b_256 level)"
  by auto
termination
proof (relation "measure (\<lambda>(H, level). length level)", goal_cases)
  case (2 H level l)
  then show ?case using length_next_level [of H level l] by auto
qed simp

declare root_loop.simps [simp del]

definition compute_merkle_root :: "(bytes \<Rightarrow> bytes) \<Rightarrow> bytes list \<Rightarrow> bytes option" where
  "compute_merkle_root blake2b_256 leaves =
     (if leaves = [] then Some (replicate 32 0) else root_loop blake2b_256 (leaf_level blake2b_256 leaves))"

function proof_loop :: "(bytes \<Rightarrow> bytes) \<Rightarrow> bytes list \<Rightarrow> nat \<Rightarrow> (bytes \<times> u8) list option" where
  "proof_loop blake2b_256 level idx =
     (if length level \<le> 1 then Some []
      else let sibling_idx = (if even idx then idx + 1 else idx - 1);
               direction = (if even idx then 1 else 0) in
        case get_at level sibling_idx of
          None \<Rightarrow> None
        | Some sibling \<Rightarrow>
            (case next_level blake2b_256 level of
               None \<Rightarrow> None
             | Some level \<Rightarrow> map_option (\<lambda>rest. (sibling, direction) # rest) (proof_loop blake2b_256 level (idx div 2))))"
  by auto
termination
proof (relation "measure (\<lambda>(H, level, idx). length level)", goal_cases)
  case (2 H level idx sib dir s l)
  then show ?case using length_next_level [of H level l] by auto
qed simp

declare proof_loop.simps [simp del]

definition generate_merkle_proof :: "(bytes \<Rightarrow> bytes) \<Rightarrow> bytes list \<Rightarrow> nat \<Rightarrow> (bytes \<times> u8) list option" where
  "generate_merkle_proof blake2b_256 leaves leaf_index =
     (if leaves = [] \<or> leaf_index \<ge> length leaves then Some []
      else proof_loop blake2b_256 (leaf_level blake2b_256 leaves) leaf_index)"

section \<open>Checking a proof\<close>

definition layer_input :: "bytes \<Rightarrow> bytes \<times> u8 \<Rightarrow> bytes" where
  "layer_input current step = (if snd step = 1 then current @ fst step else fst step @ current)"

fun merkle_fold :: "(bytes \<Rightarrow> bytes) \<Rightarrow> bytes \<Rightarrow> (bytes \<times> u8) list \<Rightarrow> bytes" where
  "merkle_fold H current [] = current"
| "merkle_fold H current (step # steps) = merkle_fold H (H (layer_input current step)) steps"

text \<open>The strings a check hashes, and the strings the tree was built from.\<close>

fun fold_inputs :: "(bytes \<Rightarrow> bytes) \<Rightarrow> bytes \<Rightarrow> (bytes \<times> u8) list \<Rightarrow> bytes list" where
  "fold_inputs H current [] = []"
| "fold_inputs H current (step # steps) = layer_input current step # fold_inputs H (H (layer_input current step)) steps"

fun level_inputs :: "bytes list \<Rightarrow> bytes list" where
  "level_inputs (a # b # level) = (a @ b) # level_inputs level"
| "level_inputs level = []"

fun tree_inputs :: "nat \<Rightarrow> (bytes \<Rightarrow> bytes) \<Rightarrow> bytes list \<Rightarrow> bytes list" where
  "tree_inputs 0 H level = []"
| "tree_inputs (Suc k) H level =
     level_inputs level @ (case next_level H level of None \<Rightarrow> [] | Some l \<Rightarrow> tree_inputs k H l)"

lemma next_level_Some:
  "length level = 2 * n \<Longrightarrow>
   \<exists>l. next_level H level = Some l \<and> length l = n \<and> l = map H (level_inputs level)
       \<and> (\<forall>i<n. l ! i = H (level ! (2 * i) @ level ! (2 * i + 1)))"
proof (induction n arbitrary: level)
  case 0
  then show ?case by simp
next
  case (Suc n)
  then obtain a b rest where level: "level = a # b # rest" "length rest = 2 * n"
    by (metis (no_types, opaque_lifting) Suc_length_conv mult_Suc_right numeral_2_eq_2 add_Suc add_0)
  from Suc.IH [OF this(2)] obtain l where l: "next_level H rest = Some l" "length l = n" "l = map H (level_inputs rest)"
    "\<forall>i<n. l ! i = H (rest ! (2 * i) @ rest ! (2 * i + 1))" by blast
  have "\<forall>i<Suc n. (H (a @ b) # l) ! i = H (level ! (2 * i) @ level ! (2 * i + 1))"
    using l(4) by (auto simp: level(1) less_Suc_eq_0_disj)
  with l level show ?case by auto
qed

lemma power_from_power: "p = 2 ^ j \<Longrightarrow> \<exists>k. power_from p n = 2 ^ k \<and> n \<le> 2 ^ k"
proof (induction p n arbitrary: j rule: power_from.induct)
  case (1 p n)
  show ?case
  proof (cases "n \<le> p")
    case True
    with 1(2) show ?thesis by (subst power_from.simps) auto
  next
    case False
    with 1 have "\<exists>k. power_from (2 * p) n = 2 ^ k \<and> n \<le> 2 ^ k" by (metis power_Suc power_not_zero zero_neq_numeral)
    with False show ?thesis using 1(2) by (subst power_from.simps) auto
  qed
qed

lemma leaf_level_length: "\<exists>k. length (leaf_level H leaves) = 2 ^ k \<and> next_power_of_two (length leaves) = 2 ^ k"
  using power_from_power [of 1 0 "length leaves"] by (auto simp: leaf_level_def next_power_of_two_def)

lemma loops_step:
  assumes "length level = 2 ^ Suc k" "idx < 2 ^ Suc k"
  obtains l where "next_level H level = Some l" "length l = 2 ^ k" "l = map H (level_inputs level)"
    and "l ! (idx div 2) = H (layer_input (level ! idx) (level ! (if even idx then idx + 1 else idx - 1), if even idx then 1 else 0))"
    and "root_loop H level = root_loop H l"
    and "proof_loop H level idx =
      map_option (\<lambda>rest. (level ! (if even idx then idx + 1 else idx - 1), if even idx then 1 else 0) # rest)
        (proof_loop H l (idx div 2))"
proof -
  from next_level_Some [of level "2 ^ k" H] assms(1) obtain l where
    l: "next_level H level = Some l" "length l = 2 ^ k" "l = map H (level_inputs level)"
    and nth: "\<forall>i<2 ^ k. l ! i = H (level ! (2 * i) @ level ! (2 * i + 1))" by auto
  have "0 < (2 :: nat) ^ k" by simp
  then have big: "\<not> length level \<le> 1" using assms(1) unfolding power_Suc by linarith
  have d: "idx div 2 < 2 ^ k" using assms(2) by auto
  have sib: "get_at level (if even idx then idx + 1 else idx - 1) = Some (level ! (if even idx then idx + 1 else idx - 1))"
    using assms by (auto simp: get_at_def elim!: evenE)
  have parent: "l ! (idx div 2) =
      H (layer_input (level ! idx) (level ! (if even idx then idx + 1 else idx - 1), if even idx then 1 else 0))"
  proof (cases "even idx")
    case True
    then show ?thesis using nth d by (auto simp: layer_input_def elim!: evenE)
  next
    case False
    then show ?thesis using nth d by (auto simp: layer_input_def elim!: oddE)
  qed
  have "root_loop H level = root_loop H l" using big l(1) by (subst root_loop.simps) simp
  moreover have "proof_loop H level idx =
      map_option (\<lambda>rest. (level ! (if even idx then idx + 1 else idx - 1), if even idx then 1 else 0) # rest)
        (proof_loop H l (idx div 2))"
    using big l(1) sib by (subst proof_loop.simps) (simp add: Let_def)
  ultimately show ?thesis using that l parent by blast
qed

lemma loops_end: "length level = 1 \<Longrightarrow> root_loop H level = Some (level ! 0) \<and> proof_loop H level idx = Some []"
  by (subst root_loop.simps, subst proof_loop.simps) (simp add: get_at_def)

lemma loops_complete:
  "length level = 2 ^ k \<Longrightarrow> idx < 2 ^ k \<Longrightarrow>
   \<exists>steps. proof_loop H level idx = Some steps \<and> length steps = k
       \<and> root_loop H level = Some (merkle_fold H (level ! idx) steps)"
proof (induction k arbitrary: level idx)
  case 0
  then show ?case using loops_end [of level H idx] by simp
next
  case (Suc k)
  from loops_step [OF Suc.prems, of H] obtain l where
    l: "next_level H level = Some l" "length l = 2 ^ k"
      "l ! (idx div 2) = H (layer_input (level ! idx) (level ! (if even idx then idx + 1 else idx - 1), if even idx then 1 else 0))"
      "root_loop H level = root_loop H l"
      "proof_loop H level idx =
        map_option (\<lambda>rest. (level ! (if even idx then idx + 1 else idx - 1), if even idx then 1 else 0) # rest)
          (proof_loop H l (idx div 2))" by metis
  have "idx div 2 < 2 ^ k" using Suc.prems(2) by auto
  from Suc.IH [OF l(2) this] obtain steps where
    "proof_loop H l (idx div 2) = Some steps" "length steps = k"
    "root_loop H l = Some (merkle_fold H (l ! (idx div 2)) steps)" by blast
  then show ?case unfolding l(4,5) l(3) by simp
qed

lemma level_inputs_split:
  "x \<in> set (level_inputs level) \<Longrightarrow> x = c @ d \<Longrightarrow> length c = 32 \<Longrightarrow> \<forall>y\<in>set level. length y = 32 \<Longrightarrow>
   c \<in> set level \<and> d \<in> set level"
  by (induction level rule: level_inputs.induct) auto

lemma loops_sound:
  "length level = 2 ^ k \<Longrightarrow> \<forall>y\<in>set level. length y = 32 \<Longrightarrow> length current = 32 \<Longrightarrow>
   length steps = k \<Longrightarrow> \<forall>s\<in>set steps. length (fst s) = 32 \<Longrightarrow> \<forall>x. length (H x) = 32 \<Longrightarrow>
   root_loop H level = Some (merkle_fold H current steps) \<Longrightarrow>
   \<forall>x\<in>set (fold_inputs H current steps). \<forall>y\<in>set (tree_inputs k H level). H x = H y \<longrightarrow> x = y \<Longrightarrow>
   current \<in> set level"
proof (induction k arbitrary: level current steps)
  case 0
  then show ?case using loops_end [of level H 0] by (cases level) auto
next
  case (Suc k)
  from loops_step [of level k 0 H] Suc.prems(1) obtain l where
    l: "next_level H level = Some l" "length l = 2 ^ k" "l = map H (level_inputs level)"
      "root_loop H level = root_loop H l" by (metis zero_less_numeral zero_less_power)
  from Suc.prems(4) obtain step rest where steps: "steps = step # rest" "length rest = k" by (cases steps) auto
  let ?x = "layer_input current step"
  have tree: "tree_inputs (Suc k) H level = level_inputs level @ tree_inputs k H l" using l(1) by simp
  have "H ?x \<in> set l"
  proof (rule Suc.IH [OF l(2) _ _ steps(2)])
    show "\<forall>y\<in>set l. length y = 32" "length (H ?x) = 32" "\<forall>s\<in>set rest. length (fst s) = 32" "\<forall>x. length (H x) = 32"
      using Suc.prems(5,6) l(3) steps(1) by auto
    show "root_loop H l = Some (merkle_fold H (H ?x) rest)" using Suc.prems(7) l(4) steps(1) by simp
    show "\<forall>x\<in>set (fold_inputs H (H ?x) rest). \<forall>y\<in>set (tree_inputs k H l). H x = H y \<longrightarrow> x = y"
      using Suc.prems(8) unfolding tree steps(1) by simp
  qed
  then obtain y where y: "y \<in> set (level_inputs level)" "H ?x = H y" unfolding l(3) by auto
  have "?x \<in> set (fold_inputs H current steps)" "y \<in> set (tree_inputs (Suc k) H level)"
    using y(1) unfolding tree steps(1) by simp_all
  with Suc.prems(8) y(2) have "?x = y" by blast
  with y have x: "?x \<in> set (level_inputs level)" by simp
  have sib: "length (fst step) = 32" using Suc.prems(5) steps by simp
  show ?case
  proof (cases "snd step = 1")
    case True
    then have "?x = current @ fst step" by (simp add: layer_input_def)
    from level_inputs_split [OF x this Suc.prems(3,2)] show ?thesis ..
  next
    case False
    then have "?x = fst step @ current" by (simp add: layer_input_def)
    from level_inputs_split [OF x this sib Suc.prems(2)] show ?thesis ..
  qed
qed

section \<open>The script\<close>

definition merkle_valid :: "merkle_whitelist_fields \<Rightarrow> bool" where
  "merkle_valid f \<longleftrightarrow> length (mw_owner_pubkey f) = 32 \<and> length (mw_merkle_root f) = 32"

definition layer_layout :: "element list" where
  "layer_layout =
     [op_element OP_SWAP, op_element OP_IF, op_element OP_SWAP, op_element OP_ENDIF, op_element OP_CAT, op_element OP_BLAKE2B]"

definition merkle_layout :: "merkle_whitelist_fields \<Rightarrow> element list" where
  "merkle_layout f =
     [op_element OP_IF, key_element (mw_owner_pubkey f), op_element OP_CHECKSIGVERIFY, int_element (mw_locktime_daa f),
      op_element OP_CHECKLOCKTIMEVERIFY, op_element OP_1, op_element OP_ELSE,
      key_element (mw_owner_pubkey f), op_element OP_CHECKSIGVERIFY, op_element OP_BLAKE2B]
     @ concat (replicate (unat (mw_depth f)) layer_layout)
     @ [data_element (mw_merkle_root f), op_element OP_EQUALVERIFY, int_element 0, op_element OP_TX_OUTPUT_SPK,
        op_element OP_EQUALVERIFY, op_element OP_1, op_element OP_ENDIF]"

lemma layers:
  "concat (map element_bytes (concat (replicate n layer_layout))) =
     concat (replicate n [OP_SWAP, OP_IF, OP_SWAP, OP_ENDIF, OP_CAT, OP_BLAKE2B])"
  "list_all element_ok (concat (replicate n layer_layout))" "length (concat (replicate n layer_layout)) = n * 6"
  by (induction n) (simp_all add: layer_layout_def script_simps)

lemma merkle_build: "merkle_valid f \<Longrightarrow> build_merkle f = Some (concat (map element_bytes (merkle_layout f)))"
  using layers(1) [of "unat (mw_depth f)"]
  by (simp add: build_merkle_def build_merkle_whitelist_script_def append_owner_refund_branch_def
      append_whitelist_branch_def merkle_layout_def merkle_valid_def script_simps)

lemma merkle_ok: "merkle_valid f \<Longrightarrow> list_all element_ok (merkle_layout f)"
  by (simp add: merkle_layout_def merkle_valid_def script_simps layers(2))

lemma get_at_append_length: "length xs = n \<Longrightarrow> get_at (xs @ y # ys) n = Some y"
  by (auto simp: get_at_def)

lemma read_merkle_layout: "merkle_valid f \<Longrightarrow> read_merkle s (merkle_layout f) = Some f"
proof -
  assume v: "merkle_valid f"
  let ?n = "unat (mw_depth f)"
  obtain p tail where l: "merkle_layout f = p @ data_element (mw_merkle_root f) # tail" "length p = 10 + ?n * 6" "length tail = 6"
    and p: "get_at (merkle_layout f) 1 = Some (key_element (mw_owner_pubkey f))"
      "get_at (merkle_layout f) 3 = Some (int_element (mw_locktime_daa f))"
  proof (rule that)
    let ?p = "[op_element OP_IF, key_element (mw_owner_pubkey f), op_element OP_CHECKSIGVERIFY,
      int_element (mw_locktime_daa f), op_element OP_CHECKLOCKTIMEVERIFY, op_element OP_1, op_element OP_ELSE,
      key_element (mw_owner_pubkey f), op_element OP_CHECKSIGVERIFY, op_element OP_BLAKE2B]
     @ concat (replicate ?n layer_layout)"
    let ?t = "[op_element OP_EQUALVERIFY, int_element 0, op_element OP_TX_OUTPUT_SPK,
        op_element OP_EQUALVERIFY, op_element OP_1, op_element OP_ENDIF]"
    show "merkle_layout f = ?p @ data_element (mw_merkle_root f) # ?t" by (simp add: merkle_layout_def)
    show "length ?p = 10 + ?n * 6" "length ?t = 6" by (simp_all add: layers(3))
  qed (simp_all add: merkle_layout_def)
  have "length (merkle_layout f) = 17 + ?n * 6" using l by simp
  moreover have "get_at (merkle_layout f) (10 + ?n * 6) = Some (data_element (mw_merkle_root f))"
    unfolding l(1) by (rule get_at_append_length) (rule l(2))
  ultimately show ?thesis
    using v p unat_u8_less [of "mw_depth f"]
    by (simp add: read_merkle_def FIXED_ELEMENTS_def LAYER_ELEMENTS_def Let_def array_at_def integer_at_def
        script_simps merkle_valid_def)
qed

interpretation merkle: script_template build_merkle read_merkle merkle_valid merkle_layout
proof
  show "merkle_valid f" if "read_merkle s es = Some f" for s es f
    using that by (auto simp: read_merkle_def Let_def merkle_valid_def array_at_Some split: Option.bind_splits if_splits)
qed (simp_all add: merkle_build merkle_ok read_merkle_layout)

section \<open>Properties\<close>

lemma leaf_level_nth: "i < length leaves \<Longrightarrow> leaf_level H leaves ! i = H (leaves ! i)"
  by (simp add: leaf_level_def Let_def nth_append)

lemma leaf_level_size: "leaves \<noteq> [] \<Longrightarrow> length leaves \<le> length (leaf_level H leaves)"
  by (simp add: leaf_level_def Let_def)

text \<open>
  The recognizer of the whitelist vault is exact: it returns fields exactly when the builder makes that script from them,
  at every depth that fits its byte.
\<close>

theorem merkle_template_exact:
  "merkle_whitelist_script_fields script = Some f \<longleftrightarrow> merkle_valid f \<and> build_merkle f = Some script"
  unfolding merkle_whitelist_script_fields_def by (rule merkle.recognize_exact)

text \<open>
  Every whitelisted leaf has a proof that checks. For every index of a leaf the generator and the root computation return,
  the proof has one step per layer (the depth of the tree over the leaves padded to a power of two), and folding it over
  the hash of the leaf gives the root.
\<close>

theorem merkle_proof_checks:
  assumes "i < length leaves"
  shows "\<exists>steps root. generate_merkle_proof blake2b_256 leaves i = Some steps
    \<and> compute_merkle_root blake2b_256 leaves = Some root
    \<and> 2 ^ length steps = next_power_of_two (length leaves)
    \<and> merkle_fold blake2b_256 (blake2b_256 (leaves ! i)) steps = root"
proof -
  have ne: "leaves \<noteq> []" using assms by auto
  obtain k where k: "length (leaf_level blake2b_256 leaves) = 2 ^ k" "next_power_of_two (length leaves) = 2 ^ k"
    using leaf_level_length by blast
  have "i < 2 ^ k" using assms leaf_level_size [OF ne, of blake2b_256] k(1) by simp
  from loops_complete [OF k(1) this, of blake2b_256] show ?thesis
    using assms ne k(2) leaf_level_nth [OF assms, of blake2b_256]
    by (auto simp: generate_merkle_proof_def compute_merkle_root_def)
qed

definition sample_hash :: "bytes \<Rightarrow> bytes" where
  "sample_hash bs = take 32 (word_of_nat (length bs) # bs @ replicate 32 0)"

theorem merkle_proof_checks_witness:
  "\<exists>steps root. generate_merkle_proof sample_hash [[1], [2], [3]] 2 = Some steps
    \<and> compute_merkle_root sample_hash [[1], [2], [3]] = Some root
    \<and> 2 ^ length steps = next_power_of_two (length [[1], [2], [3 :: u8]])
    \<and> merkle_fold sample_hash (sample_hash [3]) steps = root"
  using merkle_proof_checks [of 2 "[[1], [2], [3 :: u8]]" sample_hash] by simp

text \<open>
  (C10) Only whitelisted leaves have one. If the fold of some steps over the hash of a string gives the root, with as many steps
  as the tree has layers, then the string is one of the leaves, or it hashes to the padding (32 zero bytes), as long as no
  string hashed by the check collides with a different string the tree was built from.
\<close>

theorem merkle_proof_sound:
  assumes "\<forall>y. length (blake2b_256 y) = 32" and "leaves \<noteq> []"
    and "2 ^ length steps = next_power_of_two (length leaves)" and "\<forall>step\<in>set steps. length (fst step) = 32"
    and "compute_merkle_root blake2b_256 leaves = Some (merkle_fold blake2b_256 (blake2b_256 x) steps)"
    and "\<forall>a\<in>set (x # fold_inputs blake2b_256 (blake2b_256 x) steps).
         \<forall>b\<in>set (leaves @ tree_inputs (length steps) blake2b_256 (leaf_level blake2b_256 leaves)).
           blake2b_256 a = blake2b_256 b \<longrightarrow> a = b"
  shows "x \<in> set leaves \<or> blake2b_256 x = replicate 32 0"
proof -
  let ?level = "leaf_level blake2b_256 leaves"
  obtain k where "length ?level = 2 ^ k" "next_power_of_two (length leaves) = 2 ^ k"
    using leaf_level_length by blast
  then have k: "length ?level = 2 ^ length steps" using assms(3) by simp
  have set: "set ?level \<subseteq> blake2b_256 ` set leaves \<union> {replicate 32 0}" by (auto simp: leaf_level_def Let_def)
  have "blake2b_256 x \<in> set ?level"
  proof (rule loops_sound [OF k _ _ refl assms(4,1)])
    show "\<forall>y\<in>set ?level. length y = 32" using set assms(1) by auto
    show "root_loop blake2b_256 ?level = Some (merkle_fold blake2b_256 (blake2b_256 x) steps)"
      using assms(2,5) by (simp add: compute_merkle_root_def)
  qed (use assms(1,6) in auto)
  with set assms(6) show ?thesis by auto
qed

theorem merkle_proof_sound_witness:
  "[1] \<in> set [[1], [2 :: u8]] \<or> sample_hash [1] = replicate 32 0"
proof (rule merkle_proof_sound [of sample_hash "[[1], [2]]" "[(sample_hash [2], 1)]" "[1]"])
  show "\<forall>y. length (sample_hash y) = 32" by (auto simp: sample_hash_def min_def)
  show "2 ^ length [(sample_hash [2], 1 :: u8)] = next_power_of_two (length [[1], [2 :: u8]])" by code_simp
  show "compute_merkle_root sample_hash [[1], [2]] =
      Some (merkle_fold sample_hash (sample_hash [1]) [(sample_hash [2], 1)])" by code_simp
  show "\<forall>a\<in>set ([1] # fold_inputs sample_hash (sample_hash [1]) [(sample_hash [2], 1)]).
      \<forall>b\<in>set ([[1], [2]] @ tree_inputs (length [(sample_hash [2], 1 :: u8)]) sample_hash (leaf_level sample_hash [[1], [2]])).
        sample_hash a = sample_hash b \<longrightarrow> a = b" by code_simp
qed (simp_all add: sample_hash_def)

end
