(* ===== verification/Shipping_Escrow.thy ===== *)
theory Shipping_Escrow
  imports Covenant_Templates
begin

text \<open>
  The shipment escrow (\<open>contract/shipping_escrow/*.rs\<close>): the tranches of a payment, the two-state redeem script (funded,
  then in transit) and the terms read back from it. The script tells its states apart by the amount it locks: the total
  in state zero, the remainder after pickup in state one.
\<close>

section \<open>Definitions\<close>

datatype shipping_error = TotalOutOfRange | TrancheUnderflow

record shipping_tranches =
  tr_total :: u64
  tr_first :: u64
  tr_second :: u64
  tr_remainder :: u64

definition tranches_new :: "u64 \<Rightarrow> u64 \<Rightarrow> shipping_error + shipping_tranches" where
  "tranches_new product_sompi fee_sompi =
     rbind (ok_or (checked_add product_sompi fee_sompi) TotalOutOfRange) (\<lambda>total.
     let first_tranche = product_sompi div 2 in
     rbind (ok_or (checked_sub product_sompi first_tranche) TrancheUnderflow) (\<lambda>second.
     rbind (ok_or (checked_sub total first_tranche) TrancheUnderflow) (\<lambda>remainder.
       Ok \<lparr>tr_total = total, tr_first = first_tranche, tr_second = second, tr_remainder = remainder\<rparr>)))"

record shipping_terms =
  st_seller_pubkey :: bytes
  st_deliverer_pubkey :: bytes
  st_buyer_pubkey :: bytes
  st_arbiter_pubkey :: bytes
  st_product_sompi :: u64
  st_fee_sompi :: u64
  st_cltv1_deadline :: u64
  st_cltv2_deadline :: u64
  st_salt :: bytes

definition p2pk_script_public_key :: "bytes \<Rightarrow> bytes" where
  "p2pk_script_public_key pubkey = [0x00, 0x00] @ [0x20] @ pubkey @ [OP_CHECKSIG]"

record state_one_config =
  s1_remainder :: u64
  s1_fee_sompi :: u64
  s1_delivery_deadline :: u64
  s1_seller_spk :: bytes
  s1_deliverer_spk :: bytes
  s1_buyer_spk :: bytes
  s1_buyer_pubkey :: bytes
  s1_arbiter_pubkey :: bytes

definition append_delivery_or_refund :: "state_one_config \<Rightarrow> bytes option list" where
  "append_delivery_or_refund c =
     [Some ([OP_IF, OP_IF] @ push_pubkey (s1_buyer_pubkey c) @ [OP_CHECKSIGVERIFY, OP_ELSE, OP_IF]
            @ push_pubkey (s1_arbiter_pubkey c) @ [OP_CHECKSIGVERIFY, OP_ELSE] @ push_int (s1_delivery_deadline c)
            @ [OP_CHECKLOCKTIMEVERIFY, OP_ENDIF, OP_ENDIF] @ push_int 0 @ [OP_TX_OUTPUT_SPK]),
      push_data (s1_seller_spk c),
      Some ([OP_EQUALVERIFY] @ push_int 1 @ [OP_TX_OUTPUT_SPK]),
      push_data (s1_deliverer_spk c),
      Some ([OP_EQUALVERIFY] @ push_int 1 @ [OP_TX_OUTPUT_AMOUNT] @ push_int (s1_fee_sompi c) @ [OP_EQUALVERIFY]
            @ [OP_TX_OUTPUT_COUNT] @ push_int 2 @ [OP_EQUALVERIFY, 0x51]),
      Some ([OP_ELSE] @ push_pubkey (s1_arbiter_pubkey c) @ [OP_CHECKSIGVERIFY] @ push_int 0 @ [OP_TX_OUTPUT_SPK]),
      push_data (s1_buyer_spk c),
      Some ([OP_EQUALVERIFY] @ [OP_TX_OUTPUT_COUNT] @ push_int 1 @ [OP_EQUALVERIFY, 0x51, OP_ENDIF])]"

definition state_one_dispatch :: "state_one_config \<Rightarrow> bytes option list" where
  "state_one_dispatch c =
     [Some ([OP_DUP] @ push_int (s1_remainder c) @ [OP_EQUAL, OP_IF, OP_DROP])]
     @ append_delivery_or_refund c @ [Some [OP_ELSE, OP_DROP, OP_0, OP_ENDIF]]"

record state_zero_config =
  s0_total :: u64
  s0_remainder :: u64
  s0_fee_sompi :: u64
  s0_pickup_deadline :: u64
  s0_delivery_deadline :: u64
  s0_seller_spk :: bytes
  s0_deliverer_spk :: bytes
  s0_buyer_spk :: bytes
  s0_deliverer_pubkey :: bytes
  s0_buyer_pubkey :: bytes
  s0_arbiter_pubkey :: bytes

definition append_pickup_or_refund :: "state_zero_config \<Rightarrow> bytes option list" where
  "append_pickup_or_refund c =
     [Some ([OP_IF] @ push_pubkey (s0_deliverer_pubkey c) @ [OP_CHECKSIGVERIFY] @ push_int 0
            @ [OP_TX_OUTPUT_SPK, OP_TX_INPUT_INDEX, OP_TX_INPUT_SPK, OP_EQUALVERIFY] @ push_int 0
            @ [OP_TX_OUTPUT_AMOUNT] @ push_int (s0_remainder c) @ [OP_EQUALVERIFY] @ push_int 1 @ [OP_TX_OUTPUT_SPK]),
      push_data (s0_seller_spk c),
      Some ([OP_EQUALVERIFY] @ [OP_TX_OUTPUT_COUNT] @ push_int 2 @ [OP_EQUALVERIFY, 0x51]),
      Some ([OP_ELSE, OP_IF] @ push_pubkey (s0_arbiter_pubkey c) @ [OP_CHECKSIGVERIFY, OP_ELSE]
            @ push_int (s0_pickup_deadline c) @ [OP_CHECKLOCKTIMEVERIFY, OP_ENDIF] @ push_int 0 @ [OP_TX_OUTPUT_SPK]),
      push_data (s0_buyer_spk c),
      Some ([OP_EQUALVERIFY] @ [OP_TX_OUTPUT_COUNT] @ push_int 1 @ [OP_EQUALVERIFY, 0x51, OP_ENDIF])]"

definition state_zero_dispatch :: "state_zero_config \<Rightarrow> bytes option list" where
  "state_zero_dispatch c =
     [Some ([OP_DUP] @ push_int (s0_total c) @ [OP_EQUAL, OP_IF, OP_DROP])]
     @ append_pickup_or_refund c
     @ [Some [OP_ELSE]]
     @ state_one_dispatch
         \<lparr>s1_remainder = s0_remainder c, s1_fee_sompi = s0_fee_sompi c, s1_delivery_deadline = s0_delivery_deadline c,
          s1_seller_spk = s0_seller_spk c, s1_deliverer_spk = s0_deliverer_spk c, s1_buyer_spk = s0_buyer_spk c,
          s1_buyer_pubkey = s0_buyer_pubkey c, s1_arbiter_pubkey = s0_arbiter_pubkey c\<rparr>
     @ [Some [OP_ENDIF]]"

text \<open>A request and the terms have the same fields; \<open>None\<close> is a panic of \<open>push_data\<close>.\<close>

definition build_ship_escrow_script :: "shipping_terms \<Rightarrow> (shipping_error + bytes) option" where
  "build_ship_escrow_script r =
     (case tranches_new (st_product_sompi r) (st_fee_sompi r) of
        Inl e \<Rightarrow> Some (Err e)
      | Inr tr \<Rightarrow>
          map_option Ok (script_of
            ([Some ([0x08] @ st_salt r @ [OP_DROP, OP_TX_INPUT_INDEX, OP_TX_INPUT_AMOUNT])]
             @ state_zero_dispatch
                 \<lparr>s0_total = tr_total tr, s0_remainder = tr_remainder tr, s0_fee_sompi = st_fee_sompi r,
                  s0_pickup_deadline = st_cltv1_deadline r, s0_delivery_deadline = st_cltv2_deadline r,
                  s0_seller_spk = p2pk_script_public_key (st_seller_pubkey r),
                  s0_deliverer_spk = p2pk_script_public_key (st_deliverer_pubkey r),
                  s0_buyer_spk = p2pk_script_public_key (st_buyer_pubkey r),
                  s0_deliverer_pubkey = st_deliverer_pubkey r, s0_buyer_pubkey = st_buyer_pubkey r,
                  s0_arbiter_pubkey = st_arbiter_pubkey r\<rparr>)))"

definition build_shipping :: "shipping_terms \<Rightarrow> bytes option" where
  "build_shipping t = Option.bind (build_ship_escrow_script t) (\<lambda>r. case r of Inl _ \<Rightarrow> None | Inr s \<Rightarrow> Some s)"

definition spk_pubkey_at :: "element list \<Rightarrow> nat \<Rightarrow> bytes option" where
  "spk_pubkey_at es i = Option.bind (get_at es i) (\<lambda>e. get_range (el_data e) 3 35)"

definition read_shipping :: "bytes \<Rightarrow> element list \<Rightarrow> shipping_terms option" where
  "read_shipping script es =
     Option.bind (integer_at es 75) (\<lambda>fee.
     Option.bind (spk_pubkey_at es 23) (\<lambda>seller.
     Option.bind (array_at 32 es 10) (\<lambda>deliverer.
     Option.bind (spk_pubkey_at es 39) (\<lambda>buyer.
     Option.bind (array_at 32 es 31) (\<lambda>arbiter.
     Option.bind (Option.bind (integer_at es 5) (\<lambda>total. checked_sub total fee)) (\<lambda>product.
     Option.bind (integer_at es 34) (\<lambda>cltv1.
     Option.bind (integer_at es 61) (\<lambda>cltv2.
     Option.bind (array_at 8 es 0) (\<lambda>salt.
       Some \<lparr>st_seller_pubkey = seller, st_deliverer_pubkey = deliverer, st_buyer_pubkey = buyer,
             st_arbiter_pubkey = arbiter, st_product_sompi = product, st_fee_sompi = fee,
             st_cltv1_deadline = cltv1, st_cltv2_deadline = cltv2, st_salt = salt\<rparr>)))))))))"

definition ship_escrow_terms :: "bytes \<Rightarrow> shipping_terms option" where
  "ship_escrow_terms = recognize_by read_shipping build_shipping"

definition terms_tranches :: "shipping_terms \<Rightarrow> shipping_error + shipping_tranches" where
  "terms_tranches t = tranches_new (st_product_sompi t) (st_fee_sompi t)"

section \<open>Layout\<close>

definition shipping_valid :: "shipping_terms \<Rightarrow> bool" where
  "shipping_valid t \<longleftrightarrow>
     length (st_seller_pubkey t) = 32 \<and> length (st_deliverer_pubkey t) = 32 \<and> length (st_buyer_pubkey t) = 32
     \<and> length (st_arbiter_pubkey t) = 32 \<and> length (st_salt t) = 8
     \<and> unat (st_product_sompi t) + unat (st_fee_sompi t) < 2 ^ 64"

definition spk_element :: "bytes \<Rightarrow> element" where
  "spk_element key = data_element (p2pk_script_public_key key)"

definition shipping_layout :: "shipping_terms \<Rightarrow> element list" where
  "shipping_layout t =
     (let total = st_product_sompi t + st_fee_sompi t; remainder = total - st_product_sompi t div 2;
          op = op_element; int = int_element; spk = spk_element; key = key_element in
      [data_element (st_salt t), op OP_DROP, op OP_TX_INPUT_INDEX, op OP_TX_INPUT_AMOUNT,
       op OP_DUP, int total, op OP_EQUAL, op OP_IF, op OP_DROP,
       op OP_IF, key (st_deliverer_pubkey t), op OP_CHECKSIGVERIFY, int 0, op OP_TX_OUTPUT_SPK, op OP_TX_INPUT_INDEX,
       op OP_TX_INPUT_SPK, op OP_EQUALVERIFY, int 0, op OP_TX_OUTPUT_AMOUNT, int remainder, op OP_EQUALVERIFY, int 1,
       op OP_TX_OUTPUT_SPK, spk (st_seller_pubkey t), op OP_EQUALVERIFY, op OP_TX_OUTPUT_COUNT, int 2,
       op OP_EQUALVERIFY, op OP_1,
       op OP_ELSE, op OP_IF, key (st_arbiter_pubkey t), op OP_CHECKSIGVERIFY, op OP_ELSE, int (st_cltv1_deadline t),
       op OP_CHECKLOCKTIMEVERIFY, op OP_ENDIF, int 0, op OP_TX_OUTPUT_SPK, spk (st_buyer_pubkey t), op OP_EQUALVERIFY,
       op OP_TX_OUTPUT_COUNT, int 1, op OP_EQUALVERIFY, op OP_1, op OP_ENDIF,
       op OP_ELSE, op OP_DUP, int remainder, op OP_EQUAL, op OP_IF, op OP_DROP,
       op OP_IF, op OP_IF, key (st_buyer_pubkey t), op OP_CHECKSIGVERIFY, op OP_ELSE, op OP_IF,
       key (st_arbiter_pubkey t), op OP_CHECKSIGVERIFY, op OP_ELSE, int (st_cltv2_deadline t),
       op OP_CHECKLOCKTIMEVERIFY, op OP_ENDIF, op OP_ENDIF, int 0, op OP_TX_OUTPUT_SPK, spk (st_seller_pubkey t),
       op OP_EQUALVERIFY, int 1, op OP_TX_OUTPUT_SPK, spk (st_deliverer_pubkey t), op OP_EQUALVERIFY, int 1,
       op OP_TX_OUTPUT_AMOUNT, int (st_fee_sompi t), op OP_EQUALVERIFY, op OP_TX_OUTPUT_COUNT, int 2,
       op OP_EQUALVERIFY, op OP_1,
       op OP_ELSE, key (st_arbiter_pubkey t), op OP_CHECKSIGVERIFY, int 0, op OP_TX_OUTPUT_SPK,
       spk (st_buyer_pubkey t), op OP_EQUALVERIFY, op OP_TX_OUTPUT_COUNT, int 1, op OP_EQUALVERIFY, op OP_1, op OP_ENDIF,
       op OP_ELSE, op OP_DROP, op OP_0, op OP_ENDIF, op OP_ENDIF])"

lemma tranches_new_Ok:
  "tranches_new p f = Ok tr \<longleftrightarrow>
     unat p + unat f < 2 ^ 64
     \<and> tr = \<lparr>tr_total = p + f, tr_first = p div 2, tr_second = p - p div 2, tr_remainder = p + f - p div 2\<rparr>"
proof -
  have h: "unat (p div 2) \<le> unat p" by (simp add: unat_div)
  have "unat (p + f) = unat p + unat f" if "unat p + unat f < 2 ^ 64" using that by (simp add: unat_word_ariths)
  with h show ?thesis
    by (auto simp: tranches_new_def rbind_Inr_iff checked_add_def checked_sub_def Let_def word_le_nat_alt)
qed

lemma tranches_new_Err: "tranches_new p f = Err e \<longleftrightarrow> \<not> unat p + unat f < 2 ^ 64 \<and> e = TotalOutOfRange"
proof (cases "unat p + unat f < 2 ^ 64")
  case True
  then have "\<exists>tr. tranches_new p f = Ok tr" using tranches_new_Ok by blast
  with True show ?thesis by auto
next
  case False
  then show ?thesis by (auto simp: tranches_new_def checked_add_def)
qed

lemma spk_element_simps [simp]:
  "length key = 32 \<Longrightarrow> push_data (p2pk_script_public_key key) = Some (element_bytes (spk_element key))"
  "length key = 32 \<Longrightarrow> element_ok (spk_element key)"
  "length key = 32 \<Longrightarrow> get_range (el_data (spk_element key)) 3 35 = Some key"
  by (simp_all add: spk_element_def data_element_bytes data_element_ok p2pk_script_public_key_def element_data get_range_def)

lemma spk_pubkey_at_Some: "spk_pubkey_at es i = Some b \<Longrightarrow> length b = 32"
  by (auto simp: spk_pubkey_at_def get_range_def split: Option.bind_splits if_splits)

lemmas ship_dispatch_defs =
  state_zero_dispatch_def append_pickup_or_refund_def state_one_dispatch_def append_delivery_or_refund_def

lemma shipping_ok: "shipping_valid t \<Longrightarrow> list_all element_ok (shipping_layout t)"
  by (simp add: shipping_valid_def shipping_layout_def Let_def script_simps)

lemma shipping_build: "shipping_valid t \<Longrightarrow> build_shipping t = Some (concat (map element_bytes (shipping_layout t)))"
proof -
  assume v: "shipping_valid t"
  then have "tranches_new (st_product_sompi t) (st_fee_sompi t) =
      Ok \<lparr>tr_total = st_product_sompi t + st_fee_sompi t, tr_first = st_product_sompi t div 2,
          tr_second = st_product_sompi t - st_product_sompi t div 2,
          tr_remainder = st_product_sompi t + st_fee_sompi t - st_product_sompi t div 2\<rparr>"
    by (simp add: tranches_new_Ok shipping_valid_def)
  with v show ?thesis
    by (simp add: build_shipping_def build_ship_escrow_script_def shipping_valid_def shipping_layout_def Let_def
        ship_dispatch_defs script_simps short_data_bytes OP_1_literal)
qed

lemma read_shipping_layout: "shipping_valid t \<Longrightarrow> read_shipping s (shipping_layout t) = Some t"
  by (simp add: read_shipping_def shipping_layout_def shipping_valid_def Let_def accessor_simps spk_pubkey_at_def
      checked_sub_def word_le_nat_alt unat_word_ariths)

lemma shipping_built_valid: "read_shipping s es = Some t \<Longrightarrow> build_shipping t = Some s \<Longrightarrow> shipping_valid t"
  by (auto simp: read_shipping_def shipping_valid_def build_shipping_def build_ship_escrow_script_def tranches_new_Ok
      array_at_Some spk_pubkey_at_Some split: Option.bind_splits sum.splits)

interpretation shipping: script_template build_shipping read_shipping shipping_valid shipping_layout
  by unfold_locales (rule shipping_build shipping_ok read_shipping_layout, assumption | erule shipping_built_valid, assumption)+

section \<open>Properties\<close>

text \<open>
  (C34) Shipment escrow terms are exact. The terms are read from a script exactly when the builder makes that script from them
  with arrays of their sizes and a total that fits 64 bits; otherwise the builder refuses the total. The tranches of the
  terms add up: the first and second tranche make the product, and the first tranche and the remainder that stays locked
  after pickup make the total, so what state one releases is the second tranche and the fee.
\<close>

theorem shipping_terms_exact:
  "(ship_escrow_terms script = Some t \<longleftrightarrow> shipping_valid t \<and> build_ship_escrow_script t = Some (Ok script))
   \<and> (terms_tranches t = Err TotalOutOfRange \<longleftrightarrow> unat (st_product_sompi t) + unat (st_fee_sompi t) \<ge> 2 ^ 64)
   \<and> (terms_tranches t = Ok tr \<longleftrightarrow>
        unat (tr_total tr) = unat (st_product_sompi t) + unat (st_fee_sompi t)
        \<and> unat (tr_first tr) = unat (st_product_sompi t) div 2
        \<and> unat (tr_first tr) + unat (tr_second tr) = unat (st_product_sompi t)
        \<and> unat (tr_first tr) + unat (tr_remainder tr) = unat (tr_total tr)
        \<and> unat (tr_second tr) + unat (st_fee_sompi t) = unat (tr_remainder tr))"
proof -
  have "build_shipping t = Some script \<longleftrightarrow> build_ship_escrow_script t = Some (Ok script)"
    by (auto simp: build_shipping_def split: Option.bind_splits sum.splits)
  then have exact: "ship_escrow_terms script = Some t \<longleftrightarrow>
      shipping_valid t \<and> build_ship_escrow_script t = Some (Ok script)"
    by (simp add: ship_escrow_terms_def shipping.recognize_exact)
  let ?p = "st_product_sompi t" and ?f = "st_fee_sompi t"
  have half: "unat (?p div 2) = unat ?p div 2" by (simp add: unat_div)
  have sums: "unat (?p + ?f) = unat ?p + unat ?f \<and> unat (?p - ?p div 2) = unat ?p - unat ?p div 2
      \<and> unat (?p + ?f - ?p div 2) = unat ?p + unat ?f - unat ?p div 2" if "unat ?p + unat ?f < 2 ^ 64"
    using that half by (simp add: unat_word_ariths unat_sub word_le_nat_alt)
  have "unat (tr_total tr) < 2 ^ 64" using unat_bound [of "tr_total tr"] by simp
  then have "terms_tranches t = Ok tr \<longleftrightarrow>
        unat (tr_total tr) = unat ?p + unat ?f \<and> unat (tr_first tr) = unat ?p div 2
        \<and> unat (tr_first tr) + unat (tr_second tr) = unat ?p
        \<and> unat (tr_first tr) + unat (tr_remainder tr) = unat (tr_total tr)
        \<and> unat (tr_second tr) + unat ?f = unat (tr_remainder tr)"
    using sums half unfolding terms_tranches_def tranches_new_Ok
    by (cases tr) (auto simp: word_unat_eq_iff)
  with exact show ?thesis by (simp add: terms_tranches_def tranches_new_Err not_less)
qed

end
