(* ===== verification/Kssn.thy ===== *)
theory Kssn
  imports Wire_Fields Kspt_Validate
begin

text \<open>
  Signature responses (\<open>transaction/interchange/kspt/kssn.rs\<close>): what a signer sends back instead of the whole transaction,
  one signature per input index. The allocator is the parameter \<open>reserve\<close>.
\<close>

section \<open>Definitions\<close>

definition KSSN_MAGIC :: bytes where "KSSN_MAGIC = map of_char ''KSSN''"
definition KSSN_VERSION_CURRENT :: u8 where "KSSN_VERSION_CURRENT = 0x01"

record input_signature =
  isg_input_index :: u32
  isg_sighash_type :: sighash_type
  isg_signature :: bytes

record signed_response =
  sr_signatures :: "input_signature list"

definition response_new :: signed_response where
  "response_new = \<lparr>sr_signatures = []\<rparr>"

definition read_response_count :: "reader \<Rightarrow> pskt_error + (nat \<times> reader)" where
  "read_response_count r =
     rbind (map_err pskt_of_wire (rd_bytes 4 r)) (\<lambda>(magic, r).
     if magic \<noteq> KSSN_MAGIC then Err PeInvalidMagic
     else rbind (map_err pskt_of_wire (rd_u8 r)) (\<lambda>(version, r).
       if version \<noteq> KSSN_VERSION_CURRENT then Err PeUnsupportedVersion
       else rbind (map_err pskt_of_wire (rd_u32 r)) (\<lambda>(count, r). Ok (unat count, r))))"

definition read_input_signature :: "reader \<Rightarrow> pskt_error + (input_signature \<times> reader)" where
  "read_input_signature r =
     rbind (map_err pskt_of_wire (rd_u32 r)) (\<lambda>(input_index, r).
     rbind (map_err pskt_of_wire (rd_u8 r)) (\<lambda>(byte, r).
     rbind (ok_or (sighash_from_byte byte) PeInvalidSigHashType) (\<lambda>t.
     rbind (map_err pskt_of_wire (rd_bytes 64 r)) (\<lambda>(sig, r).
       Ok (\<lparr>isg_input_index = input_index, isg_sighash_type = t, isg_signature = sig\<rparr>, r)))))"

definition add_signature ::
  "(nat \<Rightarrow> bool) \<Rightarrow> u32 \<Rightarrow> sighash_type \<Rightarrow> bytes \<Rightarrow> signed_response \<Rightarrow> pskt_error + signed_response" where
  "add_signature reserve input_index t sig response =
     (if list_ex (\<lambda>existing. isg_input_index existing = input_index) (sr_signatures response)
      then Err PeInvalidSignatureState
      else if \<not> reserve 1 then Err PeTooManySignatures
      else Ok (response\<lparr>sr_signatures := sr_signatures response
                 @ [\<lparr>isg_input_index = input_index, isg_sighash_type = t, isg_signature = sig\<rparr>]\<rparr>))"

definition write_input_signature :: "input_signature \<Rightarrow> writer \<Rightarrow> wire_error + writer" where
  "write_input_signature s w =
     rbind (wr_u32 (isg_input_index s) w) (\<lambda>w.
     rbind (wr_u8 (sighash_to_byte (isg_sighash_type s)) w) (\<lambda>w.
     wr_bytes (isg_signature s) w))"

definition response_serialize :: "signed_response \<Rightarrow> bytes \<Rightarrow> pskt_error + (nat \<times> bytes)" where
  "response_serialize response output =
     (if length (sr_signatures response) \<ge> 2 ^ 32 then Err PeTooManySignatures
      else map_err pskt_of_wire (
        rbind (wr_bytes KSSN_MAGIC (writer_new output)) (\<lambda>w.
        rbind (wr_u8 KSSN_VERSION_CURRENT w) (\<lambda>w.
        rbind (wr_u32 (word_of_nat (length (sr_signatures response))) w) (\<lambda>w.
        rbind (try_fold (\<lambda>w s. write_input_signature s w) w (sr_signatures response)) (\<lambda>w.
          Ok (wr_pos w, wr_output w)))))))"

fun read_response_signatures :: "(nat \<Rightarrow> bool) \<Rightarrow> nat \<Rightarrow> signed_response \<Rightarrow> reader \<Rightarrow> pskt_error + (signed_response \<times> reader)" where
  "read_response_signatures reserve 0 response r = Ok (response, r)"
| "read_response_signatures reserve (Suc n) response r =
     rbind (read_input_signature r) (\<lambda>(inp, r).
     rbind (add_signature reserve (isg_input_index inp) (isg_sighash_type inp) (isg_signature inp) response) (\<lambda>response.
     read_response_signatures reserve n response r))"

definition response_parse :: "(nat \<Rightarrow> bool) \<Rightarrow> bytes \<Rightarrow> pskt_error + signed_response" where
  "response_parse reserve data =
     rbind (read_response_count (reader_new data)) (\<lambda>(count, r).
     if \<not> reserve count then Err PeTooManySignatures
     else rbind (read_response_signatures reserve count \<lparr>sr_signatures = []\<rparr> r) (\<lambda>(response, r).
       if rd_remaining r \<noteq> 0 then Err PeTrailingData else Ok response))"

section \<open>The encoding\<close>

definition kssn_sig_bytes :: "input_signature \<Rightarrow> bytes" where
  "kssn_sig_bytes s = u32_to_le (isg_input_index s) @ [sighash_to_byte (isg_sighash_type s)] @ isg_signature s"

definition response_bytes :: "signed_response \<Rightarrow> bytes" where
  "response_bytes response = KSSN_MAGIC @ [KSSN_VERSION_CURRENT]
     @ u32_to_le (word_of_nat (length (sr_signatures response))) @ concat (map kssn_sig_bytes (sr_signatures response))"

text \<open>The reader knows six of the seven signature hash types: the bare \<open>AnyOneCanPay\<close> flag has a byte of its own but is
  not read back.\<close>

definition kssn_sig_ok :: "input_signature \<Rightarrow> bool" where
  "kssn_sig_ok s \<longleftrightarrow> length (isg_signature s) = 64 \<and> isg_sighash_type s \<noteq> SigAnyOneCanPay"

definition response_ok :: "signed_response \<Rightarrow> bool" where
  "response_ok response \<longleftrightarrow> list_all kssn_sig_ok (sr_signatures response)
     \<and> distinct (map isg_input_index (sr_signatures response)) \<and> length (sr_signatures response) < 2 ^ 32"

lemma sighash_from_byte_iff: "sighash_from_byte b = Some t \<longleftrightarrow> b = sighash_to_byte t \<and> t \<noteq> SigAnyOneCanPay"
  by (cases t) (auto simp: sighash_from_byte_def)

lemma read_input_signature_iff:
  "read_input_signature (reading p s) = Ok (x, r) \<longleftrightarrow>
     kssn_sig_ok x \<and> (\<exists>s'. s = kssn_sig_bytes x @ s' \<and> r = reading (p @ kssn_sig_bytes x) s')"
  (is "?L \<longleftrightarrow> ?R")
proof
  assume ?L
  then show ?R
    by (auto simp: read_input_signature_def rbind_Inr_iff fp_iffs sighash_from_byte_iff kssn_sig_ok_def kssn_sig_bytes_def)
next
  assume ?R
  then show ?L
    using sighash_from_byte_iff [of "sighash_to_byte (isg_sighash_type x)" "isg_sighash_type x"]
    by (cases x) (auto simp: read_input_signature_def kssn_sig_bytes_def kssn_sig_ok_def wire_simps)
qed

lemma read_response_count_iff:
  "read_response_count (reader_new data) = Ok (n, r) \<longleftrightarrow>
     (\<exists>c s'. data = KSSN_MAGIC @ [KSSN_VERSION_CURRENT] @ u32_to_le c @ s' \<and> n = unat c
        \<and> r = reading (KSSN_MAGIC @ [KSSN_VERSION_CURRENT] @ u32_to_le c) s')"
proof -
  have [simp]: "length KSSN_MAGIC = 4" by (simp add: KSSN_MAGIC_def)
  show ?thesis unfolding read_response_count_def reader_new_reading
    by (auto simp: rbind_Inr_iff fp_iffs split: if_splits) (auto simp: wire_simps)
qed

lemma ex_Cons: "(\<exists>xs. length xs = Suc n \<and> Q xs) \<longleftrightarrow> (\<exists>x xs. length (x # xs) = Suc n \<and> Q (x # xs))"
  by (auto simp: length_Suc_conv)

lemma list_ex_eq: "list_ex (\<lambda>e. f e = y) xs \<longleftrightarrow> y \<in> f ` set xs"
  by (induction xs) auto

lemma read_response_signatures_iff:
  assumes "\<And>n. reserve n"
  shows "read_response_signatures reserve n response (reading p s) = Ok (response', r) \<longleftrightarrow>
     (\<exists>xs s'. length xs = n \<and> list_all kssn_sig_ok xs \<and> s = concat (map kssn_sig_bytes xs) @ s'
        \<and> distinct (map isg_input_index xs)
        \<and> set (map isg_input_index xs) \<inter> set (map isg_input_index (sr_signatures response)) = {}
        \<and> response' = response\<lparr>sr_signatures := sr_signatures response @ xs\<rparr>
        \<and> r = reading (p @ concat (map kssn_sig_bytes xs)) s')"
proof (induction n arbitrary: response p s)
  case 0
  show ?case by auto
next
  case (Suc n)
  have add: "add_signature reserve (isg_input_index x) (isg_sighash_type x) (isg_signature x) response = Ok q \<longleftrightarrow>
      isg_input_index x \<notin> set (map isg_input_index (sr_signatures response))
      \<and> q = response\<lparr>sr_signatures := sr_signatures response @ [x]\<rparr>" for x q
    using assms by (auto simp: add_signature_def list_ex_eq)
  have "read_response_signatures reserve (Suc n) response (reading p s) = Ok (response', r) \<longleftrightarrow>
      (\<exists>x s1. kssn_sig_ok x \<and> s = kssn_sig_bytes x @ s1
         \<and> isg_input_index x \<notin> set (map isg_input_index (sr_signatures response))
         \<and> read_response_signatures reserve n (response\<lparr>sr_signatures := sr_signatures response @ [x]\<rparr>) (reading (p @ kssn_sig_bytes x) s1)
             = Ok (response', r))"
    by (auto simp: rbind_Inr_iff read_input_signature_iff add)
  also have "\<dots> \<longleftrightarrow> (\<exists>x xs s'. length (x # xs) = Suc n \<and> list_all kssn_sig_ok (x # xs)
        \<and> s = concat (map kssn_sig_bytes (x # xs)) @ s' \<and> distinct (map isg_input_index (x # xs))
        \<and> set (map isg_input_index (x # xs)) \<inter> set (map isg_input_index (sr_signatures response)) = {}
        \<and> response' = response\<lparr>sr_signatures := sr_signatures response @ x # xs\<rparr>
        \<and> r = reading (p @ concat (map kssn_sig_bytes (x # xs))) s')"
    unfolding Suc.IH by (intro ex_cong1) (auto simp: Int_Un_distrib)
  finally show ?case by (simp only: ex_simps ex_Cons)
qed

lemma response_parse_iff:
  "response_parse (\<lambda>_. True) data = Ok response \<longleftrightarrow> response_ok response \<and> data = response_bytes response"
proof -
  have "response_parse (\<lambda>_. True) data = Ok response \<longleftrightarrow>
      (\<exists>c s' r. data = KSSN_MAGIC @ [KSSN_VERSION_CURRENT] @ u32_to_le c @ s'
         \<and> read_response_signatures (\<lambda>_. True) (unat c) \<lparr>sr_signatures = []\<rparr> (reading (KSSN_MAGIC @ [KSSN_VERSION_CURRENT] @ u32_to_le c) s')
             = Ok (response, r) \<and> rd_remaining r = 0)"
    by (auto simp: response_parse_def rbind_Inr_iff read_response_count_iff)
  also have "\<dots> \<longleftrightarrow> (\<exists>c xs. data = KSSN_MAGIC @ [KSSN_VERSION_CURRENT] @ u32_to_le c @ concat (map kssn_sig_bytes xs)
         \<and> length xs = unat c \<and> list_all kssn_sig_ok xs \<and> distinct (map isg_input_index xs) \<and> response = \<lparr>sr_signatures = xs\<rparr>)"
    (is "?L \<longleftrightarrow> ?R")
  proof
    assume ?L
    then show ?R by (auto simp: read_response_signatures_iff)
  next
    assume ?R
    then obtain c xs where x: "data = KSSN_MAGIC @ [KSSN_VERSION_CURRENT] @ u32_to_le c @ concat (map kssn_sig_bytes xs)"
      "length xs = unat c" "list_all kssn_sig_ok xs" "distinct (map isg_input_index xs)" "response = \<lparr>sr_signatures = xs\<rparr>" by blast
    let ?h = "KSSN_MAGIC @ [KSSN_VERSION_CURRENT] @ u32_to_le c" and ?b = "concat (map kssn_sig_bytes xs)"
    have "read_response_signatures (\<lambda>_. True) (unat c) \<lparr>sr_signatures = []\<rparr> (reading ?h ?b) = Ok (response, reading (?h @ ?b) [])"
      by (subst read_response_signatures_iff) (use x in auto)
    then show ?L using x(1) by (intro exI [of _ c] exI [of _ ?b] exI [of _ "reading (?h @ ?b) []"]) simp
  qed
  also have "\<dots> \<longleftrightarrow> response_ok response \<and> data = response_bytes response"
  proof -
    have "length xs = unat c \<longleftrightarrow> length xs < 2 ^ 32 \<and> c = word_of_nat (length xs)" for xs :: "input_signature list" and c :: u32
      using unat_bound [of c] by (auto simp: word_unat_eq_iff)
    then show ?thesis by (cases response) (auto simp: response_ok_def response_bytes_def)
  qed
  finally show ?thesis .
qed

lemma response_serialize_iff:
  "response_serialize response output = Ok (n, written) \<longleftrightarrow>
     length (sr_signatures response) < 2 ^ 32 \<and> n = length (response_bytes response) \<and> n \<le> length output
     \<and> written = response_bytes response @ drop n output"
proof -
  have "emits (write_input_signature s) (kssn_sig_bytes s, None)" for s
    unfolding write_input_signature_def kssn_sig_bytes_def
    by (rule emits_cong, (rule emits_seq emits_fields)+) simp
  then have fold: "emits (\<lambda>w. try_fold (\<lambda>w s. write_input_signature s w) w xs) (concat (map kssn_sig_bytes xs), None)" for xs
    by (rule emits_cong [OF emits_fold [of xs write_input_signature "\<lambda>s. (kssn_sig_bytes s, None)"]])
      (induction xs; simp)
  have "emits (\<lambda>w. rbind (wr_bytes KSSN_MAGIC w) (\<lambda>w. rbind (wr_u8 KSSN_VERSION_CURRENT w) (\<lambda>w.
        rbind (wr_u32 (word_of_nat (length (sr_signatures response))) w) (\<lambda>w.
        try_fold (\<lambda>w s. write_input_signature s w) w (sr_signatures response))))) (response_bytes response, None)"
    unfolding response_bytes_def by (rule emits_cong, (rule emits_seq emits_fields fold)+) simp
  then have run: "rbind (wr_bytes KSSN_MAGIC (writer_new output)) (\<lambda>w. rbind (wr_u8 KSSN_VERSION_CURRENT w) (\<lambda>w.
        rbind (wr_u32 (word_of_nat (length (sr_signatures response))) w) (\<lambda>w.
        try_fold (\<lambda>w s. write_input_signature s w) w (sr_signatures response)))) =
      run_emission (response_bytes response, None) (writer_new output)"
    by (simp add: emits_def writer_new_def)
  have "response_serialize response output = (if length (sr_signatures response) \<ge> 2 ^ 32 then Err PeTooManySignatures
      else map_err pskt_of_wire (rbind (run_emission (response_bytes response, None) (writer_new output)) (\<lambda>w. Ok (wr_pos w, wr_output w))))"
    unfolding response_serialize_def run [symmetric] by (simp add: rbind_assoc)
  then show ?thesis by (auto simp: run_emission_def writer_new_def push_def)
qed

section \<open>Properties\<close>

text \<open>
  (C18) Signature responses have one encoding. A byte string parses to a response exactly when it is the encoding of a response
  with 64-byte signatures of types the reader knows and no input signed twice; serializing succeeds exactly when the
  buffer has room, and writes that encoding.
\<close>

theorem kssn_canonical:
  "(response_parse (\<lambda>_. True) data = Ok response \<longleftrightarrow> response_ok response \<and> data = response_bytes response)
   \<and> (response_serialize response output = Ok (n, written) \<longleftrightarrow>
        length (sr_signatures response) < 2 ^ 32 \<and> n = length (response_bytes response) \<and> n \<le> length output
        \<and> written = response_bytes response @ drop n output)"
  by (intro conjI response_parse_iff response_serialize_iff)

end
