(* ===== verification/Bip32.thy ===== *)
theory Bip32
  imports Address
begin

text \<open>
  Hierarchical key derivation (\<open>wallet/derivation/bip32\<close>, \<open>wallet/derivation/hmac.rs\<close>, \<open>wallet/derivation/kip22.rs\<close>):
  scalar arithmetic on big-endian byte arrays, HMAC-SHA512, private and public child derivation, derivation paths and the
  search for the address index of a key. The curve (the \<open>k256\<close> crate) is the record \<open>curve\<close> of the operations the code
  calls, SHA-512 is a parameter; what is relied on is stated by \<open>curve_laws\<close>: scalars are the numbers below the group
  order, multiplying the generator is additive in them, and an encoded point decodes to itself.

  Wiping secrets and the watchdog callbacks of the searches have no result and are not modelled.
\<close>

section \<open>Scalars\<close>

definition be_nat :: "bytes \<Rightarrow> nat" where "be_nat bs = le_nat (rev bs)"

definition SECP256K1_ORDER :: bytes where
  "SECP256K1_ORDER =
     [0xFF, 0xFF, 0xFF, 0xFF, 0xFF, 0xFF, 0xFF, 0xFF, 0xFF, 0xFF, 0xFF, 0xFF, 0xFF, 0xFF, 0xFF, 0xFE,
      0xBA, 0xAE, 0xDC, 0xE6, 0xAF, 0x48, 0xA0, 0x3B, 0xBF, 0xD2, 0x5E, 0x8C, 0xD0, 0x36, 0x41, 0x41]"

definition is_zero :: "bytes \<Rightarrow> bool" where
  "is_zero v \<longleftrightarrow> foldl (\<lambda>accumulator byte. accumulator OR byte) 0 v = 0"

text \<open>The loops run from the last index to the first, here over the reversed arrays.\<close>

fun subtract_loop :: "bytes \<Rightarrow> bytes \<Rightarrow> u16 \<Rightarrow> bytes \<times> u16" where
  "subtract_loop (l # ls) (r # rs) borrow =
     (let minuend = ucast l; subtrahend = ucast r + borrow; difference = minuend - subtrahend;
          (rest, b) = subtract_loop ls rs (drop_bit 15 difference AND 1)
      in (ucast difference # rest, b))"
| "subtract_loop _ _ borrow = ([], borrow)"

definition subtract :: "bytes \<Rightarrow> bytes \<Rightarrow> bytes \<times> u16" where
  "subtract left right = (let (out, borrow) = subtract_loop (rev left) (rev right) 0 in (rev out, borrow))"

definition is_less_than_order :: "bytes \<Rightarrow> bool" where
  "is_less_than_order v \<longleftrightarrow> snd (subtract v SECP256K1_ORDER) = 1"

definition is_valid_secret_scalar :: "bytes \<Rightarrow> bool" where
  "is_valid_secret_scalar v \<longleftrightarrow> \<not> is_zero v \<and> is_less_than_order v"

fun add_loop :: "bytes \<Rightarrow> bytes \<Rightarrow> u16 \<Rightarrow> bytes \<times> u16" where
  "add_loop (l # ls) (r # rs) carry =
     (let w = ucast l + ucast r + carry; (rest, c) = add_loop ls rs (drop_bit 8 w) in (ucast w # rest, c))"
| "add_loop _ _ carry = ([], carry)"

definition scalar_add_mod_n :: "bytes \<Rightarrow> bytes \<Rightarrow> bytes" where
  "scalar_add_mod_n left right =
     (let (rsum, carry) = add_loop (rev left) (rev right) 0; total = rev rsum;
          (reduced, borrow) = subtract total SECP256K1_ORDER;
          should_reduce = (carry \<noteq> 0 \<or> borrow = 0);
          mask = 0 - (if should_reduce then 1 else 0)
      in map2 (\<lambda>r s. (r AND mask) + (s AND NOT mask)) reduced total)"

section \<open>HMAC and the curve\<close>

definition HMAC_BLOCK_SIZE :: nat where "HMAC_BLOCK_SIZE = 128"
definition IPAD :: u8 where "IPAD = 0x36"
definition OPAD :: u8 where "OPAD = 0x5C"

definition hmac_sha512 :: "(bytes \<Rightarrow> bytes) \<Rightarrow> bytes \<Rightarrow> bytes \<Rightarrow> bytes" where
  "hmac_sha512 sha512 key message =
     (let k = (if length key > HMAC_BLOCK_SIZE then sha512 key else key);
          k_prime = k @ replicate (HMAC_BLOCK_SIZE - length k) 0;
          inner_hash = sha512 (map (\<lambda>b. b XOR IPAD) k_prime @ message)
      in sha512 (map (\<lambda>b. b XOR OPAD) k_prime @ inner_hash))"

record ('s, 'p) curve =
  cv_scalar :: "bytes \<Rightarrow> 's option"
  cv_secret :: "bytes \<Rightarrow> 's option"
  cv_scalar_add :: "'s \<Rightarrow> 's \<Rightarrow> 's"
  cv_scalar_neg :: "'s \<Rightarrow> 's"
  cv_scalar_bytes :: "'s \<Rightarrow> bytes"
  cv_mul_g :: "'s \<Rightarrow> 'p"
  cv_add :: "'p \<Rightarrow> 'p \<Rightarrow> 'p"
  cv_is_identity :: "'p \<Rightarrow> bool"
  cv_decode :: "bytes \<Rightarrow> 'p option"
  cv_encode :: "'p \<Rightarrow> bytes"

section \<open>Extended keys\<close>

datatype bip32_error = BipInvalidKey | BipInvalidChainCode | BipCurveError | BipEmptyPath

record extended_priv_key =
  xk_key :: bytes
  xk_chain_code :: bytes
  xk_depth :: u8

record extended_pub_key =
  xp_pubkey :: bytes
  xp_chain_code :: bytes
  xp_depth :: u8

definition xk_to_raw :: "extended_priv_key \<Rightarrow> bytes" where
  "xk_to_raw k = xk_key k @ xk_chain_code k @ [xk_depth k]"

definition xk_from_raw :: "bytes \<Rightarrow> extended_priv_key" where
  "xk_from_raw raw = \<lparr>xk_key = take 32 raw, xk_chain_code = take 32 (drop 32 raw), xk_depth = raw ! 64\<rparr>"

definition compressed_pubkey_from_raw_key :: "('s, 'p) curve \<Rightarrow> bytes \<Rightarrow> bip32_error + bytes" where
  "compressed_pubkey_from_raw_key cv privkey =
     (case cv_secret cv privkey of None \<Rightarrow> Err BipCurveError | Some s \<Rightarrow> Ok (cv_encode cv (cv_mul_g cv s)))"

definition pubkey_from_raw_key :: "('s, 'p) curve \<Rightarrow> bytes \<Rightarrow> bip32_error + bytes" where
  "pubkey_from_raw_key cv privkey = rbind (compressed_pubkey_from_raw_key cv privkey) (\<lambda>c. Ok (take 32 (drop 1 c)))"

definition public_key_compressed :: "('s, 'p) curve \<Rightarrow> extended_priv_key \<Rightarrow> bip32_error + bytes" where
  "public_key_compressed cv k =
     (case cv_secret cv (xk_key k) of None \<Rightarrow> Err BipCurveError | Some s \<Rightarrow> Ok (cv_encode cv (cv_mul_g cv s)))"

definition public_key_x_only :: "('s, 'p) curve \<Rightarrow> extended_priv_key \<Rightarrow> bip32_error + bytes" where
  "public_key_x_only cv k = rbind (public_key_compressed cv k) (\<lambda>c. Ok (take 32 (drop 1 c)))"

definition to_xpub :: "('s, 'p) curve \<Rightarrow> extended_priv_key \<Rightarrow> bip32_error + extended_pub_key" where
  "to_xpub cv k = rbind (public_key_compressed cv k) (\<lambda>pubkey.
     Ok \<lparr>xp_pubkey = pubkey, xp_chain_code = xk_chain_code k, xp_depth = xk_depth k\<rparr>)"

section \<open>Child derivation\<close>

definition BITCOIN_SEED :: bytes where "BITCOIN_SEED = map of_char ''Bitcoin seed''"
definition HARDENED_BIT :: u32 where "HARDENED_BIT = 0x80000000"

definition u32_to_be :: "u32 \<Rightarrow> bytes" where "u32_to_be w = rev (u32_to_le w)"

definition master_key_from_seed :: "(bytes \<Rightarrow> bytes) \<Rightarrow> bytes \<Rightarrow> bip32_error + extended_priv_key" where
  "master_key_from_seed sha512 seed =
     (let i = hmac_sha512 sha512 BITCOIN_SEED seed; key = take 32 i; chain_code = drop 32 i in
      if \<not> is_valid_secret_scalar key then Err BipInvalidKey
      else Ok \<lparr>xk_key = key, xk_chain_code = chain_code, xk_depth = 0\<rparr>)"

definition derive_child :: "('s, 'p) curve \<Rightarrow> (bytes \<Rightarrow> bytes) \<Rightarrow> extended_priv_key \<Rightarrow> u32 \<Rightarrow> bip32_error + extended_priv_key" where
  "derive_child cv sha512 parent index =
     rbind (if index AND HARDENED_BIT \<noteq> 0 then Ok (0x00 # xk_key parent) else public_key_compressed cv parent) (\<lambda>prefix.
     let i = hmac_sha512 sha512 (xk_chain_code parent) (prefix @ u32_to_be index);
         il = take 32 i; child_chain_code = drop 32 i in
     if \<not> is_less_than_order il then Err BipInvalidKey
     else let child_key = scalar_add_mod_n il (xk_key parent) in
       if is_zero child_key then Err BipInvalidKey
       else Ok \<lparr>xk_key = child_key, xk_chain_code = child_chain_code, xk_depth = saturating_add (xk_depth parent) 1\<rparr>)"

definition scalar_and_chain_code :: "('s, 'p) curve \<Rightarrow> bytes \<Rightarrow> bip32_error + ('s \<times> bytes)" where
  "scalar_and_chain_code cv digest =
     (let il = take 32 digest; chain_code = drop 32 digest in
      if \<not> is_less_than_order il then Err BipInvalidKey
      else case cv_scalar cv il of Some s \<Rightarrow> Ok (s, chain_code) | None \<Rightarrow> Err BipInvalidKey)"

definition child_public_scalar :: "('s, 'p) curve \<Rightarrow> (bytes \<Rightarrow> bytes) \<Rightarrow> extended_pub_key \<Rightarrow> u32 \<Rightarrow> bip32_error + ('s \<times> bytes)" where
  "child_public_scalar cv sha512 parent index =
     scalar_and_chain_code cv (hmac_sha512 sha512 (xp_chain_code parent) (xp_pubkey parent @ u32_to_be index))"

definition decode_parent_point :: "('s, 'p) curve \<Rightarrow> extended_pub_key \<Rightarrow> bip32_error + 'p" where
  "decode_parent_point cv parent = ok_or (cv_decode cv (xp_pubkey parent)) BipCurveError"

definition validate_child_point :: "('s, 'p) curve \<Rightarrow> 'p \<Rightarrow> bip32_error + unit" where
  "validate_child_point cv p = (if cv_is_identity cv p then Err BipInvalidKey else Ok ())"

definition encode_child_point :: "('s, 'p) curve \<Rightarrow> 'p \<Rightarrow> bip32_error + bytes" where
  "encode_child_point cv p = (let bs = cv_encode cv p in if length bs \<noteq> 33 then Err BipCurveError else Ok bs)"

definition derive_child_pub :: "('s, 'p) curve \<Rightarrow> (bytes \<Rightarrow> bytes) \<Rightarrow> extended_pub_key \<Rightarrow> u32 \<Rightarrow> bip32_error + extended_pub_key" where
  "derive_child_pub cv sha512 parent index =
     (if index AND HARDENED_BIT \<noteq> 0 then Err BipInvalidKey
      else
        rbind (child_public_scalar cv sha512 parent index) (\<lambda>(il_scalar, child_chain_code).
        rbind (decode_parent_point cv parent) (\<lambda>parent_point.
        let child_point = cv_add cv (cv_mul_g cv il_scalar) parent_point in
        rbind (validate_child_point cv child_point) (\<lambda>_.
        rbind (encode_child_point cv child_point) (\<lambda>child_pubkey.
          Ok \<lparr>xp_pubkey = child_pubkey, xp_chain_code = child_chain_code,
              xp_depth = saturating_add (xp_depth parent) 1\<rparr>)))))"

section \<open>Paths\<close>

definition derive_path :: "('s, 'p) curve \<Rightarrow> (bytes \<Rightarrow> bytes) \<Rightarrow> bytes \<Rightarrow> u32 list \<Rightarrow> bip32_error + extended_priv_key" where
  "derive_path cv sha512 seed path =
     (if path = [] then Err BipEmptyPath
      else rbind (master_key_from_seed sha512 seed) (\<lambda>current. try_fold (derive_child cv sha512) current path))"

definition KASPA_ACCOUNT_PATH :: "u32 list" where "KASPA_ACCOUNT_PATH = [0x8000002c, 0x8001b207, 0x80000000]"
definition KASPA_MULTISIG_ACCOUNT_PREFIX :: "u32 list" where "KASPA_MULTISIG_ACCOUNT_PREFIX = [0x8000002d, 0x8001b207]"

record account_key_derivation =
  akd_current :: extended_priv_key
  akd_next_step :: nat

definition akd_new :: "(bytes \<Rightarrow> bytes) \<Rightarrow> bytes \<Rightarrow> bip32_error + account_key_derivation" where
  "akd_new sha512 seed = rbind (master_key_from_seed sha512 seed) (\<lambda>k. Ok \<lparr>akd_current = k, akd_next_step = 0\<rparr>)"

definition akd_from_account_key :: "extended_priv_key \<Rightarrow> account_key_derivation" where
  "akd_from_account_key account = \<lparr>akd_current = account, akd_next_step = length KASPA_ACCOUNT_PATH\<rparr>"

definition akd_is_complete :: "account_key_derivation \<Rightarrow> bool" where
  "akd_is_complete d \<longleftrightarrow> akd_next_step d = length KASPA_ACCOUNT_PATH"

definition advance_one :: "('s, 'p) curve \<Rightarrow> (bytes \<Rightarrow> bytes) \<Rightarrow> account_key_derivation
    \<Rightarrow> (bip32_error + bool) \<times> account_key_derivation" where
  "advance_one cv sha512 d =
     (if akd_is_complete d then (Ok True, d)
      else case derive_child cv sha512 (akd_current d) (KASPA_ACCOUNT_PATH ! akd_next_step d) of
        Inl e \<Rightarrow> (Err e, d)
      | Inr child \<Rightarrow> let d = d\<lparr>akd_current := child, akd_next_step := akd_next_step d + 1\<rparr> in (Ok (akd_is_complete d), d))"

definition akd_finish :: "account_key_derivation \<Rightarrow> bip32_error + extended_priv_key" where
  "akd_finish d = (if \<not> akd_is_complete d then Err BipInvalidKey else Ok (akd_current d))"

definition derive_account_key :: "('s, 'p) curve \<Rightarrow> (bytes \<Rightarrow> bytes) \<Rightarrow> bytes \<Rightarrow> bip32_error + extended_priv_key" where
  "derive_account_key cv sha512 seed = derive_path cv sha512 seed KASPA_ACCOUNT_PATH"

definition derive_address_key :: "('s, 'p) curve \<Rightarrow> (bytes \<Rightarrow> bytes) \<Rightarrow> extended_priv_key \<Rightarrow> u32 \<Rightarrow> bip32_error + extended_priv_key" where
  "derive_address_key cv sha512 account_key index =
     rbind (derive_child cv sha512 account_key 0) (\<lambda>change_key. derive_child cv sha512 change_key index)"

definition derive_change_key :: "('s, 'p) curve \<Rightarrow> (bytes \<Rightarrow> bytes) \<Rightarrow> extended_priv_key \<Rightarrow> u32 \<Rightarrow> bip32_error + extended_priv_key" where
  "derive_change_key cv sha512 account_key index =
     rbind (derive_child cv sha512 account_key 1) (\<lambda>internal_key. derive_child cv sha512 internal_key index)"

definition derive_path_for_index :: "('s, 'p) curve \<Rightarrow> (bytes \<Rightarrow> bytes) \<Rightarrow> bytes \<Rightarrow> u32 \<Rightarrow> bip32_error + extended_priv_key" where
  "derive_path_for_index cv sha512 seed index =
     derive_path cv sha512 seed
       [KASPA_ACCOUNT_PATH ! 0, KASPA_ACCOUNT_PATH ! 1, KASPA_ACCOUNT_PATH ! 2, 0, index]"

definition derive_multisig_account_key :: "('s, 'p) curve \<Rightarrow> (bytes \<Rightarrow> bytes) \<Rightarrow> bytes \<Rightarrow> u32 \<Rightarrow> bip32_error + extended_priv_key" where
  "derive_multisig_account_key cv sha512 seed account =
     (if account \<ge> HARDENED_BIT then Err BipInvalidKey
      else derive_path cv sha512 seed
             [KASPA_MULTISIG_ACCOUNT_PREFIX ! 0, KASPA_MULTISIG_ACCOUNT_PREFIX ! 1, account + HARDENED_BIT])"

definition derive_multisig_address_key ::
  "('s, 'p) curve \<Rightarrow> (bytes \<Rightarrow> bytes) \<Rightarrow> extended_priv_key \<Rightarrow> u32 \<Rightarrow> u32 \<Rightarrow> u32 \<Rightarrow> bip32_error + extended_priv_key" where
  "derive_multisig_address_key cv sha512 account_key cosigner chain index =
     (if cosigner \<ge> 0x80000000 \<or> chain > 1 \<or> index \<ge> 0x80000000 then Err BipInvalidKey
      else
        rbind (derive_child cv sha512 account_key cosigner) (\<lambda>cosigner_key.
        rbind (derive_child cv sha512 cosigner_key chain) (\<lambda>chain_key.
        derive_child cv sha512 chain_key index)))"

section \<open>Finding the index of a key\<close>

definition ADDR_SCAN_DEPTH :: nat where "ADDR_SCAN_DEPTH = 20"
definition SIGN_MATCH_DEPTH :: nat where "SIGN_MATCH_DEPTH = 100"

text \<open>The key at an index of the receive or the change chain, \<open>None\<close> where a derivation fails and the loops go on.\<close>

definition chain_xonly :: "('s, 'p) curve \<Rightarrow> (bytes \<Rightarrow> bytes) \<Rightarrow> extended_priv_key \<Rightarrow> bool \<Rightarrow> nat \<Rightarrow> bytes option" where
  "chain_xonly cv sha512 account is_change idx =
     (case (if is_change then derive_change_key cv sha512 account (word_of_nat idx)
            else derive_address_key cv sha512 account (word_of_nat idx)) of
        Inl _ \<Rightarrow> None
      | Inr key \<Rightarrow> (case public_key_x_only cv key of Inl _ \<Rightarrow> None | Inr pk \<Rightarrow> Some pk))"

definition find_address_index_for_pubkey ::
  "('s, 'p) curve \<Rightarrow> (bytes \<Rightarrow> bytes) \<Rightarrow> extended_priv_key \<Rightarrow> bytes \<Rightarrow> (nat \<times> bool) option" where
  "find_address_index_for_pubkey cv sha512 account target =
     (case find (\<lambda>idx. chain_xonly cv sha512 account False idx = Some target) [0..<SIGN_MATCH_DEPTH] of
        Some idx \<Rightarrow> Some (idx, False)
      | None \<Rightarrow>
          (case find (\<lambda>idx. chain_xonly cv sha512 account True idx = Some target) [0..<SIGN_MATCH_DEPTH] of
             Some idx \<Rightarrow> Some (idx, True)
           | None \<Rightarrow> None))"

record addr_pubkey_table =
  at_entries :: "(bool \<times> nat \<times> bytes) list"
  at_filled :: nat

definition table_step ::
  "('s, 'p) curve \<Rightarrow> (bytes \<Rightarrow> bytes) \<Rightarrow> extended_priv_key \<Rightarrow> bool \<Rightarrow> addr_pubkey_table \<Rightarrow> nat \<Rightarrow> addr_pubkey_table" where
  "table_step cv sha512 account is_change tbl idx =
     (case chain_xonly cv sha512 account is_change idx of
        None \<Rightarrow> tbl
      | Some pk \<Rightarrow> tbl\<lparr>at_entries := (at_entries tbl)[at_filled tbl := (is_change, idx, pk)], at_filled := at_filled tbl + 1\<rparr>)"

definition table_build :: "('s, 'p) curve \<Rightarrow> (bytes \<Rightarrow> bytes) \<Rightarrow> extended_priv_key \<Rightarrow> addr_pubkey_table" where
  "table_build cv sha512 account =
     (let tbl = \<lparr>at_entries = replicate (ADDR_SCAN_DEPTH * 2) (False, 0, replicate 32 0), at_filled = 0\<rparr>;
          tbl = foldl (table_step cv sha512 account False) tbl [0..<ADDR_SCAN_DEPTH]
      in foldl (table_step cv sha512 account True) tbl [0..<ADDR_SCAN_DEPTH])"

definition find_by_pubkey :: "addr_pubkey_table \<Rightarrow> bytes \<Rightarrow> (nat \<times> bool) option" where
  "find_by_pubkey tbl target =
     map_option (\<lambda>e. (fst (snd e), fst e)) (find (\<lambda>e. snd (snd e) = target) (take (at_filled tbl) (at_entries tbl)))"

section \<open>Pay-to-key-hash wallets\<close>

datatype kip22_chain = Kip22Receive | Kip22Change

definition kip22_chain_index :: "kip22_chain \<Rightarrow> u32" where
  "kip22_chain_index c = (case c of Kip22Receive \<Rightarrow> 0 | Kip22Change \<Rightarrow> 1)"

definition KIP22_PURPOSE :: u32 where "KIP22_PURPOSE = 22 + HARDENED_BIT"
definition KIP22_COIN_TYPE :: u32 where "KIP22_COIN_TYPE = 111111 + HARDENED_BIT"
definition KIP22_REDEEM_SCRIPT_LEN :: nat where "KIP22_REDEEM_SCRIPT_LEN = 34"
definition OWNERSHIP_SCAN_DEPTH :: nat where "OWNERSHIP_SCAN_DEPTH = 20"

definition kip22_redeem_script :: "bytes \<Rightarrow> bytes" where "kip22_redeem_script xonly = p2pk_script xonly"

definition is_kip22_redeem_script :: "bytes \<Rightarrow> bool" where
  "is_kip22_redeem_script script \<longleftrightarrow> length script = KIP22_REDEEM_SCRIPT_LEN \<and> script ! 0 = 0x20 \<and> script ! 33 = 0xac"

definition kip22_redeem_script_hash :: "(bytes \<Rightarrow> bytes) \<Rightarrow> bytes \<Rightarrow> bytes" where
  "kip22_redeem_script_hash blake2b_256 xonly = script_hash blake2b_256 (kip22_redeem_script xonly)"

definition kip22_address :: "(bytes \<Rightarrow> bytes) \<Rightarrow> bytes \<Rightarrow> string \<Rightarrow> string" where
  "kip22_address blake2b_256 xonly pref = script_to_p2sh_address blake2b_256 (kip22_redeem_script xonly) pref"

definition kip22_derive_account_key :: "('s, 'p) curve \<Rightarrow> (bytes \<Rightarrow> bytes) \<Rightarrow> bytes \<Rightarrow> u32 \<Rightarrow> bip32_error + extended_priv_key" where
  "kip22_derive_account_key cv sha512 seed account =
     (if account \<ge> HARDENED_BIT then Err BipInvalidKey
      else derive_path cv sha512 seed [KIP22_PURPOSE, KIP22_COIN_TYPE, account + HARDENED_BIT])"

definition kip22_derive_address_key ::
  "('s, 'p) curve \<Rightarrow> (bytes \<Rightarrow> bytes) \<Rightarrow> extended_priv_key \<Rightarrow> kip22_chain \<Rightarrow> u32 \<Rightarrow> bip32_error + extended_priv_key" where
  "kip22_derive_address_key cv sha512 account chain index =
     (if index \<ge> HARDENED_BIT then Err BipInvalidKey
      else rbind (derive_child cv sha512 account (kip22_chain_index chain)) (\<lambda>k. derive_child cv sha512 k index))"

text \<open>A derivation that fails ends the search.\<close>

fun owned_script_loop ::
  "('s, 'p) curve \<Rightarrow> (bytes \<Rightarrow> bytes) \<Rightarrow> (bytes \<Rightarrow> bytes) \<Rightarrow> extended_priv_key \<Rightarrow> bytes \<Rightarrow> (kip22_chain \<times> nat) list
   \<Rightarrow> (kip22_chain \<times> nat) option" where
  "owned_script_loop cv sha512 blake2b_256 account spk [] = None"
| "owned_script_loop cv sha512 blake2b_256 account spk ((chain, index) # rest) =
     (case rbind (kip22_derive_address_key cv sha512 account chain (word_of_nat index)) (public_key_x_only cv) of
        Inl _ \<Rightarrow> None
      | Inr xonly \<Rightarrow>
          if p2sh_script (kip22_redeem_script_hash blake2b_256 xonly) = spk then Some (chain, index)
          else owned_script_loop cv sha512 blake2b_256 account spk rest)"

definition find_owned_script ::
  "('s, 'p) curve \<Rightarrow> (bytes \<Rightarrow> bytes) \<Rightarrow> (bytes \<Rightarrow> bytes) \<Rightarrow> extended_priv_key \<Rightarrow> bytes \<Rightarrow> (kip22_chain \<times> nat) option" where
  "find_owned_script cv sha512 blake2b_256 account spk =
     owned_script_loop cv sha512 blake2b_256 account spk
       (map (Pair Kip22Change) [0..<OWNERSHIP_SCAN_DEPTH] @ map (Pair Kip22Receive) [0..<OWNERSHIP_SCAN_DEPTH])"

section \<open>The byte loops compute with numbers\<close>

lemma unat_byte_u16 [simp]: "unat (ucast (b :: u8) :: u16) = unat b"
  using unat_bound [of b] by (simp add: unsigned_ucast_eq take_bit_eq_mod)

lemma subtract_byte:
  fixes l r :: u8 and borrow :: u16
  assumes "unat borrow \<le> 1"
  defines "d \<equiv> ucast l - (ucast r + borrow)"
  shows "unat (ucast d :: u8) + unat r + unat borrow = unat l + 256 * unat (drop_bit 15 d AND 1)"
    and "unat (drop_bit 15 d AND 1) \<le> 1"
proof -
  have lt: "unat l < 256" "unat r < 256" using unat_u8_less by auto
  have r: "unat (ucast r + borrow :: u16) = unat r + unat borrow"
    using lt assms(1) by (simp add: unat_word_ariths)
  have low: "unat (ucast d :: u8) = unat d mod 256" by (simp add: unsigned_ucast_eq take_bit_eq_mod)
  have bit: "unat (drop_bit 15 d AND 1) = unat d div 2 ^ 15 mod 2"
    by (simp add: and_one_eq unat_mod drop_bit_eq_div unat_div)
  show "unat (drop_bit 15 d AND 1) \<le> 1" unfolding bit by simp
  show "unat (ucast d :: u8) + unat r + unat borrow = unat l + 256 * unat (drop_bit 15 d AND 1)"
  proof (cases "unat r + unat borrow \<le> unat l")
    case True
    then have "unat d = unat l - (unat r + unat borrow)"
      unfolding d_def by (subst unat_sub) (simp_all add: r word_le_nat_alt)
    then show ?thesis unfolding low bit using True lt by simp
  next
    case False
    define k where "k = unat r + unat borrow - unat l"
    have k: "0 < k" "k \<le> 256" "unat r + unat borrow = unat l + k" using False lt assms(1) by (simp_all add: k_def)
    have "unat d = 65536 + unat l - (unat r + unat borrow)"
      unfolding d_def using False by (subst unat_sub_if_size) (simp add: r word_size)
    then have d: "unat d = 255 * 256 + (256 - k)" using k by simp
    have "unat d mod 256 = 256 - k" unfolding d using k by (simp only: mod_mult_self3) simp
    moreover have "unat d div 2 ^ 15 mod 2 = 1" using k by (simp add: d div_add1_eq)
    ultimately show ?thesis unfolding low bit using k by simp
  qed
qed

lemma subtract_loop_number:
  assumes "length ls = length rs" "unat borrow \<le> 1" "subtract_loop ls rs borrow = (out, b)"
  shows "length out = length ls \<and> unat b \<le> 1 \<and> le_nat out + le_nat rs + unat borrow = le_nat ls + 256 ^ length ls * unat b"
  using assms
proof (induction ls rs borrow arbitrary: out rule: subtract_loop.induct)
  case (1 l ls r rs borrow)
  let ?d = "ucast l - (ucast r + borrow) :: u16"
  obtain rest where rest: "subtract_loop ls rs (drop_bit 15 ?d AND 1) = (rest, b)" "out = ucast ?d # rest"
    using 1(4) by (auto simp: Let_def split: prod.splits)
  note byte = subtract_byte [OF 1(3), of l r]
  have ih: "length rest = length ls \<and> unat b \<le> 1
      \<and> le_nat rest + le_nat rs + unat (drop_bit 15 ?d AND 1) = le_nat ls + 256 ^ length ls * unat b"
    using 1(1) [OF refl refl refl _ byte(2) rest(1)] 1(2) by simp
  then have "256 * (le_nat rest + le_nat rs + unat (drop_bit 15 ?d AND 1)) = 256 * le_nat ls + 256 ^ Suc (length ls) * unat b"
    by (simp add: algebra_simps)
  with byte(1) ih show ?case by (simp add: rest(2))
qed auto

lemma subtract_number:
  assumes "length left = length right" "subtract left right = (out, borrow)"
  shows "length out = length left \<and> unat borrow \<le> 1 \<and> be_nat out + be_nat right = be_nat left + 256 ^ length left * unat borrow"
proof -
  obtain rout where l: "subtract_loop (rev left) (rev right) 0 = (rout, borrow)" and out: "out = rev rout"
    using assms(2) by (auto simp: subtract_def split: prod.splits)
  show ?thesis using subtract_loop_number [OF _ _ l] assms(1) by (simp add: be_nat_def out)
qed

lemma be_nat_bound: "be_nat bs < 256 ^ length bs"
  using le_nat_bound [of "rev bs"] by (simp add: be_nat_def)

lemma le_nat_zero: "le_nat bs = 0 \<longleftrightarrow> list_all (\<lambda>b. b = 0) bs"
  by (induction bs) (auto simp: unat_eq_0)

lemma is_zero_iff: "is_zero v \<longleftrightarrow> be_nat v = 0"
proof -
  have "foldl (OR) a v = 0 \<longleftrightarrow> a = 0 \<and> list_all (\<lambda>b. b = 0) v" for a :: u8
    by (induction v arbitrary: a) (auto simp: or_eq_0_iff)
  then show ?thesis by (simp add: is_zero_def be_nat_def le_nat_zero)
qed

lemma order_facts: "length SECP256K1_ORDER = 32" "0 < be_nat SECP256K1_ORDER" "be_nat SECP256K1_ORDER < 256 ^ 32"
proof -
  show l: "length SECP256K1_ORDER = 32" by (simp add: SECP256K1_ORDER_def)
  show "be_nat SECP256K1_ORDER < 256 ^ 32" using be_nat_bound [of SECP256K1_ORDER] unfolding l .
  have "\<not> list_all (\<lambda>b. b = 0) (rev SECP256K1_ORDER)" by (simp add: SECP256K1_ORDER_def)
  then show "0 < be_nat SECP256K1_ORDER" by (simp only: be_nat_def le_nat_zero neq0_conv [symmetric] not_False_eq_True)
qed

lemma is_less_than_order_iff: "length v = 32 \<Longrightarrow> is_less_than_order v \<longleftrightarrow> be_nat v < be_nat SECP256K1_ORDER"
proof -
  assume l: "length v = 32"
  obtain out b where s: "subtract v SECP256K1_ORDER = (out, b)" by fastforce
  have n: "length out = 32" "unat b \<le> 1" "be_nat out + be_nat SECP256K1_ORDER = be_nat v + 256 ^ 32 * unat b"
    using subtract_number [OF _ s] l order_facts by auto
  have "be_nat out < 256 ^ 32" using be_nat_bound [of out] n(1) by simp
  moreover have "b = 1 \<longleftrightarrow> unat b = 1" by (simp add: word_unat_eq_iff)
  moreover have "unat b = 0 \<or> unat b = 1" using n(2) by linarith
  ultimately show ?thesis using n(3) s by (auto simp: is_less_than_order_def)
qed

lemma add_byte:
  fixes l r :: u8 and carry :: u16
  assumes "unat carry \<le> 1"
  defines "w \<equiv> ucast l + ucast r + carry"
  shows "unat (ucast w :: u8) + 256 * unat (drop_bit 8 w) = unat l + unat r + unat carry"
    and "unat (drop_bit 8 w) \<le> 1"
proof -
  have lt: "unat l < 256" "unat r < 256" using unat_u8_less by auto
  then have w: "unat w = unat l + unat r + unat carry" using assms(1) by (simp add: w_def unat_word_ariths)
  have d: "unat (drop_bit 8 w) = unat w div 256" by (simp add: drop_bit_eq_div unat_div)
  show "unat (ucast w :: u8) + 256 * unat (drop_bit 8 w) = unat l + unat r + unat carry"
    unfolding d by (simp add: unsigned_ucast_eq take_bit_eq_mod w)
  show "unat (drop_bit 8 w) \<le> 1" unfolding d w using lt assms(1) by simp
qed

lemma add_loop_number:
  assumes "length ls = length rs" "unat carry \<le> 1" "add_loop ls rs carry = (out, c)"
  shows "length out = length ls \<and> unat c \<le> 1 \<and> le_nat out + 256 ^ length ls * unat c = le_nat ls + le_nat rs + unat carry"
  using assms
proof (induction ls rs carry arbitrary: out rule: add_loop.induct)
  case (1 l ls r rs carry)
  let ?w = "ucast l + ucast r + carry :: u16"
  obtain rest where rest: "add_loop ls rs (drop_bit 8 ?w) = (rest, c)" "out = ucast ?w # rest"
    using 1(4) by (auto simp: Let_def split: prod.splits)
  note byte = add_byte [OF 1(3), of l r]
  have ih: "length rest = length ls \<and> unat c \<le> 1 \<and> le_nat rest + 256 ^ length ls * unat c = le_nat ls + le_nat rs + unat (drop_bit 8 ?w)"
    using 1(1) [OF refl _ byte(2) rest(1)] 1(2) by simp
  then have "256 * le_nat rest + 256 ^ Suc (length ls) * unat c = 256 * (le_nat ls + le_nat rs + unat (drop_bit 8 ?w))"
    by (simp add: algebra_simps)
  with byte(1) ih show ?case by (simp add: rest(2))
qed auto

lemma map2_mask:
  assumes "length xs = length ys"
  shows "map2 (\<lambda>r s. (r AND (0 - (if b then 1 else 0))) + (s AND NOT (0 - (if b then 1 else 0)))) xs ys = (if b then xs else (ys :: bytes))"
  using assms by (induction xs ys rule: list_induct2) auto

lemma scalar_add_number:
  assumes "length left = 32" "length right = 32" "be_nat left < be_nat SECP256K1_ORDER" "be_nat right < be_nat SECP256K1_ORDER"
  shows "length (scalar_add_mod_n left right) = 32"
    and "be_nat (scalar_add_mod_n left right) = (be_nat left + be_nat right) mod be_nat SECP256K1_ORDER"
proof -
  let ?n = "be_nat SECP256K1_ORDER"
  obtain rsum carry where a: "add_loop (rev left) (rev right) 0 = (rsum, carry)" by fastforce
  obtain reduced borrow where s: "subtract (rev rsum) SECP256K1_ORDER = (reduced, borrow)" by fastforce
  have A: "length rsum = 32" "unat carry \<le> 1" "be_nat (rev rsum) + 256 ^ 32 * unat carry = be_nat left + be_nat right"
    using add_loop_number [OF _ _ a] assms(1,2) by (simp_all add: be_nat_def)
  have S: "length reduced = 32" "unat borrow \<le> 1" "be_nat reduced + ?n = be_nat (rev rsum) + 256 ^ 32 * unat borrow"
    using subtract_number [OF _ s] A(1) order_facts(1) by simp_all
  have eq: "scalar_add_mod_n left right = (if carry \<noteq> 0 \<or> borrow = 0 then reduced else rev rsum)"
    unfolding scalar_add_mod_n_def Let_def a s prod.case using A(1) S(1) by (intro map2_mask) simp
  show "length (scalar_add_mod_n left right) = 32" using A(1) S(1) by (simp add: eq)
  have b: "be_nat reduced < 256 ^ 32" "be_nat (rev rsum) < 256 ^ 32" using be_nat_bound [of reduced] be_nat_bound [of "rev rsum"] A(1) S(1) by simp_all
  have c: "carry = 0 \<longleftrightarrow> unat carry = 0" "borrow = 0 \<longleftrightarrow> unat borrow = 0" by (simp_all add: unat_eq_0)
  show "be_nat (scalar_add_mod_n left right) = (be_nat left + be_nat right) mod ?n"
  proof (cases "be_nat left + be_nat right < ?n")
    case True
    then have "unat carry = 0" using A(3) order_facts(3) by (cases "unat carry = 0") auto
    moreover have "unat borrow \<noteq> 0" using S(3) A(3) True \<open>unat carry = 0\<close> by (intro notI) simp
    ultimately show ?thesis using A(3) True by (simp add: eq c)
  next
    case False
    then have m: "(be_nat left + be_nat right) mod ?n = be_nat left + be_nat right - ?n"
      using assms(3,4) by (simp add: mod_if le_mod_geq)
    have "carry \<noteq> 0 \<or> borrow = 0"
    proof (rule ccontr)
      assume "\<not> (carry \<noteq> 0 \<or> borrow = 0)"
      then have "unat carry = 0" "unat borrow = 1" using c S(2) by auto
      with A(3) S(3) b False show False by simp
    qed
    moreover have "unat carry = unat borrow"
      using A S b False assms(3,4) order_facts(3) by (cases "unat carry = 0"; cases "unat borrow = 0") auto
    ultimately show ?thesis unfolding eq m using A(3) S(3) by simp
  qed
qed

section \<open>What is relied on of the curve\<close>

definition curve_laws :: "('s, 'p) curve \<Rightarrow> bool" where
  "curve_laws cv \<longleftrightarrow>
     (\<forall>bs. length bs = 32 \<longrightarrow> (cv_scalar cv bs \<noteq> None \<longleftrightarrow> be_nat bs < be_nat SECP256K1_ORDER))
     \<and> (\<forall>bs. length bs = 32 \<longrightarrow> cv_secret cv bs = (if be_nat bs = 0 then None else cv_scalar cv bs))
     \<and> (\<forall>a b c sa sb sc. length a = 32 \<and> length b = 32 \<and> length c = 32
          \<and> be_nat c = (be_nat a + be_nat b) mod be_nat SECP256K1_ORDER
          \<and> cv_scalar cv a = Some sa \<and> cv_scalar cv b = Some sb \<and> cv_scalar cv c = Some sc \<longrightarrow>
          cv_mul_g cv sc = cv_add cv (cv_mul_g cv sa) (cv_mul_g cv sb))
     \<and> (\<forall>a s. length a = 32 \<and> cv_scalar cv a = Some s \<longrightarrow> (cv_is_identity cv (cv_mul_g cv s) \<longleftrightarrow> be_nat a = 0))
     \<and> (\<forall>p. \<not> cv_is_identity cv p \<longrightarrow> cv_decode cv (cv_encode cv p) = Some p \<and> length (cv_encode cv p) = 33)"

lemma curve_scalar: "curve_laws cv \<Longrightarrow> length bs = 32 \<Longrightarrow> cv_scalar cv bs = None \<longleftrightarrow> \<not> be_nat bs < be_nat SECP256K1_ORDER"
  unfolding curve_laws_def by blast

lemma curve_secret: "curve_laws cv \<Longrightarrow> length bs = 32 \<Longrightarrow> cv_secret cv bs = (if be_nat bs = 0 then None else cv_scalar cv bs)"
  unfolding curve_laws_def by blast

lemma curve_additive:
  "curve_laws cv \<Longrightarrow> length a = 32 \<Longrightarrow> length b = 32 \<Longrightarrow> length c = 32 \<Longrightarrow>
   be_nat c = (be_nat a + be_nat b) mod be_nat SECP256K1_ORDER \<Longrightarrow>
   cv_scalar cv a = Some sa \<Longrightarrow> cv_scalar cv b = Some sb \<Longrightarrow> cv_scalar cv c = Some sc \<Longrightarrow>
   cv_add cv (cv_mul_g cv sa) (cv_mul_g cv sb) = cv_mul_g cv sc"
  unfolding curve_laws_def by metis

lemma curve_identity: "curve_laws cv \<Longrightarrow> length a = 32 \<Longrightarrow> cv_scalar cv a = Some s \<Longrightarrow> cv_is_identity cv (cv_mul_g cv s) \<longleftrightarrow> be_nat a = 0"
  unfolding curve_laws_def by blast

lemma curve_encode: "curve_laws cv \<Longrightarrow> \<not> cv_is_identity cv p \<Longrightarrow> cv_decode cv (cv_encode cv p) = Some p \<and> length (cv_encode cv p) = 33"
  unfolding curve_laws_def by blast

lemma length_hmac [simp]: "\<forall>m. length (sha512 m) = 64 \<Longrightarrow> length (hmac_sha512 sha512 key message) = 64"
  by (simp add: hmac_sha512_def Let_def)

lemma public_key_cases:
  assumes "curve_laws cv" "length (xk_key k) = 32"
  obtains (invalid) "public_key_compressed cv k = Err BipCurveError"
  | (valid) s where "cv_scalar cv (xk_key k) = Some s" "cv_secret cv (xk_key k) = Some s" "be_nat (xk_key k) \<noteq> 0"
      "be_nat (xk_key k) < be_nat SECP256K1_ORDER" "\<not> cv_is_identity cv (cv_mul_g cv s)"
      "public_key_compressed cv k = Ok (cv_encode cv (cv_mul_g cv s))"
proof (cases "cv_secret cv (xk_key k)")
  case None
  then show ?thesis using that(1) by (simp add: public_key_compressed_def)
next
  case (Some s)
  then have "cv_scalar cv (xk_key k) = Some s" "be_nat (xk_key k) \<noteq> 0"
    using curve_secret [OF assms] by (auto split: if_splits)
  then show ?thesis using that(2) Some curve_scalar [OF assms] curve_identity [OF assms(1,2)]
    by (simp add: public_key_compressed_def)
qed

lemma child_agrees:
  assumes laws: "curve_laws cv" and h: "\<forall>m. length (sha512 m) = 64" and l: "length (xk_key parent) = 32"
    and normal: "index AND HARDENED_BIT = 0"
  shows "rbind (derive_child cv sha512 parent index) (to_xpub cv) =
         rbind (to_xpub cv parent) (\<lambda>p. derive_child_pub cv sha512 p index)"
proof (cases rule: public_key_cases [OF laws l, case_names invalid valid])
  case invalid
  then show ?thesis using normal by (simp add: derive_child_def to_xpub_def)
next
  case (valid s)
  let ?pub = "cv_encode cv (cv_mul_g cv s)"
  let ?i = "hmac_sha512 sha512 (xk_chain_code parent) (?pub @ u32_to_be index)"
  have il: "length (take 32 ?i) = 32" using h by simp
  note scalar = curve_scalar [OF laws il] and less = is_less_than_order_iff [OF il]
  show ?thesis
  proof (cases "is_less_than_order (take 32 ?i)")
    case False
    then show ?thesis using normal valid
      by (simp add: derive_child_def to_xpub_def derive_child_pub_def child_public_scalar_def scalar_and_chain_code_def Let_def)
  next
    case True
    then obtain t where t: "cv_scalar cv (take 32 ?i) = Some t" using scalar less by auto
    let ?child = "scalar_add_mod_n (take 32 ?i) (xk_key parent)"
    have lt: "be_nat (take 32 ?i) < be_nat SECP256K1_ORDER" using True less by simp
    note sum = scalar_add_number [OF il l lt valid(4)]
    obtain c where c: "cv_scalar cv ?child = Some c"
      using curve_scalar [OF laws sum(1)] sum(2) order_facts(2) by auto
    have add: "cv_add cv (cv_mul_g cv t) (cv_mul_g cv s) = cv_mul_g cv c"
      by (rule curve_additive [OF laws il l sum t valid(1) c])
    have identity: "cv_is_identity cv (cv_mul_g cv c) \<longleftrightarrow> is_zero ?child"
      using curve_identity [OF laws sum(1) c] by (simp add: is_zero_iff)
    have secret: "cv_secret cv ?child = (if is_zero ?child then None else Some c)"
      using curve_secret [OF laws sum(1)] c by (simp add: is_zero_iff)
    have dec: "cv_decode cv ?pub = Some (cv_mul_g cv s)" using curve_encode [OF laws valid(5)] by simp
    show ?thesis
      using normal valid True t add identity secret dec curve_encode [OF laws, of "cv_mul_g cv c"]
      by (auto simp: derive_child_def to_xpub_def derive_child_pub_def child_public_scalar_def scalar_and_chain_code_def
          Let_def decode_parent_point_def validate_child_point_def encode_child_point_def public_key_compressed_def)
  qed
qed

lemma child_key_length:
  assumes "curve_laws cv" "\<forall>m. length (sha512 m) = 64" "length (xk_key parent) = 32" "index AND HARDENED_BIT = 0"
    "derive_child cv sha512 parent index = Ok child"
  shows "length (xk_key child) = 32"
proof (cases rule: public_key_cases [OF assms(1,3), case_names invalid valid])
  case (valid s)
  let ?i = "hmac_sha512 sha512 (xk_chain_code parent) (cv_encode cv (cv_mul_g cv s) @ u32_to_be index)"
  have il: "length (take 32 ?i) = 32" using assms(2) by simp
  then show ?thesis
    using assms(4,5) valid scalar_add_number(1) [OF il assms(3) _ valid(4)] is_less_than_order_iff [OF il]
    by (auto simp: derive_child_def Let_def split: if_splits)
qed (use assms(4,5) in \<open>simp add: derive_child_def\<close>)

section \<open>Properties\<close>

text \<open>
  (C15) Watching wallets derive the keys of the signer. For every extended private key and every normal index, deriving the
  child and publishing it gives exactly what public derivation gives from the published parent, errors included; and so
  does deriving an address key of an account from its published key. Holders of an account's public key therefore
  compute exactly the addresses its private key can sign for.
\<close>

theorem public_derivation_matches:
  assumes "curve_laws cv" and "\<forall>m. length (sha512 m) = 64" and "length (xk_key parent) = 32"
    and "index AND HARDENED_BIT = 0"
  shows "rbind (derive_child cv sha512 parent index) (to_xpub cv) =
           rbind (to_xpub cv parent) (\<lambda>p. derive_child_pub cv sha512 p index)
    \<and> rbind (derive_address_key cv sha512 parent index) (to_xpub cv) =
           rbind (to_xpub cv parent) (\<lambda>p. rbind (derive_child_pub cv sha512 p 0) (\<lambda>q. derive_child_pub cv sha512 q index))"
proof -
  note child = child_agrees [OF assms(1,2)]
  have zero: "0 AND HARDENED_BIT = 0" by simp
  have "rbind (derive_address_key cv sha512 parent index) (to_xpub cv) =
      rbind (derive_child cv sha512 parent 0) (\<lambda>k. rbind (to_xpub cv k) (\<lambda>q. derive_child_pub cv sha512 q index))"
  proof (cases "derive_child cv sha512 parent 0")
    case (Inr k)
    then show ?thesis using child [OF child_key_length [OF assms(1,2,3) zero Inr] assms(4)] by (simp add: derive_address_key_def)
  qed (simp add: derive_address_key_def)
  also have "\<dots> = rbind (to_xpub cv parent) (\<lambda>p. rbind (derive_child_pub cv sha512 p 0) (\<lambda>q. derive_child_pub cv sha512 q index))"
    using child [OF assms(3) zero] by (simp flip: rbind_assoc)
  finally show ?thesis using child [OF assms(3,4)] by blast
qed

text \<open>A group of the right order, written as numbers, to run the derivations on.\<close>

definition number_curve :: "(nat, 256 word) curve" where
  "number_curve = \<lparr>
     cv_scalar = (\<lambda>bs. if be_nat bs < be_nat SECP256K1_ORDER then Some (be_nat bs) else None),
     cv_secret = (\<lambda>bs. if be_nat bs \<noteq> 0 \<and> be_nat bs < be_nat SECP256K1_ORDER then Some (be_nat bs) else None),
     cv_scalar_add = (\<lambda>a b. (a + b) mod be_nat SECP256K1_ORDER),
     cv_scalar_neg = (\<lambda>a. (be_nat SECP256K1_ORDER - a) mod be_nat SECP256K1_ORDER),
     cv_scalar_bytes = (\<lambda>a. rev (le_bytes 32 a)),
     cv_mul_g = word_of_nat,
     cv_add = (\<lambda>p q. word_of_nat ((unat p + unat q) mod be_nat SECP256K1_ORDER)),
     cv_is_identity = (\<lambda>p. p = 0),
     cv_decode = (\<lambda>bs. Some (word_of_nat (be_nat (drop 1 bs)))),
     cv_encode = (\<lambda>p. 0x02 # rev (le_bytes 32 (unat p)))\<rparr>"

lemma number_point:
  shows "a < be_nat SECP256K1_ORDER \<Longrightarrow> unat (word_of_nat a :: 256 word) = a"
    and "a < be_nat SECP256K1_ORDER \<Longrightarrow> word_of_nat a = (0 :: 256 word) \<longleftrightarrow> a = 0"
    and "word_of_nat (be_nat (rev (le_bytes 32 (unat p)))) = (p :: 256 word)"
proof -
  show small: "unat (word_of_nat a :: 256 word) = a" if "a < be_nat SECP256K1_ORDER" for a
  proof -
    have "a < 256 ^ 32" using that order_facts(3) by (rule less_trans)
    then show ?thesis by (simp add: unat_of_nat take_bit_eq_mod)
  qed
  show "word_of_nat a = (0 :: 256 word) \<longleftrightarrow> a = 0" if "a < be_nat SECP256K1_ORDER"
  proof
    assume h: "word_of_nat a = (0 :: 256 word)"
    show "a = 0" using small [OF that] unfolding h by simp
  qed simp
  have "unat p < 256 ^ 32" using unat_bound [of p] by simp
  then have "be_nat (rev (le_bytes 32 (unat p))) = unat p" by (simp add: be_nat_def le_nat_le_bytes)
  then show "word_of_nat (be_nat (rev (le_bytes 32 (unat p)))) = p" by simp
qed

lemma number_curve_laws: "curve_laws number_curve"
proof -
  let ?n = "be_nat SECP256K1_ORDER" and ?cv = number_curve
  have scalar: "cv_scalar ?cv bs = Some s \<longleftrightarrow> be_nat bs < ?n \<and> s = be_nat bs" for bs s
    by (auto simp: number_curve_def)
  have "\<forall>bs. length bs = 32 \<longrightarrow> (cv_scalar ?cv bs \<noteq> None \<longleftrightarrow> be_nat bs < ?n)"
    "\<forall>bs. length bs = 32 \<longrightarrow> cv_secret ?cv bs = (if be_nat bs = 0 then None else cv_scalar ?cv bs)"
    by (simp_all add: number_curve_def)
  moreover have "cv_mul_g ?cv sc = cv_add ?cv (cv_mul_g ?cv sa) (cv_mul_g ?cv sb)"
    if "be_nat c = (be_nat a + be_nat b) mod ?n" "cv_scalar ?cv a = Some sa" "cv_scalar ?cv b = Some sb"
      "cv_scalar ?cv c = Some sc" for a b c sa sb sc
    using that(1) that(2-4) [unfolded scalar] number_point(1) [of "be_nat a"] number_point(1) [of "be_nat b"]
    by (simp add: number_curve_def)
  moreover have "cv_is_identity ?cv (cv_mul_g ?cv s) \<longleftrightarrow> be_nat a = 0" if "cv_scalar ?cv a = Some s" for a s
    using that [unfolded scalar] number_point(2) [of "be_nat a"] by (simp add: number_curve_def)
  moreover have "cv_decode ?cv (cv_encode ?cv p) = Some p \<and> length (cv_encode ?cv p) = 33" for p
    using number_point(3) [of p] by (simp add: number_curve_def)
  ultimately show ?thesis unfolding curve_laws_def by blast
qed

definition sample_parent :: extended_priv_key where
  "sample_parent = \<lparr>xk_key = replicate 32 1, xk_chain_code = replicate 32 2, xk_depth = 3\<rparr>"

theorem public_derivation_matches_witness:
  "rbind (derive_child number_curve (\<lambda>m. replicate 64 7) sample_parent 5) (to_xpub number_curve) =
     rbind (to_xpub number_curve sample_parent) (\<lambda>p. derive_child_pub number_curve (\<lambda>m. replicate 64 7) p 5)"
  using public_derivation_matches [OF number_curve_laws, of "\<lambda>m. replicate 64 7" sample_parent 5]
  by (simp add: sample_parent_def HARDENED_BIT_def)

text \<open>
  The resumable derivation of an account key gives, after its three steps, the key that the derivation of the whole path
  gives, and the same error where that fails.
\<close>

theorem resumable_derivation:
  "derive_account_key cv sha512 seed =
     rbind (akd_new sha512 seed) (\<lambda>d0.
       let (r1, d1) = advance_one cv sha512 d0 in rbind r1 (\<lambda>_.
       let (r2, d2) = advance_one cv sha512 d1 in rbind r2 (\<lambda>_.
       let (r3, d3) = advance_one cv sha512 d2 in rbind r3 (\<lambda>_. akd_finish d3))))"
  by (auto simp: derive_account_key_def derive_path_def akd_new_def advance_one_def akd_is_complete_def akd_finish_def
      KASPA_ACCOUNT_PATH_def rbind_assoc Let_def split: sum.split
      intro!: arg_cong [of _ _ "rbind _"] ext)

text \<open>The reference search: the first match of the receive chain, otherwise the first of the change chain.\<close>

definition scan_chains :: "('s, 'p) curve \<Rightarrow> (bytes \<Rightarrow> bytes) \<Rightarrow> extended_priv_key \<Rightarrow> nat \<Rightarrow> bytes \<Rightarrow> (nat \<times> bool) option" where
  "scan_chains cv sha512 account depth target =
     (case find (\<lambda>idx. chain_xonly cv sha512 account False idx = Some target) [0..<depth] of
        Some idx \<Rightarrow> Some (idx, False)
      | None \<Rightarrow> map_option (\<lambda>idx. (idx, True)) (find (\<lambda>idx. chain_xonly cv sha512 account True idx = Some target) [0..<depth]))"

lemma find_upt: "find P [0..<n] = Some i \<longleftrightarrow> i < n \<and> P i \<and> \<not> (\<exists>j<i. P j)"
  by (auto simp: find_Some_iff)

lemma scan_chains_Some:
  "scan_chains cv sha512 account depth target = Some (idx, c) \<longleftrightarrow>
     idx < depth \<and> chain_xonly cv sha512 account c idx = Some target
     \<and> \<not> (\<exists>j<idx. chain_xonly cv sha512 account c j = Some target)
     \<and> (if c then \<not> (\<exists>j<depth. chain_xonly cv sha512 account False j = Some target) else True)"
proof (cases "find (\<lambda>idx. chain_xonly cv sha512 account False idx = Some target) [0..<depth]")
  case None
  then have "\<not> (\<exists>j<depth. chain_xonly cv sha512 account False j = Some target)" by (auto simp: find_None_iff)
  then show ?thesis using None by (cases c) (auto simp: scan_chains_def find_upt)
next
  case (Some i)
  then have "\<exists>j<depth. chain_xonly cv sha512 account False j = Some target" by (auto simp: find_upt)
  moreover have "scan_chains cv sha512 account depth target = Some (idx, False) \<longleftrightarrow>
      find (\<lambda>idx. chain_xonly cv sha512 account False idx = Some target) [0..<depth] = Some idx"
    using Some by (auto simp: scan_chains_def)
  moreover have "scan_chains cv sha512 account depth target \<noteq> Some (idx, True)" using Some by (auto simp: scan_chains_def)
  ultimately show ?thesis by (cases c) (simp_all only: find_upt if_True if_False simp_thms)
qed

definition chain_entries :: "('s, 'p) curve \<Rightarrow> (bytes \<Rightarrow> bytes) \<Rightarrow> extended_priv_key \<Rightarrow> bool \<Rightarrow> nat list \<Rightarrow> (bool \<times> nat \<times> bytes) list" where
  "chain_entries cv sha512 account c idxs =
     List.map_filter (\<lambda>i. map_option (\<lambda>pk. (c, i, pk)) (chain_xonly cv sha512 account c i)) idxs"

lemma table_fold:
  assumes "at_filled tbl + length idxs \<le> length (at_entries tbl)"
    "foldl (table_step cv sha512 account c) tbl idxs = tbl'"
  shows "take (at_filled tbl') (at_entries tbl') = take (at_filled tbl) (at_entries tbl) @ chain_entries cv sha512 account c idxs
    \<and> at_filled tbl' \<le> at_filled tbl + length idxs \<and> length (at_entries tbl') = length (at_entries tbl)"
  using assms
proof (induction idxs arbitrary: tbl)
  case (Cons i idxs)
  let ?t = "table_step cv sha512 account c tbl i"
  have step: "take (at_filled ?t) (at_entries ?t) = take (at_filled tbl) (at_entries tbl) @ chain_entries cv sha512 account c [i]"
    "at_filled ?t \<le> Suc (at_filled tbl)" "length (at_entries ?t) = length (at_entries tbl)"
    using Cons.prems(1) by (auto simp: table_step_def chain_entries_def List.map_filter_simps take_Suc_conv_app_nth split: option.splits)
  have "chain_entries cv sha512 account c (i # idxs) = chain_entries cv sha512 account c [i] @ chain_entries cv sha512 account c idxs"
    by (simp add: chain_entries_def List.map_filter_simps split: option.splits)
  then show ?case using Cons.IH [of ?t] Cons.prems step by simp
qed (simp add: chain_entries_def List.map_filter_simps)

lemma find_append: "find P (xs @ ys) = (case find P xs of None \<Rightarrow> find P ys | Some x \<Rightarrow> Some x)"
  by (induction xs) auto

lemma find_chain_entries:
  "find (\<lambda>e. snd (snd e) = target) (chain_entries cv sha512 account c idxs) =
     map_option (\<lambda>i. (c, i, target)) (find (\<lambda>i. chain_xonly cv sha512 account c i = Some target) idxs)"
  by (induction idxs) (auto simp: chain_entries_def List.map_filter_simps split: option.splits)

lemma find_address_scan:
  "find_address_index_for_pubkey cv sha512 account target = scan_chains cv sha512 account 100 target"
  by (simp add: find_address_index_for_pubkey_def scan_chains_def SIGN_MATCH_DEPTH_def split: option.splits)

lemma table_scan:
  "find_by_pubkey (table_build cv sha512 account) target = scan_chains cv sha512 account 20 target"
proof -
  let ?t0 = "\<lparr>at_entries = replicate (ADDR_SCAN_DEPTH * 2) (False, 0, replicate 32 0), at_filled = 0\<rparr>"
  let ?t1 = "foldl (table_step cv sha512 account False) ?t0 [0..<ADDR_SCAN_DEPTH]"
  let ?t2 = "foldl (table_step cv sha512 account True) ?t1 [0..<ADDR_SCAN_DEPTH]"
  have one: "take (at_filled ?t1) (at_entries ?t1) = chain_entries cv sha512 account False [0..<20]"
    "at_filled ?t1 \<le> 20" "length (at_entries ?t1) = 40"
    using table_fold [of ?t0 "[0..<ADDR_SCAN_DEPTH]" cv sha512 account False ?t1] by (simp_all add: ADDR_SCAN_DEPTH_def)
  have "take (at_filled ?t2) (at_entries ?t2) = chain_entries cv sha512 account False [0..<20] @ chain_entries cv sha512 account True [0..<20]"
    using table_fold [of ?t1 "[0..<ADDR_SCAN_DEPTH]" cv sha512 account True ?t2] one by (simp add: ADDR_SCAN_DEPTH_def)
  then show ?thesis
    by (simp add: find_by_pubkey_def table_build_def Let_def find_append find_chain_entries scan_chains_def
        option.map_comp comp_def split: option.splits)
qed

text \<open>
  The search for the index of a key. Scanning an account and looking the key up in the precomputed table both find the
  first index of the receive chain, and only where it has none the first of the change chain, that derives the key: the
  scan among the first 100 indices, the table among the first 20.
\<close>

theorem address_search_exact:
  "(find_address_index_for_pubkey cv sha512 account target = Some (idx, c) \<longleftrightarrow>
      idx < 100 \<and> chain_xonly cv sha512 account c idx = Some target
      \<and> \<not> (\<exists>j<idx. chain_xonly cv sha512 account c j = Some target)
      \<and> (if c then \<not> (\<exists>j<100. chain_xonly cv sha512 account False j = Some target) else True))
   \<and> (find_by_pubkey (table_build cv sha512 account) target = Some (idx, c) \<longleftrightarrow>
      idx < 20 \<and> chain_xonly cv sha512 account c idx = Some target
      \<and> \<not> (\<exists>j<idx. chain_xonly cv sha512 account c j = Some target)
      \<and> (if c then \<not> (\<exists>j<20. chain_xonly cv sha512 account False j = Some target) else True))"
  unfolding find_address_scan table_scan by (simp only: scan_chains_Some)

end
