(* ===== verification/Kspt_Context.thy ===== *)
theory Kspt_Context
  imports Kssn Sig_Verify Bip32
begin

text \<open>
  Keys and signature slots of the KSPT signers (\<open>transaction/interchange/kspt/signing/context.rs\<close>, \<open>signature_state.rs\<close>,
  \<open>p2pk.rs\<close>, the shared part of \<open>mod.rs\<close>, and \<open>crypto/schnorr.rs\<close> as far as the signers call it). The record
  \<open>signer_env\<close> holds the third-party operations: the curve, SHA-512, SHA-256, the keyed hash, BIP-340 signing with
  auxiliary randomness, and the allocator. Wiping of keys and watchdog callbacks are left out.
\<close>

section \<open>The environment and signature slots\<close>

record ('s, 'p) signer_env =
  se_curve :: "('s, 'p) curve"
  se_sha512 :: "bytes \<Rightarrow> bytes"
  se_sha256 :: "bytes \<Rightarrow> bytes"
  se_keyed :: "bytes \<Rightarrow> bytes \<Rightarrow> bytes"
  se_sign_aux :: "bytes \<Rightarrow> bytes \<Rightarrow> bytes \<Rightarrow> unit + bytes"
  se_reserve :: "nat \<Rightarrow> bool"

definition schnorr_sign :: "('s, 'p) signer_env \<Rightarrow> bytes \<Rightarrow> bytes \<Rightarrow> unit + bytes" where
  "schnorr_sign env private_key message = se_sign_aux env private_key message (replicate 32 0)"

definition sign_input_with_optional_entropy ::
  "('s, 'p) signer_env \<Rightarrow> transaction \<Rightarrow> nat \<Rightarrow> bytes \<Rightarrow> sighash_type \<Rightarrow> bytes option \<Rightarrow> pskt_error + bytes" where
  "sign_input_with_optional_entropy env tx input_index private_key t signing_entropy =
     map_err (\<lambda>_. PeSigningFailed)
       (case signing_entropy of
          Some entropy \<Rightarrow>
            sign_input_with_entropy (se_keyed env) (se_sha256 env) (se_sign_aux env) tx input_index private_key t entropy
        | None \<Rightarrow> sign_input (se_keyed env) (schnorr_sign env) tx input_index private_key t)"

definition has_pubkey_position :: "transaction_input \<Rightarrow> u8 \<Rightarrow> bool" where
  "has_pubkey_position inp pos \<longleftrightarrow>
     list_ex (\<lambda>slot. is_present slot \<and> is_pubkey_pos slot = pos)
       (take (min (unat (ti_sig_count inp)) MAX_SIGS_PER_INPUT) (ti_sigs inp))"

definition set_single_signature :: "bytes \<Rightarrow> u8 \<Rightarrow> u8 \<Rightarrow> bytes \<Rightarrow> transaction_input \<Rightarrow> transaction_input" where
  "set_single_signature sig t pos compressed_public_key inp =
     inp\<lparr>ti_sigs := (ti_sigs inp ! 0)\<lparr>is_signature := sig, is_sighash_type := t, is_pubkey_pos := pos, is_present := True,
            is_pubkey_compressed := compressed_public_key\<rparr>
          # map (\<lambda>slot. slot\<lparr>is_present := False\<rparr>) (drop 1 (ti_sigs inp)),
         ti_sig_count := 1, ti_sighash_type := t\<rparr>"

definition append_signature :: "bytes \<Rightarrow> u8 \<Rightarrow> u8 \<Rightarrow> bytes \<Rightarrow> transaction_input \<Rightarrow> bool \<times> transaction_input" where
  "append_signature sig t pos compressed_public_key inp =
     (if has_pubkey_position inp pos then (False, inp)
      else let slot_index = unat (ti_sig_count inp) in
        if slot_index \<ge> MAX_SIGS_PER_INPUT then (False, inp)
        else if slot_index \<noteq> 0 \<and> ti_sighash_type inp \<noteq> t then (False, inp)
        else (True,
          inp\<lparr>ti_sighash_type := (if slot_index = 0 then t else ti_sighash_type inp),
              ti_sigs := (ti_sigs inp)[slot_index := (ti_sigs inp ! slot_index)\<lparr>is_signature := sig, is_sighash_type := t,
                 is_pubkey_pos := pos, is_present := True, is_pubkey_compressed := compressed_public_key\<rparr>],
              ti_sig_count := ti_sig_count inp + 1\<rparr>))"

section \<open>Pay-to-key inputs\<close>

definition xonly_from_script :: "script_public_key \<Rightarrow> bytes option" where
  "xonly_from_script script =
     (if spk_script_len script = 34 \<and> spk_script script ! 0 = 0x20 \<and> spk_script script ! 33 = 0xac
      then Some (take 32 (drop 1 (spk_script script))) else None)"

definition ensure_input_index :: "transaction \<Rightarrow> nat \<Rightarrow> pskt_error + unit" where
  "ensure_input_index tx input_index =
     rbind (ok_or (get_at (tx_input_slots tx) input_index) PeInvalidInputIndex) (\<lambda>_.
     if input_index \<ge> tx_num_inputs tx then Err PeInvalidInputIndex else Ok ())"

definition input_spk :: "transaction \<Rightarrow> nat \<Rightarrow> script_public_key" where
  "input_spk tx input_index = tu_script_public_key (ti_utxo_entry (tx_input_slots tx ! input_index))"

definition checked_target :: "transaction \<Rightarrow> nat \<Rightarrow> pskt_error + bytes option" where
  "checked_target tx input_index =
     rbind (validate_base_transaction tx) (\<lambda>_.
     rbind (ensure_input_index tx input_index) (\<lambda>_.
     Ok (xonly_from_script (input_spk tx input_index))))"

section \<open>The keys of a signing session\<close>

definition MAX_SEED_SLOTS :: nat where "MAX_SEED_SLOTS = 8"

record signing_key_material =
  km_private_key :: bytes
  km_compressed_public_key :: bytes

record signing_context =
  sc_num_seeds :: nat
  sc_account_keys :: "extended_priv_key option list"
  sc_account_xonly :: "bytes option list"
  sc_account_compressed :: "bytes option list"
  sc_address_tables :: "addr_pubkey_table list option list"
  sc_ms45_account_keys :: "extended_priv_key option list"
  sc_kip22_account_keys :: "extended_priv_key option list"

definition context_empty :: "nat \<Rightarrow> signing_context" where
  "context_empty num_seeds =
     \<lparr>sc_num_seeds = min num_seeds MAX_SEED_SLOTS, sc_account_keys = replicate 8 None, sc_account_xonly = replicate 8 None,
      sc_account_compressed = replicate 8 None, sc_address_tables = replicate 8 None, sc_ms45_account_keys = replicate 8 None,
      sc_kip22_account_keys = replicate (min num_seeds MAX_SEED_SLOTS) None\<rparr>"

definition install_account :: "('s, 'p) signer_env \<Rightarrow> nat \<Rightarrow> extended_priv_key \<Rightarrow> signing_context \<Rightarrow> signing_context" where
  "install_account env index account c =
     (if index \<ge> sc_num_seeds c then c
      else case public_key_compressed (se_curve env) account of
        Inl _ \<Rightarrow> c
      | Inr compressed \<Rightarrow>
          c\<lparr>sc_account_xonly := (sc_account_xonly c)[index := Some (take 32 (drop 1 compressed))],
            sc_account_compressed := (sc_account_compressed c)[index := Some compressed],
            sc_account_keys := (sc_account_keys c)[index := Some account]\<rparr>)"

definition install_seed :: "('s, 'p) signer_env \<Rightarrow> signing_context \<Rightarrow> nat \<times> bytes \<times> bool \<Rightarrow> signing_context" where
  "install_seed env c = (\<lambda>(index, seed, present).
     if \<not> present then c
     else
       let c = (case derive_account_key (se_curve env) (se_sha512 env) seed of
                  Inl _ \<Rightarrow> c | Inr account \<Rightarrow> install_account env index account c);
           c = (case derive_multisig_account_key (se_curve env) (se_sha512 env) seed 0 of
                  Inl _ \<Rightarrow> c
                | Inr account \<Rightarrow> c\<lparr>sc_ms45_account_keys := (sc_ms45_account_keys c)[index := Some account]\<rparr>)
       in (case kip22_derive_account_key (se_curve env) (se_sha512 env) seed 0 of
             Inl _ \<Rightarrow> c
           | Inr account \<Rightarrow> c\<lparr>sc_kip22_account_keys := (sc_kip22_account_keys c)[index := Some account]\<rparr>))"

definition from_seeds :: "('s, 'p) signer_env \<Rightarrow> (bytes \<times> bool) list \<Rightarrow> signing_context" where
  "from_seeds env seeds =
     foldl (install_seed env) (context_empty (length seeds)) (enumerate 0 (take MAX_SEED_SLOTS seeds))"

definition from_account_raw :: "('s, 'p) signer_env \<Rightarrow> (bytes \<times> bool) list \<Rightarrow> signing_context" where
  "from_account_raw env accounts =
     foldl (\<lambda>c (index, raw, present). if present then install_account env index (xk_from_raw raw) c else c)
       (context_empty (length accounts)) (enumerate 0 (take MAX_SEED_SLOTS accounts))"

definition from_account_sets :: "('s, 'p) signer_env \<Rightarrow> (bytes \<times> bool) list \<Rightarrow> (bytes \<times> bool) list \<Rightarrow> signing_context" where
  "from_account_sets env accounts ms45_accounts =
     foldl (\<lambda>c (index, raw, present).
         if \<not> present then c
         else if index \<ge> sc_num_seeds c then c
         else c\<lparr>sc_ms45_account_keys := (sc_ms45_account_keys c)[index := Some (xk_from_raw raw)]\<rparr>)
       (from_account_raw env accounts) (enumerate 0 (take MAX_SEED_SLOTS ms45_accounts))"

text \<open>\<open>get(index).copied().flatten()\<close>.\<close>

definition flat_at :: "'a option list \<Rightarrow> nat \<Rightarrow> 'a option" where
  "flat_at xs i = Option.bind (get_at xs i) (\<lambda>x. x)"

definition context_account_xonly :: "signing_context \<Rightarrow> nat \<Rightarrow> bytes option" where
  "context_account_xonly c seed_index = flat_at (sc_account_xonly c) seed_index"

definition key_material :: "('s, 'p) signer_env \<Rightarrow> extended_priv_key \<Rightarrow> signing_key_material option" where
  "key_material env key =
     (case public_key_compressed (se_curve env) key of
        Inl _ \<Rightarrow> None
      | Inr compressed \<Rightarrow> Some \<lparr>km_private_key = xk_key key, km_compressed_public_key = compressed\<rparr>)"

definition ms45_material :: "('s, 'p) signer_env \<Rightarrow> signing_context \<Rightarrow> nat \<Rightarrow> ms45_hint \<Rightarrow> signing_key_material option" where
  "ms45_material env c seed_index hint =
     (if \<not> mh_present hint \<or> mh_chain hint > 1 then None
      else Option.bind (flat_at (sc_ms45_account_keys c) seed_index) (\<lambda>account.
        case derive_multisig_address_key (se_curve env) (se_sha512 env) account (mh_cosigner hint) (mh_chain hint) (mh_index hint) of
          Inl _ \<Rightarrow> None
        | Inr child \<Rightarrow> key_material env child))"

definition account_material :: "signing_context \<Rightarrow> nat \<Rightarrow> signing_key_material option" where
  "account_material c seed_index =
     Option.bind (flat_at (sc_account_keys c) seed_index) (\<lambda>account.
     Option.bind (flat_at (sc_account_compressed c) seed_index) (\<lambda>compressed.
     Some \<lparr>km_private_key = xk_key account, km_compressed_public_key = compressed\<rparr>))"

definition chain_key :: "('s, 'p) signer_env \<Rightarrow> extended_priv_key \<Rightarrow> nat \<times> bool \<Rightarrow> signing_key_material option" where
  "chain_key env account = (\<lambda>(address_index, is_change).
     case (if is_change then derive_change_key (se_curve env) (se_sha512 env) account (word_of_nat address_index)
           else derive_address_key (se_curve env) (se_sha512 env) account (word_of_nat address_index)) of
       Inl _ \<Rightarrow> None
     | Inr key \<Rightarrow> key_material env key)"

definition scanned_material :: "('s, 'p) signer_env \<Rightarrow> extended_priv_key \<Rightarrow> bytes \<Rightarrow> signing_key_material option" where
  "scanned_material env account target_xonly =
     Option.bind (find_address_index_for_pubkey (se_curve env) (se_sha512 env) account target_xonly) (chain_key env account)"

definition direct_address_material :: "('s, 'p) signer_env \<Rightarrow> signing_context \<Rightarrow> nat \<Rightarrow> bytes \<Rightarrow> signing_key_material option" where
  "direct_address_material env c seed_index target_xonly =
     Option.bind (flat_at (sc_account_keys c) seed_index) (\<lambda>account. scanned_material env account target_xonly)"

definition kip22_material :: "('s, 'p) signer_env \<Rightarrow> signing_context \<Rightarrow> nat \<Rightarrow> bytes \<Rightarrow> signing_key_material option" where
  "kip22_material env c seed_index target_xonly =
     Option.bind (flat_at (sc_kip22_account_keys c) seed_index) (\<lambda>account. scanned_material env account target_xonly)"

definition ensure_address_table :: "('s, 'p) signer_env \<Rightarrow> signing_context \<Rightarrow> nat \<Rightarrow> unit option \<times> signing_context" where
  "ensure_address_table env c seed_index =
     (if seed_index \<ge> sc_num_seeds c then (None, c)
      else if sc_address_tables c ! seed_index = None
      then (case sc_account_keys c ! seed_index of
              None \<Rightarrow> (None, c)
            | Some account \<Rightarrow>
                if \<not> se_reserve env 1 then (None, c)
                else (Some (), c\<lparr>sc_address_tables :=
                   (sc_address_tables c)[seed_index := Some [table_build (se_curve env) (se_sha512 env) account]]\<rparr>))
      else (Some (), c))"

definition derived_address_material :: "('s, 'p) signer_env \<Rightarrow> signing_context \<Rightarrow> nat \<Rightarrow> nat \<times> bool \<Rightarrow> signing_key_material option" where
  "derived_address_material env c seed_index address =
     Option.bind (sc_account_keys c ! seed_index) (\<lambda>account. chain_key env account address)"

definition cached_address_material ::
  "('s, 'p) signer_env \<Rightarrow> signing_context \<Rightarrow> nat \<Rightarrow> bytes \<Rightarrow> signing_key_material option \<times> signing_context" where
  "cached_address_material env c seed_index target_xonly =
     (case ensure_address_table env c seed_index of
        (None, c) \<Rightarrow> (None, c)
      | (Some _, c) \<Rightarrow>
          (Option.bind (sc_address_tables c ! seed_index) (\<lambda>tables.
           Option.bind (get_at tables 0) (\<lambda>tbl.
           Option.bind (find_by_pubkey tbl target_xonly) (derived_address_material env c seed_index))), c))"

text \<open>The search over all seeds of the firmware's finalizer.\<close>

fun matching_loop ::
  "('s, 'p) signer_env \<Rightarrow> nat list \<Rightarrow> signing_context \<Rightarrow> bytes \<Rightarrow> signing_key_material option \<times> signing_context" where
  "matching_loop env [] c target = (None, c)"
| "matching_loop env (seed_index # rest) c target =
     (if context_account_xonly c seed_index = Some target then (account_material c seed_index, c)
      else case cached_address_material env c seed_index target of
        (Some material, c) \<Rightarrow> (Some material, c)
      | (None, c) \<Rightarrow> matching_loop env rest c target)"

definition matching_material ::
  "('s, 'p) signer_env \<Rightarrow> signing_context \<Rightarrow> bytes \<Rightarrow> signing_key_material option \<times> signing_context" where
  "matching_material env c target = matching_loop env [0..<sc_num_seeds c] c target"

section \<open>Material belongs to its key\<close>

text \<open>Private and public half of the material fit, and the public key is the one that was asked for.\<close>

definition material_for :: "('s, 'p) signer_env \<Rightarrow> bytes \<Rightarrow> signing_key_material \<Rightarrow> bool" where
  "material_for env xonly m \<longleftrightarrow>
     (\<exists>s. cv_secret (se_curve env) (km_private_key m) = Some s
        \<and> km_compressed_public_key m = cv_encode (se_curve env) (cv_mul_g (se_curve env) s))
     \<and> take 32 (drop 1 (km_compressed_public_key m)) = xonly"

definition slot_ok ::
  "('s, 'p) signer_env \<Rightarrow> extended_priv_key option \<Rightarrow> bytes option \<Rightarrow> bytes option \<Rightarrow> addr_pubkey_table list option \<Rightarrow> bool" where
  "slot_ok env key xonly compressed tables \<longleftrightarrow>
     (case key of
        None \<Rightarrow> xonly = None \<and> tables = None
      | Some account \<Rightarrow>
          (\<exists>c. public_key_compressed (se_curve env) account = Ok c \<and> compressed = Some c \<and> xonly = Some (take 32 (drop 1 c)))
          \<and> tables \<in> {None, Some [table_build (se_curve env) (se_sha512 env) account]})"

definition context_ok :: "('s, 'p) signer_env \<Rightarrow> signing_context \<Rightarrow> bool" where
  "context_ok env c \<longleftrightarrow>
     sc_num_seeds c \<le> 8 \<and> length (sc_account_keys c) = 8 \<and> length (sc_account_xonly c) = 8
     \<and> length (sc_account_compressed c) = 8 \<and> length (sc_address_tables c) = 8
     \<and> (\<forall>i<8. slot_ok env (sc_account_keys c ! i) (sc_account_xonly c ! i) (sc_account_compressed c ! i)
              (sc_address_tables c ! i))"

lemma key_material_for: "key_material env key = Some m \<Longrightarrow> public_key_x_only (se_curve env) key = Ok xonly \<Longrightarrow> material_for env xonly m"
  by (auto simp: key_material_def public_key_x_only_def public_key_compressed_def material_for_def rbind_Inr_iff
      split: sum.splits option.splits)

lemma key_material_self: "key_material env key = Some m \<Longrightarrow> material_for env (take 32 (drop 1 (km_compressed_public_key m))) m"
  by (auto simp: key_material_def public_key_compressed_def material_for_def split: sum.splits option.splits)

lemma chain_key_for:
  assumes "chain_xonly (se_curve env) (se_sha512 env) account is_change idx = Some target"
    "chain_key env account (idx, is_change) = Some m"
  shows "material_for env target m"
  using assms by (auto simp: chain_xonly_def chain_key_def split: sum.splits if_splits intro: key_material_for)

lemma scanned_material_for: "scanned_material env account target = Some m \<Longrightarrow> material_for env target m"
  by (auto simp: scanned_material_def find_address_scan bind_eq_Some_conv scan_chains_Some intro: chain_key_for)

lemma direct_material_for: "direct_address_material env c i target = Some m \<Longrightarrow> material_for env target m"
  by (auto simp: direct_address_material_def bind_eq_Some_conv intro: scanned_material_for)

lemma kip22_material_for: "kip22_material env c i target = Some m \<Longrightarrow> material_for env target m"
  by (auto simp: kip22_material_def bind_eq_Some_conv intro: scanned_material_for)

lemma case_sum_Some: "(case r of Inl _ \<Rightarrow> None | Inr x \<Rightarrow> f x) = Some m \<longleftrightarrow> (\<exists>x. r = Inr x \<and> f x = Some m)"
  by (cases r) auto

lemma ms45_material_for: "ms45_material env c i hint = Some m \<Longrightarrow> material_for env (take 32 (drop 1 (km_compressed_public_key m))) m"
  by (auto simp: ms45_material_def bind_eq_Some_conv case_sum_Some split: if_splits dest!: key_material_self)

lemma context_slot:
  assumes "context_ok env c" "i < 8"
  obtains (empty) "sc_account_keys c ! i = None" "sc_account_xonly c ! i = None" "sc_address_tables c ! i = None"
  | (filled) account compressed where "sc_account_keys c ! i = Some account"
      "public_key_compressed (se_curve env) account = Ok compressed" "sc_account_compressed c ! i = Some compressed"
      "sc_account_xonly c ! i = Some (take 32 (drop 1 compressed))"
      "sc_address_tables c ! i = None \<or> sc_address_tables c ! i = Some [table_build (se_curve env) (se_sha512 env) account]"
proof -
  have "slot_ok env (sc_account_keys c ! i) (sc_account_xonly c ! i) (sc_account_compressed c ! i) (sc_address_tables c ! i)"
    using assms unfolding context_ok_def by blast
  then show ?thesis using that by (cases "sc_account_keys c ! i") (auto simp: slot_ok_def)
qed

lemma account_material_for:
  assumes "context_ok env c" "context_account_xonly c i = Some xonly" "account_material c i = Some m"
  shows "material_for env xonly m"
proof -
  have i: "i < 8" using assms(1,2) by (auto simp: context_account_xonly_def flat_at_def get_at_def context_ok_def split: if_splits)
  from assms(1) i show ?thesis
  proof (cases rule: context_slot [case_names empty filled])
    case empty
    then show ?thesis using assms by (auto simp: context_account_xonly_def flat_at_def get_at_def split: if_splits)
  next
    case (filled account compressed)
    then show ?thesis using assms i
      by (auto simp: context_account_xonly_def account_material_def flat_at_def get_at_def context_ok_def material_for_def
          public_key_compressed_def split: if_splits option.splits)
  qed
qed

lemma ensure_address_table_ok:
  assumes "context_ok env c" "ensure_address_table env c i = (r, c')"
  shows "context_ok env c' \<and> sc_num_seeds c' = sc_num_seeds c \<and> sc_account_keys c' = sc_account_keys c
    \<and> sc_account_xonly c' = sc_account_xonly c
    \<and> (r \<noteq> None \<longrightarrow> i < 8 \<and> (\<exists>account. sc_account_keys c ! i = Some account
         \<and> sc_address_tables c' ! i = Some [table_build (se_curve env) (se_sha512 env) account]))"
proof (cases "i < sc_num_seeds c")
  case True
  then have i: "i < 8" using assms(1) by (simp add: context_ok_def)
  from assms(1) i show ?thesis
  proof (cases rule: context_slot [case_names empty filled])
    case empty
    then show ?thesis using assms True by (auto simp: ensure_address_table_def)
  next
    case (filled account compressed)
    have "context_ok env (c\<lparr>sc_address_tables := (sc_address_tables c)[i := Some [table_build (se_curve env) (se_sha512 env) account]]\<rparr>)"
      using assms(1) filled i unfolding context_ok_def by (auto simp: nth_list_update slot_ok_def)
    then show ?thesis using assms filled True i
      by (auto simp: ensure_address_table_def context_ok_def split: if_splits)
  qed
qed (use assms in \<open>auto simp: ensure_address_table_def\<close>)

lemma cached_address_material_ok:
  assumes "context_ok env c" "cached_address_material env c i target = (r, c')"
  shows "context_ok env c' \<and> sc_num_seeds c' = sc_num_seeds c \<and> sc_account_xonly c' = sc_account_xonly c
    \<and> (\<forall>m. r = Some m \<longrightarrow> material_for env target m)"
proof -
  obtain q c1 where e: "ensure_address_table env c i = (q, c1)" by fastforce
  note ok = ensure_address_table_ok [OF assms(1) e]
  show ?thesis
  proof (cases q)
    case None
    then show ?thesis using assms(2) e ok by (auto simp: cached_address_material_def)
  next
    case (Some u)
    then obtain account where "sc_account_keys c ! i = Some account"
      "sc_address_tables c1 ! i = Some [table_build (se_curve env) (se_sha512 env) account]" using ok by auto
    then show ?thesis using assms(2) e ok Some
      by (auto simp: cached_address_material_def get_at_def bind_eq_Some_conv derived_address_material_def table_scan
          scan_chains_Some intro: chain_key_for)
  qed
qed

text \<open>Every constructor gives a good context.\<close>

definition fresh_context :: "('s, 'p) signer_env \<Rightarrow> signing_context \<Rightarrow> bool" where
  "fresh_context env c \<longleftrightarrow> context_ok env c \<and> (\<forall>i<8. sc_address_tables c ! i = None)"

lemma context_empty_fresh: "fresh_context env (context_empty n)"
  by (simp add: fresh_context_def context_ok_def context_empty_def MAX_SEED_SLOTS_def slot_ok_def)

lemma install_account_fresh: "fresh_context env c \<Longrightarrow> fresh_context env (install_account env i account c)"
  unfolding fresh_context_def context_ok_def install_account_def
  by (auto simp: nth_list_update slot_ok_def [of env "Some account"] split: sum.splits)

lemma fresh_update:
  "fresh_context env c \<Longrightarrow> fresh_context env (c\<lparr>sc_ms45_account_keys := xs\<rparr>)"
  "fresh_context env c \<Longrightarrow> fresh_context env (c\<lparr>sc_kip22_account_keys := xs\<rparr>)"
  unfolding fresh_context_def context_ok_def by auto

lemma foldl_fresh: "(\<And>c x. fresh_context env c \<Longrightarrow> fresh_context env (f c x)) \<Longrightarrow> fresh_context env c \<Longrightarrow> fresh_context env (foldl f c xs)"
  by (induction xs arbitrary: c) auto

lemma from_seeds_ok: "context_ok env (from_seeds env seeds)"
proof -
  have "fresh_context env (install_seed env c x)" if "fresh_context env c" for c x
    using that by (cases x) (auto simp: install_seed_def Let_def fresh_update install_account_fresh split: sum.splits)
  then have "fresh_context env (from_seeds env seeds)"
    unfolding from_seeds_def by (intro foldl_fresh context_empty_fresh)
  then show ?thesis by (simp add: fresh_context_def)
qed

lemma from_account_raw_fresh: "fresh_context env (from_account_raw env accounts)"
  unfolding from_account_raw_def
  by (intro foldl_fresh context_empty_fresh) (auto simp: install_account_fresh split: prod.splits)

lemma from_account_raw_ok: "context_ok env (from_account_raw env accounts)"
  using from_account_raw_fresh [of env accounts] by (simp add: fresh_context_def)

lemma from_account_sets_ok: "context_ok env (from_account_sets env accounts ms45_accounts)"
proof -
  have "fresh_context env (from_account_sets env accounts ms45_accounts)"
    unfolding from_account_sets_def
    by (intro foldl_fresh from_account_raw_fresh) (auto simp: fresh_update split: prod.splits)
  then show ?thesis by (simp add: fresh_context_def)
qed

end
