(* ===== verification/Kspt_Sign.thy ===== *)
theory Kspt_Sign
  imports Kspt_Context
begin

text \<open>
  The KSPT signers (\<open>transaction/interchange/kspt/signing\<close>: \<open>single_key.rs\<close>, \<open>multi_address.rs\<close>, \<open>multisig.rs\<close> with
  \<open>accounts.rs\<close>, \<open>ms45.rs\<close> and \<open>covenant.rs\<close>). A signer returns its result together with the transaction it leaves behind,
  also on errors; the signers of a session also return the context, whose address tables fill up on the way.
\<close>

section \<open>Loops over a state\<close>

text \<open>A loop that adds up the results of its steps and stops at the first error.\<close>

fun sum_loop :: "('a \<Rightarrow> 'st \<Rightarrow> ('e + nat) \<times> 'st) \<Rightarrow> 'a list \<Rightarrow> nat \<Rightarrow> 'st \<Rightarrow> ('e + nat) \<times> 'st" where
  "sum_loop f [] acc st = (Ok acc, st)"
| "sum_loop f (x # xs) acc st =
     (case f x st of (Inl e, st) \<Rightarrow> (Err e, st) | (Inr n, st) \<Rightarrow> sum_loop f xs (acc + n) st)"

definition no_inputs_if_zero :: "(pskt_error + nat) \<times> 'st \<Rightarrow> (pskt_error + nat) \<times> 'st" where
  "no_inputs_if_zero r =
     (case r of (Inl e, st) \<Rightarrow> (Err e, st) | (Inr n, st) \<Rightarrow> (if n = 0 then Err PeNoInputs else Ok n, st))"

section \<open>One raw key\<close>

definition sign_one ::
  "('s, 'p) signer_env \<Rightarrow> transaction \<Rightarrow> nat \<Rightarrow> bytes \<Rightarrow> sighash_type \<Rightarrow> bytes option \<Rightarrow> pskt_error + bytes" where
  "sign_one env tx input_index private_key t signing_entropy =
     sign_input_with_optional_entropy env tx input_index private_key t signing_entropy"

definition sign_transaction_impl ::
  "('s, 'p) signer_env \<Rightarrow> transaction \<Rightarrow> bytes \<Rightarrow> sighash_type \<Rightarrow> bytes option \<Rightarrow> pskt_error + signed_response" where
  "sign_transaction_impl env tx private_key t signing_entropy =
     rbind (validate_base_transaction tx) (\<lambda>_.
     try_fold (\<lambda>response input_index.
       rbind (sign_one env tx input_index private_key t signing_entropy) (\<lambda>sig.
       if input_index \<ge> 2 ^ 32 then Err PeInvalidInputIndex
       else add_signature (se_reserve env) (word_of_nat input_index) t sig response))
       response_new [0..<tx_num_inputs tx])"

definition store_signature ::
  "nat \<Rightarrow> bytes \<Rightarrow> sighash_type \<Rightarrow> u8 \<Rightarrow> bytes \<Rightarrow> transaction \<Rightarrow> transaction" where
  "store_signature input_index sig t pos compressed tx =
     upd_input input_index (set_single_signature sig (sighash_to_byte t) pos compressed) tx"

definition sign_and_store ::
  "('s, 'p) signer_env \<Rightarrow> bytes \<Rightarrow> bytes \<Rightarrow> sighash_type \<Rightarrow> bytes option \<Rightarrow> nat \<Rightarrow> transaction \<Rightarrow> (pskt_error + nat) \<times> transaction" where
  "sign_and_store env private_key compressed t signing_entropy input_index tx =
     (case sign_one env tx input_index private_key t signing_entropy of
        Inl e \<Rightarrow> (Err e, tx)
      | Inr sig \<Rightarrow> (Ok 1, store_signature input_index sig t 0 compressed tx))"

definition sign_transaction_in_place_impl ::
  "('s, 'p) signer_env \<Rightarrow> bytes \<Rightarrow> sighash_type \<Rightarrow> bytes option \<Rightarrow> transaction \<Rightarrow> (pskt_error + nat) \<times> transaction" where
  "sign_transaction_in_place_impl env private_key t signing_entropy tx =
     (case validate_base_transaction tx of
        Inl e \<Rightarrow> (Err e, tx)
      | Inr _ \<Rightarrow>
          (case compressed_pubkey_from_raw_key (se_curve env) private_key of
             Inl _ \<Rightarrow> (Err PeSigningFailed, tx)
           | Inr compressed \<Rightarrow>
               (case sum_loop (sign_and_store env private_key compressed t signing_entropy) [0..<tx_num_inputs tx] 0 tx of
                  (Inl e, tx) \<Rightarrow> (Err e, tx)
                | (Inr _, tx) \<Rightarrow> (Ok (tx_num_inputs tx), tx))))"

definition sign_transaction ::
  "('s, 'p) signer_env \<Rightarrow> transaction \<Rightarrow> bytes \<Rightarrow> sighash_type \<Rightarrow> pskt_error + signed_response" where
  "sign_transaction env tx private_key t = sign_transaction_impl env tx private_key t None"

definition sign_transaction_with_entropy ::
  "('s, 'p) signer_env \<Rightarrow> transaction \<Rightarrow> bytes \<Rightarrow> sighash_type \<Rightarrow> bytes \<Rightarrow> pskt_error + signed_response" where
  "sign_transaction_with_entropy env tx private_key t signing_entropy =
     sign_transaction_impl env tx private_key t (Some signing_entropy)"

definition sign_transaction_in_place ::
  "('s, 'p) signer_env \<Rightarrow> bytes \<Rightarrow> sighash_type \<Rightarrow> transaction \<Rightarrow> (pskt_error + nat) \<times> transaction" where
  "sign_transaction_in_place env private_key t tx = sign_transaction_in_place_impl env private_key t None tx"

definition sign_transaction_in_place_with_entropy ::
  "('s, 'p) signer_env \<Rightarrow> bytes \<Rightarrow> sighash_type \<Rightarrow> bytes \<Rightarrow> transaction \<Rightarrow> (pskt_error + nat) \<times> transaction" where
  "sign_transaction_in_place_with_entropy env private_key t signing_entropy tx =
     sign_transaction_in_place_impl env private_key t (Some signing_entropy) tx"

definition sign_raw_if_matching ::
  "('s, 'p) signer_env \<Rightarrow> nat \<Rightarrow> bytes \<Rightarrow> sighash_type \<Rightarrow> bytes \<Rightarrow> bytes \<Rightarrow> bytes \<Rightarrow> transaction \<Rightarrow> (pskt_error + bool) \<times> transaction" where
  "sign_raw_if_matching env input_index private_key t signing_entropy target compressed tx =
     (if take 32 (drop 1 compressed) \<noteq> target then (Ok False, tx)
      else case sign_one env tx input_index private_key t (Some signing_entropy) of
        Inl e \<Rightarrow> (Err e, tx)
      | Inr sig \<Rightarrow> (Ok True, store_signature input_index sig t 0 compressed tx))"

definition sign_raw_target_with_entropy ::
  "('s, 'p) signer_env \<Rightarrow> nat \<Rightarrow> bytes \<Rightarrow> sighash_type \<Rightarrow> bytes \<Rightarrow> bytes option \<Rightarrow> transaction \<Rightarrow> (pskt_error + bool) \<times> transaction" where
  "sign_raw_target_with_entropy env input_index private_key t signing_entropy target tx =
     (case target of
        None \<Rightarrow> (Ok False, tx)
      | Some target \<Rightarrow>
          (case compressed_pubkey_from_raw_key (se_curve env) private_key of
             Inl _ \<Rightarrow> (Err PeSigningFailed, tx)
           | Inr compressed \<Rightarrow> sign_raw_if_matching env input_index private_key t signing_entropy target compressed tx))"

definition sign_matching_input_in_place_with_entropy ::
  "('s, 'p) signer_env \<Rightarrow> nat \<Rightarrow> bytes \<Rightarrow> sighash_type \<Rightarrow> bytes \<Rightarrow> transaction \<Rightarrow> (pskt_error + bool) \<times> transaction" where
  "sign_matching_input_in_place_with_entropy env input_index private_key t signing_entropy tx =
     (case checked_target tx input_index of
        Inl e \<Rightarrow> (Err e, tx)
      | Inr target \<Rightarrow> sign_raw_target_with_entropy env input_index private_key t signing_entropy target tx)"

definition input_matches_xonly :: "transaction \<Rightarrow> nat \<Rightarrow> bytes \<Rightarrow> bool" where
  "input_matches_xonly tx input_index xonly \<longleftrightarrow> p2pk_xonly (script_bytes (input_spk tx input_index)) = Some xonly"

definition sign_matching_step ::
  "('s, 'p) signer_env \<Rightarrow> bytes \<Rightarrow> bytes \<Rightarrow> sighash_type \<Rightarrow> bytes \<Rightarrow> nat \<Rightarrow> transaction \<Rightarrow> (pskt_error + nat) \<times> transaction" where
  "sign_matching_step env private_key compressed t signing_entropy input_index tx =
     (if \<not> input_matches_xonly tx input_index (take 32 (drop 1 compressed)) then (Ok 0, tx)
      else sign_and_store env private_key compressed t (Some signing_entropy) input_index tx)"

definition sign_matching_inputs_in_place_with_entropy ::
  "('s, 'p) signer_env \<Rightarrow> bytes \<Rightarrow> sighash_type \<Rightarrow> bytes \<Rightarrow> transaction \<Rightarrow> (pskt_error + nat) \<times> transaction" where
  "sign_matching_inputs_in_place_with_entropy env private_key t signing_entropy tx =
     (case validate_base_transaction tx of
        Inl e \<Rightarrow> (Err e, tx)
      | Inr _ \<Rightarrow>
          (case compressed_pubkey_from_raw_key (se_curve env) private_key of
             Inl _ \<Rightarrow> (Err PeSigningFailed, tx)
           | Inr compressed \<Rightarrow>
               no_inputs_if_zero (sum_loop (sign_matching_step env private_key compressed t signing_entropy)
                 [0..<tx_num_inputs tx] 0 tx)))"

section \<open>One account\<close>

definition derive_child_key :: "('s, 'p) signer_env \<Rightarrow> extended_priv_key \<Rightarrow> u32 \<Rightarrow> bool \<Rightarrow> pskt_error + extended_priv_key" where
  "derive_child_key env account_key index change =
     map_err (\<lambda>_. PeDerivationFailed)
       (if change then derive_change_key (se_curve env) (se_sha512 env) account_key index
        else derive_address_key (se_curve env) (se_sha512 env) account_key index)"

definition derive_hinted_input_key ::
  "('s, 'p) signer_env \<Rightarrow> extended_priv_key \<Rightarrow> u8 \<Rightarrow> u32 \<Rightarrow> bytes \<Rightarrow> pskt_error + extended_priv_key option" where
  "derive_hinted_input_key env account_key branch index target =
     (if branch > 1 \<or> index \<ge> HARDENED_BIT then Ok None
      else rbind (derive_child_key env account_key index (branch = 1)) (\<lambda>key.
        rbind (map_err (\<lambda>_. PeDerivationFailed) (public_key_x_only (se_curve env) key)) (\<lambda>derived.
        if derived \<noteq> target then Ok None else Ok (Some key))))"

definition derive_standard_input_key ::
  "('s, 'p) signer_env \<Rightarrow> transaction \<Rightarrow> nat \<Rightarrow> extended_priv_key \<Rightarrow> bytes \<Rightarrow> pskt_error + extended_priv_key option" where
  "derive_standard_input_key env tx input_index account_key target =
     (let inp = tx_input_slots tx ! input_index in
      if ti_has_derivation_hint inp
      then derive_hinted_input_key env account_key (ti_derivation_branch inp) (ti_derivation_index inp) target
      else case find_address_index_for_pubkey (se_curve env) (se_sha512 env) account_key target of
        None \<Rightarrow> Ok None
      | Some (address_index, is_change) \<Rightarrow>
          rbind (derive_child_key env account_key (word_of_nat address_index) is_change) (\<lambda>key. Ok (Some key)))"

definition sign_standard_input ::
  "('s, 'p) signer_env \<Rightarrow> nat \<Rightarrow> extended_priv_key \<Rightarrow> bytes \<Rightarrow> sighash_type \<Rightarrow> bytes option \<Rightarrow> transaction
   \<Rightarrow> (pskt_error + bool) \<times> transaction" where
  "sign_standard_input env input_index account_key target t signing_entropy tx =
     (case derive_standard_input_key env tx input_index account_key target of
        Inl e \<Rightarrow> (Err e, tx)
      | Inr None \<Rightarrow> (Ok False, tx)
      | Inr (Some key) \<Rightarrow>
          (case public_key_compressed (se_curve env) key of
             Inl _ \<Rightarrow> (Err PeDerivationFailed, tx)
           | Inr compressed \<Rightarrow>
               (case sign_input_with_optional_entropy env tx input_index (xk_key key) t signing_entropy of
                  Inl e \<Rightarrow> (Err e, tx)
                | Inr sig \<Rightarrow> (Ok True, store_signature input_index sig t 0 compressed tx))))"

definition sign_stealth_input ::
  "('s, 'p) signer_env \<Rightarrow> nat \<Rightarrow> extended_priv_key \<Rightarrow> bytes \<Rightarrow> sighash_type \<Rightarrow> bytes option \<Rightarrow> transaction
   \<Rightarrow> (pskt_error + bool) \<times> transaction" where
  "sign_stealth_input env input_index account_key target t signing_entropy tx =
     (let cv = se_curve env in
      case cv_scalar cv (xk_key account_key) of
        None \<Rightarrow> (Err PeDerivationFailed, tx)
      | Some scalar \<Rightarrow>
          (let account_scalar = (if cv_encode cv (cv_mul_g cv scalar) ! 0 = 0x03 then cv_scalar_neg cv scalar else scalar) in
           case cv_scalar cv (tx_stealth_tweak tx) of
             None \<Rightarrow> (Err PeDerivationFailed, tx)
           | Some tweak \<Rightarrow>
               (let combined_scalar = cv_scalar_add cv account_scalar tweak;
                    combined_public_key = cv_encode cv (cv_mul_g cv combined_scalar) in
                if take 32 (drop 1 combined_public_key) \<noteq> target then (Ok False, tx)
                else case sign_input_with_optional_entropy env tx input_index (cv_scalar_bytes cv combined_scalar) t signing_entropy of
                  Inl e \<Rightarrow> (Err e, tx)
                | Inr sig \<Rightarrow> (Ok True, store_signature input_index sig t 0 combined_public_key tx))))"

text \<open>The stealth key is tried after the address keys.\<close>

definition sign_standard_or_stealth ::
  "('s, 'p) signer_env \<Rightarrow> nat \<Rightarrow> extended_priv_key \<Rightarrow> bytes \<Rightarrow> sighash_type \<Rightarrow> bytes option \<Rightarrow> transaction
   \<Rightarrow> (pskt_error + bool) \<times> transaction" where
  "sign_standard_or_stealth env input_index account_key target t signing_entropy tx =
     (case sign_standard_input env input_index account_key target t signing_entropy tx of
        (Inl e, tx) \<Rightarrow> (Err e, tx)
      | (Inr True, tx) \<Rightarrow> (Ok True, tx)
      | (Inr False, tx) \<Rightarrow>
          if tx_has_stealth_tweak tx then sign_stealth_input env input_index account_key target t signing_entropy tx
          else (Ok False, tx))"

definition sign_account_input_with_entropy ::
  "('s, 'p) signer_env \<Rightarrow> nat \<Rightarrow> extended_priv_key \<Rightarrow> sighash_type \<Rightarrow> bytes \<Rightarrow> transaction \<Rightarrow> (pskt_error + bool) \<times> transaction" where
  "sign_account_input_with_entropy env input_index account_key t signing_entropy tx =
     (case checked_target tx input_index of
        Inl e \<Rightarrow> (Err e, tx)
      | Inr None \<Rightarrow> (Ok False, tx)
      | Inr (Some target) \<Rightarrow> sign_standard_or_stealth env input_index account_key target t (Some signing_entropy) tx)"

definition sign_account_input ::
  "('s, 'p) signer_env \<Rightarrow> extended_priv_key \<Rightarrow> sighash_type \<Rightarrow> bytes option \<Rightarrow> nat \<Rightarrow> transaction \<Rightarrow> (pskt_error + nat) \<times> transaction" where
  "sign_account_input env account_key t signing_entropy input_index tx =
     (case p2pk_xonly (script_bytes (input_spk tx input_index)) of
        None \<Rightarrow> (Ok 0, tx)
      | Some target \<Rightarrow>
          (case sign_standard_or_stealth env input_index account_key target t signing_entropy tx of
             (Inl e, tx) \<Rightarrow> (Err e, tx)
           | (Inr was_signed, tx) \<Rightarrow> (Ok (if was_signed then 1 else 0), tx)))"

definition sign_transaction_multi_addr_account_impl ::
  "('s, 'p) signer_env \<Rightarrow> extended_priv_key \<Rightarrow> sighash_type \<Rightarrow> bytes option \<Rightarrow> transaction \<Rightarrow> (pskt_error + nat) \<times> transaction" where
  "sign_transaction_multi_addr_account_impl env account_key t signing_entropy tx =
     (case validate_base_transaction tx of
        Inl e \<Rightarrow> (Err e, tx)
      | Inr _ \<Rightarrow> no_inputs_if_zero (sum_loop (sign_account_input env account_key t signing_entropy) [0..<tx_num_inputs tx] 0 tx))"

definition sign_transaction_multi_addr_impl ::
  "('s, 'p) signer_env \<Rightarrow> bytes \<Rightarrow> sighash_type \<Rightarrow> bytes option \<Rightarrow> transaction \<Rightarrow> (pskt_error + nat) \<times> transaction" where
  "sign_transaction_multi_addr_impl env seed t signing_entropy tx =
     (case derive_account_key (se_curve env) (se_sha512 env) seed of
        Inl _ \<Rightarrow> (Err PeDerivationFailed, tx)
      | Inr account_key \<Rightarrow> sign_transaction_multi_addr_account_impl env account_key t signing_entropy tx)"

definition sign_transaction_multi_addr ::
  "('s, 'p) signer_env \<Rightarrow> bytes \<Rightarrow> sighash_type \<Rightarrow> transaction \<Rightarrow> (pskt_error + nat) \<times> transaction" where
  "sign_transaction_multi_addr env seed t tx = sign_transaction_multi_addr_impl env seed t None tx"

definition sign_transaction_multi_addr_with_entropy ::
  "('s, 'p) signer_env \<Rightarrow> bytes \<Rightarrow> sighash_type \<Rightarrow> bytes \<Rightarrow> transaction \<Rightarrow> (pskt_error + nat) \<times> transaction" where
  "sign_transaction_multi_addr_with_entropy env seed t signing_entropy tx =
     sign_transaction_multi_addr_impl env seed t (Some signing_entropy) tx"

definition sign_transaction_account_multi_addr_with_entropy ::
  "('s, 'p) signer_env \<Rightarrow> extended_priv_key \<Rightarrow> sighash_type \<Rightarrow> bytes \<Rightarrow> transaction \<Rightarrow> (pskt_error + nat) \<times> transaction" where
  "sign_transaction_account_multi_addr_with_entropy env account_key t signing_entropy tx =
     sign_transaction_multi_addr_account_impl env account_key t (Some signing_entropy) tx"

section \<open>A signing session\<close>

type_synonym session = "signing_context \<times> transaction"

text \<open>The first seed of the session with a key for the target signs.\<close>

fun sign_p2pk_loop ::
  "('s, 'p) signer_env \<Rightarrow> nat list \<Rightarrow> nat \<Rightarrow> bytes \<Rightarrow> sighash_type \<Rightarrow> bytes option \<Rightarrow> session \<Rightarrow> (pskt_error + nat) \<times> session" where
  "sign_p2pk_loop env [] input_index target t signing_entropy st = (Ok 0, st)"
| "sign_p2pk_loop env (seed_index # rest) input_index target t signing_entropy (c, tx) =
     (case direct_address_material env c seed_index target of
        None \<Rightarrow> sign_p2pk_loop env rest input_index target t signing_entropy (c, tx)
      | Some material \<Rightarrow>
          (case sign_input_with_optional_entropy env tx input_index (km_private_key material) t signing_entropy of
             Inl e \<Rightarrow> (Err e, (c, tx))
           | Inr sig \<Rightarrow> (Ok 1, (c, store_signature input_index sig t 0 (km_compressed_public_key material) tx))))"

definition sign_p2pk_input ::
  "('s, 'p) signer_env \<Rightarrow> sighash_type \<Rightarrow> bytes option \<Rightarrow> nat \<Rightarrow> session \<Rightarrow> (pskt_error + nat) \<times> session" where
  "sign_p2pk_input env t signing_entropy input_index = (\<lambda>(c, tx).
     if ti_sig_count (tx_input_slots tx ! input_index) \<noteq> 0 then (Ok 0, (c, tx))
     else let target = take 32 (drop 1 (spk_script (input_spk tx input_index))) in
       sign_p2pk_loop env [0..<sc_num_seeds c] input_index target t signing_entropy (c, tx))"

definition account_positions :: "signing_context \<Rightarrow> multisig_info \<Rightarrow> u8 option list" where
  "account_positions c multisig =
     map (\<lambda>seed_index.
       if seed_index < sc_num_seeds c
       then Option.bind (context_account_xonly c seed_index) (\<lambda>xonly.
         map_option word_of_nat (find (\<lambda>p. xonly = mi_pubkeys multisig ! p) [0..<unat (mi_n multisig)]))
       else None) [0..<8]"

definition multisig_material ::
  "('s, 'p) signer_env \<Rightarrow> signing_context \<Rightarrow> u8 option list \<Rightarrow> nat \<Rightarrow> u8 \<Rightarrow> bytes \<Rightarrow> signing_key_material option \<times> signing_context" where
  "multisig_material env c positions seed_index pos target =
     (if positions ! seed_index = Some pos then (account_material c seed_index, c)
      else if positions ! seed_index = None then cached_address_material env c seed_index target
      else (None, c))"

fun sign_position_loop ::
  "('s, 'p) signer_env \<Rightarrow> nat list \<Rightarrow> nat \<Rightarrow> u8 option list \<Rightarrow> u8 \<Rightarrow> bytes \<Rightarrow> sighash_type \<Rightarrow> bytes option \<Rightarrow> session
   \<Rightarrow> (pskt_error + nat) \<times> session" where
  "sign_position_loop env [] input_index positions pos target t signing_entropy st = (Ok 0, st)"
| "sign_position_loop env (seed_index # rest) input_index positions pos target t signing_entropy (c, tx) =
     (case multisig_material env c positions seed_index pos target of
        (None, c) \<Rightarrow> sign_position_loop env rest input_index positions pos target t signing_entropy (c, tx)
      | (Some material, c) \<Rightarrow>
          (case sign_input_with_optional_entropy env tx input_index (km_private_key material) t signing_entropy of
             Inl e \<Rightarrow> (Err e, (c, tx))
           | Inr sig \<Rightarrow>
               (case append_signature sig (sighash_to_byte t) pos (km_compressed_public_key material) (tx_input_slots tx ! input_index) of
                  (added, inp) \<Rightarrow> (Ok (if added then 1 else 0), (c, upd_input input_index (\<lambda>_. inp) tx)))))"

definition sign_multisig_position ::
  "('s, 'p) signer_env \<Rightarrow> nat \<Rightarrow> multisig_info \<Rightarrow> sighash_type \<Rightarrow> bytes option \<Rightarrow> u8 option list \<Rightarrow> nat \<Rightarrow> session
   \<Rightarrow> (pskt_error + nat) \<times> session" where
  "sign_multisig_position env input_index multisig t signing_entropy positions pubkey_position = (\<lambda>(c, tx).
     let pos = word_of_nat pubkey_position in
     if has_pubkey_position (tx_input_slots tx ! input_index) pos then (Ok 0, (c, tx))
     else sign_position_loop env [0..<sc_num_seeds c] input_index positions pos (mi_pubkeys multisig ! pubkey_position) t
            signing_entropy (c, tx))"

definition sign_ms45_step ::
  "('s, 'p) signer_env \<Rightarrow> nat \<Rightarrow> multisig_info \<Rightarrow> sighash_type \<Rightarrow> bytes option \<Rightarrow> ms45_hint \<Rightarrow> nat \<Rightarrow> session
   \<Rightarrow> (pskt_error + nat) \<times> session" where
  "sign_ms45_step env input_index multisig t signing_entropy hint seed_index = (\<lambda>(c, tx).
     case ms45_material env c seed_index hint of
       None \<Rightarrow> (Ok 0, (c, tx))
     | Some material \<Rightarrow>
         let xonly = take 32 (drop 1 (km_compressed_public_key material)) in
         (case find_index (\<lambda>candidate. candidate = xonly) (take (unat (mi_n multisig)) (mi_pubkeys multisig)) of
            None \<Rightarrow> (Ok 0, (c, tx))
          | Some p \<Rightarrow>
              let pos = word_of_nat p in
              if has_pubkey_position (tx_input_slots tx ! input_index) pos then (Ok 0, (c, tx))
              else (case sign_input_with_optional_entropy env tx input_index (km_private_key material) t signing_entropy of
                      Inl e \<Rightarrow> (Err e, (c, tx))
                    | Inr sig \<Rightarrow>
                        (case append_signature sig (sighash_to_byte t) pos (km_compressed_public_key material)
                                (tx_input_slots tx ! input_index) of
                           (added, inp) \<Rightarrow> (Ok (if added then 1 else 0), (c, upd_input input_index (\<lambda>_. inp) tx))))))"

definition sign_multisig_input ::
  "('s, 'p) signer_env \<Rightarrow> multisig_info \<Rightarrow> sighash_type \<Rightarrow> bytes option \<Rightarrow> nat \<Rightarrow> session \<Rightarrow> (pskt_error + nat) \<times> session" where
  "sign_multisig_input env multisig t signing_entropy input_index st =
     (let hint = ti_ms45_hint (tx_input_slots (snd st) ! input_index) in
      if mh_present hint
      then sum_loop (sign_ms45_step env input_index multisig t signing_entropy hint) [0..<sc_num_seeds (fst st)] 0 st
      else sum_loop (sign_multisig_position env input_index multisig t signing_entropy (account_positions (fst st) multisig))
             [0..<unat (mi_n multisig)] 0 st)"

section \<open>Covenant inputs\<close>

definition MAX_COVENANT_KEYS :: nat where "MAX_COVENANT_KEYS = 8"

text \<open>The candidates: keys with their positions, in order.\<close>

type_synonym candidate_keys = "(bytes \<times> u8) list"

definition resolve_execution_branches :: "bytes \<Rightarrow> u16 \<Rightarrow> u16 \<Rightarrow> pskt_error + branch_resolution" where
  "resolve_execution_branches script supplied_mask supplied_true_mask =
     (if supplied_true_mask AND NOT supplied_mask \<noteq> 0 then Err PeInvalidModel
      else rbind (map_err (\<lambda>_. PeInvalidModel) (resolve_covenant_branches script)) (\<lambda>resolved.
        if supplied_mask \<noteq> br_selector_mask resolved then Err PeInvalidModel
        else if br_len resolved > MAX_COVENANT_KEYS then Err PeInvalidModel
        else Ok resolved))"

definition append_active_candidate ::
  "branch_resolution \<Rightarrow> u16 \<Rightarrow> u16 \<Rightarrow> candidate_keys \<Rightarrow> nat \<Rightarrow> pskt_error + candidate_keys" where
  "append_active_candidate resolved supplied_mask supplied_true_mask candidates pos =
     (if pos \<ge> 256 then Err PeInvalidModel
      else rbind (map_err (\<lambda>_. PeInvalidModel) (key_at resolved (word_of_nat pos))) (\<lambda>binding.
        if \<not> matches_selectors binding supplied_mask supplied_true_mask then Ok candidates
        else Ok (candidates @ [(bk_key binding, word_of_nat pos)])))"

definition collect_active_candidate_keys :: "branch_resolution \<Rightarrow> u16 \<Rightarrow> u16 \<Rightarrow> pskt_error + candidate_keys" where
  "collect_active_candidate_keys resolved supplied_mask supplied_true_mask =
     try_fold (append_active_candidate resolved supplied_mask supplied_true_mask) [] [0..<br_len resolved]"

definition require_single_active_candidate :: "candidate_keys \<Rightarrow> pskt_error + candidate_keys" where
  "require_single_active_candidate candidates = (if length candidates \<noteq> 1 then Err PeInvalidModel else Ok candidates)"

definition scan_active_candidate_keys :: "bytes \<Rightarrow> u16 \<Rightarrow> u16 \<Rightarrow> pskt_error + candidate_keys" where
  "scan_active_candidate_keys script supplied_mask supplied_true_mask =
     rbind (resolve_execution_branches script supplied_mask supplied_true_mask) (\<lambda>resolved.
     rbind (collect_active_candidate_keys resolved supplied_mask supplied_true_mask) require_single_active_candidate)"

definition candidate_keys_for_input :: "transaction \<Rightarrow> nat \<Rightarrow> pskt_error + candidate_keys" where
  "candidate_keys_for_input tx input_index =
     rbind (ok_or (get_at (tx_input_slots tx) input_index) PeInvalidModel) (\<lambda>inp.
     if \<not> ti_covenant_execution_present inp then Err PeInvalidModel
     else rbind (checked_redeem_bytes tx input_index) (\<lambda>script.
       scan_active_candidate_keys script (ti_covenant_execution_mask inp) (ti_covenant_execution_true_mask inp)))"

definition seed_is_active :: "nat option \<Rightarrow> nat \<Rightarrow> bool" where
  "seed_is_active active_seed_index seed_index \<longleftrightarrow> active_seed_index = None \<or> active_seed_index = Some seed_index"

definition covenant_material :: "('s, 'p) signer_env \<Rightarrow> signing_context \<Rightarrow> nat \<Rightarrow> bytes \<Rightarrow> signing_key_material option \<times> signing_context" where
  "covenant_material env c seed_index target =
     (if context_account_xonly c seed_index = Some target then (account_material c seed_index, c)
      else case cached_address_material env c seed_index target of
        (Some m, c) \<Rightarrow> (Some m, c)
      | (None, c) \<Rightarrow> (kip22_material env c seed_index target, c))"

fun sign_candidate_loop ::
  "('s, 'p) signer_env \<Rightarrow> nat option \<Rightarrow> nat list \<Rightarrow> nat \<Rightarrow> bytes \<times> u8 \<Rightarrow> sighash_type \<Rightarrow> bytes option \<Rightarrow> session
   \<Rightarrow> (pskt_error + bool) \<times> session" where
  "sign_candidate_loop env active_seed [] input_index candidate t signing_entropy st = (Ok False, st)"
| "sign_candidate_loop env active_seed (seed_index # rest) input_index candidate t signing_entropy (c, tx) =
     (if \<not> seed_is_active active_seed seed_index
      then sign_candidate_loop env active_seed rest input_index candidate t signing_entropy (c, tx)
      else case covenant_material env c seed_index (fst candidate) of
        (None, c) \<Rightarrow> sign_candidate_loop env active_seed rest input_index candidate t signing_entropy (c, tx)
      | (Some material, c) \<Rightarrow>
          (case sign_input_with_optional_entropy env tx input_index (km_private_key material) t signing_entropy of
             Inl e \<Rightarrow> (Err e, (c, tx))
           | Inr sig \<Rightarrow> (Ok True, (c, store_signature input_index sig t (snd candidate) (km_compressed_public_key material) tx))))"

fun sign_candidates ::
  "('s, 'p) signer_env \<Rightarrow> nat option \<Rightarrow> candidate_keys \<Rightarrow> nat \<Rightarrow> sighash_type \<Rightarrow> bytes option \<Rightarrow> session
   \<Rightarrow> (pskt_error + nat) \<times> session" where
  "sign_candidates env active_seed [] input_index t signing_entropy st = (Ok 0, st)"
| "sign_candidates env active_seed (candidate # rest) input_index t signing_entropy st =
     (case sign_candidate_loop env active_seed [0..<sc_num_seeds (fst st)] input_index candidate t signing_entropy st of
        (Inl e, st) \<Rightarrow> (Err e, st)
      | (Inr True, st) \<Rightarrow> (Ok 1, st)
      | (Inr False, st) \<Rightarrow> sign_candidates env active_seed rest input_index t signing_entropy st)"

definition sign_covenant_input ::
  "('s, 'p) signer_env \<Rightarrow> nat option \<Rightarrow> sighash_type \<Rightarrow> bytes option \<Rightarrow> nat \<Rightarrow> session \<Rightarrow> (pskt_error + nat) \<times> session" where
  "sign_covenant_input env active_seed t signing_entropy input_index st =
     (if ti_sig_count (tx_input_slots (snd st) ! input_index) \<noteq> 0 then (Ok 0, st)
      else case candidate_keys_for_input (snd st) input_index of
        Inl e \<Rightarrow> (Err e, st)
      | Inr candidates \<Rightarrow> sign_candidates env active_seed candidates input_index t signing_entropy st)"

section \<open>Whole transactions\<close>

definition sign_supported_input ::
  "('s, 'p) signer_env \<Rightarrow> nat option \<Rightarrow> sighash_type \<Rightarrow> bytes option \<Rightarrow> nat \<Rightarrow> session \<Rightarrow> (pskt_error + nat) \<times> session" where
  "sign_supported_input env active_seed t signing_entropy input_index st =
     (case analyze_input_script (snd st) input_index of
        (P2PK, _) \<Rightarrow> sign_p2pk_input env t signing_entropy input_index st
      | (Multisig, Some info) \<Rightarrow> sign_multisig_input env info t signing_entropy input_index st
      | (P2SH, Some info) \<Rightarrow> sign_multisig_input env info t signing_entropy input_index st
      | (P2SH, None) \<Rightarrow> sign_covenant_input env active_seed t signing_entropy input_index st
      | _ \<Rightarrow> (Ok 0, st))"

definition sign_transaction_with_context ::
  "('s, 'p) signer_env \<Rightarrow> signing_context \<Rightarrow> sighash_type \<Rightarrow> nat option \<Rightarrow> bytes option \<Rightarrow> transaction
   \<Rightarrow> (pskt_error + nat) \<times> session" where
  "sign_transaction_with_context env c t active_seed signing_entropy tx =
     (case validate_base_transaction tx of
        Inl e \<Rightarrow> (Err e, (c, tx))
      | Inr _ \<Rightarrow> no_inputs_if_zero (sum_loop (sign_supported_input env active_seed t signing_entropy) [0..<tx_num_inputs tx] 0 (c, tx)))"

definition sign_transaction_multisig_impl ::
  "('s, 'p) signer_env \<Rightarrow> (bytes \<times> bool) list \<Rightarrow> sighash_type \<Rightarrow> nat option \<Rightarrow> bytes option \<Rightarrow> transaction
   \<Rightarrow> (pskt_error + nat) \<times> session" where
  "sign_transaction_multisig_impl env seeds t active_seed signing_entropy tx =
     sign_transaction_with_context env (from_seeds env seeds) t active_seed signing_entropy tx"

definition sign_transaction_multisig ::
  "('s, 'p) signer_env \<Rightarrow> (bytes \<times> bool) list \<Rightarrow> sighash_type \<Rightarrow> nat option \<Rightarrow> transaction \<Rightarrow> (pskt_error + nat) \<times> session" where
  "sign_transaction_multisig env seeds t active_seed tx = sign_transaction_multisig_impl env seeds t active_seed None tx"

definition sign_transaction_multisig_with_entropy ::
  "('s, 'p) signer_env \<Rightarrow> (bytes \<times> bool) list \<Rightarrow> sighash_type \<Rightarrow> nat option \<Rightarrow> bytes \<Rightarrow> transaction
   \<Rightarrow> (pskt_error + nat) \<times> session" where
  "sign_transaction_multisig_with_entropy env seeds t active_seed signing_entropy tx =
     sign_transaction_multisig_impl env seeds t active_seed (Some signing_entropy) tx"

definition sign_transaction_multisig_accounts_with_entropy ::
  "('s, 'p) signer_env \<Rightarrow> (bytes \<times> bool) list \<Rightarrow> sighash_type \<Rightarrow> nat option \<Rightarrow> bytes \<Rightarrow> transaction
   \<Rightarrow> (pskt_error + nat) \<times> session" where
  "sign_transaction_multisig_accounts_with_entropy env accounts t active_seed signing_entropy tx =
     sign_transaction_with_context env (from_account_raw env accounts) t active_seed (Some signing_entropy) tx"

text \<open>One input of a session over accounts; unlike above, every classified multisig input is signed whatever its type.\<close>

definition sign_classified_account_input ::
  "('s, 'p) signer_env \<Rightarrow> nat option \<Rightarrow> sighash_type \<Rightarrow> bytes \<Rightarrow> script_type \<times> multisig_info option \<Rightarrow> nat \<Rightarrow> session
   \<Rightarrow> (pskt_error + nat) \<times> session" where
  "sign_classified_account_input env active_seed t signing_entropy classification input_index st =
     (if fst classification = P2PK then sign_p2pk_input env t (Some signing_entropy) input_index st
      else case snd classification of
        Some info \<Rightarrow> sign_multisig_input env info t (Some signing_entropy) input_index st
      | None \<Rightarrow> if fst classification \<noteq> P2SH then (Ok 0, st)
                else sign_covenant_input env active_seed t (Some signing_entropy) input_index st)"

definition sign_account_context_input ::
  "('s, 'p) signer_env \<Rightarrow> signing_context \<Rightarrow> nat option \<Rightarrow> sighash_type \<Rightarrow> bytes \<Rightarrow> nat \<Rightarrow> transaction \<Rightarrow> (pskt_error + nat) \<times> session" where
  "sign_account_context_input env c active_seed t signing_entropy input_index tx =
     sign_classified_account_input env active_seed t signing_entropy (analyze_input_script tx input_index) input_index (c, tx)"

definition sign_multisig_account_sets_input_with_entropy ::
  "('s, 'p) signer_env \<Rightarrow> nat \<Rightarrow> (bytes \<times> bool) list \<Rightarrow> (bytes \<times> bool) list \<Rightarrow> sighash_type \<Rightarrow> nat option \<Rightarrow> bytes
   \<Rightarrow> transaction \<Rightarrow> (pskt_error + nat) \<times> session" where
  "sign_multisig_account_sets_input_with_entropy env input_index accounts ms45_accounts t active_seed signing_entropy tx =
     (let c = from_account_sets env accounts ms45_accounts in
      case rbind (validate_base_transaction tx) (\<lambda>_. ensure_input_index tx input_index) of
        Inl e \<Rightarrow> (Err e, (c, tx))
      | Inr _ \<Rightarrow> sign_account_context_input env c active_seed t signing_entropy input_index tx)"

definition sign_multisig_accounts_input_with_entropy ::
  "('s, 'p) signer_env \<Rightarrow> nat \<Rightarrow> (bytes \<times> bool) list \<Rightarrow> sighash_type \<Rightarrow> nat option \<Rightarrow> bytes \<Rightarrow> transaction
   \<Rightarrow> (pskt_error + nat) \<times> session" where
  "sign_multisig_accounts_input_with_entropy env input_index accounts t active_seed signing_entropy tx =
     (let c = from_account_raw env accounts in
      case rbind (validate_base_transaction tx) (\<lambda>_. ensure_input_index tx input_index) of
        Inl e \<Rightarrow> (Err e, (c, tx))
      | Inr _ \<Rightarrow> sign_account_context_input env c active_seed t signing_entropy input_index tx)"

end
