(* ===== verification/Kspt_Sign_Correct.thy ===== *)
theory Kspt_Sign_Correct
  imports Kspt_Sign Address_Codec
begin

text \<open>
  What the KSPT signers guarantee. A signer changes nothing but signature slots, and every signature it leaves on a
  transaction passes the verifier of \<open>Sig_Verify\<close>. What is relied on is stated by \<open>signer_laws\<close>: BIP-340 signing
  with a key, which has to be a secret scalar, gives 64 bytes that verify under the x coordinate of that key's point, and a
  sum of scalars survives its byte encoding.
\<close>

section \<open>Signatures do not change what is signed\<close>

definition unsigned_input :: "transaction_input \<Rightarrow> transaction_input" where
  "unsigned_input inp = inp\<lparr>ti_sigs := [], ti_sig_count := 0, ti_sighash_type := 0\<rparr>"

definition unsigned_tx :: "transaction \<Rightarrow> transaction" where
  "unsigned_tx tx = tx\<lparr>tx_input_slots := map unsigned_input (tx_input_slots tx)\<rparr>"

named_theorems unsigned

lemma unsigned_fields [unsigned]:
  "tx_num_inputs (unsigned_tx tx) = tx_num_inputs tx" "length (tx_input_slots (unsigned_tx tx)) = length (tx_input_slots tx)"
  "i < length (tx_input_slots tx) \<Longrightarrow> tx_input_slots (unsigned_tx tx) ! i = unsigned_input (tx_input_slots tx ! i)"
  "ti_utxo_entry (unsigned_input inp) = ti_utxo_entry inp" "ti_redeem_script_len (unsigned_input inp) = ti_redeem_script_len inp"
  "ti_redeem_in_pool (unsigned_input inp) = ti_redeem_in_pool inp"
  "ti_redeem_script_offset (unsigned_input inp) = ti_redeem_script_offset inp"
  "ti_redeem_script (unsigned_input inp) = ti_redeem_script inp"
  "ti_covenant_execution_present (unsigned_input inp) = ti_covenant_execution_present inp"
  "ti_covenant_execution_mask (unsigned_input inp) = ti_covenant_execution_mask inp"
  "ti_covenant_execution_true_mask (unsigned_input inp) = ti_covenant_execution_true_mask inp"
  "tx_redeem_pool_used (unsigned_tx tx) = tx_redeem_pool_used tx" "tx_redeem_pool (unsigned_tx tx) = tx_redeem_pool tx"
  by (simp_all add: unsigned_tx_def unsigned_input_def)

lemma unsigned_redeem [unsigned]: "checked_redeem_bytes (unsigned_tx tx) i = checked_redeem_bytes tx i"
  by (auto simp: checked_redeem_bytes_def Let_def unsigned checked_pool_redeem_bytes_def checked_inline_redeem_bytes_def)

lemma unsigned_analysis [unsigned]:
  "i < length (tx_input_slots tx) \<Longrightarrow> analyze_input_script (unsigned_tx tx) i = analyze_input_script tx i"
  by (simp add: analyze_input_script_def try_analyze_input_script_def Let_def unsigned cong: if_cong)

lemma resolved_execution_Ok:
  "resolved_execution tx i = Ok (inp, resolved) \<longleftrightarrow>
     i < length (tx_input_slots tx) \<and> inp = tx_input_slots tx ! i
     \<and> (\<exists>redeem. checked_redeem_bytes tx i = Ok redeem \<and> resolve_covenant_branches redeem = Ok resolved)
     \<and> validate_covenant_execution_binding inp (br_selector_mask resolved) = Ok ()"
  by (auto simp: resolved_execution_def rbind_Inr_iff get_at_def map_err_Inr_iff)

lemma unsigned_required [unsigned]:
  assumes "i < length (tx_input_slots tx)"
  shows "required_for_input (unsigned_tx tx) i = required_for_input tx i"
proof -
  have "resolved_execution (unsigned_tx tx) i = map_sum id (\<lambda>(inp, resolved). (unsigned_input inp, resolved)) (resolved_execution tx i)"
    using assms
    by (cases "checked_redeem_bytes tx i")
      (auto simp: resolved_execution_def get_at_def unsigned validate_covenant_execution_binding_def rbind_def map_err_def
        split: sum.splits)
  moreover have "active_execution_key_count (unsigned_input inp) resolved = active_execution_key_count inp resolved" for inp resolved
    by (simp only: active_execution_key_count_def unsigned)
  ultimately have same: "covenant_required_for_execution (unsigned_tx tx) i = covenant_required_for_execution tx i"
    by (auto simp: covenant_required_for_execution_def split: sum.splits prod.splits)
  show ?thesis unfolding required_for_input_def unsigned_analysis [OF assms] same ..
qed

lemma unsigned_expected [unsigned]:
  assumes "i < length (tx_input_slots tx)"
  shows "expected_xonly_for_position (unsigned_tx tx) i pos = expected_xonly_for_position tx i pos"
    and "covenant_position_matches_execution (unsigned_tx tx) i pos = Ok () \<longleftrightarrow> covenant_position_matches_execution tx i pos = Ok ()"
proof -
  have same: "p2pk_xonly_for_position (unsigned_tx tx) i pos = p2pk_xonly_for_position tx i pos"
    "covenant_xonly_for_position (unsigned_tx tx) i pos = covenant_xonly_for_position tx i pos"
    using assms by (simp_all add: p2pk_xonly_for_position_def covenant_xonly_for_position_def unsigned get_at_def)
  show "expected_xonly_for_position (unsigned_tx tx) i pos = expected_xonly_for_position tx i pos"
    unfolding expected_xonly_for_position_def unsigned_analysis [OF assms] same ..
  show "covenant_position_matches_execution (unsigned_tx tx) i pos = Ok () \<longleftrightarrow> covenant_position_matches_execution tx i pos = Ok ()"
    using assms
    by (auto simp: unsigned covenant_position_matches_execution_def rbind_Inr_iff resolved_execution_Ok
      validate_covenant_execution_binding_def split: if_splits)
qed

lemma calculate_sighash_cong:
  assumes "\<And>j. j < ss_input_count tx \<Longrightarrow> f j = ss_input tx j" "i < ss_input_count tx"
  shows "calculate_sighash keyed (tx\<lparr>ss_input := f\<rparr>) i t = calculate_sighash keyed tx i t"
proof -
  have "map (\<lambda>j. g (f j)) [0..<ss_input_count tx] = map (\<lambda>j. g (ss_input tx j)) [0..<ss_input_count tx]"
    for g :: "sighash_input \<Rightarrow> bytes"
    using assms(1) by simp
  note same = this [of "\<lambda>inp. si_transaction_id inp @ u32_to_le (si_index inp)"] this [of "\<lambda>inp. u64_to_le (si_sequence inp)"]
  have fields: "ss_input (tx\<lparr>ss_input := f\<rparr>) = f" "ss_input_count (tx\<lparr>ss_input := f\<rparr>) = ss_input_count tx" by simp_all
  have "previous_outputs_hash keyed (tx\<lparr>ss_input := f\<rparr>) t = previous_outputs_hash keyed tx t"
    "sequences_hash keyed (tx\<lparr>ss_input := f\<rparr>) t = sequences_hash keyed tx t"
    unfolding previous_outputs_hash_def sequences_hash_def fields same by (rule refl)+
  moreover have "sig_op_counts_hash keyed (tx\<lparr>ss_input := f\<rparr>) t = sig_op_counts_hash keyed tx t"
    using assms(1) by (auto simp: sig_op_counts_hash_def intro!: arg_cong [of _ _ "signing_hasher keyed"])
  moreover have "outputs_hash keyed (tx\<lparr>ss_input := f\<rparr>) t i = outputs_hash keyed tx t i"
    "payload_hash keyed (tx\<lparr>ss_input := f\<rparr>) = payload_hash keyed tx"
    by (simp_all add: outputs_hash_def payload_hash_def)
  ultimately show ?thesis using assms by (simp add: calculate_sighash_def sighash_preimage_def Let_def)
qed

lemma unsigned_sighash [unsigned]:
  assumes "tx_num_inputs tx \<le> length (tx_input_slots tx)" "i < tx_num_inputs tx"
  shows "calculate_sighash keyed (sighash_source_of (unsigned_tx tx)) i t = calculate_sighash keyed (sighash_source_of tx) i t"
proof -
  let ?f = "\<lambda>j. tx_sighash_input (tx_inputs (unsigned_tx tx) ! j)"
  have "sighash_source_of (unsigned_tx tx) = (sighash_source_of tx)\<lparr>ss_input := ?f\<rparr>"
    by (simp add: sighash_source_of_def unsigned_tx_def tx_outputs_def)
  moreover have "?f j = ss_input (sighash_source_of tx) j" if "j < tx_num_inputs tx" for j
    using that assms(1)
    by (simp add: sighash_source_of_def tx_inputs_def unsigned_tx_def tx_sighash_input_def unsigned_input_def)
  moreover have "ss_input_count (sighash_source_of tx) = tx_num_inputs tx" by (simp add: sighash_source_of_def)
  ultimately show ?thesis using assms(2) by (simp only: calculate_sighash_cong)
qed

lemma unsigned_valid [unsigned]:
  assumes "tx_num_inputs tx \<le> length (tx_input_slots tx)" "i < tx_num_inputs tx"
  shows "signature_valid keyed schnorr_verify (unsigned_tx tx) i pos sig = signature_valid keyed schnorr_verify tx i pos sig"
proof -
  have "i < length (tx_input_slots tx)" using assms by simp
  then show ?thesis
    unfolding signature_valid_def unsigned_sighash [OF assms] by (simp only: unsigned)
qed

section \<open>Storing a valid signature\<close>

definition signatures_valid :: "('s, 'p) signer_env \<Rightarrow> (bytes \<Rightarrow> bytes \<Rightarrow> bytes \<Rightarrow> bool) \<Rightarrow> transaction \<Rightarrow> bool" where
  "signatures_valid env schnorr_verify tx \<longleftrightarrow> (\<forall>i<tx_num_inputs tx. \<exists>n. input_signed (se_keyed env) schnorr_verify tx i n)"

definition signature_total :: "transaction \<Rightarrow> nat" where
  "signature_total tx = sum_list (map (\<lambda>i. unat (ti_sig_count (tx_input_slots tx ! i))) [0..<tx_num_inputs tx])"

text \<open>From \<open>tx\<close>, a transaction that differs in signature slots only is reached, with \<open>n\<close> more signatures, all valid.\<close>

definition sane :: "('s, 'p) signer_env \<Rightarrow> (bytes \<Rightarrow> bytes \<Rightarrow> bytes \<Rightarrow> bool) \<Rightarrow> transaction \<Rightarrow> bool" where
  "sane env schnorr_verify tx \<longleftrightarrow>
     tx_arrays tx \<and> tx_num_inputs tx \<le> length (tx_input_slots tx) \<and> signatures_valid env schnorr_verify tx"

definition adds :: "('s, 'p) signer_env \<Rightarrow> (bytes \<Rightarrow> bytes \<Rightarrow> bytes \<Rightarrow> bool) \<Rightarrow> transaction \<Rightarrow> nat \<Rightarrow> transaction \<Rightarrow> bool" where
  "adds env schnorr_verify tx n tx' \<longleftrightarrow>
     sane env schnorr_verify tx' \<and> unsigned_tx tx' = unsigned_tx tx \<and> signature_total tx' = signature_total tx + n"

lemma adds_refl: "sane env schnorr_verify tx \<Longrightarrow> adds env schnorr_verify tx 0 tx"
  by (simp add: adds_def)

lemma adds_trans: "adds env schnorr_verify tx m tx1 \<Longrightarrow> adds env schnorr_verify tx1 n tx2 \<Longrightarrow> adds env schnorr_verify tx (m + n) tx2"
  by (simp add: adds_def)

lemma unsigned_upd:
  assumes "unsigned_input inp = unsigned_input (tx_input_slots tx ! i)"
  shows "unsigned_tx (upd_input i (\<lambda>_. inp) tx) = unsigned_tx tx"
  using assms by (cases "i < length (tx_input_slots tx)") (simp_all add: unsigned_tx_def upd_input_def map_update list_update_same_conv list_update_beyond)

lemma same_signature_valid:
  assumes "unsigned_tx tx' = unsigned_tx tx" "tx_num_inputs tx \<le> length (tx_input_slots tx)" "i < tx_num_inputs tx"
  shows "signature_valid keyed schnorr_verify tx' i pos sig = signature_valid keyed schnorr_verify tx i pos sig"
proof -
  have "tx_num_inputs tx' = tx_num_inputs tx" "length (tx_input_slots tx') = length (tx_input_slots tx)"
    using arg_cong [OF assms(1), of tx_num_inputs] arg_cong [OF assms(1), of "\<lambda>t. length (tx_input_slots t)"]
    by (simp_all add: unsigned)
  then show ?thesis using unsigned_valid [of tx' i] unsigned_valid [of tx i] assms by simp
qed

lemma sum_list_upd:
  fixes f g :: "nat \<Rightarrow> nat"
  assumes "i < n" "\<And>j. j < n \<Longrightarrow> j \<noteq> i \<Longrightarrow> g j = f j"
  shows "sum_list (map g [0..<n]) + f i = sum_list (map f [0..<n]) + g i"
proof -
  have "sum g {0..<n} = g i + sum g ({0..<n} - {i})" "sum f {0..<n} = f i + sum f ({0..<n} - {i})"
    using assms(1) by (simp_all add: sum.remove)
  moreover have "sum g ({0..<n} - {i}) = sum f ({0..<n} - {i})" using assms(2) by (intro sum.cong) auto
  ultimately show ?thesis by (simp add: interv_sum_list_conv_sum_set_nat)
qed

text \<open>An input is replaced by one that differs in its slots: the other inputs keep their signatures.\<close>

lemma slots_kept:
  assumes tx: "tx_arrays tx" "tx_num_inputs tx \<le> length (tx_input_slots tx)" "i < tx_num_inputs tx"
    and same: "unsigned_input inp = unsigned_input (tx_input_slots tx ! i)"
    and arrays: "length (ti_sigs inp) = MAX_SIGS_PER_INPUT" "\<forall>s\<in>set (ti_sigs inp). length (is_signature s) = 64"
  shows "tx_arrays (upd_input i (\<lambda>_. inp) tx)"
    "j < tx_num_inputs tx \<Longrightarrow> j \<noteq> i \<Longrightarrow>
      input_signed keyed schnorr_verify (upd_input i (\<lambda>_. inp) tx) j m = input_signed keyed schnorr_verify tx j m"
proof -
  have "input_arrays inp"
    using same arrays tx nth_mem [of i "tx_input_slots tx"]
    by (cases inp; cases "tx_input_slots tx ! i") (auto simp: tx_arrays_def input_arrays_def unsigned_input_def)
  then show "tx_arrays (upd_input i (\<lambda>_. inp) tx)"
    using tx(1) by (auto simp: tx_arrays_def upd_input_def dest!: set_update_subset_insert [THEN subsetD])
  assume j: "j < tx_num_inputs tx" "j \<noteq> i"
  then have "tx_input_slots (upd_input i (\<lambda>_. inp) tx) ! j = tx_input_slots tx ! j" by (simp add: upd_input_def)
  then show "input_signed keyed schnorr_verify (upd_input i (\<lambda>_. inp) tx) j m = input_signed keyed schnorr_verify tx j m"
    using same_signature_valid [OF unsigned_upd [OF same] tx(2) j(1)] by (simp add: input_signed_def)
qed

lemma slots_upd:
  assumes sane: "sane env schnorr_verify tx" and i: "i < tx_num_inputs tx"
    and same: "unsigned_input inp = unsigned_input (tx_input_slots tx ! i)"
    and arrays: "length (ti_sigs inp) = MAX_SIGS_PER_INPUT" "\<forall>s\<in>set (ti_sigs inp). length (is_signature s) = 64"
    and signed: "input_signed (se_keyed env) schnorr_verify (upd_input i (\<lambda>_. inp) tx) i n"
  shows "sane env schnorr_verify (upd_input i (\<lambda>_. inp) tx) \<and> unsigned_tx (upd_input i (\<lambda>_. inp) tx) = unsigned_tx tx
    \<and> signature_total (upd_input i (\<lambda>_. inp) tx) + unat (ti_sig_count (tx_input_slots tx ! i)) = signature_total tx + n"
proof -
  let ?tx = "upd_input i (\<lambda>_. inp) tx"
  have len: "tx_num_inputs tx \<le> length (tx_input_slots tx)" and va: "signatures_valid env schnorr_verify tx" and ar: "tx_arrays tx"
    using sane by (simp_all add: sane_def)
  note kept = slots_kept [OF ar len i same arrays]
  have slot: "tx_input_slots ?tx ! j = (if j = i then inp else tx_input_slots tx ! j)" for j
    using i len by (auto simp: upd_input_def)
  have num: "tx_num_inputs ?tx = tx_num_inputs tx" "length (tx_input_slots ?tx) = length (tx_input_slots tx)"
    by (simp_all add: upd_input_def)
  have "\<exists>m. input_signed (se_keyed env) schnorr_verify ?tx j m" if "j < tx_num_inputs tx" for j
    using signed va that kept(2) [OF that] by (cases "j = i") (auto simp: signatures_valid_def)
  moreover have "unat (ti_sig_count inp) = n" using signed by (simp add: input_signed_def slot Let_def)
  then have "signature_total ?tx + unat (ti_sig_count (tx_input_slots tx ! i)) = signature_total tx + n"
    using sum_list_upd [OF i, of "\<lambda>j. unat (ti_sig_count (tx_input_slots ?tx ! j))" "\<lambda>j. unat (ti_sig_count (tx_input_slots tx ! j))"]
    by (simp add: signature_total_def num slot)
  ultimately show ?thesis using unsigned_upd [OF same] len kept(1) by (simp add: sane_def signatures_valid_def num)
qed

lemma store_signature_slots:
  assumes tx: "tx_arrays tx" "tx_num_inputs tx \<le> length (tx_input_slots tx)" "i < tx_num_inputs tx"
    and va: "signature_valid keyed schnorr_verify tx i pos sig" and len: "length sig = 64"
  obtains inp where "store_signature i sig SigAll pos compressed tx = upd_input i (\<lambda>_. inp) tx"
    "unsigned_input inp = unsigned_input (tx_input_slots tx ! i)"
    "length (ti_sigs inp) = MAX_SIGS_PER_INPUT" "\<forall>s\<in>set (ti_sigs inp). length (is_signature s) = 64"
    "input_signed keyed schnorr_verify (upd_input i (\<lambda>_. inp) tx) i 1"
proof -
  let ?inp = "tx_input_slots tx ! i"
  let ?new = "set_single_signature sig 1 pos compressed ?inp"
  have arrays: "input_arrays ?inp" using tx by (auto simp: tx_arrays_def)
  have same: "unsigned_input ?new = unsigned_input ?inp" by (simp add: unsigned_input_def set_single_signature_def)
  have "input_signed keyed schnorr_verify (upd_input i (\<lambda>_. ?new) tx) i 1"
    using va tx same_signature_valid [OF unsigned_upd [OF same] tx(2,3)]
    by (simp add: input_signed_def upd_input_def set_single_signature_def list_all_iff MAX_SIGS_PER_INPUT_def)
  moreover have "length (ti_sigs ?new) = MAX_SIGS_PER_INPUT" "\<forall>s\<in>set (ti_sigs ?new). length (is_signature s) = 64"
    using arrays len by (auto simp: set_single_signature_def input_arrays_def MAX_SIGS_PER_INPUT_def dest: in_set_dropD)
  moreover have "store_signature i sig SigAll pos compressed tx = upd_input i (\<lambda>_. ?new) tx"
    by (simp add: store_signature_def upd_input_def)
  ultimately show thesis using that same by blast
qed

lemma write_valid:
  assumes sane: "sane env schnorr_verify tx" and i: "i < tx_num_inputs tx"
    and va: "signature_valid (se_keyed env) schnorr_verify tx i pos sig" and len: "length sig = 64"
    and tx'_def: "tx' = store_signature i sig SigAll pos compressed tx"
  shows "sane env schnorr_verify tx' \<and> unsigned_tx tx' = unsigned_tx tx
    \<and> signature_total tx' + unat (ti_sig_count (tx_input_slots tx ! i)) = signature_total tx + 1"
  using store_signature_slots [OF _ _ i va len, of compressed] slots_upd [OF sane i] sane unfolding tx'_def sane_def by metis

lemma has_pubkey_position_signed:
  "input_signed keyed schnorr_verify tx i n \<Longrightarrow>
   has_pubkey_position (tx_input_slots tx ! i) pos \<longleftrightarrow> pos \<in> is_pubkey_pos ` set (take n (ti_sigs (tx_input_slots tx ! i)))"
  by (auto simp: input_signed_def has_pubkey_position_def Let_def list_ex_iff list_all_iff min_def)

lemma append_valid:
  assumes sane: "sane env schnorr_verify tx" and i: "i < tx_num_inputs tx"
    and va: "signature_valid (se_keyed env) schnorr_verify tx i pos sig" and len: "length sig = 64"
    and app: "append_signature sig 1 pos compressed (tx_input_slots tx ! i) = (added, inp)"
  shows "adds env schnorr_verify tx (if added then 1 else 0) (upd_input i (\<lambda>_. inp) tx)"
proof (cases added)
  case False
  then have "inp = tx_input_slots tx ! i" using app by (auto simp: append_signature_def Let_def split: if_splits)
  then have "upd_input i (\<lambda>_. inp) tx = tx" by (simp add: upd_input_def)
  then show ?thesis using False adds_refl [OF sane] by simp
next
  case True
  let ?inp = "tx_input_slots tx ! i"
  let ?n = "unat (ti_sig_count ?inp)"
  let ?slot = "(ti_sigs ?inp ! ?n)\<lparr>is_signature := sig, is_sighash_type := 1, is_pubkey_pos := pos, is_present := True,
      is_pubkey_compressed := compressed\<rparr>"
  have slots: "tx_num_inputs tx \<le> length (tx_input_slots tx)" and arrays: "input_arrays ?inp"
    using sane i by (auto simp: sane_def tx_arrays_def)
  have old: "input_signed (se_keyed env) schnorr_verify tx i ?n"
    using sane i by (auto simp: sane_def signatures_valid_def input_signed_def Let_def)
  have pos: "pos \<notin> is_pubkey_pos ` set (take ?n (ti_sigs ?inp))" and n: "?n < MAX_SIGS_PER_INPUT"
    and sigs: "ti_sigs inp = (ti_sigs ?inp)[?n := ?slot]" and count: "ti_sig_count inp = ti_sig_count ?inp + 1"
    and same: "unsigned_input inp = unsigned_input ?inp"
    using app True has_pubkey_position_signed [OF old, of pos]
    by (auto simp: append_signature_def Let_def unsigned_input_def split: if_splits)
  have ln: "?n < length (ti_sigs ?inp)" using n arrays by (simp add: input_arrays_def)
  have take: "take (Suc ?n) (ti_sigs inp) = take ?n (ti_sigs ?inp) @ [?slot]" "drop (Suc ?n) (ti_sigs inp) = drop (Suc ?n) (ti_sigs ?inp)"
    using ln by (simp_all add: sigs take_Suc_conv_app_nth)
  have c: "unat (ti_sig_count inp) = Suc ?n" using n by (simp add: count unat_word_ariths MAX_SIGS_PER_INPUT_def)
  note same_signature_valid [OF unsigned_upd [OF same] slots i]
  moreover have "list_all (\<lambda>slot. \<not> is_present slot) (drop (Suc ?n) (ti_sigs ?inp))"
    using old set_drop_subset_set_drop [of ?n "Suc ?n" "ti_sigs ?inp"] by (auto simp: input_signed_def Let_def list_all_iff)
  ultimately have "input_signed (se_keyed env) schnorr_verify (upd_input i (\<lambda>_. inp) tx) i (Suc ?n)"
    using old va pos n i slots c unfolding input_signed_def Let_def
    by (simp add: upd_input_def take)
  moreover have "length (ti_sigs inp) = MAX_SIGS_PER_INPUT" "\<forall>s\<in>set (ti_sigs inp). length (is_signature s) = 64"
    using arrays len by (auto simp: sigs input_arrays_def dest!: set_update_subset_insert [THEN subsetD])
  ultimately have "sane env schnorr_verify (upd_input i (\<lambda>_. inp) tx) \<and> unsigned_tx (upd_input i (\<lambda>_. inp) tx) = unsigned_tx tx
      \<and> signature_total (upd_input i (\<lambda>_. inp) tx) + ?n = signature_total tx + Suc ?n"
    using slots_upd [OF sane i same] by blast
  then show ?thesis using True by (simp add: adds_def)
qed

section \<open>Keys sign for themselves\<close>

definition signer_laws :: "('s, 'p) signer_env \<Rightarrow> (bytes \<Rightarrow> bytes \<Rightarrow> bytes \<Rightarrow> bool) \<Rightarrow> bool" where
  "signer_laws env schnorr_verify \<longleftrightarrow>
     (\<forall>key msg aux sig s. se_sign_aux env key msg aux = Ok sig \<longrightarrow> cv_secret (se_curve env) key = Some s \<longrightarrow>
        length sig = 64 \<and> schnorr_verify (take 32 (drop 1 (cv_encode (se_curve env) (cv_mul_g (se_curve env) s)))) msg sig)
     \<and> (\<forall>a b s. cv_secret (se_curve env) (cv_scalar_bytes (se_curve env) (cv_scalar_add (se_curve env) a b)) = Some s \<longrightarrow>
        s = cv_scalar_add (se_curve env) a b)
     \<and> (\<forall>key msg aux sig. se_sign_aux env key msg aux = Ok sig \<longrightarrow> cv_secret (se_curve env) key \<noteq> None)"

lemma sign_input_aux:
  assumes "sign_input_with_optional_entropy env tx i key t entropy = Ok sig"
  obtains aux where "se_sign_aux env key (calculate_sighash (se_keyed env) (sighash_source_of tx) i t) aux = Ok sig"
  using assms
  by (cases entropy) (auto simp: sign_input_with_optional_entropy_def sign_input_def sign_input_with_entropy_def schnorr_sign_def Let_def)

lemma sign_input_valid:
  assumes laws: "signer_laws env schnorr_verify"
    and mat: "material_for env xonly m" "sign_input_with_optional_entropy env tx i (km_private_key m) SigAll entropy = Ok sig"
    and key: "expected_xonly_for_position tx i pos = Ok xonly"
    and branch: "analyze_input_script tx i \<noteq> (P2SH, None) \<or> covenant_position_matches_execution tx i pos = Ok ()"
  shows "signature_valid (se_keyed env) schnorr_verify tx i pos sig" "length sig = 64"
proof -
  obtain aux where aux: "se_sign_aux env (km_private_key m) (calculate_sighash (se_keyed env) (sighash_source_of tx) i SigAll) aux = Ok sig"
    using mat(2) by (rule sign_input_aux)
  obtain s where s: "cv_secret (se_curve env) (km_private_key m) = Some s"
    "xonly = take 32 (drop 1 (cv_encode (se_curve env) (cv_mul_g (se_curve env) s)))"
    using mat(1) by (auto simp: material_for_def)
  from laws aux s have "length sig = 64 \<and> schnorr_verify xonly (calculate_sighash (se_keyed env) (sighash_source_of tx) i SigAll) sig"
    unfolding signer_laws_def by blast
  then show "signature_valid (se_keyed env) schnorr_verify tx i pos sig" "length sig = 64"
    using key branch by (simp_all add: signature_valid_def)
qed

lemma p2pk_expected:
  assumes "i < length (tx_input_slots tx)" "i < tx_num_inputs tx" "spk_array (input_spk tx i)"
    "p2pk_xonly (script_bytes (input_spk tx i)) = Some xonly" "spk_script_len (input_spk tx i) \<le> MAX_SCRIPT_SIZE"
  shows "analyze_input_script tx i = (P2PK, None) \<and> expected_xonly_for_position tx i 0 = Ok xonly"
proof -
  let ?s = "script_bytes (input_spk tx i)"
  have range: "get_range (spk_script (input_spk tx i)) 0 (spk_script_len (input_spk tx i)) = Some ?s"
    using assms(3,5) by (simp add: get_range_def script_bytes_def spk_array_def)
  have "?s = p2pk_script xonly" "length xonly = 32"
    using assms(4) p2pk_xonly_iff by blast+
  then have "is_p2pk_script ?s (length ?s)" unfolding is_p2pk_script_iff by auto
  then show ?thesis using assms range
    by (simp add: analyze_input_script_def try_analyze_input_script_def input_spk_def detect_script_type_def multisig_of_def
        Let_def expected_xonly_for_position_def p2pk_xonly_for_position_def get_at_def)
qed

section \<open>Sessions\<close>

text \<open>A step of a session leaves a good session with as many signatures more as it reports.\<close>

definition session_adds ::
  "('s, 'p) signer_env \<Rightarrow> (bytes \<Rightarrow> bytes \<Rightarrow> bytes \<Rightarrow> bool) \<Rightarrow> session \<Rightarrow> nat \<Rightarrow> session \<Rightarrow> bool" where
  "session_adds env schnorr_verify st n st' \<longleftrightarrow>
     context_ok env (fst st') \<and> sc_num_seeds (fst st') = sc_num_seeds (fst st)
     \<and> sc_account_xonly (fst st') = sc_account_xonly (fst st) \<and> adds env schnorr_verify (snd st) n (snd st')"

definition step_adds ::
  "('s, 'p) signer_env \<Rightarrow> (bytes \<Rightarrow> bytes \<Rightarrow> bytes \<Rightarrow> bool) \<Rightarrow> session \<Rightarrow> nat \<Rightarrow> (pskt_error + nat) \<times> session \<Rightarrow> bool" where
  "step_adds env schnorr_verify st acc r \<longleftrightarrow> (\<exists>n. session_adds env schnorr_verify st n (snd r) \<and> (\<forall>k. fst r = Ok k \<longrightarrow> k = acc + n))"

definition session_ok :: "('s, 'p) signer_env \<Rightarrow> (bytes \<Rightarrow> bytes \<Rightarrow> bytes \<Rightarrow> bool) \<Rightarrow> session \<Rightarrow> bool" where
  "session_ok env schnorr_verify st \<longleftrightarrow> context_ok env (fst st) \<and> sane env schnorr_verify (snd st)"

lemma session_refl: "session_ok env schnorr_verify st \<Longrightarrow> session_adds env schnorr_verify st 0 st"
  by (simp add: session_ok_def session_adds_def adds_refl)

lemma session_trans:
  "session_adds env schnorr_verify st m st1 \<Longrightarrow> session_adds env schnorr_verify st1 n st2 \<Longrightarrow>
   session_adds env schnorr_verify st (m + n) st2"
  by (auto simp: session_adds_def intro: adds_trans)

lemma session_adds_ok: "session_adds env schnorr_verify st n st' \<Longrightarrow> session_ok env schnorr_verify st'"
  by (simp add: session_adds_def session_ok_def adds_def)

lemma step_unchanged: "session_ok env schnorr_verify st \<Longrightarrow> (\<forall>k. r = Ok k \<longrightarrow> k = acc) \<Longrightarrow> step_adds env schnorr_verify st acc (r, st)"
  unfolding step_adds_def by (intro exI [of _ 0]) (simp add: session_refl)

lemma step_prefix:
  "session_adds env schnorr_verify st m st1 \<Longrightarrow> step_adds env schnorr_verify st1 (acc + m) r \<Longrightarrow> step_adds env schnorr_verify st acc r"
  unfolding step_adds_def using session_trans by (metis add.assoc)

lemma sum_loop_adds:
  assumes "\<And>x st. x \<in> set xs \<Longrightarrow> (\<exists>n. session_adds env schnorr_verify st0 n st) \<Longrightarrow> step_adds env schnorr_verify st 0 (f x st)"
    and "\<exists>n. session_adds env schnorr_verify st0 n st"
  shows "step_adds env schnorr_verify st acc (sum_loop f xs acc st)"
  using assms
proof (induction xs arbitrary: acc st)
  case Nil
  then show ?case by (auto intro!: step_unchanged intro: session_adds_ok)
next
  case (Cons x xs)
  obtain r st1 where f: "f x st = (r, st1)" by (cases "f x st")
  obtain n where n: "session_adds env schnorr_verify st n st1" "\<forall>k. r = Ok k \<longrightarrow> k = n"
    using Cons.prems(1) [of x st] Cons.prems(2) f by (auto simp: step_adds_def)
  show ?case
  proof (cases r)
    case (Inl e)
    then show ?thesis using f n(1) by (auto simp: step_adds_def)
  next
    case (Inr k)
    have "\<exists>n. session_adds env schnorr_verify st0 n st1" using Cons.prems(2) n(1) session_trans by blast
    then have "step_adds env schnorr_verify st1 (acc + n) (sum_loop f xs (acc + n) st1)" using Cons.prems(1) by (intro Cons.IH) auto
    then show ?thesis using f n Inr step_prefix by fastforce
  qed
qed

lemma session_input:
  assumes "session_ok env schnorr_verify st" "i < tx_num_inputs (snd st)"
  shows "i < length (tx_input_slots (snd st))" "input_arrays (tx_input_slots (snd st) ! i)" "tx_num_inputs (snd st) \<le> length (tx_input_slots (snd st))"
  using assms by (auto simp: session_ok_def sane_def tx_arrays_def)

text \<open>The two ways a session stores a signature.\<close>

lemma session_write:
  assumes "signer_laws env schnorr_verify" "session_ok env schnorr_verify (c, tx)" "i < tx_num_inputs tx"
    "ti_sig_count (tx_input_slots tx ! i) = 0"
    "material_for env xonly m" "sign_input_with_optional_entropy env tx i (km_private_key m) SigAll entropy = Ok sig"
    "expected_xonly_for_position tx i pos = Ok xonly"
    "analyze_input_script tx i \<noteq> (P2SH, None) \<or> covenant_position_matches_execution tx i pos = Ok ()"
  shows "session_adds env schnorr_verify (c, tx) 1 (c, store_signature i sig SigAll pos compressed tx)"
  using write_valid [OF _ assms(3) sign_input_valid(1) [OF assms(1,5,6,7,8)] sign_input_valid(2) [OF assms(1,5,6,7,8)] refl] assms(2,4)
  by (simp add: session_adds_def session_ok_def adds_def)

lemma session_append:
  assumes "signer_laws env schnorr_verify" "session_ok env schnorr_verify (c, tx)" "i < tx_num_inputs tx"
    "append_signature sig 1 pos compressed (tx_input_slots tx ! i) = (added, inp)"
    "material_for env xonly m" "sign_input_with_optional_entropy env tx i (km_private_key m) SigAll entropy = Ok sig"
    "expected_xonly_for_position tx i pos = Ok xonly" "analyze_input_script tx i \<noteq> (P2SH, None)"
  shows "session_adds env schnorr_verify (c, tx) (if added then 1 else 0) (c, upd_input i (\<lambda>_. inp) tx)"
  using append_valid [OF _ assms(3) sign_input_valid(1) [OF assms(1,5,6,7) disjI1 [OF assms(8)]]
      sign_input_valid(2) [OF assms(1,5,6,7) disjI1 [OF assms(8)]] assms(4)] assms(2)
  by (simp add: session_adds_def session_ok_def)

section \<open>Pay-to-key inputs of a session\<close>

lemma p2pk_target:
  assumes "analyze_input_script tx i = (P2PK, info)" "i < length (tx_input_slots tx)"
  shows "expected_xonly_for_position tx i 0 = Ok (take 32 (drop 1 (spk_script (input_spk tx i))))"
proof -
  let ?spk = "input_spk tx i"
  obtain bs where bs: "get_range (spk_script ?spk) 0 (spk_script_len ?spk) = Some bs" "detect_script_type bs (length bs) = P2PK"
    using assms(1)
    by (auto simp: analyze_input_script_def try_analyze_input_script_def Let_def input_spk_def bind_eq_Some_conv
        split: option.splits if_splits sum.splits)
  then have take: "bs = take (spk_script_len ?spk) (spk_script ?spk)" by (auto simp: get_range_def split: if_splits)
  obtain key where key: "length key = 32" "bs = p2pk_script key"
    using bs(2) is_p2pk_script_iff [of bs] by (auto simp: detect_script_type_def split: if_splits)
  then have "spk_script ?spk = p2pk_script key @ drop (spk_script_len ?spk) (spk_script ?spk)"
    using take append_take_drop_id by metis
  then have "take 32 (drop 1 (spk_script ?spk)) = take 32 (drop 1 (p2pk_script key @ drop (spk_script_len ?spk) (spk_script ?spk)))"
    by simp
  also have "\<dots> = key" using key(1) by (simp add: p2pk_script_def)
  finally have "take 32 (drop 1 (spk_script ?spk)) = key" .
  moreover have "p2pk_xonly bs = Some key" using key p2pk_xonly_iff by blast
  ultimately show ?thesis
    using assms bs(1) by (simp add: expected_xonly_for_position_def p2pk_xonly_for_position_def get_at_def input_spk_def)
qed

lemma sign_p2pk_loop_adds:
  assumes "signer_laws env schnorr_verify" "session_ok env schnorr_verify (c, tx)" "i < tx_num_inputs tx"
    "ti_sig_count (tx_input_slots tx ! i) = 0" "analyze_input_script tx i \<noteq> (P2SH, None)"
    "expected_xonly_for_position tx i 0 = Ok target"
  shows "step_adds env schnorr_verify (c, tx) 0 (sign_p2pk_loop env seeds i target SigAll entropy (c, tx))"
proof (induction seeds)
  case (Cons seed seeds)
  show ?case
  proof (cases "direct_address_material env c seed target")
    case (Some m)
    note w = session_write [OF assms(1-4) direct_material_for [OF Some] _ assms(6) disjI1 [OF assms(5)]]
    show ?thesis
      using Some w session_refl [OF assms(2)]
      by (cases "sign_input_with_optional_entropy env tx i (km_private_key m) SigAll entropy") (auto simp: step_adds_def)
  qed (use Cons in simp)
qed (simp add: step_unchanged assms(2))

lemma sign_p2pk_input_adds:
  assumes "signer_laws env schnorr_verify" "session_ok env schnorr_verify st" "i < tx_num_inputs (snd st)"
    "analyze_input_script (snd st) i = (P2PK, info)"
  shows "step_adds env schnorr_verify st 0 (sign_p2pk_input env SigAll entropy i st)"
proof -
  obtain c tx where st: "st = (c, tx)" by fastforce
  have "expected_xonly_for_position tx i 0 = Ok (take 32 (drop 1 (spk_script (input_spk tx i))))"
    using p2pk_target [OF assms(4)] session_input [OF assms(2,3)] st by simp
  then show ?thesis
    using sign_p2pk_loop_adds [OF assms(1), of c tx i] step_unchanged [OF assms(2)] assms st
    by (simp add: sign_p2pk_input_def Let_def)
qed

section \<open>Multisig inputs of a session\<close>

lemma parsed_multisig_length: "multisig_of t s = Some info \<Longrightarrow> unat (mi_n info) \<le> length (mi_pubkeys info)"
  by (auto simp: multisig_of_def parse_multisig_script_def signer_multisig_def multisig_info_new_def Let_def bind_eq_Some_conv
      split: if_splits)

lemma u8_position: "p < unat (n :: u8) \<Longrightarrow> unat (word_of_nat p :: u8) = p"
  using unat_u8_less [of n] by (simp add: unat_of_nat)

lemma multisig_expected:
  assumes "analyze_input_script tx i = (t, Some info)" "t = Multisig \<or> t = P2SH" "p < unat (mi_n info)"
  shows "expected_xonly_for_position tx i (word_of_nat p) = Ok (mi_pubkeys info ! p)"
proof -
  have "\<exists>t s. multisig_of t s = Some info"
    using assms(1)
    by (auto simp: analyze_input_script_def try_analyze_input_script_def Let_def bind_eq_Some_conv
        split: option.splits if_splits sum.splits)
  then have n: "unat (mi_n info) \<le> length (mi_pubkeys info)" using parsed_multisig_length by blast
  show ?thesis
    using assms n u8_position [OF assms(3)] by (auto simp: expected_xonly_for_position_def multisig_xonly_for_position_def get_range_def get_at_def)
qed

lemma account_positions_nth:
  assumes "account_positions c info ! seed = Some pos" "seed < sc_num_seeds c" "sc_num_seeds c \<le> 8"
  shows "\<exists>p<unat (mi_n info). pos = word_of_nat p \<and> context_account_xonly c seed = Some (mi_pubkeys info ! p)"
  using assms by (auto simp: account_positions_def bind_eq_Some_conv find_Some_iff)

lemma multisig_material_ok:
  assumes ok: "context_ok env c" "sc_num_seeds c = sc_num_seeds c0" "sc_account_xonly c = sc_account_xonly c0"
    and seed: "seed < sc_num_seeds c" and p: "p < unat (mi_n info)"
    and m: "multisig_material env c (account_positions c0 info) seed (word_of_nat p) (mi_pubkeys info ! p) = (r, c')"
  shows "context_ok env c' \<and> sc_num_seeds c' = sc_num_seeds c \<and> sc_account_xonly c' = sc_account_xonly c
    \<and> (\<forall>m. r = Some m \<longrightarrow> material_for env (mi_pubkeys info ! p) m)"
proof (cases "account_positions c0 info ! seed = Some (word_of_nat p)")
  case True
  have "sc_num_seeds c0 \<le> 8" "seed < sc_num_seeds c0" using ok seed by (auto simp: context_ok_def)
  then obtain q where q: "q < unat (mi_n info)" "(word_of_nat p :: u8) = word_of_nat q" "context_account_xonly c0 seed = Some (mi_pubkeys info ! q)"
    using account_positions_nth [OF True] by blast
  have "p = q" using q p u8_position by metis
  moreover have "context_account_xonly c seed = context_account_xonly c0 seed" by (simp add: context_account_xonly_def ok)
  ultimately show ?thesis
    using m True q ok account_material_for [OF ok(1), of seed] by (auto simp: multisig_material_def)
next
  case False
  then show ?thesis using m ok cached_address_material_ok [OF ok(1)] by (auto simp: multisig_material_def split: if_splits)
qed

lemma sign_position_loop_adds:
  assumes laws: "signer_laws env schnorr_verify" and ok: "session_ok env schnorr_verify (c, tx)" and i: "i < tx_num_inputs tx"
    and script: "analyze_input_script tx i = (t, Some info)" "t = Multisig \<or> t = P2SH" and p: "p < unat (mi_n info)"
    and c0: "sc_num_seeds c = sc_num_seeds c0" "sc_account_xonly c = sc_account_xonly c0"
    and seeds: "\<forall>seed\<in>set seeds. seed < sc_num_seeds c"
  shows "step_adds env schnorr_verify (c, tx) 0
    (sign_position_loop env seeds i (account_positions c0 info) (word_of_nat p) (mi_pubkeys info ! p) SigAll entropy (c, tx))"
  using ok c0 seeds
proof (induction seeds arbitrary: c)
  case (Cons seed seeds)
  obtain r c1 where m: "multisig_material env c (account_positions c0 info) seed (word_of_nat p) (mi_pubkeys info ! p) = (r, c1)"
    by fastforce
  note mat = multisig_material_ok [OF _ Cons.prems(2,3) _ p m]
  have c1: "context_ok env c1" "sc_num_seeds c1 = sc_num_seeds c" "sc_account_xonly c1 = sc_account_xonly c"
    "\<And>m. r = Some m \<Longrightarrow> material_for env (mi_pubkeys info ! p) m"
    using mat Cons.prems by (auto simp: session_ok_def)
  have s1: "session_ok env schnorr_verify (c1, tx)" using Cons.prems(1) c1(1) by (simp add: session_ok_def)
  have pre: "session_adds env schnorr_verify (c, tx) 0 (c1, tx)"
    using session_refl [OF s1] c1 by (simp add: session_adds_def)
  show ?case
  proof (cases r)
    case None
    then show ?thesis using m Cons.IH [OF s1] Cons.prems c1(2,3) step_prefix [OF pre, of 0] by simp
  next
    case (Some mat)
    have script': "analyze_input_script tx i \<noteq> (P2SH, None)" using script by simp
    show ?thesis
    proof (cases "sign_input_with_optional_entropy env tx i (km_private_key mat) SigAll entropy")
      case (Inl e)
      then show ?thesis using m Some pre by (auto simp: step_adds_def)
    next
      case (Inr sig)
      obtain added inp where a: "append_signature sig 1 (word_of_nat p) (km_compressed_public_key mat) (tx_input_slots tx ! i) = (added, inp)"
        by fastforce
      have "session_adds env schnorr_verify (c1, tx) (if added then 1 else 0) (c1, upd_input i (\<lambda>_. inp) tx)"
        using session_append [OF laws s1 i a c1(4) [OF Some] Inr multisig_expected [OF script p] script'] by simp
      then show ?thesis
        using m Some Inr a session_trans [OF pre] by (auto simp: step_adds_def)
    qed
  qed
qed (simp add: step_unchanged)

lemma analysis_kept:
  assumes "session_adds env schnorr_verify st n st'" "i < tx_num_inputs (snd st)" "session_ok env schnorr_verify st"
  shows "tx_num_inputs (snd st') = tx_num_inputs (snd st)"
    "analyze_input_script (snd st') i = analyze_input_script (snd st) i"
proof -
  have un: "unsigned_tx (snd st') = unsigned_tx (snd st)" using assms(1) by (simp add: session_adds_def adds_def)
  then show num: "tx_num_inputs (snd st') = tx_num_inputs (snd st)"
    using unsigned_fields(1) by metis
  have "i < length (tx_input_slots (snd st'))" "i < length (tx_input_slots (snd st))"
    using session_input(1) [OF session_adds_ok [OF assms(1)]] session_input(1) [OF assms(3)] assms(2) num by auto
  then show "analyze_input_script (snd st') i = analyze_input_script (snd st) i" using un unsigned_analysis by metis
qed

lemma find_index_holds: "find_index P xs = Some i \<Longrightarrow> i < length xs \<and> P (xs ! i)"
  by (induction xs arbitrary: i) (auto split: if_splits)

lemma sign_ms45_step_adds:
  assumes laws: "signer_laws env schnorr_verify" and ok: "session_ok env schnorr_verify (c, tx)" and i: "i < tx_num_inputs tx"
    and script: "analyze_input_script tx i = (t, Some info)" "t = Multisig \<or> t = P2SH"
  shows "step_adds env schnorr_verify (c, tx) 0 (sign_ms45_step env i info SigAll entropy hint seed (c, tx))"
proof (cases "ms45_material env c seed hint")
  case (Some m)
  let ?x = "take 32 (drop 1 (km_compressed_public_key m))"
  have script': "analyze_input_script tx i \<noteq> (P2SH, None)" using script by simp
  show ?thesis
  proof (cases "find_index (\<lambda>candidate. candidate = ?x) (take (unat (mi_n info)) (mi_pubkeys info))")
    case None
    then show ?thesis using Some step_unchanged [OF ok] by (simp add: sign_ms45_step_def)
  next
    case p: (Some p)
    then have "p < unat (mi_n info)" "mi_pubkeys info ! p = ?x" by (auto dest!: find_index_holds)
    then have key: "expected_xonly_for_position tx i (word_of_nat p) = Ok ?x" using multisig_expected [OF script, of p] by simp
    show ?thesis
    proof (cases "sign_input_with_optional_entropy env tx i (km_private_key m) SigAll entropy")
      case (Inl e)
      then show ?thesis using Some p step_unchanged [OF ok] by (auto simp: sign_ms45_step_def Let_def)
    next
      case (Inr sig)
      obtain added inp where a: "append_signature sig 1 (word_of_nat p) (km_compressed_public_key m) (tx_input_slots tx ! i) = (added, inp)"
        by fastforce
      have "session_adds env schnorr_verify (c, tx) (if added then 1 else 0) (c, upd_input i (\<lambda>_. inp) tx)"
        by (rule session_append [OF laws ok i a ms45_material_for [OF Some] Inr key script'])
      then show ?thesis using Some p Inr a step_unchanged [OF ok, of "Ok 0" 0] by (auto simp: sign_ms45_step_def Let_def step_adds_def)
    qed
  qed
qed (simp add: sign_ms45_step_def step_unchanged ok)

lemma sign_multisig_input_adds:
  assumes laws: "signer_laws env schnorr_verify" and ok: "session_ok env schnorr_verify st" and i: "i < tx_num_inputs (snd st)"
    and script: "analyze_input_script (snd st) i = (t, Some info)" "t = Multisig \<or> t = P2SH"
  shows "step_adds env schnorr_verify st 0 (sign_multisig_input env info SigAll entropy i st)"
proof -
  have kept: "session_ok env schnorr_verify st'" "i < tx_num_inputs (snd st')" "analyze_input_script (snd st') i = (t, Some info)"
      "sc_num_seeds (fst st') = sc_num_seeds (fst st)" "sc_account_xonly (fst st') = sc_account_xonly (fst st)"
    if "session_adds env schnorr_verify st n st'" for n st'
    using session_adds_ok [OF that] analysis_kept [OF that i ok] i script that by (auto simp: session_adds_def)
  have ms45: "step_adds env schnorr_verify st' 0 (sign_ms45_step env i info SigAll entropy hint seed st')"
    if "session_adds env schnorr_verify st n st'" for hint seed n st'
    using sign_ms45_step_adds [OF laws, of "fst st'" "snd st'"] kept [OF that] script(2) by simp
  have "step_adds env schnorr_verify st' 0 (sign_multisig_position env i info SigAll entropy (account_positions (fst st) info) p st')"
    if "session_adds env schnorr_verify st n st'" "p < unat (mi_n info)" for n st' p
    using sign_position_loop_adds [OF laws, of "fst st'" "snd st'"] kept [OF that(1)] script(2) that(2)
      step_unchanged [OF kept(1) [OF that(1)], of "Ok 0" 0]
    by (cases st') (auto simp: sign_multisig_position_def Let_def)
  then show ?thesis
    using ms45 session_refl [OF ok]
    by (auto simp: sign_multisig_input_def Let_def intro!: sum_loop_adds [of _ env schnorr_verify st])
qed

section \<open>Covenant inputs of a session\<close>

lemma active_candidates:
  assumes "try_fold (append_active_candidate resolved selectors chosen) cs ps = Ok candidates"
    and "\<forall>(key, pos)\<in>set cs. \<exists>b. key_at resolved pos = Ok b \<and> matches_selectors b selectors chosen \<and> key = bk_key b"
  shows "\<forall>(key, pos)\<in>set candidates. \<exists>b. key_at resolved pos = Ok b \<and> matches_selectors b selectors chosen \<and> key = bk_key b"
  using assms
proof (induction ps arbitrary: cs)
  case (Cons p ps)
  then obtain cs1 where cs1: "append_active_candidate resolved selectors chosen cs p = Ok cs1"
    "try_fold (append_active_candidate resolved selectors chosen) cs1 ps = Ok candidates" by (auto simp: rbind_Inr_iff)
  then have "\<forall>(key, pos)\<in>set cs1. \<exists>b. key_at resolved pos = Ok b \<and> matches_selectors b selectors chosen \<and> key = bk_key b"
    using Cons.prems(2) by (auto simp: append_active_candidate_def rbind_Inr_iff split: if_splits)
  then show ?case using Cons.IH cs1(2) by blast
qed auto

lemma candidate_key_expected:
  assumes "candidate_keys_for_input tx i = Ok candidates" "(key, pos) \<in> set candidates"
    "analyze_input_script tx i = (P2SH, None)"
  shows "expected_xonly_for_position tx i pos = Ok key \<and> covenant_position_matches_execution tx i pos = Ok ()"
proof -
  let ?inp = "tx_input_slots tx ! i"
  obtain script resolved where r: "i < length (tx_input_slots tx)" "ti_covenant_execution_present ?inp" "checked_redeem_bytes tx i = Ok script"
    "resolve_covenant_branches script = Ok resolved"
    "ti_covenant_execution_true_mask ?inp AND NOT (ti_covenant_execution_mask ?inp) = 0"
    "ti_covenant_execution_mask ?inp = br_selector_mask resolved"
    "collect_active_candidate_keys resolved (ti_covenant_execution_mask ?inp) (ti_covenant_execution_true_mask ?inp) = Ok candidates"
    using assms(1)
    by (auto simp: candidate_keys_for_input_def rbind_Inr_iff get_at_def scan_active_candidate_keys_def
        resolve_execution_branches_def require_single_active_candidate_def split: if_splits)
  obtain b where b: "key_at resolved pos = Ok b" "matches_selectors b (ti_covenant_execution_mask ?inp) (ti_covenant_execution_true_mask ?inp)"
    "key = bk_key b"
    using active_candidates [OF r(7) [unfolded collect_active_candidate_keys_def]] assms(2) by auto
  have "resolved_execution tx i = Ok (?inp, resolved)"
    using r by (auto simp: resolved_execution_Ok validate_covenant_execution_binding_def)
  then show ?thesis
    using r b assms(3)
    by (simp add: expected_xonly_for_position_def covenant_xonly_for_position_def covenant_position_matches_execution_def)
qed

lemma covenant_material_ok:
  assumes "context_ok env c" "covenant_material env c seed target = (r, c')"
  shows "context_ok env c' \<and> sc_num_seeds c' = sc_num_seeds c \<and> sc_account_xonly c' = sc_account_xonly c
    \<and> (\<forall>m. r = Some m \<longrightarrow> material_for env target m)"
proof (cases "context_account_xonly c seed = Some target")
  case True
  then show ?thesis using assms account_material_for [OF assms(1) True] by (auto simp: covenant_material_def)
next
  case False
  obtain q c1 where e: "cached_address_material env c seed target = (q, c1)" by fastforce
  then show ?thesis
    using cached_address_material_ok [OF assms(1) e] False assms(2)
    by (auto simp: covenant_material_def intro: kip22_material_for split: option.splits)
qed

lemma sign_candidate_loop_adds:
  assumes laws: "signer_laws env schnorr_verify" and ok: "session_ok env schnorr_verify (c, tx)" and i: "i < tx_num_inputs tx"
    and count: "ti_sig_count (tx_input_slots tx ! i) = 0"
    and key: "expected_xonly_for_position tx i (snd candidate) = Ok (fst candidate)"
    and branch: "covenant_position_matches_execution tx i (snd candidate) = Ok ()"
    and run: "sign_candidate_loop env active_seed seeds i candidate SigAll entropy (c, tx) = (r, st')"
  shows "\<exists>n. session_adds env schnorr_verify (c, tx) n st' \<and> (\<forall>k. r = Ok k \<longrightarrow> n = (if k then 1 else 0))
    \<and> (r = Ok False \<longrightarrow> snd st' = tx)"
  using ok run
proof (induction seeds arbitrary: c)
  case Nil
  then show ?case using session_refl [OF Nil(1)] by (intro exI [of _ 0]) auto
next
  case (Cons seed seeds)
  show ?case
  proof (cases "seed_is_active active_seed seed")
    case True
    obtain q c1 where m: "covenant_material env c seed (fst candidate) = (q, c1)" by fastforce
    have c1: "context_ok env c1" "sc_num_seeds c1 = sc_num_seeds c" "sc_account_xonly c1 = sc_account_xonly c"
      "\<And>m. q = Some m \<Longrightarrow> material_for env (fst candidate) m"
      using covenant_material_ok [OF _ m] Cons.prems(1) by (auto simp: session_ok_def)
    have s1: "session_ok env schnorr_verify (c1, tx)" using Cons.prems(1) c1(1) by (simp add: session_ok_def)
    have pre: "session_adds env schnorr_verify (c, tx) 0 (c1, tx)" using session_refl [OF s1] c1 by (simp add: session_adds_def)
    show ?thesis
    proof (cases q)
      case None
      then have "sign_candidate_loop env active_seed seeds i candidate SigAll entropy (c1, tx) = (r, st')"
        using Cons.prems(2) True m by simp
      note rest = Cons.IH [OF s1 this]
      have "session_adds env schnorr_verify (c, tx) n st'" if "session_adds env schnorr_verify (c1, tx) n st'" for n
        using session_trans [OF pre that] by simp
      then show ?thesis using rest by blast
    next
      case (Some mat)
      note w = session_write [OF laws s1 i count c1(4) [OF Some] _ key disjI2 [OF branch]]
      show ?thesis
        using Cons.prems(2) True m Some pre session_trans [OF pre w]
        by (cases "sign_input_with_optional_entropy env tx i (km_private_key mat) SigAll entropy") auto
    qed
  qed (use Cons in auto)
qed

lemma sign_candidates_adds:
  assumes laws: "signer_laws env schnorr_verify" and ok: "session_ok env schnorr_verify st" and i: "i < tx_num_inputs (snd st)"
    and count: "ti_sig_count (tx_input_slots (snd st) ! i) = 0"
    and keys: "\<forall>(key, pos)\<in>set candidates. expected_xonly_for_position (snd st) i pos = Ok key
      \<and> covenant_position_matches_execution (snd st) i pos = Ok ()"
  shows "step_adds env schnorr_verify st 0 (sign_candidates env active_seed candidates i SigAll entropy st)"
  using ok i count keys
proof (induction candidates arbitrary: st)
  case Nil
  then show ?case by (simp add: step_unchanged)
next
  case (Cons candidate rest)
  obtain r st1 where run: "sign_candidate_loop env active_seed [0..<sc_num_seeds (fst st)] i candidate SigAll entropy st = (r, st1)"
    by (metis surj_pair)
  then obtain n where n: "session_adds env schnorr_verify st n st1" "\<forall>k. r = Ok k \<longrightarrow> n = (if k then 1 else 0)" "r = Ok False \<longrightarrow> snd st1 = snd st"
    using sign_candidate_loop_adds [OF laws, of "fst st" "snd st" i candidate active_seed "[0..<sc_num_seeds (fst st)]" entropy r st1]
      Cons.prems by (cases candidate) auto
  consider e where "r = Err e" | "r = Ok True" | "r = Ok False" by (metis sum.exhaust bool.exhaust)
  then show ?case
  proof cases
    case 3
    then have "snd st1 = snd st" and zero: "n = 0" using n(2,3) by auto
    then have "step_adds env schnorr_verify st1 0 (sign_candidates env active_seed rest i SigAll entropy st1)"
      using Cons.IH [of st1] Cons.prems session_adds_ok [OF n(1)] by simp
    then show ?thesis using run 3 step_prefix [OF n(1) [unfolded zero], of 0] by simp
  qed (use run n in \<open>auto simp: step_adds_def\<close>)
qed

lemma sign_covenant_input_adds:
  assumes "signer_laws env schnorr_verify" "session_ok env schnorr_verify st" "i < tx_num_inputs (snd st)"
    "analyze_input_script (snd st) i = (P2SH, None)"
  shows "step_adds env schnorr_verify st 0 (sign_covenant_input env active_seed SigAll entropy i st)"
proof (cases "ti_sig_count (tx_input_slots (snd st) ! i) = 0")
  case True
  show ?thesis
  proof (cases "candidate_keys_for_input (snd st) i")
    case (Inl e)
    then show ?thesis using True step_unchanged [OF assms(2)] by (simp add: sign_covenant_input_def)
  next
    case (Inr candidates)
    then show ?thesis
      using True sign_candidates_adds [OF assms(1-3) True] candidate_key_expected [OF Inr _ assms(4)]
      by (fastforce simp: sign_covenant_input_def)
  qed
qed (simp add: sign_covenant_input_def step_unchanged assms(2))

section \<open>Whole transactions\<close>

lemma sign_supported_input_adds:
  assumes "signer_laws env schnorr_verify" "session_ok env schnorr_verify st" "i < tx_num_inputs (snd st)"
  shows "step_adds env schnorr_verify st 0 (sign_supported_input env active_seed SigAll entropy i st)"
  using sign_p2pk_input_adds [OF assms] sign_multisig_input_adds [OF assms] sign_covenant_input_adds [OF assms] step_unchanged [OF assms(2), of "Ok 0" 0]
  by (auto simp: sign_supported_input_def split: prod.splits script_type.splits option.splits)

lemma sign_classified_input_adds:
  assumes "signer_laws env schnorr_verify" "session_ok env schnorr_verify st" "i < tx_num_inputs (snd st)"
  shows "step_adds env schnorr_verify st 0
    (sign_classified_account_input env active_seed SigAll entropy (analyze_input_script (snd st) i) i st)"
proof -
  obtain t info where a: "analyze_input_script (snd st) i = (t, info)" by fastforce
  have "t = Multisig \<or> t = P2SH" if "info \<noteq> None" "t \<noteq> P2PK"
    using that a by (auto simp: analyze_input_script_def try_analyze_input_script_def multisig_of_def Let_def bind_eq_Some_conv
        split: option.splits if_splits sum.splits)
  then show ?thesis
    using a sign_p2pk_input_adds [OF assms] sign_multisig_input_adds [OF assms] sign_covenant_input_adds [OF assms]
      step_unchanged [OF assms(2), of "Ok 0" 0]
    by (auto simp: sign_classified_account_input_def split: option.splits)
qed

lemma validated_inputs: "validate_base_transaction tx = Ok u \<Longrightarrow> 0 < tx_num_inputs tx \<and> tx_num_inputs tx \<le> length (tx_input_slots tx)"
  by (auto simp: validate_base_transaction_def rbind_Inr_iff validate_shape_iff)

lemma no_inputs_if_zero_adds:
  "step_adds env schnorr_verify st 0 r \<Longrightarrow>
   step_adds env schnorr_verify st 0 (no_inputs_if_zero r) \<and> fst (no_inputs_if_zero r) \<noteq> Ok 0"
  by (cases r; cases "fst r") (auto simp: no_inputs_if_zero_def step_adds_def)

text \<open>(C5) A signing session keeps every signature valid: whatever inputs a transaction has (pay-to-key, multisig with or without a
  derivation hint, covenant) and whatever keys the session holds, signing for \<open>All\<close> changes nothing but signature slots,
  and afterwards every slot that is used verifies, under the key the script has at the slot's position (for a covenant the key
  of the executed branch), with no position twice. A session that succeeds reports the number of signatures it added,
  at least one; one that fails part way also leaves valid signatures only.\<close>

theorem session_signatures_valid:
  assumes "signer_laws env schnorr_verify" "tx_arrays tx" "signatures_valid env schnorr_verify tx"
    and "c \<in> {from_seeds env seeds, from_account_raw env accounts, from_account_sets env accounts ms45_accounts}"
    and "sign_transaction_with_context env c SigAll active_seed signing_entropy tx = (r, (c', tx'))"
  shows "unsigned_tx tx' = unsigned_tx tx \<and> signatures_valid env schnorr_verify tx'
    \<and> (\<forall>n. r = Ok n \<longrightarrow> 0 < n \<and> signature_total tx' = signature_total tx + n)"
proof (cases "validate_base_transaction tx")
  case (Inl e)
  then show ?thesis using assms by (auto simp: sign_transaction_with_context_def)
next
  case (Inr u)
  let ?st = "(c, tx)"
  have "context_ok env c" using assms(4) from_seeds_ok from_account_raw_ok from_account_sets_ok by blast
  then have ok: "session_ok env schnorr_verify ?st"
    using validated_inputs [OF Inr] assms(2,3) by (simp add: session_ok_def sane_def)
  have "step_adds env schnorr_verify ?st 0 (sum_loop (sign_supported_input env active_seed SigAll signing_entropy) [0..<tx_num_inputs tx] 0 ?st)"
  proof (rule sum_loop_adds)
    fix i st
    assume i: "i \<in> set [0..<tx_num_inputs tx]" and "\<exists>n. session_adds env schnorr_verify ?st n st"
    then obtain n where n: "session_adds env schnorr_verify ?st n st" by blast
    show "step_adds env schnorr_verify st 0 (sign_supported_input env active_seed SigAll signing_entropy i st)"
      using analysis_kept(1) [OF n _ ok, of i] i by (intro sign_supported_input_adds [OF assms(1) session_adds_ok [OF n]]) simp
  qed (use session_refl [OF ok] in blast)
  note no_inputs_if_zero_adds [OF this]
  then show ?thesis
    using Inr assms(5) by (auto simp: sign_transaction_with_context_def step_adds_def session_adds_def adds_def sane_def)
qed

lemma account_input_valid:
  assumes "signer_laws env schnorr_verify" "tx_arrays tx" "signatures_valid env schnorr_verify tx"
  shows "let tx' = snd (snd (sign_multisig_account_sets_input_with_entropy env i accounts ms45_accounts SigAll active_seed signing_entropy tx)) in
    unsigned_tx tx' = unsigned_tx tx \<and> signatures_valid env schnorr_verify tx'"
proof (cases "rbind (validate_base_transaction tx) (\<lambda>_. ensure_input_index tx i)")
  case (Inl e)
  then show ?thesis using assms by (simp add: sign_multisig_account_sets_input_with_entropy_def Let_def)
next
  case (Inr u)
  let ?st = "(from_account_sets env accounts ms45_accounts, tx)"
  have "i < tx_num_inputs tx" "tx_num_inputs tx \<le> length (tx_input_slots tx)"
    using Inr validated_inputs [of tx] by (auto simp: rbind_Inr_iff ensure_input_index_def split: if_splits)
  then have "step_adds env schnorr_verify ?st 0
      (sign_classified_account_input env active_seed SigAll signing_entropy (analyze_input_script tx i) i ?st)"
    using sign_classified_input_adds [OF assms(1), of ?st i] assms(2,3)
      from_account_sets_ok [of env accounts ms45_accounts] by (simp add: session_ok_def sane_def)
  then show ?thesis
    using Inr by (auto simp: sign_multisig_account_sets_input_with_entropy_def sign_account_context_input_def Let_def step_adds_def
        session_adds_def adds_def sane_def)
qed

section \<open>One raw key\<close>

lemma validated_scripts:
  "validate_base_transaction tx = Ok u \<Longrightarrow> i < tx_num_inputs tx \<Longrightarrow> spk_script_len (input_spk tx i) \<le> MAX_SCRIPT_SIZE"
  by (force simp: validate_base_transaction_def rbind_Inr_iff validate_inputs_def try_fold_unit input_spk_def split: if_splits)

text \<open>What makes an input one the key can sign, in terms of what signing leaves alone.\<close>

definition pays_key :: "transaction \<Rightarrow> bytes \<Rightarrow> nat \<Rightarrow> bool" where
  "pays_key tx xonly i \<longleftrightarrow>
     i < tx_num_inputs tx \<and> input_matches_xonly tx i xonly \<and> spk_script_len (input_spk tx i) \<le> MAX_SCRIPT_SIZE"

lemma same_pays_key:
  assumes "unsigned_tx tx' = unsigned_tx tx" "tx_num_inputs tx \<le> length (tx_input_slots tx)"
  shows "tx_num_inputs tx' = tx_num_inputs tx" "length (tx_input_slots tx') = length (tx_input_slots tx)"
    "pays_key tx' xonly i = pays_key tx xonly i"
proof -
  show num: "tx_num_inputs tx' = tx_num_inputs tx" "length (tx_input_slots tx') = length (tx_input_slots tx)"
    using assms(1) unsigned_fields(1,2) by metis+
  have "i < tx_num_inputs tx \<Longrightarrow> input_spk tx' i = input_spk tx i"
    using assms num unsigned_fields(3,4) unfolding input_spk_def by (metis order_less_le_trans)
  then show "pays_key tx' xonly i = pays_key tx xonly i" using num by (auto simp: pays_key_def input_matches_xonly_def)
qed

lemma pays_key_expected:
  assumes "pays_key tx xonly i" "tx_arrays tx" "tx_num_inputs tx \<le> length (tx_input_slots tx)"
  shows "analyze_input_script tx i = (P2PK, None) \<and> expected_xonly_for_position tx i 0 = Ok xonly"
proof -
  have "i < length (tx_input_slots tx)" using assms by (simp add: pays_key_def)
  moreover from this have "input_arrays (tx_input_slots tx ! i)" using assms(2) by (simp add: tx_arrays_def)
  ultimately show ?thesis
    using assms(1) by (intro p2pk_expected) (auto simp: pays_key_def input_matches_xonly_def input_arrays_def input_spk_def)
qed

lemma store_own_signature:
  assumes laws: "signer_laws env schnorr_verify" and tx: "tx_arrays tx" "tx_num_inputs tx \<le> length (tx_input_slots tx)"
    and pays: "pays_key tx (take 32 (drop 1 compressed)) i"
    and key: "compressed_pubkey_from_raw_key (se_curve env) key = Ok compressed"
    and sign: "sign_input_with_optional_entropy env tx i key SigAll entropy = Ok sig"
  defines "tx' \<equiv> store_signature i sig SigAll 0 compressed tx"
  shows "tx_arrays tx'" "unsigned_tx tx' = unsigned_tx tx" "input_signed (se_keyed env) schnorr_verify tx' i 1"
    "j < tx_num_inputs tx \<Longrightarrow> j \<noteq> i \<Longrightarrow> input_signed (se_keyed env) schnorr_verify tx' j m = input_signed (se_keyed env) schnorr_verify tx j m"
proof -
  let ?m = "\<lparr>km_private_key = key, km_compressed_public_key = compressed\<rparr>"
  have m: "material_for env (take 32 (drop 1 compressed)) ?m"
    using key by (auto simp: material_for_def compressed_pubkey_from_raw_key_def split: option.splits)
  have i: "i < tx_num_inputs tx" using pays by (simp add: pays_key_def)
  note e = pays_key_expected [OF pays tx]
  have "signature_valid (se_keyed env) schnorr_verify tx i 0 sig" "length sig = 64"
    using sign_input_valid [OF laws m, of tx i entropy sig 0] e sign by auto
  then obtain inp where inp: "tx' = upd_input i (\<lambda>_. inp) tx" "unsigned_input inp = unsigned_input (tx_input_slots tx ! i)"
    "length (ti_sigs inp) = MAX_SIGS_PER_INPUT" "\<forall>s\<in>set (ti_sigs inp). length (is_signature s) = 64"
    "input_signed (se_keyed env) schnorr_verify tx' i 1"
    unfolding tx'_def using store_signature_slots [OF tx i] by metis
  then show "tx_arrays tx'" "unsigned_tx tx' = unsigned_tx tx" "input_signed (se_keyed env) schnorr_verify tx' i 1"
    "j < tx_num_inputs tx \<Longrightarrow> j \<noteq> i \<Longrightarrow> input_signed (se_keyed env) schnorr_verify tx' j m = input_signed (se_keyed env) schnorr_verify tx j m"
    using slots_kept [OF tx i inp(2-4)] unsigned_upd [OF inp(2)] by simp_all
qed

lemma sign_input_total:
  assumes "\<forall>msg aux. \<exists>sig. se_sign_aux env key msg aux = Ok sig"
  shows "\<exists>sig. sign_input_with_optional_entropy env tx i key t entropy = Ok sig"
  using assms by (cases entropy) (auto simp: sign_input_with_optional_entropy_def sign_input_def sign_input_with_entropy_def
      schnorr_sign_def Let_def)

lemma store_loop:
  assumes laws: "signer_laws env schnorr_verify"
    and key: "compressed_pubkey_from_raw_key (se_curve env) key = Ok compressed"
    and sign: "\<forall>msg aux. \<exists>sig. se_sign_aux env key msg aux = Ok sig"
    and step: "\<And>i tx. pays_key tx (take 32 (drop 1 compressed)) i \<Longrightarrow> f i tx = sign_and_store env key compressed SigAll entropy i tx"
    and tx: "tx_arrays tx" "tx_num_inputs tx \<le> length (tx_input_slots tx)"
    and pays: "\<forall>i\<in>set xs. pays_key tx (take 32 (drop 1 compressed)) i"
  shows "\<exists>tx'. sum_loop f xs acc tx = (Ok (acc + length xs), tx') \<and> tx_arrays tx' \<and> unsigned_tx tx' = unsigned_tx tx
    \<and> (\<forall>i<tx_num_inputs tx. i \<in> set xs \<or> input_signed (se_keyed env) schnorr_verify tx i 1 \<longrightarrow> input_signed (se_keyed env) schnorr_verify tx' i 1)"
  using tx pays
proof (induction xs arbitrary: acc tx)
  case (Cons i xs)
  have pays: "pays_key tx (take 32 (drop 1 compressed)) i" using Cons.prems(3) by simp
  obtain sig where sig: "sign_input_with_optional_entropy env tx i key SigAll entropy = Ok sig" using sign_input_total [OF sign] by blast
  let ?tx = "store_signature i sig SigAll 0 compressed tx"
  have f: "f i tx = (Ok 1, ?tx)" using step [OF pays] sig by (simp add: sign_and_store_def sign_one_def)
  note own = store_own_signature [OF laws Cons.prems(1,2) pays key sig]
  note same = same_pays_key [OF own(2) Cons.prems(2)]
  obtain tx' where tx': "sum_loop f xs (acc + 1) ?tx = (Ok (acc + 1 + length xs), tx')" "tx_arrays tx'" "unsigned_tx tx' = unsigned_tx ?tx"
    "\<forall>j<tx_num_inputs tx. j \<in> set xs \<or> input_signed (se_keyed env) schnorr_verify ?tx j 1 \<longrightarrow> input_signed (se_keyed env) schnorr_verify tx' j 1"
    using Cons.IH [of ?tx "acc + 1"] own(1) Cons.prems same by auto
  moreover have "input_signed (se_keyed env) schnorr_verify ?tx j 1"
    if "j < tx_num_inputs tx" "j = i \<or> input_signed (se_keyed env) schnorr_verify tx j 1" for j
    using that own(3) own(4) [OF that(1)] by (cases "j = i") auto
  ultimately show ?case using f own(2) by auto
qed simp

lemma all_signed_once:
  assumes "tx_arrays tx" "tx_num_inputs tx \<le> length (tx_input_slots tx)" "0 < tx_num_inputs tx"
    "\<forall>i<tx_num_inputs tx. pays_key tx xonly i \<and> input_signed keyed schnorr_verify tx i 1"
  shows "kspt_is_fully_signed keyed schnorr_verify tx"
proof -
  have "required_for_input tx i = Some 1 \<and> verified_count keyed schnorr_verify tx i SourceKspt = Ok 1" if "i < tx_num_inputs tx" for i
    using that assms pays_key_expected [of tx xonly i] verified_kspt_count_iff [of tx i keyed schnorr_verify 1]
    by (auto simp: required_for_input_def)
  then show ?thesis using assms by (auto simp: kspt_is_fully_signed_iff)
qed

text \<open>(C6) A transaction all of whose inputs pay to one key is completed by one call with that key, by the signer of all inputs and by
  the signer of the matching inputs alike: whatever signatures were there before, the call reports one signature per
  input, changes nothing else, and the result passes the completion check.\<close>

theorem raw_key_completes:
  assumes "signer_laws env schnorr_verify" "tx_arrays tx" "validate_base_transaction tx = Ok ()"
    and "compressed_pubkey_from_raw_key (se_curve env) private_key = Ok compressed"
    and "\<forall>i<tx_num_inputs tx. input_matches_xonly tx i (take 32 (drop 1 compressed))"
    and "\<forall>msg aux. \<exists>sig. se_sign_aux env private_key msg aux = Ok sig"
    and "(r, tx') \<in> {sign_transaction_in_place_impl env private_key SigAll optional_entropy tx,
      sign_matching_inputs_in_place_with_entropy env private_key SigAll signing_entropy tx}"
  shows "r = Ok (tx_num_inputs tx) \<and> unsigned_tx tx' = unsigned_tx tx \<and> kspt_is_fully_signed (se_keyed env) schnorr_verify tx'"
proof -
  let ?x = "take 32 (drop 1 compressed)" and ?is = "[0..<tx_num_inputs tx]"
  have n: "0 < tx_num_inputs tx" "tx_num_inputs tx \<le> length (tx_input_slots tx)" using validated_inputs [OF assms(3)] by auto
  have pays: "\<forall>i\<in>set ?is. pays_key tx ?x i" using validated_scripts [OF assms(3)] assms(5) by (simp add: pays_key_def)
  note loop = store_loop [OF assms(1,4,6) _ assms(2) n(2) pays, of _ _ 0]
  let ?good = "\<lambda>tx'. tx_arrays tx' \<and> unsigned_tx tx' = unsigned_tx tx
      \<and> (\<forall>i<tx_num_inputs tx. input_signed (se_keyed env) schnorr_verify tx' i 1)"
  obtain tx1 where tx1: "sum_loop (sign_and_store env private_key compressed SigAll optional_entropy) ?is 0 tx = (Ok (tx_num_inputs tx), tx1)" "?good tx1"
    using loop [of "sign_and_store env private_key compressed SigAll optional_entropy" optional_entropy] by auto
  obtain tx2 where tx2: "sum_loop (sign_matching_step env private_key compressed SigAll signing_entropy) ?is 0 tx = (Ok (tx_num_inputs tx), tx2)" "?good tx2"
    using loop [of "sign_matching_step env private_key compressed SigAll signing_entropy" "Some signing_entropy"]
    by (auto simp: sign_matching_step_def pays_key_def)
  have "(r, tx') = (Ok (tx_num_inputs tx1), tx1) \<or> (r, tx') = (Ok (tx_num_inputs tx), tx2)"
    using assms(3,4,7) tx1(1) tx2(1) n(1)
    by (auto simp: sign_transaction_in_place_impl_def sign_matching_inputs_in_place_with_entropy_def no_inputs_if_zero_def)
  moreover have "tx_num_inputs tx1 = tx_num_inputs tx" using same_pays_key(1) [of tx1 tx] tx1(2) n(2) by blast
  ultimately have tx': "r = Ok (tx_num_inputs tx)" "tx_arrays tx'" "unsigned_tx tx' = unsigned_tx tx"
    "\<forall>i<tx_num_inputs tx. input_signed (se_keyed env) schnorr_verify tx' i 1"
    using tx1(2) tx2(2) by auto
  then show ?thesis
    using n pays same_pays_key [OF tx'(3) n(2)] all_signed_once [of tx' ?x] by auto
qed

section \<open>One account\<close>

lemma sum_loop_keeps:
  assumes "\<And>x st. x \<in> set xs \<Longrightarrow> P st \<Longrightarrow> P (snd (f x st))" "P st"
  shows "P (snd (sum_loop f xs acc st))"
  using assms
proof (induction xs arbitrary: acc st)
  case (Cons x xs)
  have "P (snd (f x st))" using Cons.prems by simp
  then show ?case using Cons.IH [of "snd (f x st)"] Cons.prems(1) by (cases "f x st"; cases "fst (f x st)") auto
qed simp

definition keeps :: "('s, 'p) signer_env \<Rightarrow> (bytes \<Rightarrow> bytes \<Rightarrow> bytes \<Rightarrow> bool) \<Rightarrow> transaction \<Rightarrow> transaction \<Rightarrow> bool" where
  "keeps env schnorr_verify tx tx' \<longleftrightarrow> sane env schnorr_verify tx' \<and> unsigned_tx tx' = unsigned_tx tx"

lemma keeps_trans: "keeps env schnorr_verify tx tx1 \<Longrightarrow> keeps env schnorr_verify tx1 tx2 \<Longrightarrow> keeps env schnorr_verify tx tx2"
  by (simp add: keeps_def)

lemma keeps_store:
  assumes laws: "signer_laws env schnorr_verify" and sane: "sane env schnorr_verify tx"
    and pays: "pays_key tx target i" and m: "material_for env target m"
    and sign: "sign_input_with_optional_entropy env tx i (km_private_key m) SigAll entropy = Ok sig"
  shows "keeps env schnorr_verify tx (store_signature i sig SigAll 0 (km_compressed_public_key m) tx)"
proof -
  have i: "i < tx_num_inputs tx" using pays by (simp add: pays_key_def)
  have e: "analyze_input_script tx i = (P2PK, None)" "expected_xonly_for_position tx i 0 = Ok target"
    using pays_key_expected [OF pays] sane by (auto simp: sane_def)
  have "signature_valid (se_keyed env) schnorr_verify tx i 0 sig" "length sig = 64"
    using sign_input_valid [OF laws m sign e(2)] e(1) by auto
  from write_valid [OF sane i this refl] show ?thesis by (auto simp: keeps_def)
qed

lemma standard_key_for:
  assumes "derive_standard_input_key env tx i account target = Ok (Some key)" "public_key_compressed (se_curve env) key = Ok compressed"
  shows "material_for env target \<lparr>km_private_key = xk_key key, km_compressed_public_key = compressed\<rparr>"
proof -
  have "public_key_x_only (se_curve env) key = Ok target"
  proof (cases "ti_has_derivation_hint (tx_input_slots tx ! i)")
    case True
    then show ?thesis
      using assms(1) by (auto simp: derive_standard_input_key_def derive_hinted_input_key_def rbind_Inr_iff Let_def split: if_splits)
  next
    case False
    then obtain idx is_change where "find_address_index_for_pubkey (se_curve env) (se_sha512 env) account target = Some (idx, is_change)"
      and key: "derive_child_key env account (word_of_nat idx) is_change = Ok key"
      using assms(1) by (auto simp: derive_standard_input_key_def rbind_Inr_iff Let_def split: option.splits)
    then have "chain_xonly (se_curve env) (se_sha512 env) account is_change idx = Some target"
      by (auto simp: find_address_scan scan_chains_Some)
    then show ?thesis using key by (auto simp: chain_xonly_def derive_child_key_def split: sum.splits if_splits)
  qed
  then show ?thesis using assms(2) by (intro key_material_for [of env key]) (simp_all add: key_material_def)
qed

lemma sign_stealth_keeps:
  assumes "signer_laws env schnorr_verify" "sane env schnorr_verify tx" "pays_key tx target i"
  shows "keeps env schnorr_verify tx (snd (sign_stealth_input env i account target SigAll entropy tx))"
proof -
  let ?cv = "se_curve env"
  have "keeps env schnorr_verify tx (store_signature i sig SigAll 0 (cv_encode ?cv (cv_mul_g ?cv (cv_scalar_add ?cv a b))) tx)"
    if t: "take 32 (drop 1 (cv_encode ?cv (cv_mul_g ?cv (cv_scalar_add ?cv a b)))) = target"
      and s: "sign_input_with_optional_entropy env tx i (cv_scalar_bytes ?cv (cv_scalar_add ?cv a b)) SigAll entropy = Ok sig" for a b sig
  proof -
    obtain secret where secret: "cv_secret ?cv (cv_scalar_bytes ?cv (cv_scalar_add ?cv a b)) = Some secret"
      using sign_input_aux [OF s] assms(1) unfolding signer_laws_def by (metis option.exhaust)
    then have "secret = cv_scalar_add ?cv a b" using assms(1) unfolding signer_laws_def by blast
    with secret have "material_for env target \<lparr>km_private_key = cv_scalar_bytes ?cv (cv_scalar_add ?cv a b),
        km_compressed_public_key = cv_encode ?cv (cv_mul_g ?cv (cv_scalar_add ?cv a b))\<rparr>"
      using t by (simp add: material_for_def)
    from keeps_store [OF assms this] s show ?thesis by simp
  qed
  then show ?thesis
    using assms(2) by (auto simp: sign_stealth_input_def Let_def keeps_def split: option.splits sum.splits)
qed

lemma sign_standard_keeps:
  assumes "signer_laws env schnorr_verify" "sane env schnorr_verify tx" "pays_key tx target i"
  shows "keeps env schnorr_verify tx (snd (sign_standard_input env i account target SigAll entropy tx))"
  using assms(2) keeps_store [OF assms standard_key_for]
  by (auto simp: sign_standard_input_def keeps_def split: option.splits sum.splits)

lemma sign_account_input_keeps:
  assumes "signer_laws env schnorr_verify" "sane env schnorr_verify tx" "i < tx_num_inputs tx"
    "spk_script_len (input_spk tx i) \<le> MAX_SCRIPT_SIZE"
  shows "keeps env schnorr_verify tx (snd (sign_account_input env account SigAll entropy i tx))"
proof (cases "p2pk_xonly (script_bytes (input_spk tx i))")
  case None
  then show ?thesis using assms(2) by (simp add: sign_account_input_def keeps_def)
next
  case (Some target)
  then have pays: "pays_key tx target i" using assms by (simp add: pays_key_def input_matches_xonly_def)
  obtain r tx1 where s: "sign_standard_input env i account target SigAll entropy tx = (r, tx1)" by fastforce
  have k: "keeps env schnorr_verify tx tx1" using sign_standard_keeps [OF assms(1,2) pays, of account entropy] s by simp
  then have "pays_key tx1 target i" using same_pays_key(3) [of tx1 tx target i] pays assms(2) by (simp add: keeps_def sane_def)
  with sign_stealth_keeps [OF assms(1)] k have stealth: "keeps env schnorr_verify tx (snd (sign_stealth_input env i account target SigAll entropy tx1))"
    by (auto simp: keeps_def)
  have "snd (sign_account_input env account SigAll entropy i tx) \<in> {tx1, snd (sign_stealth_input env i account target SigAll entropy tx1)}"
    using Some s by (auto simp: sign_account_input_def sign_standard_or_stealth_def split: prod.split sum.split bool.split)
  then show ?thesis using k stealth by auto
qed

text \<open>The signer of one account (address keys of the hinted or searched index, then the stealth key) leaves valid signatures only.\<close>

theorem account_signatures_valid:
  assumes "signer_laws env schnorr_verify" "tx_arrays tx" "signatures_valid env schnorr_verify tx"
  shows "let tx' = snd (sign_transaction_multi_addr_impl env seed SigAll signing_entropy tx) in
    unsigned_tx tx' = unsigned_tx tx \<and> signatures_valid env schnorr_verify tx'"
proof (cases "derive_account_key (se_curve env) (se_sha512 env) seed")
  case (Inl e)
  then show ?thesis using assms by (simp add: sign_transaction_multi_addr_impl_def)
next
  case (Inr account)
  show ?thesis
  proof (cases "validate_base_transaction tx")
    case (Inl e)
    then show ?thesis using assms Inr by (simp add: sign_transaction_multi_addr_impl_def sign_transaction_multi_addr_account_impl_def)
  next
    case valid: (Inr u)
    note n = validated_inputs [OF valid]
    have start: "keeps env schnorr_verify tx tx" using assms n by (simp add: keeps_def sane_def)
    have len: "spk_script_len (input_spk tx' i) \<le> MAX_SCRIPT_SIZE" if "unsigned_tx tx' = unsigned_tx tx" "i < tx_num_inputs tx" for tx' i
    proof -
      have "length (tx_input_slots tx') = length (tx_input_slots tx)" using that(1) unsigned_fields(2) by metis
      then have "input_spk tx' i = input_spk tx i"
        using that n unsigned_fields(3,4) unfolding input_spk_def by (metis order_less_le_trans)
      then show ?thesis using validated_scripts [OF valid that(2)] by simp
    qed
    have "keeps env schnorr_verify tx (snd (sum_loop (sign_account_input env account SigAll signing_entropy) [0..<tx_num_inputs tx] 0 tx))"
    proof (rule sum_loop_keeps [of _ "keeps env schnorr_verify tx"])
      fix i tx1
      assume "i \<in> set [0..<tx_num_inputs tx]" and k: "keeps env schnorr_verify tx tx1"
      then have "i < tx_num_inputs tx1" "spk_script_len (input_spk tx1 i) \<le> MAX_SCRIPT_SIZE" "sane env schnorr_verify tx1"
        using len [of tx1 i] same_pays_key(1) [of tx1 tx] n by (auto simp: keeps_def)
      then show "keeps env schnorr_verify tx (snd (sign_account_input env account SigAll signing_entropy i tx1))"
        using keeps_trans [OF k sign_account_input_keeps [OF assms(1)]] by simp
    qed (rule start)
    moreover have "snd (no_inputs_if_zero r) = snd r" for r :: "(pskt_error + nat) \<times> transaction"
      by (cases r; cases "fst r") (auto simp: no_inputs_if_zero_def)
    ultimately show ?thesis
      using Inr valid
      by (simp add: sign_transaction_multi_addr_impl_def sign_transaction_multi_addr_account_impl_def keeps_def sane_def Let_def)
  qed
qed

section \<open>A signer to run\<close>

text \<open>Over the group of numbers, with a signature that is the key followed by the message.\<close>

definition echo_verify :: "bytes \<Rightarrow> bytes \<Rightarrow> bytes \<Rightarrow> bool" where
  "echo_verify key message sig \<longleftrightarrow> sig = key @ take 32 (message @ replicate 32 0)"

definition echo_env :: "(nat, 256 word) signer_env" where
  "echo_env = \<lparr>se_curve = number_curve, se_sha512 = (\<lambda>_. replicate 64 7), se_sha256 = (\<lambda>_. replicate 32 5), se_keyed = sample_keyed,
     se_sign_aux = (\<lambda>key message aux. case cv_secret number_curve key of
        None \<Rightarrow> Err ()
      | Some s \<Rightarrow> Ok (take 32 (drop 1 (cv_encode number_curve (cv_mul_g number_curve s))) @ take 32 (message @ replicate 32 0))),
     se_reserve = (\<lambda>_. True)\<rparr>"

lemma be_nat_bytes: "n < be_nat SECP256K1_ORDER \<Longrightarrow> be_nat (rev (le_bytes 32 n)) = n"
  using order_facts(3) by (simp add: be_nat_def le_nat_le_bytes)

lemma echo_laws: "signer_laws echo_env echo_verify"
proof -
  have "be_nat (rev (le_bytes 32 ((a + b) mod be_nat SECP256K1_ORDER))) = (a + b) mod be_nat SECP256K1_ORDER" for a b
    using order_facts(2) by (intro be_nat_bytes) simp
  then show ?thesis
    by (auto simp: signer_laws_def echo_env_def echo_verify_def number_curve_def split: option.splits if_splits)
qed

lemma echo_key:
  assumes "length key = 32" "is_less_than_order key" "\<not> is_zero key"
  shows "compressed_pubkey_from_raw_key (se_curve echo_env) key = Ok (2 # key)"
    "\<exists>sig. se_sign_aux echo_env key msg aux = Ok sig"
proof -
  have n: "be_nat key < be_nat SECP256K1_ORDER" "be_nat key \<noteq> 0" using assms is_less_than_order_iff is_zero_iff by auto
  have "rev (le_bytes 32 (be_nat key)) = key" using assms(1) le_bytes_le_nat [of "rev key"] by (simp add: be_nat_def)
  then show "compressed_pubkey_from_raw_key (se_curve echo_env) key = Ok (2 # key)" "\<exists>sig. se_sign_aux echo_env key msg aux = Ok sig"
    using n number_point(1) [of "be_nat key"] by (simp_all add: compressed_pubkey_from_raw_key_def echo_env_def number_curve_def)
qed

lemma sample_key_9: "length (sample_key 9) = 32" "is_less_than_order (sample_key 9)" "\<not> is_zero (sample_key 9)"
  by (simp add: sample_key_def) code_simp+

definition one_input_tx :: "transaction_input \<Rightarrow> transaction" where
  "one_input_tx inp = (sample_p2pk_tx [])\<lparr>tx_input_slots := [inp]\<rparr>"

lemma one_input_tx_p2pk: "one_input_tx (sample_p2pk_input sig) = sample_p2pk_tx sig"
  by (simp add: one_input_tx_def sample_p2pk_tx_def)

lemma one_input_fields [simp]:
  "tx_input_slots (one_input_tx inp) = [inp]" "tx_num_inputs (one_input_tx inp) = 1" "tx_inputs (one_input_tx inp) = [inp]"
  "tx_outputs (one_input_tx inp) = [output_empty]"
  by (simp_all add: one_input_tx_def sample_p2pk_tx_def tx_inputs_def tx_outputs_def MAX_OUTPUTS_def)

lemma one_input_validates:
  assumes "spk_script_len (tu_script_public_key (ti_utxo_entry inp)) \<le> MAX_SCRIPT_SIZE" "ti_redeem_script_len inp = 0"
  shows "validate_base_transaction (one_input_tx inp) = Ok ()"
proof -
  have "validate_transaction_shape (one_input_tx inp) = Ok ()"
    unfolding validate_shape_iff by (simp add: one_input_tx_def sample_p2pk_tx_def MAX_OUTPUTS_def)
  moreover have "\<exists>a. transaction_amounts_of (one_input_tx inp) = Ok a"
    using unat_bound [of "tu_amount (ti_utxo_entry inp)"]
    by (simp add: transaction_amounts_of_def checked_amounts_def checked_add_def checked_sub_def output_empty_def)
  moreover have "validate_inputs (one_input_tx inp) = Ok ()"
    using assms by (simp add: validate_inputs_def checked_redeem_bytes_def Let_def)
  moreover have "validate_outputs (one_input_tx inp) = Ok ()"
    by (simp add: validate_outputs_def output_empty_def spk_new_def)
  ultimately show ?thesis by (auto simp: validate_base_transaction_def)
qed

theorem raw_key_completes_witness:
  "\<exists>tx'. sign_transaction_in_place_impl echo_env (sample_key 9) SigAll None (sample_p2pk_tx (replicate 64 0)) = (Ok 1, tx')
     \<and> kspt_is_fully_signed sample_keyed echo_verify tx'"
proof -
  let ?tx = "sample_p2pk_tx (replicate 64 0)"
  obtain r tx' where run: "sign_transaction_in_place_impl echo_env (sample_key 9) SigAll None ?tx = (r, tx')" by fastforce
  have valid: "validate_base_transaction ?tx = Ok ()"
    unfolding one_input_tx_p2pk [symmetric]
    by (rule one_input_validates) (simp_all add: sample_p2pk_input_def input_empty_def MAX_SCRIPT_SIZE_def)
  have "\<forall>i<tx_num_inputs ?tx. input_matches_xonly ?tx i (take 32 (drop 1 (2 # sample_key 9)))"
    using sample_p2pk_script [of "replicate 64 0"] sample_key_9(1) p2pk_xonly_iff
    by (auto simp: input_matches_xonly_def input_spk_def sample_p2pk_tx_def)
  from raw_key_completes [OF echo_laws sample_p2pk_arrays valid echo_key(1) [OF sample_key_9] this, of r tx' None "[]"]
  have "r = Ok (tx_num_inputs ?tx) \<and> kspt_is_fully_signed (se_keyed echo_env) echo_verify tx'"
    using echo_key(2) [OF sample_key_9] run by simp
  then show ?thesis using run by (simp add: echo_env_def sample_p2pk_tx_def)
qed

text \<open>A 1-of-1 multisig input of the account key.\<close>

definition sample_multisig_script :: bytes where
  "sample_multisig_script = [0x51, 0x20] @ sample_key 9 @ [0x51, 0xae]"

definition sample_multisig_input :: transaction_input where
  "sample_multisig_input = input_empty\<lparr>ti_utxo_entry := \<lparr>tu_amount = 50,
     tu_script_public_key = spk_new\<lparr>spk_script := copy_at 0 sample_multisig_script (spk_script spk_new), spk_script_len := 36\<rparr>,
     tu_block_daa_score = 0\<rparr>\<rparr>"

definition sample_multisig_info :: multisig_info where
  "sample_multisig_info = \<lparr>mi_m = 1, mi_n = 1, mi_pubkeys = sample_key 9 # replicate (MAX_MULTISIG_KEYS - 1) (replicate 32 0)\<rparr>"

lemma sample_multisig_detect: "detect_script_type sample_multisig_script 36 = Multisig"
  by code_simp

lemma sample_multisig_parse: "parse_multisig_script sample_multisig_script 36 = Some sample_multisig_info"
  by code_simp

lemma sample_multisig_analysis: "analyze_input_script (one_input_tx sample_multisig_input) 0 = (Multisig, Some sample_multisig_info)"
proof -
  have len: "length sample_multisig_script = 36" by (simp add: sample_multisig_script_def sample_key_def)
  then have "get_range (spk_script (tu_script_public_key (ti_utxo_entry sample_multisig_input))) 0 36 = Some sample_multisig_script"
    by (simp add: sample_multisig_input_def get_range_def copy_at_def spk_new_def MAX_SCRIPT_SIZE_def)
  moreover have "spk_script_len (tu_script_public_key (ti_utxo_entry sample_multisig_input)) = 36" by (simp add: sample_multisig_input_def)
  ultimately show ?thesis
    by (simp add: analyze_input_script_def try_analyze_input_script_def Let_def len sample_multisig_detect multisig_of_def sample_multisig_parse)
qed

definition sample_accounts :: "(bytes \<times> bool) list" where
  "sample_accounts = [(sample_key 9 @ replicate 33 0, True)]"

lemma sample_context:
  "from_account_raw echo_env sample_accounts =
     (context_empty 1)\<lparr>sc_account_xonly := Some (sample_key 9) # replicate 7 None,
        sc_account_compressed := Some (2 # sample_key 9) # replicate 7 None,
        sc_account_keys := Some (xk_from_raw (sample_key 9 @ replicate 33 0)) # replicate 7 None\<rparr>"
proof -
  have "xk_key (xk_from_raw (sample_key 9 @ replicate 33 0)) = sample_key 9" by (simp add: xk_from_raw_def sample_key_9(1))
  then have "public_key_compressed (se_curve echo_env) (xk_from_raw (sample_key 9 @ replicate 33 0)) = Ok (2 # sample_key 9)"
    using echo_key(1) [OF sample_key_9] by (simp add: public_key_compressed_def compressed_pubkey_from_raw_key_def)
  then show ?thesis
    by (simp add: from_account_raw_def sample_accounts_def install_account_def context_empty_def MAX_SEED_SLOTS_def sample_key_9(1)
        numeral_eq_Suc)
qed

lemma sample_session_signs:
  "\<exists>st'. sign_transaction_with_context echo_env (from_account_raw echo_env sample_accounts) SigAll None None (one_input_tx sample_multisig_input) = (Ok 1, st')"
proof -
  let ?tx = "one_input_tx sample_multisig_input" and ?c = "from_account_raw echo_env sample_accounts"
  have slot: "ti_sig_count sample_multisig_input = 0" "ti_ms45_hint sample_multisig_input = ms45_none"
    by (simp_all add: sample_multisig_input_def input_empty_def)
  have valid: "validate_base_transaction ?tx = Ok ()"
    by (rule one_input_validates) (simp_all add: sample_multisig_input_def input_empty_def MAX_SCRIPT_SIZE_def)
  have c: "sc_num_seeds ?c = 1" "context_account_xonly ?c 0 = Some (sample_key 9)"
    by (simp_all add: sample_context context_empty_def context_account_xonly_def flat_at_def get_at_def MAX_SEED_SLOTS_def)
  have "xk_key (xk_from_raw (sample_key 9 @ replicate 33 0)) = sample_key 9" by (simp add: xk_from_raw_def sample_key_9(1))
  then have m: "account_material ?c 0 = Some \<lparr>km_private_key = sample_key 9, km_compressed_public_key = 2 # sample_key 9\<rparr>"
    by (simp add: sample_context account_material_def flat_at_def get_at_def)
  have pos: "account_positions ?c sample_multisig_info ! 0 = Some 0"
    by (simp add: account_positions_def c sample_multisig_info_def)
  obtain sig where sig: "sign_input_with_optional_entropy echo_env ?tx 0 (sample_key 9) SigAll None = Ok sig"
    using sign_input_total echo_key(2) [OF sample_key_9] by blast
  have free: "\<not> has_pubkey_position sample_multisig_input pos" for pos by (simp add: has_pubkey_position_def slot)
  have "\<exists>inp. append_signature sig 1 0 (2 # sample_key 9) sample_multisig_input = (True, inp)"
    by (simp add: append_signature_def free slot MAX_SIGS_PER_INPUT_def)
  then obtain inp where app: "append_signature sig 1 0 (2 # sample_key 9) sample_multisig_input = (True, inp)" by blast
  have "sign_supported_input echo_env None SigAll None 0 (?c, ?tx) = (Ok 1, (?c, upd_input 0 (\<lambda>_. inp) ?tx))"
    using c m pos sig app free slot
    by (simp add: sign_supported_input_def sample_multisig_analysis sign_multisig_input_def Let_def ms45_none_def
        sample_multisig_info_def sign_multisig_position_def multisig_material_def)
  then show ?thesis by (simp add: sign_transaction_with_context_def valid no_inputs_if_zero_def)
qed

theorem session_signatures_valid_witness:
  "\<exists>c' tx'. sign_transaction_with_context echo_env (from_account_raw echo_env sample_accounts) SigAll None None
       (one_input_tx sample_multisig_input) = (Ok 1, (c', tx'))
     \<and> signatures_valid echo_env echo_verify tx' \<and> signature_total tx' = 1"
proof -
  let ?tx = "one_input_tx sample_multisig_input"
  obtain c' tx' where run: "sign_transaction_with_context echo_env (from_account_raw echo_env sample_accounts) SigAll None None ?tx = (Ok 1, (c', tx'))"
    using sample_session_signs by fastforce
  have unsigned: "ti_sig_count sample_multisig_input = 0" "ti_sigs sample_multisig_input = replicate MAX_SIGS_PER_INPUT input_sig_empty"
    by (simp_all add: sample_multisig_input_def input_empty_def)
  have "signatures_valid echo_env echo_verify ?tx"
    by (auto simp: signatures_valid_def input_signed_def unsigned list_all_iff input_sig_empty_def)
  moreover have "tx_arrays ?tx"
    by (simp add: tx_arrays_def one_input_tx_def sample_p2pk_tx_def input_arrays_def unsigned input_sig_empty_def sample_multisig_input_def
        input_empty_def spk_array_def spk_new_def copy_at_def sample_multisig_script_def sample_key_def SUBNETWORK_ID_NATIVE_def MAX_SCRIPT_SIZE_def)
  ultimately have "signatures_valid echo_env echo_verify tx' \<and> (\<forall>n. Ok 1 = (Ok n :: pskt_error + nat) \<longrightarrow> 0 < n \<and> signature_total tx' = signature_total ?tx + n)"
    using session_signatures_valid [OF echo_laws _ _ _ run, of "[]" sample_accounts "[]"] by blast
  then show ?thesis using run by (simp add: signature_total_def unsigned)
qed

end
