(* ===== verification/Time_Policy.thy ===== *)
theory Time_Policy
  imports Script "HOL-Library.Product_Lexorder"
begin

text \<open>
  Signing policies over wall-clock time (\<open>transaction/policy/time.rs\<close>): calendar dates and their Unix seconds, weekly
  signing windows, the parsers of both, and the decision whether a device may sign now. Years, months, minutes and
  seconds are \<open>nat\<close>, with the reductions of the \<open>as u8\<close> casts written out; no sum of the code leaves its type on the
  values that pass the checks in front of it.
\<close>

section \<open>Dates\<close>

datatype policy_error =
  InvalidDate | DateOutOfRange | InvalidWindow | TooManyWindows | OverlappingWindow | InvalidFormat | NotFuture

definition MAX_WEEKLY_WINDOWS :: nat where "MAX_WEEKLY_WINDOWS = 4"
definition MIN_YEAR :: nat where "MIN_YEAR = 2000"
definition MAX_YEAR :: nat where "MAX_YEAR = 2099"
definition SECONDS_PER_DAY :: nat where "SECONDS_PER_DAY = 86400"
definition MINUTES_PER_DAY :: nat where "MINUTES_PER_DAY = 1440"

record utc_date_time =
  dt_year :: nat
  dt_month :: nat
  dt_day :: nat
  dt_hour :: nat
  dt_minute :: nat
  dt_second :: nat

definition is_leap_year :: "nat \<Rightarrow> bool" where
  "is_leap_year year \<longleftrightarrow> year mod 4 = 0 \<and> (year mod 100 \<noteq> 0 \<or> year mod 400 = 0)"

definition days_in_month :: "nat \<Rightarrow> nat \<Rightarrow> nat" where
  "days_in_month year month =
     (if month \<in> {1, 3, 5, 7, 8, 10, 12} then 31
      else if month \<in> {4, 6, 9, 11} then 30
      else if month = 2 then (if is_leap_year year then 29 else 28)
      else 0)"

definition days_before_year :: "nat \<Rightarrow> nat" where
  "days_before_year year =
     (let y = year - 1; before = y * 365 + y div 4 - y div 100 + y div 400;
          base_y = 1969; base = base_y * 365 + base_y div 4 - base_y div 100 + base_y div 400
      in before - base)"

definition days_before_month :: "nat \<Rightarrow> nat \<Rightarrow> nat" where
  "days_before_month year month =
     [0, 31, 59, 90, 120, 151, 181, 212, 243, 273, 304, 334] ! (month - 1)
     + (if month > 2 \<and> is_leap_year year then 1 else 0)"

definition date_validate :: "utc_date_time \<Rightarrow> policy_error + unit" where
  "date_validate d =
     (if dt_year d < MIN_YEAR \<or> dt_year d > MAX_YEAR then Err DateOutOfRange
      else let max_day = days_in_month (dt_year d) (dt_month d) in
        if dt_day d = 0 \<or> dt_day d > max_day \<or> dt_hour d > 23 \<or> dt_minute d > 59 \<or> dt_second d > 59
        then Err InvalidDate
        else Ok ())"

definition to_unix_seconds :: "utc_date_time \<Rightarrow> policy_error + nat" where
  "to_unix_seconds d =
     rbind (date_validate d) (\<lambda>_.
       let days = days_before_year (dt_year d) + days_before_month (dt_year d) (dt_month d) + (dt_day d - 1) in
       Ok (days * SECONDS_PER_DAY + dt_hour d * 3600 + dt_minute d * 60 + dt_second d))"

text \<open>The two loops of \<open>from_unix_seconds\<close>. The month counter is a \<open>u8\<close>; the month loop always leaves by month 12
  (lemma \<open>month_loop_date\<close>), so where the counter would overflow does not matter.\<close>

function year_loop :: "nat \<Rightarrow> nat \<Rightarrow> nat \<times> nat" where
  "year_loop days year =
     (let year_days = (if is_leap_year year then 366 else 365) in
      if days < year_days then (year, days) else year_loop (days - year_days) (year + 1))"
  by auto
termination by (relation "measure fst") (auto split: if_splits)

function month_loop :: "nat \<Rightarrow> nat \<Rightarrow> nat \<Rightarrow> nat \<times> nat" where
  "month_loop year days month =
     (let month_days = days_in_month year month in
      if days < month_days \<or> month \<ge> 255 then (month, days) else month_loop year (days - month_days) (month + 1))"
  by auto
termination by (relation "measure (\<lambda>(year, days, month). 256 - month)") auto

declare year_loop.simps [simp del] month_loop.simps [simp del]

definition from_unix_seconds :: "nat \<Rightarrow> policy_error + utc_date_time" where
  "from_unix_seconds unix =
     rbind (to_unix_seconds \<lparr>dt_year = MAX_YEAR, dt_month = 12, dt_day = 31, dt_hour = 23, dt_minute = 59, dt_second = 59\<rparr>) (\<lambda>max.
     rbind (to_unix_seconds \<lparr>dt_year = MIN_YEAR, dt_month = 1, dt_day = 1, dt_hour = 0, dt_minute = 0, dt_second = 0\<rparr>) (\<lambda>min.
       if unix < min \<or> unix > max then Err DateOutOfRange
       else let seconds = unix mod SECONDS_PER_DAY;
                (year, days) = year_loop (unix div SECONDS_PER_DAY) 1970;
                (month, days) = month_loop year days 1 in
         Ok \<lparr>dt_year = year, dt_month = month, dt_day = (days mod 256) + 1, dt_hour = (seconds div 3600) mod 256,
             dt_minute = ((seconds mod 3600) div 60) mod 256, dt_second = (seconds mod 60) mod 256\<rparr>))"

definition weekday_monday0 :: "utc_date_time \<Rightarrow> policy_error + nat" where
  "weekday_monday0 d = rbind (to_unix_seconds d) (\<lambda>unix. Ok (((unix div SECONDS_PER_DAY + 3) mod 7) mod 256))"

section \<open>Windows and policies\<close>

record signing_window =
  sw_weekday :: nat
  sw_start_minute :: nat
  sw_end_minute :: nat

definition EMPTY_WINDOW :: signing_window where
  "EMPTY_WINDOW = \<lparr>sw_weekday = 0, sw_start_minute = 0, sw_end_minute = 0\<rparr>"

definition window_validate :: "signing_window \<Rightarrow> policy_error + unit" where
  "window_validate w =
     (if sw_weekday w > 6 \<or> sw_start_minute w \<ge> sw_end_minute w \<or> sw_end_minute w > MINUTES_PER_DAY
      then Err InvalidWindow else Ok ())"

definition window_contains :: "signing_window \<Rightarrow> nat \<Rightarrow> nat \<Rightarrow> bool" where
  "window_contains w weekday minute \<longleftrightarrow>
     sw_weekday w = weekday \<and> minute \<ge> sw_start_minute w \<and> minute < sw_end_minute w"

definition windows_overlap :: "signing_window \<Rightarrow> signing_window \<Rightarrow> bool" where
  "windows_overlap left right \<longleftrightarrow>
     sw_weekday left = sw_weekday right
     \<and> sw_start_minute left < sw_end_minute right \<and> sw_start_minute right < sw_end_minute left"

record signing_policy =
  sp_not_before_unix :: nat
  sp_weekly_enabled :: bool
  sp_weekly_count :: nat
  sp_windows :: "signing_window list"
  sp_rtc_floor_unix :: nat

definition policy_disabled :: signing_policy where
  "policy_disabled = \<lparr>sp_not_before_unix = 0, sp_weekly_enabled = False, sp_weekly_count = 0,
     sp_windows = replicate MAX_WEEKLY_WINDOWS EMPTY_WINDOW, sp_rtc_floor_unix = 0\<rparr>"

definition has_not_before :: "signing_policy \<Rightarrow> bool" where
  "has_not_before p \<longleftrightarrow> sp_not_before_unix p \<noteq> 0"

definition has_time_policy :: "signing_policy \<Rightarrow> bool" where
  "has_time_policy p \<longleftrightarrow> sp_not_before_unix p \<noteq> 0 \<or> sp_weekly_enabled p"

definition requires_clock :: "signing_policy \<Rightarrow> bool" where
  "requires_clock p \<longleftrightarrow>
     sp_weekly_enabled p \<or> (sp_not_before_unix p \<noteq> 0 \<and> sp_rtc_floor_unix p < sp_not_before_unix p)"

definition validate_window_shape :: "signing_policy \<Rightarrow> policy_error + unit" where
  "validate_window_shape p =
     (let count = sp_weekly_count p in
      if count > MAX_WEEKLY_WINDOWS then Err TooManyWindows
      else if sp_weekly_enabled p \<noteq> (count \<noteq> 0) then Err InvalidWindow
      else if list_ex (\<lambda>w. w \<noteq> EMPTY_WINDOW) (drop count (sp_windows p)) then Err InvalidWindow
      else Ok ())"

definition validate_windows :: "signing_policy \<Rightarrow> policy_error + unit" where
  "validate_windows p =
     (let count = sp_weekly_count p in
      try_fold (\<lambda>_ index.
        rbind (window_validate (sp_windows p ! index)) (\<lambda>_.
        if list_ex (windows_overlap (sp_windows p ! index)) (drop (index + 1) (take count (sp_windows p)))
        then Err OverlappingWindow else Ok ())) () [0..<count])"

definition validate_policy_times :: "signing_policy \<Rightarrow> policy_error + unit" where
  "validate_policy_times p =
     rbind (if sp_not_before_unix p \<noteq> 0 then rbind (from_unix_seconds (sp_not_before_unix p)) (\<lambda>_. Ok ()) else Ok ()) (\<lambda>_.
     if sp_rtc_floor_unix p \<noteq> 0 then rbind (from_unix_seconds (sp_rtc_floor_unix p)) (\<lambda>_. Ok ()) else Ok ())"

definition policy_validate :: "signing_policy \<Rightarrow> policy_error + unit" where
  "policy_validate p =
     rbind (validate_window_shape p) (\<lambda>_. rbind (validate_windows p) (\<lambda>_. validate_policy_times p))"

datatype signing_decision =
  Allowed | ClockInvalid | ClockRollback | BeforeNotBefore | OutsideWeeklyWindow | PolicyInvalid

definition policy_evaluate :: "signing_policy \<Rightarrow> nat \<Rightarrow> signing_decision" where
  "policy_evaluate p now_unix =
     (case policy_validate p of
        Inl _ \<Rightarrow> PolicyInvalid
      | Inr _ \<Rightarrow>
          if sp_rtc_floor_unix p \<noteq> 0 \<and> now_unix < sp_rtc_floor_unix p then ClockRollback
          else if sp_not_before_unix p \<noteq> 0 \<and> now_unix < sp_not_before_unix p then BeforeNotBefore
          else if sp_weekly_enabled p then
            (case from_unix_seconds now_unix of
               Inl _ \<Rightarrow> ClockInvalid
             | Inr now \<Rightarrow>
                 (case weekday_monday0 now of
                    Inl _ \<Rightarrow> ClockInvalid
                  | Inr weekday \<Rightarrow>
                      let minute = dt_hour now * 60 + dt_minute now;
                          allowed = list_ex (\<lambda>w. window_contains w weekday minute)
                                      (take (sp_weekly_count p) (sp_windows p))
                      in if \<not> allowed then OutsideWeeklyWindow else Allowed))
          else Allowed)"

section \<open>Parsers\<close>

definition is_digit_byte :: "u8 \<Rightarrow> bool" where
  "is_digit_byte b \<longleftrightarrow> 0x30 \<le> b \<and> b \<le> 0x39"

definition decimal :: "bytes \<Rightarrow> policy_error + nat" where
  "decimal input =
     try_fold (\<lambda>v byte. if is_digit_byte byte then Ok (v * 10 + unat (byte - 0x30)) else Err InvalidFormat) 0 input"

definition parse_utc_yyyymmddhhmm :: "bytes \<Rightarrow> policy_error + utc_date_time" where
  "parse_utc_yyyymmddhhmm input =
     (if length input \<noteq> 12 then Err InvalidFormat
      else
        rbind (decimal (take 4 input)) (\<lambda>year.
        rbind (decimal (take 2 (drop 4 input))) (\<lambda>month.
        rbind (decimal (take 2 (drop 6 input))) (\<lambda>day.
        rbind (decimal (take 2 (drop 8 input))) (\<lambda>hour.
        rbind (decimal (take 2 (drop 10 input))) (\<lambda>minute.
        let v = \<lparr>dt_year = year, dt_month = month mod 256, dt_day = day mod 256, dt_hour = hour mod 256,
                 dt_minute = minute mod 256, dt_second = 0\<rparr> in
        rbind (date_validate v) (\<lambda>_. Ok v)))))))"

definition is_ascii_whitespace :: "u8 \<Rightarrow> bool" where
  "is_ascii_whitespace b \<longleftrightarrow> b = 0x20 \<or> b = 0x09 \<or> b = 0x0A \<or> b = 0x0C \<or> b = 0x0D"

definition trim_ascii :: "bytes \<Rightarrow> bytes" where
  "trim_ascii bs = rev (dropWhile is_ascii_whitespace (rev (dropWhile is_ascii_whitespace bs)))"

definition ascii_lower_byte :: "u8 \<Rightarrow> u8" where
  "ascii_lower_byte b = (if 0x41 \<le> b \<and> b \<le> 0x5A then b + 0x20 else b)"

definition eq_ignore_ascii_case :: "bytes \<Rightarrow> bytes \<Rightarrow> bool" where
  "eq_ignore_ascii_case a b \<longleftrightarrow> map ascii_lower_byte a = map ascii_lower_byte b"

fun split_bytes :: "u8 \<Rightarrow> bytes \<Rightarrow> bytes list" where
  "split_bytes sep [] = [[]]"
| "split_bytes sep (b # bs) =
     (if b = sep then [] # split_bytes sep bs
      else case split_bytes sep bs of [] \<Rightarrow> [[b]] | part # parts \<Rightarrow> (b # part) # parts)"

definition WEEKDAY_NAMES :: "bytes list" where
  "WEEKDAY_NAMES = map (map of_char) [''MON'', ''TUE'', ''WED'', ''THU'', ''FRI'', ''SAT'', ''SUN'']"

definition parse_weekday :: "bytes \<Rightarrow> policy_error + nat" where
  "parse_weekday input = ok_or (find_index (eq_ignore_ascii_case input) WEEKDAY_NAMES) InvalidFormat"

definition parse_hhmm :: "bytes \<Rightarrow> bytes \<Rightarrow> policy_error + nat" where
  "parse_hhmm hour minute =
     rbind (decimal hour) (\<lambda>hour. rbind (decimal minute) (\<lambda>minute.
       if hour > 23 \<or> minute > 59 then Err InvalidWindow else Ok (hour * 60 + minute)))"

definition parse_time_range :: "bytes \<Rightarrow> policy_error + (nat \<times> nat)" where
  "parse_time_range input =
     (if length input \<noteq> 11 \<or> input ! 2 \<noteq> 0x3A \<or> input ! 5 \<noteq> 0x2D \<or> input ! 8 \<noteq> 0x3A then Err InvalidFormat
      else
        rbind (parse_hhmm (take 2 input) (take 2 (drop 3 input))) (\<lambda>start.
        rbind (parse_hhmm (take 2 (drop 6 input)) (take 2 (drop 9 input))) (\<lambda>stop. Ok (start, stop))))"

definition parse_window :: "bytes \<Rightarrow> policy_error + signing_window" where
  "parse_window input =
     (if length input < 3 then Err InvalidFormat
      else let day = take 3 input; rest = drop 3 input in
        if rest = [] \<or> \<not> is_ascii_whitespace (hd rest) then Err InvalidFormat
        else
          rbind (parse_weekday day) (\<lambda>weekday.
          rbind (parse_time_range (trim_ascii rest)) (\<lambda>(start_minute, end_minute).
          let v = \<lparr>sw_weekday = weekday, sw_start_minute = start_minute, sw_end_minute = end_minute\<rparr> in
          rbind (window_validate v) (\<lambda>_. Ok v))))"

definition parse_window_list :: "bytes \<Rightarrow> policy_error + (signing_window list \<times> nat)" where
  "parse_window_list input =
     try_fold (\<lambda>(windows, count) raw.
       let part = trim_ascii raw in
       if part = [] then Err InvalidFormat
       else if count \<ge> MAX_WEEKLY_WINDOWS then Err TooManyWindows
       else rbind (parse_window part) (\<lambda>w. Ok (windows[count := w], count + 1)))
       (replicate MAX_WEEKLY_WINDOWS EMPTY_WINDOW, 0) (split_bytes 0x3B input)"

fun adjacent_overlap :: "signing_window list \<Rightarrow> bool" where
  "adjacent_overlap (a # b # ws) \<longleftrightarrow> windows_overlap a b \<or> adjacent_overlap (b # ws)"
| "adjacent_overlap _ \<longleftrightarrow> False"

definition reject_adjacent_overlaps :: "signing_window list \<Rightarrow> nat \<Rightarrow> policy_error + unit" where
  "reject_adjacent_overlaps windows count =
     (if adjacent_overlap (take count windows) then Err OverlappingWindow else Ok ())"

text \<open>The sort key is a weekday and a start minute. The code sorts unstably; two windows with one key overlap and are
  rejected in either order.\<close>

definition window_key :: "signing_window \<Rightarrow> nat \<times> nat" where
  "window_key w = (sw_weekday w, sw_start_minute w)"

definition parse_weekly_windows :: "bytes \<Rightarrow> policy_error + (signing_window list \<times> nat)" where
  "parse_weekly_windows input =
     rbind (parse_window_list input) (\<lambda>(windows, count).
     let windows = sort_key window_key (take count windows) @ drop count windows in
     rbind (reject_adjacent_overlaps windows count) (\<lambda>_. Ok (windows, count mod 256)))"

section \<open>The calendar\<close>

definition year_days :: "nat \<Rightarrow> nat" where
  "year_days year = (if is_leap_year year then 366 else 365)"

lemma leap_count: "(Suc y) div 4 + y div 100 + Suc y div 400 =
    y div 4 + Suc y div 100 + y div 400 + (if is_leap_year (Suc y) then 1 else 0)"
proof -
  have "Suc y mod 400 = 0 \<Longrightarrow> Suc y mod 100 = 0" "Suc y mod 100 = 0 \<Longrightarrow> Suc y mod 4 = 0"
    using mod_mod_cancel [of 100 400 "Suc y"] mod_mod_cancel [of 4 100 "Suc y"] by simp_all
  then show ?thesis by (simp add: is_leap_year_def div_Suc)
qed

lemma next_year_sum:
  "a' + c + e' = a + c' + e + (d :: nat) \<Longrightarrow> c \<le> x \<Longrightarrow> c' \<le> x + 365 \<Longrightarrow> b \<le> x + a - c + e \<Longrightarrow>
   (x + 365 + a' - c' + e') - b = (x + a - c + e - b) + (365 + d)"
  by linarith

lemma days_before_year_Suc:
  assumes "1970 \<le> year"
  shows "days_before_year (Suc year) = days_before_year year + year_days year"
proof -
  obtain y where y: "year = Suc y" "1969 \<le> y" using assms by (cases year) auto
  have le: "k div 100 \<le> k * 365" for k :: nat by linarith
  have "1969 * 365 + 1969 div 4 - 1969 div 100 + 1969 div (400 :: nat) \<le> y * 365 + y div 4 - y div 100 + y div 400"
  proof -
    have "y div 100 < 20 + (y - 1969)" by (rule less_mult_imp_div_less) (use y(2) in simp)
    moreover have "1969 div 4 \<le> y div 4" "1969 div 400 \<le> y div 400" using y(2) by (simp_all only: div_le_mono)
    ultimately show ?thesis using y(2) by simp
  qed
  moreover have "Suc y * 365 = y * 365 + 365" by simp
  ultimately show ?thesis
    using next_year_sum [OF leap_count [of y] le [of y], of "1969 * 365 + 1969 div 4 - 1969 div 100 + 1969 div 400"] le [of "Suc y"]
    unfolding days_before_year_def year_days_def Let_def y(1) by (simp only: diff_Suc_1) (auto split: if_splits)
qed

lemma days_before_year_1970 [simp]: "days_before_year 1970 = 0" by (simp add: days_before_year_def)

lemma days_before_year_mono: "1970 \<le> year \<Longrightarrow> days_before_year year + year_days year \<le> days_before_year (Suc year + n)"
  by (induction n) (auto simp: days_before_year_Suc)

lemma year_loop_stop: "days < year_days year \<Longrightarrow> year_loop days year = (year, days)"
  by (subst year_loop.simps) (simp add: year_days_def)

lemma year_loop_step: "year_days year \<le> days \<Longrightarrow> year_loop days year = year_loop (days - year_days year) (Suc year)"
  by (subst year_loop.simps) (simp add: year_days_def Let_def)

lemma year_loop_date:
  assumes "1970 \<le> year" "days < year_days (year + n)"
  shows "year_loop (days_before_year (year + n) - days_before_year year + days) year = (year + n, days)"
  using assms
proof (induction n arbitrary: year)
  case 0
  then show ?case by (simp add: year_loop_stop)
next
  case (Suc n)
  have le: "days_before_year year + year_days year \<le> days_before_year (Suc year + n)"
    by (rule days_before_year_mono) (rule Suc.prems)
  then have eq: "days_before_year (year + Suc n) - days_before_year year + days - year_days year =
      days_before_year (Suc year + n) - days_before_year (Suc year) + days"
    using Suc.prems(1) by (simp add: days_before_year_Suc)
  have "year_loop (days_before_year (year + Suc n) - days_before_year year + days) year =
      year_loop (days_before_year (year + Suc n) - days_before_year year + days - year_days year) (Suc year)"
    using le by (intro year_loop_step) simp
  also have "\<dots> = (Suc year + n, days)" unfolding eq by (rule Suc.IH) (use Suc.prems in simp_all)
  finally show ?case by simp
qed

lemma month_cases:
  "1 \<le> month \<Longrightarrow> month \<le> 12 \<Longrightarrow> (month :: nat) \<in> {1, 2, 3, 4, 5, 6, 7, 8, 9, 10, 11, 12}"
  unfolding insert_iff empty_iff by presburger

lemma days_in_month_pos: "0 < days_in_month year month \<longleftrightarrow> 1 \<le> month \<and> month \<le> 12"
  using month_cases [of month] by (auto simp: days_in_month_def split: if_splits)

lemma days_before_month_Suc:
  assumes "1 \<le> month" "month < 12"
  shows "days_before_month year (Suc month) = days_before_month year month + days_in_month year month"
proof -
  have "month \<in> {1, 2, 3, 4, 5, 6, 7, 8, 9, 10, 11}" using month_cases [of month] assms by auto
  then show ?thesis by (elim insertE) (simp_all add: days_before_month_def days_in_month_def)
qed

lemma days_before_month_le:
  assumes "1 \<le> month" "month \<le> 12"
  shows "days_before_month year month + days_in_month year month \<le> year_days year"
  using month_cases [OF assms]
  by (elim insertE) (simp_all add: days_before_month_def days_in_month_def year_days_def)

lemma days_before_month_mono:
  "1 \<le> month \<Longrightarrow> Suc month + n \<le> 12 \<Longrightarrow>
   days_before_month year month + days_in_month year month \<le> days_before_month year (Suc month + n)"
  by (induction n) (auto simp: days_before_month_Suc)

lemma month_loop_stop: "days < days_in_month year month \<Longrightarrow> month_loop year days month = (month, days)"
  by (subst month_loop.simps) simp

lemma month_loop_step: "days_in_month year month \<le> days \<Longrightarrow> month < 255 \<Longrightarrow>
    month_loop year days month = month_loop year (days - days_in_month year month) (Suc month)"
  by (subst month_loop.simps) (simp add: Let_def)

lemma month_loop_date:
  assumes "1 \<le> month" "month + n \<le> 12" "days < days_in_month year (month + n)"
  shows "month_loop year (days_before_month year (month + n) - days_before_month year month + days) month = (month + n, days)"
  using assms
proof (induction n arbitrary: month)
  case 0
  then show ?case by (simp add: month_loop_stop)
next
  case (Suc n)
  have le: "days_before_month year month + days_in_month year month \<le> days_before_month year (Suc month + n)"
    using Suc.prems by (intro days_before_month_mono) simp_all
  have "days_before_month year (Suc month) = days_before_month year month + days_in_month year month"
    using Suc.prems by (intro days_before_month_Suc) simp_all
  then have eq: "days_before_month year (month + Suc n) - days_before_month year month + days - days_in_month year month =
      days_before_month year (Suc month + n) - days_before_month year (Suc month) + days"
    using le by simp
  have ih: "month_loop year (days_before_month year (Suc month + n) - days_before_month year (Suc month) + days) (Suc month)
      = (Suc month + n, days)"
    using Suc.prems by (intro Suc.IH) simp_all
  have "month_loop year (days_before_month year (month + Suc n) - days_before_month year month + days) month =
      month_loop year (days_before_month year (month + Suc n) - days_before_month year month + days - days_in_month year month)
        (Suc month)"
    using le Suc.prems by (intro month_loop_step) simp_all
  also have "\<dots> = (Suc month + n, days)" unfolding eq by (rule ih)
  finally show ?case by simp
qed

section \<open>Dates and seconds\<close>

lemma date_validate_Ok:
  "date_validate d = Ok () \<longleftrightarrow> 2000 \<le> dt_year d \<and> dt_year d \<le> 2099 \<and> 1 \<le> dt_day d
     \<and> dt_day d \<le> days_in_month (dt_year d) (dt_month d) \<and> dt_hour d \<le> 23 \<and> dt_minute d \<le> 59 \<and> dt_second d \<le> 59"
  by (auto simp: date_validate_def MIN_YEAR_def MAX_YEAR_def Let_def)

definition date_days :: "utc_date_time \<Rightarrow> nat" where
  "date_days d = days_before_year (dt_year d) + days_before_month (dt_year d) (dt_month d) + (dt_day d - 1)"

lemma to_unix_Ok:
  "to_unix_seconds d = Ok u \<longleftrightarrow> date_validate d = Ok () \<and>
     u = date_days d * 86400 + (dt_hour d * 3600 + dt_minute d * 60 + dt_second d)"
  by (auto simp: to_unix_seconds_def rbind_Inr_iff date_days_def SECONDS_PER_DAY_def)

lemma range_ends:
  "to_unix_seconds \<lparr>dt_year = MIN_YEAR, dt_month = 1, dt_day = 1, dt_hour = 0, dt_minute = 0, dt_second = 0\<rparr> = Ok 946684800"
  "to_unix_seconds \<lparr>dt_year = MAX_YEAR, dt_month = 12, dt_day = 31, dt_hour = 23, dt_minute = 59, dt_second = 59\<rparr> = Ok 4102444799"
  by (simp_all add: to_unix_Ok date_validate_Ok date_days_def MIN_YEAR_def MAX_YEAR_def days_in_month_def
      days_before_month_def days_before_year_def is_leap_year_def)

lemmas from_unix_seconds_eq = from_unix_seconds_def [unfolded range_ends rbind_simps]

definition clock_in_range :: "nat \<Rightarrow> bool" where
  "clock_in_range unix \<longleftrightarrow> 946684800 \<le> unix \<and> unix \<le> 4102444799"

text \<open>The two loops find the one date of a day number.\<close>

lemma loops_date:
  assumes "date_validate d = Ok ()"
  shows "year_loop (date_days d) 1970 = (dt_year d, days_before_month (dt_year d) (dt_month d) + (dt_day d - 1))"
    and "month_loop (dt_year d) (days_before_month (dt_year d) (dt_month d) + (dt_day d - 1)) 1 = (dt_month d, dt_day d - 1)"
proof -
  note v = assms [unfolded date_validate_Ok]
  then have m: "1 \<le> dt_month d" "dt_month d \<le> 12" using days_in_month_pos [of "dt_year d" "dt_month d"] by simp_all
  have "days_before_month (dt_year d) (dt_month d) + (dt_day d - 1) < year_days (dt_year d)"
    using days_before_month_le [OF m, of "dt_year d"] v by linarith
  then show "year_loop (date_days d) 1970 = (dt_year d, days_before_month (dt_year d) (dt_month d) + (dt_day d - 1))"
    using year_loop_date [of 1970 "days_before_month (dt_year d) (dt_month d) + (dt_day d - 1)" "dt_year d - 1970"] v
    by (simp add: date_days_def add.assoc)
  have "dt_day d - 1 < days_in_month (dt_year d) (dt_month d)" using v by linarith
  then show "month_loop (dt_year d) (days_before_month (dt_year d) (dt_month d) + (dt_day d - 1)) 1 = (dt_month d, dt_day d - 1)"
    using month_loop_date [of 1 "dt_month d - 1" "dt_day d - 1" "dt_year d"] v m
    by (simp add: days_before_month_def [of _ "Suc 0"])
qed

text \<open>Every day number of the range belongs to a valid date.\<close>

lemma year_of_days:
  assumes "days_before_year 2000 \<le> days" "days < days_before_year 2100"
  shows "\<exists>year\<ge>2000. year \<le> 2099 \<and> days_before_year year \<le> days \<and> days < days_before_year year + year_days year"
proof -
  have "n \<le> 100 \<Longrightarrow> days < days_before_year (2000 + n) \<Longrightarrow> \<exists>year\<ge>2000. year < 2000 + n \<and> days_before_year year \<le> days
      \<and> days < days_before_year (Suc year)" for n
  proof (induction n)
    case (Suc n)
    show ?case
    proof (cases "days < days_before_year (2000 + n)")
      case True
      with Suc obtain year where "2000 \<le> year" "year < 2000 + n" "days_before_year year \<le> days" "days < days_before_year (Suc year)"
        by auto
      then show ?thesis by (intro exI [of _ year]) simp
    next
      case False
      with Suc.prems show ?thesis by (intro exI [of _ "2000 + n"]) simp
    qed
  qed (use assms in simp)
  from this [of 100] assms(2) obtain year where "2000 \<le> year" "year < 2100" "days_before_year year \<le> days"
    "days < days_before_year (Suc year)" by auto
  then show ?thesis by (intro exI [of _ year]) (simp add: days_before_year_Suc)
qed

lemma month_of_days:
  assumes "days < year_days year"
  shows "\<exists>month\<ge>1. month \<le> 12 \<and> days_before_month year month \<le> days
     \<and> days < days_before_month year month + days_in_month year month"
proof -
  have "n < 12 \<Longrightarrow> days < days_before_month year (Suc n) + days_in_month year (Suc n) \<Longrightarrow> ?thesis" for n
  proof (induction n)
    case (Suc n)
    show ?case
    proof (cases "days < days_before_month year (Suc (Suc n))")
      case True
      with Suc show ?thesis by (simp add: days_before_month_Suc)
    next
      case False
      with Suc.prems show ?thesis by (intro exI [of _ "Suc (Suc n)"]) simp
    qed
  qed (intro exI [of _ 1]; simp add: days_before_month_def)
  moreover have "days < days_before_month year 12 + days_in_month year 12"
    using assms by (auto simp: days_before_month_def days_in_month_def year_days_def split: if_splits)
  ultimately show ?thesis by (auto dest: meta_spec [of _ 11] simp: numeral_eq_Suc)
qed

lemma date_of_days:
  assumes "days_before_year 2000 \<le> days" "days < days_before_year 2100" "s < 86400"
  shows "\<exists>d. date_validate d = Ok () \<and> date_days d = days
     \<and> dt_hour d = s div 3600 \<and> dt_minute d = s mod 3600 div 60 \<and> dt_second d = s mod 60"
proof -
  obtain year where y: "2000 \<le> year" "year \<le> 2099" "days_before_year year \<le> days" "days - days_before_year year < year_days year"
    using year_of_days [OF assms(1,2)] by auto
  obtain month where m: "1 \<le> month" "month \<le> 12" "days_before_month year month \<le> days - days_before_year year"
    "days - days_before_year year < days_before_month year month + days_in_month year month"
    using month_of_days [OF y(4)] by auto
  let ?day = "days - days_before_year year - days_before_month year month + 1"
  have "s div 3600 < 24" "s mod 3600 div 60 < 60" "s mod 60 \<le> 59"
    using assms(3) by (auto intro!: less_mult_imp_div_less simp: less_Suc_eq_le [symmetric])
  then show ?thesis
    using y m by (intro exI [of _ "\<lparr>dt_year = year, dt_month = month, dt_day = ?day, dt_hour = s div 3600,
        dt_minute = s mod 3600 div 60, dt_second = s mod 60\<rparr>"])
      (auto simp: date_validate_Ok date_days_def)
qed

lemma day_range:
  assumes "date_validate d = Ok ()"
  shows "days_before_year 2000 \<le> date_days d \<and> date_days d < days_before_year 2100"
proof -
  note v = assms [unfolded date_validate_Ok]
  then have m: "1 \<le> dt_month d" "dt_month d \<le> 12" using days_in_month_pos [of "dt_year d" "dt_month d"] by simp_all
  have "date_days d < days_before_year (dt_year d) + year_days (dt_year d)"
    using days_before_month_le [OF m, of "dt_year d"] v unfolding date_days_def by linarith
  also have "\<dots> \<le> days_before_year 2100"
    using days_before_year_mono [of "dt_year d" "2099 - dt_year d"] v by simp
  finally have "date_days d < days_before_year 2100" .
  moreover have "days_before_year 2000 \<le> days_before_year (dt_year d)"
    using days_before_year_mono [of 2000 "dt_year d - 2001"] v by (cases "dt_year d = 2000") auto
  ultimately show ?thesis by (simp add: date_days_def)
qed

lemma century_days: "days_before_year 2000 = 10957" "days_before_year 2100 = 47482"
  by (simp_all add: days_before_year_def)

text \<open>On the dates of the range, reading seconds inverts counting them.\<close>

lemma from_to_unix:
  assumes "to_unix_seconds d = Ok u"
  shows "from_unix_seconds u = Ok d"
proof -
  have v: "date_validate d = Ok ()" and u: "u = date_days d * 86400 + (dt_hour d * 3600 + dt_minute d * 60 + dt_second d)"
    using assms unfolding to_unix_Ok by auto
  have b: "dt_hour d \<le> 23" "dt_minute d \<le> 59" "dt_second d \<le> 59" "dt_day d \<noteq> 0" "dt_day d \<le> 31"
    using v by (auto simp: date_validate_Ok days_in_month_def split: if_splits)
  define s where "s = dt_hour d * 3600 + dt_minute d * 60 + dt_second d"
  define r where "r = dt_minute d * 60 + dt_second d"
  have r: "r < 3600" "r div 60 = dt_minute d" and sr: "s = dt_hour d * 3600 + r" "s = (dt_hour d * 60 + dt_minute d) * 60 + dt_second d"
    using b by (simp_all add: r_def s_def)
  have "s mod 3600 = r" using r by (simp add: sr(1))
  moreover have "s mod 60 = dt_second d" using b unfolding sr(2) by (simp only: mod_mult_self3) simp
  ultimately have s: "s < 86400" "s div 3600 = dt_hour d" "s mod 3600 div 60 = dt_minute d" "s mod 60 = dt_second d"
    using b r by (simp_all add: sr(1))
  have parts: "u div 86400 = date_days d" "u mod 86400 = s" using s(1) by (simp_all add: u s_def [symmetric])
  have "946684800 \<le> u" "u \<le> 4102444799" using day_range [OF v] s(1) unfolding century_days u s_def [symmetric] by linarith+
  then show ?thesis using b s parts loops_date [OF v]
    by (simp add: from_unix_seconds_eq SECONDS_PER_DAY_def)
qed

lemma from_unix_Ok: "from_unix_seconds u = Ok d \<longleftrightarrow> to_unix_seconds d = Ok u"
proof
  assume f: "from_unix_seconds u = Ok d"
  then have "946684800 \<le> u" "u \<le> 4102444799"
    by (auto simp: from_unix_seconds_eq split: if_splits)
  then have "days_before_year 2000 \<le> u div 86400" "u div 86400 < days_before_year 2100" unfolding century_days by linarith+
  then obtain d' where d': "date_validate d' = Ok ()" "date_days d' = u div 86400" "dt_hour d' = u mod 86400 div 3600"
    "dt_minute d' = u mod 86400 mod 3600 div 60" "dt_second d' = u mod 86400 mod 60"
    using date_of_days [of "u div 86400" "u mod 86400"] by auto
  define w where "w = u mod 86400"
  have "w mod 3600 mod 60 = w mod 60" by (rule mod_mod_cancel) simp
  then have "u = u div 86400 * 86400 + (w div 3600 * 3600 + w mod 3600 div 60 * 60 + w mod 60)"
    using div_mult_mod_eq [of u 86400] div_mult_mod_eq [of w 3600] div_mult_mod_eq [of "w mod 3600" 60] unfolding w_def by linarith
  with d' have t: "to_unix_seconds d' = Ok u" unfolding to_unix_Ok w_def by simp
  with f from_to_unix [OF t] show "to_unix_seconds d = Ok u" by simp
qed (rule from_to_unix)

lemma from_unix_defined: "(\<exists>d. from_unix_seconds u = Ok d) \<longleftrightarrow> clock_in_range u"
  by (auto simp: from_unix_seconds_eq clock_in_range_def Let_def split: prod.splits if_splits)

section \<open>Windows that do not overlap\<close>

lemma try_fold_all: "try_fold (\<lambda>_. f) () xs = Ok () \<longleftrightarrow> list_all (\<lambda>x. f x = Ok ()) xs"
  by (induction xs) (auto simp: rbind_Inr_iff)

lemma window_validate_Ok:
  "window_validate w = Ok () \<longleftrightarrow> sw_weekday w \<le> 6 \<and> sw_start_minute w < sw_end_minute w \<and> sw_end_minute w \<le> 1440"
  by (auto simp: window_validate_def MINUTES_PER_DAY_def)

fun disjoint_windows :: "signing_window list \<Rightarrow> bool" where
  "disjoint_windows [] \<longleftrightarrow> True"
| "disjoint_windows (w # ws) \<longleftrightarrow> \<not> list_ex (windows_overlap w) ws \<and> disjoint_windows ws"

lemma disjoint_windows_drop:
  "disjoint_windows ws \<longleftrightarrow> (\<forall>i<length ws. \<not> list_ex (windows_overlap (ws ! i)) (drop (i + 1) ws))"
  by (induction ws) (auto simp: less_Suc_eq_0_disj)

lemma validate_windows_Ok:
  assumes "sp_weekly_count p \<le> length (sp_windows p)"
  shows "validate_windows p = Ok () \<longleftrightarrow>
     list_all (\<lambda>w. window_validate w = Ok ()) (take (sp_weekly_count p) (sp_windows p))
     \<and> disjoint_windows (take (sp_weekly_count p) (sp_windows p))"
  using assms unfolding validate_windows_def Let_def try_fold_all disjoint_windows_drop
  by (auto simp: rbind_Inr_iff list_all_length list_all_iff)

lemma window_key_order:
  assumes "window_key a \<le> window_key b"
  shows "sw_weekday a < sw_weekday b \<or> sw_weekday a = sw_weekday b \<and> sw_start_minute a \<le> sw_start_minute b"
  using assms unfolding window_key_def less_eq_prod_def by auto

lemma sorted_disjoint:
  assumes "sorted (map window_key ws)" "list_all (\<lambda>w. window_validate w = Ok ()) ws" "\<not> adjacent_overlap ws"
  shows "disjoint_windows ws"
  using assms
proof (induction ws rule: adjacent_overlap.induct)
  case (1 a b ws)
  have v: "window_validate a = Ok ()" "window_validate b = Ok ()" "\<And>c. c \<in> set ws \<Longrightarrow> window_validate c = Ok ()"
    using 1(3) by (auto simp: list_all_iff)
  have ab: "\<not> windows_overlap a b" and o: "window_key a \<le> window_key b" "\<And>c. c \<in> set ws \<Longrightarrow> window_key b \<le> window_key c"
    using 1(2,4) by auto
  have "\<not> windows_overlap a c" if c: "c \<in> set ws" for c
    using ab window_key_order [OF o(1)] window_key_order [OF o(2) [OF c]] v(1,2) v(3) [OF c]
    by (auto simp: windows_overlap_def window_validate_Ok)
  then show ?case using 1 ab by (auto simp: list_ex_iff)
qed auto

lemma parse_window_Ok: "parse_window part = Ok w \<Longrightarrow> window_validate w = Ok ()"
  by (auto simp: parse_window_def Let_def rbind_Inr_iff split: if_splits)

definition windows_ok :: "signing_window list \<times> nat \<Rightarrow> bool" where
  "windows_ok st \<longleftrightarrow> length (fst st) = 4 \<and> snd st \<le> 4 \<and> list_all (\<lambda>w. window_validate w = Ok ()) (take (snd st) (fst st))
     \<and> drop (snd st) (fst st) = replicate (4 - snd st) EMPTY_WINDOW"

lemma parse_window_list_Ok:
  assumes "parse_window_list input = Ok (windows, count)"
  shows "windows_ok (windows, count) \<and> 0 < count"
proof -
  define f where "f = (\<lambda>(windows, count) raw.
       let part = trim_ascii raw in
       if part = [] then Err InvalidFormat
       else if count \<ge> MAX_WEEKLY_WINDOWS then Err TooManyWindows
       else rbind (parse_window part) (\<lambda>w. Ok (windows[count := w], count + 1)))"
  have dropS: "drop (Suc n) (xs[n := x]) = tl (drop n xs)" for n x and xs :: "signing_window list"
    by (simp add: tl_drop flip: drop_Suc)
  have step: "windows_ok st' \<and> snd st' = Suc (snd st)" if "windows_ok st" "f st raw = Ok st'" for st raw st'
    using that by (auto simp: f_def windows_ok_def Let_def rbind_Inr_iff MAX_WEEKLY_WINDOWS_def take_Suc_conv_app_nth
        dropS list_all_iff dest: parse_window_Ok split: if_splits prod.splits)
  have run: "try_fold f st raws = Ok st' \<Longrightarrow> windows_ok st \<Longrightarrow> windows_ok st' \<and> snd st' = snd st + length raws" for raws st st'
  proof (induction raws arbitrary: st)
    case (Cons raw raws)
    then show ?case using step by (fastforce simp: rbind_Inr_iff)
  qed simp
  have "split_bytes 0x3B input \<noteq> []" by (cases input) (auto split: list.splits)
  moreover have "windows_ok (replicate MAX_WEEKLY_WINDOWS EMPTY_WINDOW, 0)" by (simp add: windows_ok_def MAX_WEEKLY_WINDOWS_def)
  ultimately show ?thesis using run [of _ "split_bytes 0x3B input"] assms
    unfolding parse_window_list_def f_def [symmetric] by fastforce
qed

lemma date_minute_of_day:
  assumes "to_unix_seconds d = Ok u"
  shows "dt_hour d * 60 + dt_minute d = u mod 86400 div 60" and "u div 86400 = date_days d"
proof -
  have u: "u = date_days d * 86400 + (dt_hour d * 3600 + dt_minute d * 60 + dt_second d)"
    and b: "dt_hour d \<le> 23" "dt_minute d \<le> 59" "dt_second d \<le> 59"
    using assms unfolding to_unix_Ok date_validate_Ok by auto
  have "u mod 86400 = (dt_hour d * 60 + dt_minute d) * 60 + dt_second d" using b by (simp add: u)
  then show "dt_hour d * 60 + dt_minute d = u mod 86400 div 60" using b by simp
  show "u div 86400 = date_days d" using b by (simp add: u)
qed

section \<open>Properties\<close>

text \<open>
  Dates and Unix seconds correspond one to one from 2000 to 2099: reading seconds gives a date exactly when counting the
  seconds of that date gives them back, and it succeeds exactly on the seconds of the range.
\<close>

theorem calendar_roundtrip:
  "(from_unix_seconds u = Ok d \<longleftrightarrow> to_unix_seconds d = Ok u)
   \<and> ((\<exists>d. from_unix_seconds u = Ok d) \<longleftrightarrow> clock_in_range u)
   \<and> ((\<exists>u. to_unix_seconds d = Ok u) \<longleftrightarrow> date_validate d = Ok ())"
  using from_unix_Ok [of u d] from_unix_defined [of u] to_unix_Ok [of d] by blast

text \<open>
  (C16) What the policy decides. Signing is allowed exactly when the policy is valid, the clock shows neither less than the
  floor it has already reached nor less than the lock time, and, with weekly windows, the clock is in range and one of the
  enabled windows is on the current weekday (counted from Monday) and holds the current minute of the day.
\<close>

theorem policy_evaluate_exact:
  "policy_evaluate p now = Allowed \<longleftrightarrow>
     policy_validate p = Ok () \<and> sp_rtc_floor_unix p \<le> now \<and> sp_not_before_unix p \<le> now
     \<and> (if sp_weekly_enabled p
        then clock_in_range now
          \<and> (\<exists>w\<in>set (take (sp_weekly_count p) (sp_windows p)).
               sw_weekday w = (now div 86400 + 3) mod 7
               \<and> sw_start_minute w \<le> now mod 86400 div 60 \<and> now mod 86400 div 60 < sw_end_minute w)
        else True)"
proof -
  have weekly: "(case from_unix_seconds now of Inl _ \<Rightarrow> ClockInvalid
       | Inr d \<Rightarrow> (case weekday_monday0 d of Inl _ \<Rightarrow> ClockInvalid
          | Inr weekday \<Rightarrow> let minute = dt_hour d * 60 + dt_minute d; allowed = list_ex (\<lambda>w. window_contains w weekday minute) ws
              in if \<not> allowed then OutsideWeeklyWindow else Allowed)) = Allowed \<longleftrightarrow>
     clock_in_range now \<and> (\<exists>w\<in>set ws. sw_weekday w = (now div 86400 + 3) mod 7
        \<and> sw_start_minute w \<le> now mod 86400 div 60 \<and> now mod 86400 div 60 < sw_end_minute w)" for ws
  proof (cases "from_unix_seconds now")
    case (Inl e)
    then show ?thesis using from_unix_defined [of now] by auto
  next
    case (Inr d)
    then have t: "to_unix_seconds d = Ok now" by (simp add: from_unix_Ok)
    have "clock_in_range now" using Inr from_unix_defined by blast
    then show ?thesis using Inr date_minute_of_day [OF t] t
      by (auto simp: weekday_monday0_def SECONDS_PER_DAY_def window_contains_def list_ex_iff Let_def)
  qed
  show ?thesis
    by (cases "policy_validate p") (auto simp: policy_evaluate_def weekly simp del: if_True if_False split: if_split)
qed

text \<open>
  (C17) Parsed windows always form a valid policy. Windows the parser returns, installed as the weekly windows of a policy
  whose times are zero or in range, pass the whole validation: one to four windows, sorted by weekday and start, each
  non-empty and within its day, no two overlapping (not only neighbours), and the rest of the array empty.
\<close>

theorem parsed_windows_validate:
  assumes "parse_weekly_windows input = Ok (windows, count)"
    and "validate_policy_times p = Ok ()"
  shows "policy_validate (p\<lparr>sp_weekly_enabled := True, sp_weekly_count := count, sp_windows := windows\<rparr>) = Ok ()
    \<and> length windows = MAX_WEEKLY_WINDOWS \<and> sorted (map window_key (take count windows))"
proof -
  obtain ws n where pl: "parse_window_list input = Ok (ws, n)"
    and w: "windows = sort_key window_key (take n ws) @ drop n ws" and c: "count = n mod 256"
    and adj: "\<not> adjacent_overlap (take n windows)"
    using assms(1) by (auto simp: parse_weekly_windows_def Let_def rbind_Inr_iff reject_adjacent_overlaps_def split: if_splits)
  have ok: "length ws = 4" "n \<le> 4" "0 < n" "list_all (\<lambda>w. window_validate w = Ok ()) (take n ws)"
    "drop n ws = replicate (4 - n) EMPTY_WINDOW" using parse_window_list_Ok [OF pl] by (auto simp: windows_ok_def)
  have n: "count = n" using c ok(2) by simp
  have t: "take n windows = sort_key window_key (take n ws)" "drop n windows = drop n ws" "length windows = 4"
    using ok(1,2) by (simp_all add: w)
  have v: "list_all (\<lambda>w. window_validate w = Ok ()) (take n windows)" using ok(4) by (simp add: t list_all_iff)
  have "sorted (map window_key (take n windows))" by (simp add: t)
  moreover let ?p = "p\<lparr>sp_weekly_enabled := True, sp_weekly_count := n, sp_windows := windows\<rparr>"
  have "validate_window_shape ?p = Ok ()"
    using ok t(2) by (simp add: validate_window_shape_def MAX_WEEKLY_WINDOWS_def list_ex_iff)
  moreover have "validate_windows ?p = Ok ()"
    using sorted_disjoint [OF calculation(1) v adj] v t(3) ok(2) by (simp add: validate_windows_Ok)
  moreover have "validate_policy_times ?p = validate_policy_times p" by (simp add: validate_policy_times_def)
  ultimately show ?thesis using t(3) assms(2) by (simp add: policy_validate_def n MAX_WEEKLY_WINDOWS_def)
qed

definition sample_windows :: bytes where
  "sample_windows = map of_char ''mon 21:33-21:43;MON 08:10-08:25''"

theorem parsed_windows_validate_witness:
  "\<exists>windows. parse_weekly_windows sample_windows = Ok (windows, 2) \<and> sw_start_minute (windows ! 0) = 490
     \<and> policy_validate (policy_disabled\<lparr>sp_weekly_enabled := True, sp_weekly_count := 2, sp_windows := windows\<rparr>) = Ok ()"
proof -
  let ?ws = "[\<lparr>sw_weekday = 0, sw_start_minute = 490, sw_end_minute = 505\<rparr>,
      \<lparr>sw_weekday = 0, sw_start_minute = 1293, sw_end_minute = 1303\<rparr>, EMPTY_WINDOW, EMPTY_WINDOW]"
  have "parse_weekly_windows sample_windows = Ok (?ws, 2)" by code_simp
  moreover from parsed_windows_validate [OF this, of policy_disabled]
  have "policy_validate (policy_disabled\<lparr>sp_weekly_enabled := True, sp_weekly_count := 2, sp_windows := ?ws\<rparr>) = Ok ()"
    by (simp add: validate_policy_times_def policy_disabled_def)
  ultimately show ?thesis by (intro exI [of _ ?ws]) simp
qed

end
