(* ===== verification/Spec2Isabelle.thy ===== *)
theory Spec2Isabelle
  imports Wire_Roundtrip Indexer_Api Planner_Correct Qr_Codec Kspt_Codec
    Execution Contract_Builders Covenant_Identity Covenant_Limits Merkle Shipping_Escrow
    Kspt_Sign_Correct Time_Policy
begin

text \<open>
  Verification of the core logic of Kaspa Portal (paths below are relative to \<open>src/src\<close>).

  \<^bold>\<open>The program.\<close> Kaspa Portal is a Rust library for wallets, hardware signers and services on the Kaspa
  network. Nine of its parts are modelled: the compact binary transaction format KSPT that travels between an online
  wallet and an air-gapped signer; the in-memory transaction it fills, with signature hashing and the verification of
  every signature it carries; hierarchical key derivation and the signers that fill its signature slots; the policy that
  says when a device may sign; the text and script forms of addresses; coin selection, mass and fee planning; the animated
  QR transport that carries a transaction between devices; the covenant contracts, whose redeem scripts are built,
  recognized and traced here; and a lightweight indexer of blocks and transactions. The
  planner pays to addresses and scripts, its plans are serialized, split into QR frames, reassembled on the other
  device and parsed into the transaction model, which is signed, verified and serialized again; the indexer watches
  addresses and payloads.

  \<^bold>\<open>Theories and the code they model.\<close>
  \<^item> \<open>Prelude\<close>, \<open>Strings\<close>: machine integers as words, \<open>Result\<close> as a sum with \<open>rbind\<close> for \<open>?\<close>, little-endian codecs (locale
    \<open>fixed_codec\<close>), UTF-8 strings, and the decimal adapters of \<open>primitives/serialization\<close>.
  \<^item> \<open>Wire_IO\<close>, \<open>Wire_Model\<close>, \<open>Wire_Encode\<close>, \<open>Wire_Decode\<close>: \<open>transaction/interchange/kspt/wire\<close>, the cursors, value
    types, every write and every read function; sources are records of methods, sinks are functions on calls with their own
    state and errors. \<open>Wire_Fields\<close> and \<open>Wire_Trailers\<close> hold the reader contracts (locales \<open>field_parser\<close> and
    \<open>trailer_group\<close>, interpreted on each reader of the code) and \<open>Wire_Roundtrip\<close> the theorems: decoding undoes encoding
    on every sink, the accepted byte strings are exactly the canonical ones, all limits are enforced, and
    \<open>encode_vec\<close> ends with the encoding.
  \<^item> \<open>Tx_Model\<close>: \<open>transaction/model\<close>, scripts, inputs, outputs, the transaction with its fixed arrays and redeem pool.
  \<^item> \<open>Sighash\<close>: \<open>transaction/sighash\<close>. A signature hash commits to exactly the fields its type covers (locale
    \<open>prefix_code\<close> for the concatenations that are hashed).
  \<^item> \<open>Branch\<close>: \<open>contract/covenant/branch.rs\<close>. The branch resolver against an interpreter of the conditionals.
  \<^item> \<open>Execution\<close>: \<open>contract/covenant/execution.rs\<close>. The trace of a covenant's witness stack asks for exactly the
    signatures the branch resolver reports for the chosen branch.
  \<^item> \<open>Contract_Script\<close>: \<open>contract/script\<close> and the opcodes the contracts use. Pushes, script integers and the readers
    that search for them.
  \<^item> \<open>Covenant_Templates\<close>, \<open>Covenant_Limits\<close>, \<open>Merkle\<close>, \<open>Shipping_Escrow\<close>: the builders and recognizers of
    \<open>contract/covenant/script\<close>, \<open>contract/commit_reveal\<close>, \<open>contract/merkle\<close> and \<open>contract/shipping_escrow\<close>. A recognizer
    accepts exactly what its builder makes (locale \<open>script_template\<close>, interpreted on every template); Merkle proofs are
    complete and sound; shipment tranches add up.
  \<^item> \<open>Contract_Builders\<close>: \<open>contract/vault\<close>, \<open>contract/crowdfund\<close>, \<open>contract/oracle\<close>, \<open>contract/zk\<close>,
    \<open>contract/covenant/spend_path.rs\<close> and \<open>contract/krc20.rs\<close>. The offsets a script inspects in its own spend hold what it
    expects.
  \<^item> \<open>Covenant_Identity\<close>: \<open>contract/covenant/identity.rs\<close>. A genesis is exact, and an identity names one genesis.
  \<^item> \<open>Kspt_Validate\<close>, \<open>Sig_Verify\<close>: \<open>transaction/interchange/kspt/validation.rs\<close>, \<open>script.rs\<close>, \<open>error.rs\<close> and
    \<open>transaction/signature_verification\<close>. What passes validation; completion and status count exactly the valid
    signatures (locale \<open>signature_slots\<close>, interpreted on the compact and the standard slots).
  \<^item> \<open>Bip32\<close>: \<open>wallet/derivation/bip32\<close>, \<open>hmac.rs\<close> and \<open>kip22.rs\<close>. The byte-wise scalar addition is addition modulo the group
    order; public derivation gives the public halves of private derivation; the address searches are exact.
  \<^item> \<open>Kssn\<close>, \<open>Kspt_Context\<close>, \<open>Kspt_Sign\<close>, \<open>Kspt_Sign_Correct\<close>: \<open>kssn.rs\<close> and \<open>signing\<close> of
    \<open>transaction/interchange/kspt\<close>. Signature responses have one encoding; the keys a session finds fit the keys it was
    asked for; signers change nothing but signature slots and leave valid signatures only, and a key completes the
    transactions that pay to it.
  \<^item> \<open>Time_Policy\<close>: \<open>transaction/policy/time.rs\<close>. The calendar is exact from 2000 to 2099, a policy allows what its floor,
    lock time and weekly windows say, and parsed windows are valid and disjoint.
  \<^item> \<open>Kspt_Codec\<close>: \<open>transaction/interchange/kspt/codec\<close>. Serializing and parsing a transaction: the round trip through
    the grammar, what parsing accepts, and that the vector serializer returns.
  \<^item> \<open>Script\<close>: \<open>primitives/opcode.rs\<close>, \<open>script.rs\<close>, \<open>multisig_script.rs\<close>. The element iterator ends and is exact; the
    multisig codec is canonical.
  \<^item> \<open>Network_Id\<close>: \<open>NetworkId\<close> of \<open>primitives/mod.rs\<close> with its names.
  \<^item> \<open>Address\<close>, \<open>Address_Checksum\<close>, \<open>Address_Codec\<close>: \<open>primitives/address/mod.rs\<close>. The checksum is linear, hence eight
    checksum characters exist and are unique, and one wrong character is always detected; decoding accepts exactly the
    encoder's text; addresses and standard locking scripts correspond.
  \<^item> \<open>Mass\<close>: \<open>transaction/builder/planning/amounts.rs\<close>, \<open>transaction/mass.rs\<close> and the structs of
    \<open>transaction/consensus/model.rs\<close>. The overflow-checked storage mass is the KIP-9 rule on unbounded numbers; the
    planner's fee equals the analysis of the signed transaction.
  \<^item> \<open>Planner\<close>, \<open>Planner_Correct\<close>: \<open>transaction/builder/selection\<close>, \<open>planning\<close>, \<open>model\<close>, \<open>standard.rs\<close> and
    \<open>standard/payload.rs\<close>. Selections are optimal or exact, plans conserve value, the fee search settles.
  \<^item> \<open>Qr_Frame\<close>, \<open>Qr_Codec\<close>: \<open>transaction/interchange/qr\<close> and \<open>primitives/qr_payload.rs\<close>. The decoder refines an abstract
    session, delivers every transfer in any scan order, and delivers nothing whose digest it did not verify.
  \<^item> \<open>Indexer_Model\<close>, \<open>Indexer_Store\<close>, \<open>Indexer_Engine\<close>, \<open>Indexer_Api\<close>: \<open>indexer\<close>. Reachable engines are given by an
    inductive relation over all operations; bounds, referential integrity, persistence, atomic batches, expiry,
    reorganisation, deduplication (locale \<open>dedupe_window\<close>) and paging are proved on it.

  \<^bold>\<open>Conventions.\<close> A \<open>usize\<close> is a \<open>nat\<close>. A \<open>u64\<close> amount is a \<open>nat\<close> with every checked operation's bound written
  out; where bits or wrap-around matter an integer is a word of its width. A method on mutable state returns the state it
  leaves behind, also on errors. Third-party code is a parameter: BLAKE2b, SHA-2, the curve, Schnorr signatures, the \<open>hex\<close> and
  \<open>qrcode\<close> crates, the encoder of a finished plan, the clock, the allocator, durable storage, hash-map iteration order, and
  \<open>serde_json\<close> values (a type parameter). The hypotheses on them: digests have 32 bytes; for \<open>sighash_commits\<close>, the keyed
  hash has no collision among the strings the two computations hash, and none of them hashes to zeros; for
  \<open>merkle_proof_sound\<close> and \<open>covenant_identity_unique\<close>, no collision among the strings hashed there; for the round trip
  of the model, the allocator does not fail; for public derivation, \<open>curve_laws\<close> (scalars are the numbers below the group
  order, multiplying the generator is additive, encoded points decode); for the signers, \<open>signer_laws\<close> (a signature made
  with a key verifies under that key).

  \<^bold>\<open>Termination and bounds.\<close> All definitions are total. Loops with no structural measure have one: bytes ahead of the
  reader (trailers, script elements), keys left in an order queue (evictions), distance to the largest wire size
  (\<open>encode_vec\<close> and \<open>serialize_compact_kspt_vec\<close>, which take 64 doublings as fuel and are proved to return). The fee searches have the pass limits of the code, which are part of the
  modelled behaviour and not extra fuel.

  \<^bold>\<open>Not modelled.\<close> PSKT and PSKB, whose documents are read and written by a third-party JSON library; the covenant,
  multisig and PSKB builders that assemble such documents; the remaining wallet (mnemonics, encrypted storage, account
  bookkeeping) and the facades that forward to what is modelled. Curve and cipher arithmetic is third-party code;
  asynchronous networking, browser and native bindings only move data; the randomness tests are floating-point
  statistics; self tests are embedded vectors.
\<close>

end
